(* ===== verification/Gve_Prelude.thy ===== *)
theory Gve_Prelude
  imports Main "HOL-Library.Word"
begin

text \<open>
  Shared vocabulary of the development: widths of the C integers, the error codes a driver
  function returns, and the generic facts on masks, alignment, circular intervals, array slices
  and index-linked lists that the component theories rest on.
\<close>

unbundle bit_operations_syntax

named_theorems gve_arith \<open>arithmetic of alignment, masks and circular offsets\<close>
named_theorems gve_frame \<open>fields and array slots an operation leaves alone\<close>

type_synonym u8 = "8 word"
type_synonym u16 = "16 word"
type_synonym u32 = "32 word"
type_synonym u64 = "64 word"

section \<open>Error codes\<close>

text \<open>
  A C function returning \<open>int err\<close> with 0 for success returns \<open>errno option\<close> here: \<open>None\<close>
  is 0. \<open>EOTHER\<close> stands for a code that the kernel hands through.
\<close>

datatype errno =
    EINVAL | ENOBUFS | ENOMEM | ENXIO | ENOSPC | ENODEV | EAGAIN | ETIMEDOUT | EACCES
  | EOPNOTSUPP | ENOTRECOVERABLE | EFBIG | EOTHER nat

type_synonym err = "errno option"

section \<open>Masks of power-of-two rings\<close>

text \<open>A ring of \<open>2 ^ k\<close> slots is indexed with a free-running 32-bit counter and a mask.\<close>

definition ring_mask :: "nat \<Rightarrow> u32 \<Rightarrow> bool" where
  "ring_mask k m \<longleftrightarrow> k < 32 \<and> m = mask k"

lemma ring_mask_lt [gve_arith]: "ring_mask k m \<Longrightarrow> unat m + 1 = 2 ^ k"
proof -
  assume a: "ring_mask k m"
  then have k: "k < 32" and m: "m = mask k" by (auto simp: ring_mask_def)
  have "uint (mask k :: u32) = mask k" using k by (simp add: uint_mask_eq)
  then have "unat (mask k :: u32) = nat (2 ^ k - 1)"
    by (simp add: unat_eq_nat_uint mask_eq_exp_minus_1 del: uint_nat)
  then show ?thesis using m by (simp add: nat_diff_distrib nat_power_eq)
qed

lemma unat_and_mask [gve_arith]:
  assumes "ring_mask k m"
  shows "unat (x AND m) = unat x mod 2 ^ k"
proof -
  have k: "k < 32" and m: "m = mask k" using assms by (auto simp: ring_mask_def)
  have "unat (x AND mask k) = unat (take_bit k x)" by (simp only: take_bit_eq_mask)
  also have "\<dots> = take_bit k (unat x)" by (rule unsigned_take_bit_eq)
  also have "\<dots> = unat x mod 2 ^ k" by (simp only: take_bit_eq_mod)
  finally show ?thesis by (simp only: m)
qed

lemma and_mask_bound: "ring_mask k m \<Longrightarrow> unat (x AND m) < 2 ^ k"
  by (simp add: unat_and_mask)

lemma unat_add_of_nat_mod:
  assumes "ring_mask k m"
  shows "unat ((x + of_nat j) AND m) = (unat x + j) mod 2 ^ k"
proof -
  have k: "k \<le> 32" using assms by (simp add: ring_mask_def)
  then obtain e where e: "32 = k + e" using le_Suc_ex by blast
  have dv: "(2::nat) ^ k dvd 2 ^ 32" unfolding e by (simp add: power_add)
  have "unat (x + of_nat j) = (unat x + j mod 2 ^ 32) mod 2 ^ 32"
    by (simp add: unat_word_ariths unsigned_of_nat take_bit_eq_mod)
  also have "\<dots> = (unat x + j) mod 2 ^ 32" by (simp add: mod_add_right_eq)
  finally show ?thesis using assms dv by (simp add: unat_and_mask mod_mod_cancel)
qed

text \<open>
  Two free-running counters closer together than the ring size never share a slot.
\<close>

lemma mod_add_neq:
  fixes a i j n :: nat
  assumes "i < n" and "j < n" and "i \<noteq> j"
  shows "(a + i) mod n \<noteq> (a + j) mod n"
proof
  assume "(a + i) mod n = (a + j) mod n"
  then have "int i mod int n = int j mod int n"
    by (metis add_diff_cancel_left' mod_diff_left_eq of_nat_add zmod_int)
  with assms show False by (simp flip: zmod_int)
qed

section \<open>Cache-line alignment\<close>

text \<open>\<open>roundup2(x, y)\<close> of \<open>sys/param.h\<close> for a power of two \<open>y\<close>.\<close>

definition roundup2 :: "nat \<Rightarrow> nat \<Rightarrow> nat" where
  "roundup2 x y = (x + (y - 1)) div y * y"

lemma roundup2_dvd [gve_arith]: "y dvd roundup2 x y"
  by (simp add: roundup2_def)

lemma roundup2_ge [gve_arith]: "0 < y \<Longrightarrow> x \<le> roundup2 x y"
proof -
  assume y: "0 < y"
  have "(x + (y - 1)) mod y \<le> y - 1" using y mod_less_divisor[OF y, of "x + (y - 1)"] by linarith
  moreover have "(x + (y - 1)) div y * y + (x + (y - 1)) mod y = x + (y - 1)" by simp
  ultimately show ?thesis unfolding roundup2_def by linarith
qed

lemma roundup2_least [gve_arith]:
  assumes "y dvd z" and "x \<le> z" and "0 < y"
  shows "roundup2 x y \<le> z"
proof -
  obtain q where z: "z = y * q" using assms(1) by (auto elim: dvdE)
  have "x + (y - 1) < Suc q * y" using assms(2,3) by (simp add: z mult.commute)
  then have "(x + (y - 1)) div y \<le> q"
    using assms(3) by (simp add: div_less_iff_less_mult less_Suc_eq_le [symmetric])
  then show ?thesis unfolding roundup2_def z by (metis mult.commute mult_le_mono2)
qed

lemma roundup2_aligned [simp]: "y dvd x \<Longrightarrow> 0 < y \<Longrightarrow> roundup2 x y = x"
  by (meson order_antisym order_refl roundup2_ge roundup2_least)

lemma roundup2_add [gve_arith]: "y dvd a \<Longrightarrow> 0 < y \<Longrightarrow> roundup2 (a + x) y = a + roundup2 x y"
proof -
  assume "y dvd a" and y: "0 < y"
  then obtain q where a: "a = y * q" by (auto elim: dvdE)
  have "(a + x + (y - 1)) div y = q + (x + (y - 1)) div y"
    using y div_mult_self2 [of y "x + (y - 1)" q] unfolding a by (simp only: ac_simps)
  then show ?thesis unfolding roundup2_def by (simp only: distrib_right) (simp add: a)
qed

lemma roundup2_0 [simp]: "0 < y \<Longrightarrow> roundup2 0 y = 0"
  by simp

section \<open>Slices of a memory area\<close>

definition slice :: "'a list \<Rightarrow> nat \<Rightarrow> nat \<Rightarrow> 'a list" where
  "slice mem off len = take len (drop off mem)"

definition blit :: "'a list \<Rightarrow> nat \<Rightarrow> 'a list \<Rightarrow> 'a list" where
  "blit mem off bs = take off mem @ bs @ drop (off + length bs) mem"

lemma length_blit [simp]: "off + length bs \<le> length mem \<Longrightarrow> length (blit mem off bs) = length mem"
  by (simp add: blit_def)

lemma length_slice [simp]: "off + len \<le> length mem \<Longrightarrow> length (slice mem off len) = len"
  by (simp add: slice_def)

lemma slice_0 [simp]: "slice mem off 0 = []"
  by (simp add: slice_def)

lemma slice_append: "slice mem off (a + b) = slice mem off a @ slice mem (off + a) b"
  by (simp add: slice_def take_add add.commute)

lemma slice_blit_same:
  "off + length bs \<le> length mem \<Longrightarrow> len = length bs \<Longrightarrow> slice (blit mem off bs) off len = bs"
  by (simp add: slice_def blit_def)

lemma nth_blit:
  assumes "off + length bs \<le> length mem" and "i < length mem"
  shows "blit mem off bs ! i = (if off \<le> i \<and> i < off + length bs then bs ! (i - off) else mem ! i)"
  using assms by (auto simp: blit_def nth_append min_def)

lemma slice_blit_disjoint:
  assumes "off + length bs \<le> length mem" and "o2 + len \<le> length mem"
    and disj: "\<And>x. off \<le> x \<Longrightarrow> x < off + length bs \<Longrightarrow> o2 \<le> x \<Longrightarrow> x < o2 + len \<Longrightarrow> False"
  shows "slice (blit mem off bs) o2 len = slice mem o2 len"
proof (rule nth_equalityI)
  show "length (slice (blit mem off bs) o2 len) = length (slice mem o2 len)"
    using assms by simp
next
  fix i assume "i < length (slice (blit mem off bs) o2 len)"
  then have i: "i < len" using assms by simp
  then have "blit mem off bs ! (o2 + i) = mem ! (o2 + i)"
    using assms(1,2) disj [of "o2 + i"] by (auto simp: nth_blit)
  then show "slice (blit mem off bs) o2 len ! i = slice mem o2 len ! i"
    using i assms(1,2) by (simp add: slice_def)
qed

text \<open>Sums and differences that do not wrap.\<close>

lemma unat_add_len: "unat (d :: u32) + n < 2 ^ 32 \<Longrightarrow> unat (d + of_nat n) = unat d + n"
proof -
  assume a: "unat d + n < 2 ^ 32"
  then have "unat (of_nat n :: u32) = n" by (simp add: unat_of_nat take_bit_eq_mod)
  then show ?thesis using a by (simp add: unat_word_ariths)
qed

lemma unat_Suc_lt: "unat (x :: u32) + 1 < 2 ^ 32 \<Longrightarrow> unat (x + 1) = unat x + 1"
  using unat_add_len [of x 1] by simp

text \<open>Stepping around a ring, and the distance of two positions in it.\<close>

lemma adv_one: "ring_mask k msk \<Longrightarrow> unat ((idx + 1) AND msk) = (unat idx + 1) mod 2 ^ k"
  using unat_add_of_nat_mod [of k msk idx 1] by simp

lemma adv_shift: "ring_mask k msk \<Longrightarrow> (unat ((idx + 1) AND msk) + j) mod 2 ^ k = (unat idx + Suc j) mod 2 ^ k"
  by (simp add: adv_one mod_add_left_eq)

lemma mask_lt32: "ring_mask k m \<Longrightarrow> (2 :: nat) ^ k < 2 ^ 32"
  using power_strict_increasing [of k 32 "2 :: nat"] by (simp add: ring_mask_def)

lemma mask_diff:
  assumes m: "ring_mask k m" and h: "unat h = (unat t + p) mod 2 ^ k" and p: "p < 2 ^ k"
  shows "unat ((h - t) AND m) = p"
proof -
  have "k \<le> 32" using m by (simp add: ring_mask_def)
  then obtain e where e: "32 = k + e" using le_Suc_ex by blast
  have dv: "(2::nat) ^ k dvd 2 ^ 32" unfolding e by (simp add: power_add)
  have t: "unat t < 2 ^ 32" using unsigned_less [of t, where 'a = nat] by simp
  have hb: "unat h < 2 ^ 32" using unsigned_less [of h, where 'a = nat] by simp
  have "unat (h - t) = (unat h + (2 ^ 32 - unat t)) mod 2 ^ 32"
  proof (cases "unat t \<le> unat h")
    case True
    then have "unat h + (2 ^ 32 - unat t) = 2 ^ 32 + (unat h - unat t)" using t by simp
    then have "(unat h + (2 ^ 32 - unat t)) mod 2 ^ 32 = (unat h - unat t) mod 2 ^ 32" by (simp only: mod_add_self1)
    then show ?thesis using True hb by (simp add: unat_sub_if')
  next
    case False
    then show ?thesis using t by (simp add: unat_sub_if')
  qed
  then have "unat ((h - t) AND m) = (unat h + (2 ^ 32 - unat t)) mod 2 ^ k"
    using dv by (simp add: unat_and_mask [OF m] mod_mod_cancel)
  also have "\<dots> = (unat t + p + (2 ^ 32 - unat t)) mod 2 ^ k" unfolding h by (simp add: mod_add_left_eq)
  also have "unat t + p + (2 ^ 32 - unat t) = p + 2 ^ 32" using t by simp
  also have "(p + 2 ^ 32) mod 2 ^ k = p mod 2 ^ k" using dv by (metis add.right_neutral dvd_imp_mod_0 mod_add_right_eq)
  finally show ?thesis using p by simp
qed

lemma mod_add_inj_le:
  assumes "(h + a) mod n = (h + b) mod n" "b \<le> a" "a < (n :: nat)"
  shows "a = b"
proof -
  have "n dvd (h + a) - (h + b)" using assms(1,2) mod_eq_dvd_iff_nat [of "h + b" "h + a" n] by simp
  then show ?thesis using assms(2,3) by (auto dest: dvd_imp_le)
qed

lemma mod_add_inj: "(h + a) mod n = (h + b) mod n \<Longrightarrow> a < n \<Longrightarrow> b < (n :: nat) \<Longrightarrow> a = b"
  using mod_add_inj_le [of h a n b] mod_add_inj_le [of h b n a] by (cases "b \<le> a") auto

lemma full_plus_one:
  assumes m: "ring_mask k m" and "(h - t) AND m = m"
  shows "((h + 1) AND m) + 1 AND m = (t + 1) AND (m :: u32)"
proof -
  have "unat (h - t) mod 2 ^ k = unat m" using assms(2) unat_and_mask [OF m, of "h - t"] by simp
  moreover have "unat h mod 2 ^ k = (unat (h - t) + unat t) mod 2 ^ k" using unat_add_of_nat_mod [OF m, of "h - t" "unat t"] unat_and_mask [OF m, of h] by simp
  ultimately have h: "unat h mod 2 ^ k = (unat m + unat t) mod 2 ^ k" by (metis mod_add_left_eq)
  have "unat (((h + 1) AND m) + 1 AND m) = (unat h + 2) mod 2 ^ k" by (simp add: adv_one [OF m] mod_Suc_eq)
  also have "\<dots> = (unat m + unat t + 2) mod 2 ^ k" using h by (metis mod_add_left_eq)
  also have "\<dots> = (unat t + 1) mod 2 ^ k" using ring_mask_lt [OF m] by (metis (no_types, lifting) Suc_1 add.commute add.left_commute add_Suc_right mod_add_self1 plus_1_eq_Suc)
  also have "\<dots> = unat ((t + 1) AND m)" by (simp add: adv_one [OF m])
  finally show ?thesis by (rule unsigned_word_eqI)
qed

end
