(* ===== verification/Gve_Types.thy ===== *)
theory Gve_Types
  imports Gve_Prelude
begin

text \<open>
  The data of \<open>gve.h\<close>, \<open>gve_desc.h\<close> and \<open>gve_register.h\<close> that several components share:
  platform constants, queue formats, the mbufs the driver is handed, the actions it performs on
  its environment (register writes, task queue wake-ups, mbuf releases), the part common to all
  rings and the statistics. Big- and little-endian fields hold the value they encode; the byte
  order is written out only where bytes are parsed.
\<close>

section \<open>Constants\<close>

text \<open>Platform values of amd64.\<close>

definition PAGE_SIZE :: nat where "PAGE_SIZE = 4096"
definition CACHE_LINE_SIZE :: nat where "CACHE_LINE_SIZE = 64"

definition GVE_TX_MAX_DESCS :: nat where "GVE_TX_MAX_DESCS = 4"
definition GVE_TX_TIMEOUT_PKT_SEC :: int where "GVE_TX_TIMEOUT_PKT_SEC = 5"
definition GVE_TX_TIMEOUT_CHECK_CADENCE_SEC :: int where "GVE_TX_TIMEOUT_CHECK_CADENCE_SEC = 5"
definition GVE_TX_TIMEOUT_MAX_TX_QUEUES :: int where "GVE_TX_TIMEOUT_MAX_TX_QUEUES = 16"

definition GVE_TX_TIMEOUT_KICK_COOLDOWN_SEC :: int where
  "GVE_TX_TIMEOUT_KICK_COOLDOWN_SEC =
     2 * GVE_TX_TIMEOUT_CHECK_CADENCE_SEC * GVE_TX_TIMEOUT_MAX_TX_QUEUES"

definition GVE_TIMESTAMP_INVALID :: int where "GVE_TIMESTAMP_INVALID = -1"
definition GVE_DEFAULT_RX_BUFFER_SIZE :: nat where "GVE_DEFAULT_RX_BUFFER_SIZE = 2048"
definition GVE_DEFAULT_RX_BUFFER_OFFSET :: nat where
  "GVE_DEFAULT_RX_BUFFER_OFFSET = PAGE_SIZE div 2"
definition GVE_QPL_DIVISOR :: nat where "GVE_QPL_DIVISOR = 16"
definition GVE_DEFAULT_MIN_RX_RING_SIZE :: nat where "GVE_DEFAULT_MIN_RX_RING_SIZE = 512"
definition GVE_DEFAULT_MIN_TX_RING_SIZE :: nat where "GVE_DEFAULT_MIN_TX_RING_SIZE = 256"

definition GVE_IRQ_ACK :: u32 where "GVE_IRQ_ACK = push_bit 31 1"
definition GVE_IRQ_MASK :: u32 where "GVE_IRQ_MASK = push_bit 30 1"
definition GVE_IRQ_EVENT :: u32 where "GVE_IRQ_EVENT = push_bit 29 1"
definition GVE_ITR_ENABLE_BIT_DQO :: u32 where "GVE_ITR_ENABLE_BIT_DQO = push_bit 0 1"
definition GVE_ITR_NO_UPDATE_DQO :: u32 where "GVE_ITR_NO_UPDATE_DQO = push_bit 3 3"

section \<open>Queue formats\<close>

datatype gve_queue_format =
    GVE_QUEUE_FORMAT_UNSPECIFIED | GVE_GQI_RDA_FORMAT | GVE_GQI_QPL_FORMAT
  | GVE_DQO_RDA_FORMAT | GVE_DQO_QPL_FORMAT

definition gve_is_gqi :: "gve_queue_format \<Rightarrow> bool" where
  "gve_is_gqi f \<longleftrightarrow> f = GVE_GQI_QPL_FORMAT"

definition gve_is_qpl :: "gve_queue_format \<Rightarrow> bool" where
  "gve_is_qpl f \<longleftrightarrow> f = GVE_GQI_QPL_FORMAT \<or> f = GVE_DQO_QPL_FORMAT"

lemma gve_is_gqi_qpl: "gve_is_gqi f \<Longrightarrow> gve_is_qpl f"
  by (simp add: gve_is_gqi_def gve_is_qpl_def)

section \<open>Mbufs\<close>

text \<open>
  The checksum requests of \<open>m_pkthdr.csum_flags\<close> as a set of named bits; \<open>CSUM_TSO\<close> is the
  union of the two segmentation bits.
\<close>

datatype csum_flag =
    CSUM_TCP | CSUM_UDP | CSUM_IP6_TCP | CSUM_IP6_UDP | CSUM_IP_TSO | CSUM_IP6_TSO

definition CSUM_TSO :: "csum_flag set" where "CSUM_TSO = {CSUM_IP_TSO, CSUM_IP6_TSO}"

datatype m_hashtype =
    M_HASHTYPE_NONE | M_HASHTYPE_RSS_IPV4 | M_HASHTYPE_RSS_TCP_IPV4 | M_HASHTYPE_RSS_UDP_IPV4
  | M_HASHTYPE_RSS_IPV6 | M_HASHTYPE_RSS_TCP_IPV6 | M_HASHTYPE_RSS_UDP_IPV6
  | M_HASHTYPE_OPAQUE_HASH

text \<open>
  An mbuf chain handed to the transmit path: its identity (the pointer), the packet header
  fields the driver reads, and the bytes of the chain in order.
\<close>

record mbuf =
  m_ptr :: nat
  m_csum_flags :: "csum_flag set"
  m_hash :: m_hashtype
  m_flowid :: u32
  m_tso_segsz :: u16
  m_data :: "u8 list"

definition m_pkthdr_len :: "mbuf \<Rightarrow> nat" where
  "m_pkthdr_len m = length (m_data m)"

section \<open>Actions on the environment\<close>

datatype task = TX_CLEANUP | TX_XMIT | RX_CLEANUP | SERVICE_TASK

datatype event =
    DMA_SYNC_PREWRITE nat     \<comment> \<open>\<open>bus_dmamap_sync\<close> of a page of the ring's bounce buffer\<close>
  | DB_WRITE_4 u32 u32        \<comment> \<open>\<open>gve_db_bar_write_4(offset, val)\<close>: big-endian doorbell\<close>
  | DB_DQO_WRITE_4 u32 u32    \<comment> \<open>\<open>gve_db_bar_dqo_write_4(offset, val)\<close>: little-endian\<close>
  | REG_WRITE_4 nat u32       \<comment> \<open>\<open>gve_reg_bar_write_4(offset, val)\<close>\<close>
  | TASKQUEUE_ENQUEUE task
  | M_FREEM nat               \<comment> \<open>\<open>m_freem\<close> of the chain with this pointer\<close>
  | BPF_MTAP nat

section \<open>State common to the rings\<close>

text \<open>
  The members of \<open>struct gve_ring_com\<close> that the data path reads; the device hands out the
  offsets when a queue is created.
\<close>

record gve_ring_com =
  com_id :: nat
  irq_db_offset :: u32
  db_offset :: u32
  counter_idx :: u32
  ntfy_id :: nat

record gve_txq_stats =
  tbytes :: u64
  tpackets :: u64
  tso_packet_cnt :: u64
  tx_dropped_pkt :: u64
  tx_delayed_pkt_nospace_device :: u64
  tx_dropped_pkt_nospace_bufring :: u64
  tx_delayed_pkt_nospace_descring :: u64
  tx_delayed_pkt_nospace_compring :: u64
  tx_delayed_pkt_nospace_qpl_bufs :: u64
  tx_delayed_pkt_tsoerr :: u64
  tx_dropped_pkt_vlan :: u64
  tx_mbuf_collapse :: u64
  tx_mbuf_defrag :: u64
  tx_mbuf_defrag_err :: u64
  tx_mbuf_dmamap_enomem_err :: u64
  tx_mbuf_dmamap_err :: u64
  tx_timeout :: u64

text \<open>The members of \<open>struct gve_tx_ring\<close> outside its GQI/DQO union.\<close>

record gve_tx_ring =
  tx_com :: gve_ring_com
  stopped :: bool
  tx_req :: u32
  tx_done :: u32
  last_kicked :: int
  tx_stats :: gve_txq_stats

section \<open>Timestamps\<close>

text \<open>
  \<open>gve_utils.c\<close>'s timestamps: seconds of the kernel clock (the argument \<open>now\<close>), with a
  distinguished invalid value.
\<close>

definition gve_timestamp_valid :: "int \<Rightarrow> bool" where
  "gve_timestamp_valid ts \<longleftrightarrow> ts \<noteq> GVE_TIMESTAMP_INVALID"

definition gve_seconds_since :: "int \<Rightarrow> int \<Rightarrow> int" where
  "gve_seconds_since now ts = (if ts = GVE_TIMESTAMP_INVALID then 0 else now - ts)"

end
