(* ===== verification/Gve_Tx.thy ===== *)
theory Gve_Tx
  imports Gve_Types "HOL-Library.Monad_Syntax"
begin

text \<open>
  The GQI transmit path of \<open>gve_tx.c\<close>: the bounce-buffer FIFO, the descriptors, \<open>gve_xmit\<close>,
  the completion task and the timeout scan. The FIFO's memory is part of the state, so that the
  theorems speak of the bytes the device reads.
\<close>

section \<open>State\<close>

record gve_tx_iovec =
  iov_offset :: nat
  iov_len :: nat
  iov_padding :: nat

text \<open>
  \<open>fifo_mem\<close> is the memory at \<open>base\<close>. \<open>available\<close> is a signed 32-bit integer, \<open>fifo_size\<close>
  and \<open>fifo_head\<close> unsigned ones; the wrap-around of their arithmetic is written out.
\<close>

record gve_tx_fifo =
  fifo_mem :: "u8 list"
  fifo_size :: nat
  available :: int
  fifo_head :: nat

record gve_tx_buffer_state =
  info_mbuf :: "mbuf option"
  enqueue_time_sec :: int
  info_iov :: "gve_tx_iovec list"

text \<open>
  \<open>union gve_tx_desc\<close> by layout: byte 0 is the type of every view, bytes 4--5 are \<open>len\<close> of a
  packet descriptor, \<open>mss\<close> of a segment descriptor and the upper half of \<open>path_hash\<close> of a
  metadata descriptor, bytes 6--7 \<open>seg_len\<close> or the lower half of \<open>path_hash\<close>.
\<close>

record gve_tx_desc =
  d_type_flags :: u8
  d_byte1 :: u8
  d_byte2 :: u8
  d_byte3 :: u8
  d_half4 :: u16
  d_half6 :: u16
  d_seg_addr :: u64

definition zero_desc :: gve_tx_desc where
  "zero_desc = \<lparr>d_type_flags = 0, d_byte1 = 0, d_byte2 = 0, d_byte3 = 0, d_half4 = 0,
     d_half6 = 0, d_seg_addr = 0\<rparr>"

record gve_tx_ring_gqi = gve_tx_ring +
  desc_ring :: "gve_tx_desc list"
  info :: "gve_tx_buffer_state list"
  fifo :: gve_tx_fifo
  tx_mask :: u32

definition GVE_TXD_STD :: u8 where "GVE_TXD_STD = 0x00"
definition GVE_TXD_TSO :: u8 where "GVE_TXD_TSO = 0x10"
definition GVE_TXD_SEG :: u8 where "GVE_TXD_SEG = 0x20"
definition GVE_TXD_MTD :: u8 where "GVE_TXD_MTD = 0x30"
definition GVE_TXF_L4CSUM :: u8 where "GVE_TXF_L4CSUM = 0x01"
definition GVE_TXSF_IPV6 :: u8 where "GVE_TXSF_IPV6 = 0x02"
definition GVE_GQ_TX_MIN_PKT_DESC_BYTES :: nat where "GVE_GQ_TX_MIN_PKT_DESC_BYTES = 182"

definition wrap32 :: "nat \<Rightarrow> nat" where "wrap32 x = x mod 2 ^ 32"
definition swrap32 :: "int \<Rightarrow> int" where "swrap32 x = (x + 2 ^ 31) mod 2 ^ 32 - 2 ^ 31"
definition size_t_of_int :: "int \<Rightarrow> nat" where "size_t_of_int x = nat (x mod 2 ^ 64)"

section \<open>Operations\<close>

definition gve_tx_fifo_init :: "nat \<Rightarrow> gve_tx_fifo \<Rightarrow> gve_tx_fifo" where
  "gve_tx_fifo_init num_pages f =
     (let sz = wrap32 (num_pages * PAGE_SIZE) in
      f\<lparr>fifo_size := sz, available := swrap32 (int sz), fifo_head := 0\<rparr>)"

definition zero_iov :: gve_tx_iovec where
  "zero_iov = \<lparr>iov_offset = 0, iov_len = 0, iov_padding = 0\<rparr>"

definition cleared_info :: gve_tx_buffer_state where
  "cleared_info = \<lparr>info_mbuf = None, enqueue_time_sec = GVE_TIMESTAMP_INVALID,
     info_iov = replicate GVE_TX_MAX_DESCS zero_iov\<rparr>"

text \<open>The arrays hold \<open>tx_desc_cnt\<close> elements, so clearing every element replaces them.\<close>

definition gve_tx_clear_desc_ring :: "nat \<Rightarrow> gve_tx_ring_gqi \<Rightarrow> gve_tx_ring_gqi" where
  "gve_tx_clear_desc_ring tx_desc_cnt tx =
     tx\<lparr>desc_ring := replicate tx_desc_cnt zero_desc @ drop tx_desc_cnt (desc_ring tx),
        info := replicate tx_desc_cnt cleared_info @ drop tx_desc_cnt (info tx)\<rparr>"

definition gve_clear_tx_ring :: "nat \<Rightarrow> gve_tx_ring_gqi \<Rightarrow> gve_tx_ring_gqi" where
  "gve_clear_tx_ring tx_desc_cnt tx =
     gve_tx_clear_desc_ring tx_desc_cnt
       (tx\<lparr>tx_req := 0, tx_done := 0, tx_mask := of_nat tx_desc_cnt - 1,
           fifo := (fifo tx)\<lparr>available := swrap32 (int (fifo_size (fifo tx))), fifo_head := 0\<rparr>\<rparr>)"

definition gve_check_tx_timeout_gqi :: "int \<Rightarrow> nat \<Rightarrow> gve_tx_ring_gqi \<Rightarrow> nat" where
  "gve_check_tx_timeout_gqi now tx_desc_cnt tx =
     length (filter (\<lambda>i. gve_timestamp_valid (enqueue_time_sec i) \<and>
               gve_seconds_since now (enqueue_time_sec i) > GVE_TX_TIMEOUT_PKT_SEC)
       (take tx_desc_cnt (info tx)))"

definition gve_tx_free_fifo :: "gve_tx_fifo \<Rightarrow> nat \<Rightarrow> gve_tx_fifo" where
  "gve_tx_free_fifo f bytes = f\<lparr>available := swrap32 (available f + int bytes)\<rparr>"

text \<open>One round of the loop of \<open>gve_tx_cleanup_tq\<close>, then the loop itself.\<close>

definition iov_space :: "gve_tx_iovec list \<Rightarrow> nat" where
  "iov_space iov = (\<Sum>v\<leftarrow>iov. iov_len v + iov_padding v)"

definition gve_tx_cleanup_one ::
  "gve_tx_ring_gqi \<times> nat \<times> event list \<Rightarrow> gve_tx_ring_gqi \<times> nat \<times> event list" where
  "gve_tx_cleanup_one = (\<lambda>(tx, space_freed, evs).
     let idx = unat (tx_done tx AND tx_mask tx);
         i = info tx ! idx;
         tx1 = tx\<lparr>tx_done := tx_done tx + 1\<rparr>
     in case info_mbuf i of
          None \<Rightarrow> (tx1, space_freed, evs)
        | Some m \<Rightarrow>
            (tx1\<lparr>tx_stats := (tx_stats tx)\<lparr>tbytes := tbytes (tx_stats tx) + of_nat (m_pkthdr_len m),
                                          tpackets := tpackets (tx_stats tx) + 1\<rparr>,
                 info := (info tx)[idx :=
                   i\<lparr>info_mbuf := None, enqueue_time_sec := GVE_TIMESTAMP_INVALID,
                     info_iov := map (\<lambda>v. v\<lparr>iov_len := 0, iov_padding := 0\<rparr>) (info_iov i)\<rparr>]\<rparr>,
             space_freed + iov_space (info_iov i), evs @ [M_FREEM (m_ptr m)]))"

definition gve_tx_cleanup_loop ::
  "nat \<Rightarrow> gve_tx_ring_gqi \<times> nat \<times> event list \<Rightarrow> gve_tx_ring_gqi \<times> nat \<times> event list" where
  "gve_tx_cleanup_loop todo = (gve_tx_cleanup_one ^^ todo)"

text \<open>
  \<open>nic_done\<close> and \<open>nic_done'\<close> are the values of the device's event counter at the two reads;
  \<open>running\<close> is \<open>IFF_DRV_RUNNING\<close>.
\<close>

definition gve_tx_cleanup_tq ::
  "bool \<Rightarrow> u32 \<Rightarrow> u32 \<Rightarrow> gve_tx_ring_gqi \<Rightarrow> gve_tx_ring_gqi \<times> event list" where
  "gve_tx_cleanup_tq running nic_done nic_done' tx =
     (let todo = nic_done - tx_done tx in
      if \<not> running then (tx, [])
      else
        let (tx1, space_freed, evs) = gve_tx_cleanup_loop (unat todo) (tx, 0, []);
            tx2 = tx1\<lparr>fifo := gve_tx_free_fifo (fifo tx1) space_freed\<rparr>;
            off = irq_db_offset (tx_com tx2);
            evs1 = evs @ [DB_WRITE_4 off (GVE_IRQ_ACK OR GVE_IRQ_EVENT)];
            evs2 = (if nic_done' - tx_done tx2 \<noteq> 0
                    then evs1 @ [DB_WRITE_4 off GVE_IRQ_MASK, TASKQUEUE_ENQUEUE TX_CLEANUP]
                    else evs1)
        in if stopped tx2 \<and> space_freed \<noteq> 0
           then (tx2\<lparr>stopped := False\<rparr>, evs2 @ [TASKQUEUE_ENQUEUE TX_XMIT])
           else (tx2, evs2))"

text \<open>The pages of the bounce buffer that are synced for a region.\<close>

definition gve_dma_sync_for_device :: "nat \<Rightarrow> nat \<Rightarrow> nat list" where
  "gve_dma_sync_for_device off len =
     (let last_page = size_t_of_int (int off + int len - 1) div PAGE_SIZE;
          first_page = off div PAGE_SIZE
      in [first_page ..< last_page + 1])"

definition gve_tx_fill_mtd_desc :: "mbuf \<Rightarrow> gve_tx_desc" where
  "gve_tx_fill_mtd_desc m =
     \<lparr>d_type_flags = GVE_TXD_MTD OR 0, d_byte1 = 0 OR 0x10, d_byte2 = 0, d_byte3 = 0,
      d_half4 = ucast (drop_bit 16 (m_flowid m)), d_half6 = ucast (m_flowid m), d_seg_addr = 0\<rparr>"

definition gve_tx_fill_pkt_desc ::
  "bool \<Rightarrow> nat \<Rightarrow> nat \<Rightarrow> nat \<Rightarrow> nat \<Rightarrow> bool \<Rightarrow> nat \<Rightarrow> nat \<Rightarrow> gve_tx_desc" where
  "gve_tx_fill_pkt_desc is_tso l4_hdr_offset desc_cnt first_seg_len addr has_csum_flag csum_offset pkt_len =
     (let (tf, co, ho) =
        (if is_tso then (GVE_TXD_TSO OR GVE_TXF_L4CSUM, csum_offset div 2, l4_hdr_offset div 2)
         else if has_csum_flag then (GVE_TXD_STD OR GVE_TXF_L4CSUM, csum_offset div 2, l4_hdr_offset div 2)
         else (GVE_TXD_STD, 0, 0))
      in \<lparr>d_type_flags = tf, d_byte1 = of_nat co, d_byte2 = of_nat ho, d_byte3 = of_nat desc_cnt,
          d_half4 = of_nat pkt_len, d_half6 = of_nat first_seg_len, d_seg_addr = of_nat addr\<rparr>)"

text \<open>Without TSO the fields \<open>l3_offset\<close> and \<open>mss\<close> keep what the slot held before.\<close>

definition gve_tx_fill_seg_desc ::
  "bool \<Rightarrow> nat \<Rightarrow> nat \<Rightarrow> bool \<Rightarrow> nat \<Rightarrow> u16 \<Rightarrow> gve_tx_desc \<Rightarrow> gve_tx_desc" where
  "gve_tx_fill_seg_desc is_tso len addr is_ipv6 l3_off tso_mss d =
     (let d1 = d\<lparr>d_type_flags := GVE_TXD_SEG\<rparr>;
          d2 = (if is_tso
                then (if is_ipv6 then d1\<lparr>d_type_flags := GVE_TXD_SEG OR GVE_TXSF_IPV6\<rparr> else d1)
                       \<lparr>d_byte1 := of_nat (l3_off div 2), d_half4 := tso_mss\<rparr>
                else d1)
      in d2\<lparr>d_half6 := of_nat len, d_seg_addr := of_nat addr\<rparr>)"

definition gve_tx_avail :: "gve_tx_ring_gqi \<Rightarrow> u32" where
  "gve_tx_avail tx = tx_mask tx + 1 - (tx_req tx - tx_done tx)"

definition gve_tx_fifo_can_alloc :: "gve_tx_fifo \<Rightarrow> nat \<Rightarrow> bool" where
  "gve_tx_fifo_can_alloc f bytes \<longleftrightarrow> bytes \<le> size_t_of_int (available f)"

definition gve_can_tx :: "gve_tx_ring_gqi \<Rightarrow> int \<Rightarrow> bool" where
  "gve_can_tx tx bytes_required \<longleftrightarrow>
     of_nat (GVE_TX_MAX_DESCS + 1) \<le> gve_tx_avail tx \<and>
     gve_tx_fifo_can_alloc (fifo tx) (size_t_of_int bytes_required)"

definition gve_tx_fifo_pad_alloc_one_frag :: "gve_tx_fifo \<Rightarrow> nat \<Rightarrow> nat" where
  "gve_tx_fifo_pad_alloc_one_frag f bytes =
     (if fifo_head f + bytes < fifo_size f then 0 else fifo_size f - fifo_head f)"

definition gve_fifo_bytes_required :: "gve_tx_fifo \<Rightarrow> nat \<Rightarrow> nat \<Rightarrow> int" where
  "gve_fifo_bytes_required f first_seg_len pkt_len =
     (let pad_bytes = gve_tx_fifo_pad_alloc_one_frag f first_seg_len;
          align_hdr_pad = roundup2 first_seg_len CACHE_LINE_SIZE - first_seg_len
      in int (align_hdr_pad + pad_bytes + pkt_len))"

text \<open>
  \<open>gve_tx_alloc_fifo(fifo, bytes, iov)\<close> with \<open>iov\<close> given as the array \<open>iov\<close> and the base index
  \<open>b\<close> in it; the number of fragments is the last component.
\<close>

definition gve_tx_alloc_fifo ::
  "gve_tx_fifo \<Rightarrow> nat \<Rightarrow> gve_tx_iovec list \<Rightarrow> nat \<Rightarrow> gve_tx_fifo \<times> gve_tx_iovec list \<times> nat" where
  "gve_tx_alloc_fifo f bytes iov b =
     (if bytes = 0 then (f, iov, 0)
      else
        let head1 = wrap32 (fifo_head f + bytes);
            iov1 = iov[b := (iov ! b)\<lparr>iov_offset := fifo_head f, iov_len := wrap32 bytes\<rparr>];
            (nfrags, head2, iov2) =
              (if head1 > fifo_size f
               then let overflow = head1 - fifo_size f;
                        iov' = iov1[b := (iov1 ! b)\<lparr>iov_len := wrap32 (bytes - overflow)\<rparr>]
                    in (2, overflow,
                        iov'[b + 1 := (iov' ! (b + 1))\<lparr>iov_offset := 0, iov_len := overflow\<rparr>])
               else (1, head1, iov1));
            aligned_head = wrap32 (roundup2 head2 CACHE_LINE_SIZE);
            padding = aligned_head - head2;
            k = b + nfrags - 1;
            iov3 = iov2[k := (iov2 ! k)\<lparr>iov_padding := padding\<rparr>];
            head3 = (if aligned_head = fifo_size f then 0 else aligned_head)
        in (f\<lparr>available := swrap32 (available f - int (bytes + padding)), fifo_head := head3\<rparr>,
            iov3, nfrags))"

subsection \<open>Transmission of one packet\<close>

text \<open>
  The header fields \<open>gve_xmit\<close> reads from the packet. A read past the end of the chain (a NULL
  from \<open>m_getptr\<close>) is \<open>None\<close>.
\<close>

definition rd8 :: "mbuf \<Rightarrow> nat \<Rightarrow> nat option" where
  "rd8 m off = (if off < m_pkthdr_len m then Some (unat (m_data m ! off)) else None)"

definition ETHER_HDR_LEN :: nat where "ETHER_HDR_LEN = 14"
definition ETHERTYPE_IP :: nat where "ETHERTYPE_IP = 0x0800"
definition ETHERTYPE_IPV6 :: nat where "ETHERTYPE_IPV6 = 0x86dd"
definition ETHERTYPE_VLAN :: nat where "ETHERTYPE_VLAN = 0x8100"
definition IPPROTO_TCP :: nat where "IPPROTO_TCP = 6"
definition IPPROTO_UDP :: nat where "IPPROTO_UDP = 17"

definition ether_type :: "mbuf \<Rightarrow> nat option" where
  "ether_type m = do { hi \<leftarrow> rd8 m 12; lo \<leftarrow> rd8 m 13; Some (hi * 256 + lo) }"

definition is_vlan_tagged_pkt :: "mbuf \<Rightarrow> bool option" where
  "is_vlan_tagged_pkt m = do { et \<leftarrow> ether_type m; Some (et = ETHERTYPE_VLAN) }"

text \<open>
  \<open>l4_off0\<close> is what the uninitialised local \<open>l4_off\<close> holds. The result is
  \<open>(is_ipv6, l4_off, l4_data_off)\<close>.
\<close>

definition gve_xmit_l4 :: "nat \<Rightarrow> mbuf \<Rightarrow> (bool \<times> nat \<times> bool \<times> bool) option" where
  "gve_xmit_l4 l4_off0 m = do {
     et \<leftarrow> ether_type m;
     if et = ETHERTYPE_IPV6 then do {
       nxt \<leftarrow> rd8 m (ETHER_HDR_LEN + 6);
       Some (True, ETHER_HDR_LEN + 40, nxt = IPPROTO_TCP, nxt = IPPROTO_UDP) }
     else if et = ETHERTYPE_IP then do {
       b0 \<leftarrow> rd8 m ETHER_HDR_LEN;
       p \<leftarrow> rd8 m (ETHER_HDR_LEN + 9);
       Some (False, ETHER_HDR_LEN + (b0 mod 16) * 4, p = IPPROTO_TCP, p = IPPROTO_UDP) }
     else Some (False, l4_off0, False, False) }"

definition gve_xmit_parse :: "nat \<Rightarrow> mbuf \<Rightarrow> (bool \<times> nat \<times> nat) option" where
  "gve_xmit_parse l4_off0 m = do {
     (is_ipv6, l4_off, is_tcp, is_udp) \<leftarrow> gve_xmit_l4 l4_off0 m;
     if is_tcp then do {
       b \<leftarrow> rd8 m (l4_off + 12);
       Some (is_ipv6, l4_off, l4_off + (b div 16) * 4) }
     else if is_udp then Some (is_ipv6, l4_off, l4_off + 8)
     else Some (is_ipv6, l4_off, 0) }"

definition has_csum_flag :: "mbuf \<Rightarrow> bool" where
  "has_csum_flag m \<longleftrightarrow>
     m_csum_flags m \<inter> ({CSUM_TCP, CSUM_UDP, CSUM_IP6_TCP, CSUM_IP6_UDP} \<union> CSUM_TSO) \<noteq> {}"

definition is_tso_mbuf :: "mbuf \<Rightarrow> bool" where
  "is_tso_mbuf m \<longleftrightarrow> m_csum_flags m \<inter> CSUM_TSO \<noteq> {}"

text \<open>
  The checksum field's offset in the TCP (16) or UDP (6) header; it is used only when the
  packet asks for a checksum.
\<close>

definition csum_field_offset :: "mbuf \<Rightarrow> nat" where
  "csum_field_offset m =
     (if m_csum_flags m \<inter> (CSUM_TSO \<union> {CSUM_TCP, CSUM_IP6_TCP}) \<noteq> {} then 16 else 6)"

definition gve_first_seg_len :: "nat \<Rightarrow> nat \<Rightarrow> nat" where
  "gve_first_seg_len l4_data_off pkt_len =
     (if l4_data_off \<noteq> 0 then l4_data_off else min pkt_len GVE_GQ_TX_MIN_PKT_DESC_BYTES)"

text \<open>\<open>m_copydata\<close> into the FIFO memory.\<close>

definition m_copydata :: "mbuf \<Rightarrow> nat \<Rightarrow> nat \<Rightarrow> gve_tx_fifo \<Rightarrow> nat \<Rightarrow> gve_tx_fifo" where
  "m_copydata m off len f dst = f\<lparr>fifo_mem := blit (fifo_mem f) dst (slice (m_data m) off len)\<rparr>"

text \<open>The segment loop: \<open>n\<close> payload fragments left, the current one described by \<open>iov ! i\<close>.\<close>

fun gve_xmit_segs ::
  "nat \<Rightarrow> nat \<Rightarrow> mbuf \<Rightarrow> bool \<Rightarrow> bool \<Rightarrow> u16 \<Rightarrow> gve_tx_iovec list \<Rightarrow> u32 \<Rightarrow> nat
     \<Rightarrow> gve_tx_ring_gqi \<times> event list \<Rightarrow> gve_tx_ring_gqi \<times> event list" where
  "gve_xmit_segs 0 i m is_tso is_ipv6 tso_mss iov slot copy_offset s = s"
| "gve_xmit_segs (Suc n) i m is_tso is_ipv6 tso_mss iov slot copy_offset (tx, evs) =
     (let next_idx = unat (slot AND tx_mask tx);
          v = iov ! i;
          d = gve_tx_fill_seg_desc is_tso (iov_len v) (iov_offset v) is_ipv6 ETHER_HDR_LEN tso_mss
                (desc_ring tx ! next_idx);
          tx1 = tx\<lparr>desc_ring := (desc_ring tx)[next_idx := d],
                   fifo := m_copydata m copy_offset (iov_len v) (fifo tx) (iov_offset v)\<rparr>
      in gve_xmit_segs n (i + 1) m is_tso is_ipv6 tso_mss iov (slot + 1) (copy_offset + iov_len v)
           (tx1, evs @ map DMA_SYNC_PREWRITE (gve_dma_sync_for_device (iov_offset v) (iov_len v))))"

text \<open>What \<open>gve_xmit\<close> does once space is known to be there.\<close>

definition gve_xmit_commit ::
  "int \<Rightarrow> mbuf \<Rightarrow> bool \<Rightarrow> nat \<Rightarrow> nat \<Rightarrow> nat \<Rightarrow> gve_tx_ring_gqi \<Rightarrow> gve_tx_ring_gqi \<times> event list" where
  "gve_xmit_commit now m is_ipv6 l4_off first_seg_len pkt_len tx =
     (let idx = unat (tx_req tx AND tx_mask tx);
          i0 = info tx ! idx;
          is_tso = is_tso_mbuf m;
          tso_mss = (if is_tso then m_tso_segsz m else 0);
          mtd_desc_nr = (if m_hash m \<noteq> M_HASHTYPE_NONE then 1 else 0);
          pad_bytes = gve_tx_fifo_pad_alloc_one_frag (fifo tx) first_seg_len;
          (f1, iov1, hdr_nfrags) =
            gve_tx_alloc_fifo (fifo tx) (first_seg_len + pad_bytes) (info_iov i0) 0;
          (f2, iov2, payload_nfrags) =
            gve_tx_alloc_fifo f1 (size_t_of_int (int pkt_len - int first_seg_len)) iov1 2;
          h = iov2 ! (hdr_nfrags - 1);
          nd = 1 + mtd_desc_nr + payload_nfrags;
          pkt_desc = gve_tx_fill_pkt_desc is_tso l4_off nd first_seg_len (iov_offset h)
            (has_csum_flag m) (csum_field_offset m) pkt_len;
          ring1 = (desc_ring tx)[idx := pkt_desc];
          ring2 = (if mtd_desc_nr = 1
                   then ring1[unat ((tx_req tx + 1) AND tx_mask tx) := gve_tx_fill_mtd_desc m]
                   else ring1);
          tx1 = tx\<lparr>info := (info tx)[idx := i0\<lparr>info_mbuf := Some m, enqueue_time_sec := now,
                                              info_iov := iov2\<rparr>],
                   desc_ring := ring2,
                   fifo := m_copydata m 0 first_seg_len f2 (iov_offset h)\<rparr>;
          evs1 = map DMA_SYNC_PREWRITE (gve_dma_sync_for_device (iov_offset h) (iov_len h));
          (tx2, evs2) = gve_xmit_segs payload_nfrags 2 m is_tso is_ipv6 tso_mss iov2
            (tx_req tx + 1 + of_nat mtd_desc_nr) first_seg_len (tx1, evs1);
          tx3 = tx2\<lparr>tx_req := tx_req tx + of_nat nd\<rparr>;
          st = tx_stats tx3
      in (if is_tso then tx3\<lparr>tx_stats := st\<lparr>tso_packet_cnt := tso_packet_cnt st + 1\<rparr>\<rparr> else tx3,
          evs2))"

text \<open>
  \<open>gve_xmit\<close>: \<open>None\<close> where a header read leaves the packet, otherwise the error code, the ring
  and the DMA syncs. \<open>pkt_len\<close> is 16 bits wide.
\<close>

definition gve_xmit ::
  "int \<Rightarrow> nat \<Rightarrow> mbuf \<Rightarrow> gve_tx_ring_gqi \<Rightarrow> (err \<times> gve_tx_ring_gqi \<times> event list) option" where
  "gve_xmit now l4_off0 m tx = do {
     (is_ipv6, l4_off, l4_data_off) \<leftarrow> gve_xmit_parse l4_off0 m;
     let pkt_len = m_pkthdr_len m mod 2 ^ 16;
     let first_seg_len = gve_first_seg_len l4_data_off pkt_len;
     let bytes_required = gve_fifo_bytes_required (fifo tx) first_seg_len pkt_len;
     if \<not> gve_can_tx tx bytes_required then
       Some (Some ENOBUFS,
             tx\<lparr>tx_stats := (tx_stats tx)\<lparr>tx_delayed_pkt_nospace_device :=
                  tx_delayed_pkt_nospace_device (tx_stats tx) + 1\<rparr>\<rparr>, [])
     else
       let (tx', evs) = gve_xmit_commit now m is_ipv6 l4_off first_seg_len pkt_len tx
       in Some (None, tx', evs) }"

section \<open>The FIFO\<close>

lemma CACHE_LINE_pos [simp]: "0 < CACHE_LINE_SIZE"
  by (simp add: CACHE_LINE_SIZE_def)

lemma swrap32_id [gve_arith]: "- (2 ^ 31) \<le> x \<Longrightarrow> x < 2 ^ 31 \<Longrightarrow> swrap32 x = x"
  by (simp add: swrap32_def)

lemma wrap32_id [gve_arith]: "x < 2 ^ 32 \<Longrightarrow> wrap32 x = x"
  by (simp add: wrap32_def)

lemma size_t_of_int_nonneg [gve_arith]: "0 \<le> x \<Longrightarrow> x < 2 ^ 64 \<Longrightarrow> size_t_of_int x = nat x"
  by (simp add: size_t_of_int_def)

text \<open>
  Well-formed FIFO: the memory has the recorded size, a multiple of the cache line well below
  the range of a signed 32-bit integer; the head lies in it, and head and free space stay
  aligned.
\<close>

definition fifo_ok :: "gve_tx_fifo \<Rightarrow> bool" where
  "fifo_ok f \<longleftrightarrow> length (fifo_mem f) = fifo_size f \<and> fifo_size f < 2 ^ 30 \<and>
     CACHE_LINE_SIZE dvd fifo_size f \<and> CACHE_LINE_SIZE dvd fifo_head f \<and>
     fifo_head f < fifo_size f \<and> 0 \<le> available f \<and> available f \<le> int (fifo_size f) \<and>
     CACHE_LINE_SIZE dvd nat (available f)"

lemma fifo_ok_can_alloc: "fifo_ok f \<Longrightarrow> gve_tx_fifo_can_alloc f n \<longleftrightarrow> int n \<le> available f"
  by (auto simp: gve_tx_fifo_can_alloc_def fifo_ok_def size_t_of_int_nonneg)

text \<open>If the data fits, so does the padding behind it: the remark in \<open>gve_tx_alloc_fifo\<close>.\<close>

lemma fifo_room_for_padding:
  assumes "fifo_ok f" and "int n \<le> available f"
  shows "int (roundup2 n CACHE_LINE_SIZE) \<le> available f"
proof -
  have "roundup2 n CACHE_LINE_SIZE \<le> nat (available f)"
    using assms by (intro roundup2_least) (auto simp: fifo_ok_def)
  then show ?thesis using assms by (simp add: fifo_ok_def)
qed

lemma iov_upd_all [simp]:
  "(v::gve_tx_iovec)\<lparr>iov_offset := a, iov_len := l, iov_padding := p\<rparr> =
     \<lparr>iov_offset = a, iov_len = l, iov_padding = p\<rparr>"
  by (cases v) simp

definition fifo_take :: "gve_tx_fifo \<Rightarrow> nat \<Rightarrow> gve_tx_fifo" where
  "fifo_take f n = f\<lparr>available := available f - int (roundup2 n CACHE_LINE_SIZE),
     fifo_head := (fifo_head f + roundup2 n CACHE_LINE_SIZE) mod fifo_size f\<rparr>"

lemma fifo_take_sel [simp]:
  "fifo_mem (fifo_take f n) = fifo_mem f" "fifo_size (fifo_take f n) = fifo_size f"
  "available (fifo_take f n) = available f - int (roundup2 n CACHE_LINE_SIZE)"
  "fifo_head (fifo_take f n) = (fifo_head f + roundup2 n CACHE_LINE_SIZE) mod fifo_size f"
  by (simp_all add: fifo_take_def)

lemma fifo_take_ok:
  assumes "fifo_ok f" and "int n \<le> available f"
  shows "fifo_ok (fifo_take f n)"
proof -
  let ?r = "roundup2 n CACHE_LINE_SIZE"
  have r: "int ?r \<le> available f" using assms by (rule fifo_room_for_padding)
  have "nat (available f - int ?r) = nat (available f) - ?r" by simp
  moreover have "CACHE_LINE_SIZE dvd nat (available f) - ?r"
    using assms(1) by (intro dvd_diff_nat roundup2_dvd) (simp add: fifo_ok_def)
  moreover have "CACHE_LINE_SIZE dvd (fifo_head f + ?r) mod fifo_size f"
    using assms(1) by (intro dvd_mod dvd_add roundup2_dvd) (simp_all add: fifo_ok_def)
  moreover have "(fifo_head f + ?r) mod fifo_size f < fifo_size f"
    using assms(1) by (auto simp: fifo_ok_def)
  ultimately show ?thesis using assms(1) r by (simp add: fifo_ok_def)
qed

lemma fifo_take_add:
  assumes "fifo_ok f" and "CACHE_LINE_SIZE dvd a"
  shows "fifo_take (fifo_take f a) b = fifo_take f (a + b)"
  using assms by (simp add: fifo_take_def roundup2_add mod_add_left_eq add.assoc)

lemma alloc_fifo_fits:
  assumes ok: "fifo_ok f" and n: "0 < n" "int n \<le> available f"
    and fits: "fifo_head f + n \<le> fifo_size f"
    and b: "b < length iov"
  shows "gve_tx_alloc_fifo f n iov b =
    (fifo_take f n,
     iov[b := \<lparr>iov_offset = fifo_head f, iov_len = n, iov_padding = roundup2 n CACHE_LINE_SIZE - n\<rparr>],
     1)"
proof -
  let ?L = CACHE_LINE_SIZE
  have h: "?L dvd fifo_head f" "fifo_head f < fifo_size f" "fifo_size f < 2 ^ 30" "?L dvd fifo_size f"
    using ok by (auto simp: fifo_ok_def)
  have al: "roundup2 (fifo_head f + n) ?L = fifo_head f + roundup2 n ?L"
    using h by (simp add: roundup2_add)
  have le: "fifo_head f + roundup2 n ?L \<le> fifo_size f"
    using roundup2_least [OF h(4) fits] al by simp
  have ge: "n \<le> roundup2 n ?L" by (simp add: roundup2_ge)
  have av: "int (roundup2 n ?L) \<le> available f" using ok n(2) by (rule fifo_room_for_padding)
  have sw: "swrap32 (available f - int (roundup2 n ?L)) = available f - int (roundup2 n ?L)"
    using av ok h(3) by (intro swrap32_id) (auto simp: fifo_ok_def)
  have hd: "(if fifo_head f + roundup2 n ?L = fifo_size f then 0 else fifo_head f + roundup2 n ?L)
      = (fifo_head f + roundup2 n ?L) mod fifo_size f"
    using le by auto
  show ?thesis
    using n fits h le ge b sw hd
    by (simp add: gve_tx_alloc_fifo_def Let_def wrap32_id al fifo_take_def del: of_nat_add)
qed

lemma alloc_fifo_wraps:
  assumes ok: "fifo_ok f" and n: "0 < n" "int n \<le> available f"
    and wraps: "fifo_size f < fifo_head f + n"
    and b: "b + 1 < length iov"
  shows "gve_tx_alloc_fifo f n iov b =
    (fifo_take f n,
     iov[b := (iov ! b)\<lparr>iov_offset := fifo_head f, iov_len := fifo_size f - fifo_head f\<rparr>,
         b + 1 := \<lparr>iov_offset = 0, iov_len = fifo_head f + n - fifo_size f,
                   iov_padding = roundup2 n CACHE_LINE_SIZE - n\<rparr>],
     2)"
proof -
  let ?L = CACHE_LINE_SIZE and ?o = "fifo_head f + n - fifo_size f"
  have h: "?L dvd fifo_head f" "fifo_head f < fifo_size f" "fifo_size f < 2 ^ 30" "?L dvd fifo_size f"
    using ok by (auto simp: fifo_ok_def)
  have nle: "n \<le> fifo_size f" using ok n(2) by (simp add: fifo_ok_def)
  have n_eq: "n = (fifo_size f - fifo_head f) + ?o" using wraps h by simp
  have d: "?L dvd fifo_size f - fifo_head f" using h by (simp add: dvd_diff_nat)
  have al: "roundup2 n ?L = (fifo_size f - fifo_head f) + roundup2 ?o ?L"
    by (subst n_eq) (simp add: roundup2_add [OF d] del: add_diff_inverse_nat)
  have ge: "?o \<le> roundup2 ?o ?L" by (simp add: roundup2_ge)
  have av: "int (roundup2 n ?L) \<le> available f" using ok n(2) by (rule fifo_room_for_padding)
  then have le: "roundup2 n ?L \<le> fifo_size f" using ok by (simp add: fifo_ok_def)
  have le2: "roundup2 ?o ?L < fifo_size f" using le al h by simp
  have sw: "swrap32 (available f - int (roundup2 n ?L)) = available f - int (roundup2 n ?L)"
    using av ok h(3) by (intro swrap32_id) (auto simp: fifo_ok_def)
  have pad: "roundup2 ?o ?L - ?o = roundup2 n ?L - n" using al ge n_eq by linarith
  have np: "n + (roundup2 ?o ?L - ?o) = roundup2 n ?L" using al ge n_eq by linarith
  have np': "n + (roundup2 n ?L - n) = roundup2 n ?L" using np pad by simp
  have hd: "(fifo_head f + roundup2 n ?L) mod fifo_size f = roundup2 ?o ?L"
    using al le2 h by simp
  have w: "wrap32 (fifo_head f + n) = fifo_head f + n" "wrap32 n = n"
    "wrap32 (roundup2 ?o ?L) = roundup2 ?o ?L" "wrap32 (n - ?o) = fifo_size f - fifo_head f"
    "wrap32 (fifo_size f - fifo_head f) = fifo_size f - fifo_head f"
    using h nle le2 n_eq by (simp_all add: wrap32_id)
  show ?thesis
    using n(1) wraps b
    by (simp add: gve_tx_alloc_fifo_def Let_def w np' sw hd pad fifo_take_def le2 less_imp_neq
        flip: of_nat_add)
qed


section \<open>Regions of the FIFO in flight\<close>

text \<open>
  \<open>iov_chain sz p vs\<close> follows the regions \<open>vs\<close> around a FIFO of size \<open>sz\<close> from position \<open>p\<close>:
  every non-empty region starts where the one before ended and does not run over the end. The
  result is the position behind the last one.
\<close>

fun iov_chain :: "nat \<Rightarrow> nat \<Rightarrow> gve_tx_iovec list \<Rightarrow> nat option" where
  "iov_chain sz p [] = Some p"
| "iov_chain sz p (v # vs) =
     (if iov_len v + iov_padding v = 0 then iov_chain sz p vs
      else if iov_offset v = p \<and> p + iov_len v + iov_padding v \<le> sz
      then iov_chain sz ((p + iov_len v + iov_padding v) mod sz) vs
      else None)"

lemma iov_space_simps [simp]:
  "iov_space [] = 0" "iov_space (v # vs) = iov_len v + iov_padding v + iov_space vs"
  "iov_space (xs @ ys) = iov_space xs + iov_space ys"
  by (simp_all add: iov_space_def)

lemma iov_chain_append:
  "iov_chain sz p (xs @ ys) = Option.bind (iov_chain sz p xs) (\<lambda>q. iov_chain sz q ys)"
  by (induction xs arbitrary: p) auto

lemma iov_chain_empty: "iov_space vs = 0 \<Longrightarrow> iov_chain sz p vs = Some p"
  by (induction vs arbitrary: p) auto

lemma iov_chain_end:
  "iov_chain sz p vs = Some q \<Longrightarrow> p < sz \<Longrightarrow> q = (p + iov_space vs) mod sz"
proof (induction vs arbitrary: p)
  case Nil
  then show ?case by simp
next
  case (Cons v vs)
  show ?case
  proof (cases "iov_len v + iov_padding v = 0")
    case True
    with Cons show ?thesis by simp
  next
    case False
    with Cons.prems have c: "iov_chain sz ((p + iov_len v + iov_padding v) mod sz) vs = Some q"
      by (auto split: if_splits)
    have "(p + iov_len v + iov_padding v) mod sz < sz" using Cons.prems(2) by simp
    from Cons.IH [OF c this] show ?thesis by (simp add: mod_add_left_eq add.assoc)
  qed
qed

lemma iov_chain_pos:
  assumes "iov_chain sz p vs = Some q" and "p < sz" and "i < length vs"
    and "iov_len (vs ! i) + iov_padding (vs ! i) \<noteq> 0"
  shows "iov_offset (vs ! i) = (p + iov_space (take i vs)) mod sz \<and>
         iov_offset (vs ! i) + iov_len (vs ! i) + iov_padding (vs ! i) \<le> sz"
  using assms
proof (induction vs arbitrary: p i)
  case Nil
  then show ?case by simp
next
  case (Cons v vs)
  let ?p = "if iov_len v + iov_padding v = 0 then p else (p + iov_len v + iov_padding v) mod sz"
  have c: "iov_chain sz ?p vs = Some q" using Cons.prems(1) by (auto split: if_splits)
  have p: "?p < sz" using Cons.prems(2) by simp
  show ?case
  proof (cases i)
    case 0
    with Cons.prems show ?thesis by (auto split: if_splits)
  next
    case (Suc j)
    from Cons.IH [OF c p, of j] Cons.prems Suc
    have "iov_offset (vs ! j) = (?p + iov_space (take j vs)) mod sz \<and>
      iov_offset (vs ! j) + iov_len (vs ! j) + iov_padding (vs ! j) \<le> sz" by simp
    moreover have "(?p + iov_space (take j vs)) mod sz
      = (p + iov_space (take i (v # vs))) mod sz"
      by (auto simp: Suc mod_add_left_eq add.assoc)
    ultimately show ?thesis using Suc by simp
  qed
qed

text \<open>Regions at different places of a chain no longer than the FIFO share no byte.\<close>

lemma iov_chain_disjoint:
  assumes ch: "iov_chain sz p vs = Some q" "p < sz" and sp: "iov_space vs \<le> sz"
    and ij: "i < j" "j < length vs"
    and x: "iov_offset (vs ! i) \<le> x" "x < iov_offset (vs ! i) + iov_len (vs ! i)"
    and y: "iov_offset (vs ! j) \<le> y" "y < iov_offset (vs ! j) + iov_len (vs ! j)"
  shows "x \<noteq> y"
proof -
  let ?s = "\<lambda>k. iov_space (take k vs)"
  have i: "i < length vs" using ij by simp
  have step: "k < length vs \<Longrightarrow> ?s (Suc k) = ?s k + iov_len (vs ! k) + iov_padding (vs ! k)" for k
    by (simp add: take_Suc_conv_app_nth)
  have mono: "a \<le> b \<Longrightarrow> ?s a \<le> ?s b" for a b
    by (metis iov_space_simps(3) le_add1 le_iff_add take_add)
  have tot: "?s (Suc j) \<le> sz" using mono [of "Suc j" "length vs"] ij sp by simp
  have pi: "iov_offset (vs ! i) = (p + ?s i) mod sz"
      "iov_offset (vs ! i) + iov_len (vs ! i) \<le> sz"
    using iov_chain_pos [OF ch i] x by auto
  have pj: "iov_offset (vs ! j) = (p + ?s j) mod sz"
      "iov_offset (vs ! j) + iov_len (vs ! j) \<le> sz"
    using iov_chain_pos [OF ch ij(2)] y by auto
  obtain a where a: "x = iov_offset (vs ! i) + a" "a < iov_len (vs ! i)"
    using x by (metis add_less_cancel_left le_iff_add)
  obtain b where b: "y = iov_offset (vs ! j) + b" "b < iov_len (vs ! j)"
    using y by (metis add_less_cancel_left le_iff_add)
  have "x = x mod sz" using a pi by simp
  then have xm: "x = (p + (?s i + a)) mod sz"
    by (simp add: a pi(1) mod_add_left_eq add.assoc)
  have "y = y mod sz" using b pj by simp
  then have ym: "y = (p + (?s j + b)) mod sz"
    by (simp add: b pj(1) mod_add_left_eq add.assoc)
  have lt: "?s i + a < ?s j + b" "?s j + b < sz"
    using mono [of "Suc i" j] step [OF i] step [OF ij(2)] ij a(2) b(2) tot by auto
  then have "(p + (?s i + a)) mod sz \<noteq> (p + (?s j + b)) mod sz"
    by (intro mod_add_neq) auto
  with xm ym show ?thesis by simp
qed

section \<open>Example data\<close>

definition zero_txq_stats :: gve_txq_stats where
  "zero_txq_stats = \<lparr>tbytes = 0, tpackets = 0, tso_packet_cnt = 0, tx_dropped_pkt = 0,
     tx_delayed_pkt_nospace_device = 0, tx_dropped_pkt_nospace_bufring = 0,
     tx_delayed_pkt_nospace_descring = 0, tx_delayed_pkt_nospace_compring = 0,
     tx_delayed_pkt_nospace_qpl_bufs = 0, tx_delayed_pkt_tsoerr = 0, tx_dropped_pkt_vlan = 0,
     tx_mbuf_collapse = 0, tx_mbuf_defrag = 0, tx_mbuf_defrag_err = 0, tx_mbuf_dmamap_enomem_err = 0,
     tx_mbuf_dmamap_err = 0, tx_timeout = 0\<rparr>"

definition ex_com :: gve_ring_com where
  "ex_com = \<lparr>com_id = 0, irq_db_offset = 8, db_offset = 16, counter_idx = 0, ntfy_id = 0\<rparr>"

definition ex_mbuf :: mbuf where
  "ex_mbuf = \<lparr>m_ptr = 1, m_csum_flags = {}, m_hash = M_HASHTYPE_NONE, m_flowid = 0, m_tso_segsz = 0,
     m_data = replicate 20 1\<rparr>"

end
