(* ===== verification/Gve_Tx_Inv.thy ===== *)
theory Gve_Tx_Inv
  imports Gve_Tx
begin

text \<open>
  Correctness of the GQI transmit ring: slots, FIFO regions in flight and the bytes the device
  reads. Everything the driver has posted and not yet reclaimed is described by the invariant
  \<open>tx_inv\<close>.
\<close>

section \<open>Slots of the ring\<close>

definition slot :: "gve_tx_ring_gqi \<Rightarrow> nat \<Rightarrow> nat" where
  "slot tx j = unat ((tx_done tx + of_nat j) AND tx_mask tx)"

definition in_flight :: "gve_tx_ring_gqi \<Rightarrow> nat" where
  "in_flight tx = unat (tx_req tx - tx_done tx)"

lemma slot_mod: "ring_mask k (tx_mask tx) \<Longrightarrow> slot tx j = (unat (tx_done tx) + j) mod 2 ^ k"
  by (simp add: slot_def unat_add_of_nat_mod)

lemma slot_less: "ring_mask k (tx_mask tx) \<Longrightarrow> slot tx j < 2 ^ k"
  by (simp add: slot_mod)

lemma slot_inj:
  "ring_mask k (tx_mask tx) \<Longrightarrow> i < 2 ^ k \<Longrightarrow> j < 2 ^ k \<Longrightarrow> slot tx i = slot tx j \<longleftrightarrow> i = j"
  using mod_add_neq [of i "2 ^ k" j] by (auto simp: slot_mod)

lemma slot_req: "unat ((tx_req tx + of_nat t) AND tx_mask tx) = slot tx (in_flight tx + t)"
proof -
  have "tx_done tx + of_nat (in_flight tx) = tx_req tx" by (simp add: in_flight_def)
  then have "tx_req tx + of_nat t = tx_done tx + of_nat (in_flight tx + t)"
    by (metis (no_types) add.assoc of_nat_add)
  then show ?thesis by (simp add: slot_def del: of_nat_add)
qed

lemma gve_tx_avail_eq:
  assumes "ring_mask k (tx_mask tx)" and "in_flight tx \<le> 2 ^ k"
  shows "unat (gve_tx_avail tx) = 2 ^ k - in_flight tx"
proof -
  have k: "k < 32" and m: "tx_mask tx + 1 = 2 ^ k"
    using assms(1) by (auto simp: ring_mask_def mask_eq_exp_minus_1)
  have "(2::nat) ^ k < 2 ^ 32" by (rule power_strict_increasing [OF k]) simp
  moreover have "unat (tx_mask tx + 1) = (unat (tx_mask tx) + 1) mod 2 ^ 32"
    by (simp add: unat_word_ariths)
  ultimately have u: "unat (2 ^ k :: u32) = 2 ^ k"
    using ring_mask_lt [OF assms(1)] by (simp add: m del: unat_1)
  have "tx_req tx - tx_done tx \<le> 2 ^ k"
    using assms(2) u by (simp add: word_le_nat_alt in_flight_def)
  then show ?thesis
    using u by (simp add: gve_tx_avail_def m unat_sub in_flight_def)
qed

lemma gve_can_tx_iff:
  assumes "ring_mask k (tx_mask tx)" and "in_flight tx \<le> 2 ^ k" and "fifo_ok (fifo tx)" and "n < 2 ^ 40"
  shows "gve_can_tx tx (int n) \<longleftrightarrow> in_flight tx + 5 \<le> 2 ^ k \<and> int n \<le> available (fifo tx)"
proof -
  have "size_t_of_int (int n) = n" using assms(4) by (simp add: size_t_of_int_nonneg)
  moreover have "of_nat (GVE_TX_MAX_DESCS + 1) \<le> gve_tx_avail tx \<longleftrightarrow> 5 \<le> unat (gve_tx_avail tx)"
    by (simp add: GVE_TX_MAX_DESCS_def word_le_nat_alt)
  ultimately show ?thesis
    using assms gve_tx_avail_eq [OF assms(1,2)] by (auto simp: gve_can_tx_def fifo_ok_can_alloc)
qed

section \<open>What one packet allocates\<close>

lemma iov_space_0_nth:
  "iov_space iov = 0 \<Longrightarrow> i < length iov \<Longrightarrow> iov_len (iov ! i) = 0 \<and> iov_padding (iov ! i) = 0"
  by (induction iov arbitrary: i) (auto simp: nth_Cons split: nat.splits)

text \<open>
  The outcome of an allocation of \<open>n\<close> bytes at index \<open>b\<close> of the array: two entries that chain
  from the old head to the new one, \<open>c\<close> of them in use.
\<close>

definition alloc_ok :: "gve_tx_fifo \<Rightarrow> nat \<Rightarrow> gve_tx_iovec \<Rightarrow> gve_tx_iovec \<Rightarrow> nat \<Rightarrow> bool" where
  "alloc_ok f n x y c \<longleftrightarrow>
     iov_chain (fifo_size f) (fifo_head f) [x, y] = Some (fifo_head (fifo_take f n)) \<and>
     iov_space [x, y] = roundup2 n CACHE_LINE_SIZE \<and>
     iov_len x + iov_len y = n \<and> c \<le> 2 \<and>
     (c = 0 \<longleftrightarrow> n = 0) \<and> (c < 2 \<longrightarrow> iov_len y = 0 \<and> iov_padding y = 0) \<and>
     (c = 2 \<longrightarrow> iov_offset x = fifo_head f \<and> iov_len x = fifo_size f - fifo_head f \<and>
        iov_padding x = 0 \<and> iov_offset y = 0 \<and> 0 < iov_len y)"

lemma alloc_fifo_ok:
  assumes ok: "fifo_ok f" and n: "int n \<le> available f"
    and z: "iov_len (iov ! b) = 0" "iov_padding (iov ! b) = 0"
      "iov_len (iov ! (b + 1)) = 0" "iov_padding (iov ! (b + 1)) = 0"
    and b: "b + 1 < length iov"
  shows "\<exists>x y c. gve_tx_alloc_fifo f n iov b = (fifo_take f n, iov[b := x, b + 1 := y], c) \<and>
           alloc_ok f n x y c"
proof -
  let ?L = CACHE_LINE_SIZE
  have h: "?L dvd fifo_head f" "fifo_head f < fifo_size f" "?L dvd fifo_size f"
    using ok by (auto simp: fifo_ok_def)
  have ge: "n \<le> roundup2 n ?L" by (simp add: roundup2_ge)
  have le: "roundup2 n ?L \<le> fifo_size f"
    using fifo_room_for_padding [OF ok n] ok by (simp add: fifo_ok_def)
  consider "n = 0" | "0 < n" "fifo_head f + n \<le> fifo_size f" | "0 < n" "fifo_size f < fifo_head f + n"
    by linarith
  then show ?thesis
  proof cases
    case 1
    have "gve_tx_alloc_fifo f n iov b = (fifo_take f n, iov[b := iov ! b, b + 1 := iov ! (b + 1)], 0)"
      using 1 h by (simp add: gve_tx_alloc_fifo_def fifo_take_def)
    moreover have "alloc_ok f n (iov ! b) (iov ! (b + 1)) 0"
      using 1 z h by (simp add: alloc_ok_def)
    ultimately show ?thesis by blast
  next
    case 2
    let ?x = "\<lparr>iov_offset = fifo_head f, iov_len = n, iov_padding = roundup2 n ?L - n\<rparr>"
    have "roundup2 (fifo_head f + n) ?L \<le> fifo_size f" using h 2 by (intro roundup2_least) auto
    then have "fifo_head f + roundup2 n ?L \<le> fifo_size f" using h by (simp add: roundup2_add)
    then have "alloc_ok f n ?x (iov ! (b + 1)) 1"
      using 2 z ge by (simp add: alloc_ok_def)
    moreover have "gve_tx_alloc_fifo f n iov b
        = (fifo_take f n, iov[b := ?x, b + 1 := iov ! (b + 1)], 1)"
      using alloc_fifo_fits [OF ok 2(1) n 2(2), of b iov] b
        list_update_id [of "iov[b := ?x]" "b + 1"] by (simp del: list_update_id)
    ultimately show ?thesis by blast
  next
    case 3
    let ?o = "fifo_head f + n - fifo_size f"
    let ?x = "(iov ! b)\<lparr>iov_offset := fifo_head f, iov_len := fifo_size f - fifo_head f\<rparr>"
    let ?y = "\<lparr>iov_offset = 0, iov_len = ?o, iov_padding = roundup2 n ?L - n\<rparr>"
    have sum: "?o + (roundup2 n ?L - n) = fifo_head f + roundup2 n ?L - fifo_size f"
      using 3 ge by linarith
    have lt: "fifo_head f + roundup2 n ?L - fifo_size f < fifo_size f" using le h by linarith
    have "(fifo_head f + roundup2 n ?L) mod fifo_size f = fifo_head f + roundup2 n ?L - fifo_size f"
      using lt 3 ge by (subst mod_if) simp
    then have "alloc_ok f n ?x ?y 2"
      using 3 z h ge sum lt by (simp add: alloc_ok_def)
    moreover have "gve_tx_alloc_fifo f n iov b = (fifo_take f n, iov[b := ?x, b + 1 := ?y], 2)"
      using alloc_fifo_wraps [OF ok 3(1) n 3(2) b] .
    ultimately show ?thesis by blast
  qed
qed


section \<open>The segment loop\<close>

lemma gve_xmit_segs_frame [gve_frame]:
  assumes "gve_xmit_segs n i m t v6 mss iov sl co (tx, evs) = (tx', evs')"
  shows "info tx' = info tx \<and> tx_req tx' = tx_req tx \<and> tx_done tx' = tx_done tx \<and>
    tx_mask tx' = tx_mask tx \<and> tx_com tx' = tx_com tx \<and> stopped tx' = stopped tx \<and>
    tx_stats tx' = tx_stats tx \<and> last_kicked tx' = last_kicked tx \<and>
    length (desc_ring tx') = length (desc_ring tx) \<and>
    fifo_size (fifo tx') = fifo_size (fifo tx) \<and> available (fifo tx') = available (fifo tx) \<and>
    fifo_head (fifo tx') = fifo_head (fifo tx)"
  using assms
  by (induction n arbitrary: i sl co tx evs) (fastforce simp: Let_def m_copydata_def)+

text \<open>The descriptors the loop writes, and that it writes no others.\<close>

lemma seg_desc_fields:
  "d_type_flags (gve_tx_fill_seg_desc t l a v6 l3 mss d) AND 0xF0 = GVE_TXD_SEG"
  "d_half6 (gve_tx_fill_seg_desc t l a v6 l3 mss d) = of_nat l"
  "d_seg_addr (gve_tx_fill_seg_desc t l a v6 l3 mss d) = of_nat a"
  by (auto simp: gve_tx_fill_seg_desc_def Let_def GVE_TXD_SEG_def GVE_TXSF_IPV6_def)

lemma slot_add_neq:
  assumes "ring_mask k m" and "i < 2 ^ k" and "j < 2 ^ k" and "i \<noteq> j"
  shows "unat ((sl + of_nat i) AND m) \<noteq> unat ((sl + of_nat j) AND m)"
  using mod_add_neq [OF assms(2-4)] assms(1) by (simp add: unat_add_of_nat_mod)

lemma gve_xmit_segs_ring_frame:
  assumes "gve_xmit_segs n i m t v6 mss iov sl co (tx, evs) = (tx', evs')"
    and "\<And>j. j < n \<Longrightarrow> a \<noteq> unat ((sl + of_nat j) AND tx_mask tx)"
  shows "desc_ring tx' ! a = desc_ring tx ! a"
  using assms
proof (induction n arbitrary: i sl co tx evs)
  case 0
  then show ?case by simp
next
  case (Suc n)
  have "a \<noteq> unat ((sl + 1 + of_nat j) AND tx_mask tx)" if "j < n" for j
    using Suc.prems(2) [of "Suc j"] that by (simp add: ac_simps)
  with Suc.IH [of "i + 1" "sl + 1"] Suc.prems(1) Suc.prems(2) [of 0] show ?case
    by (fastforce simp: Let_def)
qed

definition seg_desc_of :: "gve_tx_iovec \<Rightarrow> gve_tx_desc \<Rightarrow> bool" where
  "seg_desc_of v d \<longleftrightarrow> d_type_flags d AND 0xF0 = GVE_TXD_SEG \<and> d_half6 d = of_nat (iov_len v) \<and>
     d_seg_addr d = of_nat (iov_offset v)"

lemma gve_xmit_segs_ring:
  assumes "gve_xmit_segs n i m t v6 mss iov sl co (tx, evs) = (tx', evs')"
    and "ring_mask k (tx_mask tx)" and "length (desc_ring tx) = 2 ^ k" and "n \<le> 2 ^ k" and "j < n"
  shows "seg_desc_of (iov ! (i + j)) (desc_ring tx' ! unat ((sl + of_nat j) AND tx_mask tx))"
  using assms
proof (induction n arbitrary: i sl co tx evs j)
  case 0
  then show ?case by simp
next
  case (Suc n)
  let ?idx = "unat (sl AND tx_mask tx)"
  define d where "d = gve_tx_fill_seg_desc t (iov_len (iov ! i)) (iov_offset (iov ! i)) v6
    ETHER_HDR_LEN mss (desc_ring tx ! ?idx)"
  define tx1 where "tx1 = tx\<lparr>desc_ring := (desc_ring tx)[?idx := d],
    fifo := m_copydata m co (iov_len (iov ! i)) (fifo tx) (iov_offset (iov ! i))\<rparr>"
  obtain evs1 where run: "gve_xmit_segs n (i + 1) m t v6 mss iov (sl + 1)
      (co + iov_len (iov ! i)) (tx1, evs1) = (tx', evs')"
    using Suc.prems(1) by (auto simp: Let_def tx1_def d_def)
  have mk1: "tx_mask tx1 = tx_mask tx" by (simp add: tx1_def)
  have idx: "?idx < length (desc_ring tx)"
    using Suc.prems(2,3) by (simp add: and_mask_bound)
  show ?case
  proof (cases j)
    case 0
    have ne: "?idx \<noteq> unat ((sl + 1 + of_nat l) AND tx_mask tx1)" if "l < n" for l
      using slot_add_neq [OF Suc.prems(2), of 0 "Suc l" sl] that Suc.prems(4)
      by (simp add: mk1 ac_simps)
    have "desc_ring tx' ! ?idx = d"
      using gve_xmit_segs_ring_frame [OF run ne] idx by (simp add: tx1_def)
    then show ?thesis using 0 by (simp add: seg_desc_of_def d_def seg_desc_fields)
  next
    case (Suc l)
    from Suc.IH [OF run, of l] Suc.prems Suc show ?thesis
      by (simp add: mk1 tx1_def ac_simps)
  qed
qed

text \<open>The bytes the loop copies.\<close>

definition region :: "gve_tx_iovec \<Rightarrow> nat set" where
  "region v = {iov_offset v ..< iov_offset v + iov_len v}"

lemma gve_xmit_segs_mem_frame:
  assumes "gve_xmit_segs n i m t v6 mss iov sl co (tx, evs) = (tx', evs')"
    and "\<And>j. j < n \<Longrightarrow> iov_offset (iov ! (i + j)) + iov_len (iov ! (i + j)) \<le> length (fifo_mem (fifo tx))"
    and "co + (\<Sum>j<n. iov_len (iov ! (i + j))) \<le> length (m_data m)"
  shows "length (fifo_mem (fifo tx')) = length (fifo_mem (fifo tx)) \<and>
    (a + l \<le> length (fifo_mem (fifo tx)) \<longrightarrow> (\<forall>j<n. region (iov ! (i + j)) \<inter> {a..<a+l} = {}) \<longrightarrow>
      slice (fifo_mem (fifo tx')) a l = slice (fifo_mem (fifo tx)) a l)"
  using assms
proof (induction n arbitrary: i sl co tx evs)
  case 0
  then show ?case by simp
next
  case (Suc n)
  let ?v = "iov ! i" and ?idx = "unat (sl AND tx_mask tx)"
  define d where "d = gve_tx_fill_seg_desc t (iov_len ?v) (iov_offset ?v) v6
    ETHER_HDR_LEN mss (desc_ring tx ! ?idx)"
  define tx1 where "tx1 = tx\<lparr>desc_ring := (desc_ring tx)[?idx := d],
    fifo := m_copydata m co (iov_len ?v) (fifo tx) (iov_offset ?v)\<rparr>"
  obtain evs1 where run: "gve_xmit_segs n (i + 1) m t v6 mss iov (sl + 1)
      (co + iov_len ?v) (tx1, evs1) = (tx', evs')"
    using Suc.prems(1) by (auto simp: Let_def tx1_def d_def)
  have tot: "co + iov_len ?v + (\<Sum>j<n. iov_len (iov ! (i + 1 + j))) \<le> length (m_data m)"
    using Suc.prems(3) by (simp add: sum.lessThan_Suc_shift del: sum.lessThan_Suc)
  have lv: "length (slice (m_data m) co (iov_len ?v)) = iov_len ?v" using tot by simp
  have b0: "iov_offset ?v + iov_len ?v \<le> length (fifo_mem (fifo tx))" using Suc.prems(2) [of 0] by simp
  have len1: "length (fifo_mem (fifo tx1)) = length (fifo_mem (fifo tx))"
    using b0 lv by (simp add: tx1_def m_copydata_def)
  have bs: "iov_offset (iov ! (i + 1 + j)) + iov_len (iov ! (i + 1 + j)) \<le> length (fifo_mem (fifo tx1))"
    if "j < n" for j using Suc.prems(2) [of "Suc j"] that by (simp add: len1)
  note IH = Suc.IH [OF run bs tot]
  show ?case
  proof (intro conjI impI)
    show "length (fifo_mem (fifo tx')) = length (fifo_mem (fifo tx))" using IH len1 by simp
  next
    assume al: "a + l \<le> length (fifo_mem (fifo tx))"
      and dj: "\<forall>j<Suc n. region (iov ! (i + j)) \<inter> {a..<a+l} = {}"
    have "region (iov ! (i + 1 + j)) \<inter> {a..<a+l} = {}" if "j < n" for j
      using dj [rule_format, of "Suc j"] that by simp
    with IH al len1 have "slice (fifo_mem (fifo tx')) a l = slice (fifo_mem (fifo tx1)) a l" by simp
    also have "\<dots> = slice (fifo_mem (fifo tx)) a l"
      using b0 lv al dj [rule_format, of 0]
      by (auto simp: tx1_def m_copydata_def region_def disjoint_iff intro!: slice_blit_disjoint)
    finally show "slice (fifo_mem (fifo tx')) a l = slice (fifo_mem (fifo tx)) a l" .
  qed
qed

lemma gve_xmit_segs_mem:
  assumes "gve_xmit_segs n i m t v6 mss iov sl co (tx, evs) = (tx', evs')"
    and "\<And>j. j < n \<Longrightarrow> iov_offset (iov ! (i + j)) + iov_len (iov ! (i + j)) \<le> length (fifo_mem (fifo tx))"
    and "co + (\<Sum>j<n. iov_len (iov ! (i + j))) \<le> length (m_data m)"
    and "\<And>j l. j < l \<Longrightarrow> l < n \<Longrightarrow> region (iov ! (i + l)) \<inter> region (iov ! (i + j)) = {}"
  shows "concat (map (\<lambda>j. slice (fifo_mem (fifo tx')) (iov_offset (iov ! (i + j))) (iov_len (iov ! (i + j)))) [0..<n])
    = slice (m_data m) co (\<Sum>j<n. iov_len (iov ! (i + j)))"
  using assms
proof (induction n arbitrary: i sl co tx evs)
  case 0
  then show ?case by simp
next
  case (Suc n)
  let ?v = "iov ! i" and ?idx = "unat (sl AND tx_mask tx)"
  define d where "d = gve_tx_fill_seg_desc t (iov_len ?v) (iov_offset ?v) v6
    ETHER_HDR_LEN mss (desc_ring tx ! ?idx)"
  define tx1 where "tx1 = tx\<lparr>desc_ring := (desc_ring tx)[?idx := d],
    fifo := m_copydata m co (iov_len ?v) (fifo tx) (iov_offset ?v)\<rparr>"
  obtain evs1 where run: "gve_xmit_segs n (i + 1) m t v6 mss iov (sl + 1)
      (co + iov_len ?v) (tx1, evs1) = (tx', evs')"
    using Suc.prems(1) by (auto simp: Let_def tx1_def d_def)
  have tot: "co + iov_len ?v + (\<Sum>j<n. iov_len (iov ! (i + 1 + j))) \<le> length (m_data m)"
    using Suc.prems(3) by (simp add: sum.lessThan_Suc_shift del: sum.lessThan_Suc)
  have lv: "length (slice (m_data m) co (iov_len ?v)) = iov_len ?v" using tot by simp
  have b0: "iov_offset ?v + iov_len ?v \<le> length (fifo_mem (fifo tx))" using Suc.prems(2) [of 0] by simp
  have len1: "length (fifo_mem (fifo tx1)) = length (fifo_mem (fifo tx))"
    using b0 lv by (simp add: tx1_def m_copydata_def)
  have bs: "iov_offset (iov ! (i + 1 + j)) + iov_len (iov ! (i + 1 + j)) \<le> length (fifo_mem (fifo tx1))"
    if "j < n" for j using Suc.prems(2) [of "Suc j"] that by (simp add: len1)
  have pw: "region (iov ! (i + 1 + l)) \<inter> region (iov ! (i + 1 + j)) = {}" if "j < l" "l < n" for j l
    using Suc.prems(4) [of "Suc j" "Suc l"] that by simp
  have first: "region (iov ! (i + 1 + j)) \<inter> {iov_offset ?v ..< iov_offset ?v + iov_len ?v} = {}"
    if "j < n" for j using Suc.prems(4) [of 0 "Suc j"] that by (simp add: region_def)
  have "slice (fifo_mem (fifo tx')) (iov_offset ?v) (iov_len ?v)
      = slice (fifo_mem (fifo tx1)) (iov_offset ?v) (iov_len ?v)"
    using gve_xmit_segs_mem_frame [OF run bs tot, of "iov_offset ?v" "iov_len ?v"] first b0 len1 by simp
  also have "\<dots> = slice (m_data m) co (iov_len ?v)"
    using b0 lv by (simp add: tx1_def m_copydata_def slice_blit_same)
  finally have hd: "slice (fifo_mem (fifo tx')) (iov_offset ?v) (iov_len ?v)
      = slice (m_data m) co (iov_len ?v)" .
  have ups: "[0..<Suc n] = 0 # map Suc [0..<n]" by (simp add: map_Suc_upt upt_conv_Cons)
  show ?case
    using Suc.IH [OF run bs tot pw] hd
    by (simp add: ups o_def sum.lessThan_Suc_shift slice_append del: upt_Suc sum.lessThan_Suc)
qed

section \<open>The device's view and the ring invariant\<close>

text \<open>
  What the device reads for the packet whose first descriptor is \<open>j\<close> slots behind \<open>done\<close>: the
  segment of the packet descriptor, then those of the segment descriptors among the
  \<open>desc_cnt - 1\<close> descriptors that follow.
\<close>

definition gq_desc :: "gve_tx_ring_gqi \<Rightarrow> nat \<Rightarrow> gve_tx_desc" where
  "gq_desc tx j = desc_ring tx ! slot tx j"

definition gq_seg :: "gve_tx_ring_gqi \<Rightarrow> nat \<Rightarrow> nat \<times> nat" where
  "gq_seg tx j = (unat (d_seg_addr (gq_desc tx j)), unat (d_half6 (gq_desc tx j)))"

definition gq_desc_cnt :: "gve_tx_ring_gqi \<Rightarrow> nat \<Rightarrow> nat" where
  "gq_desc_cnt tx j = unat (d_byte3 (gq_desc tx j))"

definition gq_segs :: "gve_tx_ring_gqi \<Rightarrow> nat \<Rightarrow> (nat \<times> nat) list" where
  "gq_segs tx j = gq_seg tx j #
     map (gq_seg tx) (filter (\<lambda>l. d_type_flags (gq_desc tx l) AND 0xF0 = GVE_TXD_SEG)
       [j + 1 ..< j + gq_desc_cnt tx j])"

definition gq_read :: "gve_tx_ring_gqi \<Rightarrow> nat \<Rightarrow> u8 list" where
  "gq_read tx j = concat (map (\<lambda>(a, l). slice (fifo_mem (fifo tx)) a l) (gq_segs tx j))"

definition seg_within :: "nat \<times> nat \<Rightarrow> gve_tx_iovec list \<Rightarrow> bool" where
  "seg_within s iov \<longleftrightarrow> (\<exists>v \<in> set iov. iov_offset v \<le> fst s \<and> fst s + snd s \<le> iov_offset v + iov_len v \<and> 0 < snd s)"

text \<open>
  A slot in flight either starts a packet, whose descriptors all lie in the window, describe
  memory of its own FIFO regions and spell the bytes of its mbuf, or holds no FIFO space.
\<close>

definition gq_pkt_ok :: "gve_tx_ring_gqi \<Rightarrow> nat \<Rightarrow> bool" where
  "gq_pkt_ok tx j \<longleftrightarrow>
     (let i = info tx ! slot tx j in
      case info_mbuf i of
        None \<Rightarrow> iov_space (info_iov i) = 0
      | Some m \<Rightarrow> 0 < gq_desc_cnt tx j \<and> j + gq_desc_cnt tx j \<le> in_flight tx \<and>
          CACHE_LINE_SIZE dvd iov_space (info_iov i) \<and>
          gq_read tx j = m_data m \<and> (\<forall>s \<in> set (gq_segs tx j). seg_within s (info_iov i)))"

definition window_iov :: "gve_tx_ring_gqi \<Rightarrow> gve_tx_iovec list" where
  "window_iov tx = concat (map (\<lambda>j. info_iov (info tx ! slot tx j)) [0..<in_flight tx])"

definition fifo_tail :: "gve_tx_fifo \<Rightarrow> nat" where
  "fifo_tail f = (fifo_head f + nat (available f)) mod fifo_size f"

definition tx_inv :: "nat \<Rightarrow> gve_tx_ring_gqi \<Rightarrow> bool" where
  "tx_inv k tx \<longleftrightarrow> ring_mask k (tx_mask tx) \<and> length (desc_ring tx) = 2 ^ k \<and>
     length (info tx) = 2 ^ k \<and> (\<forall>i \<in> set (info tx). length (info_iov i) = GVE_TX_MAX_DESCS) \<and>
     fifo_ok (fifo tx) \<and> in_flight tx \<le> 2 ^ k \<and>
     (\<forall>a < 2 ^ k. a \<notin> slot tx ` {..<in_flight tx} \<longrightarrow>
        info_mbuf (info tx ! a) = None \<and> iov_space (info_iov (info tx ! a)) = 0) \<and>
     (\<forall>j < in_flight tx. gq_pkt_ok tx j) \<and>
     iov_chain (fifo_size (fifo tx)) (fifo_tail (fifo tx)) (window_iov tx) = Some (fifo_head (fifo tx)) \<and>
     iov_space (window_iov tx) + nat (available (fifo tx)) = fifo_size (fifo tx)"

lemma tx_invD:
  assumes "tx_inv k tx"
  shows "ring_mask k (tx_mask tx)" "length (desc_ring tx) = 2 ^ k" "length (info tx) = 2 ^ k"
    "\<And>i. i \<in> set (info tx) \<Longrightarrow> length (info_iov i) = 4"
    "fifo_ok (fifo tx)" "in_flight tx \<le> 2 ^ k"
    "\<And>a. a < 2 ^ k \<Longrightarrow> a \<notin> slot tx ` {..<in_flight tx} \<Longrightarrow>
        info_mbuf (info tx ! a) = None \<and> iov_space (info_iov (info tx ! a)) = 0"
    "\<And>j. j < in_flight tx \<Longrightarrow> gq_pkt_ok tx j"
    "iov_chain (fifo_size (fifo tx)) (fifo_tail (fifo tx)) (window_iov tx) = Some (fifo_head (fifo tx))"
    "iov_space (window_iov tx) + nat (available (fifo tx)) = fifo_size (fifo tx)"
  using assms unfolding tx_inv_def by (simp_all add: GVE_TX_MAX_DESCS_def)

lemma free_slot:
  assumes "tx_inv k tx" and "in_flight tx \<le> j" and "j < 2 ^ k"
  shows "info_mbuf (info tx ! slot tx j) = None \<and> iov_space (info_iov (info tx ! slot tx j)) = 0"
proof -
  have "slot tx j \<notin> slot tx ` {..<in_flight tx}"
    using slot_inj [OF tx_invD(1) [OF assms(1)]] assms by auto
  then show ?thesis using tx_invD(1,7) [OF assms(1)] slot_less by blast
qed

section \<open>Allocation for one packet\<close>

lemma hdr_alloc:
  assumes ok: "fifo_ok f" and l: "0 < fsl"
    and al: "alloc_ok f (fsl + gve_tx_fifo_pad_alloc_one_frag f fsl) x y c"
  shows "(c = 1 \<and> iov_len x = fsl \<and> gve_tx_fifo_pad_alloc_one_frag f fsl = 0) \<or>
         (c = 2 \<and> iov_len y = fsl \<and> iov_offset y = 0)"
proof -
  let ?pad = "gve_tx_fifo_pad_alloc_one_frag f fsl"
  have h: "fifo_head f < fifo_size f" using ok by (simp add: fifo_ok_def)
  have c: "c = 1 \<or> c = 2" using al l by (auto simp: alloc_ok_def)
  then show ?thesis
  proof
    assume c1: "c = 1"
    then have ln: "iov_len x = fsl + ?pad" using al by (simp add: alloc_ok_def)
    then have "fifo_head f + (fsl + ?pad) \<le> fifo_size f"
      using al l by (auto simp: alloc_ok_def split: if_splits)
    then have "?pad = 0" using l h by (auto simp: gve_tx_fifo_pad_alloc_one_frag_def split: if_splits)
    with c1 ln show ?thesis by simp
  next
    assume c2: "c = 2"
    then have "iov_len x = fifo_size f - fifo_head f" "0 < iov_len y" "iov_len x + iov_len y = fsl + ?pad"
      "iov_offset y = 0" using al by (simp_all add: alloc_ok_def)
    then show ?thesis using c2 h by (auto simp: gve_tx_fifo_pad_alloc_one_frag_def split: if_splits)
  qed
qed

text \<open>
  The two allocations of \<open>gve_xmit\<close> succeed when \<open>gve_can_tx\<close> has said yes, and their four
  entries chain on from the old head.
\<close>

definition pkt_alloc ::
  "gve_tx_fifo \<Rightarrow> nat \<Rightarrow> nat \<Rightarrow> gve_tx_iovec list \<Rightarrow> gve_tx_fifo \<Rightarrow> gve_tx_iovec list \<Rightarrow> nat \<Rightarrow> nat \<Rightarrow> bool" where
  "pkt_alloc f fsl len iov0 f2 iov2 n1 n2 \<longleftrightarrow>
     (\<exists>f1 iov1. gve_tx_alloc_fifo f (fsl + gve_tx_fifo_pad_alloc_one_frag f fsl) iov0 0 = (f1, iov1, n1) \<and>
        gve_tx_alloc_fifo f1 (len - fsl) iov1 2 = (f2, iov2, n2)) \<and>
     fifo_ok f2 \<and> fifo_mem f2 = fifo_mem f \<and> fifo_size f2 = fifo_size f \<and>
     available f2 = available f - int (iov_space iov2) \<and>
     iov_chain (fifo_size f) (fifo_head f) iov2 = Some (fifo_head f2) \<and>
     length iov2 = 4 \<and> (n1 = 1 \<or> n1 = 2) \<and> n2 \<le> 2 \<and>
     iov_len (iov2 ! (n1 - 1)) = fsl \<and> (\<forall>t < n2. 0 < iov_len (iov2 ! (2 + t))) \<and>
     (\<Sum>t<n2. iov_len (iov2 ! (2 + t))) = len - fsl"

lemma pkt_alloc_exists:
  assumes ok: "fifo_ok f" and l: "0 < fsl" "fsl \<le> len"
    and room: "gve_fifo_bytes_required f fsl len \<le> available f"
    and iov0: "length iov0 = 4" "iov_space iov0 = 0"
  shows "\<exists>f2 iov2 n1 n2. pkt_alloc f fsl len iov0 f2 iov2 n1 n2"
proof -
  let ?L = CACHE_LINE_SIZE
  let ?pad = "gve_tx_fifo_pad_alloc_one_frag f fsl"
  have dv: "?L dvd ?pad"
    using ok by (auto simp: gve_tx_fifo_pad_alloc_one_frag_def fifo_ok_def dvd_diff_nat)
  have ge: "fsl \<le> roundup2 fsl ?L" by (simp add: roundup2_ge)
  have rr: "roundup2 (fsl + ?pad) ?L = ?pad + roundup2 fsl ?L"
    using roundup2_add [OF dv, of fsl] by (simp add: add.commute)
  have rm: "int (roundup2 fsl ?L - fsl + ?pad + len) \<le> available f"
    using room by (simp add: gve_fifo_bytes_required_def Let_def)
  obtain x y c where a1: "gve_tx_alloc_fifo f (fsl + ?pad) iov0 0
      = (fifo_take f (fsl + ?pad), iov0[0 := x, 0 + 1 := y], c)" and ok1: "alloc_ok f (fsl + ?pad) x y c"
    using alloc_fifo_ok [OF ok, of "fsl + ?pad" iov0 0] iov_space_0_nth [OF iov0(2)] iov0(1) rm l by auto
  let ?f1 = "fifo_take f (fsl + ?pad)" and ?iov1 = "iov0[0 := x, 0 + 1 := y]"
  have f1: "fifo_ok ?f1" using ok rm l by (intro fifo_take_ok) auto
  have r2: "int (len - fsl) \<le> available ?f1" using rm rr l ge by simp
  obtain x' y' c' where a2: "gve_tx_alloc_fifo ?f1 (len - fsl) ?iov1 2
      = (fifo_take ?f1 (len - fsl), ?iov1[2 := x', 2 + 1 := y'], c')"
    and ok2: "alloc_ok ?f1 (len - fsl) x' y' c'"
    using alloc_fifo_ok [OF f1 r2, of ?iov1 2] iov_space_0_nth [OF iov0(2)] iov0(1) by auto
  let ?f2 = "fifo_take ?f1 (len - fsl)" and ?iov2 = "[x, y, x', y']"
  have iov2: "?iov1[2 := x', 2 + 1 := y'] = ?iov2"
    using iov0(1) by (auto simp: numeral_eq_Suc length_Suc_conv)
  have al: "\<exists>f1 iov1. gve_tx_alloc_fifo f (fsl + ?pad) iov0 0 = (f1, iov1, c) \<and>
      gve_tx_alloc_fifo f1 (len - fsl) iov1 2 = (?f2, ?iov2, c')"
    using a1 a2 unfolding iov2 by blast
  have h: "iov_len (?iov2 ! (c - 1)) = fsl" "c = 1 \<or> c = 2"
    using hdr_alloc [OF ok l(1) ok1] by auto
  have c': "c' = 0 \<or> c' = 1 \<or> c' = 2" using ok2 by (auto simp: alloc_ok_def)
  then have sm: "(\<Sum>t<c'. iov_len (?iov2 ! (2 + t))) = len - fsl"
    using ok2 by (auto simp: alloc_ok_def numeral_eq_Suc)
  have "0 < fifo_size ?f1 - fifo_head ?f1" using f1 by (simp add: fifo_ok_def)
  then have pos: "\<forall>t < c'. 0 < iov_len (?iov2 ! (2 + t))"
    using c' ok2 by (auto simp: alloc_ok_def less_Suc_eq numeral_eq_Suc)
  have ch: "iov_chain (fifo_size f) (fifo_head f) ?iov2 = Some (fifo_head ?f2)"
    using ok1 ok2 iov_chain_append [of "fifo_size f" "fifo_head f" "[x, y]" "[x', y']"]
    by (simp add: alloc_ok_def)
  have av: "available ?f2 = available f - int (iov_space ?iov2)"
    using ok1 ok2 by (simp add: alloc_ok_def)
  have "fifo_ok ?f2" using f1 r2 by (rule fifo_take_ok)
  then have "pkt_alloc f fsl len iov0 ?f2 ?iov2 c c'"
    unfolding pkt_alloc_def using al h c' sm pos ch av
    by (intro conjI) (auto simp del: fifo_take_sel(3,4))
  then show ?thesis by blast
qed

section \<open>The effect of committing a packet\<close>

text \<open>
  The state after \<open>gve_xmit_commit\<close>, relative to the regions \<open>iov2\<close> allocated, with header
  region \<open>iov2 ! (n1 - 1)\<close> and \<open>n2\<close> payload regions.
\<close>

definition commit_ring ::
  "nat \<Rightarrow> gve_tx_ring_gqi \<Rightarrow> mbuf \<Rightarrow> nat \<Rightarrow> gve_tx_iovec list \<Rightarrow> nat \<Rightarrow> nat \<Rightarrow> nat \<Rightarrow> gve_tx_ring_gqi \<Rightarrow> bool" where
  "commit_ring k tx m fsl iov2 n1 n2 mtd tx' \<longleftrightarrow>
     (let w = in_flight tx; nd = 1 + mtd + n2; d = desc_ring tx' ! slot tx w in
      mtd \<le> 1 \<and> tx_done tx' = tx_done tx \<and> tx_mask tx' = tx_mask tx \<and>
      tx_req tx' = tx_req tx + of_nat nd \<and> length (desc_ring tx') = 2 ^ k \<and>
      (\<exists>i'. info tx' = (info tx)[slot tx w := i'] \<and> info_mbuf i' = Some m \<and> info_iov i' = iov2) \<and>
      (\<forall>a. (\<forall>t < nd. a \<noteq> slot tx (w + t)) \<longrightarrow> desc_ring tx' ! a = desc_ring tx ! a) \<and>
      d_byte3 d = of_nat nd \<and> d_half6 d = of_nat fsl \<and>
      d_seg_addr d = of_nat (iov_offset (iov2 ! (n1 - 1))) \<and>
      (mtd = 1 \<longrightarrow> d_type_flags (desc_ring tx' ! slot tx (w + 1)) AND 0xF0 = GVE_TXD_MTD) \<and>
      (\<forall>t < n2. seg_desc_of (iov2 ! (2 + t)) (desc_ring tx' ! slot tx (w + 1 + mtd + t))))"

definition commit_mem ::
  "gve_tx_ring_gqi \<Rightarrow> mbuf \<Rightarrow> nat \<Rightarrow> gve_tx_fifo \<Rightarrow> gve_tx_iovec list \<Rightarrow> nat \<Rightarrow> nat \<Rightarrow> gve_tx_ring_gqi \<Rightarrow> bool" where
  "commit_mem tx m fsl f2 iov2 n1 n2 tx' \<longleftrightarrow>
     fifo_size (fifo tx') = fifo_size f2 \<and> available (fifo tx') = available f2 \<and>
     fifo_head (fifo tx') = fifo_head f2 \<and>
     length (fifo_mem (fifo tx')) = length (fifo_mem (fifo tx)) \<and>
     (\<forall>a l. a + l \<le> length (fifo_mem (fifo tx)) \<longrightarrow>
        region (iov2 ! (n1 - 1)) \<inter> {a..<a+l} = {} \<longrightarrow>
        (\<forall>t < n2. region (iov2 ! (2 + t)) \<inter> {a..<a+l} = {}) \<longrightarrow>
        slice (fifo_mem (fifo tx')) a l = slice (fifo_mem (fifo tx)) a l) \<and>
     slice (fifo_mem (fifo tx')) (iov_offset (iov2 ! (n1 - 1))) fsl = take fsl (m_data m) \<and>
     concat (map (\<lambda>t. slice (fifo_mem (fifo tx')) (iov_offset (iov2 ! (2 + t))) (iov_len (iov2 ! (2 + t)))) [0..<n2])
       = drop fsl (m_data m)"

lemma iov_chain_regions:
  assumes "iov_chain sz p vs = Some q" "p < sz" "iov_space vs \<le> sz" "i < length vs" "j < length vs" "i \<noteq> j"
  shows "region (vs ! i) \<inter> region (vs ! j) = {}"
proof -
  have "region (vs ! i) \<inter> region (vs ! j) = {}" if "i < j" "j < length vs" for i j
    using iov_chain_disjoint [OF assms(1-3) that]
    by (simp only: region_def disjoint_iff atLeastLessThan_iff) blast
  then show ?thesis using assms(4-6) by (metis inf_commute nat_neq_iff)
qed

lemma pkt_alloc_regions:
  assumes "fifo_ok f" and "pkt_alloc f fsl len iov0 f2 iov2 n1 n2" and "0 < fsl"
  shows "i < 4 \<Longrightarrow> j < 4 \<Longrightarrow> i \<noteq> j \<Longrightarrow> region (iov2 ! i) \<inter> region (iov2 ! j) = {}"
    and "i < 4 \<Longrightarrow> 0 < iov_len (iov2 ! i) \<Longrightarrow> iov_offset (iov2 ! i) + iov_len (iov2 ! i) \<le> fifo_size f"
proof -
  have c: "iov_chain (fifo_size f) (fifo_head f) iov2 = Some (fifo_head f2)" "length iov2 = 4"
    "fifo_head f < fifo_size f" "iov_space iov2 \<le> fifo_size f"
    using assms(1,2) by (auto simp: pkt_alloc_def fifo_ok_def)
  show "i < 4 \<Longrightarrow> j < 4 \<Longrightarrow> i \<noteq> j \<Longrightarrow> region (iov2 ! i) \<inter> region (iov2 ! j) = {}"
    using c by (intro iov_chain_regions) auto
  show "i < 4 \<Longrightarrow> 0 < iov_len (iov2 ! i) \<Longrightarrow> iov_offset (iov2 ! i) + iov_len (iov2 ! i) \<le> fifo_size f"
    using iov_chain_pos [OF c(1,3), of i] c(2) by auto
qed

text \<open>The state in which the segment loop starts.\<close>

definition commit_start ::
  "int \<Rightarrow> mbuf \<Rightarrow> nat \<Rightarrow> nat \<Rightarrow> nat \<Rightarrow> gve_tx_fifo \<Rightarrow> gve_tx_iovec list \<Rightarrow> nat \<Rightarrow> nat \<Rightarrow> nat \<Rightarrow> gve_tx_ring_gqi \<Rightarrow> gve_tx_ring_gqi" where
  "commit_start now m l4 fsl len f2 iov2 n1 n2 mtd tx =
     (let w = in_flight tx; h = iov2 ! (n1 - 1);
          ring1 = (desc_ring tx)[slot tx w := gve_tx_fill_pkt_desc (is_tso_mbuf m) l4 (1 + mtd + n2) fsl
             (iov_offset h) (has_csum_flag m) (csum_field_offset m) len]
      in tx\<lparr>info := (info tx)[slot tx w := (info tx ! slot tx w)\<lparr>info_mbuf := Some m,
               enqueue_time_sec := now, info_iov := iov2\<rparr>],
            desc_ring := (if mtd = 1 then ring1[slot tx (w + 1) := gve_tx_fill_mtd_desc m] else ring1),
            fifo := m_copydata m 0 fsl f2 (iov_offset h)\<rparr>)"

lemma commit_unfold:
  assumes run: "gve_xmit_commit now m v6 l4 fsl len tx = (tx', evs)"
    and l: "fsl \<le> len" "len < 2 ^ 16"
    and al: "pkt_alloc (fifo tx) fsl len (info_iov (info tx ! slot tx (in_flight tx))) f2 iov2 n1 n2"
    and mtd: "mtd = (if m_hash m \<noteq> M_HASHTYPE_NONE then 1 else 0)"
  shows "\<exists>mss evs1 evs2 tx2.
    gve_xmit_segs n2 2 m (is_tso_mbuf m) v6 mss iov2 (tx_req tx + of_nat (1 + mtd)) fsl
      (commit_start now m l4 fsl len f2 iov2 n1 n2 mtd tx, evs1) = (tx2, evs2) \<and>
    tx_done tx' = tx_done tx2 \<and> tx_mask tx' = tx_mask tx2 \<and>
    tx_req tx' = tx_req tx + of_nat (1 + mtd + n2) \<and> desc_ring tx' = desc_ring tx2 \<and>
    info tx' = info tx2 \<and> fifo tx' = fifo tx2"
proof -
  obtain f1 iov1 where a1: "gve_tx_alloc_fifo (fifo tx)
      (fsl + gve_tx_fifo_pad_alloc_one_frag (fifo tx) fsl)
      (info_iov (info tx ! slot tx (in_flight tx))) 0 = (f1, iov1, n1)"
    and a2: "gve_tx_alloc_fifo f1 (len - fsl) iov1 2 = (f2, iov2, n2)"
    using al by (auto simp: pkt_alloc_def)
  have st: "size_t_of_int (int len - int fsl) = len - fsl"
    using l by (subst size_t_of_int_nonneg) auto
  have s0: "unat (tx_req tx AND tx_mask tx) = slot tx (in_flight tx)" using slot_req [of tx 0] by simp
  have s1: "unat ((tx_req tx + 1) AND tx_mask tx) = slot tx (in_flight tx + 1)"
    using slot_req [of tx 1] by simp
  let ?mss = "if is_tso_mbuf m then m_tso_segsz m else 0"
  let ?h = "iov2 ! (n1 - 1)"
  let ?evs1 = "map DMA_SYNC_PREWRITE (gve_dma_sync_for_device (iov_offset ?h) (iov_len ?h))"
  let ?start = "commit_start now m l4 fsl len f2 iov2 n1 n2 mtd tx"
  obtain tx2 evs2 where seg: "gve_xmit_segs n2 2 m (is_tso_mbuf m) v6 ?mss iov2
      (tx_req tx + of_nat (1 + mtd)) fsl (?start, ?evs1) = (tx2, evs2)"
    by (meson surj_pair)
  moreover have "tx' = (if is_tso_mbuf m
      then tx2\<lparr>tx_req := tx_req tx + of_nat (1 + mtd + n2),
             tx_stats := (tx_stats tx2)\<lparr>tso_packet_cnt := tso_packet_cnt (tx_stats tx2) + 1\<rparr>\<rparr>
      else tx2\<lparr>tx_req := tx_req tx + of_nat (1 + mtd + n2)\<rparr>)"
    using run seg unfolding gve_xmit_commit_def commit_start_def Let_def s0 s1 st a1 a2 prod.case mtd
    by (simp add: add.assoc split: if_splits)
  ultimately show ?thesis
    by (intro exI [of _ ?mss] exI [of _ ?evs1] exI [of _ evs2] exI [of _ tx2]) auto
qed

lemma commit_start_sel [simp]:
  "tx_done (commit_start now m l4 fsl len f2 iov2 n1 n2 mtd tx) = tx_done tx"
  "tx_req (commit_start now m l4 fsl len f2 iov2 n1 n2 mtd tx) = tx_req tx"
  "tx_mask (commit_start now m l4 fsl len f2 iov2 n1 n2 mtd tx) = tx_mask tx"
  "fifo (commit_start now m l4 fsl len f2 iov2 n1 n2 mtd tx) =
     m_copydata m 0 fsl f2 (iov_offset (iov2 ! (n1 - 1)))"
  "length (desc_ring (commit_start now m l4 fsl len f2 iov2 n1 n2 mtd tx)) = length (desc_ring tx)"
  by (simp_all add: commit_start_def Let_def)

lemma pkt_desc_fields:
  "d_byte3 (gve_tx_fill_pkt_desc t l4 nd fsl a c co len) = of_nat nd"
  "d_half6 (gve_tx_fill_pkt_desc t l4 nd fsl a c co len) = of_nat fsl"
  "d_seg_addr (gve_tx_fill_pkt_desc t l4 nd fsl a c co len) = of_nat a"
  by (auto simp: gve_tx_fill_pkt_desc_def Let_def)

lemma mtd_desc_type: "d_type_flags (gve_tx_fill_mtd_desc m) AND 0xF0 = GVE_TXD_MTD"
  by (simp add: gve_tx_fill_mtd_desc_def GVE_TXD_MTD_def)

lemma commit_ring_facts:
  assumes inv: "tx_inv k tx" and mtd: "mtd \<le> 1" and room: "in_flight tx + 5 \<le> 2 ^ k" and n2: "n2 \<le> 2"
    and run: "gve_xmit_segs n2 2 m t v6 mss iov2 (tx_req tx + of_nat (1 + mtd)) fsl
      (commit_start now m l4 fsl len f2 iov2 n1 n2 mtd tx, evs1) = (tx2, evs2)"
    and tx': "tx_done tx' = tx_done tx2" "tx_mask tx' = tx_mask tx2"
      "tx_req tx' = tx_req tx + of_nat (1 + mtd + n2)" "desc_ring tx' = desc_ring tx2" "info tx' = info tx2"
  shows "commit_ring k tx m fsl iov2 n1 n2 mtd tx'"
proof -
  let ?w = "in_flight tx" and ?st = "commit_start now m l4 fsl len f2 iov2 n1 n2 mtd tx"
  note I = tx_invD [OF inv]
  have sl: "unat ((tx_req tx + of_nat (1 + mtd) + of_nat t) AND tx_mask tx) = slot tx (?w + 1 + mtd + t)" for t
    using slot_req [of tx "1 + mtd + t"] by (simp add: ac_simps)
  have inj: "slot tx (?w + a) = slot tx (?w + b) \<longleftrightarrow> a = b" if "a < 5" "b < 5" for a b
    using slot_inj [OF I(1), of "?w + a" "?w + b"] that room by simp
  have frame: "desc_ring tx' ! a = desc_ring ?st ! a"
    if "\<And>t. t < n2 \<Longrightarrow> a \<noteq> slot tx (?w + 1 + mtd + t)" for a
    using gve_xmit_segs_ring_frame [OF run, of a] that sl tx'(4) by simp
  have segs: "seg_desc_of (iov2 ! (2 + t)) (desc_ring tx' ! slot tx (?w + 1 + mtd + t))" if "t < n2" for t
    using gve_xmit_segs_ring [OF run, of k t] that sl tx'(4) I(1,2) n2 room by simp
  have d0: "desc_ring tx' ! slot tx ?w = gve_tx_fill_pkt_desc (is_tso_mbuf m) l4 (1 + mtd + n2) fsl
      (iov_offset (iov2 ! (n1 - 1))) (has_csum_flag m) (csum_field_offset m) len"
  proof -
    have "slot tx ?w \<noteq> slot tx (?w + 1 + mtd + t)" if "t < n2" for t
      using inj [of 0 "1 + mtd + t"] that n2 mtd by (simp add: add.assoc)
    then have "desc_ring tx' ! slot tx ?w = desc_ring ?st ! slot tx ?w" by (rule frame)
    then show ?thesis
      using inj [of 0 1] slot_less [OF I(1), of ?w] I(2) by (simp add: commit_start_def Let_def)
  qed
  have d1: "d_type_flags (desc_ring tx' ! slot tx (?w + 1)) AND 0xF0 = GVE_TXD_MTD" if "mtd = 1"
  proof -
    have "slot tx (?w + 1) \<noteq> slot tx (?w + 1 + mtd + t)" if "t < n2" for t
      using inj [of 1 "1 + mtd + t"] that n2 \<open>mtd = 1\<close> by (simp add: add.assoc)
    then have "desc_ring tx' ! slot tx (?w + 1) = desc_ring ?st ! slot tx (?w + 1)" by (rule frame)
    then show ?thesis
      using that slot_less [OF I(1), of "?w + 1"] I(2) by (simp add: commit_start_def Let_def mtd_desc_type)
  qed
  have out: "desc_ring tx' ! a = desc_ring tx ! a" if a: "\<And>t. t < 1 + mtd + n2 \<Longrightarrow> a \<noteq> slot tx (?w + t)" for a
  proof -
    have "a \<noteq> slot tx (?w + 1 + mtd + t)" if "t < n2" for t
      using a [of "1 + mtd + t"] that by (simp add: add.assoc)
    then have "desc_ring tx' ! a = desc_ring ?st ! a" by (rule frame)
    then show ?thesis using a [of 0] a [of 1] by (cases "mtd = 1") (simp_all add: commit_start_def Let_def)
  qed
  have inf: "info tx' = (info tx)[slot tx ?w := (info tx ! slot tx ?w)\<lparr>info_mbuf := Some m,
               enqueue_time_sec := now, info_iov := iov2\<rparr>]"
    using gve_xmit_segs_frame [OF run] tx'(5) by (simp add: commit_start_def Let_def)
  show ?thesis
    unfolding commit_ring_def Let_def
  proof (intro conjI)
    show "\<exists>i'. info tx' = (info tx)[slot tx ?w := i'] \<and> info_mbuf i' = Some m \<and> info_iov i' = iov2"
      using inf by (intro exI conjI) auto
    show "\<forall>a. (\<forall>t < 1 + mtd + n2. a \<noteq> slot tx (?w + t)) \<longrightarrow> desc_ring tx' ! a = desc_ring tx ! a"
      using out by blast
    show "\<forall>t < n2. seg_desc_of (iov2 ! (2 + t)) (desc_ring tx' ! slot tx (?w + 1 + mtd + t))"
      using segs by blast
  qed (use mtd tx' gve_xmit_segs_frame [OF run] d0 d1 I(2) in \<open>simp_all add: pkt_desc_fields\<close>)
qed

lemma commit_mem_facts:
  assumes ok: "fifo_ok (fifo tx)" and l: "0 < fsl" "fsl \<le> len" and len: "len = length (m_data m)"
    and al: "pkt_alloc (fifo tx) fsl len iov0 f2 iov2 n1 n2"
    and run: "gve_xmit_segs n2 2 m t v6 mss iov2 sl fsl
      (commit_start now m l4 fsl len f2 iov2 n1 n2 mtd tx, evs1) = (tx2, evs2)"
    and tx': "fifo tx' = fifo tx2"
  shows "commit_mem tx m fsl f2 iov2 n1 n2 tx'"
proof -
  let ?h = "iov2 ! (n1 - 1)" and ?st = "commit_start now m l4 fsl len f2 iov2 n1 n2 mtd tx"
  have A: "fifo_mem f2 = fifo_mem (fifo tx)" "fifo_size f2 = fifo_size (fifo tx)" "n1 = 1 \<or> n1 = 2" "n2 \<le> 2"
    "iov_len ?h = fsl" "(\<Sum>t<n2. iov_len (iov2 ! (2 + t))) = len - fsl"
    and pos: "\<And>t. t < n2 \<Longrightarrow> 0 < iov_len (iov2 ! (2 + t))"
    using al by (simp_all add: pkt_alloc_def)
  have ml: "length (fifo_mem (fifo tx)) = fifo_size (fifo tx)" using ok by (simp add: fifo_ok_def)
  note R = pkt_alloc_regions [OF ok al l(1)]
  have hb: "iov_offset ?h + fsl \<le> length (fifo_mem (fifo tx))" using R(2) [of "n1 - 1"] A l ml by auto
  have lt: "length (slice (m_data m) 0 fsl) = fsl" using l len by simp
  have m0: "fifo_mem (fifo ?st) = blit (fifo_mem (fifo tx)) (iov_offset ?h) (slice (m_data m) 0 fsl)"
    by (simp add: m_copydata_def A)
  have l0: "length (fifo_mem (fifo ?st)) = length (fifo_mem (fifo tx))" unfolding m0 using hb lt by simp
  have bs: "iov_offset (iov2 ! (2 + j)) + iov_len (iov2 ! (2 + j)) \<le> length (fifo_mem (fifo ?st))"
    if "j < n2" for j using R(2) [of "2 + j"] pos that A(4) l0 ml by simp
  have tot: "fsl + (\<Sum>j<n2. iov_len (iov2 ! (2 + j))) \<le> length (m_data m)" using A l len by simp
  have pw: "region (iov2 ! (2 + l)) \<inter> region (iov2 ! (2 + j)) = {}" if "j < l" "l < n2" for j l
    using R(1) [of "2 + l" "2 + j"] that A(4) by simp
  note F = gve_xmit_segs_mem_frame [OF run bs tot]
  have hdr: "region (iov2 ! (2 + t)) \<inter> {iov_offset ?h ..< iov_offset ?h + fsl} = {}" if "t < n2" for t
    using R(1) [of "2 + t" "n1 - 1"] that A by (auto simp: region_def)
  have "slice (fifo_mem (fifo tx')) a l = slice (fifo_mem (fifo tx)) a l"
    if "a + l \<le> length (fifo_mem (fifo tx))" "region ?h \<inter> {a..<a+l} = {}"
      "\<forall>t < n2. region (iov2 ! (2 + t)) \<inter> {a..<a+l} = {}" for a l
  proof -
    have "slice (fifo_mem (fifo tx')) a l = slice (fifo_mem (fifo ?st)) a l"
      using F [of a l] that l0 tx' by simp
    also have "\<dots> = slice (fifo_mem (fifo tx)) a l"
      unfolding m0 using that hb lt A(5)
      by (intro slice_blit_disjoint) (auto simp: region_def disjoint_iff)
    finally show ?thesis .
  qed
  moreover have "slice (fifo_mem (fifo tx')) (iov_offset ?h) fsl = take fsl (m_data m)"
  proof -
    have "slice (fifo_mem (fifo tx')) (iov_offset ?h) fsl = slice (fifo_mem (fifo ?st)) (iov_offset ?h) fsl"
      using F [of "iov_offset ?h" fsl] hdr hb l0 tx' by simp
    also have "\<dots> = slice (m_data m) 0 fsl" unfolding m0 using hb lt by (intro slice_blit_same) auto
    finally show ?thesis by (simp add: slice_def)
  qed
  moreover have "concat (map (\<lambda>t. slice (fifo_mem (fifo tx')) (iov_offset (iov2 ! (2 + t)))
      (iov_len (iov2 ! (2 + t)))) [0..<n2]) = drop fsl (m_data m)"
    using gve_xmit_segs_mem [OF run bs tot pw] A(6) tx' len l by (simp add: slice_def)
  ultimately show ?thesis
    unfolding commit_mem_def using gve_xmit_segs_frame [OF run] F [of 0 0] l0 tx'
    by (simp add: m_copydata_def)
qed

lemma commit_facts:
  assumes inv: "tx_inv k tx" and run: "gve_xmit_commit now m v6 l4 fsl len tx = (tx', evs)"
    and l: "0 < fsl" "fsl \<le> len" "len < 2 ^ 16" and len: "len = length (m_data m)"
    and room: "in_flight tx + 5 \<le> 2 ^ k"
    and al: "pkt_alloc (fifo tx) fsl len (info_iov (info tx ! slot tx (in_flight tx))) f2 iov2 n1 n2"
  shows "\<exists>mtd. commit_ring k tx m fsl iov2 n1 n2 mtd tx' \<and> commit_mem tx m fsl f2 iov2 n1 n2 tx'"
proof -
  define mtd where mtd: "mtd = (if m_hash m \<noteq> M_HASHTYPE_NONE then 1 else (0::nat))"
  obtain mss evs1 evs2 tx2 where seg: "gve_xmit_segs n2 2 m (is_tso_mbuf m) v6 mss iov2
      (tx_req tx + of_nat (1 + mtd)) fsl
      (commit_start now m l4 fsl len f2 iov2 n1 n2 mtd tx, evs1) = (tx2, evs2)"
    and eq: "tx_done tx' = tx_done tx2" "tx_mask tx' = tx_mask tx2"
      "tx_req tx' = tx_req tx + of_nat (1 + mtd + n2)" "desc_ring tx' = desc_ring tx2"
      "info tx' = info tx2" "fifo tx' = fifo tx2"
    using commit_unfold [OF run l(2,3) al mtd] by blast
  have "mtd \<le> 1" "n2 \<le> 2" using mtd al by (simp_all add: pkt_alloc_def)
  then show ?thesis
    using commit_ring_facts [OF inv _ room _ seg eq(1-5)]
      commit_mem_facts [OF tx_invD(5) [OF inv] l(1,2) len al seg eq(6)] by blast
qed

section \<open>The invariant after a packet is committed\<close>

text \<open>
  \<open>committed\<close> collects what the lemmas on \<open>gve_xmit_commit\<close> have shown.
\<close>

definition committed ::
  "nat \<Rightarrow> gve_tx_ring_gqi \<Rightarrow> mbuf \<Rightarrow> nat \<Rightarrow> gve_tx_iovec list \<Rightarrow> nat \<Rightarrow> nat \<Rightarrow> nat \<Rightarrow> gve_tx_ring_gqi \<Rightarrow> bool" where
  "committed k tx m fsl iov2 n1 n2 mtd tx' \<longleftrightarrow>
     tx_inv k tx \<and> in_flight tx + 5 \<le> 2 ^ k \<and> 0 < fsl \<and> fsl < 2 ^ 16 \<and> length (m_data m) < 2 ^ 16 \<and>
     (\<exists>len f2 iov0. len = length (m_data m) \<and> fsl \<le> len \<and>
        pkt_alloc (fifo tx) fsl len iov0 f2 iov2 n1 n2 \<and>
        commit_ring k tx m fsl iov2 n1 n2 mtd tx' \<and> commit_mem tx m fsl f2 iov2 n1 n2 tx')"

lemma committedD:
  assumes "committed k tx m fsl iov2 n1 n2 mtd tx'"
  shows "tx_inv k tx" "in_flight tx + 5 \<le> 2 ^ k" "0 < fsl" "fsl < 2 ^ 16" "fsl \<le> length (m_data m)"
    "mtd \<le> 1" "n2 \<le> 2" "n1 = 1 \<or> n1 = 2" "length iov2 = 4"
    "iov_len (iov2 ! (n1 - 1)) = fsl" "\<And>t. t < n2 \<Longrightarrow> 0 < iov_len (iov2 ! (2 + t))"
    "(\<Sum>t<n2. iov_len (iov2 ! (2 + t))) = length (m_data m) - fsl"
    "fifo_ok (fifo tx')" "fifo_size (fifo tx') = fifo_size (fifo tx)"
    "available (fifo tx') = available (fifo tx) - int (iov_space iov2)"
    "iov_chain (fifo_size (fifo tx)) (fifo_head (fifo tx)) iov2 = Some (fifo_head (fifo tx'))"
    "commit_ring k tx m fsl iov2 n1 n2 mtd tx'"
proof -
  from assms obtain f2 iov0 where c: "tx_inv k tx" "in_flight tx + 5 \<le> 2 ^ k" "0 < fsl" "fsl < 2 ^ 16"
      "fsl \<le> length (m_data m)"
    and a: "pkt_alloc (fifo tx) fsl (length (m_data m)) iov0 f2 iov2 n1 n2"
    and r: "commit_ring k tx m fsl iov2 n1 n2 mtd tx'"
    and e: "fifo_size (fifo tx') = fifo_size f2" "available (fifo tx') = available f2"
      "fifo_head (fifo tx') = fifo_head f2" "length (fifo_mem (fifo tx')) = length (fifo_mem (fifo tx))"
    by (auto simp: committed_def commit_mem_def)
  note A = a [unfolded pkt_alloc_def]
  have "mtd \<le> 1" using r by (simp add: commit_ring_def Let_def)
  moreover have "fifo_ok (fifo tx')"
  proof -
    have "fifo_ok f2" "fifo_mem f2 = fifo_mem (fifo tx)" using A by blast+
    then show ?thesis using e by (simp add: fifo_ok_def)
  qed
  ultimately show "tx_inv k tx" "in_flight tx + 5 \<le> 2 ^ k" "0 < fsl" "fsl < 2 ^ 16" "fsl \<le> length (m_data m)"
    "mtd \<le> 1" "n2 \<le> 2" "n1 = 1 \<or> n1 = 2" "length iov2 = 4"
    "iov_len (iov2 ! (n1 - 1)) = fsl" "\<And>t. t < n2 \<Longrightarrow> 0 < iov_len (iov2 ! (2 + t))"
    "(\<Sum>t<n2. iov_len (iov2 ! (2 + t))) = length (m_data m) - fsl"
    "fifo_ok (fifo tx')" "fifo_size (fifo tx') = fifo_size (fifo tx)"
    "available (fifo tx') = available (fifo tx) - int (iov_space iov2)"
    "iov_chain (fifo_size (fifo tx)) (fifo_head (fifo tx)) iov2 = Some (fifo_head (fifo tx'))"
    "commit_ring k tx m fsl iov2 n1 n2 mtd tx'"
    using A c e r by simp_all
qed

lemma committed_in_flight:
  assumes "committed k tx m fsl iov2 n1 n2 mtd tx'"
  shows "in_flight tx' = in_flight tx + (1 + mtd + n2)" and "slot tx' j = slot tx j"
proof -
  note C = committedD [OF assms] and R = committedD(17) [OF assms, unfolded commit_ring_def Let_def]
  have k: "k < 32" using tx_invD(1) [OF C(1)] by (simp add: ring_mask_def)
  have "(2::nat) ^ k < 2 ^ 32" by (rule power_strict_increasing [OF k]) simp
  then have lt: "in_flight tx + (1 + mtd + n2) < 2 ^ 32" using C(2,6,7) by linarith
  have "tx_req tx' - tx_done tx' = of_nat (in_flight tx + (1 + mtd + n2))"
    using R by (simp add: in_flight_def)
  then have "in_flight tx' = unat (of_nat (in_flight tx + (1 + mtd + n2)) :: u32)"
    by (simp only: in_flight_def)
  also have "\<dots> = in_flight tx + (1 + mtd + n2)"
    using lt by (simp only: unat_of_nat take_bit_eq_mod) simp
  finally show "in_flight tx' = in_flight tx + (1 + mtd + n2)" .
  show "slot tx' j = slot tx j" using R by (simp add: slot_def)
qed

lemma committed_regions:
  assumes "committed k tx m fsl iov2 n1 n2 mtd tx'"
  shows "iov_offset (iov2 ! (n1 - 1)) + fsl \<le> fifo_size (fifo tx)"
    "t < n2 \<Longrightarrow> iov_offset (iov2 ! (2 + t)) + iov_len (iov2 ! (2 + t)) \<le> fifo_size (fifo tx)"
    "t < n2 \<Longrightarrow> iov_len (iov2 ! (2 + t)) < 2 ^ 16"
proof -
  note C = committedD [OF assms]
  obtain len f2 iov0 where al: "pkt_alloc (fifo tx) fsl len iov0 f2 iov2 n1 n2"
    using assms by (auto simp: committed_def)
  note R = pkt_alloc_regions(2) [OF tx_invD(5) [OF C(1)] al C(3)]
  show "iov_offset (iov2 ! (n1 - 1)) + fsl \<le> fifo_size (fifo tx)"
    using R [of "n1 - 1"] C(3,8,10) by auto
  show "t < n2 \<Longrightarrow> iov_offset (iov2 ! (2 + t)) + iov_len (iov2 ! (2 + t)) \<le> fifo_size (fifo tx)"
    using R [of "2 + t"] C(7,11) by auto
  show "iov_len (iov2 ! (2 + t)) < 2 ^ 16" if "t < n2"
  proof -
    have "iov_len (iov2 ! (2 + t)) \<le> (\<Sum>t<n2. iov_len (iov2 ! (2 + t)))"
      using that by (intro member_le_sum) auto
    also have "\<dots> < 2 ^ 16" using C(12) assms by (simp add: committed_def less_imp_diff_less)
    finally show ?thesis .
  qed
qed

lemma unat_of_nat_small:
  "x < 2 ^ 64 \<Longrightarrow> unat (of_nat x :: u64) = x" "x < 2 ^ 16 \<Longrightarrow> unat (of_nat x :: u16) = x"
  "x < 2 ^ 8 \<Longrightarrow> unat (of_nat x :: u8) = x"
  by (simp_all add: unsigned_of_nat take_bit_eq_mod)

lemma committed_segs:
  assumes "committed k tx m fsl iov2 n1 n2 mtd tx'"
  shows "gq_desc_cnt tx' (in_flight tx) = 1 + mtd + n2"
    and "gq_segs tx' (in_flight tx) = (iov_offset (iov2 ! (n1 - 1)), fsl) #
           map (\<lambda>t. (iov_offset (iov2 ! (2 + t)), iov_len (iov2 ! (2 + t)))) [0..<n2]"
proof -
  note C = committedD [OF assms] and R = committedD(17) [OF assms, unfolded commit_ring_def Let_def]
    and F = committed_in_flight [OF assms] and B = committed_regions [OF assms]
  let ?w = "in_flight tx"
  have sz: "fifo_size (fifo tx) < 2 ^ 30" using tx_invD(5) [OF C(1)] by (simp add: fifo_ok_def)
  show cnt: "gq_desc_cnt tx' ?w = 1 + mtd + n2"
    using R C(6,7) by (simp add: gq_desc_cnt_def gq_desc_def F(2) unat_of_nat_small del: of_nat_add of_nat_Suc)
  have hd: "gq_seg tx' ?w = (iov_offset (iov2 ! (n1 - 1)), fsl)"
    using R C(4) B(1) sz by (simp add: gq_seg_def gq_desc_def F(2) unat_of_nat_small)
  have sd: "seg_desc_of (iov2 ! (2 + t)) (gq_desc tx' (?w + 1 + mtd + t))" if "t < n2" for t
    using R that by (simp add: gq_desc_def F(2))
  then have tl: "gq_seg tx' (?w + 1 + mtd + t) = (iov_offset (iov2 ! (2 + t)), iov_len (iov2 ! (2 + t)))"
    if "t < n2" for t
    using that B(2,3) [OF that] sz by (simp add: gq_seg_def seg_desc_of_def unat_of_nat_small)
  have up: "[?w + 1 ..< ?w + (1 + mtd + n2)] = [?w + 1 ..< ?w + 1 + mtd] @ map (\<lambda>t. ?w + 1 + mtd + t) [0..<n2]"
    using upt_add_eq_append [of "?w + 1" "?w + 1 + mtd" n2] map_add_upt [of "?w + 1 + mtd" n2]
    by (simp add: ac_simps)
  let ?P = "\<lambda>l. d_type_flags (gq_desc tx' l) AND 0xF0 = GVE_TXD_SEG"
  have f1: "filter ?P [?w + 1 ..< ?w + 1 + mtd] = []"
    using R C(6) by (auto simp: filter_empty_conv gq_desc_def F(2) le_Suc_eq GVE_TXD_MTD_def GVE_TXD_SEG_def)
  have f2: "filter ?P (map (\<lambda>t. ?w + 1 + mtd + t) [0..<n2]) = map (\<lambda>t. ?w + 1 + mtd + t) [0..<n2]"
    using sd by (auto simp: filter_id_conv seg_desc_of_def)
  show "gq_segs tx' ?w = (iov_offset (iov2 ! (n1 - 1)), fsl) #
           map (\<lambda>t. (iov_offset (iov2 ! (2 + t)), iov_len (iov2 ! (2 + t)))) [0..<n2]"
    unfolding gq_segs_def cnt up filter_append f1 f2 hd using tl by (simp add: o_def)
qed

lemma committed_new_packet:
  assumes "committed k tx m fsl iov2 n1 n2 mtd tx'"
  shows "gq_pkt_ok tx' (in_flight tx)" and "gq_read tx' (in_flight tx) = m_data m"
    and "info_mbuf (info tx' ! slot tx (in_flight tx)) = Some m"
    and "info_iov (info tx' ! slot tx (in_flight tx)) = iov2"
proof -
  note C = committedD [OF assms] and R = committedD(17) [OF assms, unfolded commit_ring_def Let_def]
    and F = committed_in_flight [OF assms] and S = committed_segs [OF assms]
  let ?w = "in_flight tx"
  have "slot tx ?w < length (info tx)"
    using slot_less [OF tx_invD(1) [OF C(1)]] tx_invD(3) [OF C(1)] by simp
  then show i: "info_mbuf (info tx' ! slot tx ?w) = Some m" "info_iov (info tx' ! slot tx ?w) = iov2"
    using R by auto
  have "gq_read tx' ?w = take fsl (m_data m) @ drop fsl (m_data m)"
    using assms unfolding committed_def commit_mem_def gq_read_def S(2) by (auto simp: o_def)
  then show rd: "gq_read tx' ?w = m_data m" by simp
  have "seg_within s iov2" if s: "s \<in> set (gq_segs tx' ?w)" for s
  proof -
    have nm: "iov2 ! i \<in> set iov2" if "i < 4" for i using C(9) that by simp
    consider "s = (iov_offset (iov2 ! (n1 - 1)), fsl)"
      | t where "t < n2" "s = (iov_offset (iov2 ! (2 + t)), iov_len (iov2 ! (2 + t)))"
      using s unfolding S(2) by auto
    then show ?thesis
      using nm [of "n1 - 1"] nm [of "2 + _"] C(3,7,8,10,11) unfolding seg_within_def by cases fastforce+
  qed
  moreover have "CACHE_LINE_SIZE dvd iov_space iov2"
  proof -
    have "iov_space iov2 = nat (available (fifo tx)) - nat (available (fifo tx'))"
      using C(13,15) unfolding fifo_ok_def by linarith
    then show ?thesis using C(13) tx_invD(5) [OF C(1)] by (simp add: fifo_ok_def dvd_diff_nat)
  qed
  ultimately show "gq_pkt_ok tx' ?w"
    using i rd S(1) F by (simp add: gq_pkt_ok_def Let_def)
qed


lemma iov_space_concat_0:
  "(\<And>j. j \<in> set xs \<Longrightarrow> iov_space (g j) = 0) \<Longrightarrow> iov_space (concat (map g xs)) = 0"
  by (induction xs) auto

text \<open>Packets posted before are untouched.\<close>

lemma committed_frame_desc:
  assumes "committed k tx m fsl iov2 n1 n2 mtd tx'" and "j < in_flight tx"
  shows "gq_desc tx' j = gq_desc tx j" and "info tx' ! slot tx j = info tx ! slot tx j"
proof -
  note C = committedD [OF assms(1)] and R = committedD(17) [OF assms(1), unfolded commit_ring_def Let_def]
  have ne: "slot tx j \<noteq> slot tx (in_flight tx + t)" if "t < 5" for t
    using slot_inj [OF tx_invD(1) [OF C(1)], of j "in_flight tx + t"] assms(2) C(2) that by simp
  have "\<forall>t < 1 + mtd + n2. slot tx j \<noteq> slot tx (in_flight tx + t)" using ne C(6,7) by simp
  with R show "gq_desc tx' j = gq_desc tx j"
    by (simp add: gq_desc_def committed_in_flight(2) [OF assms(1)])
  show "info tx' ! slot tx j = info tx ! slot tx j" using R ne [of 0] by auto
qed

lemma committed_frame_mem:
  assumes c: "committed k tx m fsl iov2 n1 n2 mtd tx'" and s: "seg_within s iov" and iov: "set iov \<subseteq> set (window_iov tx)"
  shows "slice (fifo_mem (fifo tx')) (fst s) (snd s) = slice (fifo_mem (fifo tx)) (fst s) (snd s)"
proof -
  note C = committedD [OF c] and I = tx_invD [OF committedD(1) [OF c]]
  let ?sz = "fifo_size (fifo tx)" and ?vs = "window_iov tx @ iov2"
  obtain v where v: "v \<in> set (window_iov tx)" "iov_offset v \<le> fst s"
      "fst s + snd s \<le> iov_offset v + iov_len v" "0 < snd s"
    using s iov by (auto simp: seg_within_def)
  then obtain i where i: "i < length (window_iov tx)" "window_iov tx ! i = v" by (auto simp: in_set_conv_nth)
  have sz: "0 < ?sz" "length (fifo_mem (fifo tx)) = ?sz" "0 \<le> available (fifo tx)"
    using I(5) by (auto simp: fifo_ok_def)
  have ch: "iov_chain ?sz (fifo_tail (fifo tx)) ?vs = Some (fifo_head (fifo tx'))"
    using I(9) C(16) by (simp add: iov_chain_append)
  have tl: "fifo_tail (fifo tx) < ?sz" using sz by (simp add: fifo_tail_def)
  have sp: "iov_space ?vs \<le> ?sz"
    using I(10) C(13,15) sz(3) unfolding fifo_ok_def iov_space_simps by linarith
  have dj: "region (iov2 ! t) \<inter> {fst s ..< fst s + snd s} = {}" if "t < 4" for t
  proof -
    have "region (?vs ! (length (window_iov tx) + t)) \<inter> region (?vs ! i) = {}"
      using i(1) that C(9) by (intro iov_chain_regions [OF ch tl sp]) simp_all
    then have "region (iov2 ! t) \<inter> region v = {}" using i by (simp add: nth_append)
    then show ?thesis using v(2,3) by (auto simp: region_def disjoint_iff)
  qed
  have "iov_offset v + iov_len v \<le> ?sz"
  proof -
    have "0 < iov_len v" using v(2-4) by linarith
    then show ?thesis using iov_chain_pos [OF I(9) tl i(1)] i(2) by simp
  qed
  then show ?thesis
    using c dj [of "n1 - 1"] dj C(7,8) v(3) sz(2) unfolding committed_def commit_mem_def by fastforce
qed

lemma window_iov_member:
  "j < in_flight tx \<Longrightarrow> set (info_iov (info tx ! slot tx j)) \<subseteq> set (window_iov tx)"
  by (auto simp: window_iov_def)

lemma committed_old_packet:
  assumes c: "committed k tx m fsl iov2 n1 n2 mtd tx'" and j: "j < in_flight tx"
  shows "gq_pkt_ok tx' j"
proof -
  note D = committed_frame_desc [OF c] and F = committed_in_flight [OF c]
  have ok: "gq_pkt_ok tx j" using tx_invD(8) [OF committedD(1) [OF c] j] .
  show ?thesis
  proof (cases "info_mbuf (info tx ! slot tx j)")
    case None
    with ok D(2) [OF j] F show ?thesis by (simp add: gq_pkt_ok_def)
  next
    case (Some m')
    have cnt: "gq_desc_cnt tx' j = gq_desc_cnt tx j" using D(1) [OF j] by (simp add: gq_desc_cnt_def)
    have le: "0 < gq_desc_cnt tx j" "j + gq_desc_cnt tx j \<le> in_flight tx" "gq_read tx j = m_data m'"
      "CACHE_LINE_SIZE dvd iov_space (info_iov (info tx ! slot tx j))"
      and w: "\<And>s. s \<in> set (gq_segs tx j) \<Longrightarrow> seg_within s (info_iov (info tx ! slot tx j))"
      using ok Some by (auto simp: gq_pkt_ok_def Let_def)
    have seg: "gq_segs tx' j = gq_segs tx j"
    proof -
      have "filter (\<lambda>l. d_type_flags (gq_desc tx' l) AND 0xF0 = GVE_TXD_SEG) [j + 1 ..< j + gq_desc_cnt tx j]
        = filter (\<lambda>l. d_type_flags (gq_desc tx l) AND 0xF0 = GVE_TXD_SEG) [j + 1 ..< j + gq_desc_cnt tx j]"
        using D(1) le(2) by (intro filter_cong) auto
      then show ?thesis unfolding gq_segs_def cnt using D(1) le(2) j by (simp add: gq_seg_def)
    qed
    have "gq_read tx' j = gq_read tx j"
      unfolding gq_read_def seg
      using committed_frame_mem [OF c w window_iov_member [OF j]]
      by (intro arg_cong [of _ _ concat] map_cong) auto
    then show ?thesis
      using Some D(2) [OF j] F cnt seg le w by (simp add: gq_pkt_ok_def Let_def)
  qed
qed

lemma committed_window:
  assumes c: "committed k tx m fsl iov2 n1 n2 mtd tx'"
  shows "\<exists>vs. window_iov tx' = window_iov tx @ iov2 @ vs \<and> iov_space vs = 0"
    and "\<And>t. 0 < t \<Longrightarrow> t < 1 + mtd + n2 \<Longrightarrow> info tx' ! slot tx (in_flight tx + t) = info tx ! slot tx (in_flight tx + t)"
proof -
  note C = committedD [OF c] and R = committedD(17) [OF c, unfolded commit_ring_def Let_def]
    and D = committed_frame_desc [OF c] and F = committed_in_flight [OF c]
  let ?w = "in_flight tx" and ?g = "\<lambda>j. info_iov (info tx' ! slot tx j)"
  show same: "info tx' ! slot tx (?w + t) = info tx ! slot tx (?w + t)" if "0 < t" "t < 1 + mtd + n2" for t
  proof -
    have "slot tx ?w \<noteq> slot tx (?w + t)"
      using slot_inj [OF tx_invD(1) [OF C(1)], of ?w "?w + t"] that C(2,6,7) by simp
    moreover obtain i' where "info tx' = (info tx)[slot tx ?w := i']" using R by blast
    ultimately show ?thesis by simp
  qed
  have up: "[0..<?w + (1 + mtd + n2)] = [0..<?w] @ ?w # [?w + 1 ..< ?w + (1 + mtd + n2)]"
    using upt_add_eq_append [of 0 ?w "1 + mtd + n2"] upt_conv_Cons [of ?w "?w + (1 + mtd + n2)"]
    by (simp del: upt_Suc)
  have "iov_space (?g j) = 0" if j: "j \<in> set [?w + 1 ..< ?w + (1 + mtd + n2)]" for j
  proof -
    have "0 < j - ?w" "j - ?w < 1 + mtd + n2" "?w + (j - ?w) = j" using j by auto
    then show ?thesis using same [of "j - ?w"] free_slot [OF C(1), of j] C(2,6,7) by simp
  qed
  then have "iov_space (concat (map ?g [?w + 1 ..< ?w + (1 + mtd + n2)])) = 0"
    by (rule iov_space_concat_0)
  moreover have "concat (map ?g [0..<?w]) = window_iov tx"
    unfolding window_iov_def using D(2) by (auto intro!: arg_cong [of _ _ concat])
  ultimately show "\<exists>vs. window_iov tx' = window_iov tx @ iov2 @ vs \<and> iov_space vs = 0"
    unfolding window_iov_def F up using committed_new_packet(4) [OF c]
    by (intro exI [of _ "concat (map ?g [?w + 1 ..< ?w + (1 + mtd + n2)])"]) simp
qed

lemma committed_inv:
  assumes c: "committed k tx m fsl iov2 n1 n2 mtd tx'"
  shows "tx_inv k tx'"
proof -
  note C = committedD [OF c] and R = committedD(17) [OF c, unfolded commit_ring_def Let_def]
    and F = committed_in_flight [OF c] and I = tx_invD [OF committedD(1) [OF c]]
  let ?w = "in_flight tx" and ?nd = "1 + mtd + n2"
  obtain i' where i': "info tx' = (info tx)[slot tx ?w := i']" "info_iov i' = iov2" using R by blast
  obtain vs where vs: "window_iov tx' = window_iov tx @ iov2 @ vs" "iov_space vs = 0"
    using committed_window(1) [OF c] by blast
  have av: "0 \<le> available (fifo tx')" "0 \<le> available (fifo tx)" "0 < fifo_size (fifo tx)"
    using C(13) I(5) by (auto simp: fifo_ok_def)
  have tail: "fifo_tail (fifo tx') = fifo_tail (fifo tx)"
  proof -
    have "fifo_head (fifo tx') = (fifo_head (fifo tx) + iov_space iov2) mod fifo_size (fifo tx)"
      using iov_chain_end [OF C(16)] I(5) by (simp add: fifo_ok_def)
    moreover have "nat (available (fifo tx)) = iov_space iov2 + nat (available (fifo tx'))"
      using C(15) av by linarith
    ultimately show ?thesis using C(14) by (simp add: fifo_tail_def mod_add_left_eq add.assoc)
  qed
  have "gq_pkt_ok tx' j" if j: "j < in_flight tx'" for j
  proof -
    consider "j < ?w" | "j = ?w" | t where "j = ?w + t" "0 < t" "t < ?nd"
      using j F by (metis add.commute add_less_cancel_left less_imp_add_positive linorder_cases)
    then show ?thesis
    proof cases
      case 3
      then have "info_mbuf (info tx' ! slot tx j) = None \<and> iov_space (info_iov (info tx' ! slot tx j)) = 0"
        using committed_window(2) [OF c] free_slot [OF C(1), of j] C(2,6,7) by simp
      then show ?thesis by (simp add: gq_pkt_ok_def F)
    qed (use committed_old_packet [OF c] committed_new_packet(1) [OF c] in auto)
  qed
  moreover have "info_mbuf (info tx' ! a) = None \<and> iov_space (info_iov (info tx' ! a)) = 0"
    if "a < 2 ^ k" "a \<notin> slot tx' ` {..<in_flight tx'}" for a
  proof -
    have "a \<notin> slot tx ` {..<?w}" "a \<noteq> slot tx ?w" using that(2) F by auto
    then show ?thesis using I(7) [OF that(1)] i' by simp
  qed
  moreover have "iov_chain (fifo_size (fifo tx')) (fifo_tail (fifo tx')) (window_iov tx') = Some (fifo_head (fifo tx'))"
    using I(9) C(14,16) iov_chain_empty [OF vs(2)] by (simp add: vs(1) tail iov_chain_append)
  moreover have "iov_space (window_iov tx') + nat (available (fifo tx')) = fifo_size (fifo tx')"
    using I(10) C(14,15) vs av by simp
  moreover have "\<forall>i \<in> set (info tx'). length (info_iov i) = GVE_TX_MAX_DESCS"
    using I(4) C(9) i' set_update_subset_insert [of "info tx" "slot tx ?w" i']
    by (auto simp: GVE_TX_MAX_DESCS_def)
  ultimately show ?thesis
    unfolding tx_inv_def using I(1,2,3) R i' C(2,6,7,13) F by simp
qed

end
