(* ===== verification/Gve_Tx_Reclaim.thy ===== *)
theory Gve_Tx_Reclaim
  imports Gve_Tx_Inv
begin

text \<open>
  The completion side of the GQI transmit ring: the cleanup task of \<open>gve_tx.c\<close>, its interleaving
  with \<open>gve_xmit\<close>, and the reachable states of a ring.
\<close>

section \<open>Reclaiming completed descriptors\<close>

text \<open>What the device sees depends on the ring's indices, arrays and memory only.\<close>

lemma gq_cong:
  assumes "tx_done tx' = tx_done tx" "tx_req tx' = tx_req tx" "tx_mask tx' = tx_mask tx"
    "info tx' = info tx" "desc_ring tx' = desc_ring tx" "fifo_mem (fifo tx') = fifo_mem (fifo tx)"
  shows "slot tx' = slot tx" "in_flight tx' = in_flight tx" "window_iov tx' = window_iov tx"
    "gq_pkt_ok tx' = gq_pkt_ok tx" "gq_read tx' = gq_read tx" "gq_desc_cnt tx' = gq_desc_cnt tx"
proof -
  show sl: "slot tx' = slot tx" using assms by (simp add: slot_def fun_eq_iff)
  show fl: "in_flight tx' = in_flight tx" using assms by (simp add: in_flight_def)
  show "window_iov tx' = window_iov tx" using assms by (simp add: window_iov_def sl fl)
  have d: "gq_desc tx' = gq_desc tx" using assms by (simp add: gq_desc_def fun_eq_iff sl)
  show c: "gq_desc_cnt tx' = gq_desc_cnt tx" by (simp add: gq_desc_cnt_def d fun_eq_iff)
  have "gq_seg tx' = gq_seg tx" by (simp add: gq_seg_def d fun_eq_iff)
  then have s: "gq_segs tx' = gq_segs tx" by (simp add: gq_segs_def d c fun_eq_iff)
  show r: "gq_read tx' = gq_read tx" using assms by (simp add: gq_read_def s fun_eq_iff)
  show "gq_pkt_ok tx' = gq_pkt_ok tx"
    using assms by (simp add: fun_eq_iff gq_pkt_ok_def Let_def c s r sl fl cong: option.case_cong)
qed

lemma tx_inv_cong:
  assumes "tx_done tx' = tx_done tx" "tx_req tx' = tx_req tx" "tx_mask tx' = tx_mask tx"
    "info tx' = info tx" "desc_ring tx' = desc_ring tx" "fifo tx' = fifo tx"
  shows "tx_inv k tx' = tx_inv k tx"
  using assms gq_cong [of tx' tx] by (simp add: tx_inv_def)

text \<open>
  The cleanup task reclaims slots one by one and returns the space of all of them at the end, so
  between its rounds some space is neither in use nor available. \<open>gve_return\<close> is the ring as it
  will be once \<open>sp\<close> bytes have been returned.
\<close>

definition gve_return :: "gve_tx_ring_gqi \<Rightarrow> nat \<Rightarrow> gve_tx_ring_gqi" where
  "gve_return tx sp = tx\<lparr>fifo := gve_tx_free_fifo (fifo tx) sp\<rparr>"

definition tx_inv_part :: "nat \<Rightarrow> gve_tx_ring_gqi \<Rightarrow> nat \<Rightarrow> bool" where
  "tx_inv_part k tx sp \<longleftrightarrow> tx_inv k (gve_return tx sp) \<and> 0 \<le> available (fifo tx) \<and>
     available (fifo tx) + int sp \<le> int (fifo_size (fifo tx)) \<and> CACHE_LINE_SIZE dvd sp"

lemma swrap32_add: "swrap32 (swrap32 x + y) = swrap32 (x + y)"
  by (simp add: swrap32_def mod_simps) (metis (no_types, opaque_lifting) add.assoc add.commute diff_add_cancel mod_add_left_eq)

lemma gve_return_sel [simp]:
  "slot (gve_return tx sp) = slot tx" "in_flight (gve_return tx sp) = in_flight tx"
  "info (gve_return tx sp) = info tx" "desc_ring (gve_return tx sp) = desc_ring tx"
  "tx_mask (gve_return tx sp) = tx_mask tx" "tx_done (gve_return tx sp) = tx_done tx"
  "tx_req (gve_return tx sp) = tx_req tx"
  "fifo_mem (fifo (gve_return tx sp)) = fifo_mem (fifo tx)"
  "fifo_size (fifo (gve_return tx sp)) = fifo_size (fifo tx)"
  "fifo_head (fifo (gve_return tx sp)) = fifo_head (fifo tx)"
  by (simp_all add: gve_return_def gve_tx_free_fifo_def slot_def in_flight_def fun_eq_iff)

lemma gve_return_gq [simp]:
  "window_iov (gve_return tx sp) = window_iov tx" "gq_pkt_ok (gve_return tx sp) = gq_pkt_ok tx"
  "gq_read (gve_return tx sp) = gq_read tx" "gq_desc_cnt (gve_return tx sp) = gq_desc_cnt tx"
  using gq_cong [of "gve_return tx sp" tx] by simp_all

lemma tx_inv_part_avail:
  assumes "tx_inv_part k tx sp"
  shows "available (fifo (gve_return tx sp)) = available (fifo tx) + int sp"
proof -
  have "fifo_size (fifo tx) < 2 ^ 30"
    using assms tx_invD(5) [of k "gve_return tx sp"] by (simp add: tx_inv_part_def fifo_ok_def)
  then show ?thesis
    using assms by (simp add: tx_inv_part_def gve_return_def gve_tx_free_fifo_def swrap32_id)
qed

lemma tx_inv_part_0: "tx_inv k tx \<longleftrightarrow> tx_inv_part k tx 0"
proof
  assume inv: "tx_inv k tx"
  have "gve_return tx 0 = tx"
    using tx_invD(5) [OF inv] by (simp add: gve_return_def gve_tx_free_fifo_def swrap32_id fifo_ok_def)
  then show "tx_inv_part k tx 0" using inv tx_invD(5) [OF inv] by (simp add: tx_inv_part_def fifo_ok_def)
next
  assume p: "tx_inv_part k tx 0"
  have "gve_return tx 0 = tx"
    using tx_inv_part_avail [OF p] by (simp add: gve_return_def gve_tx_free_fifo_def)
  then show "tx_inv k tx" using p by (simp add: tx_inv_part_def)
qed

lemma gve_return_return: "gve_return (gve_return tx a) b = gve_return tx (a + b)"
  by (simp add: gve_return_def gve_tx_free_fifo_def swrap32_add add.assoc)

subsection \<open>One round\<close>

definition reclaimed :: "gve_tx_buffer_state \<Rightarrow> gve_tx_buffer_state" where
  "reclaimed i = (if info_mbuf i = None then i else
     i\<lparr>info_mbuf := None, enqueue_time_sec := GVE_TIMESTAMP_INVALID,
       info_iov := map (\<lambda>v. v\<lparr>iov_len := 0, iov_padding := 0\<rparr>) (info_iov i)\<rparr>)"

lemma reclaimed_sel [simp]:
  "info_mbuf (reclaimed i) = None" "length (info_iov (reclaimed i)) = length (info_iov i)"
  by (simp_all add: reclaimed_def)

lemma iov_space_zeroed: "iov_space (map (\<lambda>v. v\<lparr>iov_len := 0, iov_padding := 0\<rparr>) iov) = 0"
  by (induction iov) auto

lemma cleanup_one_effect:
  assumes "gve_tx_cleanup_one (tx, sp, evs) = (tx', sp', evs')"
  defines "i \<equiv> info tx ! slot tx 0"
  shows "tx_done tx' = tx_done tx + 1 \<and> tx_req tx' = tx_req tx \<and> tx_mask tx' = tx_mask tx \<and>
    desc_ring tx' = desc_ring tx \<and> fifo tx' = fifo tx \<and> stopped tx' = stopped tx \<and> tx_com tx' = tx_com tx \<and>
    info tx' = (info tx)[slot tx 0 := reclaimed i] \<and>
    sp' = sp + (if info_mbuf i = None then 0 else iov_space (info_iov i)) \<and>
    evs' = evs @ (case info_mbuf i of None \<Rightarrow> [] | Some m \<Rightarrow> [M_FREEM (m_ptr m)])"
proof -
  have "unat (tx_done tx AND tx_mask tx) = slot tx 0" by (simp add: slot_def)
  then show ?thesis
    using assms(1) unfolding i_def
    by (cases "info_mbuf (info tx ! slot tx 0)")
      (auto simp: gve_tx_cleanup_one_def Let_def reclaimed_def)
qed

lemma slot_after_done:
  assumes "tx_done tx' = tx_done tx + 1" "tx_mask tx' = tx_mask tx"
  shows "slot tx' j = slot tx (Suc j)"
  using assms by (simp add: slot_def add.assoc)

lemma in_flight_after_done:
  assumes "tx_done tx' = tx_done tx + 1" "tx_req tx' = tx_req tx" "0 < in_flight tx"
  shows "in_flight tx' = in_flight tx - 1"
proof -
  have "tx_req tx - tx_done tx \<noteq> 0" using assms(3) by (auto simp: in_flight_def)
  then have "unat (tx_req tx - tx_done tx - 1) = unat (tx_req tx - tx_done tx) - 1"
    by (simp add: unat_minus_one)
  then show ?thesis using assms by (simp add: in_flight_def diff_diff_eq)
qed

lemma gq_pkt_ok_shift:
  assumes s: "\<And>j. slot tx' j = slot tx (Suc j)" and d: "desc_ring tx' = desc_ring tx" and f: "fifo_mem (fifo tx') = fifo_mem (fifo tx)"
    and i: "info tx' ! slot tx (Suc j) = info tx ! slot tx (Suc j)" and n: "Suc (in_flight tx') = in_flight tx"
  shows "gq_pkt_ok tx' j = gq_pkt_ok tx (Suc j)"
proof -
  have desc: "gq_desc tx' j = gq_desc tx (Suc j)" for j by (simp add: gq_desc_def s d)
  have seg: "gq_seg tx' j = gq_seg tx (Suc j)" for j by (simp add: gq_seg_def desc)
  have cnt: "gq_desc_cnt tx' j = gq_desc_cnt tx (Suc j)" by (simp add: gq_desc_cnt_def desc)
  have "[Suc j + 1 ..< Suc j + c] = map Suc [j + 1 ..< j + c]" for c by (simp add: map_Suc_upt)
  then have segs: "gq_segs tx' j = gq_segs tx (Suc j)"
    unfolding gq_segs_def cnt by (simp add: seg desc filter_map o_def)
  then have "gq_read tx' j = gq_read tx (Suc j)" by (simp add: gq_read_def f)
  then show ?thesis using n by (auto simp: gq_pkt_ok_def Let_def s i cnt segs split: option.splits)
qed


lemma cleanup_one_frame:
  assumes p: "tx_inv_part k tx sp" and n: "0 < in_flight tx"
    and run: "gve_tx_cleanup_one (tx, sp, evs) = (tx', sp', evs')"
  shows "slot tx' j = slot tx (Suc j)" "Suc (in_flight tx') = in_flight tx"
    "Suc j < in_flight tx \<Longrightarrow> info tx' ! slot tx (Suc j) = info tx ! slot tx (Suc j)"
    "window_iov tx = info_iov (info tx ! slot tx 0) @ window_iov tx'"
    "sp' = sp + iov_space (info_iov (info tx ! slot tx 0))"
    "CACHE_LINE_SIZE dvd iov_space (info_iov (info tx ! slot tx 0))"
proof -
  note I = tx_invD [of k "gve_return tx sp", simplified]
  have inv: "tx_inv k (gve_return tx sp)" using p by (simp add: tx_inv_part_def)
  note E = cleanup_one_effect [OF run]
  show sl: "slot tx' j = slot tx (Suc j)" for j using slot_after_done E by blast
  show nf: "Suc (in_flight tx') = in_flight tx" using in_flight_after_done E n by fastforce
  have inf: "info tx' ! slot tx (Suc j) = info tx ! slot tx (Suc j)" if "Suc j < in_flight tx" for j
  proof -
    have "slot tx 0 \<noteq> slot tx (Suc j)"
      using slot_inj [OF I(1) [OF inv], of 0 "Suc j"] that I(6) [OF inv] by simp
    then show ?thesis using E by simp
  qed
  then show "Suc j < in_flight tx \<Longrightarrow> info tx' ! slot tx (Suc j) = info tx ! slot tx (Suc j)" .
  have "[0..<in_flight tx] = 0 # map Suc [0..<in_flight tx']"
    using nf by (metis map_Suc_upt upt_conv_Cons zero_less_Suc)
  then show "window_iov tx = info_iov (info tx ! slot tx 0) @ window_iov tx'"
    using inf nf by (simp add: window_iov_def sl o_def del: upt_Suc) (rule arg_cong [of _ _ concat], rule map_cong, auto)
  have "gq_pkt_ok tx 0" using I(8) [OF inv n] .
  then show "sp' = sp + iov_space (info_iov (info tx ! slot tx 0))"
    "CACHE_LINE_SIZE dvd iov_space (info_iov (info tx ! slot tx 0))"
    using E by (auto simp: gq_pkt_ok_def Let_def split: option.splits if_splits)
qed

lemma cleanup_one_fifo:
  assumes p: "tx_inv_part k tx sp" and n: "0 < in_flight tx"
    and run: "gve_tx_cleanup_one (tx, sp, evs) = (tx', sp', evs')"
  shows "available (fifo tx) + int sp' \<le> int (fifo_size (fifo tx))"
    "available (fifo (gve_return tx' sp')) = available (fifo tx) + int sp'"
    "fifo_ok (fifo (gve_return tx' sp'))"
    "fifo_tail (fifo (gve_return tx' sp')) =
       (fifo_tail (fifo (gve_return tx sp)) + iov_space (info_iov (info tx ! slot tx 0))) mod fifo_size (fifo tx)"
    "iov_space (window_iov tx') + nat (available (fifo tx) + int sp') = fifo_size (fifo tx)"
proof -
  let ?v = "iov_space (info_iov (info tx ! slot tx 0))"
  note E = cleanup_one_effect [OF run] and R = cleanup_one_frame [OF p n run]
    and A = tx_inv_part_avail [OF p]
  have inv: "tx_inv k (gve_return tx sp)" and a0: "0 \<le> available (fifo tx)" using p by (simp_all add: tx_inv_part_def)
  note I = tx_invD [OF inv, simplified, unfolded A]
  have ok: "fifo_size (fifo tx) < 2 ^ 30" "CACHE_LINE_SIZE dvd nat (available (fifo tx) + int sp)"
    using I(5) by (simp_all add: fifo_ok_def A)
  have tot: "?v + iov_space (window_iov tx') + nat (available (fifo tx) + int sp) = fifo_size (fifo tx)"
    using I(10) R(4) by simp
  show le: "available (fifo tx) + int sp' \<le> int (fifo_size (fifo tx))" using tot a0 R(5) by linarith
  show av: "available (fifo (gve_return tx' sp')) = available (fifo tx) + int sp'"
    using le a0 ok(1) E by (simp add: gve_return_def gve_tx_free_fifo_def swrap32_id)
  have nn: "nat (available (fifo tx) + int sp') = nat (available (fifo tx) + int sp) + ?v"
    using a0 R(5) by linarith
  then have "CACHE_LINE_SIZE dvd nat (available (fifo tx) + int sp')" using ok(2) R(6) by simp
  then show "fifo_ok (fifo (gve_return tx' sp'))"
    using I(5) av le a0 E by (simp add: fifo_ok_def)
  show "fifo_tail (fifo (gve_return tx' sp')) =
      (fifo_tail (fifo (gve_return tx sp)) + ?v) mod fifo_size (fifo tx)"
    using av A nn E by (simp add: fifo_tail_def mod_add_left_eq add.assoc)
  show "iov_space (window_iov tx') + nat (available (fifo tx) + int sp') = fifo_size (fifo tx)"
    using tot nn by simp
qed

lemma cleanup_one_inv:
  assumes p: "tx_inv_part k tx sp" and n: "0 < in_flight tx"
    and run: "gve_tx_cleanup_one (tx, sp, evs) = (tx', sp', evs')"
  shows "tx_inv_part k tx' sp'"
proof -
  note E = cleanup_one_effect [OF run] and R = cleanup_one_frame [OF p n run]
    and F = cleanup_one_fifo [OF p n run]
  have inv: "tx_inv k (gve_return tx sp)" using p by (simp add: tx_inv_part_def)
  note I = tx_invD [OF inv, simplified]
  let ?i = "info tx ! slot tx 0"
  have i0: "?i \<in> set (info tx)" using slot_less [OF I(1), of 0] I(3) by simp
  have rs: "iov_space (info_iov (reclaimed ?i)) = 0"
    using I(8) [OF n] by (auto simp: reclaimed_def iov_space_zeroed gq_pkt_ok_def Let_def)
  have pk: "gq_pkt_ok tx' j" if "j < in_flight tx'" for j
  proof -
    have "gq_pkt_ok tx' j = gq_pkt_ok tx (Suc j)"
      using E R(1,2) R(3) [of j] that by (intro gq_pkt_ok_shift) auto
    then show ?thesis using I(8) that R(2) by simp
  qed
  have out: "info_mbuf (info tx' ! a) = None \<and> iov_space (info_iov (info tx' ! a)) = 0"
    if a: "a < 2 ^ k" "a \<notin> slot tx' ` {..<in_flight tx'}" for a
  proof (cases "a = slot tx 0")
    case True
    then show ?thesis using E rs a(1) I(3) by simp
  next
    case False
    have "a \<notin> slot tx ` {..<in_flight tx}"
    proof
      assume "a \<in> slot tx ` {..<in_flight tx}"
      then obtain j where j: "a = slot tx j" "j < in_flight tx" by blast
      then obtain j' where "j = Suc j'" using False by (cases j) auto
      with j a(2) R(1,2) show False by auto
    qed
    then show ?thesis using I(7) [OF a(1)] E False by simp
  qed
  have ch: "iov_chain (fifo_size (fifo tx)) (fifo_tail (fifo (gve_return tx' sp'))) (window_iov tx')
      = Some (fifo_head (fifo tx))"
  proof -
    obtain q where q: "iov_chain (fifo_size (fifo tx)) (fifo_tail (fifo (gve_return tx sp))) (info_iov ?i) = Some q"
      "iov_chain (fifo_size (fifo tx)) q (window_iov tx') = Some (fifo_head (fifo tx))"
      using I(9) by (auto simp: R(4) iov_chain_append bind_eq_Some_conv)
    have "fifo_tail (fifo (gve_return tx sp)) < fifo_size (fifo tx)"
      using I(5) by (simp add: fifo_tail_def fifo_ok_def)
    from iov_chain_end [OF q(1) this] F(4) q(2) show ?thesis by simp
  qed
  have "\<forall>i \<in> set (info tx'). length (info_iov i) = GVE_TX_MAX_DESCS"
    using I(4) i0 E set_update_subset_insert [of "info tx" "slot tx 0" "reclaimed ?i"]
    by (auto simp: GVE_TX_MAX_DESCS_def)
  then show ?thesis
    unfolding tx_inv_part_def tx_inv_def
    using I(1,2,3,6) E F R(2,5,6) pk out ch p by (auto simp: tx_inv_part_def)
qed

subsection \<open>Transmission while space is being returned\<close>

text \<open>
  \<open>gve_xmit\<close> runs under the ring lock, the cleanup task does not take it; a transmission may fall
  between two rounds of a cleanup. It behaves as after the return of the space, except that it may
  find the queue full.
\<close>

lemma alloc_fifo_return:
  "gve_tx_alloc_fifo (gve_tx_free_fifo f sp) n iov b =
     (case gve_tx_alloc_fifo f n iov b of (f', iov', c) \<Rightarrow> (gve_tx_free_fifo f' sp, iov', c))"
proof -
  have "swrap32 (swrap32 (available f + int sp) - x) = swrap32 (swrap32 (available f - x) + int sp)" for x
    using swrap32_add [of "available f + int sp" "- x"] swrap32_add [of "available f - x" "int sp"]
    by (simp add: algebra_simps)
  then show ?thesis
    by (simp add: gve_tx_alloc_fifo_def gve_tx_free_fifo_def Let_def)
qed

lemma copydata_return:
  "m_copydata m off len (gve_tx_free_fifo f sp) dst = gve_tx_free_fifo (m_copydata m off len f dst) sp"
  by (simp add: m_copydata_def gve_tx_free_fifo_def)

lemma segs_return:
  "gve_xmit_segs n i m t v6 mss iov sl co (gve_return tx sp, evs) =
     (case gve_xmit_segs n i m t v6 mss iov sl co (tx, evs) of (tx', evs') \<Rightarrow> (gve_return tx' sp, evs'))"
proof (induction n arbitrary: i sl co tx evs)
  case (Suc n)
  have "\<And>r g. (gve_return tx sp)\<lparr>desc_ring := r, fifo := gve_tx_free_fifo g sp\<rparr>
      = gve_return (tx\<lparr>desc_ring := r, fifo := g\<rparr>) sp"
    by (simp add: gve_return_def)
  moreover have "fifo (gve_return tx sp) = gve_tx_free_fifo (fifo tx) sp" by (simp add: gve_return_def)
  ultimately show ?case by (simp add: Let_def copydata_return Suc.IH del: gve_return_sel(8-10))
qed simp

lemma pad_return [simp]:
  "gve_tx_fifo_pad_alloc_one_frag (gve_tx_free_fifo f sp) n = gve_tx_fifo_pad_alloc_one_frag f n"
  "gve_fifo_bytes_required (gve_tx_free_fifo f sp) n l = gve_fifo_bytes_required f n l"
  by (simp_all add: gve_tx_fifo_pad_alloc_one_frag_def gve_tx_free_fifo_def gve_fifo_bytes_required_def)

lemma commit_return:
  "gve_xmit_commit now m v6 l4 fsl len (gve_return tx sp) =
     (case gve_xmit_commit now m v6 l4 fsl len tx of (tx', evs) \<Rightarrow> (gve_return tx' sp, evs))"
proof -
  have fi: "fifo (gve_return tx sp) = gve_tx_free_fifo (fifo tx) sp" by (simp add: gve_return_def)
  have u: "(gve_return tx sp)\<lparr>info := a, desc_ring := r, fifo := gve_tx_free_fifo g sp\<rparr>
      = gve_return (tx\<lparr>info := a, desc_ring := r, fifo := g\<rparr>) sp" for a r g
    by (simp add: gve_return_def)
  have v: "(gve_return t sp)\<lparr>tx_req := x\<rparr> = gve_return (t\<lparr>tx_req := x\<rparr>) sp"
    "(gve_return t sp)\<lparr>tx_stats := y\<rparr> = gve_return (t\<lparr>tx_stats := y\<rparr>) sp"
    "tx_stats (gve_return t sp) = tx_stats t" for t x y
    by (simp_all add: gve_return_def)
  show ?thesis
    unfolding gve_xmit_commit_def Let_def fi gve_return_sel(3-7) pad_return alloc_fifo_return
    by (simp add: split_beta copydata_return u segs_return v alloc_fifo_return)
qed


lemma tx_inv_part_fifo_ok:
  assumes "tx_inv_part k tx sp"
  shows "fifo_ok (fifo tx)"
proof -
  have ok: "fifo_ok (fifo (gve_return tx sp))" "CACHE_LINE_SIZE dvd sp" "0 \<le> available (fifo tx)"
      "available (fifo tx) + int sp \<le> int (fifo_size (fifo tx))"
    using assms tx_invD(5) by (auto simp: tx_inv_part_def)
  have "nat (available (fifo tx)) = nat (available (fifo tx) + int sp) - sp" using ok(3) by linarith
  moreover have "CACHE_LINE_SIZE dvd nat (available (fifo tx) + int sp)"
    using ok(1) tx_inv_part_avail [OF assms] by (simp add: fifo_ok_def)
  ultimately have "CACHE_LINE_SIZE dvd nat (available (fifo tx))" using ok(2) by (simp add: dvd_diff_nat)
  then show ?thesis using ok by (simp add: fifo_ok_def)
qed

text \<open>
  The packets the stack hands over: not empty, shorter than 64 KiB, and their headers, as far as
  the driver reads them, lie inside the packet.
\<close>

definition pkt_ok :: "nat \<Rightarrow> mbuf \<Rightarrow> bool" where
  "pkt_ok l4_off0 m \<longleftrightarrow> 0 < m_pkthdr_len m \<and> m_pkthdr_len m < 2 ^ 16 \<and>
     (case gve_xmit_parse l4_off0 m of None \<Rightarrow> False | Some (_, _, l4_data_off) \<Rightarrow> l4_data_off \<le> m_pkthdr_len m)"

definition sent :: "nat \<Rightarrow> gve_tx_ring_gqi \<Rightarrow> mbuf \<Rightarrow> gve_tx_ring_gqi \<Rightarrow> bool" where
  "sent k tx m tx' \<longleftrightarrow> tx_done tx' = tx_done tx \<and> in_flight tx < in_flight tx' \<and>
     in_flight tx' = in_flight tx + gq_desc_cnt tx' (in_flight tx) \<and> in_flight tx' \<le> 2 ^ k \<and>
     gq_read tx' (in_flight tx) = m_data m \<and>
     info_mbuf (info tx' ! slot tx' (in_flight tx)) = Some m \<and>
     (\<forall>j < in_flight tx. gq_read tx' j = gq_read tx j \<or> info_mbuf (info tx ! slot tx j) = None) \<and>
     (\<forall>j < in_flight tx. info tx' ! slot tx' j = info tx ! slot tx j) \<and>
     (\<forall>j. in_flight tx < j \<and> j < in_flight tx' \<longrightarrow> info_mbuf (info tx' ! slot tx' j) = None)"

lemma commit_inv:
  assumes inv: "tx_inv k tx" and run: "gve_xmit_commit now m v6 l4 fsl len tx = (tx', evs)"
    and l: "0 < fsl" "fsl \<le> len" "len < 2 ^ 16" and len: "len = length (m_data m)"
    and room: "in_flight tx + 5 \<le> 2 ^ k" "gve_fifo_bytes_required (fifo tx) fsl len \<le> available (fifo tx)"
  shows "tx_inv k tx' \<and> sent k tx m tx'"
proof -
  let ?w = "in_flight tx"
  note I = tx_invD [OF inv]
  have fs: "info_mbuf (info tx ! slot tx ?w) = None \<and> iov_space (info_iov (info tx ! slot tx ?w)) = 0"
    using free_slot [OF inv, of ?w] room(1) by simp
  have "length (info_iov (info tx ! slot tx ?w)) = 4"
    using I(3,4) slot_less [OF I(1)] by simp
  then obtain f2 iov2 n1 n2 where al: "pkt_alloc (fifo tx) fsl len (info_iov (info tx ! slot tx ?w)) f2 iov2 n1 n2"
    using pkt_alloc_exists [OF I(5) l(1,2) room(2)] fs by blast
  obtain mtd where c: "committed k tx m fsl iov2 n1 n2 mtd tx'"
    using commit_facts [OF inv run l len room(1) al] al inv l len room(1)
    unfolding committed_def by (metis le_less_trans)
  note F = committed_in_flight [OF c] and N = committed_new_packet [OF c]
  have old: "gq_read tx' j = gq_read tx j \<or> info_mbuf (info tx ! slot tx j) = None" if "j < ?w" for j
    using committed_old_packet [OF c that] I(8) [OF that] committed_frame_desc(2) [OF c that] F
    by (auto simp: gq_pkt_ok_def Let_def split: option.splits)
  have fresh: "info_mbuf (info tx' ! slot tx j) = None" if "?w < j" "j < in_flight tx'" for j
  proof -
    have "0 < j - ?w" "j - ?w < 1 + mtd + n2" "?w + (j - ?w) = j" using that F(1) by auto
    then show ?thesis
      using committed_window(2) [OF c, of "j - ?w"] free_slot [OF inv, of j] committedD(2,6,7) [OF c] by simp
  qed
  have "gq_desc_cnt tx' ?w = 1 + mtd + n2" using committed_segs(1) [OF c] .
  then show ?thesis
    using fresh committed_inv [OF c] N old F committedD(2,6,7) [OF c] committed_frame_desc(2) [OF c]
      committedD(17) [OF c]
    by (simp add: sent_def commit_ring_def Let_def)
qed

lemma commit_avail:
  assumes run: "gve_xmit_commit now m v6 l4 fsl len tx = (tx', evs)" and l: "fsl \<le> len" "len < 2 ^ 16"
    and al: "pkt_alloc (fifo tx) fsl len (info_iov (info tx ! slot tx (in_flight tx))) f2 iov2 n1 n2"
  shows "available (fifo tx') = available f2"
  using commit_unfold [OF run l al refl] gve_xmit_segs_frame by (fastforce simp: m_copydata_def)

text \<open>The FIFO space \<open>gve_xmit\<close> asks for.\<close>

definition first_seg :: "nat \<Rightarrow> mbuf \<Rightarrow> nat" where
  "first_seg l4_off0 m = (case gve_xmit_parse l4_off0 m of
     None \<Rightarrow> 0 | Some (_, _, l4_data_off) \<Rightarrow> gve_first_seg_len l4_data_off (m_pkthdr_len m))"

definition bytes_needed :: "nat \<Rightarrow> gve_tx_ring_gqi \<Rightarrow> mbuf \<Rightarrow> int" where
  "bytes_needed l4_off0 tx m = gve_fifo_bytes_required (fifo tx) (first_seg l4_off0 m) (m_pkthdr_len m)"

lemma xmit_can:
  assumes p: "tx_inv_part k tx sp" and pk: "pkt_ok l4_off0 m"
  shows "\<exists>v6 l4. gve_xmit now l4_off0 m tx =
       (if in_flight tx + 5 \<le> 2 ^ k \<and> bytes_needed l4_off0 tx m \<le> available (fifo tx)
        then case gve_xmit_commit now m v6 l4 (first_seg l4_off0 m) (m_pkthdr_len m) tx of
               (tx', evs) \<Rightarrow> Some (None, tx', evs)
        else Some (Some ENOBUFS, tx\<lparr>tx_stats := (tx_stats tx)\<lparr>tx_delayed_pkt_nospace_device :=
                  tx_delayed_pkt_nospace_device (tx_stats tx) + 1\<rparr>\<rparr>, []))"
    and "0 < first_seg l4_off0 m" and "first_seg l4_off0 m \<le> m_pkthdr_len m"
proof -
  obtain v6 l4 ldo where ps: "gve_xmit_parse l4_off0 m = Some (v6, l4, ldo)" "ldo \<le> m_pkthdr_len m"
    and len: "0 < m_pkthdr_len m" "m_pkthdr_len m < 2 ^ 16"
    using pk by (auto simp: pkt_ok_def split: option.splits)
  have fs: "first_seg l4_off0 m = gve_first_seg_len ldo (m_pkthdr_len m)" using ps by (simp add: first_seg_def)
  then show "0 < first_seg l4_off0 m" "first_seg l4_off0 m \<le> m_pkthdr_len m"
    using ps(2) len by (auto simp: gve_first_seg_len_def GVE_GQ_TX_MIN_PKT_DESC_BYTES_def)
  have ok: "fifo_ok (fifo tx)" using p by (rule tx_inv_part_fifo_ok)
  have I: "ring_mask k (tx_mask tx)" "in_flight tx \<le> 2 ^ k"
    using tx_invD(1,6) [of k "gve_return tx sp"] p by (simp_all add: tx_inv_part_def)
  let ?fsl = "first_seg l4_off0 m"
  let ?n = "roundup2 ?fsl CACHE_LINE_SIZE - ?fsl + gve_tx_fifo_pad_alloc_one_frag (fifo tx) ?fsl + m_pkthdr_len m"
  have "roundup2 ?fsl CACHE_LINE_SIZE - ?fsl < 2 ^ 36" by (simp add: roundup2_def CACHE_LINE_SIZE_def)
  moreover have "gve_tx_fifo_pad_alloc_one_frag (fifo tx) ?fsl < 2 ^ 30"
    using ok by (auto simp: gve_tx_fifo_pad_alloc_one_frag_def fifo_ok_def)
  ultimately have n: "?n < 2 ^ 40" using len by simp
  have "bytes_needed l4_off0 tx m = int ?n"
    by (simp add: bytes_needed_def gve_fifo_bytes_required_def Let_def)
  then have can: "gve_can_tx tx (bytes_needed l4_off0 tx m) \<longleftrightarrow>
      in_flight tx + 5 \<le> 2 ^ k \<and> bytes_needed l4_off0 tx m \<le> available (fifo tx)"
    using gve_can_tx_iff [OF I ok n] by simp
  have "m_pkthdr_len m mod 2 ^ 16 = m_pkthdr_len m" using len by simp
  then have "gve_xmit now l4_off0 m tx =
       (if gve_can_tx tx (bytes_needed l4_off0 tx m)
        then case gve_xmit_commit now m v6 l4 ?fsl (m_pkthdr_len m) tx of (tx', evs) \<Rightarrow> Some (None, tx', evs)
        else Some (Some ENOBUFS, tx\<lparr>tx_stats := (tx_stats tx)\<lparr>tx_delayed_pkt_nospace_device :=
                  tx_delayed_pkt_nospace_device (tx_stats tx) + 1\<rparr>\<rparr>, []))"
    using ps(1) by (simp add: gve_xmit_def Let_def fs bytes_needed_def)
  then show "\<exists>v6 l4. gve_xmit now l4_off0 m tx =
       (if in_flight tx + 5 \<le> 2 ^ k \<and> bytes_needed l4_off0 tx m \<le> available (fifo tx)
        then case gve_xmit_commit now m v6 l4 ?fsl (m_pkthdr_len m) tx of (tx', evs) \<Rightarrow> Some (None, tx', evs)
        else Some (Some ENOBUFS, tx\<lparr>tx_stats := (tx_stats tx)\<lparr>tx_delayed_pkt_nospace_device :=
                  tx_delayed_pkt_nospace_device (tx_stats tx) + 1\<rparr>\<rparr>, []))"
    unfolding can by blast
qed

lemma commit_runs:
  assumes p: "tx_inv_part k tx sp" and l: "0 < fsl" "fsl \<le> m_pkthdr_len m" "m_pkthdr_len m < 2 ^ 16"
    and room: "in_flight tx + 5 \<le> 2 ^ k"
      "gve_fifo_bytes_required (fifo tx) fsl (m_pkthdr_len m) \<le> available (fifo tx)"
    and cm: "gve_xmit_commit now m v6 l4 fsl (m_pkthdr_len m) tx = (tx', evs)"
  shows "tx_inv_part k tx' sp \<and> sent k tx m tx'"
proof -
  have ok: "fifo_ok (fifo tx)" using p by (rule tx_inv_part_fifo_ok)
  have inv: "tx_inv k (gve_return tx sp)" using p by (simp add: tx_inv_part_def)
  note I = tx_invD [OF inv, simplified]
  have room': "gve_fifo_bytes_required (fifo (gve_return tx sp)) fsl (m_pkthdr_len m)
      \<le> available (fifo (gve_return tx sp))"
    using room(2) tx_inv_part_avail [OF p] by (simp add: gve_return_def)
  have "gve_xmit_commit now m v6 l4 fsl (m_pkthdr_len m) (gve_return tx sp) = (gve_return tx' sp, evs)"
    using cm by (simp add: commit_return)
  from commit_inv [OF inv this l _ _ room'] room(1)
  have c: "tx_inv k (gve_return tx' sp)" "sent k (gve_return tx sp) m (gve_return tx' sp)"
    by (simp_all add: m_pkthdr_len_def)
  have fs: "info_mbuf (info tx ! slot tx (in_flight tx)) = None \<and>
      iov_space (info_iov (info tx ! slot tx (in_flight tx))) = 0"
    using free_slot [OF inv, of "in_flight tx"] room(1) by simp
  have "length (info_iov (info tx ! slot tx (in_flight tx))) = 4"
    using I(3,4) slot_less [OF I(1)] by simp
  then obtain f2 iov2 n1 n2 where al: "pkt_alloc (fifo tx) fsl (m_pkthdr_len m)
      (info_iov (info tx ! slot tx (in_flight tx))) f2 iov2 n1 n2"
    using pkt_alloc_exists [OF ok l(1,2) room(2)] fs by blast
  have "available (fifo tx') = available f2" using commit_avail [OF cm l(2,3) al] .
  moreover have "0 \<le> available f2" "available f2 \<le> available (fifo tx)"
    using al by (simp_all add: pkt_alloc_def fifo_ok_def)
  moreover have "fifo_size (fifo tx') = fifo_size (fifo tx)"
    using c inv commit_unfold [OF cm l(2,3) al refl] gve_xmit_segs_frame al
    by (fastforce simp: m_copydata_def pkt_alloc_def)
  ultimately show ?thesis
    using p c by (simp add: tx_inv_part_def sent_def)
qed

lemma xmit_part_inv:
  assumes p: "tx_inv_part k tx sp" and pk: "pkt_ok l4_off0 m"
    and run: "gve_xmit now l4_off0 m tx = Some (None, tx', evs)"
  shows "tx_inv_part k tx' sp \<and> sent k tx m tx'"
proof -
  note X = xmit_can [OF p pk]
  obtain v6 l4 where "(if in_flight tx + 5 \<le> 2 ^ k \<and> bytes_needed l4_off0 tx m \<le> available (fifo tx)
        then case gve_xmit_commit now m v6 l4 (first_seg l4_off0 m) (m_pkthdr_len m) tx of
               (tx', evs) \<Rightarrow> Some (None, tx', evs)
        else Some (Some ENOBUFS, tx\<lparr>tx_stats := (tx_stats tx)\<lparr>tx_delayed_pkt_nospace_device :=
                  tx_delayed_pkt_nospace_device (tx_stats tx) + 1\<rparr>\<rparr>, [])) = Some (None, tx', evs)"
    using X(1) [of now] unfolding run by metis
  then have "in_flight tx + 5 \<le> 2 ^ k" "bytes_needed l4_off0 tx m \<le> available (fifo tx)"
    and cm: "gve_xmit_commit now m v6 l4 (first_seg l4_off0 m) (m_pkthdr_len m) tx = (tx', evs)"
    by (simp_all split: if_splits prod.splits)
  moreover have "m_pkthdr_len m < 2 ^ 16" using pk by (simp add: pkt_ok_def)
  ultimately show ?thesis using X(2,3) by (intro commit_runs [OF p _ _ _ _ _ cm]) (simp_all add: bytes_needed_def)
qed

subsection \<open>The cleanup loop and task\<close>

text \<open>The mbufs of the first \<open>n\<close> slots in flight, in posting order.\<close>

definition held :: "gve_tx_ring_gqi \<Rightarrow> nat \<Rightarrow> nat list" where
  "held tx n = concat (map (\<lambda>j. case info_mbuf (info tx ! slot tx j) of None \<Rightarrow> [] | Some m \<Rightarrow> [m_ptr m]) [0..<n])"

lemma held_Suc:
  "held tx (Suc n) = (case info_mbuf (info tx ! slot tx 0) of None \<Rightarrow> [] | Some m \<Rightarrow> [m_ptr m]) @
     concat (map (\<lambda>j. case info_mbuf (info tx ! slot tx (Suc j)) of None \<Rightarrow> [] | Some m \<Rightarrow> [m_ptr m]) [0..<n])"
proof -
  have "[0..<Suc n] = 0 # map Suc [0..<n]" by (simp add: map_Suc_upt upt_conv_Cons)
  then show ?thesis by (simp add: held_def o_def del: upt_Suc)
qed

lemma cleanup_one_held:
  assumes p: "tx_inv_part k tx sp" and run: "gve_tx_cleanup_one (tx, sp, evs) = (tx', sp', evs')"
    and n: "Suc n \<le> in_flight tx"
  shows "map M_FREEM (held tx (Suc n)) = drop (length evs) evs' @ map M_FREEM (held tx' n)"
    and "take (length evs) evs' = evs"
proof -
  have n0: "0 < in_flight tx" using n by simp
  note E = cleanup_one_effect [OF run] and R = cleanup_one_frame [OF p n0 run]
  have "concat (map (\<lambda>j. case info_mbuf (info tx ! slot tx (Suc j)) of None \<Rightarrow> [] | Some m \<Rightarrow> [m_ptr m]) [0..<n])
      = held tx' n"
    unfolding held_def using R(1,3) n by (intro arg_cong [of _ _ concat] map_cong) auto
  then show "map M_FREEM (held tx (Suc n)) = drop (length evs) evs' @ map M_FREEM (held tx' n)"
    using E by (simp add: held_Suc split: option.splits)
  show "take (length evs) evs' = evs" using E by simp
qed

lemma cleanup_loop_inv:
  assumes "tx_inv_part k tx sp" and "n \<le> in_flight tx"
    and "gve_tx_cleanup_loop n (tx, sp, evs) = (tx', sp', evs')"
  shows "tx_inv_part k tx' sp' \<and> in_flight tx' = in_flight tx - n \<and> tx_done tx' = tx_done tx + of_nat n \<and>
    evs' = evs @ map M_FREEM (held tx n) \<and> stopped tx' = stopped tx \<and> tx_com tx' = tx_com tx \<and>
    fifo tx' = fifo tx \<and> sp' = sp + iov_space (concat (map (\<lambda>j. info_iov (info tx ! slot tx j)) [0..<n]))"
  using assms
proof (induction n arbitrary: tx sp evs)
  case 0
  then show ?case by (simp add: gve_tx_cleanup_loop_def held_def)
next
  case (Suc n)
  obtain tx1 sp1 evs1 where one: "gve_tx_cleanup_one (tx, sp, evs) = (tx1, sp1, evs1)"
    by (metis surj_pair)
  then have rest: "gve_tx_cleanup_loop n (tx1, sp1, evs1) = (tx', sp', evs')"
    using Suc.prems(3) by (simp add: gve_tx_cleanup_loop_def funpow_swap1)
  have n0: "0 < in_flight tx" using Suc.prems(2) by simp
  note E = cleanup_one_effect [OF one] and R = cleanup_one_frame [OF Suc.prems(1) n0 one]
    and H = cleanup_one_held [OF Suc.prems(1) one Suc.prems(2)]
  have "n \<le> in_flight tx1" using R(2) Suc.prems(2) by simp
  note IH = Suc.IH [OF cleanup_one_inv [OF Suc.prems(1) n0 one] this rest]
  have ev: "evs' = evs @ map M_FREEM (held tx (Suc n))"
    using IH H append_take_drop_id [of "length evs" evs1] by simp
  have "[0..<Suc n] = 0 # map Suc [0..<n]" by (simp add: map_Suc_upt upt_conv_Cons)
  moreover have iv: "map (\<lambda>j. info_iov (info tx1 ! slot tx1 j)) [0..<n] = map (\<lambda>j. info_iov (info tx ! slot tx (Suc j))) [0..<n]"
    using R(1,3) Suc.prems(2) by (intro map_cong) auto
  ultimately have "map (\<lambda>j. info_iov (info tx ! slot tx j)) [0..<Suc n]
      = info_iov (info tx ! slot tx 0) # map (\<lambda>j. info_iov (info tx1 ! slot tx1 j)) [0..<n]"
    by (simp add: o_def del: upt_Suc)
  then have "iov_space (concat (map (\<lambda>j. info_iov (info tx ! slot tx j)) [0..<Suc n]))
      = iov_space (info_iov (info tx ! slot tx 0)) + iov_space (concat (map (\<lambda>j. info_iov (info tx1 ! slot tx1 j)) [0..<n]))"
    by (simp del: upt_Suc)
  moreover have "tx_done tx1 = tx_done tx + 1" "stopped tx1 = stopped tx" "tx_com tx1 = tx_com tx"
      "fifo tx1 = fifo tx"
    using E by simp_all
  moreover have "in_flight tx - Suc n = in_flight tx1 - n" using R(2) by linarith
  ultimately show ?case using IH R(5) ev by (auto simp del: upt_Suc)
qed

lemma cleanup_tq_effect:
  assumes inv: "tx_inv k tx" and todo: "unat (nic_done - tx_done tx) \<le> in_flight tx"
    and run: "gve_tx_cleanup_tq True nic_done nic_done' tx = (tx', evs)"
  defines "n \<equiv> unat (nic_done - tx_done tx)"
  shows "tx_inv k tx' \<and> tx_done tx' = nic_done \<and> in_flight tx' = in_flight tx - n \<and>
    (\<exists>evs2. evs = map M_FREEM (held tx n) @ DB_WRITE_4 (irq_db_offset (tx_com tx)) (GVE_IRQ_ACK OR GVE_IRQ_EVENT) # evs2 \<and>
       (nic_done' \<noteq> nic_done \<longrightarrow> TASKQUEUE_ENQUEUE TX_CLEANUP \<in> set evs2) \<and>
       (stopped tx \<and> available (fifo tx) < available (fifo tx') \<longrightarrow> \<not> stopped tx' \<and> TASKQUEUE_ENQUEUE TX_XMIT \<in> set evs2)) \<and>
    available (fifo tx') = available (fifo tx) +
      int (iov_space (concat (map (\<lambda>j. info_iov (info tx ! slot tx j)) [0..<n])))"
proof -
  obtain tx1 sp evs1 where lp: "gve_tx_cleanup_loop n (tx, 0, []) = (tx1, sp, evs1)" by (metis surj_pair)
  have n: "n \<le> in_flight tx" using todo by (simp add: n_def)
  note L = cleanup_loop_inv [OF inv [unfolded tx_inv_part_0] n lp]
  have ret: "tx_inv k (gve_return tx1 sp)" "available (fifo (gve_return tx1 sp)) = available (fifo tx) + int sp"
    using L tx_inv_part_avail by (auto simp: tx_inv_part_def)
  have dn: "tx_done tx1 = nic_done" using L by (simp add: n_def)
  have st: "tx_inv k (t\<lparr>stopped := b\<rparr>) = tx_inv k t" for t b
    by (intro tx_inv_cong) simp_all
  show ?thesis
    using run L ret dn unfolding gve_tx_cleanup_tq_def n_def [symmetric] Let_def
    by (auto simp: lp st gve_return_def in_flight_def split: if_splits)
qed


subsection \<open>Initial state\<close>

text \<open>A ring as \<open>gve_tx_alloc_ring_gqi\<close> leaves it, for \<open>2 ^ k\<close> descriptors.\<close>

definition ring_alloced :: "nat \<Rightarrow> gve_tx_ring_gqi \<Rightarrow> bool" where
  "ring_alloced k tx \<longleftrightarrow> k < 32 \<and> length (desc_ring tx) = 2 ^ k \<and> length (info tx) = 2 ^ k \<and>
     length (fifo_mem (fifo tx)) = fifo_size (fifo tx) \<and> CACHE_LINE_SIZE dvd fifo_size (fifo tx) \<and>
     0 < fifo_size (fifo tx) \<and> fifo_size (fifo tx) < 2 ^ 30"

lemma clear_tx_ring_inv:
  assumes "ring_alloced k tx"
  shows "tx_inv k (gve_clear_tx_ring (2 ^ k) tx) \<and> in_flight (gve_clear_tx_ring (2 ^ k) tx) = 0"
proof -
  let ?t = "gve_clear_tx_ring (2 ^ k) tx"
  have f: "in_flight ?t = 0" by (simp add: gve_clear_tx_ring_def gve_tx_clear_desc_ring_def in_flight_def)
  have m: "tx_mask ?t = mask k" by (simp add: gve_clear_tx_ring_def gve_tx_clear_desc_ring_def mask_eq_exp_minus_1)
  have i: "info ?t = replicate (2 ^ k) cleared_info" "desc_ring ?t = replicate (2 ^ k) zero_desc"
    using assms by (simp_all add: gve_clear_tx_ring_def gve_tx_clear_desc_ring_def ring_alloced_def)
  have fi: "fifo ?t = (fifo tx)\<lparr>available := int (fifo_size (fifo tx)), fifo_head := 0\<rparr>"
    using assms by (simp add: gve_clear_tx_ring_def gve_tx_clear_desc_ring_def ring_alloced_def swrap32_id)
  have z: "iov_space (info_iov cleared_info) = 0" "info_mbuf cleared_info = None"
    by (simp_all add: cleared_info_def iov_space_def zero_iov_def sum_list_replicate)
  have "window_iov ?t = []" by (simp add: window_iov_def f)
  then show ?thesis
    using assms f z unfolding tx_inv_def ring_mask_def m i fi
    by (simp add: ring_alloced_def fifo_ok_def fifo_tail_def cleared_info_def)
qed

subsection \<open>All interleavings\<close>

text \<open>
  The runs of a ring: transmissions, rounds of the cleanup loop for descriptors in flight and the
  return of the reclaimed space, in any order. A run records the mbufs accepted and the mbufs
  freed.
\<close>

inductive gqi_run :: "gve_tx_ring_gqi \<times> nat \<Rightarrow> nat list \<Rightarrow> nat list \<Rightarrow> gve_tx_ring_gqi \<times> nat \<Rightarrow> bool" where
  run_refl: "gqi_run s [] [] s"
| run_xmit: "gqi_run s ps fs (tx, sp) \<Longrightarrow> pkt_ok l4_off0 m \<Longrightarrow>
    gve_xmit now l4_off0 m tx = Some (None, tx', evs) \<Longrightarrow> gqi_run s (ps @ [m_ptr m]) fs (tx', sp)"
| run_full: "gqi_run s ps fs (tx, sp) \<Longrightarrow> pkt_ok l4_off0 m \<Longrightarrow>
    gve_xmit now l4_off0 m tx = Some (Some e, tx', evs) \<Longrightarrow> gqi_run s ps fs (tx', sp)"
| run_reclaim: "gqi_run s ps fs (tx, sp) \<Longrightarrow> 0 < in_flight tx \<Longrightarrow>
    gve_tx_cleanup_one (tx, sp, []) = (tx', sp', map M_FREEM fs') \<Longrightarrow> gqi_run s ps (fs @ fs') (tx', sp')"
| run_release: "gqi_run s ps fs (tx, sp) \<Longrightarrow> gqi_run s ps fs (gve_return tx sp, 0)"

lemma map_M_FREEM_inj: "map M_FREEM xs = map M_FREEM ys \<longleftrightarrow> xs = ys"
  by (rule inj_map_eq_map) (simp add: inj_on_def)

lemma xmit_full:
  assumes "tx_inv_part k tx sp" "pkt_ok l4_off0 m" "gve_xmit now l4_off0 m tx = Some (Some e, tx', evs)"
  shows "e = ENOBUFS \<and> evs = [] \<and> tx' = tx\<lparr>tx_stats := (tx_stats tx)\<lparr>tx_delayed_pkt_nospace_device :=
                  tx_delayed_pkt_nospace_device (tx_stats tx) + 1\<rparr>\<rparr>"
  using xmit_can(1) [OF assms(1,2), of now] unfolding assms(3) by (auto split: if_splits prod.splits)

lemma held_append:
  "held tx (a + b) = held tx a @ concat (map (\<lambda>j. case info_mbuf (info tx ! slot tx j) of None \<Rightarrow> []
     | Some m \<Rightarrow> [m_ptr m]) [a..<a + b])"
  using upt_add_eq_append [of 0 a b] by (simp add: held_def)

lemma held_sent:
  assumes "sent k tx m tx'"
  shows "held tx' (in_flight tx') = held tx (in_flight tx) @ [m_ptr m]"
proof -
  let ?w = "in_flight tx" and ?g = "\<lambda>j. case info_mbuf (info tx' ! slot tx' j) of None \<Rightarrow> [] | Some m \<Rightarrow> [m_ptr m]"
  have w: "?w < in_flight tx'" "info_mbuf (info tx' ! slot tx' ?w) = Some m"
    and old: "\<And>j. j < ?w \<Longrightarrow> info tx' ! slot tx' j = info tx ! slot tx j"
    and new: "\<And>j. ?w < j \<Longrightarrow> j < in_flight tx' \<Longrightarrow> info_mbuf (info tx' ! slot tx' j) = None"
    using assms by (simp_all add: sent_def)
  have "held tx' ?w = held tx ?w"
    unfolding held_def using old by (intro arg_cong [of _ _ concat] map_cong) auto
  moreover have "concat (map ?g [Suc ?w..<in_flight tx']) = []" using new by auto
  moreover have "[?w..<?w + (in_flight tx' - ?w)] = ?w # [Suc ?w..<in_flight tx']"
    using w(1) by (simp add: upt_conv_Cons)
  ultimately show ?thesis
    using held_append [of tx' ?w "in_flight tx' - ?w"] w by simp
qed

lemma gqi_run_inv:
  assumes "gqi_run s ps fs s'" and "tx_inv_part k (fst s) (snd s)" and "in_flight (fst s) = 0"
  shows "tx_inv_part k (fst s') (snd s') \<and> ps = fs @ held (fst s') (in_flight (fst s'))"
  using assms
proof (induction rule: gqi_run.induct)
  case (run_refl s)
  then show ?case by (simp add: held_def)
next
  case (run_xmit s ps fs tx sp l4_off0 m now tx' evs)
  then have p: "tx_inv_part k tx sp" and eq: "ps = fs @ held tx (in_flight tx)" by simp_all
  note X = xmit_part_inv [OF p run_xmit.hyps(2,3)]
  have "held tx' (in_flight tx') = held tx (in_flight tx) @ [m_ptr m]"
    using X by (intro held_sent) blast
  then show ?case using X eq by simp
next
  case (run_full s ps fs tx sp l4_off0 m now e tx' evs)
  then have p: "tx_inv_part k tx sp" and eq: "ps = fs @ held tx (in_flight tx)" by simp_all
  note X = xmit_full [OF p run_full.hyps(2,3)]
  have c: "gve_return tx' sp = (gve_return tx sp)\<lparr>tx_stats := tx_stats tx'\<rparr>" using X by (simp add: gve_return_def)
  have "tx_inv k (gve_return tx' sp) = tx_inv k (gve_return tx sp)"
    unfolding c by (intro tx_inv_cong) simp_all
  moreover have "slot tx' = slot tx" "in_flight tx' = in_flight tx" "info tx' = info tx" "fifo tx' = fifo tx"
    using X by (simp_all add: slot_def in_flight_def fun_eq_iff)
  ultimately show ?case using p eq by (simp add: tx_inv_part_def held_def)
next
  case (run_reclaim s ps fs tx sp tx' sp' fs')
  then have p: "tx_inv_part k tx sp" and eq: "ps = fs @ held tx (in_flight tx)" by simp_all
  note I = cleanup_one_inv [OF p run_reclaim.hyps(2,3)]
    and R = cleanup_one_frame [OF p run_reclaim.hyps(2,3)]
  have "map M_FREEM (held tx (Suc (in_flight tx'))) = map M_FREEM (fs' @ held tx' (in_flight tx'))"
    using cleanup_one_held(1) [OF p run_reclaim.hyps(3), of "in_flight tx'"] R(2) by simp
  then show ?case using I eq R(2) by (simp only: map_M_FREEM_inj fst_conv snd_conv append_assoc)
next
  case (run_release s ps fs tx sp)
  then have p: "tx_inv_part k tx sp" and eq: "ps = fs @ held tx (in_flight tx)" by simp_all
  from p have "tx_inv k (gve_return tx sp)" by (simp add: tx_inv_part_def)
  then show ?case using eq tx_inv_part_0 by (simp add: held_def)
qed

section \<open>Properties\<close>

text \<open>A small ring and packet for the witnesses.\<close>

definition ex_tx :: gve_tx_ring_gqi where
  "ex_tx = \<lparr>tx_com = ex_com, stopped = False, tx_req = 7, tx_done = 5, last_kicked = 0,
     tx_stats = zero_txq_stats, desc_ring = replicate 8 zero_desc, info = replicate 8 cleared_info,
     fifo = \<lparr>fifo_mem = replicate 256 0, fifo_size = 256, available = 0, fifo_head = 0\<rparr>, tx_mask = 0\<rparr>"

lemma ex_ring: "ring_alloced 3 ex_tx"
  by (simp add: ring_alloced_def ex_tx_def CACHE_LINE_SIZE_def)

lemma ex_pkt: "pkt_ok 0 ex_mbuf"
  by (simp add: pkt_ok_def ex_mbuf_def m_pkthdr_len_def gve_xmit_parse_def gve_xmit_l4_def ether_type_def
      rd8_def ETHERTYPE_IPV6_def ETHERTYPE_IP_def nth_replicate)

text \<open>
  C1. Transmission of a packet on a GQI ring: it is accepted exactly when five descriptors and the FIFO space
  for header, padding and payload are free. An accepted packet is what the device reads from the
  descriptors and the bounce buffer, byte for byte; the packets already posted keep reading the
  same bytes, and the ring invariant holds again. A refused packet leaves the ring as it was, but
  for a counter.
\<close>

theorem gve_xmit_correct:
  assumes "tx_inv k tx" and "pkt_ok l4_off0 m"
  shows "\<exists>e tx' evs. gve_xmit now l4_off0 m tx = Some (e, tx', evs) \<and>
    (e = None \<longleftrightarrow> in_flight tx + 5 \<le> 2 ^ k \<and> bytes_needed l4_off0 tx m \<le> available (fifo tx)) \<and>
    (e = None \<longrightarrow> tx_inv k tx' \<and> sent k tx m tx') \<and>
    (e \<noteq> None \<longrightarrow> e = Some ENOBUFS \<and> evs = [] \<and>
       tx' = tx\<lparr>tx_stats := (tx_stats tx)\<lparr>tx_delayed_pkt_nospace_device :=
                  tx_delayed_pkt_nospace_device (tx_stats tx) + 1\<rparr>\<rparr>)"
proof -
  note X = xmit_can [OF assms(1) [unfolded tx_inv_part_0] assms(2)]
  show ?thesis
  proof (cases "in_flight tx + 5 \<le> 2 ^ k \<and> bytes_needed l4_off0 tx m \<le> available (fifo tx)")
    case True
    then obtain tx' evs where run: "gve_xmit now l4_off0 m tx = Some (None, tx', evs)"
      using X(1) [of now] by (metis (no_types, lifting) case_prod_conv surj_pair)
    from xmit_part_inv [OF assms(1) [unfolded tx_inv_part_0] assms(2) run] run True
    show ?thesis by (auto simp: tx_inv_part_0)
  next
    case False
    then show ?thesis using X(1) [of now] by (auto simp del: de_Morgan_conj)
  qed
qed

lemma ex_accepted:
  "\<exists>tx' evs. gve_xmit 0 0 ex_mbuf (gve_clear_tx_ring (2 ^ 3) ex_tx) = Some (None, tx', evs)"
proof -
  let ?t = "gve_clear_tx_ring (2 ^ 3) ex_tx"
  have t: "tx_inv_part 3 ?t 0" "in_flight ?t = 0" using clear_tx_ring_inv [OF ex_ring] by (simp_all flip: tx_inv_part_0)
  have "bytes_needed 0 (gve_clear_tx_ring 8 ex_tx) ex_mbuf \<le> available (fifo (gve_clear_tx_ring 8 ex_tx))" by code_simp
  then show ?thesis
    using xmit_can(1) [OF t(1) ex_pkt, of 0] t(2) by (auto split: prod.splits)
qed

theorem gve_xmit_correct_witness:
  "\<exists>tx' evs. gve_xmit 0 0 ex_mbuf (gve_clear_tx_ring 8 ex_tx) = Some (None, tx', evs) \<and>
     tx_inv 3 tx' \<and> gq_read tx' 0 = replicate 20 1"
proof -
  let ?t = "gve_clear_tx_ring 8 ex_tx"
  have t: "tx_inv 3 ?t" "in_flight ?t = 0" using clear_tx_ring_inv [OF ex_ring] by simp_all
  have "bytes_needed 0 ?t ex_mbuf \<le> available (fifo ?t)" by code_simp
  then show ?thesis
    using gve_xmit_correct [OF t(1) ex_pkt, of 0] t(2) by (auto simp: sent_def ex_mbuf_def)
qed

text \<open>
  C11. Interleavings of the transmit path and the cleanup task: starting from a cleared ring,
  whatever the order of transmissions, of cleanup rounds and of the return of reclaimed FIFO
  space, the ring invariant holds, and the mbufs accepted are, in this order, the mbufs freed
  followed by the mbufs still in flight: each is freed once, after its completion, and none is
  lost.
\<close>

theorem gqi_interleavings_safe:
  assumes "ring_alloced k tx0" and "gqi_run (gve_clear_tx_ring (2 ^ k) tx0, 0) posted freed (tx, sp)"
  shows "tx_inv k (gve_return tx sp) \<and> posted = freed @ held tx (in_flight tx) \<and>
    (\<forall>j < in_flight tx. gq_pkt_ok tx j)"
proof -
  have "tx_inv_part k tx sp" "posted = freed @ held tx (in_flight tx)"
    using gqi_run_inv [OF assms(2), of k] clear_tx_ring_inv [OF assms(1)] by (simp_all flip: tx_inv_part_0)
  then show ?thesis using tx_invD(8) [of k "gve_return tx sp"] by (simp add: tx_inv_part_def)
qed

theorem gqi_interleavings_safe_witness:
  "\<exists>tx. gqi_run (gve_clear_tx_ring (2 ^ 3) ex_tx, 0) [1] [] (tx, 0) \<and> tx_inv 3 (gve_return tx 0) \<and>
     held tx (in_flight tx) = [1]"
proof -
  obtain tx1 evs where "gve_xmit 0 0 ex_mbuf (gve_clear_tx_ring (2 ^ 3) ex_tx) = Some (None, tx1, evs)"
    using ex_accepted by auto
  then have "gqi_run (gve_clear_tx_ring (2 ^ 3) ex_tx, 0) ([] @ [m_ptr ex_mbuf]) [] (tx1, 0)"
    by (rule run_xmit [OF run_refl ex_pkt])
  moreover have "m_ptr ex_mbuf = 1" by (simp add: ex_mbuf_def)
  ultimately show ?thesis using gqi_interleavings_safe [OF ex_ring, of "[1]" "[]" tx1 0] by auto
qed

text \<open>
  C17. The cleanup task: given completions for descriptors in flight only, it frees the mbufs of
  exactly the completed slots in posting order, returns their FIFO space, advances \<open>done\<close> to the
  device's counter, keeps the ring invariant, unmasks the interrupt, schedules itself again when
  the counter has moved on meanwhile, and restarts a stopped queue if it has freed space.
\<close>

theorem gve_tx_cleanup_tq_correct:
  assumes "tx_inv k tx" and "unat (nic_done - tx_done tx) \<le> in_flight tx"
    and "gve_tx_cleanup_tq True nic_done nic_done' tx = (tx', evs)"
  defines "n \<equiv> unat (nic_done - tx_done tx)"
  shows "tx_inv k tx' \<and> tx_done tx' = nic_done \<and> in_flight tx' = in_flight tx - n \<and>
    (\<exists>evs2. evs = map M_FREEM (held tx n) @ DB_WRITE_4 (irq_db_offset (tx_com tx)) (GVE_IRQ_ACK OR GVE_IRQ_EVENT) # evs2 \<and>
       (nic_done' \<noteq> nic_done \<longrightarrow> TASKQUEUE_ENQUEUE TX_CLEANUP \<in> set evs2) \<and>
       (stopped tx \<and> available (fifo tx) < available (fifo tx') \<longrightarrow> \<not> stopped tx' \<and> TASKQUEUE_ENQUEUE TX_XMIT \<in> set evs2)) \<and>
    available (fifo tx') = available (fifo tx) +
      int (iov_space (concat (map (\<lambda>j. info_iov (info tx ! slot tx j)) [0..<n])))"
  using cleanup_tq_effect [OF assms(1-3)] unfolding n_def .

theorem gve_tx_cleanup_tq_correct_witness:
  "\<exists>tx1 tx evs. tx_inv 3 tx1 \<and> 0 < in_flight tx1 \<and> held tx1 (in_flight tx1) = [1] \<and>
     gve_tx_cleanup_tq True (tx_req tx1) 0 tx1 = (tx, evs) \<and> tx_inv 3 tx \<and> in_flight tx = 0 \<and> M_FREEM 1 \<in> set evs"
proof -
  let ?t = "gve_clear_tx_ring (2 ^ 3) ex_tx"
  have t: "tx_inv_part 3 ?t 0" "in_flight ?t = 0" using clear_tx_ring_inv [OF ex_ring] by (simp_all flip: tx_inv_part_0)
  obtain tx1 evs1 where "gve_xmit 0 0 ex_mbuf ?t = Some (None, tx1, evs1)" using ex_accepted by auto
  from xmit_part_inv [OF t(1) ex_pkt this] have x: "tx_inv 3 tx1" "sent 3 ?t ex_mbuf tx1" by (simp_all add: tx_inv_part_0)
  have h: "held tx1 (in_flight tx1) = [1]" "0 < in_flight tx1"
    using held_sent [OF x(2)] x(2) t(2) by (simp_all add: held_def sent_def ex_mbuf_def)
  obtain tx evs where run: "gve_tx_cleanup_tq True (tx_req tx1) 0 tx1 = (tx, evs)" by (metis surj_pair)
  have "unat (tx_req tx1 - tx_done tx1) \<le> in_flight tx1" by (simp add: in_flight_def)
  from gve_tx_cleanup_tq_correct [OF x(1) this run] h
  have "tx_inv 3 tx" "in_flight tx = 0" "M_FREEM 1 \<in> set evs" by (auto simp: in_flight_def [of tx1, symmetric])
  with x(1) h run show ?thesis by blast
qed

end
