(* ===== verification/Gve_Priv.thy ===== *)
theory Gve_Priv
  imports Gve_Types
begin

text \<open>
  The control-path state of one device, \<open>struct gve_priv\<close> of \<open>gve.h\<close>: configuration learned
  from the device, state flags, the admin queue with its counters, and the addresses of the memory
  shared with the device. The rings themselves are modelled with the data paths; the control path
  sees of them what it tells the device (\<open>gve_ring_ctl\<close>).
\<close>

section \<open>Handles and configuration\<close>

text \<open>A DMA allocation by its bus address; a handle whose \<open>cpu_addr\<close> is NULL is \<open>None\<close>.\<close>

record gve_dma_handle =
  bus_addr :: u64

record gve_queue_config =
  max_queues :: u16
  num_queues_cfg :: u16

datatype gve_state_flags_bit =
    GVE_STATE_FLAG_ADMINQ_OK | GVE_STATE_FLAG_RESOURCES_OK | GVE_STATE_FLAG_QPLREG_OK
  | GVE_STATE_FLAG_RX_RINGS_OK | GVE_STATE_FLAG_TX_RINGS_OK | GVE_STATE_FLAG_QUEUES_UP
  | GVE_STATE_FLAG_LINK_UP | GVE_STATE_FLAG_DO_RESET | GVE_STATE_FLAG_IN_RESET

record gve_ring_ctl =
  rc_ntfy_id :: u32
  rc_q_resources :: u64
  rc_desc_ring :: u64
  rc_data_ring :: u64
  rc_compl_ring :: u64
  rc_qpl_id :: u32

section \<open>Admin queue commands\<close>

text \<open>
  The members of \<open>union\<close> in \<open>struct gve_adminq_command\<close>, with their fields in the order of
  \<open>gve_adminq.h\<close>; fields hold the values they encode.
\<close>

datatype gve_adminq_body =
    NoBody
  | DescribeDevice u64 u32 u32
  | ConfigureDeviceResources u64 u64 u32 u32 u32 u32 gve_queue_format
  | RegisterPageList u32 u32 u64 u64
  | UnregisterPageList u32
  | CreateTxQueue u32 u64 u64 u32 u32 u64 u16 u16
  | CreateRxQueue u32 u32 u32 u64 u64 u64 u32 u16 u16 u16 bool
  | DestroyTxQueue u32
  | DestroyRxQueue u32
  | SetDriverParameter u32 u64
  | VerifyDriverCompatibility u64 u64
  | GetPtypeMap u64 u64

record gve_adminq_command =
  cmd_opcode :: u32
  cmd_status :: u32
  cmd_body :: gve_adminq_body

section \<open>The device state\<close>

record gve_priv =
  mac :: "u8 list"
  aq_mem :: "gve_dma_handle option"
  num_event_counters :: u16
  default_num_queues :: u16
  tx_desc_cnt :: u16
  max_tx_desc_cnt :: u16
  min_tx_desc_cnt :: u16
  rx_desc_cnt :: u16
  max_rx_desc_cnt :: u16
  min_rx_desc_cnt :: u16
  rx_pages_per_qpl :: u16
  max_registered_pages :: u64
  num_registered_pages :: u64
  supported_features :: u32
  max_mtu :: u16
  modify_ringsize_enabled :: bool
  counter_array_mem :: u64
  irqs_db_mem :: u64
  queue_format :: gve_queue_format
  tx_cfg :: gve_queue_config
  rx_cfg :: gve_queue_config
  num_queues :: u32
  adminq :: "gve_adminq_command list"
  adminq_bus_addr :: u64
  adminq_mask :: u32
  adminq_prod_cnt :: u32
  adminq_cmd_fail :: u32
  adminq_timeouts :: u32
  adminq_describe_device_cnt :: u32
  adminq_cfg_device_resources_cnt :: u32
  adminq_register_page_list_cnt :: u32
  adminq_unregister_page_list_cnt :: u32
  adminq_create_tx_queue_cnt :: u32
  adminq_create_rx_queue_cnt :: u32
  adminq_destroy_tx_queue_cnt :: u32
  adminq_destroy_rx_queue_cnt :: u32
  adminq_dcfg_device_resources_cnt :: u32
  adminq_set_driver_parameter_cnt :: u32
  adminq_verify_driver_compatibility_cnt :: u32
  adminq_get_ptype_map_cnt :: u32
  interface_up_cnt :: u32
  interface_down_cnt :: u32
  reset_cnt :: u32
  state_flags :: "gve_state_flags_bit set"
  check_tx_queue_idx :: u16

definition gve_get_state_flag :: "'a gve_priv_scheme \<Rightarrow> gve_state_flags_bit \<Rightarrow> bool" where
  "gve_get_state_flag priv pos \<longleftrightarrow> pos \<in> state_flags priv"

definition gve_set_state_flag :: "'a gve_priv_scheme \<Rightarrow> gve_state_flags_bit \<Rightarrow> 'a gve_priv_scheme" where
  "gve_set_state_flag priv pos = priv\<lparr>state_flags := insert pos (state_flags priv)\<rparr>"

definition gve_clear_state_flag :: "'a gve_priv_scheme \<Rightarrow> gve_state_flags_bit \<Rightarrow> 'a gve_priv_scheme" where
  "gve_clear_state_flag priv pos = priv\<lparr>state_flags := state_flags priv - {pos}\<rparr>"

lemma gve_get_set_state_flag [simp]:
  "gve_get_state_flag (gve_set_state_flag priv p) q \<longleftrightarrow> p = q \<or> gve_get_state_flag priv q"
  "gve_get_state_flag (gve_clear_state_flag priv p) q \<longleftrightarrow> p \<noteq> q \<and> gve_get_state_flag priv q"
  by (auto simp: gve_get_state_flag_def gve_set_state_flag_def gve_clear_state_flag_def)

end
