(* ===== verification/Gve_Adminq.thy ===== *)
theory Gve_Adminq
  imports Gve_Priv "HOL-Library.Monad_Syntax"
begin

text \<open>
  The admin queue of \<open>gve_adminq.c\<close>: issuing commands, waiting for the device, the command
  builders, creation and destruction of queues with rollback, and the parsing of the device
  descriptor, byte by byte.
\<close>

section \<open>Constants of \<open>gve_adminq.h\<close>\<close>

definition GVE_MAX_ADMINQ_EVENT_COUNTER_CHECK :: nat where "GVE_MAX_ADMINQ_EVENT_COUNTER_CHECK = 10"
definition GVE_ADMINQ_DEVICE_DESCRIPTOR_VERSION :: u32 where "GVE_ADMINQ_DEVICE_DESCRIPTOR_VERSION = 1"
definition ADMINQ_SIZE :: nat where "ADMINQ_SIZE = PAGE_SIZE"
definition ADMINQ_SLOTS :: nat where "ADMINQ_SLOTS = ADMINQ_SIZE div 64"
definition GVE_RAW_ADDRESSING_QPL_ID :: u32 where "GVE_RAW_ADDRESSING_QPL_ID = 0xFFFFFFFF"
definition GVE_NTFY_BLK_BASE_MSIX_IDX :: u32 where "GVE_NTFY_BLK_BASE_MSIX_IDX = 0"
definition GVE_SET_PARAM_MTU :: u32 where "GVE_SET_PARAM_MTU = 1"
definition GVE_NUM_PTYPES :: nat where "GVE_NUM_PTYPES = 1024"

definition GVE_ADMINQ_DESCRIBE_DEVICE :: u32 where "GVE_ADMINQ_DESCRIBE_DEVICE = 0x1"
definition GVE_ADMINQ_CONFIGURE_DEVICE_RESOURCES :: u32 where "GVE_ADMINQ_CONFIGURE_DEVICE_RESOURCES = 0x2"
definition GVE_ADMINQ_REGISTER_PAGE_LIST :: u32 where "GVE_ADMINQ_REGISTER_PAGE_LIST = 0x3"
definition GVE_ADMINQ_UNREGISTER_PAGE_LIST :: u32 where "GVE_ADMINQ_UNREGISTER_PAGE_LIST = 0x4"
definition GVE_ADMINQ_CREATE_TX_QUEUE :: u32 where "GVE_ADMINQ_CREATE_TX_QUEUE = 0x5"
definition GVE_ADMINQ_CREATE_RX_QUEUE :: u32 where "GVE_ADMINQ_CREATE_RX_QUEUE = 0x6"
definition GVE_ADMINQ_DESTROY_TX_QUEUE :: u32 where "GVE_ADMINQ_DESTROY_TX_QUEUE = 0x7"
definition GVE_ADMINQ_DESTROY_RX_QUEUE :: u32 where "GVE_ADMINQ_DESTROY_RX_QUEUE = 0x8"
definition GVE_ADMINQ_DECONFIGURE_DEVICE_RESOURCES :: u32 where "GVE_ADMINQ_DECONFIGURE_DEVICE_RESOURCES = 0x9"
definition GVE_ADMINQ_SET_DRIVER_PARAMETER :: u32 where "GVE_ADMINQ_SET_DRIVER_PARAMETER = 0xB"
definition GVE_ADMINQ_GET_PTYPE_MAP :: u32 where "GVE_ADMINQ_GET_PTYPE_MAP = 0xE"
definition GVE_ADMINQ_VERIFY_DRIVER_COMPATIBILITY :: u32 where "GVE_ADMINQ_VERIFY_DRIVER_COMPATIBILITY = 0xF"

text \<open>\<open>enum gve_adminq_statuses\<close> and its encoding.\<close>

definition GVE_ADMINQ_COMMAND_UNSET :: u32 where "GVE_ADMINQ_COMMAND_UNSET = 0x0"
definition GVE_ADMINQ_COMMAND_PASSED :: u32 where "GVE_ADMINQ_COMMAND_PASSED = 0x1"
definition GVE_ADMINQ_COMMAND_ERROR_ABORTED :: u32 where "GVE_ADMINQ_COMMAND_ERROR_ABORTED = 0xFFFFFFF0"
definition GVE_ADMINQ_COMMAND_ERROR_ALREADY_EXISTS :: u32 where "GVE_ADMINQ_COMMAND_ERROR_ALREADY_EXISTS = 0xFFFFFFF1"
definition GVE_ADMINQ_COMMAND_ERROR_CANCELLED :: u32 where "GVE_ADMINQ_COMMAND_ERROR_CANCELLED = 0xFFFFFFF2"
definition GVE_ADMINQ_COMMAND_ERROR_DATALOSS :: u32 where "GVE_ADMINQ_COMMAND_ERROR_DATALOSS = 0xFFFFFFF3"
definition GVE_ADMINQ_COMMAND_ERROR_DEADLINE_EXCEEDED :: u32 where "GVE_ADMINQ_COMMAND_ERROR_DEADLINE_EXCEEDED = 0xFFFFFFF4"
definition GVE_ADMINQ_COMMAND_ERROR_FAILED_PRECONDITION :: u32 where "GVE_ADMINQ_COMMAND_ERROR_FAILED_PRECONDITION = 0xFFFFFFF5"
definition GVE_ADMINQ_COMMAND_ERROR_INTERNAL_ERROR :: u32 where "GVE_ADMINQ_COMMAND_ERROR_INTERNAL_ERROR = 0xFFFFFFF6"
definition GVE_ADMINQ_COMMAND_ERROR_INVALID_ARGUMENT :: u32 where "GVE_ADMINQ_COMMAND_ERROR_INVALID_ARGUMENT = 0xFFFFFFF7"
definition GVE_ADMINQ_COMMAND_ERROR_NOT_FOUND :: u32 where "GVE_ADMINQ_COMMAND_ERROR_NOT_FOUND = 0xFFFFFFF8"
definition GVE_ADMINQ_COMMAND_ERROR_OUT_OF_RANGE :: u32 where "GVE_ADMINQ_COMMAND_ERROR_OUT_OF_RANGE = 0xFFFFFFF9"
definition GVE_ADMINQ_COMMAND_ERROR_PERMISSION_DENIED :: u32 where "GVE_ADMINQ_COMMAND_ERROR_PERMISSION_DENIED = 0xFFFFFFFA"
definition GVE_ADMINQ_COMMAND_ERROR_UNAUTHENTICATED :: u32 where "GVE_ADMINQ_COMMAND_ERROR_UNAUTHENTICATED = 0xFFFFFFFB"
definition GVE_ADMINQ_COMMAND_ERROR_RESOURCE_EXHAUSTED :: u32 where "GVE_ADMINQ_COMMAND_ERROR_RESOURCE_EXHAUSTED = 0xFFFFFFFC"
definition GVE_ADMINQ_COMMAND_ERROR_UNAVAILABLE :: u32 where "GVE_ADMINQ_COMMAND_ERROR_UNAVAILABLE = 0xFFFFFFFD"
definition GVE_ADMINQ_COMMAND_ERROR_UNIMPLEMENTED :: u32 where "GVE_ADMINQ_COMMAND_ERROR_UNIMPLEMENTED = 0xFFFFFFFE"
definition GVE_ADMINQ_COMMAND_ERROR_UNKNOWN_ERROR :: u32 where "GVE_ADMINQ_COMMAND_ERROR_UNKNOWN_ERROR = 0xFFFFFFFF"

lemmas aq_status_defs =
  GVE_ADMINQ_COMMAND_UNSET_def GVE_ADMINQ_COMMAND_PASSED_def GVE_ADMINQ_COMMAND_ERROR_ABORTED_def
  GVE_ADMINQ_COMMAND_ERROR_ALREADY_EXISTS_def GVE_ADMINQ_COMMAND_ERROR_CANCELLED_def
  GVE_ADMINQ_COMMAND_ERROR_DATALOSS_def GVE_ADMINQ_COMMAND_ERROR_DEADLINE_EXCEEDED_def
  GVE_ADMINQ_COMMAND_ERROR_FAILED_PRECONDITION_def GVE_ADMINQ_COMMAND_ERROR_INTERNAL_ERROR_def
  GVE_ADMINQ_COMMAND_ERROR_INVALID_ARGUMENT_def GVE_ADMINQ_COMMAND_ERROR_NOT_FOUND_def
  GVE_ADMINQ_COMMAND_ERROR_OUT_OF_RANGE_def GVE_ADMINQ_COMMAND_ERROR_PERMISSION_DENIED_def
  GVE_ADMINQ_COMMAND_ERROR_UNAUTHENTICATED_def GVE_ADMINQ_COMMAND_ERROR_RESOURCE_EXHAUSTED_def
  GVE_ADMINQ_COMMAND_ERROR_UNAVAILABLE_def GVE_ADMINQ_COMMAND_ERROR_UNIMPLEMENTED_def
  GVE_ADMINQ_COMMAND_ERROR_UNKNOWN_ERROR_def

section \<open>The device\<close>

text \<open>
  What the driver needs of the device: a read of a register, during which the device may have
  worked on the commands in the queue's memory; a doorbell write; and the contents of a DMA buffer,
  by bus address. The device is an argument of every operation.
\<close>

record 'd aq_device =
  dev_event_counter :: "'d \<Rightarrow> gve_adminq_command list \<Rightarrow> u32 \<times> gve_adminq_command list \<times> 'd"
  dev_doorbell :: "u32 \<Rightarrow> 'd \<Rightarrow> 'd"
  dev_set_aq_pfn :: "u32 \<Rightarrow> 'd \<Rightarrow> 'd"
  dev_aq_pfn :: "'d \<Rightarrow> u32 \<times> 'd"
  dev_buffer :: "'d \<Rightarrow> u64 \<Rightarrow> u8 list"

definition read_event_counter :: "'d aq_device \<Rightarrow> gve_priv \<Rightarrow> 'd \<Rightarrow> u32 \<times> gve_priv \<times> 'd" where
  "read_event_counter dev priv d =
     (case dev_event_counter dev d (adminq priv) of (c, q, d') \<Rightarrow> (c, priv\<lparr>adminq := q\<rparr>, d'))"

section \<open>Issuing commands\<close>

definition gve_adminq_parse_err :: "gve_priv \<Rightarrow> u32 \<Rightarrow> err \<times> gve_priv" where
  "gve_adminq_parse_err priv status =
     (let priv' = (if status \<noteq> GVE_ADMINQ_COMMAND_PASSED \<and> status \<noteq> GVE_ADMINQ_COMMAND_UNSET
                   then priv\<lparr>adminq_cmd_fail := adminq_cmd_fail priv + 1\<rparr> else priv)
      in (if status = GVE_ADMINQ_COMMAND_PASSED then None
          else if status = GVE_ADMINQ_COMMAND_UNSET then Some EINVAL
          else if status \<in> {GVE_ADMINQ_COMMAND_ERROR_ABORTED, GVE_ADMINQ_COMMAND_ERROR_CANCELLED,
              GVE_ADMINQ_COMMAND_ERROR_DATALOSS, GVE_ADMINQ_COMMAND_ERROR_FAILED_PRECONDITION,
              GVE_ADMINQ_COMMAND_ERROR_UNAVAILABLE} then Some EAGAIN
          else if status \<in> {GVE_ADMINQ_COMMAND_ERROR_ALREADY_EXISTS,
              GVE_ADMINQ_COMMAND_ERROR_INTERNAL_ERROR, GVE_ADMINQ_COMMAND_ERROR_INVALID_ARGUMENT,
              GVE_ADMINQ_COMMAND_ERROR_NOT_FOUND, GVE_ADMINQ_COMMAND_ERROR_OUT_OF_RANGE,
              GVE_ADMINQ_COMMAND_ERROR_UNKNOWN_ERROR} then Some EINVAL
          else if status = GVE_ADMINQ_COMMAND_ERROR_DEADLINE_EXCEEDED then Some ETIMEDOUT
          else if status \<in> {GVE_ADMINQ_COMMAND_ERROR_PERMISSION_DENIED,
              GVE_ADMINQ_COMMAND_ERROR_UNAUTHENTICATED} then Some EACCES
          else if status = GVE_ADMINQ_COMMAND_ERROR_RESOURCE_EXHAUSTED then Some ENOMEM
          else if status = GVE_ADMINQ_COMMAND_ERROR_UNIMPLEMENTED then Some EOPNOTSUPP
          else Some EINVAL,
          priv'))"

definition gve_adminq_kick_cmd :: "'d aq_device \<Rightarrow> u32 \<Rightarrow> 'd \<Rightarrow> 'd" where
  "gve_adminq_kick_cmd dev prod_cnt d = dev_doorbell dev prod_cnt d"

fun adminq_wait_loop :: "nat \<Rightarrow> 'd aq_device \<Rightarrow> u32 \<Rightarrow> gve_priv \<times> 'd \<Rightarrow> bool \<times> gve_priv \<times> 'd" where
  "adminq_wait_loop 0 dev prod_cnt (priv, d) = (False, priv, d)"
| "adminq_wait_loop (Suc n) dev prod_cnt (priv, d) =
     (case read_event_counter dev priv d of (c, priv', d') \<Rightarrow>
        if c = prod_cnt then (True, priv', d') else adminq_wait_loop n dev prod_cnt (priv', d'))"

definition gve_adminq_wait_for_cmd :: "'d aq_device \<Rightarrow> u32 \<Rightarrow> gve_priv \<times> 'd \<Rightarrow> bool \<times> gve_priv \<times> 'd" where
  "gve_adminq_wait_for_cmd = adminq_wait_loop GVE_MAX_ADMINQ_EVENT_COUNTER_CHECK"

text \<open>The loop of \<open>gve_adminq_kick_and_wait\<close> over the indices \<open>is\<close> of completed commands.\<close>

fun adminq_check_loop :: "nat list \<Rightarrow> gve_priv \<Rightarrow> err \<times> gve_priv" where
  "adminq_check_loop [] priv = (None, priv)"
| "adminq_check_loop (i # is) priv =
     (let cmd = adminq priv ! unat (of_nat i AND adminq_mask priv)
      in case gve_adminq_parse_err priv (cmd_status cmd) of
           (Some e, priv') \<Rightarrow> (Some e, priv')
         | (None, priv') \<Rightarrow> adminq_check_loop is priv')"

definition gve_adminq_kick_and_wait :: "'d aq_device \<Rightarrow> gve_priv \<times> 'd \<Rightarrow> err \<times> gve_priv \<times> 'd" where
  "gve_adminq_kick_and_wait dev = (\<lambda>(priv, d).
     let (tail, priv1, d1) = read_event_counter dev priv d;
         head = adminq_prod_cnt priv1;
         d2 = gve_adminq_kick_cmd dev head d1;
         (ok, priv3, d3) = gve_adminq_wait_for_cmd dev head (priv1, d2)
     in if \<not> ok
        then (Some ENOTRECOVERABLE, priv3\<lparr>adminq_timeouts := adminq_timeouts priv3 + 1\<rparr>, d3)
        else let (e, priv4) = adminq_check_loop [unat tail ..< unat head] priv3 in (e, priv4, d3))"

definition adminq_count :: "u32 \<Rightarrow> gve_priv \<Rightarrow> gve_priv" where
  "adminq_count opc priv =
     (if opc = GVE_ADMINQ_DESCRIBE_DEVICE
      then priv\<lparr>adminq_describe_device_cnt := adminq_describe_device_cnt priv + 1\<rparr>
      else if opc = GVE_ADMINQ_CONFIGURE_DEVICE_RESOURCES
      then priv\<lparr>adminq_cfg_device_resources_cnt := adminq_cfg_device_resources_cnt priv + 1\<rparr>
      else if opc = GVE_ADMINQ_REGISTER_PAGE_LIST
      then priv\<lparr>adminq_register_page_list_cnt := adminq_register_page_list_cnt priv + 1\<rparr>
      else if opc = GVE_ADMINQ_UNREGISTER_PAGE_LIST
      then priv\<lparr>adminq_unregister_page_list_cnt := adminq_unregister_page_list_cnt priv + 1\<rparr>
      else if opc = GVE_ADMINQ_CREATE_TX_QUEUE
      then priv\<lparr>adminq_create_tx_queue_cnt := adminq_create_tx_queue_cnt priv + 1\<rparr>
      else if opc = GVE_ADMINQ_CREATE_RX_QUEUE
      then priv\<lparr>adminq_create_rx_queue_cnt := adminq_create_rx_queue_cnt priv + 1\<rparr>
      else if opc = GVE_ADMINQ_DESTROY_TX_QUEUE
      then priv\<lparr>adminq_destroy_tx_queue_cnt := adminq_destroy_tx_queue_cnt priv + 1\<rparr>
      else if opc = GVE_ADMINQ_DESTROY_RX_QUEUE
      then priv\<lparr>adminq_destroy_rx_queue_cnt := adminq_destroy_rx_queue_cnt priv + 1\<rparr>
      else if opc = GVE_ADMINQ_DECONFIGURE_DEVICE_RESOURCES
      then priv\<lparr>adminq_dcfg_device_resources_cnt := adminq_dcfg_device_resources_cnt priv + 1\<rparr>
      else if opc = GVE_ADMINQ_SET_DRIVER_PARAMETER
      then priv\<lparr>adminq_set_driver_parameter_cnt := adminq_set_driver_parameter_cnt priv + 1\<rparr>
      else if opc = GVE_ADMINQ_VERIFY_DRIVER_COMPATIBILITY
      then priv\<lparr>adminq_verify_driver_compatibility_cnt := adminq_verify_driver_compatibility_cnt priv + 1\<rparr>
      else if opc = GVE_ADMINQ_GET_PTYPE_MAP
      then priv\<lparr>adminq_get_ptype_map_cnt := adminq_get_ptype_map_cnt priv + 1\<rparr>
      else priv)"

definition adminq_put :: "gve_adminq_command \<Rightarrow> gve_priv \<Rightarrow> gve_priv" where
  "adminq_put cmd priv =
     adminq_count (cmd_opcode cmd)
       (priv\<lparr>adminq := (adminq priv)[unat (adminq_prod_cnt priv AND adminq_mask priv) := cmd],
             adminq_prod_cnt := adminq_prod_cnt priv + 1\<rparr>)"

definition gve_adminq_issue_cmd ::
  "'d aq_device \<Rightarrow> gve_adminq_command \<Rightarrow> gve_priv \<times> 'd \<Rightarrow> err \<times> gve_priv \<times> 'd" where
  "gve_adminq_issue_cmd dev cmd = (\<lambda>(priv, d).
     let (tail, priv1, d1) = read_event_counter dev priv d
     in if adminq_prod_cnt priv1 - tail > adminq_mask priv1
        then case gve_adminq_kick_and_wait dev (priv1, d1) of
               (Some e, s) \<Rightarrow> (Some e, s)
             | (None, priv2, d2) \<Rightarrow>
                 let (tail', priv3, d3) = read_event_counter dev priv2 d2
                 in if adminq_prod_cnt priv3 - tail' > adminq_mask priv3
                    then (Some ENOMEM, priv3, d3)
                    else (None, adminq_put cmd priv3, d3)
        else (None, adminq_put cmd priv1, d1))"

definition gve_adminq_execute_cmd ::
  "'d aq_device \<Rightarrow> gve_adminq_command \<Rightarrow> gve_priv \<times> 'd \<Rightarrow> err \<times> gve_priv \<times> 'd" where
  "gve_adminq_execute_cmd dev cmd = (\<lambda>(priv, d).
     let (tail, priv1, d1) = read_event_counter dev priv d
     in if tail \<noteq> adminq_prod_cnt priv1 then (Some EINVAL, priv1, d1)
        else case gve_adminq_issue_cmd dev cmd (priv1, d1) of
               (Some e, s) \<Rightarrow> (Some e, s)
             | (None, s) \<Rightarrow> gve_adminq_kick_and_wait dev s)"

section \<open>Command builders\<close>

definition mk_cmd :: "u32 \<Rightarrow> gve_adminq_body \<Rightarrow> gve_adminq_command" where
  "mk_cmd opc b = \<lparr>cmd_opcode = opc, cmd_status = 0, cmd_body = b\<rparr>"

definition gve_adminq_destroy_tx_queue :: "'d aq_device \<Rightarrow> nat \<Rightarrow> gve_priv \<times> 'd \<Rightarrow> err \<times> gve_priv \<times> 'd" where
  "gve_adminq_destroy_tx_queue dev i =
     gve_adminq_execute_cmd dev (mk_cmd GVE_ADMINQ_DESTROY_TX_QUEUE (DestroyTxQueue (of_nat i)))"

definition gve_adminq_destroy_rx_queue :: "'d aq_device \<Rightarrow> nat \<Rightarrow> gve_priv \<times> 'd \<Rightarrow> err \<times> gve_priv \<times> 'd" where
  "gve_adminq_destroy_rx_queue dev i =
     gve_adminq_execute_cmd dev (mk_cmd GVE_ADMINQ_DESTROY_RX_QUEUE (DestroyRxQueue (of_nat i)))"

text \<open>
  The loops over the queues, with what the uninitialised local \<open>err\<close> holds as their first
  argument: only the result of the last round is looked at.
\<close>

fun destroy_loop :: "(nat \<Rightarrow> 's \<Rightarrow> err \<times> 's) \<Rightarrow> nat list \<Rightarrow> err \<times> 's \<Rightarrow> err \<times> 's" where
  "destroy_loop destroy [] (e, s) = (e, s)"
| "destroy_loop destroy (i # is) (e, s) = destroy_loop destroy is (destroy i s)"

definition gve_adminq_destroy_rx_queues ::
  "err \<Rightarrow> 'd aq_device \<Rightarrow> nat \<Rightarrow> gve_priv \<times> 'd \<Rightarrow> err \<times> gve_priv \<times> 'd" where
  "gve_adminq_destroy_rx_queues err0 dev n s =
     destroy_loop (gve_adminq_destroy_rx_queue dev) [0..<n] (err0, s)"

definition gve_adminq_destroy_tx_queues ::
  "err \<Rightarrow> 'd aq_device \<Rightarrow> nat \<Rightarrow> gve_priv \<times> 'd \<Rightarrow> err \<times> gve_priv \<times> 'd" where
  "gve_adminq_destroy_tx_queues err0 dev n s =
     destroy_loop (gve_adminq_destroy_tx_queue dev) [0..<n] (err0, s)"

text \<open>\<open>lro\<close> is \<open>IFCAP_LRO\<close> enabled with hardware LRO not disabled; \<open>rings\<close> the rings' addresses.\<close>

definition gve_adminq_create_rx_queue ::
  "'d aq_device \<Rightarrow> bool \<Rightarrow> (nat \<Rightarrow> gve_ring_ctl) \<Rightarrow> nat \<Rightarrow> gve_priv \<times> 'd \<Rightarrow> err \<times> gve_priv \<times> 'd" where
  "gve_adminq_create_rx_queue dev lro rings i = (\<lambda>(priv, d).
     let rx = rings i;
         body =
           (if gve_is_gqi (queue_format priv)
            then CreateRxQueue (of_nat i) (of_nat i) (rc_ntfy_id rx) (rc_q_resources rx)
                   (rc_desc_ring rx) (rc_data_ring rx) (rc_qpl_id rx) (rx_desc_cnt priv)
                   (of_nat GVE_DEFAULT_RX_BUFFER_SIZE) 0 False
            else CreateRxQueue (of_nat i) 0 (rc_ntfy_id rx) (rc_q_resources rx)
                   (rc_compl_ring rx) (rc_desc_ring rx) GVE_RAW_ADDRESSING_QPL_ID (rx_desc_cnt priv)
                   (of_nat GVE_DEFAULT_RX_BUFFER_SIZE) (rx_desc_cnt priv) lro)
     in gve_adminq_execute_cmd dev (mk_cmd GVE_ADMINQ_CREATE_RX_QUEUE body) (priv, d))"

definition gve_adminq_create_tx_queue ::
  "'d aq_device \<Rightarrow> (nat \<Rightarrow> gve_ring_ctl) \<Rightarrow> nat \<Rightarrow> gve_priv \<times> 'd \<Rightarrow> err \<times> gve_priv \<times> 'd" where
  "gve_adminq_create_tx_queue dev rings i = (\<lambda>(priv, d).
     let tx = rings i;
         body =
           (if gve_is_gqi (queue_format priv)
            then CreateTxQueue (of_nat i) (rc_q_resources tx) (rc_desc_ring tx) (rc_qpl_id tx)
                   (rc_ntfy_id tx) 0 (tx_desc_cnt priv) 0
            else CreateTxQueue (of_nat i) (rc_q_resources tx) (rc_desc_ring tx)
                   GVE_RAW_ADDRESSING_QPL_ID (rc_ntfy_id tx) (rc_compl_ring tx) (tx_desc_cnt priv)
                   (tx_desc_cnt priv))
     in gve_adminq_execute_cmd dev (mk_cmd GVE_ADMINQ_CREATE_TX_QUEUE body) (priv, d))"

fun create_loop ::
  "(nat \<Rightarrow> 's \<Rightarrow> err \<times> 's) \<Rightarrow> (nat \<Rightarrow> 's \<Rightarrow> err \<times> 's) \<Rightarrow> nat list \<Rightarrow> 's \<Rightarrow> err \<times> 's" where
  "create_loop create destroy_all [] s = (None, s)"
| "create_loop create destroy_all (i # is) s =
     (case create i s of
        (None, s') \<Rightarrow> create_loop create destroy_all is s'
      | (Some e, s') \<Rightarrow> (Some e, snd (destroy_all i s')))"

definition gve_adminq_create_rx_queues ::
  "err \<Rightarrow> 'd aq_device \<Rightarrow> bool \<Rightarrow> (nat \<Rightarrow> gve_ring_ctl) \<Rightarrow> nat \<Rightarrow> gve_priv \<times> 'd \<Rightarrow> err \<times> gve_priv \<times> 'd" where
  "gve_adminq_create_rx_queues err0 dev lro rings n =
     create_loop (gve_adminq_create_rx_queue dev lro rings) (gve_adminq_destroy_rx_queues err0 dev) [0..<n]"

definition gve_adminq_create_tx_queues ::
  "err \<Rightarrow> 'd aq_device \<Rightarrow> (nat \<Rightarrow> gve_ring_ctl) \<Rightarrow> nat \<Rightarrow> gve_priv \<times> 'd \<Rightarrow> err \<times> gve_priv \<times> 'd" where
  "gve_adminq_create_tx_queues err0 dev rings n =
     create_loop (gve_adminq_create_tx_queue dev rings) (gve_adminq_destroy_tx_queues err0 dev) [0..<n]"

definition gve_adminq_set_mtu :: "'d aq_device \<Rightarrow> u32 \<Rightarrow> gve_priv \<times> 'd \<Rightarrow> err \<times> gve_priv \<times> 'd" where
  "gve_adminq_set_mtu dev mtu =
     gve_adminq_execute_cmd dev
       (mk_cmd GVE_ADMINQ_SET_DRIVER_PARAMETER (SetDriverParameter GVE_SET_PARAM_MTU (ucast mtu)))"

text \<open>\<open>dma\<close> is the outcome of the DMA allocation, \<open>qpl_id\<close> and \<open>pages\<close> the page list's.\<close>

definition gve_adminq_register_page_list ::
  "'d aq_device \<Rightarrow> errno + gve_dma_handle \<Rightarrow> u32 \<Rightarrow> u64 list \<Rightarrow> gve_priv \<times> 'd \<Rightarrow> err \<times> gve_priv \<times> 'd" where
  "gve_adminq_register_page_list dev dma qpl_id pages s =
     (case dma of
        Inl _ \<Rightarrow> (Some ENOMEM, s)
      | Inr h \<Rightarrow> gve_adminq_execute_cmd dev
          (mk_cmd GVE_ADMINQ_REGISTER_PAGE_LIST
             (RegisterPageList qpl_id (of_nat (length pages)) (bus_addr h) (of_nat PAGE_SIZE))) s)"

definition gve_adminq_unregister_page_list :: "'d aq_device \<Rightarrow> u32 \<Rightarrow> gve_priv \<times> 'd \<Rightarrow> err \<times> gve_priv \<times> 'd" where
  "gve_adminq_unregister_page_list dev page_list_id =
     gve_adminq_execute_cmd dev
       (mk_cmd GVE_ADMINQ_UNREGISTER_PAGE_LIST (UnregisterPageList page_list_id))"

text \<open>\<open>sizeof(struct gve_irq_db)\<close> is a cache line.\<close>

definition gve_adminq_configure_device_resources :: "'d aq_device \<Rightarrow> gve_priv \<times> 'd \<Rightarrow> err \<times> gve_priv \<times> 'd" where
  "gve_adminq_configure_device_resources dev = (\<lambda>(priv, d).
     gve_adminq_execute_cmd dev
       (mk_cmd GVE_ADMINQ_CONFIGURE_DEVICE_RESOURCES
          (ConfigureDeviceResources (counter_array_mem priv) (irqs_db_mem priv)
             (ucast (num_event_counters priv)) (num_queues priv) (of_nat CACHE_LINE_SIZE)
             GVE_NTFY_BLK_BASE_MSIX_IDX (queue_format priv))) (priv, d))"

definition gve_adminq_deconfigure_device_resources :: "'d aq_device \<Rightarrow> gve_priv \<times> 'd \<Rightarrow> err \<times> gve_priv \<times> 'd" where
  "gve_adminq_deconfigure_device_resources dev =
     gve_adminq_execute_cmd dev (mk_cmd GVE_ADMINQ_DECONFIGURE_DEVICE_RESOURCES NoBody)"

definition gve_adminq_verify_driver_compatibility ::
  "'d aq_device \<Rightarrow> u64 \<Rightarrow> u64 \<Rightarrow> gve_priv \<times> 'd \<Rightarrow> err \<times> gve_priv \<times> 'd" where
  "gve_adminq_verify_driver_compatibility dev driver_info_len driver_info_addr =
     gve_adminq_execute_cmd dev
       (mk_cmd GVE_ADMINQ_VERIFY_DRIVER_COMPATIBILITY
          (VerifyDriverCompatibility driver_info_len driver_info_addr))"

text \<open>The lookup table: pairs of layer 3 and layer 4 types, copied out of the DMA buffer.\<close>

definition gve_adminq_get_ptype_map_dqo ::
  "'d aq_device \<Rightarrow> errno + gve_dma_handle \<Rightarrow> (u8 \<times> u8) list \<Rightarrow> gve_priv \<times> 'd
     \<Rightarrow> err \<times> (u8 \<times> u8) list \<times> gve_priv \<times> 'd" where
  "gve_adminq_get_ptype_map_dqo dev dma lut s =
     (case dma of
        Inl e \<Rightarrow> (Some e, lut, s)
      | Inr h \<Rightarrow>
          (case gve_adminq_execute_cmd dev (mk_cmd GVE_ADMINQ_GET_PTYPE_MAP
                  (GetPtypeMap (of_nat (2 * GVE_NUM_PTYPES)) (bus_addr h))) s of
             (Some e, s') \<Rightarrow> (Some e, lut, s')
           | (None, priv, d) \<Rightarrow>
               let buf = dev_buffer dev d (bus_addr h)
               in (None, map (\<lambda>i. (buf ! (2 * i), buf ! (2 * i + 1))) [0..<GVE_NUM_PTYPES], priv, d)))"

section \<open>Setting up and releasing the queue\<close>

text \<open>A fresh DMA area is zeroed.\<close>

definition zero_cmd :: gve_adminq_command where
  "zero_cmd = \<lparr>cmd_opcode = 0, cmd_status = 0, cmd_body = NoBody\<rparr>"

definition gve_adminq_alloc ::
  "'d aq_device \<Rightarrow> errno + gve_dma_handle \<Rightarrow> gve_priv \<times> 'd \<Rightarrow> err \<times> gve_priv \<times> 'd" where
  "gve_adminq_alloc dev dma = (\<lambda>(priv, d).
     if gve_get_state_flag priv GVE_STATE_FLAG_ADMINQ_OK then (None, priv, d)
     else
       case (case aq_mem priv of
               Some h \<Rightarrow> Inr (h, adminq priv)
             | None \<Rightarrow> (case dma of Inl e \<Rightarrow> Inl e | Inr h \<Rightarrow> Inr (h, replicate ADMINQ_SLOTS zero_cmd))) of
         Inl e \<Rightarrow> (Some e, priv, d)
       | Inr (h, q) \<Rightarrow>
           let priv1 = priv\<lparr>aq_mem := Some h, adminq := q, adminq_bus_addr := bus_addr h,
                 adminq_mask := of_nat ADMINQ_SLOTS - 1, adminq_prod_cnt := 0, adminq_cmd_fail := 0,
                 adminq_timeouts := 0, adminq_describe_device_cnt := 0,
                 adminq_cfg_device_resources_cnt := 0, adminq_register_page_list_cnt := 0,
                 adminq_unregister_page_list_cnt := 0, adminq_create_tx_queue_cnt := 0,
                 adminq_create_rx_queue_cnt := 0, adminq_destroy_tx_queue_cnt := 0,
                 adminq_destroy_rx_queue_cnt := 0, adminq_dcfg_device_resources_cnt := 0,
                 adminq_set_driver_parameter_cnt := 0, adminq_get_ptype_map_cnt := 0\<rparr>;
               d1 = dev_set_aq_pfn dev (ucast (bus_addr h div of_nat ADMINQ_SIZE)) d
           in (None, gve_set_state_flag priv1 GVE_STATE_FLAG_ADMINQ_OK, d1))"

text \<open>
  The release polls a register until the device has let go, without a bound: \<open>None\<close> when \<open>fuel\<close>
  polls were not enough.
\<close>

fun release_wait :: "nat \<Rightarrow> 'd aq_device \<Rightarrow> 'd \<Rightarrow> 'd option" where
  "release_wait 0 dev d = None"
| "release_wait (Suc n) dev d =
     (case dev_aq_pfn dev d of (v, d') \<Rightarrow> if v = 0 then Some d' else release_wait n dev d')"

definition gve_release_adminq :: "nat \<Rightarrow> 'd aq_device \<Rightarrow> gve_priv \<times> 'd \<Rightarrow> (gve_priv \<times> 'd) option" where
  "gve_release_adminq fuel dev = (\<lambda>(priv, d).
     if \<not> gve_get_state_flag priv GVE_STATE_FLAG_ADMINQ_OK then Some (priv, d)
     else do {
       d' \<leftarrow> release_wait fuel dev (dev_set_aq_pfn dev 0 d);
       Some (gve_clear_state_flag (priv\<lparr>aq_mem := None, adminq := [], adminq_bus_addr := 0\<rparr>)
               GVE_STATE_FLAG_ADMINQ_OK, d') })"


section \<open>The device descriptor\<close>

text \<open>
  The descriptor is read out of a DMA buffer byte by byte, big-endian; a read past the end of the
  buffer is \<open>None\<close>. Pointers into the buffer are offsets.
\<close>

definition be16_at :: "u8 list \<Rightarrow> nat \<Rightarrow> nat option" where
  "be16_at buf off = (if off + 2 \<le> length buf
     then Some (unat (buf ! off) * 256 + unat (buf ! (off + 1))) else None)"

definition be32_at :: "u8 list \<Rightarrow> nat \<Rightarrow> nat option" where
  "be32_at buf off = do { hi \<leftarrow> be16_at buf off; lo \<leftarrow> be16_at buf (off + 2); Some (hi * 65536 + lo) }"

definition be64_at :: "u8 list \<Rightarrow> nat \<Rightarrow> nat option" where
  "be64_at buf off = do { hi \<leftarrow> be32_at buf off; lo \<leftarrow> be32_at buf (off + 4); Some (hi * 2 ^ 32 + lo) }"

definition GVE_DEV_OPT_ID_GQI_QPL :: nat where "GVE_DEV_OPT_ID_GQI_QPL = 3"
definition GVE_DEV_OPT_ID_DQO_RDA :: nat where "GVE_DEV_OPT_ID_DQO_RDA = 4"
definition GVE_DEV_OPT_ID_MODIFY_RING :: nat where "GVE_DEV_OPT_ID_MODIFY_RING = 6"
definition GVE_DEV_OPT_ID_DQO_QPL :: nat where "GVE_DEV_OPT_ID_DQO_QPL = 7"
definition GVE_DEV_OPT_ID_JUMBO_FRAMES :: nat where "GVE_DEV_OPT_ID_JUMBO_FRAMES = 8"
definition GVE_SUP_MODIFY_RING_MASK :: nat where "GVE_SUP_MODIFY_RING_MASK = 1"
definition GVE_SUP_JUMBO_FRAMES_MASK :: nat where "GVE_SUP_JUMBO_FRAMES_MASK = 4"

text \<open>Sizes of the packed structures; every required feature mask is 0.\<close>

definition DEVICE_DESCRIPTOR_SIZE :: nat where "DEVICE_DESCRIPTOR_SIZE = 40"
definition DEVICE_OPTION_SIZE :: nat where "DEVICE_OPTION_SIZE = 8"
definition GQI_QPL_SIZE :: nat where "GQI_QPL_SIZE = 4"
definition DQO_RDA_SIZE :: nat where "DQO_RDA_SIZE = 8"
definition DQO_QPL_SIZE :: nat where "DQO_QPL_SIZE = 8"
definition MODIFY_RING_SIZE :: nat where "MODIFY_RING_SIZE = 12"
definition RING_SIZE_BOUND_SIZE :: nat where "RING_SIZE_BOUND_SIZE = 4"
definition JUMBO_FRAMES_SIZE :: nat where "JUMBO_FRAMES_SIZE = 8"

text \<open>The five option pointers, and the minimum ring sizes \<open>gve_parse_device_option\<close> may set.\<close>

record dev_ops =
  dev_op_gqi_qpl :: "nat option"
  dev_op_dqo_rda :: "nat option"
  dev_op_dqo_qpl :: "nat option"
  dev_op_modify_ring :: "nat option"
  dev_op_jumbo_frames :: "nat option"
  op_min_rx :: nat
  op_min_tx :: nat

definition gve_parse_device_option :: "u8 list \<Rightarrow> nat \<Rightarrow> dev_ops \<Rightarrow> dev_ops option" where
  "gve_parse_device_option buf opt ops = do {
     option_id \<leftarrow> be16_at buf opt;
     option_length \<leftarrow> be16_at buf (opt + 2);
     req_feat_mask \<leftarrow> be32_at buf (opt + 4);
     let body = opt + DEVICE_OPTION_SIZE;
     if option_id = GVE_DEV_OPT_ID_GQI_QPL then
       Some (if option_length < GQI_QPL_SIZE \<or> req_feat_mask \<noteq> 0 then ops
             else ops\<lparr>dev_op_gqi_qpl := Some body\<rparr>)
     else if option_id = GVE_DEV_OPT_ID_DQO_RDA then
       Some (if option_length < DQO_RDA_SIZE \<or> req_feat_mask \<noteq> 0 then ops
             else ops\<lparr>dev_op_dqo_rda := Some body\<rparr>)
     else if option_id = GVE_DEV_OPT_ID_DQO_QPL then
       Some (if option_length < DQO_QPL_SIZE \<or> req_feat_mask \<noteq> 0 then ops
             else ops\<lparr>dev_op_dqo_qpl := Some body\<rparr>)
     else if option_id = GVE_DEV_OPT_ID_MODIFY_RING then
       (if option_length < MODIFY_RING_SIZE - RING_SIZE_BOUND_SIZE \<or> req_feat_mask \<noteq> 0 then Some ops
        else if option_length = MODIFY_RING_SIZE then do {
          rx \<leftarrow> be16_at buf (body + 8);
          tx \<leftarrow> be16_at buf (body + 10);
          Some (ops\<lparr>dev_op_modify_ring := Some body,
                    op_min_rx := max rx GVE_DEFAULT_MIN_RX_RING_SIZE,
                    op_min_tx := max tx GVE_DEFAULT_MIN_TX_RING_SIZE\<rparr>) }
        else Some (ops\<lparr>dev_op_modify_ring := Some body\<rparr>))
     else if option_id = GVE_DEV_OPT_ID_JUMBO_FRAMES then
       Some (if option_length < JUMBO_FRAMES_SIZE \<or> req_feat_mask \<noteq> 0 then ops
             else ops\<lparr>dev_op_jumbo_frames := Some body\<rparr>)
     else Some ops }"

fun device_options_loop :: "nat \<Rightarrow> u8 list \<Rightarrow> nat \<Rightarrow> nat \<Rightarrow> dev_ops \<Rightarrow> (err \<times> dev_ops) option" where
  "device_options_loop 0 buf desc_end opt ops = Some (None, ops)"
| "device_options_loop (Suc n) buf desc_end opt ops =
     (if opt + DEVICE_OPTION_SIZE > desc_end then Some (Some EINVAL, ops)
      else do {
        option_length \<leftarrow> be16_at buf (opt + 2);
        if opt + DEVICE_OPTION_SIZE + option_length > desc_end then Some (Some EINVAL, ops)
        else do {
          ops' \<leftarrow> gve_parse_device_option buf opt ops;
          device_options_loop n buf desc_end (opt + DEVICE_OPTION_SIZE + option_length) ops' } })"

definition gve_process_device_options :: "u8 list \<Rightarrow> dev_ops \<Rightarrow> (err \<times> dev_ops) option" where
  "gve_process_device_options buf ops = do {
     desc_end \<leftarrow> be16_at buf 32;
     num_options \<leftarrow> be16_at buf 30;
     device_options_loop num_options buf desc_end DEVICE_DESCRIPTOR_SIZE ops }"

definition gve_enable_supported_features ::
  "u8 list \<Rightarrow> nat \<Rightarrow> nat option \<Rightarrow> nat option \<Rightarrow> gve_priv \<Rightarrow> gve_priv option" where
  "gve_enable_supported_features buf sup_mask modify_ring jumbo_frames priv = do {
     priv1 \<leftarrow> (case modify_ring of
        Some p \<Rightarrow> if sup_mask AND GVE_SUP_MODIFY_RING_MASK \<noteq> 0 then do {
            rx \<leftarrow> be16_at buf (p + 4); tx \<leftarrow> be16_at buf (p + 6);
            Some (priv\<lparr>modify_ringsize_enabled := True, max_rx_desc_cnt := of_nat rx,
                       max_tx_desc_cnt := of_nat tx\<rparr>) } else Some priv
      | None \<Rightarrow> Some priv);
     case jumbo_frames of
        Some p \<Rightarrow> if sup_mask AND GVE_SUP_JUMBO_FRAMES_MASK \<noteq> 0 then do {
            m \<leftarrow> be16_at buf (p + 4); Some (priv1\<lparr>max_mtu := of_nat m\<rparr>) } else Some priv1
      | None \<Rightarrow> Some priv1 }"

definition select_queue_format ::
  "u8 list \<Rightarrow> dev_ops \<Rightarrow> (gve_queue_format \<times> nat) option option" where
  "select_queue_format buf ops =
     (case dev_op_dqo_rda ops of
        Some p \<Rightarrow> do { m \<leftarrow> be32_at buf p; Some (Some (GVE_DQO_RDA_FORMAT, m)) }
      | None \<Rightarrow> (case dev_op_dqo_qpl ops of
        Some p \<Rightarrow> do { m \<leftarrow> be32_at buf p; Some (Some (GVE_DQO_QPL_FORMAT, m)) }
      | None \<Rightarrow> (case dev_op_gqi_qpl ops of
        Some p \<Rightarrow> do { m \<leftarrow> be32_at buf p; Some (Some (GVE_GQI_QPL_FORMAT, m)) }
      | None \<Rightarrow> Some None)))"

definition no_ops :: dev_ops where
  "no_ops = \<lparr>dev_op_gqi_qpl = None, dev_op_dqo_rda = None, dev_op_dqo_qpl = None,
     dev_op_modify_ring = None, dev_op_jumbo_frames = None,
     op_min_rx = GVE_DEFAULT_MIN_RX_RING_SIZE, op_min_tx = GVE_DEFAULT_MIN_TX_RING_SIZE\<rparr>"

text \<open>The part of \<open>gve_adminq_describe_device\<close> that reads the descriptor the device has written.\<close>

definition describe_device_parse :: "u8 list \<Rightarrow> gve_priv \<Rightarrow> (err \<times> gve_priv) option" where
  "describe_device_parse buf priv = do {
     (e, ops) \<leftarrow> gve_process_device_options buf no_ops;
     let priv1 = priv\<lparr>min_rx_desc_cnt := of_nat (op_min_rx ops), min_tx_desc_cnt := of_nat (op_min_tx ops)\<rparr>;
     if e \<noteq> None then Some (e, priv1) else do {
       fmt \<leftarrow> select_queue_format buf ops;
       case fmt of
         None \<Rightarrow> Some (Some EINVAL, priv1)
       | Some (qf, sup_mask) \<Rightarrow> do {
           counters \<leftarrow> be16_at buf 18;
           nq \<leftarrow> be16_at buf 14;
           tx_entries \<leftarrow> be16_at buf 10;
           rx_entries \<leftarrow> be16_at buf 12;
           pages \<leftarrow> be16_at buf 22;
           max_pages \<leftarrow> be64_at buf 0;
           mtu \<leftarrow> be16_at buf 16;
           priv2 \<leftarrow> gve_enable_supported_features buf sup_mask (dev_op_modify_ring ops) (dev_op_jumbo_frames ops)
             (priv1\<lparr>queue_format := qf, num_event_counters := of_nat counters,
                default_num_queues := of_nat nq, tx_desc_cnt := of_nat tx_entries,
                rx_desc_cnt := of_nat rx_entries, rx_pages_per_qpl := of_nat pages,
                max_registered_pages := of_nat max_pages, max_mtu := of_nat mtu,
                supported_features := of_nat sup_mask, max_rx_desc_cnt := of_nat rx_entries,
                max_tx_desc_cnt := of_nat tx_entries\<rparr>);
           if 30 \<le> length buf then Some (None, priv2\<lparr>mac := slice buf 24 6\<rparr>) else None } } }"

definition gve_adminq_describe_device ::
  "'d aq_device \<Rightarrow> errno + gve_dma_handle \<Rightarrow> gve_priv \<times> 'd \<Rightarrow> (err \<times> gve_priv \<times> 'd) option" where
  "gve_adminq_describe_device dev dma s =
     (case dma of
        Inl e \<Rightarrow> Some (Some e, s)
      | Inr h \<Rightarrow>
          (case gve_adminq_execute_cmd dev (mk_cmd GVE_ADMINQ_DESCRIBE_DEVICE
                  (DescribeDevice (bus_addr h) GVE_ADMINQ_DEVICE_DESCRIPTOR_VERSION (of_nat ADMINQ_SIZE))) s of
             (Some e, s') \<Rightarrow> Some (Some e, s')
           | (None, priv, d) \<Rightarrow> do {
               (e, priv') \<leftarrow> describe_device_parse (dev_buffer dev d (bus_addr h)) priv;
               Some (e, priv', d) }))"

end
