(* ===== verification/Gve_Adminq_Inv.thy ===== *)
theory Gve_Adminq_Inv
  imports Gve_Adminq
begin

text \<open>
  Properties of the admin queue: one command against a device that follows the protocol, the
  bounds of the descriptor parser and what it makes of a serialised option list, and the rollback
  of queue creation, proved once for both directions in the locale \<open>queue_loops\<close>.
\<close>

section \<open>Executing one command\<close>

text \<open>
  The protocol a device follows: idle, it shows the number of commands it has executed and touches
  nothing; after the doorbell it shows the old count for a while and then, with the status of the
  command written, the new one.
\<close>

definition aq_idle :: "'d aq_device \<Rightarrow> u32 \<Rightarrow> 'd \<Rightarrow> bool" where
  "aq_idle dev c d \<longleftrightarrow> (\<forall>q. dev_event_counter dev d q = (c, q, d))"

inductive aq_busy ::
  "'d aq_device \<Rightarrow> u32 \<Rightarrow> nat \<Rightarrow> u32 \<Rightarrow> gve_adminq_command list \<Rightarrow> 'd \<Rightarrow> nat \<Rightarrow> 'd \<Rightarrow> bool" where
  aq_completes: "aq_idle dev (c + 1) d' \<Longrightarrow>
    dev_event_counter dev d q = (c + 1, q[i := (q ! i)\<lparr>cmd_status := st\<rparr>], d') \<Longrightarrow>
    aq_busy dev c i st q d 0 d'"
| aq_working: "dev_event_counter dev d q = (c, q, d1) \<Longrightarrow> aq_busy dev c i st q d1 n d' \<Longrightarrow>
    aq_busy dev c i st q d (Suc n) d'"

definition aq_wf :: "gve_priv \<Rightarrow> bool" where
  "aq_wf priv \<longleftrightarrow> length (adminq priv) = ADMINQ_SLOTS \<and> adminq_mask priv = of_nat ADMINQ_SLOTS - 1"

lemma adminq_mask_63: "of_nat ADMINQ_SLOTS - 1 = (mask 6 :: u32)"
  by (simp add: ADMINQ_SLOTS_def ADMINQ_SIZE_def PAGE_SIZE_def mask_eq_exp_minus_1)

lemma aq_slot_less: "aq_wf priv \<Longrightarrow> unat (x AND adminq_mask priv) < length (adminq priv)"
proof -
  assume "aq_wf priv"
  then have m: "adminq_mask priv = mask 6" "length (adminq priv) = 2 ^ 6"
    unfolding aq_wf_def adminq_mask_63 by (simp_all add: ADMINQ_SLOTS_def ADMINQ_SIZE_def PAGE_SIZE_def)
  then show ?thesis unfolding m by (intro and_mask_bound) (simp add: ring_mask_def)
qed

definition set_status :: "nat \<Rightarrow> u32 \<Rightarrow> gve_priv \<Rightarrow> gve_priv" where
  "set_status i st priv = priv\<lparr>adminq := (adminq priv)[i := (adminq priv ! i)\<lparr>cmd_status := st\<rparr>]\<rparr>"

lemma wait_completes:
  assumes "aq_busy dev c i st (adminq priv) d r d'"
  shows "r < n \<Longrightarrow> adminq_wait_loop n dev (c + 1) (priv, d) = (True, set_status i st priv, d')"
    and "n \<le> r \<Longrightarrow> fst (adminq_wait_loop n dev (c + 1) (priv, d)) = False \<and>
           fst (snd (adminq_wait_loop n dev (c + 1) (priv, d))) = priv"
  using assms
proof (induction dev c i st "adminq priv" d r d' arbitrary: n)
  case (aq_completes dev c d' d i st)
  { case 1 then show ?case using aq_completes
      by (cases n) (simp_all add: read_event_counter_def set_status_def) }
  { case 2 then show ?case by simp }
next
  case (aq_working dev d c d1 i st k d')
  have ne: "c \<noteq> c + 1" by simp
  { case 1 then show ?case using aq_working ne
      by (cases n) (simp_all add: read_event_counter_def) }
  { case 2 then show ?case using aq_working ne
      by (cases n) (simp_all add: read_event_counter_def) }
qed

lemma adminq_count_sel [simp]:
  "adminq (adminq_count opc priv) = adminq priv" "adminq_mask (adminq_count opc priv) = adminq_mask priv"
  "adminq_prod_cnt (adminq_count opc priv) = adminq_prod_cnt priv"
  "adminq_cmd_fail (adminq_count opc priv) = adminq_cmd_fail priv"
  "adminq_timeouts (adminq_count opc priv) = adminq_timeouts priv"
  "state_flags (adminq_count opc priv) = state_flags priv"
  "queue_format (adminq_count opc priv) = queue_format priv"
  by (simp_all add: adminq_count_def)

lemma adminq_put_sel [simp]:
  "adminq (adminq_put cmd priv) = (adminq priv)[unat (adminq_prod_cnt priv AND adminq_mask priv) := cmd]"
  "adminq_mask (adminq_put cmd priv) = adminq_mask priv"
  "adminq_prod_cnt (adminq_put cmd priv) = adminq_prod_cnt priv + 1"
  "adminq_cmd_fail (adminq_put cmd priv) = adminq_cmd_fail priv"
  "adminq_timeouts (adminq_put cmd priv) = adminq_timeouts priv"
  by (simp_all add: adminq_put_def)

lemma set_status_sel [simp]:
  "adminq_mask (set_status i st priv) = adminq_mask priv"
  "adminq_prod_cnt (set_status i st priv) = adminq_prod_cnt priv"
  "length (adminq (set_status i st priv)) = length (adminq priv)"
  by (simp_all add: set_status_def)

lemma parse_err_sel [simp]:
  "adminq (snd (gve_adminq_parse_err priv st)) = adminq priv"
  "adminq_mask (snd (gve_adminq_parse_err priv st)) = adminq_mask priv"
  "adminq_prod_cnt (snd (gve_adminq_parse_err priv st)) = adminq_prod_cnt priv"
  by (simp_all add: gve_adminq_parse_err_def Let_def)

lemma idle_read: "aq_idle dev c d \<Longrightarrow> read_event_counter dev priv d = (c, priv, d)"
  by (simp add: aq_idle_def read_event_counter_def)

lemma issue_idle:
  assumes "aq_idle dev (adminq_prod_cnt priv) d"
  shows "gve_adminq_issue_cmd dev cmd (priv, d) = (None, adminq_put cmd priv, d)"
  by (simp add: gve_adminq_issue_cmd_def idle_read [OF assms])

lemma parse_err_None:
  "fst (gve_adminq_parse_err priv st) = None \<longleftrightarrow> st = GVE_ADMINQ_COMMAND_PASSED"
  by (auto simp: gve_adminq_parse_err_def Let_def aq_status_defs)

lemma parse_err_pair:
  "gve_adminq_parse_err priv st = (fst (gve_adminq_parse_err priv st), snd (gve_adminq_parse_err priv st))"
  by simp

lemma execute_cmd_effect:
  fixes cmd :: gve_adminq_command
  assumes idle: "aq_idle dev (adminq_prod_cnt priv) d" and wf: "aq_wf priv"
    and nowrap: "adminq_prod_cnt priv + 1 \<noteq> 0"
    and busy: "aq_busy dev (adminq_prod_cnt priv) (unat (adminq_prod_cnt priv AND adminq_mask priv)) st
      (adminq (adminq_put cmd priv)) (dev_doorbell dev (adminq_prod_cnt priv + 1) d) r d'"
  defines "priv1 \<equiv> adminq_put cmd priv" and "i \<equiv> unat (adminq_prod_cnt priv AND adminq_mask priv)"
  shows "r < GVE_MAX_ADMINQ_EVENT_COUNTER_CHECK \<Longrightarrow>
      gve_adminq_execute_cmd dev cmd (priv, d) =
        (fst (gve_adminq_parse_err (set_status i st priv1) st), snd (gve_adminq_parse_err (set_status i st priv1) st), d')"
    and "GVE_MAX_ADMINQ_EVENT_COUNTER_CHECK \<le> r \<Longrightarrow>
      \<exists>d''. gve_adminq_execute_cmd dev cmd (priv, d) =
        (Some ENOTRECOVERABLE, priv1\<lparr>adminq_timeouts := adminq_timeouts priv + 1\<rparr>, d'')"
proof -
  let ?c = "adminq_prod_cnt priv"
  have il: "i < length (adminq priv)" using aq_slot_less [OF wf] by (simp add: i_def)
  have rng: "[unat ?c ..< unat (?c + 1)] = [unat ?c]"
    using nowrap unatSuc [of ?c] by (simp add: add.commute)
  note W = wait_completes [OF busy, folded i_def priv1_def]
  have kw: "gve_adminq_kick_and_wait dev (priv1, d) =
     (let (ok, priv3, d3) = adminq_wait_loop GVE_MAX_ADMINQ_EVENT_COUNTER_CHECK dev (?c + 1)
            (priv1, dev_doorbell dev (?c + 1) d)
      in if \<not> ok then (Some ENOTRECOVERABLE, priv3\<lparr>adminq_timeouts := adminq_timeouts priv3 + 1\<rparr>, d3)
         else let (e, priv4) = adminq_check_loop [unat ?c] priv3 in (e, priv4, d3))"
    using idle_read [OF idle, of priv1] rng
    by (simp add: gve_adminq_kick_and_wait_def gve_adminq_kick_cmd_def gve_adminq_wait_for_cmd_def priv1_def Let_def split_beta)
  have ex: "gve_adminq_execute_cmd dev cmd (priv, d) = gve_adminq_kick_and_wait dev (priv1, d)"
    by (simp add: gve_adminq_execute_cmd_def idle_read [OF idle] issue_idle [OF idle] priv1_def)
  have slot: "unat ((of_nat (unat ?c) :: u32) AND adminq_mask priv) = i" by (simp add: i_def)
  have st: "cmd_status (adminq (set_status i st priv1) ! i) = st"
    using il by (simp add: set_status_def priv1_def)
  show "gve_adminq_execute_cmd dev cmd (priv, d) =
      (fst (gve_adminq_parse_err (set_status i st priv1) st), snd (gve_adminq_parse_err (set_status i st priv1) st), d')"
    if "r < GVE_MAX_ADMINQ_EVENT_COUNTER_CHECK"
    using W(1) [OF that] slot st unfolding ex kw
    by (simp add: Let_def priv1_def split: prod.splits option.splits)
  show "\<exists>d''. gve_adminq_execute_cmd dev cmd (priv, d) =
      (Some ENOTRECOVERABLE, priv1\<lparr>adminq_timeouts := adminq_timeouts priv + 1\<rparr>, d'')"
    if "GVE_MAX_ADMINQ_EVENT_COUNTER_CHECK \<le> r"
    using W(2) [OF that] unfolding ex kw by (auto simp: Let_def priv1_def split: prod.splits)
qed


section \<open>Parsing the descriptor\<close>

lemma be16_at_Some: "off + 2 \<le> length buf \<Longrightarrow> \<exists>v. be16_at buf off = Some v \<and> v < 2 ^ 16"
proof -
  assume "off + 2 \<le> length buf"
  moreover have "unat (buf ! off) * 256 + unat (buf ! (off + 1)) < 2 ^ 16"
    using unsigned_less [of "buf ! off", where 'a = nat] unsigned_less [of "buf ! (off + 1)", where 'a = nat] by simp
  ultimately show ?thesis by (simp add: be16_at_def)
qed

lemma be32_at_Some: "off + 4 \<le> length buf \<Longrightarrow> \<exists>v. be32_at buf off = Some v"
  using be16_at_Some [of off buf] be16_at_Some [of "off + 2" buf] by (auto simp: be32_at_def)

lemma be64_at_Some: "off + 8 \<le> length buf \<Longrightarrow> \<exists>v. be64_at buf off = Some v"
  using be32_at_Some [of off buf] be32_at_Some [of "off + 4" buf] by (auto simp: be64_at_def)

text \<open>Accepted options lie below \<open>fin\<close> with all the fields that are read later.\<close>

definition ptr_in :: "nat \<Rightarrow> nat \<Rightarrow> nat option \<Rightarrow> bool" where
  "ptr_in fin n p \<longleftrightarrow> (case p of None \<Rightarrow> True | Some a \<Rightarrow> DEVICE_DESCRIPTOR_SIZE + DEVICE_OPTION_SIZE \<le> a \<and> a + n \<le> fin)"

definition ops_in :: "nat \<Rightarrow> dev_ops \<Rightarrow> bool" where
  "ops_in fin ops \<longleftrightarrow> ptr_in fin GQI_QPL_SIZE (dev_op_gqi_qpl ops) \<and> ptr_in fin DQO_RDA_SIZE (dev_op_dqo_rda ops) \<and>
     ptr_in fin DQO_QPL_SIZE (dev_op_dqo_qpl ops) \<and>
     ptr_in fin (MODIFY_RING_SIZE - RING_SIZE_BOUND_SIZE) (dev_op_modify_ring ops) \<and>
     ptr_in fin JUMBO_FRAMES_SIZE (dev_op_jumbo_frames ops) \<and>
     GVE_DEFAULT_MIN_RX_RING_SIZE \<le> op_min_rx ops \<and> op_min_rx ops < 2 ^ 16 \<and>
     GVE_DEFAULT_MIN_TX_RING_SIZE \<le> op_min_tx ops \<and> op_min_tx ops < 2 ^ 16"

lemmas opt_size_defs = DEVICE_DESCRIPTOR_SIZE_def DEVICE_OPTION_SIZE_def GQI_QPL_SIZE_def DQO_RDA_SIZE_def
  DQO_QPL_SIZE_def MODIFY_RING_SIZE_def RING_SIZE_BOUND_SIZE_def JUMBO_FRAMES_SIZE_def

lemma parse_option_safe:
  assumes "opt + DEVICE_OPTION_SIZE + len \<le> fin" and "fin \<le> length buf"
    and "be16_at buf (opt + 2) = Some len" and "DEVICE_DESCRIPTOR_SIZE \<le> opt" and "ops_in fin ops"
  shows "\<exists>ops'. gve_parse_device_option buf opt ops = Some ops' \<and> ops_in fin ops'"
proof -
  obtain oid where i: "be16_at buf opt = Some oid"
    using be16_at_Some [of opt buf] assms(1,2) by (auto simp: opt_size_defs)
  obtain fm where m: "be32_at buf (opt + 4) = Some fm"
    using be32_at_Some [of "opt + 4" buf] assms(1,2) by (auto simp: opt_size_defs)
  have b: "len = MODIFY_RING_SIZE \<Longrightarrow> \<exists>rx tx. be16_at buf (opt + DEVICE_OPTION_SIZE + 8) = Some rx \<and> rx < 2 ^ 16 \<and>
      be16_at buf (opt + DEVICE_OPTION_SIZE + 10) = Some tx \<and> tx < 2 ^ 16"
    using be16_at_Some [of "opt + DEVICE_OPTION_SIZE + 8" buf] be16_at_Some [of "opt + DEVICE_OPTION_SIZE + 10" buf]
      assms(1,2) by (auto simp: opt_size_defs)
  show ?thesis
    using i m b assms
    by (auto simp: gve_parse_device_option_def Let_def ops_in_def ptr_in_def opt_size_defs
        GVE_DEFAULT_MIN_RX_RING_SIZE_def GVE_DEFAULT_MIN_TX_RING_SIZE_def)
qed

lemma options_loop_safe:
  assumes "fin \<le> length buf" and "DEVICE_DESCRIPTOR_SIZE \<le> opt" and "ops_in fin ops"
  shows "\<exists>e ops'. device_options_loop n buf fin opt ops = Some (e, ops') \<and> ops_in fin ops' \<and>
    (e = None \<or> e = Some EINVAL)"
  using assms(2,3)
proof (induction n arbitrary: opt ops)
  case 0
  then show ?case by simp
next
  case (Suc n)
  show ?case
  proof (cases "opt + DEVICE_OPTION_SIZE \<le> fin")
    case False
    then show ?thesis using Suc.prems by simp
  next
    case True
    then obtain len where l: "be16_at buf (opt + 2) = Some len"
      using be16_at_Some [of "opt + 2" buf] assms(1) by (auto simp: opt_size_defs)
    show ?thesis
    proof (cases "opt + DEVICE_OPTION_SIZE + len \<le> fin")
      case False
      then show ?thesis using True l Suc.prems by simp
    next
      case in_fin: True
      then obtain ops' where "gve_parse_device_option buf opt ops = Some ops'" "ops_in fin ops'"
        using parse_option_safe [OF _ assms(1) l] Suc.prems by blast
      then show ?thesis using Suc.IH [of "opt + DEVICE_OPTION_SIZE + len" ops'] in_fin l Suc.prems True by simp
    qed
  qed
qed

lemma no_ops_in: "ops_in fin no_ops"
  by (simp add: ops_in_def no_ops_def ptr_in_def GVE_DEFAULT_MIN_RX_RING_SIZE_def GVE_DEFAULT_MIN_TX_RING_SIZE_def)

lemma ptr_in_read16: "ptr_in fin n (Some p) \<Longrightarrow> fin \<le> length buf \<Longrightarrow> k + 2 \<le> n \<Longrightarrow> \<exists>v. be16_at buf (p + k) = Some v \<and> v < 2 ^ 16"
  using be16_at_Some [of "p + k" buf] by (simp add: ptr_in_def)

lemma ptr_in_read32: "ptr_in fin n (Some p) \<Longrightarrow> fin \<le> length buf \<Longrightarrow> 4 \<le> n \<Longrightarrow> \<exists>v. be32_at buf p = Some v"
  using be32_at_Some [of p buf] by (simp add: ptr_in_def)

lemma enable_features_safe:
  assumes "ops_in fin ops" and "fin \<le> length buf"
  shows "\<exists>priv'. gve_enable_supported_features buf m (dev_op_modify_ring ops) (dev_op_jumbo_frames ops) priv = Some priv' \<and>
    min_rx_desc_cnt priv' = min_rx_desc_cnt priv \<and> min_tx_desc_cnt priv' = min_tx_desc_cnt priv \<and>
    queue_format priv' = queue_format priv"
proof -
  have "dev_op_modify_ring ops = Some p \<Longrightarrow> \<exists>a b. be16_at buf (p + 4) = Some a \<and> be16_at buf (p + 6) = Some b" for p
    using assms ptr_in_read16 [of fin "MODIFY_RING_SIZE - RING_SIZE_BOUND_SIZE" p buf 4]
      ptr_in_read16 [of fin "MODIFY_RING_SIZE - RING_SIZE_BOUND_SIZE" p buf 6] by (auto simp: ops_in_def opt_size_defs)
  moreover have "dev_op_jumbo_frames ops = Some p \<Longrightarrow> \<exists>a. be16_at buf (p + 4) = Some a" for p
    using assms ptr_in_read16 [of fin JUMBO_FRAMES_SIZE p buf 4] by (auto simp: ops_in_def opt_size_defs)
  ultimately show ?thesis
    by (fastforce simp: gve_enable_supported_features_def split: option.splits)
qed

text \<open>Which options have been taken up, independent of where they lie, and the format they imply.\<close>

definition taken :: "dev_ops \<Rightarrow> bool \<times> bool \<times> bool \<times> bool \<times> bool" where
  "taken ops = (dev_op_gqi_qpl ops \<noteq> None, dev_op_dqo_rda ops \<noteq> None, dev_op_dqo_qpl ops \<noteq> None,
     dev_op_modify_ring ops \<noteq> None, dev_op_jumbo_frames ops \<noteq> None)"

definition best_format :: "bool \<Rightarrow> bool \<Rightarrow> bool \<Rightarrow> gve_queue_format option" where
  "best_format dqo_rda dqo_qpl gqi_qpl =
     (if dqo_rda then Some GVE_DQO_RDA_FORMAT else if dqo_qpl then Some GVE_DQO_QPL_FORMAT
      else if gqi_qpl then Some GVE_GQI_QPL_FORMAT else None)"

lemma select_format_safe:
  assumes "ops_in fin ops" and "fin \<le> length buf"
  shows "\<exists>f. select_queue_format buf ops = Some f \<and>
    map_option fst f = best_format (dev_op_dqo_rda ops \<noteq> None) (dev_op_dqo_qpl ops \<noteq> None) (dev_op_gqi_qpl ops \<noteq> None)"
  using assms ptr_in_read32 [of fin DQO_RDA_SIZE _ buf] ptr_in_read32 [of fin DQO_QPL_SIZE _ buf]
    ptr_in_read32 [of fin GQI_QPL_SIZE _ buf]
  by (fastforce simp: select_queue_format_def ops_in_def opt_size_defs best_format_def split: option.splits)

section \<open>Serialised options\<close>

text \<open>
  The wire format of an option list, to state what the parser makes of it: identifier, length of
  the body, required feature mask, body.
\<close>

type_synonym dev_option = "nat \<times> nat \<times> u8 list"

definition ser16 :: "nat \<Rightarrow> u8 list" where "ser16 n = [of_nat (n div 256), of_nat n]"
definition ser32 :: "nat \<Rightarrow> u8 list" where "ser32 n = ser16 (n div 65536) @ ser16 (n mod 65536)"

fun ser_opt :: "dev_option \<Rightarrow> u8 list" where
  "ser_opt (oid, fm, body) = ser16 oid @ ser16 (length body) @ ser32 fm @ body"

definition opt_fits :: "dev_option \<Rightarrow> bool" where
  "opt_fits = (\<lambda>(oid, fm, body). oid < 2 ^ 16 \<and> fm < 2 ^ 32 \<and> length body < 2 ^ 16)"

text \<open>An option the driver takes up: known identifier, no unknown requirements, long enough.\<close>

definition offered :: "nat \<Rightarrow> nat \<Rightarrow> dev_option list \<Rightarrow> bool" where
  "offered oid n opts \<longleftrightarrow> (\<exists>body. (oid, 0, body) \<in> set opts \<and> n \<le> length body)"

lemma be16_at_append: "be16_at (pre @ ser16 n @ suf) (length pre) = Some (n mod 65536)"
proof -
  have u: "unat (of_nat n :: u8) = n mod 256" "unat (of_nat (n div 256) :: u8) = n div 256 mod 256"
    by (simp_all add: unsigned_of_nat take_bit_eq_mod)
  have "n div 256 mod 256 * 256 + n mod 256 = n mod 65536"
    using mod_mult2_eq [of n 256 256] by (simp add: mult.commute)
  then show ?thesis by (simp add: be16_at_def ser16_def nth_append u)
qed

lemma length_ser [simp]: "length (ser16 n) = 2" "length (ser32 n) = 4"
  by (simp_all add: ser16_def ser32_def)

lemma be32_at_append:
  assumes "n < 2 ^ 32"
  shows "be32_at (pre @ ser32 n @ suf) (length pre) = Some n"
proof -
  have a: "be16_at (pre @ ser32 n @ suf) (length pre) = Some (n div 65536)"
    using be16_at_append [of pre "n div 65536" "ser16 (n mod 65536) @ suf"] assms by (simp add: ser32_def)
  have "be16_at ((pre @ ser16 (n div 65536)) @ ser16 (n mod 65536) @ suf) (length (pre @ ser16 (n div 65536)))
      = Some (n mod 65536)"
    using be16_at_append [of "pre @ ser16 (n div 65536)" "n mod 65536" suf] by simp
  then have b: "be16_at (pre @ ser32 n @ suf) (length pre + 2) = Some (n mod 65536)" by (simp add: ser32_def)
  show ?thesis unfolding be32_at_def a b by simp
qed

lemma ser_opt_fields:
  assumes "opt_fits (oid, fm, body)"
  shows "be16_at (pre @ ser_opt (oid, fm, body) @ suf) (length pre) = Some oid"
    "be16_at (pre @ ser_opt (oid, fm, body) @ suf) (length pre + 2) = Some (length body)"
    "be32_at (pre @ ser_opt (oid, fm, body) @ suf) (length pre + 4) = Some fm"
proof -
  show "be16_at (pre @ ser_opt (oid, fm, body) @ suf) (length pre) = Some oid"
    using be16_at_append [of pre oid "ser16 (length body) @ ser32 fm @ body @ suf"] assms by (simp add: opt_fits_def)
  show "be16_at (pre @ ser_opt (oid, fm, body) @ suf) (length pre + 2) = Some (length body)"
    using be16_at_append [of "pre @ ser16 oid" "length body" "ser32 fm @ body @ suf"] assms by (simp add: opt_fits_def)
  show "be32_at (pre @ ser_opt (oid, fm, body) @ suf) (length pre + 4) = Some fm"
    using be32_at_append [of fm "pre @ ser16 oid @ ser16 (length body)" "body @ suf"] assms by (simp add: opt_fits_def)
qed

definition takes :: "dev_option list \<Rightarrow> bool \<times> bool \<times> bool \<times> bool \<times> bool" where
  "takes opts = (offered GVE_DEV_OPT_ID_GQI_QPL GQI_QPL_SIZE opts, offered GVE_DEV_OPT_ID_DQO_RDA DQO_RDA_SIZE opts,
     offered GVE_DEV_OPT_ID_DQO_QPL DQO_QPL_SIZE opts,
     offered GVE_DEV_OPT_ID_MODIFY_RING (MODIFY_RING_SIZE - RING_SIZE_BOUND_SIZE) opts,
     offered GVE_DEV_OPT_ID_JUMBO_FRAMES JUMBO_FRAMES_SIZE opts)"

lemmas opt_id_defs = GVE_DEV_OPT_ID_GQI_QPL_def GVE_DEV_OPT_ID_DQO_RDA_def GVE_DEV_OPT_ID_DQO_QPL_def
  GVE_DEV_OPT_ID_MODIFY_RING_def GVE_DEV_OPT_ID_JUMBO_FRAMES_def

lemma parse_ser_opt:
  assumes "opt_fits (oid, fm, body)"
  shows "\<exists>ops'. gve_parse_device_option (pre @ ser_opt (oid, fm, body) @ suf) (length pre) ops = Some ops' \<and>
    taken ops' = (dev_op_gqi_qpl ops \<noteq> None \<or> oid = GVE_DEV_OPT_ID_GQI_QPL \<and> fm = 0 \<and> GQI_QPL_SIZE \<le> length body,
      dev_op_dqo_rda ops \<noteq> None \<or> oid = GVE_DEV_OPT_ID_DQO_RDA \<and> fm = 0 \<and> DQO_RDA_SIZE \<le> length body,
      dev_op_dqo_qpl ops \<noteq> None \<or> oid = GVE_DEV_OPT_ID_DQO_QPL \<and> fm = 0 \<and> DQO_QPL_SIZE \<le> length body,
      dev_op_modify_ring ops \<noteq> None \<or> oid = GVE_DEV_OPT_ID_MODIFY_RING \<and> fm = 0 \<and>
        MODIFY_RING_SIZE - RING_SIZE_BOUND_SIZE \<le> length body,
      dev_op_jumbo_frames ops \<noteq> None \<or> oid = GVE_DEV_OPT_ID_JUMBO_FRAMES \<and> fm = 0 \<and> JUMBO_FRAMES_SIZE \<le> length body)"
proof -
  let ?buf = "pre @ ser_opt (oid, fm, body) @ suf" and ?b = "length pre + DEVICE_OPTION_SIZE"
  have "\<exists>a b. be16_at ?buf (?b + 8) = Some a \<and> be16_at ?buf (?b + 10) = Some b" if "length body = MODIFY_RING_SIZE"
    using be16_at_Some [of "?b + 8" ?buf] be16_at_Some [of "?b + 10" ?buf] that by (auto simp: opt_size_defs)
  then show ?thesis
    unfolding gve_parse_device_option_def ser_opt_fields [OF assms] taken_def
    by (auto simp: Let_def opt_id_defs)
qed

lemma offered_Cons:
  "offered i n ((oid, fm, body) # opts) \<longleftrightarrow> (oid = i \<and> fm = 0 \<and> n \<le> length body) \<or> offered i n opts"
  by (auto simp: offered_def)

lemma options_loop_ser:
  assumes "\<forall>opt \<in> set opts. opt_fits opt"
    and "fin = length pre + length (concat (map ser_opt opts))"
  shows "\<exists>ops'. device_options_loop (length opts) (pre @ concat (map ser_opt opts) @ suf) fin (length pre) ops = Some (None, ops') \<and>
    taken ops' = (case (taken ops, takes opts) of ((a, b, c, d, e), (a', b', c', d', e')) \<Rightarrow>
      (a \<or> a', b \<or> b', c \<or> c', d \<or> d', e \<or> e'))"
  using assms
proof (induction opts arbitrary: pre ops)
  case Nil
  then show ?case by (simp add: taken_def takes_def offered_def)
next
  case (Cons o1 opts)
  obtain oid fm body where o1: "o1 = (oid, fm, body)" by (cases o1) auto
  let ?rest = "concat (map ser_opt opts)" and ?pre = "pre @ ser_opt o1"
  have fit: "opt_fits (oid, fm, body)" using Cons.prems(1) o1 by simp
  obtain ops1 where p: "gve_parse_device_option (pre @ ser_opt o1 @ ?rest @ suf) (length pre) ops = Some ops1"
    and t: "taken ops1 = (dev_op_gqi_qpl ops \<noteq> None \<or> oid = GVE_DEV_OPT_ID_GQI_QPL \<and> fm = 0 \<and> GQI_QPL_SIZE \<le> length body,
      dev_op_dqo_rda ops \<noteq> None \<or> oid = GVE_DEV_OPT_ID_DQO_RDA \<and> fm = 0 \<and> DQO_RDA_SIZE \<le> length body,
      dev_op_dqo_qpl ops \<noteq> None \<or> oid = GVE_DEV_OPT_ID_DQO_QPL \<and> fm = 0 \<and> DQO_QPL_SIZE \<le> length body,
      dev_op_modify_ring ops \<noteq> None \<or> oid = GVE_DEV_OPT_ID_MODIFY_RING \<and> fm = 0 \<and>
        MODIFY_RING_SIZE - RING_SIZE_BOUND_SIZE \<le> length body,
      dev_op_jumbo_frames ops \<noteq> None \<or> oid = GVE_DEV_OPT_ID_JUMBO_FRAMES \<and> fm = 0 \<and> JUMBO_FRAMES_SIZE \<le> length body)"
    using parse_ser_opt [OF fit, of pre "?rest @ suf" ops] o1 by blast
  have len: "length (ser_opt o1) = 8 + length body" by (simp add: o1)
  have fin: "fin = length ?pre + length ?rest" using Cons.prems(2) by simp
  have l: "be16_at (pre @ ser_opt o1 @ ?rest @ suf) (length pre + 2) = Some (length body)"
    using ser_opt_fields(2) [OF fit, of pre "?rest @ suf"] o1 by simp
  obtain ops' where r: "device_options_loop (length opts) (?pre @ ?rest @ suf) fin (length ?pre) ops1 = Some (None, ops')"
    and t': "taken ops' = (case (taken ops1, takes opts) of ((a, b, c, d, e), (a', b', c', d', e')) \<Rightarrow>
      (a \<or> a', b \<or> b', c \<or> c', d \<or> d', e \<or> e'))"
    using Cons.IH [of ?pre ops1] Cons.prems(1) fin by auto
  have "device_options_loop (length (o1 # opts)) (pre @ concat (map ser_opt (o1 # opts)) @ suf) fin (length pre) ops = Some (None, ops')"
    using r l p fin len by (simp add: DEVICE_OPTION_SIZE_def ac_simps)
  moreover have "taken ops' = (case (taken ops, takes (o1 # opts)) of ((a, b, c, d, e), (a', b', c', d', e')) \<Rightarrow>
      (a \<or> a', b \<or> b', c \<or> c', d \<or> d', e \<or> e'))"
    unfolding t' t takes_def taken_def [of ops] o1 offered_Cons prod.case by (simp only: disj_assoc)
  ultimately show ?case by blast
qed


section \<open>Creating and destroying groups of queues\<close>

text \<open>
  Receive and transmit queues are created and destroyed by loops of the same shape: \<open>destroy_all\<close>
  goes through all queues whatever happens, \<open>create_all\<close> stops at the first failure and destroys
  what it has created.
\<close>

definition steps :: "(nat \<Rightarrow> 's \<Rightarrow> err \<times> 's) \<Rightarrow> nat list \<Rightarrow> 's \<Rightarrow> 's" where
  "steps f is s = foldl (\<lambda>s i. snd (f i s)) s is"

lemma steps_simps [simp]: "steps f [] s = s" "steps f (is @ js) s = steps f js (steps f is s)"
  "steps f (i # is) s = steps f is (snd (f i s))"
  by (simp_all add: steps_def)

locale queue_loops =
  fixes create destroy :: "nat \<Rightarrow> 's \<Rightarrow> err \<times> 's"
    and create_all destroy_all :: "nat \<Rightarrow> 's \<Rightarrow> err \<times> 's"
  assumes destroy_all_state: "snd (destroy_all n s) = steps destroy [0..<n] s"
    and create_all_0: "create_all 0 s = (None, s)"
    and create_all_ok: "create_all n s = (None, s') \<Longrightarrow> create n s' = (None, s'') \<Longrightarrow> create_all (Suc n) s = (None, s'')"
    and create_all_fail: "create_all n s = (None, s') \<Longrightarrow> create n s' = (Some e, s'') \<Longrightarrow>
      create_all (Suc n) s = (Some e, snd (destroy_all n s''))"
    and create_all_stop: "create_all n s = (Some e, s') \<Longrightarrow> create_all (Suc n) s = (Some e, s')"
begin

lemma rollback:
  "(create_all n s = (None, steps create [0..<n] s) \<and> (\<forall>i<n. fst (create i (steps create [0..<i] s)) = None)) \<or>
   (\<exists>k<n. \<exists>e. (\<forall>i<k. fst (create i (steps create [0..<i] s)) = None) \<and>
      fst (create k (steps create [0..<k] s)) = Some e \<and>
      create_all n s = (Some e, steps destroy [0..<k] (steps create [0..<Suc k] s)))"
proof (induction n)
  case 0
  then show ?case by (simp add: create_all_0)
next
  case (Suc n)
  from Suc.IH show ?case
  proof (elim disjE exE conjE)
    assume ok: "create_all n s = (None, steps create [0..<n] s)"
      and pre: "\<forall>i<n. fst (create i (steps create [0..<i] s)) = None"
    obtain r s'' where c: "create n (steps create [0..<n] s) = (r, s'')" by (metis surj_pair)
    show ?thesis
    proof (cases r)
      case None
      with create_all_ok [OF ok] c pre show ?thesis by (auto simp: less_Suc_eq)
    next
      case (Some e)
      with create_all_fail [OF ok] c pre show ?thesis
        by (intro disjI2 exI [of _ n] exI [of _ e] conjI) (auto simp: destroy_all_state)
    qed
  next
    fix k e
    assume "k < n" "\<forall>i<k. fst (create i (steps create [0..<i] s)) = None"
      "fst (create k (steps create [0..<k] s)) = Some e"
      "create_all n s = (Some e, steps destroy [0..<k] (steps create [0..<Suc k] s))"
    then show ?thesis using create_all_stop by (intro disjI2 exI [of _ k] exI [of _ e]) auto
  qed
qed

end

lemma destroy_loop_snd: "snd (destroy_loop destroy is (e, s)) = steps destroy is s"
proof (induction "is" arbitrary: e s)
  case (Cons i "is")
  then show ?case by (cases "destroy i s") simp
qed simp

lemma create_loop_append:
  "create_loop c da (is @ js) s =
     (case create_loop c da is s of (None, s') \<Rightarrow> create_loop c da js s' | (Some e, s') \<Rightarrow> (Some e, s'))"
  by (induction "is" arbitrary: s) (auto split: prod.splits option.splits)

lemma queue_loops_instance:
  assumes "\<And>n s. snd (da n s) = steps destroy [0..<n] s"
  shows "queue_loops create destroy (\<lambda>n. create_loop create da [0..<n]) da"
  by unfold_locales (auto simp: assms create_loop_append split: option.splits)

interpretation rxq: queue_loops "gve_adminq_create_rx_queue dev lro rings" "gve_adminq_destroy_rx_queue dev"
    "gve_adminq_create_rx_queues err0 dev lro rings" "gve_adminq_destroy_rx_queues err0 dev" for dev lro rings err0
  unfolding gve_adminq_create_rx_queues_def
  by (rule queue_loops_instance) (simp add: gve_adminq_destroy_rx_queues_def destroy_loop_snd)

interpretation txq: queue_loops "gve_adminq_create_tx_queue dev rings" "gve_adminq_destroy_tx_queue dev"
    "gve_adminq_create_tx_queues err0 dev rings" "gve_adminq_destroy_tx_queues err0 dev" for dev rings err0
  unfolding gve_adminq_create_tx_queues_def
  by (rule queue_loops_instance) (simp add: gve_adminq_destroy_tx_queues_def destroy_loop_snd)

section \<open>A device for the witnesses\<close>

text \<open>
  A device that executes a command at the first read of the counter after the doorbell. It keeps
  the receive queues created and refuses those in \<open>sim_refuse\<close>.
\<close>

record sim =
  sim_count :: u32
  sim_rung :: u32
  sim_rx :: "u32 list"
  sim_refuse :: "u32 list"

definition sim_exec :: "gve_adminq_body \<Rightarrow> sim \<Rightarrow> u32 \<times> sim" where
  "sim_exec b d = (case b of
     CreateRxQueue i _ _ _ _ _ _ _ _ _ _ \<Rightarrow>
       if i \<in> set (sim_refuse d) then (GVE_ADMINQ_COMMAND_ERROR_RESOURCE_EXHAUSTED, d)
       else (GVE_ADMINQ_COMMAND_PASSED, d\<lparr>sim_rx := i # sim_rx d\<rparr>)
   | DestroyRxQueue i \<Rightarrow> (GVE_ADMINQ_COMMAND_PASSED, d\<lparr>sim_rx := removeAll i (sim_rx d)\<rparr>)
   | SetDriverParameter _ _ \<Rightarrow> (GVE_ADMINQ_COMMAND_ERROR_INVALID_ARGUMENT, d)
   | _ \<Rightarrow> (GVE_ADMINQ_COMMAND_PASSED, d))"

definition sim_dev :: "u8 list \<Rightarrow> sim aq_device" where
  "sim_dev buf = \<lparr>
     dev_event_counter = (\<lambda>d q.
       if sim_count d = sim_rung d then (sim_count d, q, d)
       else let i = unat (sim_count d AND mask 6);
                (st, d') = sim_exec (cmd_body (q ! i)) d
            in (sim_count d + 1, q[i := (q ! i)\<lparr>cmd_status := st\<rparr>], d'\<lparr>sim_count := sim_count d + 1\<rparr>)),
     dev_doorbell = (\<lambda>v d. d\<lparr>sim_rung := v\<rparr>),
     dev_set_aq_pfn = (\<lambda>v d. d), dev_aq_pfn = (\<lambda>d. (0, d)), dev_buffer = (\<lambda>d a. buf)\<rparr>"

definition sim0 :: "u32 \<Rightarrow> sim" where
  "sim0 c = \<lparr>sim_count = c, sim_rung = c, sim_rx = [], sim_refuse = [1]\<rparr>"

definition ex_cfg :: gve_queue_config where "ex_cfg = \<lparr>max_queues = 4, num_queues_cfg = 3\<rparr>"

definition ex_priv :: "u32 \<Rightarrow> gve_priv" where
  "ex_priv c = \<lparr>mac = [], aq_mem = Some \<lparr>bus_addr = 4096\<rparr>, num_event_counters = 0, default_num_queues = 0,
     tx_desc_cnt = 0, max_tx_desc_cnt = 0, min_tx_desc_cnt = 0, rx_desc_cnt = 0, max_rx_desc_cnt = 0,
     min_rx_desc_cnt = 0, rx_pages_per_qpl = 0, max_registered_pages = 0, num_registered_pages = 0,
     supported_features = 0, max_mtu = 0, modify_ringsize_enabled = False, counter_array_mem = 0,
     irqs_db_mem = 0, queue_format = GVE_GQI_QPL_FORMAT, tx_cfg = ex_cfg, rx_cfg = ex_cfg, num_queues = 0,
     adminq = replicate ADMINQ_SLOTS zero_cmd, adminq_bus_addr = 4096, adminq_mask = of_nat ADMINQ_SLOTS - 1,
     adminq_prod_cnt = c, adminq_cmd_fail = 0, adminq_timeouts = 0, adminq_describe_device_cnt = 0,
     adminq_cfg_device_resources_cnt = 0, adminq_register_page_list_cnt = 0,
     adminq_unregister_page_list_cnt = 0, adminq_create_tx_queue_cnt = 0, adminq_create_rx_queue_cnt = 0,
     adminq_destroy_tx_queue_cnt = 0, adminq_destroy_rx_queue_cnt = 0, adminq_dcfg_device_resources_cnt = 0,
     adminq_set_driver_parameter_cnt = 0, adminq_verify_driver_compatibility_cnt = 0,
     adminq_get_ptype_map_cnt = 0, interface_up_cnt = 0, interface_down_cnt = 0, reset_cnt = 0,
     state_flags = {GVE_STATE_FLAG_ADMINQ_OK}, check_tx_queue_idx = 0\<rparr>"

definition ex_rings :: "nat \<Rightarrow> gve_ring_ctl" where
  "ex_rings i = \<lparr>rc_ntfy_id = of_nat i, rc_q_resources = 0, rc_desc_ring = 0, rc_data_ring = 0,
     rc_compl_ring = 0, rc_qpl_id = of_nat i\<rparr>"

section \<open>Properties\<close>


lemma sim_idle: "sim_count d = c \<Longrightarrow> sim_rung d = c \<Longrightarrow> aq_idle (sim_dev buf) c d"
  by (simp add: aq_idle_def sim_dev_def)

lemma sim_busy:
  assumes "sim_count d = c" "sim_rung d = c + 1" "sim_exec (cmd_body (q ! unat (c AND mask 6))) d = (st, d)"
  shows "aq_busy (sim_dev buf) c (unat (c AND mask 6)) st q d 0 (d\<lparr>sim_count := c + 1\<rparr>)"
proof (rule aq_completes)
  show "aq_idle (sim_dev buf) (c + 1) (d\<lparr>sim_count := c + 1\<rparr>)" using assms by (intro sim_idle) simp_all
  show "dev_event_counter (sim_dev buf) d q =
      (c + 1, q[unat (c AND mask 6) := (q ! unat (c AND mask 6))\<lparr>cmd_status := st\<rparr>], d\<lparr>sim_count := c + 1\<rparr>)"
    using assms by (simp add: sim_dev_def Let_def)
qed

definition ex_cmd :: gve_adminq_command where
  "ex_cmd = mk_cmd GVE_ADMINQ_SET_DRIVER_PARAMETER (SetDriverParameter 1 1500)"

lemma ex_priv_wf: "aq_wf (ex_priv c)"
  by (simp add: aq_wf_def ex_priv_def)

lemma ex_busy:
  "aq_busy (sim_dev []) c (unat (c AND adminq_mask (ex_priv c))) GVE_ADMINQ_COMMAND_ERROR_INVALID_ARGUMENT
     (adminq (adminq_put ex_cmd (ex_priv c))) (dev_doorbell (sim_dev []) (c + 1) (sim0 c)) 0
     ((dev_doorbell (sim_dev []) (c + 1) (sim0 c))\<lparr>sim_count := c + 1\<rparr>)"
proof -
  have m: "adminq_mask (ex_priv c) = mask 6" "adminq_prod_cnt (ex_priv c) = c"
    by (simp_all add: ex_priv_def adminq_mask_63)
  have "unat (c AND mask 6) < length (adminq (ex_priv c))"
    using aq_slot_less [OF ex_priv_wf, of c c] by (simp add: m)
  then have "cmd_body (adminq (adminq_put ex_cmd (ex_priv c)) ! unat (c AND mask 6)) = SetDriverParameter 1 1500"
    by (simp add: m ex_cmd_def mk_cmd_def)
  then show ?thesis unfolding m(1)
    by (intro sim_busy) (simp_all add: sim_dev_def sim0_def sim_exec_def)
qed


text \<open>
  C30. When the producer count wraps to 0, the loop that collects the statuses is empty: a command
  that the device has refused is reported as a success.
\<close>

theorem gve_adminq_wrap_loses_error:
  assumes "aq_idle dev (adminq_prod_cnt priv) d" and "adminq_prod_cnt priv + 1 = 0"
    and "aq_busy dev (adminq_prod_cnt priv) (unat (adminq_prod_cnt priv AND adminq_mask priv)) st
      (adminq (adminq_put cmd priv)) (dev_doorbell dev (adminq_prod_cnt priv + 1) d) r d'"
    and "r < 10"
  shows "fst (gve_adminq_execute_cmd dev cmd (priv, d)) = None"
proof -
  have w: "adminq_wait_loop GVE_MAX_ADMINQ_EVENT_COUNTER_CHECK dev 0 (adminq_put cmd priv, dev_doorbell dev 0 d)
      = (True, set_status (unat (adminq_prod_cnt priv AND adminq_mask priv)) st (adminq_put cmd priv), d')"
    using wait_completes(1) [OF assms(3), of GVE_MAX_ADMINQ_EVENT_COUNTER_CHECK] assms(2,4)
    by (simp add: GVE_MAX_ADMINQ_EVENT_COUNTER_CHECK_def)
  show ?thesis
    using idle_read [OF assms(1)] issue_idle [OF assms(1)] w assms(2)
    by (simp add: gve_adminq_execute_cmd_def gve_adminq_kick_and_wait_def gve_adminq_kick_cmd_def
        gve_adminq_wait_for_cmd_def)
qed

theorem gve_adminq_wrap_loses_error_witness:
  "fst (gve_adminq_execute_cmd (sim_dev []) ex_cmd (ex_priv 0xFFFFFFFF, sim0 0xFFFFFFFF)) = None"
proof -
  have p: "adminq_prod_cnt (ex_priv 0xFFFFFFFF) = 0xFFFFFFFF" by (simp add: ex_priv_def)
  have i: "aq_idle (sim_dev []) 0xFFFFFFFF (sim0 0xFFFFFFFF)" by (intro sim_idle) (simp_all add: sim0_def)
  show ?thesis
    by (rule gve_adminq_wrap_loses_error [of "sim_dev []" "ex_priv 0xFFFFFFFF", unfolded p, OF i _ ex_busy]) simp_all
qed

text \<open>
  C28. Creating the receive queues: either all are created, in order, or the first failure's code is
  returned after the queues created before it, and only those, have been destroyed again.
\<close>

theorem gve_adminq_create_rx_queues_rollback:
  fixes dev :: "'d aq_device" and rings :: "nat \<Rightarrow> gve_ring_ctl" and lro :: bool
  defines "create \<equiv> gve_adminq_create_rx_queue dev lro rings"
    and "destroy \<equiv> gve_adminq_destroy_rx_queue dev"
  shows "(gve_adminq_create_rx_queues err0 dev lro rings n s = (None, steps create [0..<n] s) \<and>
      (\<forall>i<n. fst (create i (steps create [0..<i] s)) = None)) \<or>
   (\<exists>k<n. \<exists>e. (\<forall>i<k. fst (create i (steps create [0..<i] s)) = None) \<and>
      fst (create k (steps create [0..<k] s)) = Some e \<and>
      gve_adminq_create_rx_queues err0 dev lro rings n s =
        (Some e, steps destroy [0..<k] (steps create [0..<Suc k] s)))"
  unfolding create_def destroy_def by (rule rxq.rollback)

theorem gve_adminq_create_rx_queues_rollback_witness:
  "\<exists>k<2. \<exists>e s'. gve_adminq_create_rx_queues None (sim_dev []) False ex_rings 2 (ex_priv 0, sim0 0) = (Some e, s') \<and>
     fst (gve_adminq_create_rx_queue (sim_dev []) False ex_rings k
       (steps (gve_adminq_create_rx_queue (sim_dev []) False ex_rings) [0..<k] (ex_priv 0, sim0 0))) = Some e \<and>
     sim_rx (snd s') = []"
proof -
  let ?r = "gve_adminq_create_rx_queues None (sim_dev []) False ex_rings 2 (ex_priv 0, sim0 0)"
  have r: "fst ?r \<noteq> None" "sim_rx (snd (snd ?r)) = []" by code_simp+
  show ?thesis
    using gve_adminq_create_rx_queues_rollback [of None "sim_dev []" False ex_rings 2 "(ex_priv 0, sim0 0)"] r
    by (metis fst_conv snd_conv)
qed

text \<open>The same for the transmit queues.\<close>

lemma gve_adminq_create_tx_queues_rollback:
  fixes dev :: "'d aq_device" and rings :: "nat \<Rightarrow> gve_ring_ctl"
  defines "create \<equiv> gve_adminq_create_tx_queue dev rings"
    and "destroy \<equiv> gve_adminq_destroy_tx_queue dev"
  shows "(gve_adminq_create_tx_queues err0 dev rings n s = (None, steps create [0..<n] s) \<and>
      (\<forall>i<n. fst (create i (steps create [0..<i] s)) = None)) \<or>
   (\<exists>k<n. \<exists>e. (\<forall>i<k. fst (create i (steps create [0..<i] s)) = None) \<and>
      fst (create k (steps create [0..<k] s)) = Some e \<and>
      gve_adminq_create_tx_queues err0 dev rings n s =
        (Some e, steps destroy [0..<k] (steps create [0..<Suc k] s)))"
  unfolding create_def destroy_def by (rule txq.rollback)

lemma gve_adminq_create_tx_queues_rollback_instance:
  "gve_adminq_create_tx_queues None (sim_dev []) ex_rings 1 (ex_priv 0, sim0 0) =
     (None, steps (gve_adminq_create_tx_queue (sim_dev []) ex_rings) [0..<1] (ex_priv 0, sim0 0))"
proof -
  have "fst (gve_adminq_create_tx_queues None (sim_dev []) ex_rings 1 (ex_priv 0, sim0 0)) = None" by code_simp
  then show ?thesis
    using gve_adminq_create_tx_queues_rollback [of None "sim_dev []" ex_rings 1 "(ex_priv 0, sim0 0)"] by auto
qed


lemma case_best_format:
  "(case best_format a b c of None \<Rightarrow> P | Some f \<Rightarrow> Q f) \<longleftrightarrow>
     (if a then Q GVE_DQO_RDA_FORMAT else if b then Q GVE_DQO_QPL_FORMAT else if c then Q GVE_GQI_QPL_FORMAT else P)"
  by (simp add: best_format_def)

lemma process_options_safe:
  assumes "be16_at buf 32 = Some fin" and "fin \<le> length buf" and "DEVICE_DESCRIPTOR_SIZE \<le> length buf"
  shows "\<exists>e ops. gve_process_device_options buf no_ops = Some (e, ops) \<and> ops_in fin ops \<and> (e = None \<or> e = Some EINVAL)"
proof -
  obtain n where "be16_at buf 30 = Some n" using be16_at_Some [of 30 buf] assms(3) by (auto simp: opt_size_defs)
  then show ?thesis
    using options_loop_safe [OF assms(2) order_refl no_ops_in, of n] assms(1)
    by (auto simp: gve_process_device_options_def)
qed

lemma u16_ge: "a \<le> n \<Longrightarrow> n < 2 ^ 16 \<Longrightarrow> a \<le> unat (of_nat n :: u16)"
  by (simp add: unsigned_of_nat take_bit_eq_mod)

lemma describe_parse_effect:
  assumes "gve_process_device_options buf no_ops = Some (e, ops)" and "ops_in fin ops" and "fin \<le> length buf"
    and "DEVICE_DESCRIPTOR_SIZE \<le> length buf"
  shows "\<exists>e' priv'. describe_device_parse buf priv = Some (e', priv') \<and>
    GVE_DEFAULT_MIN_RX_RING_SIZE \<le> unat (min_rx_desc_cnt priv') \<and>
    GVE_DEFAULT_MIN_TX_RING_SIZE \<le> unat (min_tx_desc_cnt priv') \<and>
    (e \<noteq> None \<longrightarrow> e' = e) \<and>
    (e = None \<longrightarrow> (case best_format (dev_op_dqo_rda ops \<noteq> None) (dev_op_dqo_qpl ops \<noteq> None) (dev_op_gqi_qpl ops \<noteq> None) of
       None \<Rightarrow> e' = Some EINVAL | Some qf \<Rightarrow> e' = None \<and> queue_format priv' = qf))"
proof -
  have rd: "\<exists>v. be16_at buf k = Some v" if "k \<le> 38" for k
    using be16_at_Some [of k buf] that assms(4) by (auto simp: opt_size_defs)
  have rd64: "\<exists>v. be64_at buf 0 = Some v" using be64_at_Some [of 0 buf] assms(4) by (auto simp: opt_size_defs)
  obtain v1 v2 v3 v4 v5 v6 v7 where v: "be16_at buf 18 = Some v1" "be16_at buf 14 = Some v2" "be16_at buf 10 = Some v3"
      "be16_at buf 12 = Some v4" "be16_at buf 22 = Some v5" "be64_at buf 0 = Some v6" "be16_at buf 16 = Some v7"
    using rd [of 18] rd [of 14] rd [of 10] rd [of 12] rd [of 22] rd [of 16] rd64 by auto
  have mn: "GVE_DEFAULT_MIN_RX_RING_SIZE \<le> unat (of_nat (op_min_rx ops) :: u16)"
    "GVE_DEFAULT_MIN_TX_RING_SIZE \<le> unat (of_nat (op_min_tx ops) :: u16)"
    using assms(2) by (auto simp: ops_in_def intro: u16_ge)
  obtain f where f: "select_queue_format buf ops = Some f" and fs: "map_option fst f = best_format (dev_op_dqo_rda ops \<noteq> None) (dev_op_dqo_qpl ops \<noteq> None) (dev_op_gqi_qpl ops \<noteq> None)"
    using select_format_safe [OF assms(2,3)] by blast
  show ?thesis
  proof (cases "e = None \<and> f \<noteq> None")
    case False
    then show ?thesis
      using assms(1) f fs [symmetric] mn
      by (cases e; cases f) (auto simp: describe_device_parse_def Let_def)
  next
    case True
    then obtain qf m where q: "f = Some (qf, m)" by auto
    define p2 where "p2 = priv\<lparr>min_rx_desc_cnt := of_nat (op_min_rx ops), min_tx_desc_cnt := of_nat (op_min_tx ops),
                queue_format := qf, num_event_counters := of_nat v1,
                default_num_queues := of_nat v2, tx_desc_cnt := of_nat v3,
                rx_desc_cnt := of_nat v4, rx_pages_per_qpl := of_nat v5,
                max_registered_pages := of_nat v6, max_mtu := of_nat v7,
                supported_features := of_nat m, max_rx_desc_cnt := of_nat v4,
                max_tx_desc_cnt := of_nat v3\<rparr>"
    obtain p3 where p3: "gve_enable_supported_features buf m (dev_op_modify_ring ops) (dev_op_jumbo_frames ops) p2 = Some p3"
      "min_rx_desc_cnt p3 = min_rx_desc_cnt p2" "min_tx_desc_cnt p3 = min_tx_desc_cnt p2" "queue_format p3 = queue_format p2"
      using enable_features_safe [OF assms(2,3)] by blast
    have "describe_device_parse buf priv = Some (None, p3\<lparr>mac := slice buf 24 6\<rparr>)"
      using assms(1,4) f q v p3(1) True by (simp add: describe_device_parse_def Let_def p2_def opt_size_defs)
    then show ?thesis
      using p3(2-4) mn fs [symmetric] q True by (simp add: p2_def)
  qed
qed

text \<open>
  C10. Parsing the device descriptor reads no byte outside the buffer, whatever the device has
  written, as long as the total length the descriptor claims is that of the buffer or less: the
  parser returns, with success or \<open>EINVAL\<close>; the minimum ring sizes are never below the driver's
  own minimum, and success fixes one of the three queue formats.
\<close>

theorem describe_device_parse_in_bounds:
  assumes "be16_at buf 32 = Some fin" and "fin \<le> length buf" and "DEVICE_DESCRIPTOR_SIZE \<le> length buf"
  shows "\<exists>e priv'. describe_device_parse buf priv = Some (e, priv') \<and> (e = None \<or> e = Some EINVAL) \<and>
    GVE_DEFAULT_MIN_RX_RING_SIZE \<le> unat (min_rx_desc_cnt priv') \<and>
    GVE_DEFAULT_MIN_TX_RING_SIZE \<le> unat (min_tx_desc_cnt priv') \<and>
    (e = None \<longrightarrow> queue_format priv' \<in> {GVE_DQO_RDA_FORMAT, GVE_DQO_QPL_FORMAT, GVE_GQI_QPL_FORMAT})"
proof -
  obtain e ops where p: "gve_process_device_options buf no_ops = Some (e, ops)" "ops_in fin ops" "e = None \<or> e = Some EINVAL"
    using process_options_safe [OF assms] by blast
  from describe_parse_effect [OF p(1,2) assms(2,3), of priv] p(3) show ?thesis
    unfolding case_best_format by (auto split: if_splits)
qed


text \<open>A descriptor with one DQO RDA option, claiming one option and 56 bytes.\<close>

definition ex_hdr :: "nat \<Rightarrow> nat \<Rightarrow> u8 list" where
  "ex_hdr n len = replicate 30 0 @ ser16 n @ ser16 len @ replicate 6 0"

definition ex_desc :: "u8 list" where
  "ex_desc = ex_hdr 1 56 @ ser_opt (4, 0, replicate 8 0)"

lemma ex_hdr_fields:
  assumes "n < 65536" and "len < 65536"
  shows "be16_at (ex_hdr n len @ ys) 30 = Some n" "be16_at (ex_hdr n len @ ys) 32 = Some len" "length (ex_hdr n len) = 40"
  using be16_at_append [of "replicate 30 0" n "ser16 len @ replicate 6 0 @ ys"]
    be16_at_append [of "replicate 30 0 @ ser16 n" len "replicate 6 0 @ ys"] assms
  by (simp_all add: ex_hdr_def)

lemma ex_desc_len: "be16_at ex_desc 32 = Some 56" "length ex_desc = 56"
  using ex_hdr_fields [of 1 56] by (simp_all add: ex_desc_def)

theorem describe_device_parse_in_bounds_witness:
  "\<exists>e priv'. describe_device_parse ex_desc (ex_priv 0) = Some (e, priv') \<and> 512 \<le> unat (min_rx_desc_cnt priv')"
  using describe_device_parse_in_bounds [OF ex_desc_len(1), of "ex_priv 0"] ex_desc_len(2)
  by (auto simp: opt_size_defs GVE_DEFAULT_MIN_RX_RING_SIZE_def)

lemma be16_at_prefix: "off + 2 \<le> length xs \<Longrightarrow> be16_at (xs @ ys) off = be16_at xs off"
  by (simp add: be16_at_def nth_append)

text \<open>
  C29. What the driver makes of the options a device offers: if the descriptor is followed by the
  encodings of the options \<open>opts\<close>, in any order and among any unknown ones, the driver runs DQO RDA if it
  is offered, else DQO QPL, else GQI QPL, and otherwise fails with \<open>EINVAL\<close>.
\<close>

theorem describe_device_selects_format:
  assumes "length hdr = DEVICE_DESCRIPTOR_SIZE" and "be16_at hdr 30 = Some (length opts)"
    and "be16_at hdr 32 = Some (DEVICE_DESCRIPTOR_SIZE + length (concat (map ser_opt opts)))"
    and "\<forall>opt \<in> set opts. opt_fits opt"
  shows "\<exists>e priv'. describe_device_parse (hdr @ concat (map ser_opt opts) @ suf) priv = Some (e, priv') \<and>
    (case best_format (offered GVE_DEV_OPT_ID_DQO_RDA DQO_RDA_SIZE opts) (offered GVE_DEV_OPT_ID_DQO_QPL DQO_QPL_SIZE opts)
        (offered GVE_DEV_OPT_ID_GQI_QPL GQI_QPL_SIZE opts) of
       None \<Rightarrow> e = Some EINVAL | Some qf \<Rightarrow> e = None \<and> queue_format priv' = qf)"
proof -
  let ?buf = "hdr @ concat (map ser_opt opts) @ suf"
  let ?fin = "length hdr + length (concat (map ser_opt opts))"
  obtain ops where lp: "device_options_loop (length opts) ?buf ?fin (length hdr) no_ops = Some (None, ops)"
    and t: "taken ops = takes opts"
    using options_loop_ser [OF assms(4), of ?fin hdr suf no_ops] by (auto simp: taken_def no_ops_def takes_def)
  have rd: "be16_at ?buf 30 = Some (length opts)" "be16_at ?buf 32 = Some ?fin"
    using assms(1-3) be16_at_prefix [of 30 hdr] be16_at_prefix [of 32 hdr] by (simp_all add: opt_size_defs)
  have p: "gve_process_device_options ?buf no_ops = Some (None, ops)"
    using rd lp assms(1) by (simp add: gve_process_device_options_def)
  have fin: "?fin \<le> length ?buf" by simp
  have "ops_in ?fin ops"
    using options_loop_safe [OF fin _ no_ops_in, of "length hdr" "length opts"] lp assms(1) by auto
  moreover have "DEVICE_DESCRIPTOR_SIZE \<le> length ?buf" using assms(1) by simp
  moreover have "(dev_op_dqo_rda ops \<noteq> None) = offered GVE_DEV_OPT_ID_DQO_RDA DQO_RDA_SIZE opts"
    "(dev_op_dqo_qpl ops \<noteq> None) = offered GVE_DEV_OPT_ID_DQO_QPL DQO_QPL_SIZE opts"
    "(dev_op_gqi_qpl ops \<noteq> None) = offered GVE_DEV_OPT_ID_GQI_QPL GQI_QPL_SIZE opts"
    using t by (auto simp: taken_def takes_def)
  ultimately show ?thesis using describe_parse_effect [OF p _ fin, of priv] by auto
qed

theorem describe_device_selects_format_witness:
  "\<exists>e priv'. describe_device_parse (ex_hdr 1 56 @ concat (map ser_opt [(4, 0, replicate 8 0)]) @ []) (ex_priv 0) =
     Some (e, priv') \<and> e = None \<and> queue_format priv' = GVE_DQO_RDA_FORMAT"
proof -
  have h: "length (ex_hdr 1 56) = DEVICE_DESCRIPTOR_SIZE" "be16_at (ex_hdr 1 56) 30 = Some 1"
    "be16_at (ex_hdr 1 56) 32 = Some 56"
    using ex_hdr_fields(1,2) [of 1 56 "[]"] ex_hdr_fields(3) [of 1 56] by (simp_all add: opt_size_defs)
  have o: "offered GVE_DEV_OPT_ID_DQO_RDA DQO_RDA_SIZE [(4, 0, replicate 8 0)]"
    by (simp add: offered_def opt_id_defs opt_size_defs)
  show ?thesis
    using describe_device_selects_format [of "ex_hdr 1 56" "[(4, 0, replicate 8 0)]" "[]" "ex_priv 0"] h o
    by (simp add: opt_fits_def opt_size_defs best_format_def)
qed

end
