(* ===== verification/Gve_Rx.thy ===== *)
theory Gve_Rx
  imports Gve_Types
begin

text \<open>
  The GQI receive path of \<open>gve_rx.c\<close>: pages whose halves are posted to the device in turn, the
  reassembly of fragments into mbuf chains, the cleanup loop driven by sequence numbers.
\<close>

section \<open>State\<close>

text \<open>
  A fragment of a received packet: bytes copied into the mbuf, a reference to \<open>len\<close> bytes at an
  offset of a page of the ring (\<open>MEXTADD\<close>), or a cluster mbuf the device has written into, with its
  pointer and its bytes.
\<close>

datatype rx_frag = Copied "u8 list" | External nat nat nat | Cluster nat "u8 list"

text \<open>An mbuf chain under construction: the pointer of its head and the header fields set.\<close>

record rx_mbuf =
  rm_ptr :: nat
  rm_frags :: "rx_frag list"
  rm_hash :: m_hashtype
  rm_flowid :: u32
  rm_csum_valid :: bool
  rm_len :: u32

text \<open>
  \<open>mbuf_tail\<close> is only compared with NULL and followed to append, so its value is whether it is
  not NULL.
\<close>

record gve_rx_ctx =
  mbuf_head :: "rx_mbuf option"
  mbuf_tail :: bool
  total_size :: u32
  frag_cnt :: u8
  is_tcp :: bool
  drop_pkt :: bool

definition empty_ctx :: gve_rx_ctx where
  "empty_ctx = \<lparr>mbuf_head = None, mbuf_tail = False, total_size = 0, frag_cnt = 0, is_tcp = False,
     drop_pkt = False\<rparr>"

record gve_rx_desc =
  rss_hash :: u32
  csum :: u16
  desc_len :: u16
  flags_seq :: u16

definition zero_rx_desc :: gve_rx_desc where
  "zero_rx_desc = \<lparr>rss_hash = 0, csum = 0, desc_len = 0, flags_seq = 0\<rparr>"

record gve_rx_slot_page_info =
  page_offset :: u32
  pad :: u16

record gve_rxq_stats =
  rbytes :: u64
  rpackets :: u64
  rx_dropped_pkt :: u64
  rx_copybreak_cnt :: u64
  rx_frag_flip_cnt :: u64
  rx_frag_copy_cnt :: u64
  rx_dropped_pkt_desc_err :: u64
  rx_dropped_pkt_buf_post_fail :: u64
  rx_dropped_pkt_mbuf_alloc_fail :: u64
  rx_mbuf_dmamap_err :: u64
  rx_mbuf_mclget_null :: u64

text \<open>The members common to both kinds of receive ring.\<close>

record gve_rx_ring =
  rx_com :: gve_ring_com
  cnt :: u32
  fill_cnt :: u32
  rx_ctx :: gve_rx_ctx
  rx_stats :: gve_rxq_stats

text \<open>
  \<open>pages\<close> is the memory of the ring's page list and \<open>lent\<close> the references to halves of pages
  held by mbufs outside the driver; the wire count of a page is one more than the number of its
  references.
\<close>

record gve_rx_ring_gqi = gve_rx_ring +
  rx_desc_ring :: "gve_rx_desc list"
  data_ring :: "u64 list"
  page_info :: "gve_rx_slot_page_info list"
  rx_mask :: u32
  seq_no :: u8
  pages :: "u8 list list"
  lent :: "(nat \<times> nat) list"

definition wire_count :: "gve_rx_ring_gqi \<Rightarrow> nat \<Rightarrow> nat" where
  "wire_count rx p = 1 + length (filter (\<lambda>r. fst r = p) (lent rx))"

datatype rx_event =
    RX_IF_INPUT rx_mbuf
  | RX_TCP_LRO rx_mbuf
  | RX_LRO_FLUSH_ALL
  | RX_M_FREEM nat
  | RX_DB_WRITE_4 u32 u32
  | RX_DB_DQO_WRITE_4 u32 u32
  | RX_TASKQUEUE_ENQUEUE
  | RX_SCHEDULE_RESET

text \<open>
  The surroundings of the receive path: the copy threshold, whether LRO is enabled and has
  resources, and whether \<open>tcp_lro_rx\<close> takes a packet.
\<close>

record rx_env =
  rx_copybreak :: u32
  lro_enabled :: bool
  lro_cnt :: nat
  tcp_lro_rx_ok :: "rx_mbuf \<Rightarrow> bool"

section \<open>Descriptor flags\<close>

definition GVE_SEQNO :: "u16 \<Rightarrow> u8" where "GVE_SEQNO x = ucast (x AND 0x7)"
definition GVE_RXFLG :: "nat \<Rightarrow> u16" where "GVE_RXFLG x = push_bit (3 + x) 1"
definition GVE_RXF_FRAG :: u16 where "GVE_RXF_FRAG = GVE_RXFLG 3"
definition GVE_RXF_IPV4 :: u16 where "GVE_RXF_IPV4 = GVE_RXFLG 4"
definition GVE_RXF_IPV6 :: u16 where "GVE_RXF_IPV6 = GVE_RXFLG 5"
definition GVE_RXF_TCP :: u16 where "GVE_RXF_TCP = GVE_RXFLG 6"
definition GVE_RXF_UDP :: u16 where "GVE_RXF_UDP = GVE_RXFLG 7"
definition GVE_RXF_ERR :: u16 where "GVE_RXF_ERR = GVE_RXFLG 8"
definition GVE_RXF_PKT_CONT :: u16 where "GVE_RXF_PKT_CONT = GVE_RXFLG 10"
definition GVE_RX_PAD :: u16 where "GVE_RX_PAD = 2"

section \<open>Setting up the ring\<close>

text \<open>\<open>rx_desc_cnt\<close> is the length of the arrays.\<close>

definition gve_prefill_rx_slots :: "nat \<Rightarrow> gve_rx_ring_gqi \<Rightarrow> gve_rx_ring_gqi" where
  "gve_prefill_rx_slots rx_desc_cnt rx =
     rx\<lparr>data_ring := map (\<lambda>i. of_nat (PAGE_SIZE * i)) [0..<rx_desc_cnt] @ drop rx_desc_cnt (data_ring rx),
        page_info := map (\<lambda>p. p\<lparr>page_offset := 0\<rparr>) (take rx_desc_cnt (page_info rx)) @ drop rx_desc_cnt (page_info rx)\<rparr>"

definition gve_rx_clear_data_ring :: "nat \<Rightarrow> gve_rx_ring_gqi \<Rightarrow> gve_rx_ring_gqi" where
  "gve_rx_clear_data_ring rx_desc_cnt rx =
     rx\<lparr>data_ring := map (\<lambda>i. of_nat (PAGE_SIZE * i) + ucast (page_offset (page_info rx ! i))) [0..<rx_desc_cnt]
          @ drop rx_desc_cnt (data_ring rx),
        fill_cnt := fill_cnt rx + of_nat rx_desc_cnt\<rparr>"

definition gve_rx_clear_desc_ring :: "nat \<Rightarrow> gve_rx_ring_gqi \<Rightarrow> gve_rx_ring_gqi" where
  "gve_rx_clear_desc_ring rx_desc_cnt rx =
     rx\<lparr>rx_desc_ring := replicate rx_desc_cnt zero_rx_desc @ drop rx_desc_cnt (rx_desc_ring rx)\<rparr>"

definition gve_clear_rx_ring :: "nat \<Rightarrow> gve_rx_ring_gqi \<Rightarrow> gve_rx_ring_gqi" where
  "gve_clear_rx_ring rx_desc_cnt rx =
     gve_rx_clear_data_ring rx_desc_cnt (gve_rx_clear_desc_ring rx_desc_cnt
       (rx\<lparr>seq_no := 1, cnt := 0, fill_cnt := 0, rx_mask := of_nat rx_desc_cnt - 1\<rparr>))"

section \<open>One descriptor\<close>

definition gve_set_rss_type :: "u16 \<Rightarrow> m_hashtype \<Rightarrow> m_hashtype" where
  "gve_set_rss_type flag h =
     (if flag AND GVE_RXF_IPV4 \<noteq> 0 then
        (if flag AND GVE_RXF_TCP \<noteq> 0 then M_HASHTYPE_RSS_TCP_IPV4
         else if flag AND GVE_RXF_UDP \<noteq> 0 then M_HASHTYPE_RSS_UDP_IPV4
         else M_HASHTYPE_RSS_IPV4)
      else if flag AND GVE_RXF_IPV6 \<noteq> 0 then
        (if flag AND GVE_RXF_TCP \<noteq> 0 then M_HASHTYPE_RSS_TCP_IPV6
         else if flag AND GVE_RXF_UDP \<noteq> 0 then M_HASHTYPE_RSS_UDP_IPV6
         else M_HASHTYPE_RSS_IPV6)
      else h)"

definition gve_needs_rss :: "u16 \<Rightarrow> bool" where
  "gve_needs_rss flag \<longleftrightarrow>
     flag AND GVE_RXF_FRAG = 0 \<and> flag AND (GVE_RXF_IPV4 OR GVE_RXF_IPV6) \<noteq> 0"

definition gve_rx_flip_buff :: "nat \<Rightarrow> gve_rx_ring_gqi \<Rightarrow> gve_rx_ring_gqi" where
  "gve_rx_flip_buff idx rx =
     rx\<lparr>page_info := (page_info rx)[idx := (page_info rx ! idx)\<lparr>page_offset :=
            page_offset (page_info rx ! idx) XOR of_nat GVE_DEFAULT_RX_BUFFER_OFFSET\<rparr>],
        data_ring := (data_ring rx)[idx := data_ring rx ! idx XOR of_nat GVE_DEFAULT_RX_BUFFER_OFFSET]\<rparr>"

text \<open>
  \<open>gve_rx_create_mbuf\<close>: \<open>mb\<close> is the outcome of the mbuf allocation, the pointer or NULL. The
  result is whether an mbuf was made. A chain is extended at its tail; a fresh head has no header
  fields set.
\<close>

definition new_chain :: "nat \<Rightarrow> rx_frag \<Rightarrow> rx_mbuf" where
  "new_chain p f = \<lparr>rm_ptr = p, rm_frags = [f], rm_hash = M_HASHTYPE_NONE, rm_flowid = 0,
     rm_csum_valid = False, rm_len = 0\<rparr>"

definition add_frag :: "nat \<Rightarrow> rx_frag \<Rightarrow> gve_rx_ctx \<Rightarrow> gve_rx_ctx" where
  "add_frag p f ctx =
     (if \<not> mbuf_tail ctx then ctx\<lparr>mbuf_head := Some (new_chain p f), mbuf_tail := True\<rparr>
      else ctx\<lparr>mbuf_head := map_option (\<lambda>m. m\<lparr>rm_frags := rm_frags m @ [f]\<rparr>) (mbuf_head ctx)\<rparr>)"

definition no_frag :: "gve_rx_ctx \<Rightarrow> gve_rx_ctx" where
  "no_frag ctx =
     (if \<not> mbuf_tail ctx then ctx\<lparr>mbuf_head := None, mbuf_tail := False\<rparr> else ctx\<lparr>mbuf_tail := False\<rparr>)"

definition gve_rx_create_mbuf ::
  "rx_env \<Rightarrow> nat option \<Rightarrow> nat \<Rightarrow> u16 \<Rightarrow> bool \<Rightarrow> gve_rx_ring_gqi \<Rightarrow> bool \<times> gve_rx_ring_gqi" where
  "gve_rx_create_mbuf env mb idx len is_only_frag rx =
     (let ctx = rx_ctx rx;
          offset = unat (page_offset (page_info rx ! idx)) + unat (pad (page_info rx ! idx));
          data = slice (pages rx ! idx) offset (unat len);
          st = rx_stats rx
      in if ucast len \<le> rx_copybreak env \<and> is_only_frag then
           (case mb of
              None \<Rightarrow> (False, rx)
            | Some p \<Rightarrow>
                (True, rx\<lparr>rx_ctx := ctx\<lparr>mbuf_head := Some (new_chain p (Copied data)), mbuf_tail := True,
                                      total_size := total_size ctx + ucast len\<rparr>,
                          rx_stats := st\<lparr>rx_copybreak_cnt := rx_copybreak_cnt st + 1\<rparr>\<rparr>))
         else
           let can_flip = wire_count rx idx = 1
           in case mb of
                None \<Rightarrow> (False, rx\<lparr>rx_ctx := no_frag ctx\<rparr>)
              | Some p \<Rightarrow>
                  if can_flip then
                    let ctx1 = add_frag p (External idx offset (unat len)) ctx in
                    (True, gve_rx_flip_buff idx
                       (rx\<lparr>rx_ctx := ctx1\<lparr>total_size := total_size ctx + ucast len\<rparr>,
                           rx_stats := st\<lparr>rx_frag_flip_cnt := rx_frag_flip_cnt st + 1\<rparr>,
                           lent := (idx, unat (page_offset (page_info rx ! idx))) # lent rx\<rparr>))
                  else
                    let ctx1 = add_frag p (Copied data) ctx in
                    (True, rx\<lparr>rx_ctx := ctx1\<lparr>total_size := total_size ctx + ucast len\<rparr>,
                              rx_stats := st\<lparr>rx_frag_copy_cnt := rx_frag_copy_cnt st + 1\<rparr>\<rparr>))"

definition free_head :: "gve_rx_ctx \<Rightarrow> rx_event list" where
  "free_head ctx = (case mbuf_head ctx of None \<Rightarrow> [] | Some m \<Rightarrow> [RX_M_FREEM (rm_ptr m)])"

text \<open>
  The header fields set on the first fragment. The mbuf is then the head of the chain, unless the
  8-bit fragment count has wrapped.
\<close>

definition set_hdr :: "gve_rx_desc \<Rightarrow> rx_mbuf \<Rightarrow> rx_mbuf" where
  "set_hdr desc m =
     (let m1 = (if gve_needs_rss (flags_seq desc)
                then m\<lparr>rm_hash := gve_set_rss_type (flags_seq desc) (rm_hash m), rm_flowid := rss_hash desc\<rparr>
                else m)
      in if csum desc \<noteq> 0 \<and> flags_seq desc AND GVE_RXF_FRAG = 0
         then m1\<lparr>rm_csum_valid := True\<rparr> else m1)"

definition first_frag_ctx :: "bool \<Rightarrow> gve_rx_desc \<Rightarrow> gve_rx_ctx \<Rightarrow> gve_rx_ctx" where
  "first_frag_ctx is_first_frag desc ctx =
     (if is_first_frag
      then ctx\<lparr>is_tcp := (flags_seq desc AND GVE_RXF_TCP \<noteq> 0),
               mbuf_head := map_option (\<lambda>m. if length (rm_frags m) = 1 then set_hdr desc m else m)
                 (mbuf_head ctx)\<rparr>
      else ctx)"

definition finish_frag :: "bool \<Rightarrow> gve_rx_ring_gqi \<Rightarrow> gve_rx_ring_gqi" where
  "finish_frag is_last_frag rx =
     (if is_last_frag then rx\<lparr>rx_ctx := empty_ctx\<rparr>
      else rx\<lparr>rx_ctx := (rx_ctx rx)\<lparr>frag_cnt := frag_cnt (rx_ctx rx) + 1\<rparr>\<rparr>)"

definition drop_frag :: "(gve_rxq_stats \<Rightarrow> gve_rxq_stats) \<Rightarrow> gve_rx_ring_gqi \<Rightarrow> gve_rx_ring_gqi" where
  "drop_frag count rx =
     (let st = count (rx_stats rx) in
      rx\<lparr>rx_ctx := (rx_ctx rx)\<lparr>drop_pkt := True\<rparr>,
         rx_stats := st\<lparr>rx_dropped_pkt := rx_dropped_pkt st + 1\<rparr>\<rparr>)"

text \<open>Handing a complete chain to the stack.\<close>

definition deliver :: "rx_env \<Rightarrow> gve_rx_ring_gqi \<Rightarrow> gve_rx_ring_gqi \<times> rx_event list" where
  "deliver env rx =
     (let ctx = rx_ctx rx; st = rx_stats rx in
      case mbuf_head ctx of
        None \<Rightarrow> (rx, [])
      | Some m0 \<Rightarrow>
          let m = m0\<lparr>rm_len := total_size ctx\<rparr>;
              to_lro = lro_enabled env \<and> is_tcp ctx \<and> rm_csum_valid m \<and> lro_cnt env \<noteq> 0 \<and> tcp_lro_rx_ok env m
          in (rx\<lparr>rx_ctx := ctx\<lparr>mbuf_head := Some m\<rparr>,
                 rx_stats := st\<lparr>rbytes := rbytes st + ucast (total_size ctx), rpackets := rpackets st + 1\<rparr>\<rparr>,
              [if to_lro then RX_TCP_LRO m else RX_IF_INPUT m]))"

definition gve_rx ::
  "rx_env \<Rightarrow> nat option \<Rightarrow> gve_rx_desc \<Rightarrow> nat \<Rightarrow> gve_rx_ring_gqi \<Rightarrow> gve_rx_ring_gqi \<times> rx_event list" where
  "gve_rx env mb desc idx rx =
     (let ctx = rx_ctx rx;
          is_first_frag = (frag_cnt ctx = 0);
          is_last_frag = (GVE_RXF_PKT_CONT AND flags_seq desc = 0);
          is_only_frag = (is_first_frag \<and> is_last_frag)
      in if drop_pkt ctx then (finish_frag is_last_frag rx, [])
         else if flags_seq desc AND GVE_RXF_ERR \<noteq> 0 then
           (finish_frag is_last_frag
              (drop_frag (\<lambda>st. st\<lparr>rx_dropped_pkt_desc_err := rx_dropped_pkt_desc_err st + 1\<rparr>) rx),
            free_head ctx)
         else
           let pd = (if is_first_frag then GVE_RX_PAD else 0);
               rx1 = rx\<lparr>page_info := (page_info rx)[idx := (page_info rx ! idx)\<lparr>pad := pd\<rparr>]\<rparr>;
               len = desc_len desc - pd;
               (made, rx2) = gve_rx_create_mbuf env mb idx len is_only_frag rx1
           in if \<not> made then
                (finish_frag is_last_frag
                   (drop_frag (\<lambda>st. st\<lparr>rx_dropped_pkt_mbuf_alloc_fail := rx_dropped_pkt_mbuf_alloc_fail st + 1\<rparr>) rx2),
                 free_head (rx_ctx rx2))
              else
                let rx3 = rx2\<lparr>rx_ctx := first_frag_ctx is_first_frag desc (rx_ctx rx2)\<rparr>;
                    (rx4, evs) = (if is_last_frag then deliver env rx3 else (rx3, []))
                in (finish_frag is_last_frag rx4, evs))"

section \<open>The cleanup task\<close>

definition rx_pending_desc :: "gve_rx_ring_gqi \<Rightarrow> gve_rx_desc" where
  "rx_pending_desc rx = rx_desc_ring rx ! unat (cnt rx AND rx_mask rx)"

definition gve_rx_work_pending :: "gve_rx_ring_gqi \<Rightarrow> bool" where
  "gve_rx_work_pending rx \<longleftrightarrow> GVE_SEQNO (flags_seq (rx_pending_desc rx)) = seq_no rx"

definition gve_next_seqno :: "u8 \<Rightarrow> u8" where
  "gve_next_seqno seq = (if seq + 1 = 8 then 1 else seq + 1)"

text \<open>
  The loop of \<open>gve_rx_cleanup\<close> with \<open>mbs\<close> the outcomes of the mbuf allocations by round; \<open>None\<close>
  when \<open>fuel\<close> rounds were not enough.
\<close>

fun gve_rx_cleanup_loop ::
  "nat \<Rightarrow> rx_env \<Rightarrow> (nat \<Rightarrow> nat option) \<Rightarrow> nat \<Rightarrow> nat \<Rightarrow> gve_rx_ring_gqi
     \<Rightarrow> (gve_rx_ring_gqi \<times> nat \<times> rx_event list) option" where
  "gve_rx_cleanup_loop fuel env mbs budget work_done rx =
     (if (work_done < budget \<or> frag_cnt (rx_ctx rx) \<noteq> 0) \<and> gve_rx_work_pending rx
      then case fuel of
             0 \<Rightarrow> None
           | Suc n \<Rightarrow>
               let idx = unat (cnt rx AND rx_mask rx);
                   (rx1, evs) = gve_rx env (mbs work_done) (rx_pending_desc rx) idx rx
               in map_option (\<lambda>(rx', w, evs'). (rx', w, evs @ evs'))
                    (gve_rx_cleanup_loop n env mbs budget (work_done + 1)
                       (rx1\<lparr>cnt := cnt rx1 + 1, seq_no := gve_next_seqno (seq_no rx1)\<rparr>))
      else Some (rx, work_done, []))"

declare gve_rx_cleanup_loop.simps [simp del]

definition gve_rx_cleanup ::
  "rx_env \<Rightarrow> (nat \<Rightarrow> nat option) \<Rightarrow> nat \<Rightarrow> gve_rx_ring_gqi \<Rightarrow> (gve_rx_ring_gqi \<times> rx_event list) option" where
  "gve_rx_cleanup env mbs budget rx =
     (case gve_rx_cleanup_loop (length (rx_desc_ring rx)) env mbs budget 0 rx of
        None \<Rightarrow> None
      | Some (rx1, work_done, evs) \<Rightarrow>
          let (rx2, evs2) =
                (if frag_cnt (rx_ctx rx1) \<noteq> 0
                 then (rx1\<lparr>rx_ctx := empty_ctx\<rparr>, free_head (rx_ctx rx1) @ [RX_SCHEDULE_RESET])
                 else (rx1, []));
              rx3 = rx2\<lparr>fill_cnt := fill_cnt rx2 + of_nat work_done\<rparr>
          in Some (rx3, evs @ evs2 @ (if work_done \<noteq> 0 then [RX_LRO_FLUSH_ALL] else []) @
                        [RX_DB_WRITE_4 (db_offset (rx_com rx3)) (fill_cnt rx3)]))"

text \<open>\<open>desc'\<close> is the pending descriptor at the second look, after the interrupt is unmasked.\<close>

definition gve_rx_cleanup_tq ::
  "bool \<Rightarrow> rx_env \<Rightarrow> (nat \<Rightarrow> nat option) \<Rightarrow> (gve_rx_ring_gqi \<Rightarrow> gve_rx_desc) \<Rightarrow> gve_rx_ring_gqi
     \<Rightarrow> (gve_rx_ring_gqi \<times> rx_event list) option" where
  "gve_rx_cleanup_tq running env mbs desc' rx =
     (if \<not> running then Some (rx, [])
      else case gve_rx_cleanup env mbs 128 rx of
             None \<Rightarrow> None
           | Some (rx1, evs) \<Rightarrow>
               let off = irq_db_offset (rx_com rx1) in
               Some (rx1, evs @ [RX_DB_WRITE_4 off (GVE_IRQ_ACK OR GVE_IRQ_EVENT)] @
                 (if GVE_SEQNO (flags_seq (desc' rx1)) = seq_no rx1
                  then [RX_DB_WRITE_4 off GVE_IRQ_MASK, RX_TASKQUEUE_ENQUEUE] else [])))"

definition gve_rx_intr :: "bool \<Rightarrow> gve_rx_ring_gqi \<Rightarrow> bool \<times> rx_event list" where
  "gve_rx_intr running rx =
     (if \<not> running then (False, [])
      else (True, [RX_DB_WRITE_4 (irq_db_offset (rx_com rx)) GVE_IRQ_MASK, RX_TASKQUEUE_ENQUEUE]))"

end
