(* ===== verification/Gve_Rx_Inv.thy ===== *)
theory Gve_Rx_Inv
  imports Gve_Rx
begin

text \<open>
  Correctness of the GQI receive path: the posted halves are never lent to the stack, the cleanup
  loop ends, packets are reassembled as the device sent them.
\<close>

section \<open>The ring invariant\<close>

text \<open>
  Every slot posts one half of its page, and the half posted is not lent to the network stack:
  the invariant the comment in \<open>gve_rx_clear_data_ring\<close> relies on.
\<close>

definition half :: "nat \<Rightarrow> bool" where "half o' \<longleftrightarrow> o' = 0 \<or> o' = GVE_DEFAULT_RX_BUFFER_OFFSET"

definition slot_ok :: "gve_rx_ring_gqi \<Rightarrow> nat \<Rightarrow> bool" where
  "slot_ok rx i \<longleftrightarrow>
     (let off = page_offset (page_info rx ! i) in
      half (unat off) \<and> data_ring rx ! i = of_nat (PAGE_SIZE * i) + ucast off \<and>
      (i, unat off) \<notin> set (lent rx) \<and> length (pages rx ! i) = PAGE_SIZE)"

definition rx_inv :: "nat \<Rightarrow> gve_rx_ring_gqi \<Rightarrow> bool" where
  "rx_inv k rx \<longleftrightarrow> ring_mask k (rx_mask rx) \<and> length (rx_desc_ring rx) = 2 ^ k \<and>
     length (data_ring rx) = 2 ^ k \<and> length (page_info rx) = 2 ^ k \<and> length (pages rx) = 2 ^ k \<and>
     (\<forall>i < 2 ^ k. slot_ok rx i) \<and> (\<forall>r \<in> set (lent rx). fst r < 2 ^ k \<and> half (snd r)) \<and>
     1 \<le> unat (seq_no rx) \<and> unat (seq_no rx) \<le> 7"

lemma rx_invD:
  assumes "rx_inv k rx"
  shows "ring_mask k (rx_mask rx)" "length (rx_desc_ring rx) = 2 ^ k" "length (data_ring rx) = 2 ^ k"
    "length (page_info rx) = 2 ^ k" "length (pages rx) = 2 ^ k" "\<And>i. i < 2 ^ k \<Longrightarrow> slot_ok rx i"
    "\<And>r. r \<in> set (lent rx) \<Longrightarrow> fst r < 2 ^ k \<and> half (snd r)" "1 \<le> unat (seq_no rx)" "unat (seq_no rx) \<le> 7"
  using assms by (simp_all add: rx_inv_def)

lemma page_addr_bit: "\<not> bit (of_nat (PAGE_SIZE * i) :: u64) 11"
proof -
  have "of_nat (PAGE_SIZE * i) = (push_bit 12 (of_nat i) :: u64)"
    by (simp add: PAGE_SIZE_def push_bit_eq_mult mult.commute)
  then show ?thesis by (simp add: bit_push_bit_iff)
qed

lemma xor_2048_set: "\<not> bit (x :: u64) 11 \<Longrightarrow> x XOR 2048 = x + 2048"
proof -
  assume a: "\<not> bit x 11"
  have "x AND 2 ^ 11 = 0" using a by (simp only: and_exp_eq_0_iff_not_bit) simp
  then have "x AND 2048 = 0" by simp
  then show ?thesis by (simp add: disjunctive_add_eq_xor)
qed

lemma flip_address:
  assumes "half (unat off)"
  shows "(of_nat (PAGE_SIZE * i) + ucast (off :: u32) :: u64) XOR of_nat GVE_DEFAULT_RX_BUFFER_OFFSET
    = of_nat (PAGE_SIZE * i) + ucast (off XOR of_nat GVE_DEFAULT_RX_BUFFER_OFFSET)"
    and "half (unat (off XOR of_nat GVE_DEFAULT_RX_BUFFER_OFFSET))"
    and "unat (off XOR of_nat GVE_DEFAULT_RX_BUFFER_OFFSET) \<noteq> unat off"
proof -
  have o: "off = 0 \<or> off = 2048"
  proof -
    have "unat off = 0 \<or> unat off = 2048"
      using assms by (simp add: half_def GVE_DEFAULT_RX_BUFFER_OFFSET_def PAGE_SIZE_def)
    then have "unat off = unat (0 :: u32) \<or> unat off = unat (2048 :: u32)" by simp
    then show ?thesis by (simp only: word_unat_eq_iff)
  qed
  have g: "(of_nat GVE_DEFAULT_RX_BUFFER_OFFSET :: 'b::len word) = 2048"
    by (simp add: GVE_DEFAULT_RX_BUFFER_OFFSET_def PAGE_SIZE_def)
  note x = xor_2048_set [OF page_addr_bit, of i]
  have "(of_nat (PAGE_SIZE * i) + 2048 :: u64) XOR 2048 = of_nat (PAGE_SIZE * i)"
    unfolding x [symmetric] by (simp add: xor.assoc)
  then show "(of_nat (PAGE_SIZE * i) + ucast off :: u64) XOR of_nat GVE_DEFAULT_RX_BUFFER_OFFSET
    = of_nat (PAGE_SIZE * i) + ucast (off XOR of_nat GVE_DEFAULT_RX_BUFFER_OFFSET)"
    using o x unfolding g by auto
  show "half (unat (off XOR of_nat GVE_DEFAULT_RX_BUFFER_OFFSET))"
    "unat (off XOR of_nat GVE_DEFAULT_RX_BUFFER_OFFSET) \<noteq> unat off"
    using o unfolding g by (auto simp: half_def GVE_DEFAULT_RX_BUFFER_OFFSET_def PAGE_SIZE_def)
qed

lemma wire_count_1: "wire_count rx p = 1 \<longleftrightarrow> (\<forall>off. (p, off) \<notin> set (lent rx))"
  by (force simp: wire_count_def filter_empty_conv)

section \<open>Operations keep it\<close>

definition same_ring :: "gve_rx_ring_gqi \<Rightarrow> gve_rx_ring_gqi \<Rightarrow> bool" where
  "same_ring rx rx' \<longleftrightarrow> rx_desc_ring rx' = rx_desc_ring rx \<and> rx_mask rx' = rx_mask rx \<and> pages rx' = pages rx \<and>
     cnt rx' = cnt rx \<and> seq_no rx' = seq_no rx \<and> fill_cnt rx' = fill_cnt rx \<and> rx_com rx' = rx_com rx"

lemma rx_inv_cong:
  assumes "rx_mask rx' = rx_mask rx" "length (rx_desc_ring rx') = length (rx_desc_ring rx)"
    "data_ring rx' = data_ring rx" "map page_offset (page_info rx') = map page_offset (page_info rx)"
    "map length (pages rx') = map length (pages rx)" "set (lent rx') \<subseteq> set (lent rx)" "seq_no rx' = seq_no rx"
    "rx_inv k rx"
  shows "rx_inv k rx'"
proof -
  note I = rx_invD [OF assms(8)]
  have l: "length (page_info rx') = 2 ^ k" "length (pages rx') = 2 ^ k"
    using assms(4,5) I(4,5) by (metis length_map)+
  have "slot_ok rx' i" if "i < 2 ^ k" for i
  proof -
    have "page_offset (page_info rx' ! i) = page_offset (page_info rx ! i)" "length (pages rx' ! i) = length (pages rx ! i)"
      using assms(4,5) l I(4,5) that by (metis nth_map)+
    then show ?thesis using I(6) [OF that] assms(3,6) by (auto simp: slot_ok_def Let_def)
  qed
  then show ?thesis using assms I l by (auto simp: rx_inv_def)
qed

lemma flip_inv:
  assumes inv: "rx_inv k rx" and i: "idx < 2 ^ k" and free: "wire_count rx idx = 1"
  shows "rx_inv k (gve_rx_flip_buff idx (rx\<lparr>rx_ctx := c, rx_stats := st,
    lent := (idx, unat (page_offset (page_info rx ! idx))) # lent rx\<rparr>))" (is "rx_inv k ?rx'")
proof -
  note I = rx_invD [OF inv]
  let ?off = "page_offset (page_info rx ! idx)"
  have s: "half (unat ?off)" "data_ring rx ! idx = of_nat (PAGE_SIZE * idx) + ucast ?off"
    using I(6) [OF i] by (auto simp: slot_ok_def Let_def)
  note F = flip_address [OF s(1)]
  have "slot_ok ?rx' j" if j: "j < 2 ^ k" for j
  proof (cases "j = idx")
    case True
    have "\<forall>off. (idx, off) \<notin> set (lent rx)" using free unfolding wire_count_1 .
    then show ?thesis
      using True F s I(3,4,6) j by (simp add: slot_ok_def Let_def gve_rx_flip_buff_def)
  next
    case False
    then show ?thesis using I(6) [OF j] by (simp add: slot_ok_def Let_def gve_rx_flip_buff_def)
  qed
  then show ?thesis
    using I i s by (auto simp: rx_inv_def gve_rx_flip_buff_def)
qed

lemma create_mbuf_inv:
  assumes inv: "rx_inv k rx" and i: "idx < 2 ^ k"
    and run: "gve_rx_create_mbuf env mb idx len only rx = (made, rx')"
  shows "rx_inv k rx' \<and> same_ring rx rx'"
proof -
  have up: "rx_inv k (rx\<lparr>rx_ctx := c, rx_stats := st\<rparr>)" "rx_inv k (rx\<lparr>rx_ctx := c\<rparr>)" for c st
    by (rule rx_inv_cong [OF _ _ _ _ _ _ _ inv]; simp)+
  show ?thesis
    using run inv up flip_inv [OF inv i] unfolding gve_rx_create_mbuf_def Let_def
    by (auto simp: same_ring_def gve_rx_flip_buff_def split: if_splits option.splits)
qed


lemma gve_rx_inv:
  assumes inv: "rx_inv k rx" and i: "idx < 2 ^ k" and run: "gve_rx env mb desc idx rx = (rx', evs)"
  shows "rx_inv k rx' \<and> same_ring rx rx'"
proof -
  have cong: "rx_inv k r" if "rx_inv k r0" "page_info r = page_info r0" "data_ring r = data_ring r0" "lent r = lent r0"
      "same_ring r0 r" for r r0
    by (rule rx_inv_cong [OF _ _ _ _ _ _ _ that(1)]) (use that in \<open>simp_all add: same_ring_def\<close>)
  have fin: "rx_inv k (finish_frag b r) = rx_inv k r" "same_ring r0 (finish_frag b r) = same_ring r0 r" for b r r0
    by (simp_all add: finish_frag_def rx_inv_def slot_ok_def same_ring_def)
  have drp: "rx_inv k (drop_frag f r) = rx_inv k r" "same_ring r0 (drop_frag f r) = same_ring r0 r" for f r r0
    by (simp_all add: drop_frag_def rx_inv_def slot_ok_def same_ring_def Let_def)
  have hdr: "rx_inv k (r\<lparr>rx_ctx := c\<rparr>) = rx_inv k r" "same_ring r0 (r\<lparr>rx_ctx := c\<rparr>) = same_ring r0 r" for c r r0
    by (simp_all add: rx_inv_def slot_ok_def same_ring_def)
  have del: "rx_inv k (fst (deliver env r)) = rx_inv k r" "same_ring r0 (fst (deliver env r)) = same_ring r0 r" for r r0
    by (simp_all add: deliver_def rx_inv_def slot_ok_def same_ring_def Let_def split: option.splits)
  let ?pd = "if frag_cnt (rx_ctx rx) = 0 then GVE_RX_PAD else 0"
  let ?rx1 = "rx\<lparr>page_info := (page_info rx)[idx := (page_info rx ! idx)\<lparr>pad := ?pd\<rparr>]\<rparr>"
  have "map page_offset ((page_info rx)[idx := (page_info rx ! idx)\<lparr>pad := ?pd\<rparr>]) = map page_offset (page_info rx)"
    by (simp add: map_update) (metis list_update_id list_update_beyond map_update not_le nth_map)
  then have inv1: "rx_inv k ?rx1" by (intro rx_inv_cong [OF _ _ _ _ _ _ _ inv]) simp_all
  have s1: "same_ring rx ?rx1" by (simp add: same_ring_def)
  obtain made rx2 where c: "gve_rx_create_mbuf env mb idx (desc_len desc - ?pd)
      (frag_cnt (rx_ctx rx) = 0 \<and> GVE_RXF_PKT_CONT AND flags_seq desc = 0) ?rx1 = (made, rx2)"
    by (metis surj_pair)
  have c2: "rx_inv k rx2" "same_ring rx rx2"
    using create_mbuf_inv [OF inv1 i c] s1 by (auto simp: same_ring_def)
  have s0: "same_ring rx rx" by (simp add: same_ring_def)
  show ?thesis
  proof (cases "drop_pkt (rx_ctx rx) \<or> flags_seq desc AND GVE_RXF_ERR \<noteq> 0 \<or> \<not> made")
    case True
    then show ?thesis
      using run inv c c2 s0 by (auto simp: gve_rx_def Let_def fin drp split: if_splits)
  next
    case False
    let ?last = "GVE_RXF_PKT_CONT AND flags_seq desc = 0"
    let ?rx3 = "rx2\<lparr>rx_ctx := first_frag_ctx (frag_cnt (rx_ctx rx) = 0) desc (rx_ctx rx2)\<rparr>"
    have "rx' = finish_frag ?last (if ?last then fst (deliver env ?rx3) else ?rx3)"
      using run c False unfolding gve_rx_def Let_def by (simp add: split_beta split: if_splits)
    then show ?thesis using c2 by (simp add: fin del hdr)
  qed
qed


section \<open>The cleanup loop\<close>

lemma next_seqno_unat:
  assumes "1 \<le> unat s" "unat s \<le> 7"
  shows "unat (gve_next_seqno s) = unat s mod 7 + 1"
proof -
  have u: "unat (s + 1) = unat s + 1"
    using assms unatSuc [of s] by (simp add: add.commute unat_eq_zero [symmetric] unat_word_ariths)
  have "s + 1 = 8 \<longleftrightarrow> unat (s + 1) = unat (8 :: u8)" by (simp only: word_unat_eq_iff)
  then have "s + 1 = 8 \<longleftrightarrow> unat s = 7" using u by simp
  then show ?thesis using u assms by (cases "unat s = 7") (simp_all add: gve_next_seqno_def)
qed

lemma next_seqno_range:
  assumes "1 \<le> unat s" "unat s \<le> 7"
  shows "1 \<le> unat (gve_next_seqno s)" "unat (gve_next_seqno s) \<le> 7"
  using next_seqno_unat [OF assms] mod_less_divisor [of 7 "unat s"] by simp_all

lemma seqno_iter:
  assumes "1 \<le> unat s" "unat s \<le> 7"
  shows "unat ((gve_next_seqno ^^ j) s) = (unat s - 1 + j) mod 7 + 1"
proof (induction j)
  case 0
  then show ?case using assms by simp
next
  case (Suc j)
  let ?t = "(gve_next_seqno ^^ j) s"
  have "1 \<le> unat ?t" "unat ?t \<le> 7" using Suc.IH mod_less_divisor [of 7 "unat s - 1 + j"] by simp_all
  from next_seqno_unat [OF this] Suc.IH show ?case by (simp add: mod_simps)
qed

text \<open>One round, and the state after it.\<close>

definition rx_round :: "rx_env \<Rightarrow> nat option \<Rightarrow> gve_rx_ring_gqi \<Rightarrow> gve_rx_ring_gqi \<times> rx_event list" where
  "rx_round env mb rx =
     (let (rx1, evs) = gve_rx env mb (rx_pending_desc rx) (unat (cnt rx AND rx_mask rx)) rx
      in (rx1\<lparr>cnt := cnt rx1 + 1, seq_no := gve_next_seqno (seq_no rx1)\<rparr>, evs))"

lemma rx_round_inv:
  assumes inv: "rx_inv k rx" and run: "rx_round env mb rx = (rx', evs)"
  shows "rx_inv k rx'" "rx_desc_ring rx' = rx_desc_ring rx" "rx_mask rx' = rx_mask rx" "pages rx' = pages rx"
    "cnt rx' = cnt rx + 1" "seq_no rx' = gve_next_seqno (seq_no rx)" "fill_cnt rx' = fill_cnt rx" "rx_com rx' = rx_com rx"
proof -
  have i: "unat (cnt rx AND rx_mask rx) < 2 ^ k" using rx_invD(1) [OF inv] by (rule and_mask_bound)
  obtain rx1 where g: "gve_rx env mb (rx_pending_desc rx) (unat (cnt rx AND rx_mask rx)) rx = (rx1, evs)"
    and rx': "rx' = rx1\<lparr>cnt := cnt rx1 + 1, seq_no := gve_next_seqno (seq_no rx1)\<rparr>"
    using run by (auto simp: rx_round_def Let_def split: prod.splits)
  note G = gve_rx_inv [OF inv i g]
  show "rx_desc_ring rx' = rx_desc_ring rx" "rx_mask rx' = rx_mask rx" "pages rx' = pages rx"
    "cnt rx' = cnt rx + 1" "seq_no rx' = gve_next_seqno (seq_no rx)" "fill_cnt rx' = fill_cnt rx" "rx_com rx' = rx_com rx"
    using G rx' by (simp_all add: same_ring_def)
  show "rx_inv k rx'"
    using G rx' next_seqno_range [OF rx_invD(8,9) [of k rx1]] by (simp add: rx_inv_def slot_ok_def)
qed

lemma cleanup_loop_step:
  "gve_rx_cleanup_loop fuel env mbs budget w rx =
     (if (w < budget \<or> frag_cnt (rx_ctx rx) \<noteq> 0) \<and> gve_rx_work_pending rx
      then case fuel of 0 \<Rightarrow> None
           | Suc n \<Rightarrow> (case rx_round env (mbs w) rx of (rx1, evs) \<Rightarrow>
               map_option (\<lambda>(rx', w', evs'). (rx', w', evs @ evs')) (gve_rx_cleanup_loop n env mbs budget (w + 1) rx1))
      else Some (rx, w, []))"
  by (subst gve_rx_cleanup_loop.simps) (simp add: rx_round_def Let_def split_beta split: nat.splits)

lemma cleanup_rx_loop_inv:
  assumes "rx_inv k rx" and "gve_rx_cleanup_loop fuel env mbs budget w rx = Some (rx', w', evs)"
  shows "rx_inv k rx' \<and> pages rx' = pages rx \<and> rx_desc_ring rx' = rx_desc_ring rx \<and> rx_com rx' = rx_com rx \<and>
    w \<le> w' \<and> cnt rx' = cnt rx + of_nat (w' - w) \<and> fill_cnt rx' = fill_cnt rx \<and>
    (w' < budget \<or> frag_cnt (rx_ctx rx') \<noteq> 0 \<longrightarrow> \<not> gve_rx_work_pending rx')"
  using assms
proof (induction fuel arbitrary: w rx evs)
  case 0
  then show ?case by (subst (asm) cleanup_loop_step) (auto split: if_splits)
next
  case (Suc n)
  show ?case
  proof (cases "(w < budget \<or> frag_cnt (rx_ctx rx) \<noteq> 0) \<and> gve_rx_work_pending rx")
    case False
    then show ?thesis using Suc.prems by (subst (asm) cleanup_loop_step) auto
  next
    case True
    obtain rx1 evs1 where r: "rx_round env (mbs w) rx = (rx1, evs1)" by (metis surj_pair)
    obtain evs2 where l: "gve_rx_cleanup_loop n env mbs budget (w + 1) rx1 = Some (rx', w', evs2)"
      using Suc.prems(2) True r by (subst (asm) cleanup_loop_step) auto
    note R = rx_round_inv [OF Suc.prems(1) r]
    have IH: "rx_inv k rx' \<and> pages rx' = pages rx1 \<and> rx_desc_ring rx' = rx_desc_ring rx1 \<and> rx_com rx' = rx_com rx1 \<and>
      w + 1 \<le> w' \<and> cnt rx' = cnt rx1 + of_nat (w' - (w + 1)) \<and> fill_cnt rx' = fill_cnt rx1 \<and>
      (w' < budget \<or> frag_cnt (rx_ctx rx') \<noteq> 0 \<longrightarrow> \<not> gve_rx_work_pending rx')"
      using Suc.IH [OF R(1) l] .
    moreover have "(of_nat (w' - w) :: u32) = 1 + of_nat (w' - (w + 1))"
      using IH by (metis Suc_diff_Suc Suc_eq_plus1 Suc_le_lessD of_nat_Suc)
    ultimately show ?thesis using R by simp
  qed
qed

text \<open>
  The loop ends: it would have to see the descriptor it started with again, one lap later, with a
  sequence number that has advanced by the ring size, which is not a multiple of 7.
\<close>

lemma cleanup_loop_None:
  assumes "rx_inv k rx" and "gve_rx_cleanup_loop fuel env mbs budget w rx = None" and "j \<le> fuel"
  shows "GVE_SEQNO (flags_seq (rx_desc_ring rx ! unat ((cnt rx + of_nat j) AND rx_mask rx))) = (gve_next_seqno ^^ j) (seq_no rx)"
  using assms
proof (induction fuel arbitrary: w rx j)
  case 0
  then show ?case by (subst (asm) cleanup_loop_step) (auto simp: gve_rx_work_pending_def rx_pending_desc_def split: if_splits)
next
  case (Suc n)
  have pend: "gve_rx_work_pending rx"
    using Suc.prems(2) by (subst (asm) cleanup_loop_step) (auto split: if_splits)
  obtain rx1 evs1 where r: "rx_round env (mbs w) rx = (rx1, evs1)" by (metis surj_pair)
  have l: "gve_rx_cleanup_loop n env mbs budget (w + 1) rx1 = None"
    using Suc.prems(2) r by (subst (asm) cleanup_loop_step) (auto split: if_splits)
  note R = rx_round_inv [OF Suc.prems(1) r]
  show ?case
  proof (cases j)
    case 0
    then show ?thesis using pend by (simp add: gve_rx_work_pending_def rx_pending_desc_def)
  next
    case (Suc j')
    then show ?thesis
      using Suc.IH [OF R(1) l, of j'] Suc.prems(3) R by (simp add: funpow_swap1 add.assoc)
  qed
qed

lemma two_power_mod_7: "(2::nat) ^ k mod 7 \<noteq> 0"
proof -
  have "2 ^ k mod 7 \<in> {1, 2, 4 :: nat}"
  proof (induction k)
    case (Suc k)
    have "2 ^ Suc k mod 7 = 2 * (2 ^ k mod 7) mod (7 :: nat)" by (simp add: mod_simps)
    with Suc show ?case by auto
  qed simp
  then show ?thesis by auto
qed

lemma cleanup_loop_ends:
  assumes inv: "rx_inv k rx"
  shows "gve_rx_cleanup_loop (2 ^ k) env mbs budget w rx \<noteq> None"
proof
  assume n: "gve_rx_cleanup_loop (2 ^ k) env mbs budget w rx = None"
  note I = rx_invD [OF inv]
  have "unat ((cnt rx + of_nat (2 ^ k)) AND rx_mask rx) = unat (cnt rx AND rx_mask rx)"
    using I(1) unat_add_of_nat_mod [OF I(1), of "cnt rx" "2 ^ k"] by (simp add: unat_and_mask)
  then have "(gve_next_seqno ^^ (2 ^ k)) (seq_no rx) = seq_no rx"
    using cleanup_loop_None [OF inv n, of "2 ^ k"] cleanup_loop_None [OF inv n, of 0] by simp
  then have "(unat (seq_no rx) - 1 + 2 ^ k) mod 7 + 1 = unat (seq_no rx)"
    using seqno_iter [OF I(8,9), of "2 ^ k"] by metis
  then have "(unat (seq_no rx) - 1 + 2 ^ k) mod 7 = unat (seq_no rx) - 1" by linarith
  moreover have "(unat (seq_no rx) - 1) mod 7 = unat (seq_no rx) - 1" using I(8,9) by simp
  ultimately have "(unat (seq_no rx) - 1 + 2 ^ k) mod 7 = (unat (seq_no rx) - 1 + 0) mod 7" by simp
  then have "2 ^ k mod 7 = (0 :: nat)"
    by (metis add.right_neutral mod_add_neq mod_add_right_eq mod_less_divisor mod_mod_trivial mod_0 zero_less_numeral)
  then show False using two_power_mod_7 by simp
qed


section \<open>Device, driver and network stack together\<close>

text \<open>
  The device writes data where a slot points, and descriptors; the driver runs its cleanup; the
  stack drops references.
\<close>

inductive rx_step :: "gve_rx_ring_gqi \<Rightarrow> gve_rx_ring_gqi \<Rightarrow> bool" where
  dev_data: "i < length (data_ring rx) \<Longrightarrow> length bs \<le> GVE_DEFAULT_RX_BUFFER_SIZE \<Longrightarrow>
    p = unat (data_ring rx ! i) div PAGE_SIZE \<Longrightarrow> off = unat (data_ring rx ! i) mod PAGE_SIZE \<Longrightarrow>
    rx_step rx (rx\<lparr>pages := (pages rx)[p := blit (pages rx ! p) off bs]\<rparr>)"
| dev_desc: "rx_step rx (rx\<lparr>rx_desc_ring := (rx_desc_ring rx)[i := d]\<rparr>)"
| drv_cleanup: "gve_rx_cleanup env mbs budget rx = Some (rx', evs) \<Longrightarrow> rx_step rx rx'"
| drv_restart: "rx_step rx (gve_clear_rx_ring (length (rx_desc_ring rx)) rx)"
| stack_free: "r \<in> set (lent rx) \<Longrightarrow> rx_step rx (rx\<lparr>lent := remove1 r (lent rx)\<rparr>)"

lemma cleanup_inv:
  assumes inv: "rx_inv k rx" and run: "gve_rx_cleanup env mbs budget rx = Some (rx', evs)"
  shows "rx_inv k rx' \<and> pages rx' = pages rx"
proof -
  obtain rx1 w evs1 where l: "gve_rx_cleanup_loop (length (rx_desc_ring rx)) env mbs budget 0 rx = Some (rx1, w, evs1)"
    using run by (auto simp: gve_rx_cleanup_def split: option.splits)
  note L = cleanup_rx_loop_inv [OF inv l]
  have inv1: "rx_inv k rx1" using L by blast
  then have "rx_inv k (rx1\<lparr>rx_ctx := c, fill_cnt := f\<rparr>)" "rx_inv k (rx1\<lparr>fill_cnt := f\<rparr>)" for c f
    by (simp_all add: rx_inv_def slot_ok_def)
  then show ?thesis using run l L by (auto simp: gve_rx_cleanup_def Let_def split: if_splits)
qed

lemma clear_inv:
  assumes "k < 32" "length (rx_desc_ring rx) = 2 ^ k" "length (data_ring rx) = 2 ^ k"
    "length (page_info rx) = 2 ^ k" "length (pages rx) = 2 ^ k"
    and slot: "\<And>i. i < 2 ^ k \<Longrightarrow> half (unat (page_offset (page_info rx ! i))) \<and>
      (i, unat (page_offset (page_info rx ! i))) \<notin> set (lent rx) \<and> length (pages rx ! i) = PAGE_SIZE"
    and lent: "\<And>r. r \<in> set (lent rx) \<Longrightarrow> fst r < 2 ^ k \<and> half (snd r)"
  shows "rx_inv k (gve_clear_rx_ring (2 ^ k) rx)"
proof -
  have "ring_mask k (of_nat (2 ^ k) - 1)" using assms(1) by (simp add: ring_mask_def mask_eq_exp_minus_1)
  then show ?thesis
    using assms(2-) by (auto simp: rx_inv_def slot_ok_def Let_def gve_clear_rx_ring_def gve_rx_clear_data_ring_def
        gve_rx_clear_desc_ring_def)
qed

lemma restart_inv:
  assumes inv: "rx_inv k rx"
  shows "rx_inv k (gve_clear_rx_ring (length (rx_desc_ring rx)) rx)"
proof -
  note I = rx_invD [OF inv]
  have "k < 32" using I(1) by (simp add: ring_mask_def)
  then show ?thesis unfolding I(2)
    by (rule clear_inv) (use I in \<open>auto simp: slot_ok_def Let_def\<close>)
qed

text \<open>A ring as \<open>gve_rx_alloc_ring\<close> leaves it before the slots are filled.\<close>

definition rx_alloced :: "nat \<Rightarrow> gve_rx_ring_gqi \<Rightarrow> bool" where
  "rx_alloced k rx \<longleftrightarrow> k < 32 \<and> length (rx_desc_ring rx) = 2 ^ k \<and> length (data_ring rx) = 2 ^ k \<and>
     length (page_info rx) = 2 ^ k \<and> length (pages rx) = 2 ^ k \<and> (\<forall>pg \<in> set (pages rx). length pg = PAGE_SIZE) \<and> lent rx = []"

lemma alloced_inv:
  assumes "rx_alloced k rx"
  shows "rx_inv k (gve_clear_rx_ring (2 ^ k) (gve_prefill_rx_slots (2 ^ k) rx))"
  by (rule clear_inv) (use assms in \<open>auto simp: rx_alloced_def gve_prefill_rx_slots_def half_def\<close>)

lemma posted_address:
  assumes inv: "rx_inv k rx" and i: "i < 2 ^ k"
  shows "unat (data_ring rx ! i) div PAGE_SIZE = i"
    "unat (data_ring rx ! i) mod PAGE_SIZE = unat (page_offset (page_info rx ! i))"
proof -
  let ?off = "page_offset (page_info rx ! i)"
  have s: "half (unat ?off)" "data_ring rx ! i = of_nat (PAGE_SIZE * i) + ucast ?off"
    using rx_invD(6) [OF inv i] by (auto simp: slot_ok_def Let_def)
  have h: "unat ?off \<le> 2048" using s(1) by (auto simp: half_def GVE_DEFAULT_RX_BUFFER_OFFSET_def PAGE_SIZE_def)
  have "k < 32" using rx_invD(1) [OF inv] by (simp add: ring_mask_def)
  then have "(2::nat) ^ k \<le> 2 ^ 31" by (intro power_increasing) auto
  then have b: "PAGE_SIZE * i + unat ?off < 2 ^ 64" using i h by (simp add: PAGE_SIZE_def)
  have "data_ring rx ! i = of_nat (PAGE_SIZE * i + unat ?off)"
    using s(2) by (simp add: unsigned_ucast_eq)
  then have "unat (data_ring rx ! i) = PAGE_SIZE * i + unat ?off"
    using b by (simp only: unat_of_nat take_bit_eq_mod) simp
  then show "unat (data_ring rx ! i) div PAGE_SIZE = i"
    "unat (data_ring rx ! i) mod PAGE_SIZE = unat ?off"
    using h by (simp_all add: PAGE_SIZE_def)
qed

lemma blit_other_half:
  assumes "length pg = PAGE_SIZE" "half a" "half b" "a \<noteq> b" "length bs \<le> GVE_DEFAULT_RX_BUFFER_SIZE"
  shows "length (blit pg a bs) = PAGE_SIZE"
    and "slice (blit pg a bs) b GVE_DEFAULT_RX_BUFFER_SIZE = slice pg b GVE_DEFAULT_RX_BUFFER_SIZE"
proof -
  have ab: "a + length bs \<le> length pg" "b + GVE_DEFAULT_RX_BUFFER_SIZE \<le> length pg"
    using assms by (auto simp: half_def GVE_DEFAULT_RX_BUFFER_OFFSET_def GVE_DEFAULT_RX_BUFFER_SIZE_def PAGE_SIZE_def)
  show "length (blit pg a bs) = PAGE_SIZE" using ab assms(1) by simp
  show "slice (blit pg a bs) b GVE_DEFAULT_RX_BUFFER_SIZE = slice pg b GVE_DEFAULT_RX_BUFFER_SIZE"
    using ab assms(2-5)
    by (intro slice_blit_disjoint)
      (auto simp: half_def GVE_DEFAULT_RX_BUFFER_OFFSET_def GVE_DEFAULT_RX_BUFFER_SIZE_def PAGE_SIZE_def)
qed

lemma rx_step_inv:
  assumes inv: "rx_inv k rx" and st: "rx_step rx rx'"
  shows "rx_inv k rx' \<and> (\<forall>(p, off) \<in> set (lent rx).
    slice (pages rx' ! p) off GVE_DEFAULT_RX_BUFFER_SIZE = slice (pages rx ! p) off GVE_DEFAULT_RX_BUFFER_SIZE)"
  using st
proof cases
  case (dev_data i bs p off)
  note 1 = dev_data(1,2,3)
  note I = rx_invD [OF inv]
  have i: "i < 2 ^ k" using 1(2) I(3) by simp
  have p: "p = i" "off = unat (page_offset (page_info rx ! i))" using posted_address [OF inv i] dev_data by simp_all
  have s: "half off" "(i, off) \<notin> set (lent rx)" "length (pages rx ! i) = PAGE_SIZE"
    using I(6) [OF i] p by (auto simp: slot_ok_def Let_def)
  have len: "length (blit (pages rx ! i) off bs) = PAGE_SIZE"
    using s 1(3) by (auto simp: half_def GVE_DEFAULT_RX_BUFFER_OFFSET_def GVE_DEFAULT_RX_BUFFER_SIZE_def PAGE_SIZE_def)
  have "map length (pages rx') = map length (pages rx)"
    using 1(1) p len s(3) by (simp add: map_update) (metis list_update_id map_update nth_map I(5) i length_map)
  then have "rx_inv k rx'" using 1(1) by (intro rx_inv_cong [OF _ _ _ _ _ _ _ inv]) simp_all
  moreover have "slice (pages rx' ! q) o' GVE_DEFAULT_RX_BUFFER_SIZE = slice (pages rx ! q) o' GVE_DEFAULT_RX_BUFFER_SIZE"
    if r: "(q, o') \<in> set (lent rx)" for q o'
  proof (cases "q = i")
    case True
    have "half o'" "off \<noteq> o'" using I(7) [OF r] s(2) r True by auto
    then show ?thesis using blit_other_half(2) [OF s(3,1) _ _ 1(3)] True 1(1) p i I(5) by simp
  next
    case False
    then show ?thesis using 1(1) p by simp
  qed
  ultimately show ?thesis by auto
next
  case (dev_desc i d)
  then have "rx_inv k rx'" by (intro rx_inv_cong [OF _ _ _ _ _ _ _ inv]) simp_all
  then show ?thesis using dev_desc by auto
next
  case (drv_cleanup env mbs budget evs)
  then show ?thesis using cleanup_inv [OF inv] by auto
next
  case drv_restart
  then show ?thesis using restart_inv [OF inv]
    by (auto simp: gve_clear_rx_ring_def gve_rx_clear_data_ring_def gve_rx_clear_desc_ring_def)
next
  case (stack_free r)
  then have "rx_inv k rx'"
    by (intro rx_inv_cong [OF _ _ _ _ _ _ _ inv]) (use set_remove1_subset [of r "lent rx"] in auto)
  then show ?thesis using stack_free by auto
qed


section \<open>Reassembly of a packet\<close>

fun frag_bytes :: "u8 list list \<Rightarrow> rx_frag \<Rightarrow> u8 list" where
  "frag_bytes pg (Copied bs) = bs"
| "frag_bytes pg (External p off len) = slice (pg ! p) off len"
| "frag_bytes pg (Cluster p bs) = bs"

text \<open>The bytes a descriptor announces: the first fragment is preceded by two bytes of padding.\<close>

definition announced :: "bool \<Rightarrow> gve_rx_ring_gqi \<Rightarrow> gve_rx_desc \<Rightarrow> nat \<Rightarrow> u8 list" where
  "announced first rx desc idx =
     (let pd = (if first then GVE_RX_PAD else 0)
      in slice (pages rx ! idx) (unat (page_offset (page_info rx ! idx)) + unat pd) (unat (desc_len desc - pd)))"

definition is_last :: "gve_rx_desc \<Rightarrow> bool" where
  "is_last desc \<longleftrightarrow> GVE_RXF_PKT_CONT AND flags_seq desc = 0"

definition no_err :: "gve_rx_desc \<Rightarrow> bool" where
  "no_err desc \<longleftrightarrow> flags_seq desc AND GVE_RXF_ERR = 0"

lemma create_mbuf_ok:
  assumes "idx < length (page_info rx)" and "only \<Longrightarrow> \<not> mbuf_tail (rx_ctx rx)"
  shows "\<exists>f rx'. gve_rx_create_mbuf env (Some p) idx len only rx = (True, rx') \<and>
    frag_bytes (pages rx) f = slice (pages rx ! idx)
      (unat (page_offset (page_info rx ! idx)) + unat (pad (page_info rx ! idx))) (unat len) \<and>
    rx_ctx rx' = (add_frag p f (rx_ctx rx))\<lparr>total_size := total_size (rx_ctx rx) + ucast len\<rparr> \<and>
    (\<forall>j. j \<noteq> idx \<longrightarrow> page_info rx' ! j = page_info rx ! j) \<and> length (page_info rx') = length (page_info rx) \<and> pages rx' = pages rx"
proof -
  let ?off = "unat (page_offset (page_info rx ! idx)) + unat (pad (page_info rx ! idx))"
  let ?data = "slice (pages rx ! idx) ?off (unat len)"
  consider "ucast len \<le> rx_copybreak env \<and> only" | "\<not> (ucast len \<le> rx_copybreak env \<and> only)" "wire_count rx idx = 1"
    | "\<not> (ucast len \<le> rx_copybreak env \<and> only)" "wire_count rx idx \<noteq> 1" by blast
  then show ?thesis
  proof cases
    case 1
    then show ?thesis using assms(2)
      by (intro exI [of _ "Copied ?data"]) (simp add: gve_rx_create_mbuf_def Let_def add_frag_def)
  next
    case 2
    then show ?thesis
      by (intro exI [of _ "External idx ?off (unat len)"])
        (simp add: gve_rx_create_mbuf_def Let_def gve_rx_flip_buff_def del: de_Morgan_conj)
  next
    case 3
    then show ?thesis
      by (intro exI [of _ "Copied ?data"]) (simp add: gve_rx_create_mbuf_def Let_def del: de_Morgan_conj)
  qed
qed

definition delivery :: "rx_env \<Rightarrow> gve_rx_ctx \<Rightarrow> rx_event" where
  "delivery env ctx =
     (let m = (the (mbuf_head ctx))\<lparr>rm_len := total_size ctx\<rparr> in
      if lro_enabled env \<and> is_tcp ctx \<and> rm_csum_valid m \<and> lro_cnt env \<noteq> 0 \<and> tcp_lro_rx_ok env m
      then RX_TCP_LRO m else RX_IF_INPUT m)"

lemma gve_rx_ok:
  assumes "idx < length (page_info rx)" and "\<not> drop_pkt (rx_ctx rx)" and "no_err desc"
    and "frag_cnt (rx_ctx rx) = 0 \<longleftrightarrow> \<not> mbuf_tail (rx_ctx rx)" and "mbuf_tail (rx_ctx rx) \<Longrightarrow> mbuf_head (rx_ctx rx) \<noteq> None"
  defines "first \<equiv> frag_cnt (rx_ctx rx) = 0"
  shows "\<exists>f rx' ctx. frag_bytes (pages rx) f = announced first rx desc idx \<and>
    ctx = first_frag_ctx first desc ((add_frag p f (rx_ctx rx))\<lparr>total_size := total_size (rx_ctx rx) +
        ucast (desc_len desc - (if first then GVE_RX_PAD else 0))\<rparr>) \<and>
    gve_rx env (Some p) desc idx rx = (rx', if is_last desc then [delivery env ctx] else []) \<and>
    rx_ctx rx' = (if is_last desc then empty_ctx else ctx\<lparr>frag_cnt := frag_cnt ctx + 1\<rparr>) \<and>
    (\<forall>j. j \<noteq> idx \<longrightarrow> page_info rx' ! j = page_info rx ! j) \<and> length (page_info rx') = length (page_info rx) \<and> pages rx' = pages rx"
proof -
  let ?pd = "if first then GVE_RX_PAD else 0"
  let ?rx1 = "rx\<lparr>page_info := (page_info rx)[idx := (page_info rx ! idx)\<lparr>pad := ?pd\<rparr>]\<rparr>"
  have "first \<and> is_last desc \<Longrightarrow> \<not> mbuf_tail (rx_ctx ?rx1)" using assms(4) by (simp add: first_def)
  then obtain f rx2 where c: "gve_rx_create_mbuf env (Some p) idx (desc_len desc - ?pd) (first \<and> is_last desc) ?rx1 = (True, rx2)"
    and f: "frag_bytes (pages rx) f = announced first rx desc idx"
    and ctx: "rx_ctx rx2 = (add_frag p f (rx_ctx rx))\<lparr>total_size := total_size (rx_ctx rx) + ucast (desc_len desc - ?pd)\<rparr>"
    and oth: "\<forall>j. j \<noteq> idx \<longrightarrow> page_info rx2 ! j = page_info rx ! j" "length (page_info rx2) = length (page_info rx)" "pages rx2 = pages rx"
    using create_mbuf_ok [of idx ?rx1 "first \<and> is_last desc" env p "desc_len desc - ?pd"] assms(1)
    by (auto simp: announced_def Let_def)
  let ?ctx = "first_frag_ctx first desc (rx_ctx rx2)"
  have hd: "mbuf_head ?ctx \<noteq> None"
    using assms(5) ctx by (auto simp: first_frag_ctx_def add_frag_def)
  have g: "gve_rx env (Some p) desc idx rx =
      (let (rx4, evs) = (if is_last desc then deliver env (rx2\<lparr>rx_ctx := ?ctx\<rparr>) else (rx2\<lparr>rx_ctx := ?ctx\<rparr>, []))
       in (finish_frag (is_last desc) rx4, evs))"
    using c assms(2,3) by (simp add: gve_rx_def Let_def is_last_def no_err_def first_def)
  have d: "snd (deliver env (rx2\<lparr>rx_ctx := ?ctx\<rparr>)) = [delivery env ?ctx]"
    "page_info (fst (deliver env (rx2\<lparr>rx_ctx := ?ctx\<rparr>))) = page_info rx2"
    "pages (fst (deliver env (rx2\<lparr>rx_ctx := ?ctx\<rparr>))) = pages rx2"
    using hd by (auto simp: deliver_def delivery_def Let_def)
  show ?thesis
  proof (cases "is_last desc")
    case True
    then have "gve_rx env (Some p) desc idx rx =
        (finish_frag True (fst (deliver env (rx2\<lparr>rx_ctx := ?ctx\<rparr>))), [delivery env ?ctx])"
      using g d(1) by (simp add: Let_def split_beta)
    then show ?thesis
      using True f ctx oth d(2,3) by (intro exI [of _ f] exI [of _ "finish_frag True (fst (deliver env (rx2\<lparr>rx_ctx := ?ctx\<rparr>)))"]
        exI [of _ ?ctx] conjI) (simp_all add: finish_frag_def)
  next
    case False
    then have "gve_rx env (Some p) desc idx rx = (finish_frag False (rx2\<lparr>rx_ctx := ?ctx\<rparr>), [])"
      using g by simp
    then show ?thesis
      using False f ctx oth by (intro exI [of _ f] exI [of _ "finish_frag False (rx2\<lparr>rx_ctx := ?ctx\<rparr>)"]
        exI [of _ ?ctx] conjI) (simp_all add: finish_frag_def)
  qed
qed


text \<open>The fragments of one packet, each with the mbuf allocated for it, its descriptor and its slot.\<close>

fun rx_packet :: "rx_env \<Rightarrow> (nat \<times> gve_rx_desc \<times> nat) list \<Rightarrow> gve_rx_ring_gqi \<Rightarrow> gve_rx_ring_gqi \<times> rx_event list" where
  "rx_packet env [] rx = (rx, [])"
| "rx_packet env ((p, desc, idx) # xs) rx =
     (let (rx1, evs) = gve_rx env (Some p) desc idx rx; (rx2, evs2) = rx_packet env xs rx1 in (rx2, evs @ evs2))"

definition collecting :: "gve_rx_ctx \<Rightarrow> rx_mbuf \<Rightarrow> bool" where
  "collecting ctx m \<longleftrightarrow> mbuf_head ctx = Some m \<and> mbuf_tail ctx \<and> \<not> drop_pkt ctx \<and> frag_cnt ctx \<noteq> 0"

definition chain_event :: "rx_event \<Rightarrow> rx_mbuf option" where
  "chain_event ev = (case ev of RX_IF_INPUT m \<Rightarrow> Some m | RX_TCP_LRO m \<Rightarrow> Some m | _ \<Rightarrow> None)"

lemma chain_event_delivery: "chain_event (delivery env ctx) = Some ((the (mbuf_head ctx))\<lparr>rm_len := total_size ctx\<rparr>)"
  by (simp add: chain_event_def delivery_def Let_def)

text \<open>What remains to be received once the first fragment is in.\<close>

definition well_framed :: "gve_rx_desc list \<Rightarrow> bool" where
  "well_framed ds \<longleftrightarrow> ds \<noteq> [] \<and> is_last (last ds) \<and> (\<forall>d \<in> set (butlast ds). \<not> is_last d) \<and> (\<forall>d \<in> set ds. no_err d)"

lemma rx_packet_rest:
  assumes "collecting (rx_ctx rx) m" and "well_framed (map (\<lambda>(_, d, _). d) xs)"
    and "unat (frag_cnt (rx_ctx rx)) + length xs < 256"
    and "distinct (map (\<lambda>(_, _, i). i) xs)" and "\<forall>(_, _, i) \<in> set xs. i < length (page_info rx)"
  shows "\<exists>rx' ev m'. rx_packet env xs rx = (rx', [ev]) \<and> chain_event ev = Some m' \<and> rx_ctx rx' = empty_ctx \<and>
    m' = m\<lparr>rm_frags := rm_frags m', rm_len := rm_len m'\<rparr> \<and>
    concat (map (frag_bytes (pages rx)) (rm_frags m')) =
      concat (map (frag_bytes (pages rx)) (rm_frags m)) @ concat (map (\<lambda>(_, d, i). announced False rx d i) xs) \<and>
    rm_len m' = total_size (rx_ctx rx) + sum_list (map (\<lambda>(_, d, _). ucast (desc_len d)) xs)"
  using assms
proof (induction xs arbitrary: rx m)
  case Nil
  then show ?case by (simp add: well_framed_def)
next
  case (Cons x xs)
  obtain p d i where x: "x = (p, d, i)" by (cases x) auto
  have c: "mbuf_head (rx_ctx rx) = Some m" "mbuf_tail (rx_ctx rx)" "\<not> drop_pkt (rx_ctx rx)" "frag_cnt (rx_ctx rx) \<noteq> 0"
    using Cons.prems(1) by (simp_all add: collecting_def)
  have d: "no_err d" "i < length (page_info rx)" using Cons.prems(2,5) x by (auto simp: well_framed_def)
  define m1 where "m1 = (\<lambda>f. m\<lparr>rm_frags := rm_frags m @ [f]\<rparr>)"
  obtain f rx1 ctx where f: "frag_bytes (pages rx) f = announced False rx d i"
    and ctx: "ctx = (rx_ctx rx)\<lparr>mbuf_head := Some (m1 f), total_size := total_size (rx_ctx rx) + ucast (desc_len d)\<rparr>"
    and run: "gve_rx env (Some p) d i rx = (rx1, if is_last d then [delivery env ctx] else [])"
    and ctx1: "rx_ctx rx1 = (if is_last d then empty_ctx else ctx\<lparr>frag_cnt := frag_cnt ctx + 1\<rparr>)"
    and oth: "\<forall>j. j \<noteq> i \<longrightarrow> page_info rx1 ! j = page_info rx ! j" "length (page_info rx1) = length (page_info rx)" "pages rx1 = pages rx"
    using gve_rx_ok [OF d(2) c(3) d(1), of p env] c by (auto simp: first_frag_ctx_def add_frag_def m1_def)
  show ?case
  proof (cases "xs = []")
    case True
    then have "is_last d" using Cons.prems(2) x by (simp add: well_framed_def)
    then show ?thesis
      using run ctx1 f x True ctx
      by (simp add: Let_def chain_event_delivery m1_def)
  next
    case False
    then have nl: "\<not> is_last d" and wf: "well_framed (map (\<lambda>(_, d, _). d) xs)"
      using Cons.prems(2) x by (auto simp: well_framed_def)
    have fc: "unat (frag_cnt (rx_ctx rx) + 1) = unat (frag_cnt (rx_ctx rx)) + 1"
      using Cons.prems(3) by (simp add: unat_word_ariths)
    then have "frag_cnt (rx_ctx rx) + 1 \<noteq> 0" by (metis add_is_0 unat_0 zero_neq_one)
    then have col: "collecting (rx_ctx rx1) (m1 f)" using ctx1 ctx nl c by (simp add: collecting_def)
    have "unat (frag_cnt (rx_ctx rx1)) + length xs < 256" using ctx1 ctx nl fc Cons.prems(3) by simp
    moreover have "distinct (map (\<lambda>(_, _, i). i) xs)" "\<forall>(_, _, i) \<in> set xs. i < length (page_info rx1)"
      using Cons.prems(4,5) x oth(2) by auto
    ultimately obtain rx' ev m' where r: "rx_packet env xs rx1 = (rx', [ev])" "chain_event ev = Some m'" "rx_ctx rx' = empty_ctx"
      "m' = (m1 f)\<lparr>rm_frags := rm_frags m', rm_len := rm_len m'\<rparr>"
      "concat (map (frag_bytes (pages rx1)) (rm_frags m')) =
        concat (map (frag_bytes (pages rx1)) (rm_frags (m1 f))) @ concat (map (\<lambda>(_, d, i). announced False rx1 d i) xs)"
      "rm_len m' = total_size (rx_ctx rx1) + sum_list (map (\<lambda>(_, d, _). ucast (desc_len d)) xs)"
      using Cons.IH [OF col wf] by blast
    have ann: "map (\<lambda>(_, d, i). announced False rx1 d i) xs = map (\<lambda>(_, d, i). announced False rx d i) xs"
    proof (rule map_cong [OF refl], clarify)
      fix p' d' i' assume "(p', d', i') \<in> set xs"
      then have "i' \<noteq> i" using Cons.prems(4) x by (auto simp: image_iff)
      then show "announced False rx1 d' i' = announced False rx d' i'" using oth by (simp add: announced_def)
    qed
    have "concat (map (frag_bytes (pages rx)) (rm_frags m')) = concat (map (frag_bytes (pages rx)) (rm_frags m)) @
        announced False rx d i @ concat (map (\<lambda>(_, d, i). announced False rx d i) xs)"
      using r(5) f unfolding ann oth(3) by (simp add: m1_def)
    moreover have "rm_len m' = total_size (rx_ctx rx) + (ucast (desc_len d) + sum_list (map (\<lambda>(_, d, _). ucast (desc_len d)) xs))"
      using r(6) ctx1 nl ctx by (simp add: add.assoc)
    moreover have "rx_packet env (x # xs) rx = (rx', [ev])" using run r(1) nl x by simp
    moreover have "m' = m\<lparr>rm_frags := rm_frags m', rm_len := rm_len m'\<rparr>" using r(4) by (simp add: m1_def)
    ultimately show ?thesis using r(2,3) x by auto
  qed
qed


lemma rx_steps_inv:
  assumes "rx_step\<^sup>*\<^sup>* rx rx'" and "rx_inv k rx"
  shows "rx_inv k rx'"
  using assms by (induction) (use rx_step_inv in blast)+

lemma unat_sum_ucast:
  "sum_list (map unat (xs :: u16 list)) < 2 ^ 32 \<Longrightarrow> unat (sum_list (map ucast xs) :: u32) = sum_list (map unat xs)"
  by (induction xs) (simp_all add: unat_word_ariths unsigned_ucast_eq take_bit_eq_mod)

lemma length_announced:
  assumes inv: "rx_inv k rx" and i: "i < 2 ^ k" and l: "unat (desc_len d) \<le> GVE_DEFAULT_RX_BUFFER_SIZE"
    and f: "first \<Longrightarrow> 2 \<le> unat (desc_len d)"
  shows "length (announced first rx d i) = unat (desc_len d - (if first then GVE_RX_PAD else 0))"
proof -
  have s: "half (unat (page_offset (page_info rx ! i)))" "length (pages rx ! i) = PAGE_SIZE"
    using rx_invD(6) [OF inv i] by (auto simp: slot_ok_def Let_def)
  have "unat (desc_len d - GVE_RX_PAD) = unat (desc_len d) - 2" if first
    using f [OF that] by (simp add: GVE_RX_PAD_def unat_sub_if' )
  then show ?thesis
    using s l f unfolding announced_def Let_def
    by (intro length_slice) (auto simp: half_def GVE_RX_PAD_def GVE_DEFAULT_RX_BUFFER_OFFSET_def GVE_DEFAULT_RX_BUFFER_SIZE_def PAGE_SIZE_def)
qed

text \<open>A whole packet from an empty context: its chain, before the length is tied to the bytes.\<close>

lemma rx_packet_chain:
  assumes "rx_ctx rx = empty_ctx" and "well_framed (d # map (\<lambda>(_, d, _). d) xs)" and "length xs < 255"
    and "distinct (i # map (\<lambda>(_, _, i). i) xs)" and "i < length (page_info rx)" "\<forall>(_, _, i) \<in> set xs. i < length (page_info rx)"
  shows "\<exists>rx' ev f m. rx_packet env ((p, d, i) # xs) rx = (rx', [ev]) \<and> chain_event ev = Some m \<and> rx_ctx rx' = empty_ctx \<and>
    m = (set_hdr d (new_chain p f))\<lparr>rm_frags := rm_frags m, rm_len := rm_len m\<rparr> \<and>
    concat (map (frag_bytes (pages rx)) (rm_frags m)) =
      announced True rx d i @ concat (map (\<lambda>(_, d, i). announced False rx d i) xs) \<and>
    rm_len m = ucast (desc_len d - GVE_RX_PAD) + sum_list (map (\<lambda>(_, d, _). ucast (desc_len d)) xs)"
proof -
  have e: "\<not> drop_pkt (rx_ctx rx)" "frag_cnt (rx_ctx rx) = 0" "\<not> mbuf_tail (rx_ctx rx)" "total_size (rx_ctx rx) = 0"
    using assms(1) by (simp_all add: empty_ctx_def)
  have "no_err d" using assms(2) by (simp add: well_framed_def)
  then obtain f rx1 ctx where f: "frag_bytes (pages rx) f = announced True rx d i"
    and ctx: "ctx = first_frag_ctx True d ((add_frag p f (rx_ctx rx))\<lparr>total_size := ucast (desc_len d - GVE_RX_PAD)\<rparr>)"
    and run: "gve_rx env (Some p) d i rx = (rx1, if is_last d then [delivery env ctx] else [])"
    and ctx1: "rx_ctx rx1 = (if is_last d then empty_ctx else ctx\<lparr>frag_cnt := frag_cnt ctx + 1\<rparr>)"
    and oth: "\<forall>j. j \<noteq> i \<longrightarrow> page_info rx1 ! j = page_info rx ! j" "length (page_info rx1) = length (page_info rx)" "pages rx1 = pages rx"
    using gve_rx_ok [OF assms(5) e(1), of d p env] e by auto
  let ?m = "set_hdr d (new_chain p f)"
  have hd: "mbuf_head ctx = Some ?m" "mbuf_tail ctx" "\<not> drop_pkt ctx" "frag_cnt ctx = 0" "total_size ctx = ucast (desc_len d - GVE_RX_PAD)"
    using e ctx by (simp_all add: first_frag_ctx_def add_frag_def new_chain_def)
  have fr: "rm_frags ?m = [f]" by (simp add: set_hdr_def new_chain_def Let_def)
  show ?thesis
  proof (cases "xs = []")
    case True
    then have "is_last d" using assms(2) by (simp add: well_framed_def)
    then show ?thesis
      using run ctx1 f fr hd True by (auto simp: chain_event_delivery intro!: exI [of _ f])
  next
    case False
    then have nl: "\<not> is_last d" and wf: "well_framed (map (\<lambda>(_, d, _). d) xs)"
      using assms(2) by (auto simp: well_framed_def)
    have col: "collecting (rx_ctx rx1) ?m" "frag_cnt (rx_ctx rx1) = 1" using ctx1 hd nl by (simp_all add: collecting_def)
    have b: "\<forall>(_, _, i) \<in> set xs. i < length (page_info rx1)" using assms(6) oth(2) by auto
    have ann: "map (\<lambda>(_, d, i). announced False rx1 d i) xs = map (\<lambda>(_, d, i). announced False rx d i) xs"
    proof (rule map_cong [OF refl], clarify)
      fix p' d' i' assume "(p', d', i') \<in> set xs"
      then have "i' \<noteq> i" using assms(4) by (auto simp: image_iff)
      then show "announced False rx1 d' i' = announced False rx d' i'" using oth by (simp add: announced_def)
    qed
    obtain rx' ev m' where r: "rx_packet env xs rx1 = (rx', [ev])" "chain_event ev = Some m'" "rx_ctx rx' = empty_ctx"
      "m' = ?m\<lparr>rm_frags := rm_frags m', rm_len := rm_len m'\<rparr>"
      "concat (map (frag_bytes (pages rx1)) (rm_frags m')) =
        concat (map (frag_bytes (pages rx1)) (rm_frags ?m)) @ concat (map (\<lambda>(_, d, i). announced False rx1 d i) xs)"
      "rm_len m' = total_size (rx_ctx rx1) + sum_list (map (\<lambda>(_, d, _). ucast (desc_len d)) xs)"
      using rx_packet_rest [OF col(1) wf _ _ b, of env] assms(3,4) col(2) by auto
    have "concat (map (frag_bytes (pages rx)) (rm_frags m')) =
        announced True rx d i @ concat (map (\<lambda>(_, d, i). announced False rx d i) xs)"
      using r(5) f unfolding ann oth(3) fr by simp
    moreover have "rm_len m' = ucast (desc_len d - GVE_RX_PAD) + sum_list (map (\<lambda>(_, d, _). ucast (desc_len d)) xs)"
      using r(6) ctx1 nl hd by simp
    moreover have "rx_packet env ((p, d, i) # xs) rx = (rx', [ev])" using run r(1) nl by simp
    ultimately show ?thesis using r(2,3,4) by blast
  qed
qed


section \<open>Properties\<close>

definition ex_rxcom :: gve_ring_com where
  "ex_rxcom = \<lparr>com_id = 1, irq_db_offset = 8, db_offset = 12, counter_idx = 1, ntfy_id = 1\<rparr>"

definition zero_rxq_stats :: gve_rxq_stats where
  "zero_rxq_stats = \<lparr>rbytes = 0, rpackets = 0, rx_dropped_pkt = 0, rx_copybreak_cnt = 0, rx_frag_flip_cnt = 0,
     rx_frag_copy_cnt = 0, rx_dropped_pkt_desc_err = 0, rx_dropped_pkt_buf_post_fail = 0,
     rx_dropped_pkt_mbuf_alloc_fail = 0, rx_mbuf_dmamap_err = 0, rx_mbuf_mclget_null = 0\<rparr>"

definition ex_rx0 :: gve_rx_ring_gqi where
  "ex_rx0 = \<lparr>rx_com = ex_rxcom, cnt = 0, fill_cnt = 0, rx_ctx = empty_ctx, rx_stats = zero_rxq_stats,
     rx_desc_ring = replicate 2 zero_rx_desc, data_ring = [0, 0],
     page_info = replicate 2 \<lparr>page_offset = 0, pad = 0\<rparr>, rx_mask = 0, seq_no = 0,
     pages = replicate 2 (replicate PAGE_SIZE 0), lent = []\<rparr>"

definition ex_rx :: gve_rx_ring_gqi where
  "ex_rx = gve_clear_rx_ring (2 ^ 1) (gve_prefill_rx_slots (2 ^ 1) ex_rx0)"

definition ex_rx_desc :: "u16 \<Rightarrow> u16 \<Rightarrow> gve_rx_desc" where
  "ex_rx_desc len fl = \<lparr>rss_hash = 5, csum = 1, desc_len = len, flags_seq = fl\<rparr>"

lemma ex_rx_alloced: "rx_alloced 1 ex_rx0"
  by (simp add: rx_alloced_def ex_rx0_def)

lemma ex_rx_inv: "rx_inv 1 ex_rx"
  unfolding ex_rx_def by (rule alloced_inv [OF ex_rx_alloced])

lemma ex_rx_fields: "rx_ctx ex_rx = empty_ctx" "length (page_info ex_rx) = 2" "lent ex_rx = []"
  by (simp_all add: ex_rx_def gve_clear_rx_ring_def gve_rx_clear_data_ring_def gve_rx_clear_desc_ring_def
      gve_prefill_rx_slots_def ex_rx0_def)

definition ex_rx_env :: rx_env where
  "ex_rx_env = \<lparr>rx_copybreak = 256, lro_enabled = False, lro_cnt = 0, tcp_lro_rx_ok = (\<lambda>_. False)\<rparr>"

lemma ex_rx_eq: "ex_rx = \<lparr>rx_com = ex_rxcom, cnt = 0, fill_cnt = 2, rx_ctx = empty_ctx, rx_stats = zero_rxq_stats,
     rx_desc_ring = [zero_rx_desc, zero_rx_desc], data_ring = [0, 4096],
     page_info = [\<lparr>page_offset = 0, pad = 0\<rparr>, \<lparr>page_offset = 0, pad = 0\<rparr>], rx_mask = 1, seq_no = 1,
     pages = [replicate PAGE_SIZE 0, replicate PAGE_SIZE 0], lent = []\<rparr>"
  by (simp add: ex_rx_def gve_clear_rx_ring_def gve_rx_clear_data_ring_def gve_rx_clear_desc_ring_def gve_prefill_rx_slots_def
     ex_rx0_def numeral_2_eq_2 PAGE_SIZE_def)

lemma ex_seq: "GVE_SEQNO 1 = 1" "GVE_SEQNO (GVE_RXF_PKT_CONT OR 1) = 1" "GVE_SEQNO (GVE_RXF_PKT_CONT OR GVE_RXF_ERR OR 2) = 2"
  "GVE_SEQNO 0 = 0" "GVE_RXF_PKT_CONT \<noteq> 0" "gve_next_seqno 1 = 2" "gve_next_seqno 2 = 3"
  "GVE_RXF_PKT_CONT AND (GVE_RXF_PKT_CONT OR x) \<noteq> 0" "GVE_RXF_PKT_CONT AND 1 = 0"
  "(GVE_RXF_PKT_CONT OR 1) AND GVE_RXF_ERR = 0" "1 AND GVE_RXF_ERR = 0" "(GVE_RXF_PKT_CONT OR GVE_RXF_ERR OR 2) AND GVE_RXF_ERR \<noteq> 0"
  by (simp_all add: GVE_SEQNO_def GVE_RXF_PKT_CONT_def GVE_RXFLG_def GVE_RXF_ERR_def gve_next_seqno_def push_bit_eq_mult and.assoc [symmetric])

lemmas ex_rx_run = ex_rx_eq ex_seq rx_round_def rx_pending_desc_def gve_rx_work_pending_def ex_rx_desc_def gve_rx_def
  empty_ctx_def Let_def gve_rx_create_mbuf_def GVE_RX_PAD_def ex_rx_env_def wire_count_def add_frag_def finish_frag_def
  gve_rx_flip_buff_def first_frag_ctx_def deliver_def zero_rx_desc_def drop_frag_def free_head_def new_chain_def

definition ex_ring :: "gve_rx_desc list \<Rightarrow> gve_rx_ring_gqi" where
  "ex_ring ds = \<lparr>rx_com = ex_rxcom, cnt = 0, fill_cnt = 2, rx_ctx = empty_ctx, rx_stats = zero_rxq_stats,
     rx_desc_ring = ds, data_ring = [0, 4096],
     page_info = [\<lparr>page_offset = 0, pad = 0\<rparr>, \<lparr>page_offset = 0, pad = 0\<rparr>], rx_mask = 1, seq_no = 1,
     pages = [replicate PAGE_SIZE 0, replicate PAGE_SIZE 0], lent = []\<rparr>"

lemma ex_round1:
 "\<exists>rx' evs. rx_round ex_rx_env (Some 7) (ex_ring [ex_rx_desc 1000 1, zero_rx_desc]) = (rx', evs) \<and>
   lent rx' = [(0, 0)] \<and> \<not> gve_rx_work_pending rx' \<and> frag_cnt (rx_ctx rx') = 0"
  by (simp add: ex_rx_run ex_ring_def)
lemma ex_round2:
 "\<exists>rx'. rx_round ex_rx_env (Some 7) (ex_ring [ex_rx_desc 1000 (GVE_RXF_PKT_CONT OR 1), ex_rx_desc 1000 (GVE_RXF_PKT_CONT OR GVE_RXF_ERR OR 2)]) = (rx', []) \<and>
   gve_rx_work_pending rx' \<and> frag_cnt (rx_ctx rx') = 1 \<and>
   (\<exists>rx2. rx_round ex_rx_env (Some 7) rx' = (rx2, [RX_M_FREEM 7]) \<and> frag_cnt (rx_ctx rx2) = 2 \<and>
      \<not> gve_rx_work_pending rx2 \<and> free_head (rx_ctx rx2) = [RX_M_FREEM 7])"
  by (simp add: ex_rx_run ex_ring_def set_hdr_def)

lemma ex_rx_pending: "gve_rx_work_pending (ex_ring [ex_rx_desc 1000 1, d])" "gve_rx_work_pending (ex_ring [ex_rx_desc 1000 (GVE_RXF_PKT_CONT OR 1), d])"
  "length (rx_desc_ring (ex_ring [a, b])) = Suc (Suc 0)"
  by (simp_all add: ex_rx_run ex_ring_def)

text \<open>
  C3. From a freshly prefilled ring, through any interleaving of device writes (at the addresses the
  slots post), descriptor writes, driver cleanups, ring restarts and references dropped by the
  network stack, every slot posts a half page that the stack does not hold; so no step changes a
  byte of a buffer that the stack holds.
\<close>

theorem gve_rx_lent_buffers_stable:
  assumes "rx_alloced k rx0"
    and "rx_step\<^sup>*\<^sup>* (gve_clear_rx_ring (2 ^ k) (gve_prefill_rx_slots (2 ^ k) rx0)) rx" and "rx_step rx rx'"
  shows "(\<forall>i < 2 ^ k. (unat (data_ring rx' ! i) div PAGE_SIZE, unat (data_ring rx' ! i) mod PAGE_SIZE) \<notin> set (lent rx')) \<and>
    (\<forall>(p, off) \<in> set (lent rx).
      slice (pages rx' ! p) off GVE_DEFAULT_RX_BUFFER_SIZE = slice (pages rx ! p) off GVE_DEFAULT_RX_BUFFER_SIZE)"
proof -
  have inv: "rx_inv k rx" using rx_steps_inv [OF assms(2) alloced_inv [OF assms(1)]] .
  note S = rx_step_inv [OF inv assms(3)]
  have inv': "rx_inv k rx'" using S by blast
  show ?thesis
    using S posted_address [OF inv'] rx_invD(6) [OF inv'] by (auto simp: slot_ok_def Let_def)
qed

theorem gve_rx_lent_buffers_stable_witness:
  "\<exists>rx1 rx2. rx_step\<^sup>*\<^sup>* ex_rx rx1 \<and> rx_step rx1 rx2 \<and> lent rx1 = [(0, 0)] \<and>
     slice (pages rx2 ! 0) 0 GVE_DEFAULT_RX_BUFFER_SIZE = slice (pages rx1 ! 0) 0 GVE_DEFAULT_RX_BUFFER_SIZE"
proof -
  let ?rxd = "ex_ring [ex_rx_desc 1000 1, zero_rx_desc]"
  have "?rxd = ex_rx\<lparr>rx_desc_ring := (rx_desc_ring ex_rx)[0 := ex_rx_desc 1000 1]\<rparr>"
    by (simp add: ex_rx_eq ex_ring_def)
  then have s1: "rx_step ex_rx ?rxd" by (metis rx_step.dev_desc)
  obtain rx' evs where r: "rx_round ex_rx_env (Some 7) ?rxd = (rx', evs)" "lent rx' = [(0, 0)]"
    "\<not> gve_rx_work_pending rx'" "frag_cnt (rx_ctx rx') = 0"
    using ex_round1 by blast
  obtain rx1 evs1 where c: "gve_rx_cleanup ex_rx_env (\<lambda>_. Some 7) 128 ?rxd = Some (rx1, evs1)" and l: "lent rx1 = [(0, 0)]"
    using r by (auto simp: gve_rx_cleanup_def ex_rx_pending cleanup_loop_step Let_def)
  have s: "rx_step\<^sup>*\<^sup>* ex_rx rx1" using s1 rx_step.drv_cleanup [OF c] by (meson rtranclp.simps)
  have inv: "rx_inv 1 rx1" using rx_steps_inv [OF s ex_rx_inv] .
  obtain rx2 where st: "rx_step rx1 rx2"
    using rx_step.dev_data [of 0 rx1 "[1, 2, 3]"] rx_invD(3) [OF inv] by (auto simp: GVE_DEFAULT_RX_BUFFER_SIZE_def PAGE_SIZE_def)
  show ?thesis using gve_rx_lent_buffers_stable [OF ex_rx_alloced s [unfolded ex_rx_def] st] s st l by auto
qed

text \<open>
  C18. The cleanup loop always ends (a lap of the ring would need a sequence number advanced by a
  power of two, which is no multiple of 7). It leaves no half-built packet, consumed as many descriptors as it returns
  buffers, ends early only when no descriptor is pending, and tells the device the new fill count.
\<close>

theorem gve_rx_cleanup_returns:
  assumes "rx_inv k rx"
  shows "\<exists>rx' evs w. gve_rx_cleanup env mbs budget rx = Some (rx', evs) \<and> rx_inv k rx' \<and>
    frag_cnt (rx_ctx rx') = 0 \<and> cnt rx' = cnt rx + of_nat w \<and> fill_cnt rx' = fill_cnt rx + of_nat w \<and>
    (w < budget \<longrightarrow> \<not> gve_rx_work_pending rx') \<and>
    last evs = RX_DB_WRITE_4 (db_offset (rx_com rx)) (fill_cnt rx')"
proof -
  have l: "length (rx_desc_ring rx) = 2 ^ k" using rx_invD(2) [OF assms] .
  obtain rx1 w evs1 where c: "gve_rx_cleanup_loop (2 ^ k) env mbs budget 0 rx = Some (rx1, w, evs1)"
    using cleanup_loop_ends [OF assms, of env mbs budget 0] by auto
  note L = cleanup_rx_loop_inv [OF assms c]
  have pend: "gve_rx_work_pending (rx1\<lparr>rx_ctx := x, fill_cnt := f\<rparr>) = gve_rx_work_pending rx1"
    "gve_rx_work_pending (rx1\<lparr>fill_cnt := f\<rparr>) = gve_rx_work_pending rx1" for x f
    by (simp_all add: gve_rx_work_pending_def rx_pending_desc_def)
  obtain rx' evs where r: "gve_rx_cleanup env mbs budget rx = Some (rx', evs)"
    using c by (simp add: gve_rx_cleanup_def Let_def l split_beta)
  have "frag_cnt (rx_ctx rx') = 0 \<and> cnt rx' = cnt rx + of_nat w \<and> fill_cnt rx' = fill_cnt rx + of_nat w \<and>
    (w < budget \<longrightarrow> \<not> gve_rx_work_pending rx') \<and> last evs = RX_DB_WRITE_4 (db_offset (rx_com rx)) (fill_cnt rx')"
    using r c L by (auto simp: gve_rx_cleanup_def Let_def l pend empty_ctx_def split: if_splits)
  then show ?thesis using r cleanup_inv [OF assms r] by blast
qed

theorem gve_rx_cleanup_returns_witness:
  "rx_inv 1 ex_rx \<and> (\<exists>rx' evs. gve_rx_cleanup ex_rx_env (\<lambda>_. None) 128 ex_rx = Some (rx', evs) \<and> frag_cnt (rx_ctx rx') = 0)"
  using ex_rx_inv gve_rx_cleanup_returns [OF ex_rx_inv, of ex_rx_env "\<lambda>_. None" 128] by blast

text \<open>
  C14. The fragments of a packet, received in order from an idle context, are handed to the stack as
  one chain: its bytes are those the device placed in the announced buffers, without the two bytes of
  padding of the first; its length field counts exactly them; its hash, flow id and checksum flags are
  those of the first descriptor; and the context is idle again.
\<close>

theorem gve_rx_reassembles:
  assumes "rx_inv k rx" "rx_ctx rx = empty_ctx" and "well_framed (d # map (\<lambda>(_, d, _). d) xs)" and "length xs < 255"
    and "distinct (i # map (\<lambda>(_, _, i). i) xs)" and "i < 2 ^ k" "\<forall>(_, _, i) \<in> set xs. i < 2 ^ k"
    and "2 \<le> unat (desc_len d)" "unat (desc_len d) \<le> GVE_DEFAULT_RX_BUFFER_SIZE"
    and "\<forall>(_, d, _) \<in> set xs. unat (desc_len d) \<le> GVE_DEFAULT_RX_BUFFER_SIZE"
  shows "\<exists>rx' ev f m. rx_packet env ((p, d, i) # xs) rx = (rx', [ev]) \<and> chain_event ev = Some m \<and> rx_ctx rx' = empty_ctx \<and>
    m = (set_hdr d (new_chain p f))\<lparr>rm_frags := rm_frags m, rm_len := rm_len m\<rparr> \<and>
    concat (map (frag_bytes (pages rx)) (rm_frags m)) =
      announced True rx d i @ concat (map (\<lambda>(_, d, i). announced False rx d i) xs) \<and>
    unat (rm_len m) = length (concat (map (frag_bytes (pages rx)) (rm_frags m)))"
proof -
  let ?ls = "(desc_len d - GVE_RX_PAD) # map (\<lambda>(_, d, _). desc_len d) xs"
  have len: "length (page_info rx) = 2 ^ k" using rx_invD(4) [OF assms(1)] .
  have d: "unat (desc_len d - GVE_RX_PAD) \<le> 2048"
    using assms(8,9) by (simp add: GVE_RX_PAD_def unat_sub_if' GVE_DEFAULT_RX_BUFFER_SIZE_def PAGE_SIZE_def)
  have "sum_list (map unat (map (\<lambda>(_, d, _). desc_len d) xs)) \<le> 2048 * length xs"
    using assms(10) by (induction xs) (auto simp: GVE_DEFAULT_RX_BUFFER_SIZE_def PAGE_SIZE_def)
  then have s: "unat (sum_list (map ucast ?ls) :: u32) = sum_list (map unat ?ls)"
    using d assms(4) by (intro unat_sum_ucast) simp
  have "length (concat (map (\<lambda>(_, d, i). announced False rx d i) xs)) = sum_list (map unat (map (\<lambda>(_, d, _). desc_len d) xs))"
    using assms(7,10) length_announced [OF assms(1), of _ _ False] by (induction xs) auto
  then have n: "length (announced True rx d i @ concat (map (\<lambda>(_, d, i). announced False rx d i) xs)) = sum_list (map unat ?ls)"
    using length_announced [OF assms(1,6,9)] assms(8) by simp
  have e: "sum_list (map ucast ?ls) = (ucast (desc_len d - GVE_RX_PAD) + sum_list (map (\<lambda>(_, d, _). ucast (desc_len d)) xs) :: u32)"
    by (simp add: comp_def case_prod_beta')
  obtain rx' ev f m where c: "rx_packet env ((p, d, i) # xs) rx = (rx', [ev])" "chain_event ev = Some m" "rx_ctx rx' = empty_ctx"
    "m = (set_hdr d (new_chain p f))\<lparr>rm_frags := rm_frags m, rm_len := rm_len m\<rparr>"
    "concat (map (frag_bytes (pages rx)) (rm_frags m)) = announced True rx d i @ concat (map (\<lambda>(_, d, i). announced False rx d i) xs)"
    "rm_len m = ucast (desc_len d - GVE_RX_PAD) + sum_list (map (\<lambda>(_, d, _). ucast (desc_len d)) xs)"
    using rx_packet_chain [OF assms(2-5) assms(6,7) [folded len], of env p] by blast
  have "unat (rm_len m) = length (concat (map (frag_bytes (pages rx)) (rm_frags m)))"
    unfolding c(5) n c(6) e [symmetric] s ..
  then show ?thesis using c by blast
qed

theorem gve_rx_reassembles_witness:
  "\<exists>rx' ev m. rx_packet ex_rx_env [(7, ex_rx_desc 1002 (GVE_RXF_PKT_CONT OR 1), 0), (8, ex_rx_desc 500 2, 1)] ex_rx = (rx', [ev]) \<and>
     chain_event ev = Some m \<and> unat (rm_len m) = length (concat (map (frag_bytes (pages ex_rx)) (rm_frags m)))"
  using gve_rx_reassembles [OF ex_rx_inv ex_rx_fields(1), of "ex_rx_desc 1002 (GVE_RXF_PKT_CONT OR 1)" "[(8, ex_rx_desc 500 2, 1)]" 0 ex_rx_env 7]
  by (simp add: well_framed_def ex_rx_desc_def is_last_def no_err_def GVE_RXF_PKT_CONT_def GVE_RXF_ERR_def GVE_RXFLG_def
      GVE_DEFAULT_RX_BUFFER_SIZE_def PAGE_SIZE_def push_bit_eq_mult) blast


end
