(* ===== verification/Gve_Freelist.thy ===== *)
theory Gve_Freelist
  imports Gve_Types
begin

text \<open>
  The index-linked free lists of the DQO transmit path: a consumer list, popped by the transmit
  task alone, and a producer list, grown by any task with a compare-and-set and stolen as a whole
  by the consumer. First the lists as such, then the interface both users share, then the atomic
  steps under arbitrary interleaving.
\<close>

section \<open>Chains of indices\<close>

fun chain :: "(nat \<Rightarrow> int) \<Rightarrow> int \<Rightarrow> nat list \<Rightarrow> bool" where
  "chain nx h [] \<longleftrightarrow> h = -1"
| "chain nx h (x # xs) \<longleftrightarrow> h = int x \<and> chain nx (nx x) xs"

text \<open>The inner links of a segment; where its last element points is left open.\<close>

fun linked :: "(nat \<Rightarrow> int) \<Rightarrow> nat list \<Rightarrow> bool" where
  "linked nx (x # y # ys) \<longleftrightarrow> nx x = int y \<and> linked nx (y # ys)"
| "linked nx _ \<longleftrightarrow> True"

lemma chain_empty: "chain nx h xs \<Longrightarrow> h = -1 \<longleftrightarrow> xs = []"
  by (cases xs) auto

lemma chain_cong: "(\<And>x. x \<in> set xs \<Longrightarrow> nx' x = nx x) \<Longrightarrow> chain nx' h xs = chain nx h xs"
  by (induction xs arbitrary: h) auto

lemma linked_cong: "(\<And>x. x \<in> set (butlast xs) \<Longrightarrow> nx' x = nx x) \<Longrightarrow> linked nx' xs = linked nx xs"
  by (induction nx xs rule: linked.induct) auto

lemma chain_unique: "chain nx h xs \<Longrightarrow> chain nx h ys \<Longrightarrow> xs = ys"
proof (induction xs arbitrary: h ys)
  case Nil
  then show ?case using chain_empty by auto
next
  case (Cons x xs)
  then show ?case by (cases ys) auto
qed

lemma chain_append:
  "xs \<noteq> [] \<Longrightarrow> chain nx h (xs @ ys) \<longleftrightarrow> h = int (hd xs) \<and> linked nx xs \<and> chain nx (nx (last xs)) ys"
  by (induction nx xs arbitrary: h rule: linked.induct) auto

lemma chain_linked: "chain nx h xs \<Longrightarrow> linked nx xs"
  by (induction nx xs arbitrary: h rule: linked.induct) auto

lemma linked_append: "xs \<noteq> [] \<Longrightarrow> linked nx (xs @ [x]) \<longleftrightarrow> linked nx xs \<and> nx (last xs) = int x"
  by (induction nx xs rule: linked.induct) auto

lemma chain_end: "chain nx h xs \<Longrightarrow> xs \<noteq> [] \<Longrightarrow> nx (last xs) = -1"
  using chain_append [of xs nx h "[]"] by simp

lemma last_notin_butlast: "distinct xs \<Longrightarrow> xs \<noteq> [] \<Longrightarrow> last xs \<notin> set (butlast xs)"
  by (cases xs rule: rev_cases) auto

text \<open>Hooking a linked segment in front of a chain.\<close>

lemma chain_splice:
  assumes "xs \<noteq> []" and "linked nx xs" and "chain nx h ys" and "distinct xs" and "set xs \<inter> set ys = {}"
  shows "chain (nx(last xs := h)) (int (hd xs)) (xs @ ys)"
proof -
  have "last xs \<notin> set (butlast xs)"
    using assms(1,4) by (rule last_notin_butlast [rotated])
  then have "linked (nx(last xs := h)) xs" using assms(2) by (subst linked_cong [where nx = nx]) auto
  moreover have "last xs \<notin> set ys" using assms(1,5) last_in_set by blast
  then have "chain (nx(last xs := h)) h ys" using assms(3) by (subst chain_cong [where nx = nx]) auto
  ultimately show ?thesis using assms(1) by (simp add: chain_append)
qed

section \<open>The interface of a pair of free lists\<close>

text \<open>
  \<open>alloc\<close> takes an element off the consumer list, or steals the producer list first; \<open>free k\<close>
  gives back the segment that \<open>owned k\<close> describes.
\<close>

locale free_lists =
  fixes nxt :: "'s \<Rightarrow> nat \<Rightarrow> int" and csm prd :: "'s \<Rightarrow> int" and size :: "'s \<Rightarrow> nat"
    and alloc :: "'s \<Rightarrow> nat option \<times> 's"
    and owned :: "'k \<Rightarrow> 's \<Rightarrow> nat list \<Rightarrow> bool" and free :: "'k \<Rightarrow> 's \<Rightarrow> 's option"
  assumes alloc_pop: "csm s \<noteq> -1 \<Longrightarrow> alloc s = (r, s') \<Longrightarrow>
      r = Some (nat (csm s)) \<and> csm s' = nxt s (nat (csm s)) \<and> prd s' = prd s \<and> nxt s' = nxt s \<and> size s' = size s"
    and alloc_steal: "csm s = -1 \<Longrightarrow> prd s \<noteq> -1 \<Longrightarrow> alloc s = (r, s') \<Longrightarrow>
      r = Some (nat (prd s)) \<and> csm s' = nxt s (nat (prd s)) \<and> prd s' = -1 \<and> nxt s' = nxt s \<and> size s' = size s"
    and alloc_none: "csm s = -1 \<Longrightarrow> prd s = -1 \<Longrightarrow> alloc s = (r, s') \<Longrightarrow>
      r = None \<and> csm s' = -1 \<and> prd s' = -1 \<and> nxt s' = nxt s \<and> size s' = size s"
    and free_seg: "owned k s xs \<Longrightarrow> xs \<noteq> [] \<Longrightarrow> linked (nxt s) xs \<Longrightarrow> (\<forall>x \<in> set xs. x < size s) \<Longrightarrow>
      \<exists>s'. free k s = Some s' \<and> csm s' = csm s \<and> prd s' = int (hd xs) \<and> size s' = size s \<and>
        (\<forall>x < size s. nxt s' x = ((nxt s)(last xs := prd s)) x)"
begin

definition lists :: "'s \<Rightarrow> nat list \<Rightarrow> nat list \<Rightarrow> bool" where
  "lists s cs ps \<longleftrightarrow> chain (nxt s) (csm s) cs \<and> chain (nxt s) (prd s) ps \<and> distinct (cs @ ps) \<and>
     (\<forall>x \<in> set (cs @ ps). x < size s)"

lemma alloc_some:
  assumes "lists s cs ps" and "alloc s = (r, s')" and "cs @ ps \<noteq> []"
  shows "\<exists>x cs' ps'. r = Some x \<and> lists s' cs' ps' \<and> cs @ ps = x # cs' @ ps' \<and> x < size s \<and>
    nxt s' = nxt s \<and> size s' = size s"
proof (cases cs)
  case Nil
  then obtain x qs where ps: "ps = x # qs" using assms(3) by (cases ps) auto
  have c: "csm s = -1" "prd s = int x" "chain (nxt s) (nxt s x) qs"
    using assms(1) Nil ps by (auto simp: lists_def)
  have "r = Some x" "csm s' = nxt s x" "prd s' = -1" "nxt s' = nxt s" "size s' = size s"
    using alloc_steal [OF c(1) _ assms(2)] c(2) by auto
  then show ?thesis
    using assms(1) Nil ps c(3)
    by (intro exI [of _ x] exI [of _ qs] exI [of _ "[]"]) (auto simp: lists_def)
next
  case (Cons x cs')
  have c: "csm s = int x" "chain (nxt s) (nxt s x) cs'" using assms(1) Cons by (auto simp: lists_def)
  have "r = Some x" "csm s' = nxt s x" "prd s' = prd s" "nxt s' = nxt s" "size s' = size s"
    using alloc_pop [OF _ assms(2)] c(1) by auto
  then show ?thesis
    using assms(1) Cons c(2)
    by (intro exI [of _ x] exI [of _ cs'] exI [of _ ps]) (auto simp: lists_def)
qed

lemma alloc_empty:
  assumes "lists s [] []" and "alloc s = (r, s')"
  shows "r = None \<and> lists s' [] [] \<and> nxt s' = nxt s \<and> size s' = size s"
  using assms alloc_none [OF _ _ assms(2)] by (auto simp: lists_def)

lemma free_some:
  assumes l: "lists s cs ps" and o: "owned k s xs" "xs \<noteq> []" "linked (nxt s) xs"
    and d: "distinct xs" "set xs \<inter> set (cs @ ps) = {}" "\<forall>x \<in> set xs. x < size s"
  shows "\<exists>s'. free k s = Some s' \<and> lists s' cs (xs @ ps) \<and> size s' = size s \<and>
    (\<forall>x < size s. x \<notin> set xs \<longrightarrow> nxt s' x = nxt s x)"
proof -
  obtain s' where f: "free k s = Some s'" "csm s' = csm s" "prd s' = int (hd xs)" "size s' = size s"
    and n: "\<forall>x < size s. nxt s' x = ((nxt s)(last xs := prd s)) x"
    using free_seg [OF o(1,2,3) d(3)] by blast
  have la: "last xs \<in> set xs" using o(2) by simp
  have "chain ((nxt s)(last xs := prd s)) (int (hd xs)) (xs @ ps)"
    using l o d by (intro chain_splice) (auto simp: lists_def)
  then have "chain (nxt s') (prd s') (xs @ ps)"
    using f(3) n l d(3) by (subst chain_cong [where nx = "(nxt s)(last xs := prd s)"]) (auto simp: lists_def)
  moreover have "chain (nxt s') (csm s') cs"
    using f(2) n l d(2) la by (subst chain_cong [where nx = "nxt s"]) (auto simp: lists_def)
  ultimately have "lists s' cs (xs @ ps)" using l d f(4) by (auto simp: lists_def)
  moreover have "\<forall>x < size s. x \<notin> set xs \<longrightarrow> nxt s' x = nxt s x" using n la by auto
  ultimately show ?thesis using f by blast
qed

end

section \<open>The atomic steps\<close>

text \<open>
  Where a task stands in the loop that gives a segment back: not in it, before the load of the
  list head, after the load with the head seen, after the segment's last element has been linked to
  that head.
\<close>

datatype fl_pc = Idle | Start "nat list" | Loaded "nat list" int | Linked "nat list" int

record 't fl_state =
  fl_csm :: int
  fl_prd :: int
  fl_next :: "nat \<Rightarrow> int"
  fl_pc :: "'t \<Rightarrow> fl_pc"
  fl_held :: "nat set"

definition fl_pop :: "'t fl_state \<Rightarrow> nat \<times> 't fl_state" where
  "fl_pop s = (let x = nat (fl_csm s) in (x, s\<lparr>fl_csm := fl_next s x, fl_held := insert x (fl_held s)\<rparr>))"

definition fl_steal :: "'t fl_state \<Rightarrow> 't fl_state" where
  "fl_steal s = s\<lparr>fl_csm := fl_prd s, fl_prd := -1\<rparr>"

definition fl_load :: "'t \<Rightarrow> nat list \<Rightarrow> 't fl_state \<Rightarrow> 't fl_state" where
  "fl_load t xs s = s\<lparr>fl_pc := (fl_pc s)(t := Loaded xs (fl_prd s))\<rparr>"

definition fl_link :: "'t \<Rightarrow> nat list \<Rightarrow> int \<Rightarrow> 't fl_state \<Rightarrow> 't fl_state" where
  "fl_link t xs old s = s\<lparr>fl_next := (fl_next s)(last xs := old), fl_pc := (fl_pc s)(t := Linked xs old)\<rparr>"

definition fl_cmpset :: "'t \<Rightarrow> nat list \<Rightarrow> int \<Rightarrow> 't fl_state \<Rightarrow> 't fl_state" where
  "fl_cmpset t xs old s =
     (if fl_prd s = old then s\<lparr>fl_prd := int (hd xs), fl_pc := (fl_pc s)(t := Idle)\<rparr>
      else s\<lparr>fl_pc := (fl_pc s)(t := Start xs)\<rparr>)"

inductive fl_step :: "'t fl_state \<Rightarrow> 't fl_state \<Rightarrow> bool" where
  pop: "fl_csm s \<noteq> -1 \<Longrightarrow> fl_step s (snd (fl_pop s))"
| steal: "fl_csm s = -1 \<Longrightarrow> fl_step s (fl_steal s)"
| start: "fl_pc s t = Idle \<Longrightarrow> set xs \<subseteq> fl_held s \<Longrightarrow> xs \<noteq> [] \<Longrightarrow> distinct xs \<Longrightarrow> linked nx xs \<Longrightarrow>
    (\<And>x. x \<notin> fl_held s \<Longrightarrow> nx x = fl_next s x) \<Longrightarrow>
    fl_step s (s\<lparr>fl_held := fl_held s - set xs, fl_next := nx, fl_pc := (fl_pc s)(t := Start xs)\<rparr>)"
| load: "fl_pc s t = Start xs \<Longrightarrow> fl_step s (fl_load t xs s)"
| link: "fl_pc s t = Loaded xs old \<Longrightarrow> fl_step s (fl_link t xs old s)"
| cmpset: "fl_pc s t = Linked xs old \<Longrightarrow> fl_step s (fl_cmpset t xs old s)"

fun in_flight :: "fl_pc \<Rightarrow> nat list" where
  "in_flight Idle = []" | "in_flight (Start xs) = xs" | "in_flight (Loaded xs _) = xs" | "in_flight (Linked xs _) = xs"

text \<open>Every index is in one place: a list, the hands of a user, or on its way back.\<close>

definition fl_inv :: "nat \<Rightarrow> 't fl_state \<Rightarrow> nat list \<Rightarrow> nat list \<Rightarrow> bool" where
  "fl_inv n s cs ps \<longleftrightarrow> chain (fl_next s) (fl_csm s) cs \<and> chain (fl_next s) (fl_prd s) ps \<and> distinct (cs @ ps) \<and>
     set (cs @ ps) \<inter> fl_held s = {} \<and>
     (\<forall>t. distinct (in_flight (fl_pc s t)) \<and> linked (fl_next s) (in_flight (fl_pc s t)) \<and>
        set (in_flight (fl_pc s t)) \<inter> (set (cs @ ps) \<union> fl_held s) = {} \<and>
        (fl_pc s t \<noteq> Idle \<longrightarrow> in_flight (fl_pc s t) \<noteq> []) \<and>
        (\<forall>xs old. fl_pc s t = Linked xs old \<longrightarrow> fl_next s (last xs) = old)) \<and>
     (\<forall>t u. t \<noteq> u \<longrightarrow> set (in_flight (fl_pc s t)) \<inter> set (in_flight (fl_pc s u)) = {}) \<and>
     set (cs @ ps) \<union> fl_held s \<union> (\<Union>t. set (in_flight (fl_pc s t))) = {..<n}"


lemma fl_pop_inv:
  assumes inv: "fl_inv n s cs ps" and ne: "fl_csm s \<noteq> -1"
  obtains x cs' where "cs = x # cs'" "fst (fl_pop s) = x" "x \<notin> fl_held s" "x < n" "fl_inv n (snd (fl_pop s)) cs' ps"
proof -
  have "cs \<noteq> []" using inv ne by (auto simp: fl_inv_def)
  then obtain x cs' where cs: "cs = x # cs'" by (cases cs) auto
  have c: "fl_csm s = int x" "x \<notin> fl_held s" "x \<notin> set cs'" "x \<notin> set ps" "x < n"
    using inv cs by (auto simp: fl_inv_def)
  have f: "x \<notin> set (in_flight (fl_pc s t))" for t using inv cs by (auto simp: fl_inv_def)
  have "fl_inv n (snd (fl_pop s)) cs' ps"
    using inv cs c f unfolding fl_inv_def fl_pop_def Let_def by (simp add: Int_Un_distrib)
  then show ?thesis using that cs c by (simp add: fl_pop_def Let_def)
qed

lemma fl_steal_inv:
  assumes inv: "fl_inv n s cs ps" and e: "fl_csm s = -1"
  shows "fl_inv n (fl_steal s) ps []"
proof -
  have "cs = []" using inv e chain_empty by (auto simp: fl_inv_def)
  then show ?thesis using inv by (simp add: fl_inv_def fl_steal_def)
qed

text \<open>What a step of one task must keep of the others.\<close>

lemma fl_pc_inv:
  assumes inv: "fl_inv n s cs ps" and fl: "in_flight pc' = in_flight (fl_pc s t)" and ne: "pc' \<noteq> Idle \<Longrightarrow> in_flight pc' \<noteq> []"
    and nx: "\<And>x. x \<notin> set (in_flight (fl_pc s t)) \<Longrightarrow> nx x = fl_next s x" and l: "linked nx (in_flight pc')"
    and ln: "\<And>xs old. pc' = Linked xs old \<Longrightarrow> nx (last xs) = old"
  shows "fl_inv n (s\<lparr>fl_next := nx, fl_pc := (fl_pc s)(t := pc')\<rparr>) cs ps" (is "fl_inv n ?s cs ps")
proof -
  have eq: "in_flight (fl_pc ?s u) = in_flight (fl_pc s u)" for u using fl by simp
  have dis: "set (in_flight (fl_pc s t)) \<inter> set (cs @ ps) = {}" "u \<noteq> t \<Longrightarrow> set (in_flight (fl_pc s t)) \<inter> set (in_flight (fl_pc s u)) = {}" for u
    using inv unfolding fl_inv_def by blast+
  have c: "chain nx (fl_csm s) cs" "chain nx (fl_prd s) ps"
  proof -
    have "chain nx h qs = chain (fl_next s) h qs" if "set qs \<subseteq> set (cs @ ps)" for h qs
      using dis(1) nx that by (intro chain_cong) blast
    then show "chain nx (fl_csm s) cs" "chain nx (fl_prd s) ps" using inv by (simp_all add: fl_inv_def)
  qed
  have "distinct (in_flight (fl_pc s u)) \<and> linked nx (in_flight (fl_pc s u)) \<and>
    set (in_flight (fl_pc s u)) \<inter> (set (cs @ ps) \<union> fl_held s) = {} \<and>
    (fl_pc ?s u \<noteq> Idle \<longrightarrow> in_flight (fl_pc s u) \<noteq> []) \<and>
    (\<forall>xs old. fl_pc ?s u = Linked xs old \<longrightarrow> nx (last xs) = old)" for u
  proof (cases "u = t")
    case True
    then show ?thesis using inv fl ne l ln by (simp add: fl_inv_def)
  next
    case False
    have "linked nx (in_flight (fl_pc s u)) = linked (fl_next s) (in_flight (fl_pc s u))"
      using dis(2) [OF False] nx by (intro linked_cong) (meson disjoint_iff in_set_butlastD)
    moreover have "nx (last xs) = fl_next s (last xs)" if "fl_pc s u = Linked xs old" for xs old
    proof -
      have "xs \<noteq> []" using inv that unfolding fl_inv_def by (metis fl_pc.distinct(5) in_flight.simps(4))
      then have "last xs \<in> set (in_flight (fl_pc s u))" using that by simp
      then show ?thesis using dis(2) [OF False] nx by blast
    qed
    ultimately show ?thesis using inv False by (simp add: fl_inv_def)
  qed
  then show ?thesis using inv c unfolding fl_inv_def eq by simp
qed


lemma fl_link_linked:
  assumes "distinct xs" and "linked nx xs"
  shows "linked (nx(last xs := old)) xs"
proof (cases "xs = []")
  case False
  have "linked (nx(last xs := old)) xs = linked nx xs"
    using last_notin_butlast [OF assms(1) False] by (intro linked_cong) auto
  then show ?thesis using assms(2) by simp
qed simp

lemma UN_one: "(\<Union>u. F u) = F t \<union> (\<Union>u \<in> - {t}. F u)"
  by blast

lemma fl_task_inv:
  assumes inv: "fl_inv n s cs ps"
  shows "fl_pc s t = Start xs \<Longrightarrow> fl_inv n (fl_load t xs s) cs ps"
    and "fl_pc s t = Loaded xs old \<Longrightarrow> fl_inv n (fl_link t xs old s) cs ps"
    and "fl_pc s t = Linked xs old \<Longrightarrow> fl_prd s \<noteq> old \<Longrightarrow> fl_inv n (fl_cmpset t xs old s) cs ps"
proof -
  have own: "distinct (in_flight (fl_pc s t))" "linked (fl_next s) (in_flight (fl_pc s t))" "fl_pc s t \<noteq> Idle \<longrightarrow> in_flight (fl_pc s t) \<noteq> []"
    using inv unfolding fl_inv_def by blast+
  show "fl_inv n (fl_load t xs s) cs ps" if "fl_pc s t = Start xs"
    using fl_pc_inv [OF inv, of "Loaded xs (fl_prd s)" t "fl_next s"] own that by (simp add: fl_load_def)
  show "fl_inv n (fl_link t xs old s) cs ps" if pc: "fl_pc s t = Loaded xs old"
    unfolding fl_link_def
    by (rule fl_pc_inv [OF inv]) (use own pc fl_link_linked [of xs "fl_next s" old] in auto)
  show "fl_inv n (fl_cmpset t xs old s) cs ps" if "fl_pc s t = Linked xs old" "fl_prd s \<noteq> old"
    using fl_pc_inv [OF inv, of "Start xs" t "fl_next s"] own that by (simp add: fl_cmpset_def)
qed

lemma fl_cmpset_inv:
  assumes inv: "fl_inv n s cs ps" and pc: "fl_pc s t = Linked xs old" and eq: "fl_prd s = old"
  shows "fl_inv n (fl_cmpset t xs old s) cs (xs @ ps)"
proof -
  have own: "distinct xs" "linked (fl_next s) xs" "xs \<noteq> []" "set xs \<inter> (set (cs @ ps) \<union> fl_held s) = {}" "fl_next s (last xs) = old"
    using inv pc unfolding fl_inv_def by (metis fl_pc.distinct(5) in_flight.simps(4))+
  have oth: "set xs \<inter> set (in_flight (fl_pc s u)) = {}" if "u \<noteq> t" for u
    using inv pc that unfolding fl_inv_def by (metis in_flight.simps(4))
  have ch: "chain (fl_next s) (int (hd xs)) (xs @ ps)"
    using inv own eq by (simp add: chain_append fl_inv_def)
  let ?s = "fl_cmpset t xs old s"
  have fl: "in_flight (fl_pc ?s u) = (if u = t then [] else in_flight (fl_pc s u))" for u
    using eq by (simp add: fl_cmpset_def)
  have un: "(\<Union>u. set (in_flight (fl_pc s u))) = set xs \<union> (\<Union>u. set (in_flight (fl_pc ?s u)))"
    unfolding UN_one [of _ t] fl using pc by simp
  have same: "fl_csm ?s = fl_csm s" "fl_next ?s = fl_next s" "fl_held ?s = fl_held s" "fl_prd ?s = int (hd xs)"
    "fl_pc ?s = (fl_pc s)(t := Idle)"
    using eq by (simp_all add: fl_cmpset_def)
  have task: "distinct (in_flight (fl_pc ?s u)) \<and> linked (fl_next s) (in_flight (fl_pc ?s u)) \<and>
      set (in_flight (fl_pc ?s u)) \<inter> (set (cs @ xs @ ps) \<union> fl_held s) = {} \<and>
      (fl_pc ?s u \<noteq> Idle \<longrightarrow> in_flight (fl_pc ?s u) \<noteq> []) \<and>
      (\<forall>xs old. fl_pc ?s u = Linked xs old \<longrightarrow> fl_next s (last xs) = old)" for u
  proof (cases "u = t")
    case False
    then show ?thesis using inv oth [OF False] unfolding fl_inv_def same by auto
  qed (simp add: same)
  have par: "distinct (cs @ xs @ ps)" "set (cs @ xs @ ps) \<inter> fl_held s = {}"
    "set (cs @ xs @ ps) \<union> fl_held s \<union> (\<Union>u. set (in_flight (fl_pc ?s u))) = {..<n}"
    using inv own(1,4) un by (auto simp: fl_inv_def)
  have "\<forall>u v. u \<noteq> v \<longrightarrow> set (in_flight (fl_pc ?s u)) \<inter> set (in_flight (fl_pc ?s v)) = {}"
    unfolding fl using inv by (simp add: fl_inv_def)
  then show ?thesis using inv ch task par unfolding fl_inv_def same by blast
qed

lemma fl_start_inv:
  assumes inv: "fl_inv n s cs ps" and pc: "fl_pc s t = Idle" and xs: "set xs \<subseteq> fl_held s" "xs \<noteq> []" "distinct xs" "linked nx xs"
    and nx: "\<And>x. x \<notin> fl_held s \<Longrightarrow> nx x = fl_next s x"
  shows "fl_inv n (s\<lparr>fl_held := fl_held s - set xs, fl_next := nx, fl_pc := (fl_pc s)(t := Start xs)\<rparr>) cs ps"
    (is "fl_inv n ?s cs ps")
proof -
  have d: "set (cs @ ps) \<inter> fl_held s = {}" "set (in_flight (fl_pc s u)) \<inter> fl_held s = {}" for u
  proof -
    show "set (cs @ ps) \<inter> fl_held s = {}" using inv by (simp add: fl_inv_def)
    have "set (in_flight (fl_pc s u)) \<inter> (set (cs @ ps) \<union> fl_held s) = {}" using inv by (simp add: fl_inv_def)
    then show "set (in_flight (fl_pc s u)) \<inter> fl_held s = {}" by blast
  qed
  have c: "chain nx (fl_csm s) cs" "chain nx (fl_prd s) ps"
  proof -
    have "chain nx h qs = chain (fl_next s) h qs" if "set qs \<subseteq> set (cs @ ps)" for h qs
      using d(1) nx that by (intro chain_cong) blast
    then show "chain nx (fl_csm s) cs" "chain nx (fl_prd s) ps" using inv by (simp_all add: fl_inv_def)
  qed
  have lk: "linked nx (in_flight (fl_pc s u)) = linked (fl_next s) (in_flight (fl_pc s u))" for u
    using d(2) [of u] nx by (intro linked_cong) (meson disjoint_iff in_set_butlastD)
  have la: "nx (last ys) = old" if "fl_pc s u = Linked ys old" for u ys old
  proof -
    have "ys \<noteq> []" "fl_next s (last ys) = old" using inv that unfolding fl_inv_def by (metis fl_pc.distinct(5) in_flight.simps(4))+
    then show ?thesis using nx d(2) [of u] that by (metis disjoint_iff in_flight.simps(4) last_in_set)
  qed
  have fl: "in_flight (fl_pc ?s u) = (if u = t then xs else in_flight (fl_pc s u))" for u by simp
  have un: "(\<Union>u. set (in_flight (fl_pc ?s u))) = set xs \<union> (\<Union>u. set (in_flight (fl_pc s u)))"
    unfolding UN_one [of _ t] fl using pc by simp
  have task: "distinct (in_flight (fl_pc ?s u)) \<and> linked nx (in_flight (fl_pc ?s u)) \<and>
      set (in_flight (fl_pc ?s u)) \<inter> (set (cs @ ps) \<union> (fl_held s - set xs)) = {} \<and>
      (fl_pc ?s u \<noteq> Idle \<longrightarrow> in_flight (fl_pc ?s u) \<noteq> []) \<and>
      (\<forall>xs old. fl_pc ?s u = Linked xs old \<longrightarrow> nx (last xs) = old)" for u
  proof (cases "u = t")
    case True
    then show ?thesis using xs d(1) by auto
  next
    case False
    then show ?thesis using inv lk la unfolding fl_inv_def by auto
  qed
  have pair: "set (in_flight (fl_pc ?s u)) \<inter> set (in_flight (fl_pc ?s v)) = {}" if "u \<noteq> v" for u v
  proof -
    have "set (in_flight (fl_pc s u)) \<inter> set (in_flight (fl_pc s v)) = {}" using inv that by (simp add: fl_inv_def)
    then show ?thesis unfolding fl using that xs(1) d(2) [of u] d(2) [of v] by auto
  qed
  have "set (cs @ ps) \<union> (fl_held s - set xs) \<union> (\<Union>u. set (in_flight (fl_pc ?s u))) = {..<n}"
    unfolding un using inv xs(1) by (auto simp: fl_inv_def)
  moreover have "set (cs @ ps) \<inter> (fl_held s - set xs) = {}" "distinct (cs @ ps)" using d(1) inv by (auto simp: fl_inv_def)
  ultimately show ?thesis using c task pair unfolding fl_inv_def by simp
qed

lemma fl_step_inv:
  assumes "fl_step s s'" and "fl_inv n s cs ps"
  shows "\<exists>cs' ps'. fl_inv n s' cs' ps'"
  using assms
proof cases
  case pop
  then show ?thesis using fl_pop_inv [OF assms(2)] by metis
next
  case steal
  then show ?thesis using fl_steal_inv [OF assms(2)] by blast
next
  case (start t xs nx)
  then show ?thesis using fl_start_inv [OF assms(2)] by blast
next
  case (load t xs)
  then show ?thesis using fl_task_inv(1) [OF assms(2)] by blast
next
  case (link t xs old)
  then show ?thesis using fl_task_inv(2) [OF assms(2)] by blast
next
  case (cmpset t xs old)
  then show ?thesis using fl_task_inv(3) [OF assms(2)] fl_cmpset_inv [OF assms(2)] by blast
qed

lemma fl_steps_inv:
  assumes "fl_step\<^sup>*\<^sup>* s s'" and "fl_inv n s cs ps"
  shows "\<exists>cs' ps'. fl_inv n s' cs' ps'"
  using assms by (induction) (use fl_step_inv in blast)+


text \<open>The lists as \<open>gve_clear_tx_ring_dqo\<close> leaves them.\<close>

definition fl_init :: "nat \<Rightarrow> 't fl_state" where
  "fl_init n = \<lparr>fl_csm = 0, fl_prd = -1, fl_next = (\<lambda>j. if j = n - 1 then -1 else int j + 1), fl_pc = (\<lambda>_. Idle), fl_held = {}\<rparr>"

lemma chain_upt:
  assumes "i < n" and "\<And>j. i \<le> j \<Longrightarrow> j < n \<Longrightarrow> nx j = (if j = n - 1 then -1 else int j + 1)"
  shows "chain nx (int i) [i..<n]"
  using assms
proof (induction "n - i" arbitrary: i)
  case (Suc d)
  show ?case
  proof (cases "Suc i = n")
    case True
    then show ?thesis using Suc.prems by (simp add: upt_rec)
  next
    case False
    then have "chain nx (int (Suc i)) [Suc i..<n]" using Suc by (intro Suc.hyps(1)) auto
    then show ?thesis using Suc.prems False by (simp add: upt_rec [of i] add.commute)
  qed
qed simp

lemma fl_init_inv: "0 < n \<Longrightarrow> fl_inv n (fl_init n) [0..<n] []"
  using chain_upt [of 0 n "\<lambda>j. if j = n - 1 then -1 else int j + 1"] by (auto simp: fl_inv_def fl_init_def)

text \<open>
  C16. However the consumer's pops and steals and the loads, links and compare-and-sets of any number
  of tasks giving elements back interleave, every index stays in exactly one place: an index handed out
  is one that no user holds and no task is giving back, and nothing is lost.
\<close>

theorem free_lists_exclusive:
  assumes "0 < n" and "fl_step\<^sup>*\<^sup>* (fl_init n) s" and "fl_csm s \<noteq> -1" and "fl_pop s = (x, s')"
  shows "x < n \<and> x \<notin> fl_held s \<and> (\<forall>t. x \<notin> set (in_flight (fl_pc s t))) \<and>
    (\<exists>cs ps. fl_inv n s' cs ps \<and> {..<n} = set cs \<union> set ps \<union> fl_held s' \<union> (\<Union>t. set (in_flight (fl_pc s' t))))"
proof -
  obtain cs ps where inv: "fl_inv n s cs ps" using fl_steps_inv [OF assms(2) fl_init_inv [OF assms(1)]] by blast
  obtain cs' where c: "cs = x # cs'" "x \<notin> fl_held s" "x < n" "fl_inv n s' cs' ps"
    using fl_pop_inv [OF inv assms(3)] assms(4) by auto
  have "set (in_flight (fl_pc s t)) \<inter> (set (cs @ ps) \<union> fl_held s) = {}" for t using inv by (simp add: fl_inv_def)
  then have f: "x \<notin> set (in_flight (fl_pc s t))" for t using c(1) by auto
  have "{..<n} = set cs' \<union> set ps \<union> fl_held s' \<union> (\<Union>t. set (in_flight (fl_pc s' t)))"
    using c(4) by (simp add: fl_inv_def)
  then show ?thesis using c f by blast
qed

theorem free_lists_exclusive_witness:
  "\<exists>s. fl_step\<^sup>*\<^sup>* (fl_init 2) (s :: bool fl_state) \<and> fl_held s = {0} \<and> fst (fl_pop s) = 1 \<and> 1 \<notin> fl_held s"
proof -
  let ?s = "snd (fl_pop (fl_init 2 :: bool fl_state))"
  have "fl_step\<^sup>*\<^sup>* (fl_init 2) ?s" by (intro r_into_rtranclp fl_step.pop) (simp add: fl_init_def)
  moreover have s: "fl_csm ?s = 1" "fl_held ?s = {0}" by (simp_all add: fl_pop_def fl_init_def)
  moreover have "fl_pop ?s = (1, snd (fl_pop ?s))" using s by (simp add: fl_pop_def Let_def)
  moreover from calculation have "1 \<notin> fl_held ?s"
    using free_lists_exclusive [of 2 ?s 1 "snd (fl_pop ?s)"] by simp
  ultimately show ?thesis by (metis fst_conv)
qed

end
