(* ===== verification/Gve_Tx_Dqo.thy ===== *)
theory Gve_Tx_Dqo
  imports Gve_Tx
begin

text \<open>
  The DQO transmit path of \<open>gve_tx_dqo.c\<close>, for both raw addressing (RDA) and queue page lists
  (QPL): context and packet descriptors, pending packets and bounce buffers kept in index-linked
  free lists, completions announced by a generation bit.
\<close>

section \<open>Constants of \<open>gve_dqo.h\<close>\<close>

definition GVE_TX_BUF_SHIFT_DQO :: nat where "GVE_TX_BUF_SHIFT_DQO = 11"
definition GVE_TX_BUF_SIZE_DQO :: nat where "GVE_TX_BUF_SIZE_DQO = 2 ^ GVE_TX_BUF_SHIFT_DQO"
definition GVE_TX_BUFS_PER_PAGE_DQO :: nat where
  "GVE_TX_BUFS_PER_PAGE_DQO = PAGE_SIZE div 2 ^ GVE_TX_BUF_SHIFT_DQO"
definition GVE_TX_NUM_QPL_PAGES_DQO :: nat where "GVE_TX_NUM_QPL_PAGES_DQO = 512"
definition GVE_TX_MAX_DATA_DESCS_DQO :: nat where "GVE_TX_MAX_DATA_DESCS_DQO = 10"
definition GVE_TX_MAX_BUF_SIZE_DQO :: nat where "GVE_TX_MAX_BUF_SIZE_DQO = 16 * 1024 - 1"
definition GVE_TX_MIN_RE_INTERVAL :: u32 where "GVE_TX_MIN_RE_INTERVAL = 32"
definition GVE_TX_METADATA_VERSION_DQO :: u8 where "GVE_TX_METADATA_VERSION_DQO = 0"
definition GVE_TX_DESC_DQO_GEN_BIT_MASK :: u8 where "GVE_TX_DESC_DQO_GEN_BIT_MASK = 0x80"
definition GVE_COMPL_TYPE_DQO_PKT :: u16 where "GVE_COMPL_TYPE_DQO_PKT = 2"
definition GVE_COMPL_TYPE_DQO_DESC :: u16 where "GVE_COMPL_TYPE_DQO_DESC = 4"

section \<open>Descriptors\<close>

record gve_tx_pkt_desc_dqo =
  buf_addr :: u64
  end_of_packet :: bool
  checksum_offload_enable :: bool
  report_event :: bool
  compl_tag :: u16
  buf_size :: nat

text \<open>
  The context descriptors: the flex bytes in the order of their numbers. The bit \<open>report_event\<close> of
  a packet descriptor is a reserved bit of their \<open>cmd_dtype\<close>.
\<close>

record gve_tx_tso_context_desc_dqo =
  tso_total_len :: nat
  tso_mss :: u16
  header_len :: u8
  tso_flex :: "u8 list"
  tso_reserved_re :: bool

record gve_tx_general_context_desc_dqo =
  gen_flex :: "u8 list"
  gen_reserved_re :: bool

datatype gve_tx_desc_dqo =
    TXD_PKT gve_tx_pkt_desc_dqo
  | TXD_TSO_CTX gve_tx_tso_context_desc_dqo
  | TXD_GENERAL_CTX gve_tx_general_context_desc_dqo

definition zero_desc_dqo :: gve_tx_desc_dqo where
  "zero_desc_dqo = TXD_PKT \<lparr>buf_addr = 0, end_of_packet = False, checksum_offload_enable = False,
     report_event = False, compl_tag = 0, buf_size = 0\<rparr>"

definition set_report_event :: "gve_tx_desc_dqo \<Rightarrow> gve_tx_desc_dqo" where
  "set_report_event d =
     (case d of TXD_PKT p \<Rightarrow> TXD_PKT (p\<lparr>report_event := True\<rparr>)
      | TXD_TSO_CTX t \<Rightarrow> TXD_TSO_CTX (t\<lparr>tso_reserved_re := True\<rparr>)
      | TXD_GENERAL_CTX g \<Rightarrow> TXD_GENERAL_CTX (g\<lparr>gen_reserved_re := True\<rparr>))"

text \<open>\<open>struct gve_tx_metadata_dqo\<close> and its bytes (little-endian, 15-bit hash and one flag).\<close>

record gve_tx_metadata_dqo =
  version :: u8
  path_hash :: u16
  rehash_event :: bool

definition metadata_bytes :: "gve_tx_metadata_dqo \<Rightarrow> nat \<Rightarrow> u8" where
  "metadata_bytes md i =
     (if i = 0 then version md
      else if i = 1 then ucast (path_hash md)
      else if i = 2 then ucast (drop_bit 8 (path_hash md AND 0x7fff)) OR (if rehash_event md then 0x80 else 0)
      else 0)"

text \<open>
  A completion: its first 16-bit word (11 bits queue id, 3 bits type, a reserved bit, the generation
  bit) and the word that holds \<open>tx_head\<close> or \<open>completion_tag\<close>.
\<close>

record gve_tx_compl_desc_dqo =
  cd_word0 :: u16
  cd_word1 :: u16

definition zero_compl_desc :: gve_tx_compl_desc_dqo where
  "zero_compl_desc = \<lparr>cd_word0 = 0, cd_word1 = 0\<rparr>"

definition cd_type :: "gve_tx_compl_desc_dqo \<Rightarrow> u16" where
  "cd_type cd = drop_bit 11 (cd_word0 cd) AND 7"

section \<open>The ring\<close>

datatype gve_packet_state =
    GVE_PACKET_STATE_UNALLOCATED | GVE_PACKET_STATE_FREE | GVE_PACKET_STATE_PENDING_DATA_COMPL

text \<open>\<open>dma_loaded\<close>: the packet's DMA map is loaded (RDA).\<close>

record gve_tx_pending_pkt_dqo =
  pp_mbuf :: "mbuf option"
  pp_time :: int
  dma_loaded :: bool
  qpl_buf_head :: int
  num_qpl_bufs :: u32
  pp_state :: gve_packet_state
  pp_next :: int

text \<open>
  The DQO members of \<open>struct gve_tx_ring\<close>; an index of $-1$ ends a list. \<open>qpl_pages\<close> and
  \<open>qpl_dmas\<close> are the memory and the bus addresses of the pages of the queue page list.
\<close>

record gve_tx_ring_dqo = gve_tx_ring +
  dqo_desc_ring :: "gve_tx_desc_dqo list"
  desc_mask :: u32
  desc_head :: u32
  desc_tail :: u32
  last_re_idx :: u32
  free_pending_pkts_csm :: int
  free_qpl_bufs_csm :: int
  qpl_bufs_consumed :: u32
  qpl_bufs_produced_cached :: u32
  compl_ring :: "gve_tx_compl_desc_dqo list"
  compl_mask :: u32
  compl_head :: u32
  cur_gen_bit :: bool
  hw_tx_head :: u32
  free_pending_pkts_prd :: int
  free_qpl_bufs_prd :: int
  qpl_bufs_produced :: u32
  pending_pkts :: "gve_tx_pending_pkt_dqo list"
  num_pending_pkts :: u16
  qpl_bufs :: "int list"
  qpl_pages :: "u8 list list"
  qpl_dmas :: "u64 list"

definition upd_pkt ::
  "nat \<Rightarrow> (gve_tx_pending_pkt_dqo \<Rightarrow> gve_tx_pending_pkt_dqo) \<Rightarrow> gve_tx_ring_dqo \<Rightarrow> gve_tx_ring_dqo" where
  "upd_pkt i f tx = tx\<lparr>pending_pkts := (pending_pkts tx)[i := f (pending_pkts tx ! i)]\<rparr>"

definition count_tx :: "(gve_txq_stats \<Rightarrow> gve_txq_stats) \<Rightarrow> gve_tx_ring_dqo \<Rightarrow> gve_tx_ring_dqo" where
  "count_tx f tx = tx\<lparr>tx_stats := f (tx_stats tx)\<rparr>"

definition gve_unmap_packet :: "nat \<Rightarrow> gve_tx_ring_dqo \<Rightarrow> gve_tx_ring_dqo" where
  "gve_unmap_packet i = upd_pkt i (\<lambda>p. p\<lparr>dma_loaded := False\<rparr>)"

definition gve_clear_qpl_pending_pkt :: "gve_tx_pending_pkt_dqo \<Rightarrow> gve_tx_pending_pkt_dqo" where
  "gve_clear_qpl_pending_pkt p = p\<lparr>qpl_buf_head := -1, num_qpl_bufs := 0\<rparr>"

fun free_tx_mbufs :: "bool \<Rightarrow> gve_tx_pending_pkt_dqo list \<Rightarrow> gve_tx_pending_pkt_dqo list \<times> event list" where
  "free_tx_mbufs is_qpl [] = ([], [])"
| "free_tx_mbufs is_qpl (p # ps) =
     (let (ps', evs) = free_tx_mbufs is_qpl ps in
      case pp_mbuf p of
        None \<Rightarrow> (p # ps', evs)
      | Some m \<Rightarrow>
          let p1 = (if is_qpl then gve_clear_qpl_pending_pkt p else p\<lparr>dma_loaded := False\<rparr>)
          in (p1\<lparr>pp_mbuf := None\<rparr> # ps', M_FREEM (m_ptr m) # evs))"

definition gve_free_tx_mbufs_dqo :: "bool \<Rightarrow> gve_tx_ring_dqo \<Rightarrow> gve_tx_ring_dqo \<times> event list" where
  "gve_free_tx_mbufs_dqo is_qpl tx =
     (let n = unat (num_pending_pkts tx); (ps, evs) = free_tx_mbufs is_qpl (take n (pending_pkts tx))
      in (tx\<lparr>pending_pkts := ps @ drop n (pending_pkts tx)\<rparr>, evs))"

section \<open>Filling descriptors\<close>

definition gve_extract_tx_metadata_dqo :: "mbuf \<Rightarrow> gve_tx_metadata_dqo \<Rightarrow> gve_tx_metadata_dqo" where
  "gve_extract_tx_metadata_dqo m metadata =
     (let hash = m_flowid m; md1 = metadata\<lparr>version := GVE_TX_METADATA_VERSION_DQO\<rparr>
      in if hash \<noteq> 0
         then let ph = ucast (hash XOR drop_bit 16 hash) AND (push_bit 15 1 - 1);
                  ph1 = (if ph = 0 then NOT ph else ph)
              in md1\<lparr>path_hash := take_bit 15 ph1\<rparr>
         else md1)"

function gve_tx_fill_pkt_desc_dqo ::
  "u32 \<Rightarrow> nat \<Rightarrow> u64 \<Rightarrow> u16 \<Rightarrow> bool \<Rightarrow> bool \<Rightarrow> gve_tx_ring_dqo \<Rightarrow> gve_tx_ring_dqo \<times> u32" where
  "gve_tx_fill_pkt_desc_dqo desc_idx len addr ctag eop csum_enabled tx =
     (if len = 0 then (tx, desc_idx)
      else
        let cur_len = min len GVE_TX_MAX_BUF_SIZE_DQO;
            cur_eop = (eop \<and> cur_len = len);
            d = TXD_PKT \<lparr>buf_addr = addr, end_of_packet = cur_eop, checksum_offload_enable = csum_enabled,
              report_event = False, compl_tag = ctag, buf_size = cur_len\<rparr>
        in gve_tx_fill_pkt_desc_dqo ((desc_idx + 1) AND desc_mask tx) (len - cur_len) (addr + of_nat cur_len)
             ctag eop csum_enabled (tx\<lparr>dqo_desc_ring := (dqo_desc_ring tx)[unat desc_idx := d]\<rparr>))"
  by auto
termination
  by (relation "measure (\<lambda>(_, len, _). len)") (auto simp: GVE_TX_MAX_BUF_SIZE_DQO_def)

declare gve_tx_fill_pkt_desc_dqo.simps [simp del]

definition gve_tx_fill_tso_ctx_desc :: "mbuf \<Rightarrow> gve_tx_metadata_dqo \<Rightarrow> nat \<Rightarrow> gve_tx_tso_context_desc_dqo" where
  "gve_tx_fill_tso_ctx_desc m md hlen =
     \<lparr>tso_total_len = nat ((int (m_pkthdr_len m) - int hlen) mod 2 ^ 24), tso_mss = take_bit 14 (m_tso_segsz m),
      header_len = of_nat hlen, tso_flex = map (metadata_bytes md) [0, 5, 6, 7, 8, 9, 10, 11], tso_reserved_re = False\<rparr>"

definition gve_tx_fill_general_ctx_desc :: "gve_tx_metadata_dqo \<Rightarrow> gve_tx_general_context_desc_dqo" where
  "gve_tx_fill_general_ctx_desc md = \<lparr>gen_flex = map (metadata_bytes md) [0..<12], gen_reserved_re = False\<rparr>"

text \<open>
  What \<open>gve_prep_tso\<close> depends on besides the packet: how many bytes of the chain are contiguous,
  whether \<open>m_pullup\<close> finds memory, what lies behind the contiguous bytes, and the pseudo-header
  checksums as bytes in memory order. A successful \<open>m_pullup\<close> is taken to keep the chain's head.
\<close>

record tso_env =
  te_m_len :: nat
  te_pullup_ok :: "nat \<Rightarrow> bool"
  te_beyond :: "nat \<Rightarrow> u8"
  te_in6_cksum_pseudo :: "u8 list \<Rightarrow> u8 list"
  te_in_pseudo :: "u8 list \<Rightarrow> u8 list"
  te_csum0 :: "u8 list"

definition PULLUP_HDR :: "tso_env \<Rightarrow> mbuf \<Rightarrow> nat \<Rightarrow> nat \<Rightarrow> nat option" where
  "PULLUP_HDR env m m_len len =
     (if m_len < len then (if len \<le> m_pkthdr_len m \<and> te_pullup_ok env len then Some len else None)
      else Some m_len)"

definition hdr_byte :: "tso_env \<Rightarrow> mbuf \<Rightarrow> nat \<Rightarrow> nat \<Rightarrow> nat" where
  "hdr_byte env m m_len i = unat (if i < m_len then m_data m ! i else te_beyond env i)"

definition gve_prep_tso :: "tso_env \<Rightarrow> mbuf \<Rightarrow> errno + nat \<times> mbuf" where
  "gve_prep_tso env m =
     (case PULLUP_HDR env m (te_m_len env) ETHER_HDR_LEN of
        None \<Rightarrow> Inl EINVAL
      | Some l1 \<Rightarrow>
          let et = hdr_byte env m l1 12 * 256 + hdr_byte env m l1 13;
              l3_off = ETHER_HDR_LEN;
              r = (if et = ETHERTYPE_IPV6
                   then map_option (\<lambda>l2. (l2, l3_off + 40, te_in6_cksum_pseudo env (m_data m))) (PULLUP_HDR env m l1 (l3_off + 40))
                   else if et = ETHERTYPE_IP
                   then map_option (\<lambda>l2. (l2, l3_off + (hdr_byte env m l2 l3_off mod 16) * 4, te_in_pseudo env (m_data m)))
                          (PULLUP_HDR env m l1 (l3_off + 20))
                   else Some (l1, 0, te_csum0 env))
          in case r of
               None \<Rightarrow> Inl EINVAL
             | Some (l2, l4_off, cs) \<Rightarrow>
                 (case PULLUP_HDR env m l2 (l4_off + 8) of
                    None \<Rightarrow> Inl EINVAL
                  | Some l3 \<Rightarrow>
                      let th_off = hdr_byte env m l3 (l4_off + 12) div 16
                      in Inr (l4_off + th_off * 4,
                              m\<lparr>m_data := blit (m_data m) (l4_off + 16) (take (l3 - (l4_off + 16)) cs)\<rparr>)))"

definition zero_metadata :: gve_tx_metadata_dqo where
  "zero_metadata = \<lparr>version = 0, path_hash = 0, rehash_event = False\<rparr>"

text \<open>The result carries the packet, whose TCP checksum field may have been rewritten.\<close>

definition gve_tx_fill_ctx_descs ::
  "tso_env \<Rightarrow> mbuf \<Rightarrow> bool \<Rightarrow> u32 \<Rightarrow> gve_tx_ring_dqo \<Rightarrow> err \<times> mbuf \<times> u32 \<times> gve_tx_ring_dqo" where
  "gve_tx_fill_ctx_descs env m is_tso desc_idx tx =
     (let metadata = gve_extract_tx_metadata_dqo m zero_metadata;
          general = (\<lambda>m' idx tx'. (None, m', (idx + 1) AND desc_mask tx',
            tx'\<lparr>dqo_desc_ring := (dqo_desc_ring tx')[unat idx := TXD_GENERAL_CTX (gve_tx_fill_general_ctx_desc metadata)]\<rparr>))
      in if is_tso then
           (case gve_prep_tso env m of
              Inl e \<Rightarrow> (Some e, m, desc_idx, count_tx (\<lambda>st. st\<lparr>tx_delayed_pkt_tsoerr := tx_delayed_pkt_tsoerr st + 1\<rparr>) tx)
            | Inr (hlen, m') \<Rightarrow>
                general m' ((desc_idx + 1) AND desc_mask tx)
                  (count_tx (\<lambda>st. st\<lparr>tso_packet_cnt := tso_packet_cnt st + 1\<rparr>)
                    (tx\<lparr>dqo_desc_ring := (dqo_desc_ring tx)[unat desc_idx := TXD_TSO_CTX (gve_tx_fill_tso_ctx_desc m' metadata hlen)]\<rparr>)))
         else general m desc_idx tx)"

section \<open>Mapping mbufs (RDA)\<close>

text \<open>
  The DMA layer: \<open>bus_dmamap_load_mbuf_sg\<close> gives an error or the segments (address, length);
  \<open>m_collapse\<close> and \<open>m_defrag\<close> give a replacement chain or NULL.
\<close>

record map_env =
  me_load :: "mbuf \<Rightarrow> errno + (u64 \<times> nat) list"
  me_collapse :: "mbuf \<Rightarrow> mbuf option"
  me_defrag :: "mbuf \<Rightarrow> mbuf option"

text \<open>
  \<open>gve_map_mbuf_dqo\<close> at an attempt \<open>> 0\<close> and at the first attempt. The result: the error or the
  segments, the chain (NULL after a failed defragmentation), the ring, the releases.
\<close>

definition map_abort :: "gve_tx_ring_dqo \<Rightarrow> gve_tx_ring_dqo" where
  "map_abort = count_tx (\<lambda>st. st\<lparr>tx_mbuf_dmamap_err := tx_mbuf_dmamap_err st + 1\<rparr>)"

definition map_enomem :: "gve_tx_ring_dqo \<Rightarrow> gve_tx_ring_dqo" where
  "map_enomem = count_tx (\<lambda>st. st\<lparr>tx_mbuf_dmamap_enomem_err := tx_mbuf_dmamap_enomem_err st + 1\<rparr>)"

function gve_map_mbuf_dqo ::
  "map_env \<Rightarrow> nat \<Rightarrow> nat \<Rightarrow> mbuf \<Rightarrow> gve_tx_ring_dqo
     \<Rightarrow> (errno + (u64 \<times> nat) list) \<times> mbuf option \<times> gve_tx_ring_dqo \<times> event list" where
  "gve_map_mbuf_dqo env i attempt m tx =
     (case me_load env m of
        Inr segs \<Rightarrow> (Inr segs, Some m, upd_pkt i (\<lambda>p. p\<lparr>dma_loaded := True\<rparr>) tx, [])
      | Inl e \<Rightarrow>
          if e = EFBIG then
            (if attempt > 0 then (Inl e, Some m, map_abort tx, [])
             else
               let tx1 = count_tx (\<lambda>st. st\<lparr>tx_mbuf_collapse := tx_mbuf_collapse st + 1\<rparr>) tx;
                   (m_new, tx2) =
                     (case me_collapse env m of
                        Some m' \<Rightarrow> (Some m', tx1)
                      | None \<Rightarrow> (me_defrag env m, count_tx (\<lambda>st. st\<lparr>tx_mbuf_defrag := tx_mbuf_defrag st + 1\<rparr>) tx1))
               in case m_new of
                    None \<Rightarrow>
                      (Inl ENOMEM, None,
                       map_abort (count_tx (\<lambda>st. st\<lparr>tx_mbuf_defrag_err := tx_mbuf_defrag_err st + 1\<rparr>) tx2),
                       [M_FREEM (m_ptr m)])
                  | Some m' \<Rightarrow> gve_map_mbuf_dqo env i (attempt + 1) m' tx2)
          else if e = ENOMEM then (Inl e, Some m, map_abort (map_enomem tx), [])
          else (Inl e, Some m, map_abort tx, []))"
  by pat_completeness auto
termination
  by (relation "measure (\<lambda>(_, _, attempt, _). 1 - attempt)") auto

declare gve_map_mbuf_dqo.simps [simp del]

section \<open>Room and free lists\<close>

definition num_avail_desc_ring_slots :: "gve_tx_ring_dqo \<Rightarrow> u32" where
  "num_avail_desc_ring_slots tx = desc_mask tx - ((desc_tail tx - desc_head tx) AND desc_mask tx)"

definition gve_alloc_pending_packet :: "int \<Rightarrow> gve_tx_ring_dqo \<Rightarrow> nat option \<times> gve_tx_ring_dqo" where
  "gve_alloc_pending_packet now tx =
     (let tx1 = (if free_pending_pkts_csm tx = -1
                 then tx\<lparr>free_pending_pkts_csm := free_pending_pkts_prd tx, free_pending_pkts_prd := -1\<rparr> else tx);
          index = free_pending_pkts_csm tx1
      in if index = -1 then (None, tx1)
         else
           let i = nat index
           in (Some i, upd_pkt i (\<lambda>p. p\<lparr>pp_state := GVE_PACKET_STATE_PENDING_DATA_COMPL, pp_time := now\<rparr>)
                 (tx1\<lparr>free_pending_pkts_csm := pp_next (pending_pkts tx1 ! i)\<rparr>)))"

text \<open>The compare-and-set of the loop in \<open>gve_free_pending_packet\<close> succeeds when nothing intervenes.\<close>

definition gve_free_pending_packet :: "nat \<Rightarrow> gve_tx_ring_dqo \<Rightarrow> gve_tx_ring_dqo" where
  "gve_free_pending_packet i tx =
     (let tx1 = upd_pkt i (\<lambda>p. p\<lparr>pp_state := GVE_PACKET_STATE_FREE, pp_time := GVE_TIMESTAMP_INVALID,
                 pp_next := free_pending_pkts_prd tx\<rparr>) tx
      in tx1\<lparr>free_pending_pkts_prd := int i\<rparr>)"

definition gve_tx_has_desc_room_dqo :: "nat \<Rightarrow> gve_tx_ring_dqo \<Rightarrow> bool \<times> gve_tx_ring_dqo" where
  "gve_tx_has_desc_room_dqo needed_descs tx =
     (if needed_descs \<le> unat (num_avail_desc_ring_slots tx) then (True, tx)
      else
        let tx1 = tx\<lparr>desc_head := hw_tx_head tx\<rparr>
        in if needed_descs > unat (num_avail_desc_ring_slots tx1)
           then (False, count_tx (\<lambda>st. st\<lparr>tx_delayed_pkt_nospace_descring := tx_delayed_pkt_nospace_descring st + 1\<rparr>) tx1)
           else (False, tx1))"

definition gve_tx_request_desc_compl :: "u32 \<Rightarrow> gve_tx_ring_dqo \<Rightarrow> gve_tx_ring_dqo" where
  "gve_tx_request_desc_compl desc_idx tx =
     (let last_desc_idx = (desc_idx - 1) AND desc_mask tx;
          last_report_event_interval = (last_desc_idx - last_re_idx tx) AND desc_mask tx
      in if last_report_event_interval \<ge> GVE_TX_MIN_RE_INTERVAL
         then tx\<lparr>dqo_desc_ring := (dqo_desc_ring tx)[unat last_desc_idx :=
                   set_report_event (dqo_desc_ring tx ! unat last_desc_idx)],
                 last_re_idx := last_desc_idx\<rparr>
         else tx)"

definition gve_tx_have_enough_qpl_bufs :: "nat \<Rightarrow> gve_tx_ring_dqo \<Rightarrow> bool \<times> gve_tx_ring_dqo" where
  "gve_tx_have_enough_qpl_bufs num_bufs tx =
     (if num_bufs \<le> unat (qpl_bufs_produced_cached tx - qpl_bufs_consumed tx) then (True, tx)
      else let tx1 = tx\<lparr>qpl_bufs_produced_cached := qpl_bufs_produced tx\<rparr>
           in (num_bufs \<le> unat (qpl_bufs_produced_cached tx1 - qpl_bufs_consumed tx1), tx1))"

definition gve_tx_alloc_qpl_buf :: "gve_tx_ring_dqo \<Rightarrow> int \<times> gve_tx_ring_dqo" where
  "gve_tx_alloc_qpl_buf tx =
     (let tx1 = (if free_qpl_bufs_csm tx = -1
                 then tx\<lparr>free_qpl_bufs_csm := free_qpl_bufs_prd tx, free_qpl_bufs_prd := -1\<rparr> else tx);
          buf = free_qpl_bufs_csm tx1
      in if buf = -1 then (-1, tx1)
         else (buf, tx1\<lparr>free_qpl_bufs_csm := qpl_bufs tx1 ! nat buf, qpl_bufs_consumed := qpl_bufs_consumed tx1 + 1\<rparr>))"

text \<open>Page, offset in it and bus address of a buffer.\<close>

definition gve_get_page_dma_handle :: "nat \<Rightarrow> nat" where
  "gve_get_page_dma_handle index = drop_bit (12 - GVE_TX_BUF_SHIFT_DQO) index"

definition gve_tx_buf_get_addr_dqo :: "gve_tx_ring_dqo \<Rightarrow> nat \<Rightarrow> nat \<times> nat \<times> u64" where
  "gve_tx_buf_get_addr_dqo tx index =
     (let page_id = drop_bit (12 - GVE_TX_BUF_SHIFT_DQO) index;
          offset = push_bit GVE_TX_BUF_SHIFT_DQO (index AND (GVE_TX_BUFS_PER_PAGE_DQO - 1))
      in (page_id, offset, qpl_dmas tx ! page_id + of_nat offset))"

section \<open>Transmission\<close>

text \<open>
  The loop of \<open>gve_tx_copy_mbuf_and_write_pkt_descs\<close>; \<open>None\<close> where an assertion (\<open>MPASS\<close>) fails.
\<close>

function gve_tx_copy_loop ::
  "mbuf \<Rightarrow> nat \<Rightarrow> bool \<Rightarrow> u16 \<Rightarrow> nat \<Rightarrow> int \<Rightarrow> u32 \<Rightarrow> gve_tx_ring_dqo \<Rightarrow> (int \<times> u32 \<times> gve_tx_ring_dqo) option" where
  "gve_tx_copy_loop m i csum_enabled ctag copy_offset prev_buf desc_idx tx =
     (if \<not> copy_offset < m_pkthdr_len m then Some (prev_buf, desc_idx, tx)
      else
        let (buf, tx1) = gve_tx_alloc_qpl_buf tx
        in if buf = -1 then None
           else
             let (page, off, addr) = gve_tx_buf_get_addr_dqo tx1 (nat buf);
                 copy_len = min GVE_TX_BUF_SIZE_DQO (m_pkthdr_len m - copy_offset);
                 tx2 = tx1\<lparr>qpl_pages := (qpl_pages tx1)[page :=
                         blit (qpl_pages tx1 ! page) off (slice (m_data m) copy_offset copy_len)]\<rparr>;
                 (tx3, desc_idx') = gve_tx_fill_pkt_desc_dqo desc_idx copy_len addr ctag
                   (copy_offset + copy_len = m_pkthdr_len m) csum_enabled tx2;
                 tx4 = (if prev_buf = -1 then upd_pkt i (\<lambda>p. p\<lparr>qpl_buf_head := buf\<rparr>) tx3
                        else tx3\<lparr>qpl_bufs := (qpl_bufs tx3)[nat prev_buf := buf]\<rparr>);
                 tx5 = upd_pkt i (\<lambda>p. p\<lparr>num_qpl_bufs := num_qpl_bufs p + 1\<rparr>) tx4
             in gve_tx_copy_loop m i csum_enabled ctag (copy_offset + copy_len) buf desc_idx' tx5)"
  by pat_completeness auto
termination
  by (relation "measure (\<lambda>(m, _, _, _, copy_offset, _). m_pkthdr_len m - copy_offset)")
    (auto simp: GVE_TX_BUF_SIZE_DQO_def GVE_TX_BUF_SHIFT_DQO_def)

declare gve_tx_copy_loop.simps [simp del]

definition gve_tx_copy_mbuf_and_write_pkt_descs ::
  "mbuf \<Rightarrow> nat \<Rightarrow> bool \<Rightarrow> u16 \<Rightarrow> u32 \<Rightarrow> gve_tx_ring_dqo \<Rightarrow> (u32 \<times> gve_tx_ring_dqo) option" where
  "gve_tx_copy_mbuf_and_write_pkt_descs m i csum_enabled ctag desc_idx tx =
     (if num_qpl_bufs (pending_pkts tx ! i) \<noteq> 0 \<or> qpl_buf_head (pending_pkts tx ! i) \<noteq> -1 then None
      else case gve_tx_copy_loop m i csum_enabled ctag 0 (-1) desc_idx tx of
        None \<Rightarrow> None
      | Some (buf, desc_idx', tx1) \<Rightarrow>
          if buf = -1 then None
          else Some (desc_idx', tx1\<lparr>qpl_bufs := (qpl_bufs tx1)[nat buf := -1]\<rparr>))"

definition howmany :: "nat \<Rightarrow> nat \<Rightarrow> nat" where "howmany x y = (x + (y - 1)) div y"

definition gve_xmit_dqo_qpl ::
  "tso_env \<Rightarrow> int \<Rightarrow> mbuf \<Rightarrow> gve_tx_ring_dqo \<Rightarrow> (err \<times> gve_tx_ring_dqo) option" where
  "gve_xmit_dqo_qpl env now m tx =
     (let is_tso = is_tso_mbuf m;
          nsegs = howmany (m_pkthdr_len m) GVE_TX_BUF_SIZE_DQO;
          total_descs_needed = 1 + nsegs + (if is_tso then 1 else 0);
          (room, tx1) = gve_tx_has_desc_room_dqo total_descs_needed tx
      in if \<not> room then Some (Some ENOBUFS, tx1)
         else
           let (enough, tx2) = gve_tx_have_enough_qpl_bufs nsegs tx1
           in if \<not> enough then
                Some (Some ENOBUFS, count_tx (\<lambda>st. st\<lparr>tx_delayed_pkt_nospace_qpl_bufs := tx_delayed_pkt_nospace_qpl_bufs st + 1\<rparr>) tx2)
              else
                case gve_alloc_pending_packet now tx2 of
                  (None, tx3) \<Rightarrow>
                    Some (Some ENOBUFS, count_tx (\<lambda>st. st\<lparr>tx_delayed_pkt_nospace_compring := tx_delayed_pkt_nospace_compring st + 1\<rparr>) tx3)
                | (Some i, tx3) \<Rightarrow>
                    (case gve_tx_fill_ctx_descs env m is_tso (desc_tail tx) (upd_pkt i (\<lambda>p. p\<lparr>pp_mbuf := Some m\<rparr>) tx3) of
                       (Some e, _, _, tx4) \<Rightarrow>
                         Some (Some e, gve_free_pending_packet i (upd_pkt i (\<lambda>p. p\<lparr>pp_mbuf := None\<rparr>) tx4))
                     | (None, m', desc_idx, tx4) \<Rightarrow>
                         (case gve_tx_copy_mbuf_and_write_pkt_descs m' i (has_csum_flag m) (of_nat i) desc_idx
                                 (upd_pkt i (\<lambda>p. p\<lparr>pp_mbuf := Some m'\<rparr>) tx4) of
                            None \<Rightarrow> None
                          | Some (desc_idx', tx5) \<Rightarrow>
                              let tx6 = gve_tx_request_desc_compl desc_idx' (tx5\<lparr>desc_tail := desc_idx'\<rparr>)
                              in Some (None, tx6\<lparr>tx_req := tx_req tx6 + of_nat total_descs_needed\<rparr>))))"

fun fill_segs :: "(u64 \<times> nat) list \<Rightarrow> u16 \<Rightarrow> bool \<Rightarrow> u32 \<Rightarrow> gve_tx_ring_dqo \<Rightarrow> gve_tx_ring_dqo \<times> u32" where
  "fill_segs [] ctag csum desc_idx tx = (tx, desc_idx)"
| "fill_segs ((addr, len) # segs) ctag csum desc_idx tx =
     (let (tx1, desc_idx') = gve_tx_fill_pkt_desc_dqo desc_idx len addr ctag (segs = []) csum tx
      in fill_segs segs ctag csum desc_idx' tx1)"

text \<open>
  \<open>gve_xmit_dqo\<close> with the chain in \<open>*mbuf_ptr\<close> afterwards: NULL when the chain has been freed.
\<close>

definition gve_xmit_dqo ::
  "tso_env \<Rightarrow> map_env \<Rightarrow> int \<Rightarrow> mbuf \<Rightarrow> gve_tx_ring_dqo \<Rightarrow> err \<times> mbuf option \<times> gve_tx_ring_dqo \<times> event list" where
  "gve_xmit_dqo env menv now m tx =
     (let is_tso = is_tso_mbuf m;
          (room, tx1) = gve_tx_has_desc_room_dqo (1 + 1 + (if is_tso then 1 else 0)) tx
      in if \<not> room then (Some ENOBUFS, Some m, tx1, [])
         else case gve_alloc_pending_packet now tx1 of
           (None, tx2) \<Rightarrow>
             (Some ENOBUFS, Some m, count_tx (\<lambda>st. st\<lparr>tx_delayed_pkt_nospace_compring := tx_delayed_pkt_nospace_compring st + 1\<rparr>) tx2, [])
         | (Some i, tx2) \<Rightarrow>
             (case gve_map_mbuf_dqo menv i 0 m tx2 of
                (Inl e, m_ptr', tx3, evs) \<Rightarrow>
                  (Some e, m_ptr', gve_free_pending_packet i (upd_pkt i (\<lambda>p. p\<lparr>pp_mbuf := None\<rparr>) tx3), evs)
              | (Inr segs, m_ptr', tx3, evs) \<Rightarrow>
                  let m1 = the m_ptr';
                      abort_with_dma = (\<lambda>t. gve_free_pending_packet i (upd_pkt i (\<lambda>p. p\<lparr>pp_mbuf := None\<rparr>) (gve_unmap_packet i t)));
                      total_descs_needed = 1 + length segs + (if is_tso then 1 else 0);
                      (room2, tx4) = gve_tx_has_desc_room_dqo total_descs_needed (upd_pkt i (\<lambda>p. p\<lparr>pp_mbuf := Some m1\<rparr>) tx3)
                  in if \<not> room2 then (Some ENOBUFS, Some m1, abort_with_dma tx4, evs)
                     else case gve_tx_fill_ctx_descs env m1 is_tso (desc_tail tx) tx4 of
                       (Some e, _, _, tx5) \<Rightarrow> (Some e, Some m1, abort_with_dma tx5, evs)
                     | (None, m2, desc_idx, tx5) \<Rightarrow>
                         let (tx6, desc_idx') = fill_segs segs (of_nat i) (has_csum_flag m) desc_idx
                               (upd_pkt i (\<lambda>p. p\<lparr>pp_mbuf := Some m2\<rparr>) tx5);
                             tx7 = gve_tx_request_desc_compl desc_idx' (tx6\<lparr>desc_tail := desc_idx'\<rparr>)
                         in (None, Some m2, tx7\<lparr>tx_req := tx_req tx7 + of_nat total_descs_needed\<rparr>, evs)))"

section \<open>Completions\<close>

text \<open>The walk over the buffers of a packet: the last buffer and what follows it.\<close>

fun reap_walk :: "int list \<Rightarrow> nat \<Rightarrow> int \<Rightarrow> int \<Rightarrow> int \<times> int" where
  "reap_walk bufs 0 buf tail = (tail, buf)"
| "reap_walk bufs (Suc n) buf tail = reap_walk bufs n (bufs ! nat buf) buf"

definition gve_reap_qpl_bufs_dqo :: "nat \<Rightarrow> gve_tx_ring_dqo \<Rightarrow> gve_tx_ring_dqo option" where
  "gve_reap_qpl_bufs_dqo i tx =
     (let pkt = pending_pkts tx ! i;
          (qpl_buf_tail, buf) = reap_walk (qpl_bufs tx) (unat (num_qpl_bufs pkt)) (qpl_buf_head pkt) (-1)
      in if buf \<noteq> -1 \<or> qpl_buf_tail = -1 then None
         else
           let tx1 = tx\<lparr>qpl_bufs := (qpl_bufs tx)[nat qpl_buf_tail := free_qpl_bufs_prd tx],
                        free_qpl_bufs_prd := qpl_buf_head pkt,
                        qpl_bufs_produced := qpl_bufs_produced tx + num_qpl_bufs pkt\<rparr>
           in Some (upd_pkt i gve_clear_qpl_pending_pkt tx1))"

definition gve_handle_packet_completion ::
  "bool \<Rightarrow> u16 \<Rightarrow> gve_tx_ring_dqo \<Rightarrow> (nat \<times> gve_tx_ring_dqo \<times> event list) option" where
  "gve_handle_packet_completion is_qpl ctag tx =
     (if ctag \<ge> num_pending_pkts tx then Some (0, tx, [])
      else
        let i = unat ctag; pending_pkt = pending_pkts tx ! i
        in if pp_state pending_pkt \<noteq> GVE_PACKET_STATE_PENDING_DATA_COMPL then Some (0, tx, [])
           else case pp_mbuf pending_pkt of
             None \<Rightarrow> None
           | Some m \<Rightarrow>
               (case (if is_qpl then gve_reap_qpl_bufs_dqo i tx else Some (gve_unmap_packet i tx)) of
                  None \<Rightarrow> None
                | Some tx1 \<Rightarrow>
                    Some (m_pkthdr_len m, gve_free_pending_packet i (upd_pkt i (\<lambda>p. p\<lparr>pp_mbuf := None\<rparr>) tx1),
                          [M_FREEM (m_ptr m)])))"

definition gve_check_tx_timeout_dqo :: "int \<Rightarrow> gve_tx_ring_dqo \<Rightarrow> nat" where
  "gve_check_tx_timeout_dqo now tx =
     length (filter (\<lambda>p. gve_timestamp_valid (pp_time p) \<and> gve_seconds_since now (pp_time p) > GVE_TX_TIMEOUT_PKT_SEC)
       (take (unat (num_pending_pkts tx)) (pending_pkts tx)))"

definition gve_tx_intr_dqo :: "bool \<Rightarrow> bool \<times> event list" where
  "gve_tx_intr_dqo running = (if \<not> running then (False, []) else (True, [TASKQUEUE_ENQUEUE TX_CLEANUP]))"

definition gve_tx_clear_desc_ring_dqo :: "nat \<Rightarrow> gve_tx_ring_dqo \<Rightarrow> gve_tx_ring_dqo" where
  "gve_tx_clear_desc_ring_dqo tx_desc_cnt tx =
     tx\<lparr>dqo_desc_ring := replicate tx_desc_cnt zero_desc_dqo @ drop tx_desc_cnt (dqo_desc_ring tx)\<rparr>"

definition gve_tx_clear_compl_ring_dqo :: "nat \<Rightarrow> gve_tx_ring_dqo \<Rightarrow> gve_tx_ring_dqo" where
  "gve_tx_clear_compl_ring_dqo tx_desc_cnt tx =
     tx\<lparr>compl_ring := replicate tx_desc_cnt zero_compl_desc @ drop tx_desc_cnt (compl_ring tx)\<rparr>"

text \<open>The loop over the pending packets of \<open>gve_clear_tx_ring_dqo\<close> and the one over the buffers.\<close>

definition clear_pending :: "bool \<Rightarrow> nat \<Rightarrow> gve_tx_pending_pkt_dqo list \<Rightarrow> gve_tx_pending_pkt_dqo list" where
  "clear_pending is_qpl n ps =
     map (\<lambda>j. (if is_qpl then gve_clear_qpl_pending_pkt (ps ! j) else ps ! j)
               \<lparr>pp_time := GVE_TIMESTAMP_INVALID, pp_next := (if j = n - 1 then -1 else int j + 1),
                pp_state := GVE_PACKET_STATE_FREE\<rparr>) [0..<n] @ drop n ps"

definition clear_qpl_bufs :: "nat \<Rightarrow> int list \<Rightarrow> int list" where
  "clear_qpl_bufs qpl_buf_cnt bufs =
     map (\<lambda>j. int j + 1) [0..<qpl_buf_cnt - 1] @ [-1] @ drop (qpl_buf_cnt - 1 + 1) bufs"

definition gve_clear_tx_ring_dqo :: "bool \<Rightarrow> nat \<Rightarrow> nat \<Rightarrow> gve_tx_ring_dqo \<Rightarrow> gve_tx_ring_dqo \<times> event list" where
  "gve_clear_tx_ring_dqo is_qpl tx_desc_cnt num_pages tx =
     (let tx1 = tx\<lparr>desc_head := 0, desc_tail := 0, desc_mask := of_nat tx_desc_cnt - 1, last_re_idx := 0,
                   compl_head := 0, compl_mask := of_nat tx_desc_cnt - 1, hw_tx_head := 0, cur_gen_bit := False\<rparr>;
          (tx2, evs) = gve_free_tx_mbufs_dqo is_qpl tx1;
          tx3 = tx2\<lparr>pending_pkts := clear_pending is_qpl (unat (num_pending_pkts tx2)) (pending_pkts tx2),
                    free_pending_pkts_csm := 0, free_pending_pkts_prd := -1\<rparr>;
          qpl_buf_cnt = GVE_TX_BUFS_PER_PAGE_DQO * num_pages;
          tx4 = (if is_qpl
                 then tx3\<lparr>qpl_bufs := clear_qpl_bufs qpl_buf_cnt (qpl_bufs tx3),
                          free_qpl_bufs_csm := 0, free_qpl_bufs_prd := -1,
                          qpl_bufs_produced := of_nat qpl_buf_cnt, qpl_bufs_produced_cached := of_nat qpl_buf_cnt,
                          qpl_bufs_consumed := 0\<rparr>
                 else tx3)
      in (gve_tx_clear_compl_ring_dqo tx_desc_cnt (gve_tx_clear_desc_ring_dqo tx_desc_cnt tx4), evs))"

text \<open>The generation bit is the top bit of byte 1 of a completion.\<close>

definition gve_tx_get_gen_bit :: "gve_tx_compl_desc_dqo \<Rightarrow> bool" where
  "gve_tx_get_gen_bit cd \<longleftrightarrow> (ucast (drop_bit 8 (cd_word0 cd)) :: u8) AND GVE_TX_DESC_DQO_GEN_BIT_MASK \<noteq> 0"

text \<open>One completion, then the loop; \<open>n\<close> is what is left of the budget.\<close>

definition cleanup_dqo_one ::
  "bool \<Rightarrow> gve_tx_compl_desc_dqo \<Rightarrow> gve_tx_ring_dqo \<Rightarrow> (nat \<times> nat \<times> gve_tx_ring_dqo \<times> event list) option" where
  "cleanup_dqo_one is_qpl cd tx =
     (let finish = (\<lambda>t. let h = (compl_head t + 1) AND compl_mask t
                        in t\<lparr>compl_head := h, cur_gen_bit := (cur_gen_bit t \<noteq> (h = 0))\<rparr>)
      in if cd_type cd = GVE_COMPL_TYPE_DQO_DESC
         then Some (0, 0, finish (tx\<lparr>hw_tx_head := ucast (cd_word1 cd)\<rparr>), [])
         else if cd_type cd = GVE_COMPL_TYPE_DQO_PKT
         then map_option (\<lambda>(bytes, tx', evs). (bytes, 1, finish tx', evs)) (gve_handle_packet_completion is_qpl (cd_word1 cd) tx)
         else Some (0, 0, finish tx, []))"

fun cleanup_dqo_loop ::
  "bool \<Rightarrow> nat \<Rightarrow> gve_tx_ring_dqo \<Rightarrow> (nat \<times> nat \<times> nat \<times> gve_tx_ring_dqo \<times> event list) option" where
  "cleanup_dqo_loop is_qpl 0 tx = Some (0, 0, 0, tx, [])"
| "cleanup_dqo_loop is_qpl (Suc n) tx =
     (let cd = compl_ring tx ! unat (compl_head tx)
      in if gve_tx_get_gen_bit cd = cur_gen_bit tx then Some (0, 0, 0, tx, [])
         else case cleanup_dqo_one is_qpl cd tx of
           None \<Rightarrow> None
         | Some (bytes, pkts, tx1, evs) \<Rightarrow>
             map_option (\<lambda>(work, bytes', pkts', tx', evs'). (work + 1, bytes + bytes', pkts + pkts', tx', evs @ evs'))
               (cleanup_dqo_loop is_qpl n tx1))"

definition gve_tx_cleanup_dqo ::
  "bool \<Rightarrow> nat \<Rightarrow> gve_tx_ring_dqo \<Rightarrow> (bool \<times> gve_tx_ring_dqo \<times> event list) option" where
  "gve_tx_cleanup_dqo is_qpl budget tx =
     map_option (\<lambda>(work_done, bytes_done, pkts_done, tx1, evs).
       let (tx2, evs2) = (if stopped tx1 \<and> work_done \<noteq> 0
                          then (tx1\<lparr>stopped := False\<rparr>, [TASKQUEUE_ENQUEUE TX_XMIT]) else (tx1, []));
           tx3 = count_tx (\<lambda>st. st\<lparr>tbytes := tbytes st + of_nat bytes_done, tpackets := tpackets st + of_nat pkts_done\<rparr>)
                   (tx2\<lparr>tx_done := tx_done tx2 + of_nat work_done\<rparr>)
       in (work_done = budget, tx3, evs @ evs2)) (cleanup_dqo_loop is_qpl budget tx)"

definition gve_tx_cleanup_tq_dqo ::
  "bool \<Rightarrow> bool \<Rightarrow> gve_tx_ring_dqo \<Rightarrow> (gve_tx_ring_dqo \<times> event list) option" where
  "gve_tx_cleanup_tq_dqo running is_qpl tx =
     (if \<not> running then Some (tx, [])
      else map_option (\<lambda>(more, tx1, evs).
        if more then (tx1, evs @ [TASKQUEUE_ENQUEUE TX_CLEANUP])
        else (tx1, evs @ [DB_DQO_WRITE_4 (irq_db_offset (tx_com tx1)) (GVE_ITR_NO_UPDATE_DQO OR GVE_ITR_ENABLE_BIT_DQO)]))
          (gve_tx_cleanup_dqo is_qpl 1024 tx))"

end
