(* ===== verification/Gve_Tx_Dqo_Lists.thy ===== *)
theory Gve_Tx_Dqo_Lists
  imports Gve_Tx_Dqo Gve_Freelist
begin

text \<open>
  The DQO transmit ring's free lists as instances of the interface of \<open>Gve_Freelist\<close>, the
  descriptors written into consecutive slots of the ring, and the loop that copies a packet into
  bounce buffers.
\<close>

section \<open>The two pairs of free lists\<close>

abbreviation pnext :: "gve_tx_ring_dqo \<Rightarrow> nat \<Rightarrow> int" where
  "pnext tx \<equiv> (\<lambda>i. pp_next (pending_pkts tx ! i))"

abbreviation qnext :: "gve_tx_ring_dqo \<Rightarrow> nat \<Rightarrow> int" where
  "qnext tx \<equiv> (\<lambda>b. qpl_bufs tx ! b)"

definition qpl_alloc :: "gve_tx_ring_dqo \<Rightarrow> nat option \<times> gve_tx_ring_dqo" where
  "qpl_alloc tx = (case gve_tx_alloc_qpl_buf tx of (b, tx') \<Rightarrow> (if b = -1 then None else Some (nat b), tx'))"

text \<open>The buffers that a pending packet owns.\<close>

definition pkt_bufs :: "nat \<Rightarrow> gve_tx_ring_dqo \<Rightarrow> nat list \<Rightarrow> bool" where
  "pkt_bufs i tx bs \<longleftrightarrow> chain (qnext tx) (qpl_buf_head (pending_pkts tx ! i)) bs \<and>
     length bs = unat (num_qpl_bufs (pending_pkts tx ! i))"

lemma upd_pkt_sel [simp]:
  "pending_pkts (upd_pkt i f tx) = (pending_pkts tx)[i := f (pending_pkts tx ! i)]"
  "free_pending_pkts_csm (upd_pkt i f tx) = free_pending_pkts_csm tx"
  "free_pending_pkts_prd (upd_pkt i f tx) = free_pending_pkts_prd tx"
  "free_qpl_bufs_csm (upd_pkt i f tx) = free_qpl_bufs_csm tx"
  "free_qpl_bufs_prd (upd_pkt i f tx) = free_qpl_bufs_prd tx"
  "qpl_bufs (upd_pkt i f tx) = qpl_bufs tx" "qpl_pages (upd_pkt i f tx) = qpl_pages tx"
  "qpl_dmas (upd_pkt i f tx) = qpl_dmas tx" "dqo_desc_ring (upd_pkt i f tx) = dqo_desc_ring tx"
  "desc_mask (upd_pkt i f tx) = desc_mask tx" "desc_tail (upd_pkt i f tx) = desc_tail tx"
  "desc_head (upd_pkt i f tx) = desc_head tx" "hw_tx_head (upd_pkt i f tx) = hw_tx_head tx"
  "qpl_bufs_produced (upd_pkt i f tx) = qpl_bufs_produced tx"
  "qpl_bufs_consumed (upd_pkt i f tx) = qpl_bufs_consumed tx"
  "qpl_bufs_produced_cached (upd_pkt i f tx) = qpl_bufs_produced_cached tx"
  "num_pending_pkts (upd_pkt i f tx) = num_pending_pkts tx" "compl_ring (upd_pkt i f tx) = compl_ring tx"
  "compl_mask (upd_pkt i f tx) = compl_mask tx" "compl_head (upd_pkt i f tx) = compl_head tx"
  "cur_gen_bit (upd_pkt i f tx) = cur_gen_bit tx" "last_re_idx (upd_pkt i f tx) = last_re_idx tx"
  "stopped (upd_pkt i f tx) = stopped tx" "tx_req (upd_pkt i f tx) = tx_req tx"
  by (simp_all add: upd_pkt_def)

lemma count_tx_sel [simp]:
  "pending_pkts (count_tx g tx) = pending_pkts tx"
  "free_pending_pkts_csm (count_tx g tx) = free_pending_pkts_csm tx"
  "free_pending_pkts_prd (count_tx g tx) = free_pending_pkts_prd tx"
  "free_qpl_bufs_csm (count_tx g tx) = free_qpl_bufs_csm tx"
  "free_qpl_bufs_prd (count_tx g tx) = free_qpl_bufs_prd tx"
  "qpl_bufs (count_tx g tx) = qpl_bufs tx" "qpl_pages (count_tx g tx) = qpl_pages tx"
  "qpl_dmas (count_tx g tx) = qpl_dmas tx" "dqo_desc_ring (count_tx g tx) = dqo_desc_ring tx"
  "desc_mask (count_tx g tx) = desc_mask tx" "desc_tail (count_tx g tx) = desc_tail tx"
  "desc_head (count_tx g tx) = desc_head tx" "hw_tx_head (count_tx g tx) = hw_tx_head tx"
  "qpl_bufs_produced (count_tx g tx) = qpl_bufs_produced tx"
  "qpl_bufs_consumed (count_tx g tx) = qpl_bufs_consumed tx"
  "qpl_bufs_produced_cached (count_tx g tx) = qpl_bufs_produced_cached tx"
  "num_pending_pkts (count_tx g tx) = num_pending_pkts tx" "compl_ring (count_tx g tx) = compl_ring tx"
  "compl_mask (count_tx g tx) = compl_mask tx" "compl_head (count_tx g tx) = compl_head tx"
  "cur_gen_bit (count_tx g tx) = cur_gen_bit tx" "last_re_idx (count_tx g tx) = last_re_idx tx"
  "stopped (count_tx g tx) = stopped tx" "tx_req (count_tx g tx) = tx_req tx"
  by (simp_all add: count_tx_def)

lemma pnext_upd: "(\<And>p. pp_next (f p) = pp_next p) \<Longrightarrow> pnext (upd_pkt i f tx) = pnext tx"
  by (rule ext) (cases "i < length (pending_pkts tx)"; simp add: nth_list_update list_update_beyond not_less)

interpretation pend: free_lists pnext free_pending_pkts_csm free_pending_pkts_prd "\<lambda>tx. length (pending_pkts tx)"
  "gve_alloc_pending_packet now" "\<lambda>i tx xs. xs = [i]" "\<lambda>i tx. Some (gve_free_pending_packet i tx)" for now
proof unfold_locales
  fix tx tx' :: gve_tx_ring_dqo and r
  let ?f = "\<lambda>p. p\<lparr>pp_state := GVE_PACKET_STATE_PENDING_DATA_COMPL, pp_time := now\<rparr>"
  have n: "pnext (upd_pkt i ?f t) = pnext t" for i t by (rule pnext_upd) simp
  { assume "free_pending_pkts_csm tx \<noteq> -1" "gve_alloc_pending_packet now tx = (r, tx')"
    then show "r = Some (nat (free_pending_pkts_csm tx)) \<and>
      free_pending_pkts_csm tx' = pnext tx (nat (free_pending_pkts_csm tx)) \<and>
      free_pending_pkts_prd tx' = free_pending_pkts_prd tx \<and> pnext tx' = pnext tx \<and>
      length (pending_pkts tx') = length (pending_pkts tx)"
      using n [of "nat (free_pending_pkts_csm tx)" tx] by (auto simp: gve_alloc_pending_packet_def Let_def fun_eq_iff) }
  { assume "free_pending_pkts_csm tx = -1" "free_pending_pkts_prd tx \<noteq> -1" "gve_alloc_pending_packet now tx = (r, tx')"
    then show "r = Some (nat (free_pending_pkts_prd tx)) \<and>
      free_pending_pkts_csm tx' = pnext tx (nat (free_pending_pkts_prd tx)) \<and>
      free_pending_pkts_prd tx' = -1 \<and> pnext tx' = pnext tx \<and> length (pending_pkts tx') = length (pending_pkts tx)"
      using n [of "nat (free_pending_pkts_prd tx)" tx] by (auto simp: gve_alloc_pending_packet_def Let_def fun_eq_iff) }
  { assume "free_pending_pkts_csm tx = -1" "free_pending_pkts_prd tx = -1" "gve_alloc_pending_packet now tx = (r, tx')"
    then show "r = None \<and> free_pending_pkts_csm tx' = -1 \<and> free_pending_pkts_prd tx' = -1 \<and> pnext tx' = pnext tx \<and>
      length (pending_pkts tx') = length (pending_pkts tx)"
      by (auto simp: gve_alloc_pending_packet_def Let_def) }
next
  fix i and tx :: gve_tx_ring_dqo and xs
  assume "xs = [i]" "\<forall>x \<in> set xs. x < length (pending_pkts tx)"
  then show "\<exists>tx'. Some (gve_free_pending_packet i tx) = Some tx' \<and> free_pending_pkts_csm tx' = free_pending_pkts_csm tx \<and>
    free_pending_pkts_prd tx' = int (hd xs) \<and> length (pending_pkts tx') = length (pending_pkts tx) \<and>
    (\<forall>x < length (pending_pkts tx). pnext tx' x = ((pnext tx)(last xs := free_pending_pkts_prd tx)) x)"
    by (simp add: gve_free_pending_packet_def Let_def nth_list_update)
qed

lemma reap_walk_chain:
  "chain (\<lambda>b. bufs ! b) h (bs @ cs) \<Longrightarrow> bs \<noteq> [] \<Longrightarrow> reap_walk bufs (length bs) h t = (int (last bs), if cs = [] then -1 else int (hd cs))"
proof (induction bs arbitrary: h t)
  case (Cons b bs)
  show ?case
  proof (cases "bs = []")
    case True
    then show ?thesis using Cons.prems by (cases cs) auto
  next
    case False
    then show ?thesis using Cons.IH [of "bufs ! b" h] Cons.prems by simp
  qed
qed simp

lemma reap_some:
  assumes "pkt_bufs i tx bs" and "bs \<noteq> []" and "\<forall>b \<in> set bs. b < length (qpl_bufs tx)"
  shows "gve_reap_qpl_bufs_dqo i tx = Some (upd_pkt i gve_clear_qpl_pending_pkt
    (tx\<lparr>qpl_bufs := (qpl_bufs tx)[last bs := free_qpl_bufs_prd tx], free_qpl_bufs_prd := int (hd bs),
        qpl_bufs_produced := qpl_bufs_produced tx + of_nat (length bs)\<rparr>))"
proof -
  have h: "chain (qnext tx) (qpl_buf_head (pending_pkts tx ! i)) (bs @ [])" "length bs = unat (num_qpl_bufs (pending_pkts tx ! i))"
    using assms(1) by (simp_all add: pkt_bufs_def)
  have "reap_walk (qpl_bufs tx) (unat (num_qpl_bufs (pending_pkts tx ! i))) (qpl_buf_head (pending_pkts tx ! i)) (-1) = (int (last bs), -1)"
    using reap_walk_chain [OF h(1) assms(2), of "-1"] h(2) by simp
  moreover have "qpl_buf_head (pending_pkts tx ! i) = int (hd bs)" using h(1) assms(2) by (cases bs) auto
  moreover have "num_qpl_bufs (pending_pkts tx ! i) = of_nat (length bs)" using h(2) by simp
  ultimately show ?thesis by (simp add: gve_reap_qpl_bufs_dqo_def Let_def)
qed

interpretation qplb: free_lists qnext free_qpl_bufs_csm free_qpl_bufs_prd "\<lambda>tx. length (qpl_bufs tx)"
  qpl_alloc pkt_bufs gve_reap_qpl_bufs_dqo
proof unfold_locales
  fix tx tx' :: gve_tx_ring_dqo and r
  { assume "free_qpl_bufs_csm tx \<noteq> -1" "qpl_alloc tx = (r, tx')"
    then show "r = Some (nat (free_qpl_bufs_csm tx)) \<and> free_qpl_bufs_csm tx' = qnext tx (nat (free_qpl_bufs_csm tx)) \<and>
      free_qpl_bufs_prd tx' = free_qpl_bufs_prd tx \<and> qnext tx' = qnext tx \<and> length (qpl_bufs tx') = length (qpl_bufs tx)"
      by (auto simp: qpl_alloc_def gve_tx_alloc_qpl_buf_def Let_def) }
  { assume "free_qpl_bufs_csm tx = -1" "free_qpl_bufs_prd tx \<noteq> -1" "qpl_alloc tx = (r, tx')"
    then show "r = Some (nat (free_qpl_bufs_prd tx)) \<and> free_qpl_bufs_csm tx' = qnext tx (nat (free_qpl_bufs_prd tx)) \<and>
      free_qpl_bufs_prd tx' = -1 \<and> qnext tx' = qnext tx \<and> length (qpl_bufs tx') = length (qpl_bufs tx)"
      by (auto simp: qpl_alloc_def gve_tx_alloc_qpl_buf_def Let_def) }
  { assume "free_qpl_bufs_csm tx = -1" "free_qpl_bufs_prd tx = -1" "qpl_alloc tx = (r, tx')"
    then show "r = None \<and> free_qpl_bufs_csm tx' = -1 \<and> free_qpl_bufs_prd tx' = -1 \<and> qnext tx' = qnext tx \<and>
      length (qpl_bufs tx') = length (qpl_bufs tx)"
      by (auto simp: qpl_alloc_def gve_tx_alloc_qpl_buf_def Let_def) }
next
  fix i and tx :: gve_tx_ring_dqo and bs
  assume a: "pkt_bufs i tx bs" "bs \<noteq> []" "\<forall>b \<in> set bs. b < length (qpl_bufs tx)"
  then show "\<exists>tx'. gve_reap_qpl_bufs_dqo i tx = Some tx' \<and> free_qpl_bufs_csm tx' = free_qpl_bufs_csm tx \<and>
    free_qpl_bufs_prd tx' = int (hd bs) \<and> length (qpl_bufs tx') = length (qpl_bufs tx) \<and>
    (\<forall>x < length (qpl_bufs tx). qnext tx' x = ((qnext tx)(last bs := free_qpl_bufs_prd tx)) x)"
    by (simp add: reap_some nth_list_update)
qed


section \<open>Writing descriptors\<close>

fun adv :: "u32 \<Rightarrow> nat \<Rightarrow> u32 \<Rightarrow> u32" where
  "adv msk 0 idx = idx"
| "adv msk (Suc n) idx = adv msk n ((idx + 1) AND msk)"

fun put_descs :: "u32 \<Rightarrow> u32 \<Rightarrow> 'a list \<Rightarrow> 'a list \<Rightarrow> 'a list" where
  "put_descs msk idx [] ring = ring"
| "put_descs msk idx (d # ds) ring = put_descs msk ((idx + 1) AND msk) ds (ring[unat idx := d])"

lemma length_put_descs [simp]: "length (put_descs msk idx ds ring) = length ring"
  by (induction ds arbitrary: idx ring) auto

lemma put_descs_append: "put_descs msk idx (xs @ ys) ring = put_descs msk (adv msk (length xs) idx) ys (put_descs msk idx xs ring)"
  by (induction xs arbitrary: idx ring) auto

lemma adv_add: "adv msk m (adv msk n idx) = adv msk (n + m) idx"
  by (induction n arbitrary: idx) auto

lemma unat_adv:
  assumes "ring_mask k msk" and "unat idx < 2 ^ k"
  shows "unat (adv msk n idx) = (unat idx + n) mod 2 ^ k"
  using assms(2)
proof (induction n arbitrary: idx)
  case (Suc n)
  have s: "unat ((idx + 1) AND msk) = (unat idx + 1) mod 2 ^ k"
    using unat_add_of_nat_mod [OF assms(1), of idx 1] by simp
  show ?case using Suc.IH [of "(idx + 1) AND msk"] s by (simp add: mod_add_left_eq)
qed simp

text \<open>The slots written are the next ones of the ring; every other slot keeps its descriptor.\<close>

lemma put_descs_other:
  assumes m: "ring_mask k msk" and "unat idx < 2 ^ k" and "length ring = 2 ^ k"
    and "\<And>j. j < length ds \<Longrightarrow> s \<noteq> (unat idx + j) mod 2 ^ k"
  shows "put_descs msk idx ds ring ! s = ring ! s"
  using assms(2-)
proof (induction ds arbitrary: idx ring)
  case (Cons d ds)
  let ?i = "(idx + 1) AND msk"
  have "s \<noteq> unat idx" using Cons.prems(3) [of 0] Cons.prems(1) by simp
  moreover have "\<And>j. j < length ds \<Longrightarrow> s \<noteq> (unat ?i + j) mod 2 ^ k"
    using Cons.prems(3) [of "Suc _"] by (simp add: adv_shift [OF m])
  ultimately show ?case
    using Cons.IH [of ?i "ring[unat idx := d]"] Cons.prems(2) adv_one [OF m, of idx] by simp
qed simp

lemma put_descs_nth:
  assumes m: "ring_mask k msk" and "unat idx < 2 ^ k" and "length ring = 2 ^ k" and "length ds \<le> 2 ^ k" and "j < length ds"
  shows "put_descs msk idx ds ring ! ((unat idx + j) mod 2 ^ k) = ds ! j"
  using assms(2-)
proof (induction ds arbitrary: idx ring j)
  case (Cons d ds)
  let ?i = "(idx + 1) AND msk"
  have ii: "unat ?i < 2 ^ k" using adv_one [OF m, of idx] by simp
  show ?case
  proof (cases j)
    case 0
    have "(unat idx + 0) mod 2 ^ k \<noteq> (unat idx + Suc j') mod 2 ^ k" if "j' < length ds" for j'
      using Cons.prems(3) that by (intro mod_add_neq) auto
    then have "put_descs msk ?i ds (ring[unat idx := d]) ! unat idx = ring[unat idx := d] ! unat idx"
      using Cons.prems ii by (intro put_descs_other [OF m ii]) (simp_all add: adv_shift [OF m])
    then show ?thesis using 0 Cons.prems by simp
  next
    case (Suc j')
    then show ?thesis
      using Cons.IH [of ?i "ring[unat idx := d]" j'] Cons.prems ii by (simp add: adv_shift [OF m])
  qed
qed simp

lemma fill_pkt_desc_one:
  assumes "0 < len" and "len \<le> GVE_TX_MAX_BUF_SIZE_DQO"
  shows "gve_tx_fill_pkt_desc_dqo idx len addr ctag eop csum tx =
    (tx\<lparr>dqo_desc_ring := (dqo_desc_ring tx)[unat idx := TXD_PKT \<lparr>buf_addr = addr, end_of_packet = eop,
       checksum_offload_enable = csum, report_event = False, compl_tag = ctag, buf_size = len\<rparr>]\<rparr>,
     (idx + 1) AND desc_mask tx)"
  using assms by (subst gve_tx_fill_pkt_desc_dqo.simps) (simp add: gve_tx_fill_pkt_desc_dqo.simps Let_def)

section \<open>Bounce buffers\<close>

lemma buf_get_addr:
  "gve_tx_buf_get_addr_dqo tx b = (b div 2, b mod 2 * 2048, qpl_dmas tx ! (b div 2) + of_nat (b mod 2 * 2048))"
proof -
  have "b AND (GVE_TX_BUFS_PER_PAGE_DQO - 1) = b mod 2"
    by (simp add: GVE_TX_BUFS_PER_PAGE_DQO_def PAGE_SIZE_def GVE_TX_BUF_SHIFT_DQO_def and_one_eq)
  moreover have "drop_bit (12 - GVE_TX_BUF_SHIFT_DQO) b = b div 2"
    by (simp add: GVE_TX_BUF_SHIFT_DQO_def drop_bit_eq_div)
  ultimately show ?thesis
    by (simp add: gve_tx_buf_get_addr_dqo_def Let_def GVE_TX_BUF_SHIFT_DQO_def push_bit_eq_mult)
qed

definition buf_bytes :: "u8 list list \<Rightarrow> nat \<Rightarrow> nat \<Rightarrow> u8 list" where
  "buf_bytes pgs b len = slice (pgs ! (b div 2)) (b mod 2 * 2048) len"

definition pages_ok :: "gve_tx_ring_dqo \<Rightarrow> bool" where
  "pages_ok tx \<longleftrightarrow> length (qpl_bufs tx) = 2 * length (qpl_pages tx) \<and> (\<forall>pg \<in> set (qpl_pages tx). length pg = PAGE_SIZE)"

definition buf_write :: "nat \<Rightarrow> u8 list \<Rightarrow> u8 list list \<Rightarrow> u8 list list" where
  "buf_write b bs pgs = pgs[b div 2 := blit (pgs ! (b div 2)) (b mod 2 * 2048) bs]"

lemma buf_write:
  assumes "\<forall>pg \<in> set pgs. length pg = PAGE_SIZE" and "b div 2 < length pgs" and "length bs \<le> 2048"
  shows "buf_bytes (buf_write b bs pgs) b (length bs) = bs"
    and "b' \<noteq> b \<Longrightarrow> b' div 2 < length pgs \<Longrightarrow> n \<le> 2048 \<Longrightarrow> buf_bytes (buf_write b bs pgs) b' n = buf_bytes pgs b' n"
    and "\<forall>pg \<in> set (buf_write b bs pgs). length pg = PAGE_SIZE" and "length (buf_write b bs pgs) = length pgs"
proof -
  let ?pg = "pgs ! (b div 2)"
  have l: "length ?pg = 4096" using assms(1,2) by (simp add: PAGE_SIZE_def)
  have m: "b mod 2 \<le> 1" "b' mod 2 \<le> 1" for b' :: nat by simp_all
  have f: "b mod 2 * 2048 + length bs \<le> length ?pg" using m(1) assms(3) l by simp
  show "buf_bytes (buf_write b bs pgs) b (length bs) = bs"
    using f assms(2) by (simp add: buf_bytes_def buf_write_def slice_blit_same)
  show "\<forall>pg \<in> set (buf_write b bs pgs). length pg = PAGE_SIZE"
    using assms(1) f l by (auto simp: buf_write_def PAGE_SIZE_def dest!: set_update_subset_insert [THEN subsetD])
  show "length (buf_write b bs pgs) = length pgs" by (simp add: buf_write_def)
  assume b': "b' \<noteq> b" "b' div 2 < length pgs" "n \<le> 2048"
  show "buf_bytes (buf_write b bs pgs) b' n = buf_bytes pgs b' n"
  proof (cases "b' div 2 = b div 2")
    case True
    then have "b' mod 2 \<noteq> b mod 2" using b'(1) by (metis div_mult_mod_eq)
    then have "b' mod 2 = 0 \<and> b mod 2 = 1 \<or> b' mod 2 = 1 \<and> b mod 2 = 0" using m(1) m(2) [of b'] by arith
    then show ?thesis
      using f l b' assms(2,3) True unfolding buf_bytes_def buf_write_def
      by (simp, intro slice_blit_disjoint) auto
  qed (simp add: buf_bytes_def buf_write_def)
qed


section \<open>Copying a packet into buffers\<close>

fun qdescs :: "u64 list \<Rightarrow> mbuf \<Rightarrow> u16 \<Rightarrow> bool \<Rightarrow> nat \<Rightarrow> nat list \<Rightarrow> gve_tx_desc_dqo list" where
  "qdescs dmas m ctag csum off [] = []"
| "qdescs dmas m ctag csum off (b # bs) =
     (let l = min GVE_TX_BUF_SIZE_DQO (m_pkthdr_len m - off) in
      TXD_PKT \<lparr>buf_addr = dmas ! (b div 2) + of_nat (b mod 2 * 2048), end_of_packet = (off + l = m_pkthdr_len m),
        checksum_offload_enable = csum, report_event = False, compl_tag = ctag, buf_size = l\<rparr>
      # qdescs dmas m ctag csum (off + l) bs)"

fun qbytes :: "u8 list list \<Rightarrow> mbuf \<Rightarrow> nat \<Rightarrow> nat list \<Rightarrow> u8 list" where
  "qbytes pgs m off [] = []"
| "qbytes pgs m off (b # bs) =
     (let l = min GVE_TX_BUF_SIZE_DQO (m_pkthdr_len m - off) in buf_bytes pgs b l @ qbytes pgs m (off + l) bs)"

lemma buf_size_2048 [simp]: "GVE_TX_BUF_SIZE_DQO = 2048"
  by (simp add: GVE_TX_BUF_SIZE_DQO_def GVE_TX_BUF_SHIFT_DQO_def)

lemma length_qdescs [simp]: "length (qdescs dmas m ctag csum off bs) = length bs"
  by (induction bs arbitrary: off) (simp_all add: Let_def)

lemma qbytes_cong:
  "(\<And>b n. b \<in> set bs \<Longrightarrow> n \<le> 2048 \<Longrightarrow> buf_bytes pgs' b n = buf_bytes pgs b n) \<Longrightarrow> qbytes pgs' m off bs = qbytes pgs m off bs"
  by (induction bs arbitrary: off) (simp_all add: Let_def)

lemma take_drop_app: "take l (drop off xs) @ drop (off + l) xs = drop off xs"
  by (metis append_take_drop_id drop_drop add.commute)

lemma howmany_0 [simp]: "howmany 0 2048 = 0"
  by (simp add: howmany_def)

lemma howmany_step: "0 < n \<Longrightarrow> howmany n 2048 = Suc (howmany (n - min 2048 n) 2048)"
  by (cases "n \<le> 2048") (simp_all add: howmany_def div_eq_dividend_iff Suc_le_eq le_div_geq)

lemma alloc_qpl_buf:
  assumes "qplb.lists tx cs ps" and "cs @ ps = x # ys"
  obtains c p cs' ps' where
    "gve_tx_alloc_qpl_buf tx = (int x, tx\<lparr>free_qpl_bufs_csm := c, free_qpl_bufs_prd := p, qpl_bufs_consumed := qpl_bufs_consumed tx + 1\<rparr>)"
    "qplb.lists (tx\<lparr>free_qpl_bufs_csm := c, free_qpl_bufs_prd := p, qpl_bufs_consumed := qpl_bufs_consumed tx + 1\<rparr>) cs' ps'"
    "cs' @ ps' = ys" "x < length (qpl_bufs tx)"
proof -
  obtain r tx1 where a: "qpl_alloc tx = (r, tx1)" by (metis surj_pair)
  obtain y cs' ps' where q: "r = Some y" "qplb.lists tx1 cs' ps'" "cs @ ps = y # cs' @ ps'" "y < length (qpl_bufs tx)"
    using qplb.alloc_some [OF assms(1) a] assms(2) by auto
  obtain b where b: "gve_tx_alloc_qpl_buf tx = (b, tx1)" "b \<noteq> -1" "y = nat b"
    using a q(1) by (auto simp: qpl_alloc_def split: prod.splits if_splits)
  have ch: "chain (qnext tx) (free_qpl_bufs_csm tx) cs" "chain (qnext tx) (free_qpl_bufs_prd tx) ps"
    using assms(1) by (simp_all add: qplb.lists_def)
  have y: "b = int y" using b ch chain_empty [OF ch(1)] chain_empty [OF ch(2)] q(3)
    by (cases cs; cases ps) (auto simp: gve_tx_alloc_qpl_buf_def Let_def split: if_splits)
  obtain c p where tx1: "tx1 = tx\<lparr>free_qpl_bufs_csm := c, free_qpl_bufs_prd := p, qpl_bufs_consumed := qpl_bufs_consumed tx + 1\<rparr>"
  proof (cases "free_qpl_bufs_csm tx = -1")
    case True
    then have "tx1 = tx\<lparr>free_qpl_bufs_csm := qpl_bufs tx ! nat b, free_qpl_bufs_prd := -1, qpl_bufs_consumed := qpl_bufs_consumed tx + 1\<rparr>"
      using b(1,2) by (auto simp: gve_tx_alloc_qpl_buf_def Let_def split: if_splits)
    then show ?thesis by (rule that)
  next
    case False
    then have "tx1 = tx\<lparr>free_qpl_bufs_csm := qpl_bufs tx ! nat b, free_qpl_bufs_prd := free_qpl_bufs_prd tx, qpl_bufs_consumed := qpl_bufs_consumed tx + 1\<rparr>"
      using b(1) by (auto simp: gve_tx_alloc_qpl_buf_def Let_def)
    then show ?thesis by (rule that)
  qed
  have x: "y = x" "cs' @ ps' = ys" using q(3) assms(2) by simp_all
  have 1: "gve_tx_alloc_qpl_buf tx = (int x, tx\<lparr>free_qpl_bufs_csm := c, free_qpl_bufs_prd := p, qpl_bufs_consumed := qpl_bufs_consumed tx + 1\<rparr>)"
    using b(1) y x(1) tx1 by simp
  show ?thesis by (rule that [OF 1 q(2) [unfolded tx1] x(2) q(4) [unfolded x(1)]])
qed

lemma linked_snoc:
  assumes "linked nx bs" and "distinct bs" and "bs \<noteq> []"
  shows "linked (nx(last bs := int x)) (bs @ [x])"
  using fl_link_linked [OF assms(2,1)] assms(3) by (simp add: linked_append)

text \<open>
  The loop takes the first buffers of the free lists, chains them behind those taken before, fills
  them with the packet's bytes and writes one descriptor for each.
\<close>

definition copied ::
  "nat \<Rightarrow> gve_tx_pending_pkt_dqo \<Rightarrow> gve_tx_desc_dqo list \<Rightarrow> u8 list list \<Rightarrow> int list \<Rightarrow> int \<Rightarrow> int \<Rightarrow> nat \<Rightarrow> gve_tx_ring_dqo \<Rightarrow> gve_tx_ring_dqo" where
  "copied i pkt ring pgs qb c p n tx = tx\<lparr>free_qpl_bufs_csm := c, free_qpl_bufs_prd := p,
     qpl_bufs_consumed := qpl_bufs_consumed tx + of_nat n, qpl_pages := pgs, dqo_desc_ring := ring, qpl_bufs := qb, pending_pkts := (pending_pkts tx)[i := pkt]\<rparr>"

lemma copied_sel [simp]:
  "qpl_pages (copied i pkt ring pgs qb c p n tx) = pgs" "qpl_bufs (copied i pkt ring pgs qb c p n tx) = qb"
  "free_qpl_bufs_csm (copied i pkt ring pgs qb c p n tx) = c" "free_qpl_bufs_prd (copied i pkt ring pgs qb c p n tx) = p"
  "qpl_bufs_consumed (copied i pkt ring pgs qb c p n tx) = qpl_bufs_consumed tx + of_nat n"
  "dqo_desc_ring (copied i pkt ring pgs qb c p n tx) = ring" "pending_pkts (copied i pkt ring pgs qb c p n tx) = (pending_pkts tx)[i := pkt]"
  "desc_mask (copied i pkt ring pgs qb c p n tx) = desc_mask tx" "qpl_dmas (copied i pkt ring pgs qb c p n tx) = qpl_dmas tx"
  by (simp_all add: copied_def)

lemma copied_copied [simp]: "copied i pkt' ring' pgs' qb' c' p' n' (copied i pkt ring pgs qb c p n tx) = copied i pkt' ring' pgs' qb' c' p' (n + n') tx"
  by (simp add: copied_def add.assoc)

definition grown :: "nat list \<Rightarrow> nat \<Rightarrow> gve_tx_pending_pkt_dqo \<Rightarrow> gve_tx_pending_pkt_dqo" where
  "grown bs n pkt = pkt\<lparr>qpl_buf_head := (if bs = [] then qpl_buf_head pkt else int (hd bs)), num_qpl_bufs := num_qpl_bufs pkt + of_nat n\<rparr>"

text \<open>One round of the loop.\<close>

lemma copy_loop_round:
  assumes "gve_tx_alloc_qpl_buf tx = (int x, tx\<lparr>free_qpl_bufs_csm := c, free_qpl_bufs_prd := p, qpl_bufs_consumed := qpl_bufs_consumed tx + 1\<rparr>)"
    and "off < m_pkthdr_len m" and "prev = (if bs = [] then -1 else int (last bs))" and "i < length (pending_pkts tx)"
    and "bs \<noteq> [] \<Longrightarrow> qpl_buf_head (pending_pkts tx ! i) = int (hd bs)"
  defines "l \<equiv> min 2048 (m_pkthdr_len m - off)"
  shows "gve_tx_copy_loop m i csum ctag off prev idx tx =
    gve_tx_copy_loop m i csum ctag (off + l) (int x) ((idx + 1) AND desc_mask tx)
      (copied i (grown (bs @ [x]) 1 (pending_pkts tx ! i))
        (put_descs (desc_mask tx) idx (qdescs (qpl_dmas tx) m ctag csum off [x]) (dqo_desc_ring tx))
        (buf_write x (slice (m_data m) off l) (qpl_pages tx))
        (if bs = [] then qpl_bufs tx else (qpl_bufs tx)[last bs := int x]) c p 1 tx)"
proof -
  have l: "0 < l" "l \<le> GVE_TX_MAX_BUF_SIZE_DQO" "min GVE_TX_BUF_SIZE_DQO (m_pkthdr_len m - off) = l"
    using assms(2) by (simp_all add: l_def GVE_TX_MAX_BUF_SIZE_DQO_def)
  have pk: "bs \<noteq> [] \<Longrightarrow> (pending_pkts tx ! i)\<lparr>qpl_buf_head := int (hd bs), num_qpl_bufs := n\<rparr> = (pending_pkts tx ! i)\<lparr>num_qpl_bufs := n\<rparr>" for n
    using assms(5) by simp
  show ?thesis
    using assms(1-4) l
    by (subst gve_tx_copy_loop.simps)
      (cases "bs = []"; simp add: pk buf_get_addr fill_pkt_desc_one Let_def copied_def upd_pkt_def buf_write_def grown_def del: buf_size_2048)
qed

lemma copy_loop_ok:
  assumes "qplb.lists tx cs ps" and "cs @ ps = xs @ ys" and "length xs = howmany (m_pkthdr_len m - off) 2048"
    and "pages_ok tx" and "linked (qnext tx) bs" and "distinct (bs @ cs @ ps)" and "\<forall>b \<in> set bs. b < length (qpl_bufs tx)"
    and "prev = (if bs = [] then -1 else int (last bs))" and "off \<le> m_pkthdr_len m"
    and "bs \<noteq> [] \<Longrightarrow> qpl_buf_head (pending_pkts tx ! i) = int (hd bs)" and "i < length (pending_pkts tx)"
  shows "\<exists>pgs qb c p cs' ps' tx'. tx' = copied i (grown (bs @ xs) (length xs) (pending_pkts tx ! i))
      (put_descs (desc_mask tx) idx (qdescs (qpl_dmas tx) m ctag csum off xs) (dqo_desc_ring tx)) pgs qb c p (length xs) tx \<and>
    gve_tx_copy_loop m i csum ctag off prev idx tx =
      Some (if bs @ xs = [] then -1 else int (last (bs @ xs)), adv (desc_mask tx) (length xs) idx, tx') \<and>
    cs' @ ps' = ys \<and> qplb.lists tx' cs' ps' \<and> linked (\<lambda>b. qb ! b) (bs @ xs) \<and> pages_ok tx' \<and>
    length qb = length (qpl_bufs tx) \<and> (\<forall>b. b \<notin> set (bs @ xs) \<longrightarrow> qb ! b = qpl_bufs tx ! b) \<and>
    qbytes pgs m off xs = drop off (m_data m) \<and>
    (\<forall>b < length (qpl_bufs tx). b \<notin> set xs \<longrightarrow> (\<forall>n \<le> 2048. buf_bytes pgs b n = buf_bytes (qpl_pages tx) b n))"
  using assms
proof (induction xs arbitrary: off prev bs idx tx cs ps)
  case Nil
  have "off = m_pkthdr_len m"
    using Nil.prems(3,9) howmany_step [of "m_pkthdr_len m - off"] by (cases "off < m_pkthdr_len m") auto
  moreover have "grown bs 0 (pending_pkts tx ! i) = pending_pkts tx ! i"
    using Nil.prems(10) by (auto simp: grown_def)
  moreover have "tx = copied i (pending_pkts tx ! i) (dqo_desc_ring tx) (qpl_pages tx) (qpl_bufs tx) (free_qpl_bufs_csm tx) (free_qpl_bufs_prd tx) 0 tx"
    by (simp add: copied_def)
  ultimately show ?case
    using Nil.prems by (subst gve_tx_copy_loop.simps)
      (intro exI [of _ "qpl_pages tx"] exI [of _ "qpl_bufs tx"] exI [of _ "free_qpl_bufs_csm tx"] exI [of _ "free_qpl_bufs_prd tx"]
        exI [of _ cs] exI [of _ ps] exI [of _ tx], simp add: m_pkthdr_len_def)
next
  case (Cons x xs)
  let ?l = "min 2048 (m_pkthdr_len m - off)"
  have pos: "off < m_pkthdr_len m" using Cons.prems(3) by (cases "off < m_pkthdr_len m") auto
  have hm: "length xs = howmany (m_pkthdr_len m - (off + ?l)) 2048"
    using Cons.prems(3) howmany_step [of "m_pkthdr_len m - off"] pos by simp
  obtain c p cs1 ps1 where
    a: "gve_tx_alloc_qpl_buf tx = (int x, tx\<lparr>free_qpl_bufs_csm := c, free_qpl_bufs_prd := p, qpl_bufs_consumed := qpl_bufs_consumed tx + 1\<rparr>)"
    and q: "qplb.lists (tx\<lparr>free_qpl_bufs_csm := c, free_qpl_bufs_prd := p, qpl_bufs_consumed := qpl_bufs_consumed tx + 1\<rparr>) cs1 ps1"
      "cs1 @ ps1 = xs @ ys" "x < length (qpl_bufs tx)"
    by (rule alloc_qpl_buf [OF Cons.prems(1,2) [simplified append_Cons]])
  define data where "data = slice (m_data m) off ?l"
  define qb1 where "qb1 = (if bs = [] then qpl_bufs tx else (qpl_bufs tx)[last bs := int x])"
  define pgs1 where "pgs1 = buf_write x data (qpl_pages tx)"
  define ring1 where "ring1 = put_descs (desc_mask tx) idx (qdescs (qpl_dmas tx) m ctag csum off [x]) (dqo_desc_ring tx)"
  define tx5 where "tx5 = copied i (grown (bs @ [x]) 1 (pending_pkts tx ! i)) ring1 pgs1 qb1 c p 1 tx"
  have run: "gve_tx_copy_loop m i csum ctag off prev idx tx =
      gve_tx_copy_loop m i csum ctag (off + ?l) (int x) ((idx + 1) AND desc_mask tx) tx5"
    unfolding tx5_def ring1_def pgs1_def qb1_def data_def
    by (rule copy_loop_round [OF a pos Cons.prems(8,11,10)])
  have dl: "length data = ?l" using pos by (simp add: data_def m_pkthdr_len_def)
  have xp: "x div 2 < length (qpl_pages tx)" "\<forall>pg \<in> set (qpl_pages tx). length pg = PAGE_SIZE"
    using q(3) Cons.prems(4) by (auto simp: pages_ok_def)
  note W = buf_write [OF xp(2,1), of data, folded pgs1_def]
  have d: "distinct (bs @ x # xs @ ys)" using Cons.prems(2,6) by simp
  have qb_nth: "qb1 ! b = qpl_bufs tx ! b" if "b \<notin> set bs" for b
  proof (cases "bs = []")
    case False
    then have "last bs \<noteq> b" using that last_in_set [OF False] by metis
    then show ?thesis using False by (simp add: qb1_def)
  qed (simp add: qb1_def)
  have chq: "chain (\<lambda>b. qb1 ! b) h zs = chain (qnext tx) h zs" if "set zs \<subseteq> set (xs @ ys)" for h zs
    using that d by (intro chain_cong qb_nth) auto
  have sub: "set cs1 \<subseteq> set (xs @ ys)" "set ps1 \<subseteq> set (xs @ ys)" using q(2) [symmetric] by auto
  have lq: "length qb1 = length (qpl_bufs tx)" by (simp add: qb1_def)
  have L: "qplb.lists tx5 cs1 ps1"
    using q(1) chq [OF sub(1)] chq [OF sub(2)] by (simp add: qplb.lists_def tx5_def lq)
  have P: "pages_ok tx5" using Cons.prems(4) W(3,4) dl by (simp add: pages_ok_def tx5_def qb1_def)
  have K: "linked (qnext tx5) (bs @ [x])"
  proof (cases "bs = []")
    case False
    have "linked ((qnext tx)(last bs := int x)) (bs @ [x])"
      using Cons.prems(5,6) False by (intro linked_snoc) auto
    moreover have "linked (qnext tx5) (bs @ [x]) = linked ((qnext tx)(last bs := int x)) (bs @ [x])"
      using False Cons.prems(7) by (intro linked_cong) (auto simp: tx5_def qb1_def nth_list_update)
    ultimately show ?thesis by simp
  qed simp
  have D: "distinct ((bs @ [x]) @ cs1 @ ps1)" "\<forall>b \<in> set (bs @ [x]). b < length (qpl_bufs tx5)"
    using d q(2,3) Cons.prems(7) by (auto simp: tx5_def qb1_def)
  have H: "qpl_buf_head (pending_pkts tx5 ! i) = int (hd (bs @ [x]))" "i < length (pending_pkts tx5)"
    using Cons.prems(11) by (simp_all add: tx5_def grown_def)
  have O: "off + ?l \<le> m_pkthdr_len m" "int x = (if bs @ [x] = [] then -1 else int (last (bs @ [x])))" using pos by auto
  obtain pgs qb c' p' cs' ps' tx' where I:
    "tx' = copied i (grown ((bs @ [x]) @ xs) (length xs) (pending_pkts tx5 ! i))
      (put_descs (desc_mask tx5) ((idx + 1) AND desc_mask tx) (qdescs (qpl_dmas tx5) m ctag csum (off + ?l) xs) (dqo_desc_ring tx5)) pgs qb c' p' (length xs) tx5"
    "gve_tx_copy_loop m i csum ctag (off + ?l) (int x) ((idx + 1) AND desc_mask tx) tx5 =
      Some (if (bs @ [x]) @ xs = [] then -1 else int (last ((bs @ [x]) @ xs)), adv (desc_mask tx5) (length xs) ((idx + 1) AND desc_mask tx), tx')"
    "cs' @ ps' = ys" "qplb.lists tx' cs' ps'" "linked (\<lambda>b. qb ! b) ((bs @ [x]) @ xs)" "pages_ok tx'"
    "length qb = length (qpl_bufs tx5)" "\<forall>b. b \<notin> set ((bs @ [x]) @ xs) \<longrightarrow> qb ! b = qpl_bufs tx5 ! b"
    "qbytes pgs m (off + ?l) xs = drop (off + ?l) (m_data m)"
    "\<forall>b < length (qpl_bufs tx5). b \<notin> set xs \<longrightarrow> (\<forall>n \<le> 2048. buf_bytes pgs b n = buf_bytes (qpl_pages tx5) b n)"
    using Cons.IH [OF L q(2) hm P K D O(2,1) H, of "(idx + 1) AND desc_mask tx"] by blast
  have tx': "tx' = copied i (grown (bs @ x # xs) (length (x # xs)) (pending_pkts tx ! i))
      (put_descs (desc_mask tx) idx (qdescs (qpl_dmas tx) m ctag csum off (x # xs)) (dqo_desc_ring tx)) pgs qb c' p' (length (x # xs)) tx"
    using I(1) Cons.prems(11) by (simp add: tx5_def ring1_def grown_def Let_def add.assoc)
  have "x \<notin> set xs" using d by auto
  then have "buf_bytes pgs x ?l = data" using I(10) q(3) W(1) dl by (simp add: tx5_def qb1_def)
  then have bytes: "qbytes pgs m off (x # xs) = drop off (m_data m)"
    using I(9) take_drop_app [of ?l off "m_data m"] by (simp add: Let_def data_def slice_def)
  have oth: "buf_bytes pgs b n = buf_bytes (qpl_pages tx) b n" if "b < length (qpl_bufs tx)" "b \<notin> set (x # xs)" "n \<le> 2048" for b n
    using that I(10) W(2) [of b n] dl Cons.prems(4) by (auto simp: tx5_def qb1_def pages_ok_def)
  have r: "gve_tx_copy_loop m i csum ctag off prev idx tx =
      Some (if bs @ x # xs = [] then -1 else int (last (bs @ x # xs)), adv (desc_mask tx) (length (x # xs)) idx, tx')"
    using run I(2) by (simp add: tx5_def del: copied_copied)
  have lk: "linked (\<lambda>b. qb ! b) (bs @ x # xs)" using I(5) by simp
  have qb: "length qb = length (qpl_bufs tx)" "\<forall>b. b \<notin> set (bs @ x # xs) \<longrightarrow> qb ! b = qpl_bufs tx ! b"
    using I(7,8) qb_nth lq by (simp_all add: tx5_def)
  show ?case
    using tx' r I(3,4) lk I(6) qb bytes oth by blast
qed

end
