(* ===== verification/Gve_Tx_Dqo_Inv.thy ===== *)
theory Gve_Tx_Dqo_Inv
  imports Gve_Tx_Dqo_Lists
begin

text \<open>
  The invariant of the DQO transmit ring: every pending packet is in flight or on a free list, every
  bounce buffer belongs to one packet or to a free list, and the counters agree. Transmission
  through bounce buffers keeps it and puts the packet's bytes where its descriptors say.
\<close>

section \<open>The invariant\<close>

definition pend_ok :: "bool \<Rightarrow> gve_tx_pending_pkt_dqo \<Rightarrow> bool" where
  "pend_ok is_qpl p \<longleftrightarrow>
     (pp_state p = GVE_PACKET_STATE_FREE \<and> pp_mbuf p = None \<and> pp_time p = GVE_TIMESTAMP_INVALID \<and>
        (if is_qpl then qpl_buf_head p = -1 \<and> num_qpl_bufs p = 0 else \<not> dma_loaded p)) \<or>
     (pp_state p = GVE_PACKET_STATE_PENDING_DATA_COMPL \<and> pp_mbuf p \<noteq> None \<and> (is_qpl \<or> dma_loaded p))"

definition pend_inv :: "bool \<Rightarrow> gve_tx_ring_dqo \<Rightarrow> nat list \<Rightarrow> nat list \<Rightarrow> bool" where
  "pend_inv is_qpl tx cs ps \<longleftrightarrow> unat (num_pending_pkts tx) = length (pending_pkts tx) \<and> pend.lists tx cs ps \<and>
     (\<forall>i < length (pending_pkts tx). pend_ok is_qpl (pending_pkts tx ! i) \<and>
        (i \<in> set (cs @ ps) \<longleftrightarrow> pp_state (pending_pkts tx ! i) = GVE_PACKET_STATE_FREE))"

text \<open>
  Every bounce buffer belongs to exactly one owner: a free list, or the chain of one pending
  packet. \<open>B i\<close> are the buffers of packet \<open>i\<close>, \<open>F\<close> the free ones.
\<close>

definition owns :: "gve_tx_ring_dqo \<Rightarrow> (nat \<Rightarrow> nat list) \<Rightarrow> nat set \<Rightarrow> nat \<Rightarrow> bool" where
  "owns tx B F i \<longleftrightarrow> pkt_bufs i tx (B i) \<and> distinct (B i) \<and> set (B i) \<inter> F = {} \<and>
     (B i = [] \<longleftrightarrow> pp_state (pending_pkts tx ! i) = GVE_PACKET_STATE_FREE)"

definition buf_partition :: "nat \<Rightarrow> nat \<Rightarrow> (nat \<Rightarrow> nat list) \<Rightarrow> nat set \<Rightarrow> bool" where
  "buf_partition np nb B F \<longleftrightarrow>
     (\<forall>i < np. \<forall>j < np. i \<noteq> j \<longrightarrow> set (B i) \<inter> set (B j) = {}) \<and> F \<union> (\<Union>i < np. set (B i)) = {..<nb}"

definition buf_counts :: "gve_tx_ring_dqo \<Rightarrow> nat \<Rightarrow> bool" where
  "buf_counts tx n \<longleftrightarrow> unat (qpl_bufs_produced tx - qpl_bufs_consumed tx) = n \<and>
     unat (qpl_bufs_produced_cached tx - qpl_bufs_consumed tx) \<le> n"

definition qbuf_inv :: "gve_tx_ring_dqo \<Rightarrow> (nat \<Rightarrow> nat list) \<Rightarrow> nat list \<Rightarrow> nat list \<Rightarrow> bool" where
  "qbuf_inv tx B cs ps \<longleftrightarrow> qplb.lists tx cs ps \<and> pages_ok tx \<and> length (qpl_bufs tx) < 2 ^ 31 \<and>
     (\<forall>i < length (pending_pkts tx). owns tx B (set (cs @ ps)) i) \<and>
     buf_partition (length (pending_pkts tx)) (length (qpl_bufs tx)) B (set (cs @ ps)) \<and>
     buf_counts tx (length (cs @ ps))"

definition ring_ok :: "nat \<Rightarrow> gve_tx_ring_dqo \<Rightarrow> bool" where
  "ring_ok k tx \<longleftrightarrow> ring_mask k (desc_mask tx) \<and> length (dqo_desc_ring tx) = 2 ^ k \<and> unat (desc_tail tx) < 2 ^ k"

definition dqo_inv :: "nat \<Rightarrow> bool \<Rightarrow> gve_tx_ring_dqo \<Rightarrow> bool" where
  "dqo_inv k is_qpl tx \<longleftrightarrow> ring_ok k tx \<and> (\<exists>cs ps. pend_inv is_qpl tx cs ps) \<and>
     (is_qpl \<longrightarrow> (\<exists>B cs ps. qbuf_inv tx B cs ps))"

section \<open>What the invariants depend on\<close>

definition pend_view :: "gve_tx_ring_dqo \<Rightarrow> gve_tx_pending_pkt_dqo list \<times> u16 \<times> int \<times> int" where
  "pend_view tx = (pending_pkts tx, num_pending_pkts tx, free_pending_pkts_csm tx, free_pending_pkts_prd tx)"

definition qbuf_view ::
  "gve_tx_ring_dqo \<Rightarrow> (int \<times> u32 \<times> bool) list \<times> int list \<times> u8 list list \<times> int \<times> int \<times> u32 \<times> u32 \<times> u32" where
  "qbuf_view tx = (map (\<lambda>p. (qpl_buf_head p, num_qpl_bufs p, pp_state p = GVE_PACKET_STATE_FREE)) (pending_pkts tx),
     qpl_bufs tx, qpl_pages tx, free_qpl_bufs_csm tx, free_qpl_bufs_prd tx, qpl_bufs_produced tx, qpl_bufs_consumed tx,
     qpl_bufs_produced_cached tx)"

lemma pend_inv_cong: "pend_view tx' = pend_view tx \<Longrightarrow> pend_inv q tx' cs ps = pend_inv q tx cs ps"
  by (simp add: pend_view_def pend_inv_def pend.lists_def)

lemma qbuf_view_pkt:
  assumes "qbuf_view tx' = qbuf_view tx"
  shows "length (pending_pkts tx') = length (pending_pkts tx)"
    and "i < length (pending_pkts tx) \<Longrightarrow> qpl_buf_head (pending_pkts tx' ! i) = qpl_buf_head (pending_pkts tx ! i) \<and>
      num_qpl_bufs (pending_pkts tx' ! i) = num_qpl_bufs (pending_pkts tx ! i) \<and>
      (pp_state (pending_pkts tx' ! i) = GVE_PACKET_STATE_FREE) = (pp_state (pending_pkts tx ! i) = GVE_PACKET_STATE_FREE)"
proof -
  let ?f = "\<lambda>p. (qpl_buf_head p, num_qpl_bufs p, pp_state p = GVE_PACKET_STATE_FREE)"
  have m: "map ?f (pending_pkts tx') = map ?f (pending_pkts tx)" using assms by (simp add: qbuf_view_def)
  then show l: "length (pending_pkts tx') = length (pending_pkts tx)" by (rule map_eq_imp_length_eq)
  assume i: "i < length (pending_pkts tx)"
  then have "?f (pending_pkts tx' ! i) = ?f (pending_pkts tx ! i)" using arg_cong [OF m, of "\<lambda>xs. xs ! i"] l by simp
  then show "qpl_buf_head (pending_pkts tx' ! i) = qpl_buf_head (pending_pkts tx ! i) \<and>
      num_qpl_bufs (pending_pkts tx' ! i) = num_qpl_bufs (pending_pkts tx ! i) \<and>
      (pp_state (pending_pkts tx' ! i) = GVE_PACKET_STATE_FREE) = (pp_state (pending_pkts tx ! i) = GVE_PACKET_STATE_FREE)"
    by simp
qed

lemma qbuf_inv_cong: "qbuf_view tx' = qbuf_view tx \<Longrightarrow> qbuf_inv tx B cs ps \<Longrightarrow> qbuf_inv tx' B cs ps"
  using qbuf_view_pkt [of tx' tx]
  by (auto simp: qbuf_view_def qbuf_inv_def owns_def buf_counts_def qplb.lists_def pages_ok_def pkt_bufs_def)

lemma dqo_invI: "ring_ok k tx \<Longrightarrow> pend_inv q tx cs ps \<Longrightarrow> (q \<Longrightarrow> qbuf_inv tx B cs' ps') \<Longrightarrow> dqo_inv k q tx"
  by (auto simp: dqo_inv_def)

section \<open>A cleared ring\<close>

lemma mask_of_count: "k < 32 \<Longrightarrow> ring_mask k (of_nat (2 ^ k) - 1)"
  by (simp add: ring_mask_def mask_eq_decr_exp)

lemma free_tx_mbufs_props:
  "free_tx_mbufs q ps = (ps', evs) \<Longrightarrow> length ps' = length ps \<and>
     (\<forall>i < length ps. pp_mbuf (ps' ! i) = None \<and> ((pp_mbuf (ps ! i) = None \<longrightarrow> \<not> dma_loaded (ps ! i)) \<longrightarrow> \<not> q \<longrightarrow> \<not> dma_loaded (ps' ! i))) \<and>
     evs = map (\<lambda>m. M_FREEM (m_ptr m)) (List.map_filter pp_mbuf ps)"
proof (induction ps arbitrary: ps' evs)
  case (Cons p ps)
  obtain qs ev where r: "free_tx_mbufs q ps = (qs, ev)" by fastforce
  note IH = Cons.IH [OF r]
  show ?case using Cons.prems r IH
    by (cases "pp_mbuf p"; auto simp: map_filter_simps less_Suc_eq_0_disj nth_Cons' gve_clear_qpl_pending_pkt_def)
qed (simp add: map_filter_simps)

definition cleared_pkt :: "bool \<Rightarrow> gve_tx_pending_pkt_dqo \<Rightarrow> bool" where
  "cleared_pkt q p \<longleftrightarrow> pp_mbuf p = None \<and> (q \<or> \<not> dma_loaded p)"

lemma clear_pending_inv:
  assumes "unat (num_pending_pkts tx) = length (pending_pkts tx)" "0 < length (pending_pkts tx)"
    "pending_pkts tx' = clear_pending q (length (pending_pkts tx)) (pending_pkts tx)" "num_pending_pkts tx' = num_pending_pkts tx"
    "free_pending_pkts_csm tx' = 0" "free_pending_pkts_prd tx' = -1" "\<forall>i < length (pending_pkts tx). cleared_pkt q (pending_pkts tx ! i)"
  shows "pend_inv q tx' [0..<length (pending_pkts tx)] []"
    "\<forall>i < length (pending_pkts tx). pending_pkts tx' ! i \<in> {p. pp_state p = GVE_PACKET_STATE_FREE \<and> (q \<longrightarrow> qpl_buf_head p = -1 \<and> num_qpl_bufs p = 0)}"
proof -
  let ?n = "length (pending_pkts tx)"
  have nth: "pending_pkts tx' ! j = (if q then gve_clear_qpl_pending_pkt (pending_pkts tx ! j) else pending_pkts tx ! j)
      \<lparr>pp_time := GVE_TIMESTAMP_INVALID, pp_next := (if j = ?n - 1 then -1 else int j + 1), pp_state := GVE_PACKET_STATE_FREE\<rparr>"
    if "j < ?n" for j using that by (simp add: assms(3) clear_pending_def nth_append)
  have len: "length (pending_pkts tx') = ?n" by (simp add: assms(3) clear_pending_def)
  have "chain (pnext tx') (int 0) [0..<?n]" using assms(2) nth by (intro chain_upt) auto
  then have "pend.lists tx' [0..<?n] []" using assms(5,6) len by (auto simp: pend.lists_def)
  moreover have "pend_ok q (pending_pkts tx' ! j)" if "j < ?n" for j
    using assms(7) that nth [OF that] by (auto simp: pend_ok_def cleared_pkt_def gve_clear_qpl_pending_pkt_def)
  ultimately show "pend_inv q tx' [0..<?n] []" using assms(1,4) len nth by (auto simp: pend_inv_def)
  show "\<forall>i < ?n. pending_pkts tx' ! i \<in> {p. pp_state p = GVE_PACKET_STATE_FREE \<and> (q \<longrightarrow> qpl_buf_head p = -1 \<and> num_qpl_bufs p = 0)}"
    using nth by (auto simp: gve_clear_qpl_pending_pkt_def)
qed

text \<open>What allocation sets up: room for the descriptors, the pending packets and the buffers.\<close>

definition dqo_alloc_ok :: "nat \<Rightarrow> bool \<Rightarrow> nat \<Rightarrow> gve_tx_ring_dqo \<Rightarrow> bool" where
  "dqo_alloc_ok k q num_pages tx \<longleftrightarrow> k < 32 \<and> length (dqo_desc_ring tx) = 2 ^ k \<and>
     unat (num_pending_pkts tx) = length (pending_pkts tx) \<and> pending_pkts tx \<noteq> [] \<and>
     (\<forall>p \<in> set (pending_pkts tx). \<not> q \<longrightarrow> pp_mbuf p = None \<longrightarrow> \<not> dma_loaded p) \<and>
     (q \<longrightarrow> 0 < num_pages \<and> 2 * num_pages < 2 ^ 31 \<and> length (qpl_pages tx) = num_pages \<and>
        (\<forall>pg \<in> set (qpl_pages tx). length pg = PAGE_SIZE) \<and> length (qpl_bufs tx) = 2 * num_pages)"

lemma clear_qpl_bufs_nth:
  assumes "0 < n" "length bufs = n" "j < n"
  shows "clear_qpl_bufs n bufs ! j = (if j = n - 1 then -1 else int j + 1)"
  using assms by (auto simp: clear_qpl_bufs_def nth_append)

lemma length_clear_qpl_bufs: "0 < n \<Longrightarrow> length bufs = n \<Longrightarrow> length (clear_qpl_bufs n bufs) = n"
  by (simp add: clear_qpl_bufs_def)

lemma clear_qbuf_inv:
  assumes n: "0 < length (qpl_bufs tx)" "length (qpl_bufs tx) < 2 ^ 31" and pg: "pages_ok tx"
    and q: "\<forall>j < length (qpl_bufs tx). qpl_bufs tx ! j = (if j = length (qpl_bufs tx) - 1 then -1 else int j + 1)"
      "free_qpl_bufs_csm tx = 0" "free_qpl_bufs_prd tx = -1"
    and c: "qpl_bufs_produced tx = of_nat (length (qpl_bufs tx))" "qpl_bufs_produced_cached tx = of_nat (length (qpl_bufs tx))" "qpl_bufs_consumed tx = 0"
    and p: "\<forall>i < length (pending_pkts tx). pending_pkts tx ! i \<in> {p. pp_state p = GVE_PACKET_STATE_FREE \<and> (True \<longrightarrow> qpl_buf_head p = -1 \<and> num_qpl_bufs p = 0)}"
  shows "qbuf_inv tx (\<lambda>_. []) [0..<length (qpl_bufs tx)] []"
proof -
  let ?n = "length (qpl_bufs tx)"
  have "chain (qnext tx) (int 0) [0..<?n]" using n q(1) by (intro chain_upt) auto
  then have "qplb.lists tx [0..<?n] []" using q by (auto simp: qplb.lists_def)
  moreover have "buf_counts tx ?n" using n(2) c by (simp add: buf_counts_def unat_of_nat take_bit_eq_mod)
  moreover have "owns tx (\<lambda>_. []) (set [0..<?n]) i" if "i < length (pending_pkts tx)" for i
    using p that by (auto simp: owns_def pkt_bufs_def)
  ultimately show ?thesis using n(2) pg by (auto simp: qbuf_inv_def buf_partition_def atLeast0LessThan)
qed

lemma clear_ring_inv:
  assumes "dqo_alloc_ok k q num_pages tx" and "gve_clear_tx_ring_dqo q (2 ^ k) num_pages tx = (tx', evs)"
  shows "dqo_inv k q tx' \<and> evs = map (\<lambda>m. M_FREEM (m_ptr m)) (List.map_filter pp_mbuf (pending_pkts tx)) \<and>
    (\<forall>p \<in> set (pending_pkts tx'). pp_mbuf p = None) \<and> desc_head tx' = 0 \<and> desc_tail tx' = 0 \<and> desc_mask tx' = mask k \<and>
    length (pending_pkts tx') = length (pending_pkts tx) \<and> qpl_pages tx' = qpl_pages tx"
proof -
  let ?n = "length (pending_pkts tx)"
  have A: "k < 32" "length (dqo_desc_ring tx) = 2 ^ k" "unat (num_pending_pkts tx) = ?n" "0 < ?n"
    "\<And>p. p \<in> set (pending_pkts tx) \<Longrightarrow> \<not> q \<Longrightarrow> pp_mbuf p = None \<Longrightarrow> \<not> dma_loaded p"
    using assms(1) by (auto simp: dqo_alloc_ok_def)
  obtain qs ev where f: "free_tx_mbufs q (pending_pkts tx) = (qs, ev)" by fastforce
  note F = free_tx_mbufs_props [OF f]
  have lq: "length qs = ?n" using F by blast
  have cq: "\<forall>i < length qs. cleared_pkt q (qs ! i)" using F A(5) unfolding cleared_pkt_def by (metis nth_mem)
  define b where "b = (2 * num_pages :: nat)"
  have tx': "tx' = (let t = tx\<lparr>desc_head := 0, desc_tail := 0, desc_mask := of_nat (2 ^ k) - 1, last_re_idx := 0,
                   compl_head := 0, compl_mask := of_nat (2 ^ k) - 1, hw_tx_head := 0, cur_gen_bit := False,
                   pending_pkts := clear_pending q ?n qs, free_pending_pkts_csm := 0, free_pending_pkts_prd := -1\<rparr>
     in (if q then t\<lparr>qpl_bufs := clear_qpl_bufs b (qpl_bufs tx),
                          free_qpl_bufs_csm := 0, free_qpl_bufs_prd := -1,
                          qpl_bufs_produced := of_nat b, qpl_bufs_produced_cached := of_nat b,
                          qpl_bufs_consumed := 0\<rparr> else t)\<lparr>dqo_desc_ring := replicate (2 ^ k) zero_desc_dqo,
        compl_ring := replicate (2 ^ k) zero_compl_desc @ drop (2 ^ k) (compl_ring tx)\<rparr>)"
    "evs = ev"
    using assms(2) f A lq
    by (auto simp: gve_clear_tx_ring_dqo_def gve_free_tx_mbufs_dqo_def Let_def gve_tx_clear_desc_ring_dqo_def gve_tx_clear_compl_ring_dqo_def
        b_def GVE_TX_BUFS_PER_PAGE_DQO_def PAGE_SIZE_def GVE_TX_BUF_SHIFT_DQO_def)
  have s: "desc_mask tx' = of_nat (2 ^ k) - 1" "desc_tail tx' = 0" "desc_head tx' = 0" "dqo_desc_ring tx' = replicate (2 ^ k) zero_desc_dqo"
    "pending_pkts tx' = clear_pending q ?n qs" "num_pending_pkts tx' = num_pending_pkts tx" "free_pending_pkts_csm tx' = 0" "free_pending_pkts_prd tx' = -1"
    "qpl_pages tx' = qpl_pages tx"
    unfolding tx'(1) Let_def by simp_all
  have ro: "ring_ok k tx'" using mask_of_count [OF A(1)] A(1) by (simp add: ring_ok_def s)
  let ?t = "tx\<lparr>pending_pkts := qs\<rparr>"
  have P: "pend_inv q tx' [0..<length (pending_pkts ?t)] []"
    and pk: "\<forall>i < length (pending_pkts ?t). pending_pkts tx' ! i \<in> {p. pp_state p = GVE_PACKET_STATE_FREE \<and> (q \<longrightarrow> qpl_buf_head p = -1 \<and> num_qpl_bufs p = 0)}"
    using A cq lq by (intro clear_pending_inv; simp add: s)+
  have len: "length (pending_pkts tx') = ?n" using lq by (simp add: s clear_pending_def)
  have Q: "qbuf_inv tx' (\<lambda>_. []) [0..<length (qpl_bufs tx')] []" if q
  proof -
    have B: "0 < b" "b < 2 ^ 31" "length (qpl_pages tx) = num_pages" "\<forall>pg \<in> set (qpl_pages tx). length pg = PAGE_SIZE" "length (qpl_bufs tx) = b"
      using assms(1) that by (auto simp: dqo_alloc_ok_def b_def)
    have s2: "qpl_bufs tx' = clear_qpl_bufs b (qpl_bufs tx)" "free_qpl_bufs_csm tx' = 0" "free_qpl_bufs_prd tx' = -1"
      "qpl_bufs_produced tx' = of_nat b" "qpl_bufs_produced_cached tx' = of_nat b" "qpl_bufs_consumed tx' = 0"
      using that unfolding tx'(1) Let_def by simp_all
    have l: "length (qpl_bufs tx') = b" using B by (simp add: s2 length_clear_qpl_bufs)
    have nx: "\<forall>j < b. qpl_bufs tx' ! j = (if j = b - 1 then -1 else int j + 1)"
      using clear_qpl_bufs_nth [OF B(1,5)] by (simp add: s2)
    have pg: "pages_ok tx'" using B l by (simp add: pages_ok_def s b_def)
    have pk': "\<forall>i < length (pending_pkts tx'). pending_pkts tx' ! i \<in> {p. pp_state p = GVE_PACKET_STATE_FREE \<and> (True \<longrightarrow> qpl_buf_head p = -1 \<and> num_qpl_bufs p = 0)}"
      using pk that len lq by simp
    show ?thesis unfolding l by (rule clear_qbuf_inv [of tx', unfolded l, OF B(1,2) pg nx s2(2-6) pk'])
  qed
  have "pp_mbuf p = None" if p: "p \<in> set (pending_pkts tx')" for p
  proof -
    obtain i where i: "i < ?n" "p = pending_pkts tx' ! i" using p unfolding in_set_conv_nth len by blast
    have "pp_mbuf (qs ! i) = None" using cq i(1) lq by (simp add: cleared_pkt_def)
    then show ?thesis using i by (simp add: s clear_pending_def nth_append gve_clear_qpl_pending_pkt_def)
  qed
  then show ?thesis using dqo_invI [OF ro P Q] F s len tx'(2) by (auto simp: mask_eq_decr_exp)
qed


section \<open>Checks before a transmission\<close>

lemma has_desc_room:
  assumes "gve_tx_has_desc_room_dqo n tx = (room, tx1)"
  obtains h st where "tx1 = tx\<lparr>tx_stats := st, desc_head := h\<rparr>"
    "room \<longrightarrow> h = desc_head tx \<and> st = tx_stats tx \<and> n \<le> unat (num_avail_desc_ring_slots tx)"
proof -
  have "\<exists>h st. tx1 = tx\<lparr>tx_stats := st, desc_head := h\<rparr> \<and> (room \<longrightarrow> h = desc_head tx \<and> st = tx_stats tx \<and> n \<le> unat (num_avail_desc_ring_slots tx))"
  proof (cases "n \<le> unat (num_avail_desc_ring_slots tx)")
    case True
    then show ?thesis using assms
      by (intro exI [of _ "desc_head tx"] exI [of _ "tx_stats tx"]) (simp add: gve_tx_has_desc_room_dqo_def)
  next
    case False
    then show ?thesis using assms
      by (intro exI [of _ "hw_tx_head tx"] exI [of _ "tx_stats tx1"])
        (auto simp: gve_tx_has_desc_room_dqo_def Let_def count_tx_def split: if_splits)
  qed
  then show ?thesis using that by blast
qed

lemma have_enough_bufs:
  assumes "gve_tx_have_enough_qpl_bufs n tx = (enough, tx1)" and "qbuf_inv tx B cs ps"
  obtains c where "tx1 = tx\<lparr>qpl_bufs_produced_cached := c\<rparr>" "qbuf_inv tx1 B cs ps"
    "enough \<longrightarrow> n \<le> unat (qpl_bufs_produced_cached tx1 - qpl_bufs_consumed tx1)"
proof -
  have "\<exists>c. tx1 = tx\<lparr>qpl_bufs_produced_cached := c\<rparr> \<and> qbuf_inv tx1 B cs ps \<and> (enough \<longrightarrow> n \<le> unat (qpl_bufs_produced_cached tx1 - qpl_bufs_consumed tx1))"
  proof (cases "n \<le> unat (qpl_bufs_produced_cached tx - qpl_bufs_consumed tx)")
    case True
    then show ?thesis using assms
      by (intro exI [of _ "qpl_bufs_produced_cached tx"]) (auto simp: gve_tx_have_enough_qpl_bufs_def qbuf_inv_def)
  next
    case False
    then have tx1: "tx1 = tx\<lparr>qpl_bufs_produced_cached := qpl_bufs_produced tx\<rparr>"
      and e: "enough = (n \<le> unat (qpl_bufs_produced tx - qpl_bufs_consumed tx))"
      using assms(1) by (auto simp: gve_tx_have_enough_qpl_bufs_def Let_def)
    have "qbuf_inv tx1 B cs ps" using assms(2) unfolding tx1 qbuf_inv_def qplb.lists_def pages_ok_def owns_def buf_counts_def pkt_bufs_def by auto
    then show ?thesis using tx1 e by auto
  qed
  then show ?thesis using that by blast
qed

text \<open>Taking a pending packet: it was free, and is the only one that changes.\<close>

definition taken_pkt :: "int \<Rightarrow> gve_tx_pending_pkt_dqo \<Rightarrow> gve_tx_pending_pkt_dqo" where
  "taken_pkt now p = p\<lparr>pp_state := GVE_PACKET_STATE_PENDING_DATA_COMPL, pp_time := now\<rparr>"

lemma alloc_pending:
  assumes "gve_alloc_pending_packet now tx = (r, tx1)" and "pend_inv q tx cs ps"
  shows "case r of
      None \<Rightarrow> cs @ ps = [] \<and> pend_inv q tx1 [] [] \<and> (\<exists>c p. tx1 = tx\<lparr>free_pending_pkts_csm := c, free_pending_pkts_prd := p\<rparr>)
    | Some i \<Rightarrow> i < length (pending_pkts tx) \<and> pp_state (pending_pkts tx ! i) = GVE_PACKET_STATE_FREE \<and>
        (\<exists>c p cs' ps'. tx1 = tx\<lparr>free_pending_pkts_csm := c, free_pending_pkts_prd := p,
           pending_pkts := (pending_pkts tx)[i := taken_pkt now (pending_pkts tx ! i)]\<rparr> \<and>
           pend.lists tx1 cs' ps' \<and> cs @ ps = i # cs' @ ps')"
proof -
  have l: "pend.lists tx cs ps" using assms(2) by (simp add: pend_inv_def)
  have sh: "\<exists>c p. tx1 = (case r of None \<Rightarrow> tx\<lparr>free_pending_pkts_csm := c, free_pending_pkts_prd := p\<rparr>
     | Some i \<Rightarrow> tx\<lparr>free_pending_pkts_csm := c, free_pending_pkts_prd := p, pending_pkts := (pending_pkts tx)[i := taken_pkt now (pending_pkts tx ! i)]\<rparr>)"
    using assms(1)
    by (intro exI [of _ "free_pending_pkts_csm tx1"] exI [of _ "free_pending_pkts_prd tx1"])
      (auto simp: gve_alloc_pending_packet_def Let_def upd_pkt_def taken_pkt_def split: if_splits)
  show ?thesis
  proof (cases "cs @ ps = []")
    case True
    then have "r = None" "pend.lists tx1 [] []" using pend.alloc_empty [OF _ assms(1)] l by auto
    moreover obtain c p where "tx1 = tx\<lparr>free_pending_pkts_csm := c, free_pending_pkts_prd := p\<rparr>" using sh \<open>r = None\<close> by auto
    ultimately show ?thesis using assms(2) True by (auto simp: pend_inv_def)
  next
    case False
    then obtain x cs' ps' where x: "r = Some x" "pend.lists tx1 cs' ps'" "cs @ ps = x # cs' @ ps'" "x < length (pending_pkts tx)"
      using pend.alloc_some [OF l assms(1)] by blast
    then have "pp_state (pending_pkts tx ! x) = GVE_PACKET_STATE_FREE" using assms(2) by (auto simp: pend_inv_def)
    then show ?thesis using x sh by auto
  qed
qed


section \<open>Context descriptors and completion requests\<close>

lemma length_blit_take: "n \<le> length xs \<Longrightarrow> length (blit xs j (take (n - j) cs)) = length xs"
  by (simp add: blit_def)

lemma pullup_le: "PULLUP_HDR env m a b = Some c \<Longrightarrow> a \<le> m_pkthdr_len m \<Longrightarrow> c \<le> m_pkthdr_len m"
  by (auto simp: PULLUP_HDR_def split: if_splits)

lemma prep_tso_ok:
  assumes "gve_prep_tso env m = Inr (h, m')" and "te_m_len env \<le> m_pkthdr_len m"
  shows "m_pkthdr_len m' = m_pkthdr_len m \<and> m_ptr m' = m_ptr m \<and> m_csum_flags m' = m_csum_flags m"
proof -
  obtain l3 j cs where l: "l3 \<le> m_pkthdr_len m" "m' = m\<lparr>m_data := blit (m_data m) j (take (l3 - j) cs)\<rparr>"
    using assms by (auto simp: gve_prep_tso_def Let_def split: option.splits if_splits dest!: pullup_le)
  then show ?thesis by (simp add: m_pkthdr_len_def length_blit_take)
qed

lemma fill_ctx_descs:
  assumes "gve_tx_fill_ctx_descs env m tso idx tx = (e, m', idx', tx')" and "te_m_len env \<le> m_pkthdr_len m"
  shows "case e of
      Some _ \<Rightarrow> \<exists>st. tx' = tx\<lparr>tx_stats := st\<rparr>
    | None \<Rightarrow> m_pkthdr_len m' = m_pkthdr_len m \<and> m_ptr m' = m_ptr m \<and> (\<not> tso \<longrightarrow> m' = m) \<and>
        (\<exists>ds st. length ds = (if tso then 2 else 1) \<and> idx' = adv (desc_mask tx) (length ds) idx \<and>
          tx' = tx\<lparr>tx_stats := st, dqo_desc_ring := put_descs (desc_mask tx) idx ds (dqo_desc_ring tx)\<rparr>)"
proof (cases tso)
  case False
  let ?md = "gve_extract_tx_metadata_dqo m zero_metadata"
  have "e = None" "m' = m" "idx' = adv (desc_mask tx) 1 idx"
    "tx' = tx\<lparr>dqo_desc_ring := put_descs (desc_mask tx) idx [TXD_GENERAL_CTX (gve_tx_fill_general_ctx_desc ?md)] (dqo_desc_ring tx)\<rparr>"
    using assms(1) False by (auto simp: gve_tx_fill_ctx_descs_def Let_def)
  then show ?thesis using False
    by (auto intro!: exI [of _ "[TXD_GENERAL_CTX (gve_tx_fill_general_ctx_desc ?md)]"] exI [of _ "tx_stats tx"])
next
  case True
  let ?md = "gve_extract_tx_metadata_dqo m zero_metadata"
  show ?thesis
  proof (cases "gve_prep_tso env m")
    case (Inl er)
    then show ?thesis using assms(1) True by (auto simp: gve_tx_fill_ctx_descs_def Let_def count_tx_def)
  next
    case (Inr hm)
    obtain h m1 where p: "gve_prep_tso env m = Inr (h, m1)" using Inr by (cases hm) auto
    let ?ds = "[TXD_TSO_CTX (gve_tx_fill_tso_ctx_desc m1 ?md h), TXD_GENERAL_CTX (gve_tx_fill_general_ctx_desc ?md)]"
    let ?st = "(tx_stats tx)\<lparr>tso_packet_cnt := tso_packet_cnt (tx_stats tx) + 1\<rparr>"
    have r: "e = None" "m' = m1" "idx' = adv (desc_mask tx) (length ?ds) idx"
      "tx' = tx\<lparr>tx_stats := ?st, dqo_desc_ring := put_descs (desc_mask tx) idx ?ds (dqo_desc_ring tx)\<rparr>"
      using assms(1) True p by (auto simp: gve_tx_fill_ctx_descs_def Let_def count_tx_def)
    then show ?thesis using prep_tso_ok [OF p assms(2)] True
      by (auto intro!: exI [of _ ?ds] exI [of _ ?st])
  qed
qed

lemma fill_ctx_descs_ok:
  assumes "gve_tx_fill_ctx_descs env m tso idx tx = (None, m', idx', tx')" and "te_m_len env \<le> m_pkthdr_len m"
  obtains ds st where "length ds = (if tso then 2 else 1)" "idx' = adv (desc_mask tx) (length ds) idx"
    "tx' = tx\<lparr>tx_stats := st, dqo_desc_ring := put_descs (desc_mask tx) idx ds (dqo_desc_ring tx)\<rparr>"
    "m_pkthdr_len m' = m_pkthdr_len m" "m_ptr m' = m_ptr m" "\<not> tso \<longrightarrow> m' = m"
  using fill_ctx_descs [OF assms] unfolding option.case by (elim conjE exE) (rule that)

lemma mask_pred:
  assumes m: "ring_mask k msk" and x: "unat x < 2 ^ k"
  shows "(((x + 1) AND msk) - 1) AND msk = x"
proof -
  let ?y = "(x + 1) AND msk"
  have y: "unat ?y = (unat x + 1) mod 2 ^ k" by (rule adv_one [OF m])
  have "unat ((?y - 1) AND msk) = unat x"
  proof (cases "unat x + 1 = 2 ^ k")
    case True
    then have "?y = 0" using y by (simp add: unat_eq_0)
    then have "(?y - 1) AND msk = msk" by simp
    then show ?thesis using ring_mask_lt [OF m] True by simp
  next
    case False
    then have u: "unat ?y = unat x + 1" using y x by simp
    then have "unat (?y - 1) = unat x" by (metis add_diff_cancel_right' add_gr_0 unat_gt_0 unat_minus_one zero_less_one)
    then show ?thesis using x by (simp add: unat_and_mask [OF m])
  qed
  then show ?thesis by (simp only: word_unat_eq_iff)
qed

lemma request_compl:
  assumes r: "ring_mask k (desc_mask tx)" "unat idx < 2 ^ k" "length ring = 2 ^ k" and ds: "ds \<noteq> []"
    and tx: "dqo_desc_ring tx = put_descs (desc_mask tx) idx ds ring"
  obtains r ds' where "gve_tx_request_desc_compl (adv (desc_mask tx) (length ds) idx) tx =
      tx\<lparr>dqo_desc_ring := put_descs (desc_mask tx) idx ds' ring, last_re_idx := r\<rparr>"
    "ds' = ds \<or> ds' = butlast ds @ [set_report_event (last ds)]"
proof -
  let ?n = "length (butlast ds)" let ?i = "adv (desc_mask tx) ?n idx"
  have n: "length ds = ?n + 1" using ds by simp
  have "adv (desc_mask tx) (length ds) idx = (?i + 1) AND desc_mask tx"
    unfolding n adv_add [symmetric] by simp
  moreover have ib: "unat ?i < 2 ^ k" using unat_adv [OF r(1,2)] by simp
  ultimately have sl: "(adv (desc_mask tx) (length ds) idx - 1) AND desc_mask tx = ?i" using mask_pred [OF r(1)] by simp
  let ?R = "put_descs (desc_mask tx) idx (butlast ds) ring"
  have p: "put_descs (desc_mask tx) idx (butlast ds @ [d]) ring = ?R[unat ?i := d]" for d
    by (simp add: put_descs_append)
  then have "dqo_desc_ring tx = ?R[unat ?i := last ds]" using tx ds by (metis append_butlast_last_id)
  then have up: "(dqo_desc_ring tx)[unat ?i := set_report_event (dqo_desc_ring tx ! unat ?i)] =
      put_descs (desc_mask tx) idx (butlast ds @ [set_report_event (last ds)]) ring"
    using ib r(3) p by simp
  show ?thesis
  proof (cases "(?i - last_re_idx tx) AND desc_mask tx \<ge> GVE_TX_MIN_RE_INTERVAL")
    case True
    then show ?thesis using up sl by (intro that [of ?i "butlast ds @ [set_report_event (last ds)]"])
        (simp_all add: gve_tx_request_desc_compl_def Let_def)
  next
    case False
    then show ?thesis using sl tx by (intro that [of "last_re_idx tx" ds]) (simp_all add: gve_tx_request_desc_compl_def Let_def)
  qed
qed


section \<open>A packet in bounce buffers\<close>

lemma copy_mbuf_ok:
  assumes l: "qplb.lists tx cs ps" and n: "howmany (m_pkthdr_len m) 2048 \<le> length (cs @ ps)" and pg: "pages_ok tx"
    and m: "0 < m_pkthdr_len m" and i: "i < length (pending_pkts tx)"
    and pk: "num_qpl_bufs (pending_pkts tx ! i) = 0" "qpl_buf_head (pending_pkts tx ! i) = -1"
  obtains xs pgs qb c p cs' ps' tx' where
    "tx' = copied i ((pending_pkts tx ! i)\<lparr>qpl_buf_head := int (hd xs), num_qpl_bufs := of_nat (length xs)\<rparr>)
       (put_descs (desc_mask tx) idx (qdescs (qpl_dmas tx) m ctag csum 0 xs) (dqo_desc_ring tx)) pgs qb c p (length xs) tx"
    "gve_tx_copy_mbuf_and_write_pkt_descs m i csum ctag idx tx = Some (adv (desc_mask tx) (length xs) idx, tx')"
    "length xs = howmany (m_pkthdr_len m) 2048" "xs \<noteq> []" "cs @ ps = xs @ cs' @ ps'" "qplb.lists tx' cs' ps'"
    "chain (\<lambda>b. qb ! b) (int (hd xs)) xs" "length qb = length (qpl_bufs tx)" "\<forall>b. b \<notin> set xs \<longrightarrow> qb ! b = qpl_bufs tx ! b"
    "pages_ok tx'" "qbytes pgs m 0 xs = m_data m"
    "\<forall>b < length (qpl_bufs tx). b \<notin> set xs \<longrightarrow> (\<forall>n \<le> 2048. buf_bytes pgs b n = buf_bytes (qpl_pages tx) b n)"
proof -
  define xs where "xs = take (howmany (m_pkthdr_len m) 2048) (cs @ ps)"
  define ys where "ys = drop (howmany (m_pkthdr_len m) 2048) (cs @ ps)"
  have xy: "cs @ ps = xs @ ys" "length xs = howmany (m_pkthdr_len m - 0) 2048"
    using n by (simp_all add: xs_def ys_def del: take_append drop_append)
  have ne: "xs \<noteq> []" using xy(2) howmany_step [OF m] by auto
  have dis: "distinct ([] @ cs @ ps)" and bd: "\<forall>b \<in> set xs. b < length (qpl_bufs tx)"
    using l xy(1) by (auto simp: qplb.lists_def)
  have dxy: "distinct (xs @ ys)" using dis xy(1) by simp
  obtain pgs qb c p cs' ps' tx0 where I:
    "tx0 = copied i (grown ([] @ xs) (length xs) (pending_pkts tx ! i))
      (put_descs (desc_mask tx) idx (qdescs (qpl_dmas tx) m ctag csum 0 xs) (dqo_desc_ring tx)) pgs qb c p (length xs) tx"
    "gve_tx_copy_loop m i csum ctag 0 (-1) idx tx = Some (if [] @ xs = [] then -1 else int (last ([] @ xs)), adv (desc_mask tx) (length xs) idx, tx0)"
    "cs' @ ps' = ys" "qplb.lists tx0 cs' ps'" "linked (\<lambda>b. qb ! b) ([] @ xs)" "pages_ok tx0" "length qb = length (qpl_bufs tx)"
    "\<forall>b. b \<notin> set ([] @ xs) \<longrightarrow> qb ! b = qpl_bufs tx ! b" "qbytes pgs m 0 xs = drop 0 (m_data m)"
    "\<forall>b < length (qpl_bufs tx). b \<notin> set xs \<longrightarrow> (\<forall>n \<le> 2048. buf_bytes pgs b n = buf_bytes (qpl_pages tx) b n)"
    using copy_loop_ok [OF l xy pg _ dis, of "-1" i idx ctag csum] i by auto
  let ?qb = "qb[last xs := -1]"
  let ?tx' = "copied i ((pending_pkts tx ! i)\<lparr>qpl_buf_head := int (hd xs), num_qpl_bufs := of_nat (length xs)\<rparr>)
       (put_descs (desc_mask tx) idx (qdescs (qpl_dmas tx) m ctag csum 0 xs) (dqo_desc_ring tx)) pgs ?qb c p (length xs) tx"
  have tx0: "tx0\<lparr>qpl_bufs := ?qb\<rparr> = ?tx'" using I(1) pk ne by (simp add: copied_def grown_def)
  have nth: "?qb ! b = (if b = last xs then -1 else qb ! b)" if "b < length qb" for b using that by simp
  have lq: "last xs < length qb" using bd ne I(7) by simp
  have outside: "?qb ! b = qb ! b" if "b \<notin> set xs" for b using that ne by (metis last_in_set nth_list_update_neq)
  have ch: "chain (\<lambda>b. ?qb ! b) (int (hd xs)) xs"
  proof -
    have "chain ((\<lambda>b. qb ! b)(last xs := -1)) (int (hd xs)) (xs @ [])"
      using I(5) ne dxy by (intro chain_splice) auto
    moreover have "chain (\<lambda>b. ?qb ! b) (int (hd xs)) xs = chain ((\<lambda>b. qb ! b)(last xs := -1)) (int (hd xs)) xs"
      using nth bd I(7) by (intro chain_cong) auto
    ultimately show ?thesis by simp
  qed
  have "qplb.lists ?tx' cs' ps'"
  proof -
    have "chain (\<lambda>b. ?qb ! b) h zs = chain (\<lambda>b. qb ! b) h zs" if "set zs \<subseteq> set ys" for h zs
      using that dxy by (intro chain_cong outside) auto
    moreover have "set cs' \<subseteq> set ys" "set ps' \<subseteq> set ys" using I(3) by auto
    ultimately show ?thesis using I(4) unfolding I(1) qplb.lists_def by simp
  qed
  moreover have "gve_tx_copy_mbuf_and_write_pkt_descs m i csum ctag idx tx = Some (adv (desc_mask tx) (length xs) idx, ?tx')"
    using I(2) pk ne tx0 I(1) by (simp add: gve_tx_copy_mbuf_and_write_pkt_descs_def)
  moreover have "pages_ok ?tx'" using I(6) unfolding I(1) pages_ok_def by simp
  ultimately show ?thesis
    using ne xy I(3,7,8,9,10) ch outside by (intro that [of ?tx' xs pgs ?qb c p cs' ps']) auto
qed

lemma unat_sub_of_nat: "n \<le> unat (d :: u32) \<Longrightarrow> unat (d - of_nat n) = unat d - n"
proof -
  assume n: "n \<le> unat d"
  then have "n < 2 ^ 32" using unsigned_less [of d, where 'a = nat] by simp
  then have "unat (of_nat n :: u32) = n" by (simp add: unat_of_nat take_bit_eq_mod)
  then show ?thesis using n by (simp add: unat_sub_if')
qed

text \<open>A free packet has taken the buffers \<open>xs\<close> from the front of the free lists.\<close>

lemma qbuf_inv_take:
  assumes inv: "qbuf_inv tx B cs ps" and i: "i < length (pending_pkts tx)" "pp_state (pending_pkts tx ! i) = GVE_PACKET_STATE_FREE"
    and pk: "pending_pkts tx' = (pending_pkts tx)[i := pkt']" "qpl_buf_head pkt' = int (hd xs)" "num_qpl_bufs pkt' = of_nat (length xs)"
      "pp_state pkt' \<noteq> GVE_PACKET_STATE_FREE"
    and xs: "xs \<noteq> []" "cs @ ps = xs @ cs' @ ps'" "length xs \<le> unat (qpl_bufs_produced_cached tx - qpl_bufs_consumed tx)"
    and q: "qplb.lists tx' cs' ps'" "chain (qnext tx') (int (hd xs)) xs" "length (qpl_bufs tx') = length (qpl_bufs tx)"
      "\<forall>b. b \<notin> set xs \<longrightarrow> qpl_bufs tx' ! b = qpl_bufs tx ! b" "pages_ok tx'"
    and cn: "qpl_bufs_produced tx' = qpl_bufs_produced tx" "qpl_bufs_consumed tx' = qpl_bufs_consumed tx + of_nat (length xs)"
      "qpl_bufs_produced_cached tx' = qpl_bufs_produced_cached tx"
  shows "qbuf_inv tx' (B(i := xs)) cs' ps'"
proof -
  let ?n = "length (pending_pkts tx)" let ?B = "B(i := xs)"
  have I: "qplb.lists tx cs ps" "length (qpl_bufs tx) < 2 ^ 31" "\<And>j. j < ?n \<Longrightarrow> owns tx B (set (cs @ ps)) j"
    "buf_partition ?n (length (qpl_bufs tx)) B (set (cs @ ps))" "buf_counts tx (length (cs @ ps))"
    using inv unfolding qbuf_inv_def by blast+
  have Bi: "B i = []" using I(3) [OF i(1)] i(2) by (simp add: owns_def)
  have d: "distinct (xs @ cs' @ ps')" using I(1) unfolding qplb.lists_def xs(2) by simp
  have xl: "length xs < 2 ^ 32"
    using xs(3) unsigned_less [of "qpl_bufs_produced_cached tx - qpl_bufs_consumed tx", where 'a = nat] by simp
  have P: "owns tx' ?B (set (cs' @ ps')) j" if j: "j < ?n" for j
  proof (cases "j = i")
    case True
    then show ?thesis using i(1) pk xs(1) q(2) d xl by (auto simp: owns_def pkt_bufs_def unat_of_nat take_bit_eq_mod)
  next
    case False
    have o: "pkt_bufs j tx (B j)" "distinct (B j)" "set (B j) \<inter> set (xs @ cs' @ ps') = {}"
      "B j = [] \<longleftrightarrow> pp_state (pending_pkts tx ! j) = GVE_PACKET_STATE_FREE"
      using I(3) [OF j] unfolding owns_def xs(2) by blast+
    have "chain (qnext tx') h (B j) = chain (qnext tx) h (B j)" for h
      using q(4) o(3) by (intro chain_cong) auto
    then show ?thesis using o False pk(1) by (auto simp: owns_def pkt_bufs_def)
  qed
  have X: "set xs \<inter> set (B j) = {}" if "j < ?n" for j using I(3) [OF that] unfolding owns_def xs(2) by auto
  have "(\<Union>j < ?n. set (?B j)) = set xs \<union> (\<Union>j < ?n. set (B j))"
    using i(1) Bi by (auto split: if_splits) (metis empty_iff empty_set lessThan_iff)
  then have U: "buf_partition ?n (length (qpl_bufs tx)) ?B (set (cs' @ ps'))"
    using I(4) X unfolding buf_partition_def xs(2) by (auto simp: Un_ac)
  have s: "a - (b + of_nat n) = (a - b) - of_nat n" for a b :: u32 and n by simp
  have C: "buf_counts tx' (length (cs' @ ps'))"
    using I(5) xs(3) unfolding buf_counts_def cn s xs(2) by (auto simp: unat_sub_of_nat)
  show ?thesis
    using q(1,3,5) I(2) P U C pk(1) unfolding qbuf_inv_def by simp
qed


section \<open>A pending packet in hand\<close>

text \<open>Packet \<open>i\<close> is on neither free list; nothing is said of its contents.\<close>

definition pend_part :: "bool \<Rightarrow> gve_tx_ring_dqo \<Rightarrow> nat list \<Rightarrow> nat list \<Rightarrow> nat \<Rightarrow> bool" where
  "pend_part is_qpl tx cs ps i \<longleftrightarrow> unat (num_pending_pkts tx) = length (pending_pkts tx) \<and> pend.lists tx cs ps \<and>
     i < length (pending_pkts tx) \<and> i \<notin> set (cs @ ps) \<and>
     (\<forall>j < length (pending_pkts tx). j \<noteq> i \<longrightarrow> pend_ok is_qpl (pending_pkts tx ! j) \<and>
        (j \<in> set (cs @ ps) \<longleftrightarrow> pp_state (pending_pkts tx ! j) = GVE_PACKET_STATE_FREE))"

lemma pend_lists_cong:
  assumes "pend.lists tx cs ps" "i \<notin> set (cs @ ps)" "pending_pkts tx' = (pending_pkts tx)[i := p]"
    "free_pending_pkts_csm tx' = free_pending_pkts_csm tx" "free_pending_pkts_prd tx' = free_pending_pkts_prd tx"
  shows "pend.lists tx' cs ps"
proof -
  have c: "chain (pnext tx') h zs = chain (pnext tx) h zs" if "i \<notin> set zs" for h zs
    using that assms(3) by (intro chain_cong) (metis nth_list_update_neq)
  show ?thesis using assms c [of cs] c [of ps] by (simp add: pend.lists_def)
qed

lemma pend_part_cong:
  assumes "pend_part q tx cs ps i" "pending_pkts tx' = (pending_pkts tx)[i := p]" "num_pending_pkts tx' = num_pending_pkts tx"
    "free_pending_pkts_csm tx' = free_pending_pkts_csm tx" "free_pending_pkts_prd tx' = free_pending_pkts_prd tx"
  shows "pend_part q tx' cs ps i"
  using assms pend_lists_cong [of tx cs ps i tx' p] by (simp add: pend_part_def)

lemma pend_part_alloc:
  assumes "gve_alloc_pending_packet now tx = (Some i, tx1)" and "pend_inv q tx cs ps"
  obtains cs' ps' c p where "pend_part q tx1 cs' ps' i" "pp_state (pending_pkts tx ! i) = GVE_PACKET_STATE_FREE" "i < length (pending_pkts tx)"
    "tx1 = tx\<lparr>free_pending_pkts_csm := c, free_pending_pkts_prd := p,
       pending_pkts := (pending_pkts tx)[i := taken_pkt now (pending_pkts tx ! i)]\<rparr>"
proof -
  obtain c p cs' ps' where a: "i < length (pending_pkts tx)" "pp_state (pending_pkts tx ! i) = GVE_PACKET_STATE_FREE"
    "tx1 = tx\<lparr>free_pending_pkts_csm := c, free_pending_pkts_prd := p,
       pending_pkts := (pending_pkts tx)[i := taken_pkt now (pending_pkts tx ! i)]\<rparr>"
    "pend.lists tx1 cs' ps'" "cs @ ps = i # cs' @ ps'" using alloc_pending [OF assms] by auto
  have d: "distinct (i # cs' @ ps')" using assms(2) unfolding pend_inv_def pend.lists_def a(5) by blast
  have o: "pend_ok q (pending_pkts tx ! j) \<and> (j \<in> set (i # cs' @ ps') \<longleftrightarrow> pp_state (pending_pkts tx ! j) = GVE_PACKET_STATE_FREE)"
    if "j < length (pending_pkts tx)" for j using assms(2) that unfolding pend_inv_def a(5) by blast
  have "pend_part q tx1 cs' ps' i"
    using assms(2) a(1,4) d o unfolding pend_part_def pend_inv_def by (auto simp: a(3))
  then show ?thesis using that a by blast
qed

lemma pend_part_busy:
  assumes "pend_inv q tx cs ps" "i < length (pending_pkts tx)" "pp_state (pending_pkts tx ! i) \<noteq> GVE_PACKET_STATE_FREE"
  shows "pend_part q tx cs ps i"
  using assms by (simp add: pend_part_def pend_inv_def)

lemma pend_part_close:
  assumes "pend_part q tx cs ps i" "pend_ok q (pending_pkts tx ! i)" "pp_state (pending_pkts tx ! i) \<noteq> GVE_PACKET_STATE_FREE"
  shows "pend_inv q tx cs ps"
proof -
  have "pend_ok q (pending_pkts tx ! j) \<and> (j \<in> set (cs @ ps) \<longleftrightarrow> pp_state (pending_pkts tx ! j) = GVE_PACKET_STATE_FREE)"
    if "j < length (pending_pkts tx)" for j using assms that by (cases "j = i") (auto simp: pend_part_def)
  then show ?thesis using assms(1) by (simp add: pend_part_def pend_inv_def)
qed

lemma pend_part_free:
  assumes "pend_part q tx cs ps i" "pp_mbuf (pending_pkts tx ! i) = None"
    "if q then qpl_buf_head (pending_pkts tx ! i) = -1 \<and> num_qpl_bufs (pending_pkts tx ! i) = 0 else \<not> dma_loaded (pending_pkts tx ! i)"
  shows "pend_inv q (gve_free_pending_packet i tx) cs (i # ps)"
proof -
  let ?tx = "gve_free_pending_packet i tx"
  have A: "unat (num_pending_pkts tx) = length (pending_pkts tx)" "pend.lists tx cs ps" "i < length (pending_pkts tx)" "i \<notin> set (cs @ ps)"
    using assms(1) unfolding pend_part_def by blast+
  have "pend.lists ?tx cs ([i] @ ps)"
    using pend.free_some [OF A(2), of "[i]" i] A by simp
  moreover have "pend_ok q (pending_pkts ?tx ! j) \<and> (j \<in> set (cs @ i # ps) \<longleftrightarrow> pp_state (pending_pkts ?tx ! j) = GVE_PACKET_STATE_FREE)"
    if "j < length (pending_pkts tx)" for j
    using assms that by (cases "j = i") (auto simp: pend_part_def gve_free_pending_packet_def Let_def pend_ok_def)
  ultimately show ?thesis using A(1) by (simp add: pend_inv_def gve_free_pending_packet_def Let_def)
qed


section \<open>Transmission through bounce buffers\<close>

lemma ring_ok_cong: "desc_mask tx' = desc_mask tx \<Longrightarrow> length (dqo_desc_ring tx') = length (dqo_desc_ring tx) \<Longrightarrow>
    desc_tail tx' = desc_tail tx \<Longrightarrow> ring_ok k tx' = ring_ok k tx"
  by (simp add: ring_ok_def)

text \<open>The completion side of the ring, which transmission leaves alone.\<close>

definition compl_view :: "gve_tx_ring_dqo \<Rightarrow> gve_tx_compl_desc_dqo list \<times> u32 \<times> u32 \<times> bool" where
  "compl_view tx = (compl_ring tx, compl_mask tx, compl_head tx, cur_gen_bit tx)"

text \<open>What stays as it was when a packet is refused.\<close>

definition tx_kept :: "gve_tx_ring_dqo \<Rightarrow> gve_tx_ring_dqo \<Rightarrow> bool" where
  "tx_kept tx tx' \<longleftrightarrow> desc_tail tx' = desc_tail tx \<and> desc_mask tx' = desc_mask tx \<and> dqo_desc_ring tx' = dqo_desc_ring tx \<and>
     tx_req tx' = tx_req tx \<and> map pp_mbuf (pending_pkts tx') = map pp_mbuf (pending_pkts tx) \<and>
     map pp_state (pending_pkts tx') = map pp_state (pending_pkts tx) \<and> qpl_pages tx' = qpl_pages tx \<and>
     compl_view tx' = compl_view tx"

lemma xmit_abort:
  assumes P: "pend_part q tx cs ps i" and tx': "tx' = gve_free_pending_packet i tx"
    and pk: "pending_pkts tx = (pending_pkts tx0)[i := (pending_pkts tx0 ! i)\<lparr>pp_state := s, pp_time := now, pp_mbuf := None\<rparr>]"
    and i: "i < length (pending_pkts tx0)" "pend_ok q (pending_pkts tx0 ! i)" "pp_state (pending_pkts tx0 ! i) = GVE_PACKET_STATE_FREE"
  shows "pend_inv q tx' cs (i # ps)" "map pp_mbuf (pending_pkts tx') = map pp_mbuf (pending_pkts tx0)"
    "map pp_state (pending_pkts tx') = map pp_state (pending_pkts tx0)"
    "map (\<lambda>p. (qpl_buf_head p, num_qpl_bufs p, pp_state p = GVE_PACKET_STATE_FREE)) (pending_pkts tx') =
      map (\<lambda>p. (qpl_buf_head p, num_qpl_bufs p, pp_state p = GVE_PACKET_STATE_FREE)) (pending_pkts tx0)"
proof -
  have m: "pp_mbuf (pending_pkts tx0 ! i) = None" using i by (auto simp: pend_ok_def)
  show "pend_inv q tx' cs (i # ps)" unfolding tx'
    by (rule pend_part_free [OF P]) (use i pk in \<open>auto simp: pend_ok_def\<close>)
  have e: "pending_pkts tx' = (pending_pkts tx0)[i := (pending_pkts tx0 ! i)\<lparr>pp_mbuf := None,
      pp_state := GVE_PACKET_STATE_FREE, pp_time := GVE_TIMESTAMP_INVALID, pp_next := free_pending_pkts_prd tx\<rparr>]"
    using i(1) pk by (simp add: tx' gve_free_pending_packet_def Let_def)
  show "map pp_mbuf (pending_pkts tx') = map pp_mbuf (pending_pkts tx0)"
    using i(1) m unfolding e by (intro nth_equalityI) (auto simp: nth_list_update)
  show "map pp_state (pending_pkts tx') = map pp_state (pending_pkts tx0)"
    using i unfolding e by (intro nth_equalityI) (auto simp: nth_list_update)
  show "map (\<lambda>p. (qpl_buf_head p, num_qpl_bufs p, pp_state p = GVE_PACKET_STATE_FREE)) (pending_pkts tx') =
      map (\<lambda>p. (qpl_buf_head p, num_qpl_bufs p, pp_state p = GVE_PACKET_STATE_FREE)) (pending_pkts tx0)"
    using i unfolding e by (intro nth_equalityI) (auto simp: nth_list_update)
qed


definition mark_last :: "bool \<Rightarrow> gve_tx_desc_dqo list \<Rightarrow> gve_tx_desc_dqo list" where
  "mark_last re ds = (if re then butlast ds @ [set_report_event (last ds)] else ds)"

text \<open>
  Packet \<open>m\<close> sits in slot \<open>i\<close>, its bytes in the buffers \<open>xs\<close>, its descriptors in the next slots of
  the ring; the packets in flight keep their mbufs, buffers and bytes.
\<close>

definition sent_qpl :: "mbuf \<Rightarrow> nat \<Rightarrow> nat list \<Rightarrow> gve_tx_desc_dqo list \<Rightarrow> bool \<Rightarrow> gve_tx_ring_dqo \<Rightarrow> gve_tx_ring_dqo \<Rightarrow> bool" where
  "sent_qpl m i xs ds csum tx tx' \<longleftrightarrow>
     i < length (pending_pkts tx) \<and> pp_state (pending_pkts tx ! i) = GVE_PACKET_STATE_FREE \<and>
     (\<exists>re. let all = ds @ mark_last re (qdescs (qpl_dmas tx) m (of_nat i) csum 0 xs)
       in length all \<le> unat (num_avail_desc_ring_slots tx) \<and>
          dqo_desc_ring tx' = put_descs (desc_mask tx) (desc_tail tx) all (dqo_desc_ring tx) \<and>
          desc_tail tx' = adv (desc_mask tx) (length all) (desc_tail tx)) \<and>
     pp_mbuf (pending_pkts tx' ! i) = Some m \<and> pkt_bufs i tx' xs \<and> qbytes (qpl_pages tx') m 0 xs = m_data m \<and>
     length (pending_pkts tx') = length (pending_pkts tx) \<and> compl_view tx' = compl_view tx \<and>
     (\<forall>j < length (pending_pkts tx). j \<noteq> i \<longrightarrow> pending_pkts tx' ! j = pending_pkts tx ! j \<and>
        (\<forall>ys. pkt_bufs j tx ys \<longrightarrow> pp_state (pending_pkts tx ! j) \<noteq> GVE_PACKET_STATE_FREE \<longrightarrow> pkt_bufs j tx' ys \<and>
           (\<forall>b \<in> set ys. \<forall>n \<le> 2048. buf_bytes (qpl_pages tx') b n = buf_bytes (qpl_pages tx) b n)))"

lemma qbuf_inv_owns: "qbuf_inv tx B cs ps \<Longrightarrow> i < length (pending_pkts tx) \<Longrightarrow> owns tx B (set (cs @ ps)) i"
  by (simp add: qbuf_inv_def)

lemma pkt_bufs_unique: "pkt_bufs i tx xs \<Longrightarrow> pkt_bufs i tx ys \<Longrightarrow> xs = ys"
  unfolding pkt_bufs_def using chain_unique by blast

text \<open>
  The last part of \<open>gve_xmit_dqo_qpl\<close>, on a packet \<open>i\<close> just taken from the free list: \<open>t4\<close> is the
  ring after the context descriptors \<open>ds\<close>.
\<close>

lemma send_qpl:
  assumes r: "ring_ok k tx" and Q: "qbuf_inv tx B cs ps" and P: "pend_part True t4 pcs pps i"
    and i: "i < length (pending_pkts tx)" "pp_state (pending_pkts tx ! i) = GVE_PACKET_STATE_FREE" "pend_ok True (pending_pkts tx ! i)"
    and t4: "t4 = tx\<lparr>tx_stats := st, free_pending_pkts_csm := c0, free_pending_pkts_prd := p0,
        dqo_desc_ring := put_descs (desc_mask tx) (desc_tail tx) ds (dqo_desc_ring tx),
        pending_pkts := (pending_pkts tx)[i := (taken_pkt now (pending_pkts tx ! i))\<lparr>pp_mbuf := Some m\<rparr>]\<rparr>"
    and m: "0 < m_pkthdr_len m" "howmany (m_pkthdr_len m) 2048 \<le> unat (qpl_bufs_produced_cached tx - qpl_bufs_consumed tx)"
    and av: "length ds + howmany (m_pkthdr_len m) 2048 \<le> unat (num_avail_desc_ring_slots tx)"
  shows "\<exists>idx t5. gve_tx_copy_mbuf_and_write_pkt_descs m i csum (of_nat i) (adv (desc_mask tx) (length ds) (desc_tail tx)) t4 = Some (idx, t5) \<and>
    (let t6 = gve_tx_request_desc_compl idx (t5\<lparr>desc_tail := idx\<rparr>); t7 = t6\<lparr>tx_req := tx_req t6 + n\<rparr>
     in dqo_inv k True t7 \<and> (\<exists>xs. length xs = howmany (m_pkthdr_len m) 2048 \<and> sent_qpl m i xs ds csum tx t7))"
proof -
  have Qs: "qplb.lists tx cs ps" "pages_ok tx" "buf_counts tx (length (cs @ ps))"
    "\<And>j. j < length (pending_pkts tx) \<Longrightarrow> owns tx B (set (cs @ ps)) j"
    using Q unfolding qbuf_inv_def by blast+
  have Q4: "qplb.lists t4 cs ps" "pages_ok t4" using Qs(1,2) by (simp_all add: t4 qplb.lists_def pages_ok_def)
  have n: "howmany (m_pkthdr_len m) 2048 \<le> length (cs @ ps)" using m(2) Qs(3) unfolding buf_counts_def by linarith
  have i4: "i < length (pending_pkts t4)" "num_qpl_bufs (pending_pkts t4 ! i) = 0" "qpl_buf_head (pending_pkts t4 ! i) = -1"
    using i by (auto simp: t4 taken_pkt_def pend_ok_def)
  let ?idx = "adv (desc_mask tx) (length ds) (desc_tail tx)"
  obtain xs pgs qb c p cs' ps' t5 where I:
    "t5 = copied i ((pending_pkts t4 ! i)\<lparr>qpl_buf_head := int (hd xs), num_qpl_bufs := of_nat (length xs)\<rparr>)
       (put_descs (desc_mask t4) ?idx (qdescs (qpl_dmas t4) m (of_nat i) csum 0 xs) (dqo_desc_ring t4)) pgs qb c p (length xs) t4"
    "gve_tx_copy_mbuf_and_write_pkt_descs m i csum (of_nat i) ?idx t4 = Some (adv (desc_mask t4) (length xs) ?idx, t5)"
    "length xs = howmany (m_pkthdr_len m) 2048" "xs \<noteq> []" "cs @ ps = xs @ cs' @ ps'" "qplb.lists t5 cs' ps'"
    "chain (\<lambda>b. qb ! b) (int (hd xs)) xs" "length qb = length (qpl_bufs t4)" "\<forall>b. b \<notin> set xs \<longrightarrow> qb ! b = qpl_bufs t4 ! b"
    "pages_ok t5" "qbytes pgs m 0 xs = m_data m"
    "\<forall>b < length (qpl_bufs t4). b \<notin> set xs \<longrightarrow> (\<forall>n \<le> 2048. buf_bytes pgs b n = buf_bytes (qpl_pages t4) b n)"
    by (rule copy_mbuf_ok [OF Q4(1) n Q4(2) m(1) i4, where idx = ?idx and ctag = "of_nat i" and csum = csum])
  let ?q = "qdescs (qpl_dmas tx) m (of_nat i) csum 0 xs" let ?all = "ds @ ?q" let ?i' = "adv (desc_mask tx) (length ?all) (desc_tail tx)"
  have qn: "?q \<noteq> []" using I(4) length_qdescs [of "qpl_dmas tx" m "of_nat i" csum 0 xs] by (metis length_0_conv)
  have idx': "adv (desc_mask t4) (length xs) ?idx = ?i'" by (simp add: t4 adv_add)
  have ring5: "dqo_desc_ring t5 = put_descs (desc_mask tx) (desc_tail tx) ?all (dqo_desc_ring tx)"
    by (simp add: I(1) copied_def t4 put_descs_append)
  have rk: "ring_mask k (desc_mask tx)" "unat (desc_tail tx) < 2 ^ k" "length (dqo_desc_ring tx) = 2 ^ k" using r by (auto simp: ring_ok_def)
  let ?t5 = "t5\<lparr>desc_tail := ?i'\<rparr>"
  have m5: "desc_mask ?t5 = desc_mask tx" by (simp add: I(1) copied_def t4)
  have pr: "ring_mask k (desc_mask ?t5)" "?all \<noteq> []"
    "dqo_desc_ring ?t5 = put_descs (desc_mask ?t5) (desc_tail tx) ?all (dqo_desc_ring tx)"
    unfolding m5 using rk(1) qn ring5 by simp_all
  obtain r' ds' where rc: "gve_tx_request_desc_compl ?i' ?t5 = ?t5\<lparr>dqo_desc_ring := put_descs (desc_mask tx) (desc_tail tx) ds' (dqo_desc_ring tx), last_re_idx := r'\<rparr>"
    and ds': "ds' = ?all \<or> ds' = butlast ?all @ [set_report_event (last ?all)]"
    by (rule request_compl [OF pr(1) rk(2,3) pr(2,3), unfolded m5])
  obtain re where re: "ds' = ds @ mark_last re ?q"
    using ds' qn by (cases "ds' = ?all") (auto simp: mark_last_def butlast_append intro: that [of True] that [of False])
  have lm: "length (mark_last re ?q) = length xs" using I(4) qn by (auto simp: mark_last_def)
  define t7 where "t7 = (let t6 = gve_tx_request_desc_compl ?i' ?t5 in t6\<lparr>tx_req := tx_req t6 + n\<rparr>)"
  have s7: "pending_pkts t7 = (pending_pkts tx)[i := ((taken_pkt now (pending_pkts tx ! i))\<lparr>pp_mbuf := Some m,
       qpl_buf_head := int (hd xs), num_qpl_bufs := of_nat (length xs)\<rparr>)]" "num_pending_pkts t7 = num_pending_pkts tx"
    "free_pending_pkts_csm t7 = c0" "free_pending_pkts_prd t7 = p0" "qpl_bufs t7 = qb" "qpl_pages t7 = pgs"
    "free_qpl_bufs_csm t7 = c" "free_qpl_bufs_prd t7 = p" "qpl_dmas t7 = qpl_dmas tx"
    "qpl_bufs_produced t7 = qpl_bufs_produced tx" "qpl_bufs_produced_cached t7 = qpl_bufs_produced_cached tx"
    "qpl_bufs_consumed t7 = qpl_bufs_consumed tx + of_nat (length xs)" "desc_mask t7 = desc_mask tx" "desc_tail t7 = ?i'"
    "dqo_desc_ring t7 = put_descs (desc_mask tx) (desc_tail tx) ds' (dqo_desc_ring tx)"
    "compl_view t7 = compl_view tx"
    using i(1) unfolding t7_def rc Let_def by (simp_all add: I(1) copied_def t4 compl_view_def)
  have "pend_part True t7 pcs pps i"
    using i(1) by (intro pend_part_cong [OF P, of t7 "pending_pkts t7 ! i"]) (simp_all add: s7 t4)
  then have "pend_inv True t7 pcs pps"
    by (rule pend_part_close) (use i(1) in \<open>simp_all add: s7 pend_ok_def taken_pkt_def\<close>)
  moreover have lq: "length qb = length (qpl_bufs tx)" "\<forall>b. b \<notin> set xs \<longrightarrow> qb ! b = qpl_bufs tx ! b"
    using I(8,9) by (simp_all add: t4)
  have "qplb.lists t7 cs' ps'" "pages_ok t7" using I(6,10) by (simp_all add: qplb.lists_def pages_ok_def s7 I(1) copied_def t4)
  then have "qbuf_inv t7 (B(i := xs)) cs' ps'"
    using I(3,4,5,7) m(2) lq by (intro qbuf_inv_take [OF Q i(1,2) s7(1)]) (simp_all add: s7 taken_pkt_def)
  then have qi: "\<exists>B cs ps. qbuf_inv t7 B cs ps" "pkt_bufs i t7 xs"
    using i(1) qbuf_inv_owns [of t7 "B(i := xs)" cs' ps' i] by (blast, simp add: owns_def s7)
  moreover have "ring_ok k t7" using rk unat_adv [OF rk(1,2)] by (simp add: ring_ok_def s7)
  ultimately have "dqo_inv k True t7" by (auto simp: dqo_inv_def)
  moreover have "sent_qpl m i xs ds csum tx t7"
  proof -
    have "pkt_bufs j t7 ys \<and> (\<forall>b \<in> set ys. \<forall>n \<le> 2048. buf_bytes (qpl_pages t7) b n = buf_bytes (qpl_pages tx) b n)"
      if j: "j < length (pending_pkts tx)" "j \<noteq> i" "pkt_bufs j tx ys" for j ys
    proof -
      have "ys = B j" "set (B j) \<inter> set xs = {}" using Qs(4) [OF j(1)] pkt_bufs_unique [OF j(3)] I(5) by (auto simp: owns_def)
      moreover have "set (B j) \<subseteq> {..<length (qpl_bufs tx)}" using Q j(1) by (auto simp: qbuf_inv_def buf_partition_def)
      moreover have "chain (qnext t7) h ys = chain (qnext tx) h ys" for h
        using lq calculation by (intro chain_cong) (auto simp: s7)
      ultimately show ?thesis using j I(12) by (auto simp: pkt_bufs_def s7 t4)
    qed
    then show ?thesis using i qi(2) av I(3,11) lm re by (auto simp: sent_qpl_def s7 Let_def intro!: exI [of _ re])
  qed
  ultimately show ?thesis using I(2,3) idx' unfolding t7_def Let_def by auto
qed


lemma pend_inv_ok: "pend_inv q tx cs ps \<Longrightarrow> i < length (pending_pkts tx) \<Longrightarrow> pend_ok q (pending_pkts tx ! i)"
  by (simp add: pend_inv_def)

text \<open>A refused packet leaves the ring as it was, apart from cached counters and statistics.\<close>

lemma refused:
  assumes "ring_ok k tx" "pend_inv True tx cs ps" "qbuf_inv tx B qcs qps"
  shows "dqo_inv k True (tx\<lparr>tx_stats := st, desc_head := h\<rparr>)" "tx_kept tx (tx\<lparr>tx_stats := st, desc_head := h\<rparr>)"
proof -
  let ?t = "tx\<lparr>tx_stats := st, desc_head := h\<rparr>"
  have "pend_inv True ?t cs ps" using assms(2) by (simp add: pend_view_def pend_inv_cong [of ?t tx])
  moreover have "qbuf_inv ?t B qcs qps" by (rule qbuf_inv_cong [OF _ assms(3)]) (simp add: qbuf_view_def)
  ultimately show "dqo_inv k True ?t" using assms(1) by (intro dqo_invI) (auto simp: ring_ok_def)
  show "tx_kept tx ?t" by (simp add: tx_kept_def compl_view_def)
qed

text \<open>The part of \<open>gve_xmit_dqo_qpl\<close> after a pending packet \<open>i\<close> has been taken.\<close>

lemma xmit_qpl_taken:
  assumes R: "ring_ok k tx" and P: "pend_inv True tx pcs pps" and Q: "qbuf_inv tx B qcs qps"
    and a: "gve_alloc_pending_packet now tx = (Some i, t3)" and m: "0 < m_pkthdr_len m" "te_m_len env \<le> m_pkthdr_len m"
    and en: "howmany (m_pkthdr_len m) 2048 \<le> unat (qpl_bufs_produced_cached tx - qpl_bufs_consumed tx)"
    and av: "1 + howmany (m_pkthdr_len m) 2048 + (if tso then 1 else 0) \<le> unat (num_avail_desc_ring_slots tx)"
  shows "\<exists>e t'. (case gve_tx_fill_ctx_descs env m tso (desc_tail tx) (upd_pkt i (\<lambda>p. p\<lparr>pp_mbuf := Some m\<rparr>) t3) of
       (Some e, _, _, t4) \<Rightarrow> Some (Some e, gve_free_pending_packet i (upd_pkt i (\<lambda>p. p\<lparr>pp_mbuf := None\<rparr>) t4))
     | (None, m', desc_idx, t4) \<Rightarrow>
         (case gve_tx_copy_mbuf_and_write_pkt_descs m' i csum (of_nat i) desc_idx (upd_pkt i (\<lambda>p. p\<lparr>pp_mbuf := Some m'\<rparr>) t4) of
            None \<Rightarrow> None
          | Some (idx, t5) \<Rightarrow>
              let t6 = gve_tx_request_desc_compl idx (t5\<lparr>desc_tail := idx\<rparr>) in Some (None, t6\<lparr>tx_req := tx_req t6 + n\<rparr>))) = Some (e, t') \<and>
    dqo_inv k True t' \<and> (case e of Some _ \<Rightarrow> tx_kept tx t' | None \<Rightarrow> \<exists>m' xs ds. length ds = (if tso then 2 else 1) \<and>
      length xs = howmany (m_pkthdr_len m) 2048 \<and> (\<not> tso \<longrightarrow> m' = m) \<and> m_ptr m' = m_ptr m \<and>
      m_pkthdr_len m' = m_pkthdr_len m \<and> sent_qpl m' i xs ds csum tx t')"
proof -
  obtain cs' ps' c p where A: "pend_part True t3 cs' ps' i" "pp_state (pending_pkts tx ! i) = GVE_PACKET_STATE_FREE" "i < length (pending_pkts tx)"
    and t3: "t3 = tx\<lparr>free_pending_pkts_csm := c, free_pending_pkts_prd := p,
       pending_pkts := (pending_pkts tx)[i := taken_pkt now (pending_pkts tx ! i)]\<rparr>"
    by (rule pend_part_alloc [OF a P])
  note ok = pend_inv_ok [OF P A(3)]
  let ?t3 = "upd_pkt i (\<lambda>p. p\<lparr>pp_mbuf := Some m\<rparr>) t3"
  obtain e m' idx t4 where f: "gve_tx_fill_ctx_descs env m tso (desc_tail tx) ?t3 = (e, m', idx, t4)" by (metis prod_cases4)
  show ?thesis
  proof (cases e)
    case (Some er)
    obtain st where t4: "t4 = ?t3\<lparr>tx_stats := st\<rparr>" using fill_ctx_descs [OF f m(2)] Some by auto
    let ?u = "upd_pkt i (\<lambda>p. p\<lparr>pp_mbuf := None\<rparr>) t4" let ?t' = "gve_free_pending_packet i ?u"
    have pu: "pend_part True ?u cs' ps' i"
      using A(3) by (intro pend_part_cong [OF A(1), of ?u "pending_pkts ?u ! i"]) (simp_all add: t4 t3)
    have pk: "pending_pkts ?u = (pending_pkts tx)[i := (pending_pkts tx ! i)\<lparr>pp_state := GVE_PACKET_STATE_PENDING_DATA_COMPL, pp_time := now, pp_mbuf := None\<rparr>]"
      using A(3) by (simp add: t4 t3 taken_pkt_def)
    note X = xmit_abort [OF pu refl pk A(3) ok A(2)]
    have v: "qbuf_view ?t' = qbuf_view tx"
      using X(4) by (simp add: qbuf_view_def) (simp add: gve_free_pending_packet_def Let_def t4 t3)
    have s: "desc_tail ?t' = desc_tail tx" "desc_mask ?t' = desc_mask tx" "dqo_desc_ring ?t' = dqo_desc_ring tx"
      "tx_req ?t' = tx_req tx" "qpl_pages ?t' = qpl_pages tx"
      "compl_view ?t' = compl_view tx" by (simp_all add: gve_free_pending_packet_def Let_def t4 t3 compl_view_def)
    have "dqo_inv k True ?t'" using R s X(1) qbuf_inv_cong [OF v Q] by (intro dqo_invI) (auto simp: ring_ok_def)
    moreover have "tx_kept tx ?t'" using s X(2,3) by (simp add: tx_kept_def)
    ultimately show ?thesis using f Some by auto
  next
    case None
    have s3: "desc_mask ?t3 = desc_mask tx" "dqo_desc_ring ?t3 = dqo_desc_ring tx" by (simp_all add: t3)
    obtain ds st where F: "length ds = (if tso then 2 else 1)" "idx = adv (desc_mask tx) (length ds) (desc_tail tx)"
      "t4 = ?t3\<lparr>tx_stats := st, dqo_desc_ring := put_descs (desc_mask tx) (desc_tail tx) ds (dqo_desc_ring tx)\<rparr>"
      "m_pkthdr_len m' = m_pkthdr_len m" "m_ptr m' = m_ptr m" "\<not> tso \<longrightarrow> m' = m"
      by (rule fill_ctx_descs_ok [OF f [unfolded None] m(2), unfolded s3])
    let ?t4 = "upd_pkt i (\<lambda>p. p\<lparr>pp_mbuf := Some m'\<rparr>) t4"
    have P4: "pend_part True ?t4 cs' ps' i"
      using A(3) by (intro pend_part_cong [OF A(1), of ?t4 "pending_pkts ?t4 ! i"]) (simp_all add: F(3) t3)
    have t4: "?t4 = tx\<lparr>tx_stats := st, free_pending_pkts_csm := c, free_pending_pkts_prd := p,
        dqo_desc_ring := put_descs (desc_mask tx) (desc_tail tx) ds (dqo_desc_ring tx),
        pending_pkts := (pending_pkts tx)[i := (taken_pkt now (pending_pkts tx ! i))\<lparr>pp_mbuf := Some m'\<rparr>]\<rparr>"
      using A(3) by (simp add: upd_pkt_def F(3) t3)
    have m': "0 < m_pkthdr_len m'" "howmany (m_pkthdr_len m') 2048 \<le> unat (qpl_bufs_produced_cached tx - qpl_bufs_consumed tx)"
      "length ds + howmany (m_pkthdr_len m') 2048 \<le> unat (num_avail_desc_ring_slots tx)"
      using m(1) en av F(1) by (auto simp: F(4) split: if_splits)
    obtain idx' t5 where G: "gve_tx_copy_mbuf_and_write_pkt_descs m' i csum (of_nat i) idx ?t4 = Some (idx', t5)"
      and H: "let t6 = gve_tx_request_desc_compl idx' (t5\<lparr>desc_tail := idx'\<rparr>); t7 = t6\<lparr>tx_req := tx_req t6 + n\<rparr>
        in dqo_inv k True t7 \<and> (\<exists>xs. length xs = howmany (m_pkthdr_len m') 2048 \<and> sent_qpl m' i xs ds csum tx t7)"
      using send_qpl [OF R Q P4 A(3,2) ok t4 m', where csum = csum and n = n] unfolding F(2) by blast
    define t7 where "t7 = (let t6 = gve_tx_request_desc_compl idx' (t5\<lparr>desc_tail := idx'\<rparr>) in t6\<lparr>tx_req := tx_req t6 + n\<rparr>)"
    obtain xs where X: "dqo_inv k True t7" "length xs = howmany (m_pkthdr_len m) 2048" "sent_qpl m' i xs ds csum tx t7"
      using H F(4) unfolding t7_def Let_def by auto
    have "\<exists>m' xs ds. length ds = (if tso then 2 else 1) \<and> length xs = howmany (m_pkthdr_len m) 2048 \<and> (\<not> tso \<longrightarrow> m' = m) \<and>
      m_ptr m' = m_ptr m \<and> m_pkthdr_len m' = m_pkthdr_len m \<and> sent_qpl m' i xs ds csum tx t7"
      using X(2,3) F(1,4,5,6) by blast
    then show ?thesis unfolding f None G prod.case option.case Let_def
      using X(1) by (intro exI [of _ None] exI [of _ t7]) (simp add: t7_def Let_def)
  qed
qed

lemma xmit_qpl_ok:
  assumes "dqo_inv k True tx" and "0 < m_pkthdr_len m" and "te_m_len env \<le> m_pkthdr_len m"
  shows "\<exists>e tx'. gve_xmit_dqo_qpl env now m tx = Some (e, tx') \<and> dqo_inv k True tx' \<and>
    (case e of
       Some _ \<Rightarrow> tx_kept tx tx'
     | None \<Rightarrow> \<exists>i m' xs ds. length ds = (if is_tso_mbuf m then 2 else 1) \<and>
         length xs = howmany (m_pkthdr_len m) GVE_TX_BUF_SIZE_DQO \<and> (\<not> is_tso_mbuf m \<longrightarrow> m' = m) \<and> m_ptr m' = m_ptr m \<and>
         m_pkthdr_len m' = m_pkthdr_len m \<and> sent_qpl m' i xs ds (has_csum_flag m) tx tx')"
proof -
  obtain pcs pps B qcs qps where I: "ring_ok k tx" "pend_inv True tx pcs pps" "qbuf_inv tx B qcs qps"
    using assms(1) by (auto simp: dqo_inv_def)
  let ?ns = "howmany (m_pkthdr_len m) 2048" let ?nd = "1 + ?ns + (if is_tso_mbuf m then 1 else 0)"
  obtain room t1 where r1: "gve_tx_has_desc_room_dqo ?nd tx = (room, t1)" by fastforce
  obtain h st where t1: "t1 = tx\<lparr>tx_stats := st, desc_head := h\<rparr>"
    and rm: "room \<longrightarrow> h = desc_head tx \<and> st = tx_stats tx \<and> ?nd \<le> unat (num_avail_desc_ring_slots tx)"
    by (rule has_desc_room [OF r1])
  show ?thesis
  proof (cases room)
    case False
    then show ?thesis using r1 refused [OF I, where st = st and h = h] unfolding t1 by (auto simp: gve_xmit_dqo_qpl_def)
  next
    case True
    then have t1': "t1 = tx" and av: "?nd \<le> unat (num_avail_desc_ring_slots tx)" using rm t1 by auto
    obtain en t2 where r2: "gve_tx_have_enough_qpl_bufs ?ns tx = (en, t2)" by fastforce
    obtain c where t2: "t2 = tx\<lparr>qpl_bufs_produced_cached := c\<rparr>" and Q2: "qbuf_inv t2 B qcs qps"
      and en: "en \<longrightarrow> ?ns \<le> unat (qpl_bufs_produced_cached t2 - qpl_bufs_consumed t2)"
      by (rule have_enough_bufs [OF r2 I(3)])
    have P2: "pend_inv True t2 pcs pps" using I(2) pend_inv_cong [of t2 tx] by (simp add: t2 pend_view_def)
    have R2: "ring_ok k t2" using I(1) by (simp add: t2 ring_ok_def)
    obtain a t3 where r3: "gve_alloc_pending_packet now t2 = (a, t3)" by fastforce
    consider "\<not> en" | "en" "a = None" | i where "en" "a = Some i" by (cases a) auto
    then show ?thesis
    proof cases
      case 1
      let ?t = "count_tx (\<lambda>st. st\<lparr>tx_delayed_pkt_nospace_qpl_bufs := tx_delayed_pkt_nospace_qpl_bufs st + 1\<rparr>) t2"
      have "gve_xmit_dqo_qpl env now m tx = Some (Some ENOBUFS, ?t)"
        using True r1 r2 1 t1' by (simp add: gve_xmit_dqo_qpl_def)
      moreover have "dqo_inv k True ?t" "tx_kept t2 ?t"
        using refused [OF R2 P2 Q2, where h = "desc_head t2"] by (simp_all add: count_tx_def)
      ultimately show ?thesis by (auto simp: tx_kept_def t2 compl_view_def)
    next
      case 2
      let ?t = "count_tx (\<lambda>st. st\<lparr>tx_delayed_pkt_nospace_compring := tx_delayed_pkt_nospace_compring st + 1\<rparr>) t3"
      obtain c' p' where t3: "t3 = t2\<lparr>free_pending_pkts_csm := c', free_pending_pkts_prd := p'\<rparr>" and P3: "pend_inv True t3 [] []"
        using alloc_pending [OF r3 P2] 2 by auto
      have Q3: "qbuf_inv t3 B qcs qps" by (rule qbuf_inv_cong [OF _ Q2]) (simp add: qbuf_view_def t3)
      have "ring_ok k t3" using R2 by (simp add: t3 ring_ok_def)
      then have "dqo_inv k True ?t" "tx_kept t3 ?t"
        using refused [OF _ P3 Q3, where h = "desc_head t3"] by (simp_all add: count_tx_def)
      moreover have "gve_xmit_dqo_qpl env now m tx = Some (Some ENOBUFS, ?t)"
        using True r1 r2 r3 2 t1' by (simp add: gve_xmit_dqo_qpl_def)
      ultimately show ?thesis by (auto simp: tx_kept_def t2 t3 compl_view_def)
    next
      case 3
      have av2: "?nd \<le> unat (num_avail_desc_ring_slots t2)" using av by (simp add: t2 num_avail_desc_ring_slots_def)
      have s: "sent_qpl m' i xs ds cf t2 t' = sent_qpl m' i xs ds cf tx t'" for m' xs ds cf t'
        by (simp add: sent_qpl_def t2 num_avail_desc_ring_slots_def pkt_bufs_def compl_view_def)
      have tl: "desc_tail t2 = desc_tail tx" by (simp add: t2)
      have kt: "tx_kept t2 t' = tx_kept tx t'" for t' by (simp add: tx_kept_def t2 compl_view_def)
      obtain e t' where G: "gve_xmit_dqo_qpl env now m tx = Some (e, t')" "dqo_inv k True t'"
        "case e of Some _ \<Rightarrow> tx_kept tx t' | None \<Rightarrow> \<exists>m' xs ds. length ds = (if is_tso_mbuf m then 2 else 1) \<and>
          length xs = ?ns \<and> (\<not> is_tso_mbuf m \<longrightarrow> m' = m) \<and> m_ptr m' = m_ptr m \<and>
          m_pkthdr_len m' = m_pkthdr_len m \<and> sent_qpl m' i xs ds (has_csum_flag m) tx t'"
        using xmit_qpl_taken [OF R2 P2 Q2 r3 [unfolded 3(2)] assms(2,3) en [rule_format, OF 3(1)] av2, where csum = "has_csum_flag m" and n = "of_nat ?nd"]
        unfolding s kt gve_xmit_dqo_qpl_def Let_def buf_size_2048 r1 t1' r2 prod.case r3 3(2) tl
        using True 3(1) by (simp only: if_False not_not simp_thms option.case HOL.simp_thms) blast
      then show ?thesis unfolding buf_size_2048
        by (intro exI [of _ e] exI [of _ t'] conjI; (assumption | (cases e; simp only: option.case; blast)))
    qed
  qed
qed

text \<open>
  C4. The DQO transmission through bounce buffers (\<open>gve_xmit_dqo_qpl\<close>), from a consistent ring:
  no assertion of the code fails; the ring stays consistent; a refused packet changes no
  descriptor, mbuf or buffer; an accepted packet gets a free pending slot, its bytes are in the
  buffers chained to that slot and its descriptors, at most as many as there were free slots,
  describe exactly these buffers in order, while the packets in flight keep their bytes.
\<close>

theorem gve_xmit_dqo_qpl_correct:
  assumes "dqo_inv k True tx" and "0 < m_pkthdr_len m" and "te_m_len env \<le> m_pkthdr_len m"
  shows "\<exists>e tx'. gve_xmit_dqo_qpl env now m tx = Some (e, tx') \<and> dqo_inv k True tx' \<and>
    (case e of
       Some _ \<Rightarrow> tx_kept tx tx'
     | None \<Rightarrow> \<exists>i m' xs ds. length ds = (if is_tso_mbuf m then 2 else 1) \<and>
         length xs = howmany (m_pkthdr_len m) GVE_TX_BUF_SIZE_DQO \<and> (\<not> is_tso_mbuf m \<longrightarrow> m' = m) \<and> m_ptr m' = m_ptr m \<and>
         m_pkthdr_len m' = m_pkthdr_len m \<and> sent_qpl m' i xs ds (has_csum_flag m) tx tx')"
  using assms by (rule xmit_qpl_ok)


text \<open>A small ring: four descriptors, two pending packets, one page with two buffers.\<close>

definition ex_pkt_dqo :: gve_tx_pending_pkt_dqo where
  "ex_pkt_dqo = \<lparr>pp_mbuf = None, pp_time = 0, dma_loaded = False, qpl_buf_head = -1, num_qpl_bufs = 0,
     pp_state = GVE_PACKET_STATE_UNALLOCATED, pp_next = 0\<rparr>"

definition ex_raw_dqo :: gve_tx_ring_dqo where
  "ex_raw_dqo = \<lparr>tx_com = ex_com, stopped = False, tx_req = 0, tx_done = 0, last_kicked = 0, tx_stats = zero_txq_stats,
     dqo_desc_ring = replicate 4 zero_desc_dqo, desc_mask = 0, desc_head = 0, desc_tail = 0, last_re_idx = 0,
     free_pending_pkts_csm = 0, free_qpl_bufs_csm = 0, qpl_bufs_consumed = 0, qpl_bufs_produced_cached = 0,
     compl_ring = replicate 4 zero_compl_desc, compl_mask = 0, compl_head = 0, cur_gen_bit = False, hw_tx_head = 0,
     free_pending_pkts_prd = 0, free_qpl_bufs_prd = 0, qpl_bufs_produced = 0, pending_pkts = replicate 2 ex_pkt_dqo,
     num_pending_pkts = 2, qpl_bufs = [0, 0], qpl_pages = [replicate 4096 0], qpl_dmas = [0x1000]\<rparr>"

definition ex_dqo :: "bool \<Rightarrow> gve_tx_ring_dqo" where
  "ex_dqo q = fst (gve_clear_tx_ring_dqo q 4 1 ex_raw_dqo)"

definition ex_tso_env :: tso_env where
  "ex_tso_env = \<lparr>te_m_len = 0, te_pullup_ok = (\<lambda>_. False), te_beyond = (\<lambda>_. 0), te_in6_cksum_pseudo = (\<lambda>_. []),
     te_in_pseudo = (\<lambda>_. []), te_csum0 = []\<rparr>"

lemma ex_dqo_inv: "dqo_inv 2 q (ex_dqo q)"
proof -
  have "dqo_alloc_ok 2 q 1 ex_raw_dqo" by (simp add: dqo_alloc_ok_def ex_raw_dqo_def PAGE_SIZE_def ex_pkt_dqo_def)
  moreover obtain t evs where "gve_clear_tx_ring_dqo q (2 ^ 2) 1 ex_raw_dqo = (t, evs)" by fastforce
  ultimately show ?thesis using clear_ring_inv [of 2 q 1 ex_raw_dqo t evs] by (simp add: ex_dqo_def)
qed

lemma ex_dqo_sel:
  "desc_mask (ex_dqo q) = 3" "desc_tail (ex_dqo q) = 0" "desc_head (ex_dqo q) = 0" "free_pending_pkts_csm (ex_dqo q) = 0"
  "compl_mask (ex_dqo q) = 3" "compl_head (ex_dqo q) = 0" "compl_ring (ex_dqo q) = replicate 4 zero_compl_desc"
  "cur_gen_bit (ex_dqo q) = False" "stopped (ex_dqo q) = False"
  "qpl_bufs_consumed (ex_dqo True) = 0" "qpl_bufs_produced_cached (ex_dqo True) = 2"
  by (cases q; simp add: ex_dqo_def ex_raw_dqo_def gve_clear_tx_ring_dqo_def gve_free_tx_mbufs_dqo_def Let_def
      gve_tx_clear_desc_ring_dqo_def gve_tx_clear_compl_ring_dqo_def GVE_TX_BUFS_PER_PAGE_DQO_def PAGE_SIZE_def GVE_TX_BUF_SHIFT_DQO_def
      split: prod.splits)+

theorem gve_xmit_dqo_qpl_correct_witness:
  "\<exists>tx' i xs ds. gve_xmit_dqo_qpl ex_tso_env 0 ex_mbuf (ex_dqo True) = Some (None, tx') \<and> dqo_inv 2 True tx' \<and>
     length xs = 1 \<and> sent_qpl ex_mbuf i xs ds False (ex_dqo True) tx'"
proof -
  have m: "m_pkthdr_len ex_mbuf = 20" "\<not> is_tso_mbuf ex_mbuf" "\<not> has_csum_flag ex_mbuf"
    by (simp_all add: ex_mbuf_def m_pkthdr_len_def is_tso_mbuf_def has_csum_flag_def)
  obtain e tx' where r: "gve_xmit_dqo_qpl ex_tso_env 0 ex_mbuf (ex_dqo True) = Some (e, tx')" "dqo_inv 2 True tx'"
    "case e of Some _ \<Rightarrow> tx_kept (ex_dqo True) tx' | None \<Rightarrow> \<exists>i m' xs ds. length ds = (if is_tso_mbuf ex_mbuf then 2 else 1) \<and>
       length xs = howmany (m_pkthdr_len ex_mbuf) GVE_TX_BUF_SIZE_DQO \<and> (\<not> is_tso_mbuf ex_mbuf \<longrightarrow> m' = ex_mbuf) \<and> m_ptr m' = m_ptr ex_mbuf \<and>
       m_pkthdr_len m' = m_pkthdr_len ex_mbuf \<and> sent_qpl m' i xs ds (has_csum_flag ex_mbuf) (ex_dqo True) tx'"
    using gve_xmit_dqo_qpl_correct [OF ex_dqo_inv [of True], of ex_mbuf ex_tso_env 0] m by (auto simp: ex_tso_env_def)
  have "e = None"
    using r(1) m
    by (auto simp: gve_xmit_dqo_qpl_def gve_tx_has_desc_room_dqo_def num_avail_desc_ring_slots_def ex_dqo_sel howmany_def
        gve_tx_have_enough_qpl_bufs_def gve_alloc_pending_packet_def Let_def gve_tx_fill_ctx_descs_def split: option.splits prod.splits if_splits)
  then show ?thesis using r m by (auto simp: howmany_def)
qed

end
