(* ===== verification/Gve_Genring.thy ===== *)
theory Gve_Genring
  imports Gve_Prelude
begin

text \<open>
  A ring of completions announced by a generation bit, the way the DQO queues of the device use it:
  the device writes the slots in order and flips the bit on every lap; the driver keeps a head and
  the bit that means \<open>not yet written\<close>, and flips its bit when the head wraps.
\<close>

section \<open>The interface of a consumer\<close>

text \<open>
  \<open>slot s i\<close> is the generation bit in slot \<open>i\<close>, \<open>gen s\<close> the driver's bit. \<open>consumes s s'\<close>: the driver
  has handled the completion at the head.
\<close>

locale gen_ring =
  fixes slot :: "'s \<Rightarrow> nat \<Rightarrow> bool" and head size :: "'s \<Rightarrow> nat" and gen :: "'s \<Rightarrow> bool"
    and consumes :: "'s \<Rightarrow> 's \<Rightarrow> bool"
  assumes head_bound: "consumes s s' \<Longrightarrow> head s < size s"
    and consume_head: "consumes s s' \<Longrightarrow> head s' = (head s + 1) mod size s"
    and consume_gen: "consumes s s' \<Longrightarrow> gen s' = (gen s \<noteq> (head s' = 0))"
    and consume_slot: "consumes s s' \<Longrightarrow> slot s' = slot s"
    and consume_size: "consumes s s' \<Longrightarrow> size s' = size s"
begin

text \<open>The driver's bit when it will have handled \<open>j\<close> more completions.\<close>

definition gen_at :: "'s \<Rightarrow> nat \<Rightarrow> bool" where
  "gen_at s j = (gen s \<noteq> odd ((head s + j) div size s))"

text \<open>The device has written exactly \<open>n\<close> completions that the driver has not handled.\<close>

definition written :: "'s \<Rightarrow> nat \<Rightarrow> bool" where
  "written s n \<longleftrightarrow> head s < size s \<and> (\<forall>j < n. slot s ((head s + j) mod size s) \<noteq> gen_at s j) \<and>
     slot s ((head s + n) mod size s) = gen_at s n"

lemma written_0: "written s 0 \<Longrightarrow> slot s (head s) = gen s"
  by (auto simp: written_def gen_at_def)

text \<open>However the bits lie, the unhandled completions end within one lap.\<close>

lemma written_exists:
  assumes "head s < size s"
  shows "\<exists>n \<le> size s. written s n"
proof -
  let ?P = "\<lambda>j. slot s ((head s + j) mod size s) = gen_at s j"
  have "(head s + size s) div size s = Suc (head s div size s)" using assms div_add_self2 [of "size s" "head s"] by simp
  then have "?P 0 \<or> ?P (size s)" by (auto simp: gen_at_def)
  then obtain j where j: "?P j" "j \<le> size s" by (metis le0 order_refl)
  define n where "n = (LEAST j. ?P j)"
  have "?P n" unfolding n_def by (rule LeastI [where P = ?P, OF j(1)])
  moreover have "\<not> ?P i" if "i < n" for i using that unfolding n_def by (rule not_less_Least)
  moreover have "n \<le> j" unfolding n_def by (rule Least_le [where P = ?P, OF j(1)])
  ultimately show ?thesis using assms j(2) unfolding written_def by (metis order_trans)
qed

lemma written_Suc: "written s (Suc n) \<Longrightarrow> slot s (head s) \<noteq> gen s"
  by (auto simp: written_def gen_at_def)

lemma gen_at_Suc:
  assumes "consumes s s'"
  shows "gen_at s' j = gen_at s (Suc j)"
proof -
  have b: "head s < size s" using head_bound [OF assms] .
  show ?thesis
  proof (cases "head s + 1 = size s")
    case True
    then have "head s' = 0" using consume_head [OF assms] by simp
    moreover have "head s + Suc j = size s + j" using True by simp
    then have "(head s + Suc j) div size s = Suc (j div size s)" using b div_add_self1 [of "size s" j] by (simp only:)
    ultimately show ?thesis
      by (auto simp: gen_at_def consume_gen [OF assms] consume_size [OF assms])
  next
    case False
    then have "head s' = Suc (head s)" using consume_head [OF assms] b by simp
    then show ?thesis by (simp add: gen_at_def consume_gen [OF assms] consume_size [OF assms])
  qed
qed

lemma written_step:
  assumes "consumes s s'" and "written s (Suc n)"
  shows "written s' n"
proof -
  have b: "head s < size s" using head_bound [OF assms(1)] .
  have p: "(head s' + j) mod size s' = (head s + Suc j) mod size s" for j
    unfolding consume_head [OF assms(1)] consume_size [OF assms(1)] by (simp add: mod_add_left_eq)
  have "slot s' ((head s' + j) mod size s') \<noteq> gen_at s' j" if "j < n" for j
    using assms(2) that unfolding written_def p gen_at_Suc [OF assms(1)] consume_slot [OF assms(1)] by blast
  moreover have "slot s' ((head s' + n) mod size s') = gen_at s' n"
    using assms(2) unfolding written_def p gen_at_Suc [OF assms(1)] consume_slot [OF assms(1)] by blast
  moreover have "head s' < size s'" using b consume_head [OF assms(1)] consume_size [OF assms(1)] by simp
  ultimately show ?thesis by (simp add: written_def)
qed

end

end
