(* ===== verification/Gve_Tx_Dqo_Compl.thy ===== *)
theory Gve_Tx_Dqo_Compl
  imports Gve_Tx_Dqo_Inv Gve_Genring "HOL-Library.Multiset"
begin

text \<open>
  Completions of the DQO transmit ring: what handling one does to the free lists and to the mbufs in
  flight, and the completion handler as a consumer of a ring with a generation bit.
\<close>

section \<open>Packet completions\<close>

lemma UN_fun_upd:
  assumes "i < (n :: nat)"
  shows "(\<Union>j < n. set ((B(i := xs)) j)) = set xs \<union> (\<Union>j \<in> {..<n} - {i}. set (B j))"
    and "(\<Union>j < n. set (B j)) = set (B i) \<union> (\<Union>j \<in> {..<n} - {i}. set (B j))"
proof -
  have n: "{..<n} = insert i ({..<n} - {i})" using assms by auto
  show "(\<Union>j < n. set ((B(i := xs)) j)) = set xs \<union> (\<Union>j \<in> {..<n} - {i}. set (B j))" by (subst n) (simp only: UN_insert fun_upd_same, simp)
  show "(\<Union>j < n. set (B j)) = set (B i) \<union> (\<Union>j \<in> {..<n} - {i}. set (B j))" by (subst n) (simp only: UN_insert)
qed

text \<open>The buffers of packet \<open>i\<close> go back to the producer list.\<close>

lemma qbuf_inv_give:
  assumes inv: "qbuf_inv tx B cs ps" and i: "i < length (pending_pkts tx)" "pp_state (pending_pkts tx ! i) \<noteq> GVE_PACKET_STATE_FREE"
  obtains t where "gve_reap_qpl_bufs_dqo i tx = Some t"
    "t = upd_pkt i gve_clear_qpl_pending_pkt (tx\<lparr>qpl_bufs := (qpl_bufs tx)[last (B i) := free_qpl_bufs_prd tx],
       free_qpl_bufs_prd := int (hd (B i)), qpl_bufs_produced := qpl_bufs_produced tx + of_nat (length (B i))\<rparr>)"
    "\<And>tx' :: gve_tx_ring_dqo. \<And>pkt. pending_pkts tx' = (pending_pkts tx)[i := pkt] \<Longrightarrow> qpl_buf_head pkt = -1 \<Longrightarrow> num_qpl_bufs pkt = 0 \<Longrightarrow>
       pp_state pkt = GVE_PACKET_STATE_FREE \<Longrightarrow> qpl_bufs tx' = qpl_bufs t \<Longrightarrow> qpl_pages tx' = qpl_pages t \<Longrightarrow>
       free_qpl_bufs_csm tx' = free_qpl_bufs_csm t \<Longrightarrow> free_qpl_bufs_prd tx' = free_qpl_bufs_prd t \<Longrightarrow>
       qpl_bufs_produced tx' = qpl_bufs_produced t \<Longrightarrow> qpl_bufs_produced_cached tx' = qpl_bufs_produced_cached t \<Longrightarrow>
       qpl_bufs_consumed tx' = qpl_bufs_consumed t \<Longrightarrow> qbuf_inv tx' (B(i := [])) cs (B i @ ps)"
proof -
  let ?n = "length (pending_pkts tx)"
  have I: "qplb.lists tx cs ps" "length (qpl_bufs tx) < 2 ^ 31" "\<And>j. j < ?n \<Longrightarrow> owns tx B (set (cs @ ps)) j"
    "buf_partition ?n (length (qpl_bufs tx)) B (set (cs @ ps))" "buf_counts tx (length (cs @ ps))" "pages_ok tx"
    using inv unfolding qbuf_inv_def by blast+
  have oi: "pkt_bufs i tx (B i)" "distinct (B i)" "set (B i) \<inter> set (cs @ ps) = {}" "B i \<noteq> []"
    using I(3) [OF i(1)] i(2) unfolding owns_def by blast+
  have b: "\<forall>b \<in> set (B i). b < length (qpl_bufs tx)" using I(4) i(1) by (auto simp: buf_partition_def)
  have lk: "linked (qnext tx) (B i)" using oi(1) chain_linked by (auto simp: pkt_bufs_def)
  note r = reap_some [OF oi(1,4) b]
  obtain t where t: "gve_reap_qpl_bufs_dqo i tx = Some t" "qplb.lists t cs (B i @ ps)" "length (qpl_bufs t) = length (qpl_bufs tx)"
    "\<forall>x < length (qpl_bufs tx). x \<notin> set (B i) \<longrightarrow> qnext t x = qnext tx x"
    using qplb.free_some [OF I(1) oi(1,4) lk oi(2,3) b] by blast
  have d: "distinct (cs @ B i @ ps)" "\<forall>x \<in> set (cs @ B i @ ps). x < length (qpl_bufs tx)" using t(2,3) by (auto simp: qplb.lists_def)
  have ln: "length (cs @ B i @ ps) \<le> length (qpl_bufs tx)"
    using d distinct_card [OF d(1)] card_mono [of "{..<length (qpl_bufs tx)}" "set (cs @ B i @ ps)"] by auto
  have te: "t = upd_pkt i gve_clear_qpl_pending_pkt (tx\<lparr>qpl_bufs := (qpl_bufs tx)[last (B i) := free_qpl_bufs_prd tx],
       free_qpl_bufs_prd := int (hd (B i)), qpl_bufs_produced := qpl_bufs_produced tx + of_nat (length (B i))\<rparr>)"
    using r t(1) by simp
  show ?thesis
  proof (rule that [OF t(1) te])
    fix tx' :: gve_tx_ring_dqo and pkt assume pk: "pending_pkts tx' = (pending_pkts tx)[i := pkt]" "qpl_buf_head pkt = -1" "num_qpl_bufs pkt = 0"
       "pp_state pkt = GVE_PACKET_STATE_FREE" and q: "qpl_bufs tx' = qpl_bufs t" "qpl_pages tx' = qpl_pages t"
       "free_qpl_bufs_csm tx' = free_qpl_bufs_csm t" "free_qpl_bufs_prd tx' = free_qpl_bufs_prd t"
       "qpl_bufs_produced tx' = qpl_bufs_produced t" "qpl_bufs_produced_cached tx' = qpl_bufs_produced_cached t"
       "qpl_bufs_consumed tx' = qpl_bufs_consumed t"
    let ?B = "B(i := [])"
    have L: "qplb.lists tx' cs (B i @ ps)" using t(2) q by (simp add: qplb.lists_def)
    have "length (B i) + unat (qpl_bufs_produced tx - qpl_bufs_consumed tx) < 2 ^ 32"
      using ln I(2,5) by (simp add: buf_counts_def)
    then have C: "buf_counts tx' (length (cs @ B i @ ps))"
      using I(5) unat_add_len [of "qpl_bufs_produced tx - qpl_bufs_consumed tx" "length (B i)"]
      by (auto simp: buf_counts_def q te algebra_simps)
    have O: "owns tx' ?B (set (cs @ B i @ ps)) j" if j: "j < ?n" for j
    proof (cases "j = i")
      case True
      then show ?thesis using pk i(1) by (simp add: owns_def pkt_bufs_def)
    next
      case False
      have oj: "pkt_bufs j tx (B j)" "distinct (B j)" "set (B j) \<inter> set (cs @ ps) = {}"
        "B j = [] \<longleftrightarrow> pp_state (pending_pkts tx ! j) = GVE_PACKET_STATE_FREE" "set (B j) \<inter> set (B i) = {}" "\<forall>b \<in> set (B j). b < length (qpl_bufs tx)"
        using I(3) [OF j] I(4) j i(1) False unfolding owns_def buf_partition_def by blast+
      have "chain (qnext tx') h (B j) = chain (qnext tx) h (B j)" for h
        using t(4) oj(5,6) q(1) by (intro chain_cong) auto
      then show ?thesis using oj False pk(1) by (auto simp: owns_def pkt_bufs_def)
    qed
    have U: "buf_partition ?n (length (qpl_bufs tx)) ?B (set (cs @ B i @ ps))"
      using I(4) unfolding buf_partition_def UN_fun_upd(1) [OF i(1), where B = B and xs = "[]"] UN_fun_upd(2) [OF i(1), where B = B]
      by (simp add: Un_ac)
    have "pages_ok tx'" using I(6) q t(3) by (simp add: pages_ok_def te)
    then show "qbuf_inv tx' ?B cs (B i @ ps)" using L C O U I(2) pk(1) q(1) t(3) by (simp add: qbuf_inv_def)
  qed
qed


text \<open>The mbufs of the packets in flight.\<close>

definition inflight :: "gve_tx_ring_dqo \<Rightarrow> nat multiset" where
  "inflight tx = image_mset m_ptr (mset (List.map_filter pp_mbuf (pending_pkts tx)))"

lemma map_filter_append: "List.map_filter f (xs @ ys) = List.map_filter f xs @ List.map_filter f ys"
  by (simp add: List.map_filter_def)

lemma inflight_set:
  assumes "i < length ps"
  shows "mset (List.map_filter f (ps[i := p])) + (case f (ps ! i) of None \<Rightarrow> {#} | Some x \<Rightarrow> {#x#}) =
    mset (List.map_filter f ps) + (case f p of None \<Rightarrow> {#} | Some x \<Rightarrow> {#x#})"
proof -
  have "ps = take i ps @ ps ! i # drop (Suc i) ps" using assms by (simp add: id_take_nth_drop [symmetric])
  then have "mset (List.map_filter f ps) = mset (List.map_filter f (take i ps @ ps ! i # drop (Suc i) ps))" by simp
  moreover have "ps[i := p] = take i ps @ p # drop (Suc i) ps" using assms by (simp add: upd_conv_take_nth_drop)
  ultimately show ?thesis by (simp add: map_filter_append map_filter_simps split: option.splits)
qed

lemma handle_packet_completion:
  assumes inv: "dqo_inv k q tx"
  shows "\<exists>bytes tx' evs. gve_handle_packet_completion q ctag tx = Some (bytes, tx', evs) \<and> dqo_inv k q tx' \<and>
    compl_ring tx' = compl_ring tx \<and> compl_head tx' = compl_head tx \<and> compl_mask tx' = compl_mask tx \<and> cur_gen_bit tx' = cur_gen_bit tx \<and>
    stopped tx' = stopped tx \<and>
    (if unat ctag < length (pending_pkts tx) \<and> pp_state (pending_pkts tx ! unat ctag) = GVE_PACKET_STATE_PENDING_DATA_COMPL
     then \<exists>m. pp_mbuf (pending_pkts tx ! unat ctag) = Some m \<and> bytes = m_pkthdr_len m \<and> evs = [M_FREEM (m_ptr m)] \<and>
       inflight tx = add_mset (m_ptr m) (inflight tx') \<and> pp_state (pending_pkts tx' ! unat ctag) = GVE_PACKET_STATE_FREE \<and>
       (\<forall>j. j \<noteq> unat ctag \<longrightarrow> pending_pkts tx' ! j = pending_pkts tx ! j)
     else bytes = 0 \<and> evs = [] \<and> tx' = tx)"
proof -
  let ?i = "unat ctag" let ?p = "pending_pkts tx ! ?i"
  obtain pcs pps where I: "ring_ok k tx" "pend_inv q tx pcs pps" using inv by (auto simp: dqo_inv_def)
  have np: "ctag < num_pending_pkts tx \<longleftrightarrow> ?i < length (pending_pkts tx)" using I(2) by (simp add: pend_inv_def word_less_nat_alt)
  show ?thesis
  proof (cases "?i < length (pending_pkts tx) \<and> pp_state ?p = GVE_PACKET_STATE_PENDING_DATA_COMPL")
    case False
    then have "gve_handle_packet_completion q ctag tx = Some (0, tx, [])" using np by (auto simp: gve_handle_packet_completion_def Let_def)
    then show ?thesis using inv False by auto
  next
    case True
    then have i: "?i < length (pending_pkts tx)" and st: "pp_state ?p \<noteq> GVE_PACKET_STATE_FREE" by auto
    obtain m where m: "pp_mbuf ?p = Some m" using pend_inv_ok [OF I(2) i] st by (auto simp: pend_ok_def)
    obtain t where t: "(if q then gve_reap_qpl_bufs_dqo ?i tx else Some (gve_unmap_packet ?i tx)) = Some t"
      and s: "pending_pkts t = (pending_pkts tx)[?i := (if q then gve_clear_qpl_pending_pkt else (\<lambda>p. p\<lparr>dma_loaded := False\<rparr>)) ?p]"
        "num_pending_pkts t = num_pending_pkts tx" "free_pending_pkts_csm t = free_pending_pkts_csm tx" "free_pending_pkts_prd t = free_pending_pkts_prd tx"
        "compl_ring t = compl_ring tx \<and> compl_head t = compl_head tx \<and> compl_mask t = compl_mask tx \<and> cur_gen_bit t = cur_gen_bit tx \<and> stopped t = stopped tx"
        "desc_mask t = desc_mask tx" "desc_tail t = desc_tail tx" "dqo_desc_ring t = dqo_desc_ring tx"
      and Q: "\<And>tx' pkt. q \<Longrightarrow> pending_pkts tx' = (pending_pkts tx)[?i := pkt] \<Longrightarrow> qpl_buf_head pkt = -1 \<Longrightarrow> num_qpl_bufs pkt = 0 \<Longrightarrow>
        pp_state pkt = GVE_PACKET_STATE_FREE \<Longrightarrow> tx' = gve_free_pending_packet ?i (upd_pkt ?i (\<lambda>p. p\<lparr>pp_mbuf := None\<rparr>) t) \<Longrightarrow> \<exists>B cs ps. qbuf_inv tx' B cs ps"
    proof (cases q)
      case True
      obtain B cs ps where B: "qbuf_inv tx B cs ps" using inv True by (auto simp: dqo_inv_def)
      obtain t where g: "gve_reap_qpl_bufs_dqo ?i tx = Some t"
        and te: "t = upd_pkt ?i gve_clear_qpl_pending_pkt (tx\<lparr>qpl_bufs := (qpl_bufs tx)[last (B ?i) := free_qpl_bufs_prd tx],
          free_qpl_bufs_prd := int (hd (B ?i)), qpl_bufs_produced := qpl_bufs_produced tx + of_nat (length (B ?i))\<rparr>)"
        and G: "\<And>tx' :: gve_tx_ring_dqo. \<And>pkt. pending_pkts tx' = (pending_pkts tx)[?i := pkt] \<Longrightarrow> qpl_buf_head pkt = -1 \<Longrightarrow>
          num_qpl_bufs pkt = 0 \<Longrightarrow> pp_state pkt = GVE_PACKET_STATE_FREE \<Longrightarrow> qpl_bufs tx' = qpl_bufs t \<Longrightarrow> qpl_pages tx' = qpl_pages t \<Longrightarrow>
          free_qpl_bufs_csm tx' = free_qpl_bufs_csm t \<Longrightarrow> free_qpl_bufs_prd tx' = free_qpl_bufs_prd t \<Longrightarrow>
          qpl_bufs_produced tx' = qpl_bufs_produced t \<Longrightarrow> qpl_bufs_produced_cached tx' = qpl_bufs_produced_cached t \<Longrightarrow>
          qpl_bufs_consumed tx' = qpl_bufs_consumed t \<Longrightarrow> qbuf_inv tx' (B(?i := [])) cs (B ?i @ ps)"
        using qbuf_inv_give [OF B i st] by metis
      show ?thesis
      proof (rule that [of t])
        fix tx' :: gve_tx_ring_dqo and pkt
        assume "pending_pkts tx' = (pending_pkts tx)[?i := pkt]" "qpl_buf_head pkt = -1" "num_qpl_bufs pkt = 0"
          "pp_state pkt = GVE_PACKET_STATE_FREE" "tx' = gve_free_pending_packet ?i (upd_pkt ?i (\<lambda>p. p\<lparr>pp_mbuf := None\<rparr>) t)"
        then have "qbuf_inv tx' (B(?i := [])) cs (B ?i @ ps)" by (intro G) (auto simp: gve_free_pending_packet_def Let_def)
        then show "\<exists>B cs ps. qbuf_inv tx' B cs ps" by blast
      qed (simp_all add: True g te)
    next
      case False
      then show ?thesis by (intro that [of "gve_unmap_packet ?i tx"]) (auto simp: gve_unmap_packet_def)
    qed
    let ?u = "upd_pkt ?i (\<lambda>p. p\<lparr>pp_mbuf := None\<rparr>) t" let ?t' = "gve_free_pending_packet ?i ?u"
    have run: "gve_handle_packet_completion q ctag tx = Some (m_pkthdr_len m, ?t', [M_FREEM (m_ptr m)])"
      using True np t m by (simp add: gve_handle_packet_completion_def Let_def not_le)
    have pu: "pend_part q ?u pcs pps ?i"
      using i s by (intro pend_part_cong [OF pend_part_busy [OF I(2) i st], of ?u "pending_pkts ?u ! ?i"]) simp_all
    have P: "pend_inv q ?t' pcs (?i # pps)"
      by (rule pend_part_free [OF pu]) (use i s in \<open>auto simp: gve_clear_qpl_pending_pkt_def\<close>)
    define pk where "pk = pending_pkts ?t' ! ?i"
    have pk: "pending_pkts ?t' = (pending_pkts tx)[?i := pk]" "pp_state pk = GVE_PACKET_STATE_FREE" "pp_mbuf pk = None"
      "q \<longrightarrow> qpl_buf_head pk = -1 \<and> num_qpl_bufs pk = 0"
      using i s by (auto simp: pk_def gve_free_pending_packet_def Let_def gve_clear_qpl_pending_pkt_def)
    have "dqo_inv k q ?t'"
      using I(1) s P Q [of ?t' pk] pk unfolding dqo_inv_def by (auto simp: ring_ok_def gve_free_pending_packet_def Let_def)
    moreover have "inflight tx = add_mset (m_ptr m) (inflight ?t')"
      using inflight_set [OF i, of pp_mbuf pk, symmetric] m pk by (simp add: inflight_def)
    moreover have "compl_ring ?t' = compl_ring tx \<and> compl_head ?t' = compl_head tx \<and> compl_mask ?t' = compl_mask tx \<and> cur_gen_bit ?t' = cur_gen_bit tx \<and> stopped ?t' = stopped tx"
      using s(5) by (simp add: gve_free_pending_packet_def Let_def)
    ultimately show ?thesis using run True m i pk by (auto simp: nth_list_update)
  qed
qed


section \<open>The completion ring\<close>

lemma dqo_inv_cong:
  assumes "dqo_inv k q tx" "qbuf_view tx' = qbuf_view tx" "pend_view tx' = pend_view tx"
    "desc_mask tx' = desc_mask tx" "desc_tail tx' = desc_tail tx" "length (dqo_desc_ring tx') = length (dqo_desc_ring tx)"
  shows "dqo_inv k q tx'"
proof -
  obtain cs ps where P: "ring_ok k tx" "pend_inv q tx cs ps" using assms(1) unfolding dqo_inv_def by blast
  have "q \<longrightarrow> (\<exists>B cs ps. qbuf_inv tx' B cs ps)" using assms(1) qbuf_inv_cong [OF assms(2)] unfolding dqo_inv_def by blast
  moreover have "pend_inv q tx' cs ps" using P(2) pend_inv_cong [OF assms(3)] by blast
  moreover have "ring_ok k tx'" using P(1) assms(4-6) by (simp add: ring_ok_def)
  ultimately show ?thesis unfolding dqo_inv_def by blast
qed

definition compl_ok :: "gve_tx_ring_dqo \<Rightarrow> bool" where
  "compl_ok tx \<longleftrightarrow> (\<exists>k. ring_mask k (compl_mask tx) \<and> length (compl_ring tx) = 2 ^ k \<and> unat (compl_head tx) < 2 ^ k)"

definition compl_consumes :: "gve_tx_ring_dqo \<Rightarrow> gve_tx_ring_dqo \<Rightarrow> bool" where
  "compl_consumes tx tx' \<longleftrightarrow> compl_ok tx \<and> (\<exists>k q. dqo_inv k q tx \<and>
     (\<exists>b p evs. cleanup_dqo_one q (compl_ring tx ! unat (compl_head tx)) tx = Some (b, p, tx', evs)))"

lemma cleanup_one:
  assumes "dqo_inv k q tx"
  obtains b p tx' evs freed where "cleanup_dqo_one q cd tx = Some (b, p, tx', evs)" "dqo_inv k q tx'"
    "compl_ring tx' = compl_ring tx" "compl_mask tx' = compl_mask tx" "compl_head tx' = (compl_head tx + 1) AND compl_mask tx"
    "cur_gen_bit tx' = (cur_gen_bit tx \<noteq> (compl_head tx' = 0))" "stopped tx' = stopped tx"
    "evs = map M_FREEM freed" "inflight tx = inflight tx' + mset freed"
proof -
  let ?fin = "\<lambda>t. t\<lparr>compl_head := (compl_head t + 1) AND compl_mask t, cur_gen_bit := (cur_gen_bit t \<noteq> ((compl_head t + 1) AND compl_mask t = 0))\<rparr>"
  have fin: "dqo_inv k q (?fin t)" if "dqo_inv k q t" for t
    by (rule dqo_inv_cong [OF that]) (simp_all add: qbuf_view_def pend_view_def)
  consider (desc) "cd_type cd = GVE_COMPL_TYPE_DQO_DESC" | (pkt) "cd_type cd = GVE_COMPL_TYPE_DQO_PKT" "cd_type cd \<noteq> GVE_COMPL_TYPE_DQO_DESC"
    | (other) "cd_type cd \<noteq> GVE_COMPL_TYPE_DQO_DESC" "cd_type cd \<noteq> GVE_COMPL_TYPE_DQO_PKT" by blast
  then show ?thesis
  proof cases
    case desc
    let ?t = "tx\<lparr>hw_tx_head := ucast (cd_word1 cd)\<rparr>"
    have "dqo_inv k q ?t" by (rule dqo_inv_cong [OF assms]) (simp_all add: qbuf_view_def pend_view_def)
    then show ?thesis using desc fin [of ?t] by (intro that [of 0 0 "?fin ?t" "[]" "[]"]) (simp_all add: cleanup_dqo_one_def inflight_def Let_def)
  next
    case pkt
    obtain bytes t evs where h: "gve_handle_packet_completion q (cd_word1 cd) tx = Some (bytes, t, evs)" "dqo_inv k q t"
      "compl_ring t = compl_ring tx" "compl_head t = compl_head tx" "compl_mask t = compl_mask tx" "cur_gen_bit t = cur_gen_bit tx" "stopped t = stopped tx"
      and r: "if unat (cd_word1 cd) < length (pending_pkts tx) \<and> pp_state (pending_pkts tx ! unat (cd_word1 cd)) = GVE_PACKET_STATE_PENDING_DATA_COMPL
       then \<exists>m. pp_mbuf (pending_pkts tx ! unat (cd_word1 cd)) = Some m \<and> bytes = m_pkthdr_len m \<and> evs = [M_FREEM (m_ptr m)] \<and>
         inflight tx = add_mset (m_ptr m) (inflight t) \<and> pp_state (pending_pkts t ! unat (cd_word1 cd)) = GVE_PACKET_STATE_FREE \<and>
         (\<forall>j. j \<noteq> unat (cd_word1 cd) \<longrightarrow> pending_pkts t ! j = pending_pkts tx ! j)
       else bytes = 0 \<and> evs = [] \<and> t = tx"
      using handle_packet_completion [OF assms, of "cd_word1 cd"] by blast
    have f: "\<exists>freed. evs = map M_FREEM freed \<and> inflight tx = inflight t + mset freed"
    proof (cases "evs = []")
      case True
      then show ?thesis using r by (auto split: if_splits)
    next
      case False
      then obtain m :: mbuf where "evs = [M_FREEM (m_ptr m)]" "inflight tx = add_mset (m_ptr m) (inflight t)" using r False unfolding if_bool_eq_disj by blast
      then show ?thesis by (intro exI [of _ "[m_ptr m]"]) simp
    qed
    obtain freed where "evs = map M_FREEM freed" "inflight tx = inflight t + mset freed" using f by blast
    then show ?thesis using pkt h fin [of t]
      by (intro that [of bytes 1 "?fin t" evs freed]) (simp_all add: cleanup_dqo_one_def inflight_def Let_def)
  next
    case other
    then show ?thesis using assms fin [of tx] by (intro that [of 0 0 "?fin tx" "[]" "[]"]) (simp_all add: cleanup_dqo_one_def inflight_def Let_def)
  qed
qed

interpretation txc: gen_ring "\<lambda>tx i. gve_tx_get_gen_bit (compl_ring tx ! i)" "\<lambda>tx. unat (compl_head tx)"
  "\<lambda>tx. length (compl_ring tx)" cur_gen_bit compl_consumes
proof -
  have "unat (compl_head s) < length (compl_ring s) \<and> unat (compl_head s') = (unat (compl_head s) + 1) mod length (compl_ring s) \<and>
     cur_gen_bit s' = (cur_gen_bit s \<noteq> (unat (compl_head s') = 0)) \<and> compl_ring s' = compl_ring s" if c: "compl_consumes s s'" for s s'
  proof -
    obtain k kk q b p evs where k: "ring_mask k (compl_mask s)" "length (compl_ring s) = 2 ^ k" "unat (compl_head s) < 2 ^ k"
      and o: "dqo_inv kk q s" "cleanup_dqo_one q (compl_ring s ! unat (compl_head s)) s = Some (b, p, s', evs)"
      using c by (auto simp: compl_consumes_def compl_ok_def)
    have "compl_ring s' = compl_ring s" "compl_head s' = (compl_head s + 1) AND compl_mask s"
      "cur_gen_bit s' = (cur_gen_bit s \<noteq> (compl_head s' = 0))"
      using cleanup_one [OF o(1), of "compl_ring s ! unat (compl_head s)"] o(2) by (metis option.inject prod.inject)+
    then show ?thesis using k adv_one [OF k(1), of "compl_head s"] unfolding unat_eq_0 by simp
  qed
  then show "gen_ring (\<lambda>tx i. gve_tx_get_gen_bit (compl_ring tx ! i)) (\<lambda>tx. unat (compl_head tx)) (\<lambda>tx. length (compl_ring tx)) cur_gen_bit compl_consumes"
    by unfold_locales auto
qed


text \<open>The device has written exactly \<open>n\<close> completions beyond the head.\<close>

definition compl_written :: "gve_tx_ring_dqo \<Rightarrow> nat \<Rightarrow> bool" where
  "compl_written tx n \<longleftrightarrow>
     (let size = length (compl_ring tx); head = unat (compl_head tx);
          fresh = (\<lambda>j. gve_tx_get_gen_bit (compl_ring tx ! ((head + j) mod size)) \<noteq> (cur_gen_bit tx \<noteq> odd ((head + j) div size)))
      in head < size \<and> (\<forall>j < n. fresh j) \<and> \<not> fresh n)"

lemma compl_written_eq: "compl_written tx n = txc.written tx n"
  by (simp add: compl_written_def txc.written_def txc.gen_at_def Let_def)

lemma cleanup_loop:
  assumes "dqo_inv k q tx" and "compl_ok tx"
  shows "\<exists>work bytes pkts tx' freed. cleanup_dqo_loop q budget tx = Some (work, bytes, pkts, tx', map M_FREEM freed) \<and>
    dqo_inv k q tx' \<and> compl_ok tx' \<and> stopped tx' = stopped tx \<and> inflight tx = inflight tx' + mset freed \<and>
    (\<forall>n. txc.written tx n \<longrightarrow> work = min budget n \<and> txc.written tx' (n - work))"
  using assms
proof (induction budget arbitrary: tx)
  case 0
  then show ?case by (intro exI [of _ 0] exI [of _ tx] exI [of _ "[]"]) auto
next
  case (Suc budget)
  let ?cd = "compl_ring tx ! unat (compl_head tx)"
  show ?case
  proof (cases "gve_tx_get_gen_bit ?cd = cur_gen_bit tx")
    case True
    then have "0 = min (Suc budget) n \<and> txc.written tx (n - 0)" if "txc.written tx n" for n
      using that txc.written_Suc [of tx] by (cases n) auto
    moreover have "cleanup_dqo_loop q (Suc budget) tx = Some (0, 0, 0, tx, map M_FREEM [])" using True by (simp add: Let_def)
    moreover have "inflight tx = inflight tx + mset []" by simp
    ultimately show ?thesis using Suc.prems by blast
  next
    case False
    obtain b p t evs freed where o: "cleanup_dqo_one q ?cd tx = Some (b, p, t, evs)" "dqo_inv k q t"
      "compl_ring t = compl_ring tx" "compl_mask t = compl_mask tx" "compl_head t = (compl_head tx + 1) AND compl_mask tx"
      "stopped t = stopped tx" "evs = map M_FREEM freed" "inflight tx = inflight t + mset freed"
      by (rule cleanup_one [OF Suc.prems(1), of ?cd])
    have "compl_ok t" using Suc.prems(2) o(3-5) by (auto simp: compl_ok_def and_mask_bound)
    note IH = Suc.IH [OF o(2) this]
    have c: "compl_consumes tx t" using Suc.prems o(1) unfolding compl_consumes_def by blast
    obtain work bytes pkts tx' freed' where R: "cleanup_dqo_loop q budget t = Some (work, bytes, pkts, tx', map M_FREEM freed')"
      "dqo_inv k q tx'" "compl_ok tx'" "stopped tx' = stopped t" "inflight t = inflight tx' + mset freed'"
      "\<And>n. txc.written t n \<Longrightarrow> work = min budget n \<and> txc.written tx' (n - work)"
      using IH by blast
    have "cleanup_dqo_loop q (Suc budget) tx = Some (work + 1, b + bytes, p + pkts, tx', map M_FREEM (freed @ freed'))"
      using False o(1,7) R(1) by (simp add: Let_def)
    moreover have "work + 1 = min (Suc budget) n \<and> txc.written tx' (n - (work + 1))" if w: "txc.written tx n" for n
    proof (cases n)
      case 0
      then show ?thesis using w txc.written_0 [of tx] False by auto
    next
      case (Suc n')
      then show ?thesis using R(6) [OF txc.written_step [OF c w [unfolded Suc]]] by auto
    qed
    moreover have "inflight tx = inflight tx' + mset (freed @ freed')" using o(8) R(5) by simp
    ultimately show ?thesis using R o(6) by blast
  qed
qed

lemma cleanup_ok:
  assumes "dqo_inv k q tx" and "compl_ok tx"
  shows "\<exists>more tx' evs freed. gve_tx_cleanup_dqo q budget tx = Some (more, tx', map M_FREEM freed @ evs) \<and>
    dqo_inv k q tx' \<and> compl_ok tx' \<and> inflight tx = inflight tx' + mset freed \<and> set evs \<subseteq> {TASKQUEUE_ENQUEUE TX_XMIT} \<and>
    (\<forall>n. compl_written tx n \<longrightarrow> more = (budget \<le> n) \<and> compl_written tx' (n - budget) \<and>
       evs = (if stopped tx \<and> 0 < n \<and> 0 < budget then [TASKQUEUE_ENQUEUE TX_XMIT] else []) \<and>
       (stopped tx' \<longleftrightarrow> stopped tx \<and> \<not> (0 < n \<and> 0 < budget)))"
proof -
  obtain work bytes pkts t freed where L: "cleanup_dqo_loop q budget tx = Some (work, bytes, pkts, t, map M_FREEM freed)"
    "dqo_inv k q t" "compl_ok t" "stopped t = stopped tx" "inflight tx = inflight t + mset freed"
    "\<And>n. txc.written tx n \<Longrightarrow> work = min budget n \<and> txc.written t (n - work)"
    using cleanup_loop [OF assms, of budget] by blast
  let ?rs = "stopped t \<and> work \<noteq> 0"
  define t' where "t' = (let u = (if ?rs then t\<lparr>stopped := False\<rparr> else t)
    in count_tx (\<lambda>st. st\<lparr>tbytes := tbytes st + of_nat bytes, tpackets := tpackets st + of_nat pkts\<rparr>) (u\<lparr>tx_done := tx_done u + of_nat work\<rparr>))"
  define ev where "ev = (if ?rs then [TASKQUEUE_ENQUEUE TX_XMIT] else [])"
  have s: "qbuf_view t' = qbuf_view t" "pend_view t' = pend_view t" "desc_mask t' = desc_mask t" "desc_tail t' = desc_tail t"
    "dqo_desc_ring t' = dqo_desc_ring t" "compl_ring t' = compl_ring t" "compl_mask t' = compl_mask t" "compl_head t' = compl_head t"
    "cur_gen_bit t' = cur_gen_bit t" "inflight t' = inflight t" "stopped t' = (stopped t \<and> \<not> ?rs)"
    by (simp_all add: qbuf_view_def pend_view_def inflight_def t'_def Let_def)
  have run: "gve_tx_cleanup_dqo q budget tx = Some (work = budget, t', map M_FREEM freed @ ev)"
    using L(1) by (simp add: gve_tx_cleanup_dqo_def Let_def t'_def ev_def)
  have w: "txc.written t' m = txc.written t m" for m by (simp only: txc.written_def txc.gen_at_def s)
  have "dqo_inv k q t'" by (rule dqo_inv_cong [OF L(2)]) (simp_all only: s)
  moreover have "compl_ok t'" using L(3) by (simp only: compl_ok_def s)
  moreover have "(work = budget) = (budget \<le> n) \<and> txc.written t' (n - budget) \<and>
      ev = (if stopped tx \<and> 0 < n \<and> 0 < budget then [TASKQUEUE_ENQUEUE TX_XMIT] else []) \<and>
      (stopped t' \<longleftrightarrow> stopped tx \<and> \<not> (0 < n \<and> 0 < budget))" if n: "txc.written tx n" for n
    using L(6) [OF n] L(4) unfolding w s ev_def by (auto simp: min_def split: if_splits)
  moreover have "inflight tx = inflight t' + mset freed" using L(5) s(10) by simp
  moreover have "set ev \<subseteq> {TASKQUEUE_ENQUEUE TX_XMIT}" by (auto simp: ev_def)
  ultimately show ?thesis using run unfolding compl_written_eq by blast
qed

text \<open>
  C6. The DQO completion handler (\<open>gve_tx_cleanup_dqo\<close>), from a consistent ring: no assertion fails,
  whatever the completions hold; the ring stays consistent; exactly the mbufs of the packets that
  leave the ring are freed, each once; and when the device has written \<open>n\<close> completions, it handles
  \<open>n\<close> of them or its budget, whichever is less, and asks to run again only when the budget was
  used up. A stopped queue is restarted when any completion was handled.
\<close>

theorem gve_tx_cleanup_dqo_correct:
  assumes "dqo_inv k q tx" and "compl_ok tx"
  shows "\<exists>more tx' evs freed. gve_tx_cleanup_dqo q budget tx = Some (more, tx', map M_FREEM freed @ evs) \<and>
    dqo_inv k q tx' \<and> compl_ok tx' \<and> inflight tx = inflight tx' + mset freed \<and> set evs \<subseteq> {TASKQUEUE_ENQUEUE TX_XMIT} \<and>
    (\<forall>n. compl_written tx n \<longrightarrow> more = (budget \<le> n) \<and> compl_written tx' (n - budget) \<and>
       evs = (if stopped tx \<and> 0 < n \<and> 0 < budget then [TASKQUEUE_ENQUEUE TX_XMIT] else []) \<and>
       (stopped tx' \<longleftrightarrow> stopped tx \<and> \<not> (0 < n \<and> 0 < budget)))"
  using assms by (rule cleanup_ok)


lemma ex_dqo_compl: "compl_ok (ex_dqo q)" "compl_written (ex_dqo q) 0"
proof -
  have "ring_mask 2 (3 :: u32)" by (simp add: ring_mask_def mask_eq_decr_exp)
  then show "compl_ok (ex_dqo q)" unfolding compl_ok_def ex_dqo_sel by (intro exI [of _ 2]) simp
  show "compl_written (ex_dqo q) 0"
    unfolding compl_written_def Let_def ex_dqo_sel by (simp add: gve_tx_get_gen_bit_def zero_compl_desc_def)
qed

theorem gve_tx_cleanup_dqo_correct_witness:
  "\<exists>tx' freed. gve_tx_cleanup_dqo True 8 (ex_dqo True) = Some (False, tx', map M_FREEM freed) \<and> dqo_inv 2 True tx' \<and>
     inflight (ex_dqo True) = inflight tx' + mset freed \<and> compl_written tx' 0 \<and> \<not> stopped tx'"
  using gve_tx_cleanup_dqo_correct [OF ex_dqo_inv [of True] ex_dqo_compl(1) [of True], of 8] ex_dqo_compl(2) [of True]
  by (force simp: ex_dqo_sel)

end
