(* ===== verification/Gve_Tx_Dqo_Run.thy ===== *)
theory Gve_Tx_Dqo_Run
  imports Gve_Tx_Dqo_Compl
begin

text \<open>
  Raw-addressing transmission on a DQO ring, and runs of a queue: sequences of transmissions,
  completions written by the device and completion tasks, which refine the multiset of packets in
  flight.
\<close>


section \<open>Mapping a chain\<close>

text \<open>The variants that mapping may end with: the packet itself, collapsed or defragmented.\<close>

definition variants :: "map_env \<Rightarrow> mbuf \<Rightarrow> mbuf set" where
  "variants env m = insert m (set_option (me_collapse env m) \<union> set_option (me_defrag env m))"

text \<open>
  What \<open>bus_dma\<close> promises for the tag of a packet: at least one segment, none empty and none longer
  than the tag's segment size \<open>GVE_TX_MAX_BUF_SIZE_DQO\<close>.
\<close>

definition dma_tag_ok :: "map_env \<Rightarrow> bool" where
  "dma_tag_ok env \<longleftrightarrow> (\<forall>m segs. me_load env m = Inr segs \<longrightarrow> segs \<noteq> [] \<and> (\<forall>(a, l) \<in> set segs. 0 < l \<and> l \<le> GVE_TX_MAX_BUF_SIZE_DQO))"

lemma map_retry:
  assumes "gve_map_mbuf_dqo env i (Suc a) c tx = (r, mp, tx', evs)"
  shows "evs = [] \<and> mp = Some c \<and> (case r of
      Inr segs \<Rightarrow> me_load env c = Inr segs \<and> tx' = upd_pkt i (\<lambda>p. p\<lparr>dma_loaded := True\<rparr>) tx
    | Inl _ \<Rightarrow> \<exists>st. tx' = tx\<lparr>tx_stats := st\<rparr>)"
  using assms by (subst (asm) gve_map_mbuf_dqo.simps) (auto simp: map_abort_def map_enomem_def count_tx_def split: sum.splits if_splits)

lemma map_mbuf:
  assumes "gve_map_mbuf_dqo env i 0 m tx = (r, mp, tx', evs)"
  shows "case r of
      Inr segs \<Rightarrow> (\<exists>c st. c \<in> variants env m \<and> mp = Some c \<and> evs = [] \<and> me_load env c = Inr segs \<and>
        tx' = upd_pkt i (\<lambda>p. p\<lparr>dma_loaded := True\<rparr>) (tx\<lparr>tx_stats := st\<rparr>))
    | Inl e \<Rightarrow> (\<exists>st. tx' = tx\<lparr>tx_stats := st\<rparr>) \<and>
        (mp = None \<and> evs = [M_FREEM (m_ptr m)] \<or> (\<exists>c. c \<in> variants env m \<and> mp = Some c \<and> evs = []))"
proof (cases "me_load env m")
  case (Inr segs)
  then have "r = Inr segs \<and> mp = Some m \<and> evs = [] \<and> tx' = upd_pkt i (\<lambda>p. p\<lparr>dma_loaded := True\<rparr>) tx"
    using assms by (subst (asm) gve_map_mbuf_dqo.simps) auto
  then show ?thesis using Inr by (auto simp: variants_def intro!: exI [of _ "tx_stats tx"])
next
  case (Inl e)
  show ?thesis
  proof (cases "e = EFBIG")
    case False
    then have "r = Inl e \<and> mp = Some m \<and> evs = [] \<and> (\<exists>st. tx' = tx\<lparr>tx_stats := st\<rparr>)" using assms Inl
      by (subst (asm) gve_map_mbuf_dqo.simps) (auto simp: map_abort_def map_enomem_def count_tx_def split: if_splits)
    then show ?thesis by (auto simp: variants_def)
  next
    case True
    define t1 where "t1 = count_tx (\<lambda>st. st\<lparr>tx_mbuf_collapse := tx_mbuf_collapse st + 1\<rparr>) tx"
    define new where "new = (case me_collapse env m of Some m' \<Rightarrow> (Some m', t1)
      | None \<Rightarrow> (me_defrag env m, count_tx (\<lambda>st. st\<lparr>tx_mbuf_defrag := tx_mbuf_defrag st + 1\<rparr>) t1))"
    obtain c t2 where n: "new = (c, t2)" by fastforce
    obtain st2 where t2: "t2 = tx\<lparr>tx_stats := st2\<rparr>" using n by (auto simp: new_def t1_def count_tx_def split: option.splits)
    have run: "gve_map_mbuf_dqo env i 0 m tx = (case c of
        None \<Rightarrow> (Inl ENOMEM, None, map_abort (count_tx (\<lambda>st. st\<lparr>tx_mbuf_defrag_err := tx_mbuf_defrag_err st + 1\<rparr>) t2), [M_FREEM (m_ptr m)])
      | Some m' \<Rightarrow> gve_map_mbuf_dqo env i (Suc 0) m' t2)"
      using Inl True n unfolding new_def t1_def by (subst gve_map_mbuf_dqo.simps) (simp add: Let_def split: option.splits)
    show ?thesis
    proof (cases c)
      case None
      then show ?thesis using assms run by (auto simp: t2 map_abort_def count_tx_def)
    next
      case (Some m')
      have "m' \<in> variants env m" using n Some by (auto simp: new_def variants_def split: option.splits)
      then show ?thesis using map_retry [of env i 0 m' t2 r mp tx' evs] assms run Some t2 by (auto split: sum.splits)
    qed
  qed
qed

section \<open>Raw addressing: transmission\<close>

fun rdescs :: "u16 \<Rightarrow> bool \<Rightarrow> (u64 \<times> nat) list \<Rightarrow> gve_tx_desc_dqo list" where
  "rdescs ctag csum [] = []"
| "rdescs ctag csum ((addr, len) # segs) =
     TXD_PKT \<lparr>buf_addr = addr, end_of_packet = (segs = []), checksum_offload_enable = csum, report_event = False,
       compl_tag = ctag, buf_size = len\<rparr> # rdescs ctag csum segs"

lemma length_rdescs [simp]: "length (rdescs ctag csum segs) = length segs"
  by (induction segs) auto

lemma fill_segs_put:
  assumes "\<forall>(a, l) \<in> set segs. 0 < l \<and> l \<le> GVE_TX_MAX_BUF_SIZE_DQO"
  shows "fill_segs segs ctag csum idx tx =
    (tx\<lparr>dqo_desc_ring := put_descs (desc_mask tx) idx (rdescs ctag csum segs) (dqo_desc_ring tx)\<rparr>, adv (desc_mask tx) (length segs) idx)"
  using assms
proof (induction segs arbitrary: idx tx)
  case (Cons s segs)
  obtain a l where s: "s = (a, l)" by fastforce
  show ?case using Cons by (auto simp: s fill_pkt_desc_one Let_def)
qed simp

definition sent_rda :: "mbuf \<Rightarrow> nat \<Rightarrow> (u64 \<times> nat) list \<Rightarrow> gve_tx_desc_dqo list \<Rightarrow> bool \<Rightarrow> gve_tx_ring_dqo \<Rightarrow> gve_tx_ring_dqo \<Rightarrow> bool" where
  "sent_rda m i segs ds csum tx tx' \<longleftrightarrow>
     i < length (pending_pkts tx) \<and> pp_state (pending_pkts tx ! i) = GVE_PACKET_STATE_FREE \<and>
     (\<exists>re. let all = ds @ mark_last re (rdescs (of_nat i) csum segs)
       in length all \<le> unat (num_avail_desc_ring_slots tx) \<and>
          dqo_desc_ring tx' = put_descs (desc_mask tx) (desc_tail tx) all (dqo_desc_ring tx) \<and>
          desc_tail tx' = adv (desc_mask tx) (length all) (desc_tail tx)) \<and>
     pp_mbuf (pending_pkts tx' ! i) = Some m \<and> dma_loaded (pending_pkts tx' ! i) \<and>
     length (pending_pkts tx') = length (pending_pkts tx) \<and> compl_view tx' = compl_view tx \<and>
     (\<forall>j. j \<noteq> i \<longrightarrow> pending_pkts tx' ! j = pending_pkts tx ! j)"


text \<open>The last part of \<open>gve_xmit_dqo\<close>: \<open>t5\<close> is the ring after the context descriptors \<open>ds\<close>.\<close>

lemma send_rda:
  assumes r: "ring_ok k tx" and P: "pend_part False t5 pcs pps i"
    and i: "i < length (pending_pkts tx)" "pp_state (pending_pkts tx ! i) = GVE_PACKET_STATE_FREE"
    and t5: "t5 = tx\<lparr>tx_stats := st, free_pending_pkts_csm := c0, free_pending_pkts_prd := p0,
        dqo_desc_ring := put_descs (desc_mask tx) (desc_tail tx) ds (dqo_desc_ring tx),
        pending_pkts := (pending_pkts tx)[i := (taken_pkt now (pending_pkts tx ! i))\<lparr>dma_loaded := True, pp_mbuf := Some m\<rparr>]\<rparr>"
    and sg: "segs \<noteq> []" "\<forall>(a, l) \<in> set segs. 0 < l \<and> l \<le> GVE_TX_MAX_BUF_SIZE_DQO"
    and av: "length ds + length segs \<le> unat (num_avail_desc_ring_slots tx)"
  shows "\<exists>t6 idx. fill_segs segs (of_nat i) csum (adv (desc_mask tx) (length ds) (desc_tail tx)) t5 = (t6, idx) \<and>
    (let t7 = gve_tx_request_desc_compl idx (t6\<lparr>desc_tail := idx\<rparr>); t8 = t7\<lparr>tx_req := tx_req t7 + n\<rparr>
     in dqo_inv k False t8 \<and> sent_rda m i segs ds csum tx t8)"
proof -
  let ?q = "rdescs (of_nat i) csum segs" let ?all = "ds @ ?q" let ?i' = "adv (desc_mask tx) (length ?all) (desc_tail tx)"
  let ?t6 = "t5\<lparr>dqo_desc_ring := put_descs (desc_mask tx) (desc_tail tx) ?all (dqo_desc_ring tx)\<rparr>"
  have run: "fill_segs segs (of_nat i) csum (adv (desc_mask tx) (length ds) (desc_tail tx)) t5 = (?t6, ?i')"
    by (simp add: fill_segs_put [OF sg(2)] t5 adv_add put_descs_append)
  have qn: "?q \<noteq> []" using sg(1) length_rdescs [of "of_nat i" csum segs] by (metis length_0_conv)
  have rk: "ring_mask k (desc_mask tx)" "unat (desc_tail tx) < 2 ^ k" "length (dqo_desc_ring tx) = 2 ^ k" using r by (auto simp: ring_ok_def)
  let ?u = "?t6\<lparr>desc_tail := ?i'\<rparr>"
  have m5: "desc_mask ?u = desc_mask tx" by (simp add: t5)
  have pr: "ring_mask k (desc_mask ?u)" "?all \<noteq> []"
    "dqo_desc_ring ?u = put_descs (desc_mask ?u) (desc_tail tx) ?all (dqo_desc_ring tx)"
    unfolding m5 using rk(1) qn by simp_all
  obtain r' ds' where rc: "gve_tx_request_desc_compl ?i' ?u = ?u\<lparr>dqo_desc_ring := put_descs (desc_mask tx) (desc_tail tx) ds' (dqo_desc_ring tx), last_re_idx := r'\<rparr>"
    and ds': "ds' = ?all \<or> ds' = butlast ?all @ [set_report_event (last ?all)]"
    by (rule request_compl [OF pr(1) rk(2,3) pr(2,3), unfolded m5])
  obtain re where re: "ds' = ds @ mark_last re ?q"
    using ds' qn by (cases "ds' = ?all") (auto simp: mark_last_def butlast_append intro: that [of True] that [of False])
  have lm: "length (mark_last re ?q) = length segs" using sg(1) qn by (auto simp: mark_last_def)
  define t8 where "t8 = (let t7 = gve_tx_request_desc_compl ?i' ?u in t7\<lparr>tx_req := tx_req t7 + n\<rparr>)"
  have s: "pending_pkts t8 = (pending_pkts tx)[i := (taken_pkt now (pending_pkts tx ! i))\<lparr>dma_loaded := True, pp_mbuf := Some m\<rparr>]"
    "num_pending_pkts t8 = num_pending_pkts tx" "free_pending_pkts_csm t8 = c0" "free_pending_pkts_prd t8 = p0"
    "desc_mask t8 = desc_mask tx" "desc_tail t8 = ?i'" "dqo_desc_ring t8 = put_descs (desc_mask tx) (desc_tail tx) ds' (dqo_desc_ring tx)"
    "compl_view t8 = compl_view tx" unfolding t8_def rc Let_def by (simp_all add: t5 compl_view_def)
  have "pend_part False t8 pcs pps i"
    using i(1) by (intro pend_part_cong [OF P, of t8 "pending_pkts t8 ! i"]) (simp_all add: s t5)
  then have "pend_inv False t8 pcs pps"
    by (rule pend_part_close) (use i(1) in \<open>simp_all add: s pend_ok_def taken_pkt_def\<close>)
  moreover have "ring_ok k t8" using rk unat_adv [OF rk(1,2)] by (simp add: ring_ok_def s)
  ultimately have "dqo_inv k False t8" by (intro dqo_invI) auto
  moreover have "sent_rda m i segs ds csum tx t8"
    using i av lm re by (auto simp: sent_rda_def s Let_def taken_pkt_def intro!: exI [of _ re])
  ultimately show ?thesis using run unfolding t8_def Let_def by blast
qed

lemma abort_rda:
  assumes P: "pend_part False t2 pcs pps i" and R: "ring_ok k tx"
    and t2: "t2 = tx\<lparr>free_pending_pkts_csm := c, free_pending_pkts_prd := p,
       pending_pkts := (pending_pkts tx)[i := taken_pkt now (pending_pkts tx ! i)]\<rparr>"
    and t: "pending_pkts t = (pending_pkts tx)[i := p']" "p'\<lparr>dma_loaded := False\<rparr> = (taken_pkt now (pending_pkts tx ! i))\<lparr>dma_loaded := False, pp_mbuf := None\<rparr>"
      "\<not> dma_loaded p'"
    and i: "i < length (pending_pkts tx)" "pend_ok False (pending_pkts tx ! i)" "pp_state (pending_pkts tx ! i) = GVE_PACKET_STATE_FREE"
    and e: "desc_mask t = desc_mask tx" "desc_tail t = desc_tail tx" "dqo_desc_ring t = dqo_desc_ring tx" "tx_req t = tx_req tx"
      "qpl_pages t = qpl_pages tx" "num_pending_pkts t = num_pending_pkts tx" "free_pending_pkts_csm t = c" "free_pending_pkts_prd t = p"
      "compl_view t = compl_view tx"
  shows "dqo_inv k False (gve_free_pending_packet i t) \<and> tx_kept tx (gve_free_pending_packet i t)"
proof -
  have nd: "\<not> dma_loaded (pending_pkts tx ! i)" using i by (auto simp: pend_ok_def)
  have "p' = (pending_pkts tx ! i)\<lparr>pp_state := GVE_PACKET_STATE_PENDING_DATA_COMPL, pp_time := now, pp_mbuf := None\<rparr>"
    using nd t(2,3) by (cases "pending_pkts tx ! i"; cases p') (simp add: taken_pkt_def)
  then have t': "pending_pkts t = (pending_pkts tx)[i := (pending_pkts tx ! i)\<lparr>pp_state := GVE_PACKET_STATE_PENDING_DATA_COMPL, pp_time := now, pp_mbuf := None\<rparr>]"
    using t(1) by simp
  have pt: "pend_part False t pcs pps i"
    using t(1) e i(1) by (intro pend_part_cong [OF P, of t p']) (simp_all add: t2)
  note X = xmit_abort [OF pt refl t' i]
  have z: "desc_mask (gve_free_pending_packet i t) = desc_mask tx" "desc_tail (gve_free_pending_packet i t) = desc_tail tx"
    "dqo_desc_ring (gve_free_pending_packet i t) = dqo_desc_ring tx" "tx_req (gve_free_pending_packet i t) = tx_req tx"
    "qpl_pages (gve_free_pending_packet i t) = qpl_pages tx" "compl_view (gve_free_pending_packet i t) = compl_view tx"
    using e by (simp_all add: gve_free_pending_packet_def Let_def compl_view_def)
  have "dqo_inv k False (gve_free_pending_packet i t)" using R X(1) by (intro dqo_invI) (auto simp: ring_ok_def z)
  moreover have "tx_kept tx (gve_free_pending_packet i t)" using X(2,3) by (simp add: tx_kept_def z)
  ultimately show ?thesis by blast
qed

text \<open>The part of \<open>gve_xmit_dqo\<close> after a pending packet \<open>i\<close> has been taken.\<close>

lemma xmit_rda_taken:
  fixes env menv m tso tail csum i t2
  defines "abort \<equiv> \<lambda>t. gve_free_pending_packet i (upd_pkt i (\<lambda>p. p\<lparr>pp_mbuf := None\<rparr>) (gve_unmap_packet i t))"
  assumes R: "ring_ok k tx" and P: "pend_inv False tx cs ps" and dma: "dma_tag_ok menv" and te: "\<forall>c \<in> variants menv m. te_m_len env \<le> m_pkthdr_len c"
    and a: "gve_alloc_pending_packet now tx = (Some i, t2)"
    and run: "(case gve_map_mbuf_dqo menv i 0 m t2 of
        (Inl e, m_ptr', tx3, evs) \<Rightarrow> (Some e, m_ptr', gve_free_pending_packet i (upd_pkt i (\<lambda>p. p\<lparr>pp_mbuf := None\<rparr>) tx3), evs)
      | (Inr segs, m_ptr', tx3, evs) \<Rightarrow>
          let (room2, tx4) = gve_tx_has_desc_room_dqo (1 + length segs + (if tso then 1 else 0)) (upd_pkt i (\<lambda>p. p\<lparr>pp_mbuf := Some (the m_ptr')\<rparr>) tx3)
          in if \<not> room2 then (Some ENOBUFS, Some (the m_ptr'), abort tx4, evs)
             else case gve_tx_fill_ctx_descs env (the m_ptr') tso (desc_tail tx) tx4 of
               (Some e, _, _, tx5) \<Rightarrow> (Some e, Some (the m_ptr'), abort tx5, evs)
             | (None, m2, desc_idx, tx5) \<Rightarrow>
                 let (tx6, desc_idx') = fill_segs segs (of_nat i) csum desc_idx (upd_pkt i (\<lambda>p. p\<lparr>pp_mbuf := Some m2\<rparr>) tx5);
                     tx7 = gve_tx_request_desc_compl desc_idx' (tx6\<lparr>desc_tail := desc_idx'\<rparr>)
                 in (None, Some m2, tx7\<lparr>tx_req := tx_req tx7 + of_nat (1 + length segs + (if tso then 1 else 0))\<rparr>, evs)) = (e, mp, tx', evs)"
  shows "dqo_inv k False tx' \<and>
    (case e of
       Some _ \<Rightarrow> tx_kept tx tx' \<and> (mp = None \<and> evs = [M_FREEM (m_ptr m)] \<or> (\<exists>c \<in> variants menv m. mp = Some c \<and> evs = []))
     | None \<Rightarrow> evs = [] \<and> (\<exists>c \<in> variants menv m. \<exists>i m' segs ds. mp = Some m' \<and> m_ptr m' = m_ptr c \<and> me_load menv c = Inr segs \<and>
         length ds = (if tso then 2 else 1) \<and> sent_rda m' i segs ds csum tx tx'))"
proof -
  obtain pcs pps c p where A: "pend_part False t2 pcs pps i" "pp_state (pending_pkts tx ! i) = GVE_PACKET_STATE_FREE" "i < length (pending_pkts tx)"
    and t2: "t2 = tx\<lparr>free_pending_pkts_csm := c, free_pending_pkts_prd := p,
       pending_pkts := (pending_pkts tx)[i := taken_pkt now (pending_pkts tx ! i)]\<rparr>"
    by (rule pend_part_alloc [OF a P])
  note ok = pend_inv_ok [OF P A(3)]
  have nd: "\<not> dma_loaded (pending_pkts tx ! i)" using ok A(2) by (auto simp: pend_ok_def)
  note ab = abort_rda [OF A(1) R t2 _ _ _ A(3) ok A(2)]
  obtain r mp1 t3 ev where mm: "gve_map_mbuf_dqo menv i 0 m t2 = (r, mp1, t3, ev)" by (metis prod_cases4)
  note M = map_mbuf [OF mm]
  show ?thesis
  proof (cases r)
    case (Inl er)
    obtain st where t3: "t3 = t2\<lparr>tx_stats := st\<rparr>" using M Inl by auto
    let ?u = "upd_pkt i (\<lambda>p. p\<lparr>pp_mbuf := None\<rparr>) t3"
    have "dqo_inv k False (gve_free_pending_packet i ?u) \<and> tx_kept tx (gve_free_pending_packet i ?u)"
      by (rule ab [of ?u "(taken_pkt now (pending_pkts tx ! i))\<lparr>pp_mbuf := None\<rparr>"]) (use A(3) nd in \<open>simp_all add: t3 t2 taken_pkt_def compl_view_def\<close>)
    then show ?thesis using run M Inl mm by auto
  next
    case (Inr segs)
    obtain v st where v: "v \<in> variants menv m" "mp1 = Some v" "ev = []" "me_load menv v = Inr segs"
      and t3: "t3 = upd_pkt i (\<lambda>p. p\<lparr>dma_loaded := True\<rparr>) (t2\<lparr>tx_stats := st\<rparr>)" using M Inr by auto
    have sg: "segs \<noteq> []" "\<forall>(a, l) \<in> set segs. 0 < l \<and> l \<le> GVE_TX_MAX_BUF_SIZE_DQO" using dma v(4) unfolding dma_tag_ok_def by blast+
    let ?n = "1 + length segs + (if tso then 1 else 0)" let ?u = "upd_pkt i (\<lambda>p. p\<lparr>pp_mbuf := Some v\<rparr>) t3"
    obtain room2 t4 where r2: "gve_tx_has_desc_room_dqo ?n ?u = (room2, t4)" by fastforce
    obtain h st4 where t4: "t4 = ?u\<lparr>tx_stats := st4, desc_head := h\<rparr>" and rm: "room2 \<longrightarrow> h = desc_head ?u \<and> st4 = tx_stats ?u \<and> ?n \<le> unat (num_avail_desc_ring_slots ?u)"
      by (rule has_desc_room [OF r2])
    have kept: "dqo_inv k False (abort (t4\<lparr>tx_stats := s\<rparr>)) \<and> tx_kept tx (abort (t4\<lparr>tx_stats := s\<rparr>))" for s
      unfolding abort_def
      by (rule ab [of _ "(taken_pkt now (pending_pkts tx ! i))\<lparr>dma_loaded := False, pp_mbuf := None\<rparr>"])
        (use A(3) in \<open>simp_all add: t4 t3 t2 gve_unmap_packet_def compl_view_def\<close>)
    obtain er m2 idx t5 where f: "gve_tx_fill_ctx_descs env v tso (desc_tail tx) t4 = (er, m2, idx, t5)" by (metis prod_cases4)
    have tev: "te_m_len env \<le> m_pkthdr_len v" using te v(1) by blast
    consider (full) "\<not> room2" | (err) x where "room2" "er = Some x" | (ok) "room2" "er = None" by (cases er) auto
    then show ?thesis
    proof cases
      case full
      then have "e = Some ENOBUFS" "mp = Some v" "tx' = abort t4" "evs = []" using run mm Inr v r2 by auto
      then show ?thesis using kept [of "tx_stats t4"] v(1) by auto
    next
      case err
      obtain s where "t5 = t4\<lparr>tx_stats := s\<rparr>" using fill_ctx_descs [OF f tev] err by auto
      moreover have "e = Some x" "mp = Some v" "tx' = abort t5" "evs = []" using run mm Inr v r2 f err by auto
      ultimately show ?thesis using kept [of s] v(1) by auto
    next
      case ok
      obtain ds s where F: "length ds = (if tso then 2 else 1)" "idx = adv (desc_mask t4) (length ds) (desc_tail tx)"
        "t5 = t4\<lparr>tx_stats := s, dqo_desc_ring := put_descs (desc_mask t4) (desc_tail tx) ds (dqo_desc_ring t4)\<rparr>"
        "m_pkthdr_len m2 = m_pkthdr_len v" "m_ptr m2 = m_ptr v" "\<not> tso \<longrightarrow> m2 = v"
        by (rule fill_ctx_descs_ok [OF f [unfolded ok(2)] tev])
      let ?t5 = "upd_pkt i (\<lambda>p. p\<lparr>pp_mbuf := Some m2\<rparr>) t5"
      have i4: "idx = adv (desc_mask tx) (length ds) (desc_tail tx)" using F(2) by (simp add: t4 t3 t2)
      have P5: "pend_part False ?t5 pcs pps i"
        using A(3) by (intro pend_part_cong [OF A(1), of ?t5 "pending_pkts ?t5 ! i"]) (simp_all add: F(3) t4 t3 t2)
      have t5: "?t5 = tx\<lparr>tx_stats := s, free_pending_pkts_csm := c, free_pending_pkts_prd := p,
        dqo_desc_ring := put_descs (desc_mask tx) (desc_tail tx) ds (dqo_desc_ring tx),
        pending_pkts := (pending_pkts tx)[i := (taken_pkt now (pending_pkts tx ! i))\<lparr>dma_loaded := True, pp_mbuf := Some m2\<rparr>]\<rparr>"
        using A(3) rm ok(1) by (simp add: upd_pkt_def F(3) t4 t3 t2)
      have "num_avail_desc_ring_slots ?u = num_avail_desc_ring_slots tx" by (simp add: num_avail_desc_ring_slots_def t3 t2)
      then have av: "length ds + length segs \<le> unat (num_avail_desc_ring_slots tx)" using rm ok(1) F(1) by (auto split: if_splits)
      obtain t6 idx' where S: "fill_segs segs (of_nat i) csum idx ?t5 = (t6, idx')"
        "let t7 = gve_tx_request_desc_compl idx' (t6\<lparr>desc_tail := idx'\<rparr>); t8 = t7\<lparr>tx_req := tx_req t7 + of_nat ?n\<rparr>
         in dqo_inv k False t8 \<and> sent_rda m2 i segs ds csum tx t8"
        using send_rda [OF R P5 A(3,2) t5 sg av, where csum = csum and n = "of_nat ?n"] unfolding i4 by blast
      define t8 where "t8 = (let t7 = gve_tx_request_desc_compl idx' (t6\<lparr>desc_tail := idx'\<rparr>) in t7\<lparr>tx_req := tx_req t7 + of_nat ?n\<rparr>)"
      have "e = None" "mp = Some m2" "evs = []" "tx' = t8"
        using run ok unfolding mm Inr prod.case sum.case v(2) option.sel r2 Let_def f ok(2) option.case S(1) t8_def by (auto simp: v(3))
      moreover have D: "dqo_inv k False t8" "sent_rda m2 i segs ds csum tx t8" using S(2) unfolding t8_def Let_def by blast+
      have "\<exists>c \<in> variants menv m. \<exists>i m' segs ds. Some m2 = Some m' \<and> m_ptr m' = m_ptr c \<and> me_load menv c = Inr segs \<and>
         length ds = (if tso then 2 else 1) \<and> sent_rda m' i segs ds csum tx t8"
        using v(1,4) F(1,5) D(2) by blast
      ultimately show ?thesis using D(1) by simp
    qed
  qed
qed

lemma xmit_rda_ok:
  assumes "dqo_inv k False tx" and "dma_tag_ok menv" and "\<forall>c \<in> variants menv m. te_m_len env \<le> m_pkthdr_len c"
    and "gve_xmit_dqo env menv now m tx = (e, mp, tx', evs)"
  shows "dqo_inv k False tx' \<and>
    (case e of
       Some _ \<Rightarrow> tx_kept tx tx' \<and> (mp = None \<and> evs = [M_FREEM (m_ptr m)] \<or> (\<exists>c \<in> variants menv m. mp = Some c \<and> evs = []))
     | None \<Rightarrow> evs = [] \<and> (\<exists>c \<in> variants menv m. \<exists>i m' segs ds. mp = Some m' \<and> m_ptr m' = m_ptr c \<and> me_load menv c = Inr segs \<and>
         length ds = (if is_tso_mbuf m then 2 else 1) \<and> sent_rda m' i segs ds (has_csum_flag m) tx tx'))"
proof -
  obtain pcs pps where I: "ring_ok k tx" "pend_inv False tx pcs pps" using assms(1) by (auto simp: dqo_inv_def)
  have mv: "m \<in> variants menv m" by (simp add: variants_def)
  have keep: "dqo_inv k False (t\<lparr>tx_stats := st, desc_head := h\<rparr>) \<and> tx_kept tx (t\<lparr>tx_stats := st, desc_head := h\<rparr>)"
    if "dqo_inv k False t" "tx_kept tx t" for t st h
    using that(2) by (intro conjI dqo_inv_cong [OF that(1)]) (simp_all add: qbuf_view_def pend_view_def tx_kept_def compl_view_def)
  have tx0: "tx_kept tx tx" by (simp add: tx_kept_def)
  obtain room t1 where r1: "gve_tx_has_desc_room_dqo (1 + 1 + (if is_tso_mbuf m then 1 else 0)) tx = (room, t1)" by fastforce
  obtain h st where t1: "t1 = tx\<lparr>tx_stats := st, desc_head := h\<rparr>" and rm: "room \<longrightarrow> h = desc_head tx \<and> st = tx_stats tx \<and>
      1 + 1 + (if is_tso_mbuf m then 1 else 0) \<le> unat (num_avail_desc_ring_slots tx)"
    by (rule has_desc_room [OF r1])
  show ?thesis
  proof (cases room)
    case False
    then have "e = Some ENOBUFS" "mp = Some m" "tx' = t1" "evs = []" using assms(4) r1 by (auto simp: gve_xmit_dqo_def Let_def)
    then show ?thesis using keep [OF assms(1) tx0] mv t1 by auto
  next
    case True
    then have t1': "t1 = tx" using rm t1 by auto
    obtain a t2 where r2: "gve_alloc_pending_packet now tx = (a, t2)" by fastforce
    show ?thesis
    proof (cases a)
      case None
      then obtain c p where t2: "t2 = tx\<lparr>free_pending_pkts_csm := c, free_pending_pkts_prd := p\<rparr>" and P2: "pend_inv False t2 [] []"
        using alloc_pending [OF r2 I(2)] by auto
      have "dqo_inv k False t2" using I(1) P2 by (intro dqo_invI) (auto simp: ring_ok_def t2)
      moreover have "tx_kept tx t2" by (simp add: tx_kept_def t2 compl_view_def)
      moreover have "e = Some ENOBUFS" "mp = Some m" "evs = []"
        "tx' = count_tx (\<lambda>st. st\<lparr>tx_delayed_pkt_nospace_compring := tx_delayed_pkt_nospace_compring st + 1\<rparr>) t2"
        using assms(4) r1 r2 True None t1' by (auto simp: gve_xmit_dqo_def Let_def)
      ultimately show ?thesis using keep [of t2 "desc_head t2"] mv by (auto simp: count_tx_def)
    next
      case (Some i)
      show ?thesis
        by (rule xmit_rda_taken [OF I assms(2,3) r2 [unfolded Some], unfolded Let_def])
          (use assms(4) True in \<open>simp only: gve_xmit_dqo_def Let_def r1 prod.case t1' r2 Some if_False not_True_eq_False option.case\<close>)
    qed
  qed
qed



section \<open>Runs of a queue\<close>


text \<open>
  The operations on one queue, in any order: the stack hands over a packet, the device writes a
  completion, the completion task runs. The result: the pointers of the chains accepted and of those
  freed by the completion task.
\<close>

datatype tx_op = Xmit tso_env map_env int mbuf | Device nat gve_tx_compl_desc_dqo | Cleanup nat

definition freed_of :: "event list \<Rightarrow> nat list" where
  "freed_of evs = List.map_filter (\<lambda>e. case e of M_FREEM p \<Rightarrow> Some p | _ \<Rightarrow> None) evs"

fun tx_exec :: "bool \<Rightarrow> tx_op \<Rightarrow> gve_tx_ring_dqo \<Rightarrow> (nat list \<times> nat list \<times> gve_tx_ring_dqo) option" where
  "tx_exec q (Xmit env menv now m) tx =
     (if q then map_option (\<lambda>(e, tx'). (if e = None then [m_ptr m] else [], [], tx')) (gve_xmit_dqo_qpl env now m tx)
      else case gve_xmit_dqo env menv now m tx of (e, mp, tx', _) \<Rightarrow> Some (if e = None then [m_ptr (the mp)] else [], [], tx'))"
| "tx_exec q (Device i cd) tx = Some ([], [], tx\<lparr>compl_ring := (compl_ring tx)[i := cd]\<rparr>)"
| "tx_exec q (Cleanup budget) tx = map_option (\<lambda>(_, tx', evs). ([], freed_of evs, tx')) (gve_tx_cleanup_dqo q budget tx)"

fun tx_execs :: "bool \<Rightarrow> tx_op list \<Rightarrow> gve_tx_ring_dqo \<Rightarrow> (nat list \<times> nat list \<times> gve_tx_ring_dqo) option" where
  "tx_execs q [] tx = Some ([], [], tx)"
| "tx_execs q (p # ps) tx =
     (case tx_exec q p tx of None \<Rightarrow> None
      | Some (acc, fr, tx1) \<Rightarrow> map_option (\<lambda>(acc', fr', tx'). (acc @ acc', fr @ fr', tx')) (tx_execs q ps tx1))"

text \<open>What the operations rely on: packets are not empty and the DMA layer respects its tag.\<close>

fun op_ok :: "bool \<Rightarrow> tx_op \<Rightarrow> bool" where
  "op_ok q (Xmit env menv now m) \<longleftrightarrow> 0 < m_pkthdr_len m \<and> dma_tag_ok menv \<and> (\<forall>c \<in> variants menv m. te_m_len env \<le> m_pkthdr_len c)"
| "op_ok q _ \<longleftrightarrow> True"

text \<open>
  The abstract queue is the multiset of the packets in flight: accepting adds to it, the completion
  task takes from it what it frees.
\<close>

definition queue_spec :: "nat multiset \<Rightarrow> nat list \<Rightarrow> nat list \<Rightarrow> nat multiset \<Rightarrow> bool" where
  "queue_spec M acc freed M' \<longleftrightarrow> mset freed \<subseteq># M + mset acc \<and> M' = M + mset acc - mset freed"

lemma queue_spec_eq: "queue_spec M acc freed M' \<longleftrightarrow> M + mset acc = M' + mset freed"
  unfolding queue_spec_def by (metis add_diff_cancel_right' mset_subset_eq_add_right subset_mset.diff_add)

lemma inflight_kept: "tx_kept tx tx' \<Longrightarrow> inflight tx' = inflight tx"
proof -
  assume "tx_kept tx tx'"
  then have "map pp_mbuf (pending_pkts tx') = map pp_mbuf (pending_pkts tx)" by (simp add: tx_kept_def)
  moreover have "List.map_filter pp_mbuf ps = List.map_filter id (map pp_mbuf ps)" for ps
    by (simp add: List.map_filter_def comp_def filter_map)
  ultimately show ?thesis unfolding inflight_def by metis
qed

lemma inflight_sent:
  assumes "i < length (pending_pkts tx)" "pend_ok q (pending_pkts tx ! i)" "pp_state (pending_pkts tx ! i) = GVE_PACKET_STATE_FREE"
    "length (pending_pkts tx') = length (pending_pkts tx)" "pp_mbuf (pending_pkts tx' ! i) = Some m"
    "\<forall>j < length (pending_pkts tx). j \<noteq> i \<longrightarrow> pending_pkts tx' ! j = pending_pkts tx ! j"
  shows "inflight tx' = add_mset (m_ptr m) (inflight tx)"
proof -
  have "pending_pkts tx' = (pending_pkts tx)[i := pending_pkts tx' ! i]"
    using assms(1,4,6) by (intro nth_equalityI) (auto simp: nth_list_update)
  moreover have "pp_mbuf (pending_pkts tx ! i) = None" using assms(2,3) by (auto simp: pend_ok_def)
  ultimately show ?thesis using inflight_set [OF assms(1), of pp_mbuf "pending_pkts tx' ! i"] assms(5) by (simp add: inflight_def)
qed

lemma compl_ok_view: "compl_view tx' = compl_view tx \<Longrightarrow> compl_ok tx' = compl_ok tx"
  by (simp add: compl_view_def compl_ok_def)

lemma dqo_inv_pend_ok: "dqo_inv k q tx \<Longrightarrow> i < length (pending_pkts tx) \<Longrightarrow> pend_ok q (pending_pkts tx ! i)"
  by (auto simp: dqo_inv_def pend_inv_def)

lemma freed_of_map [simp]: "freed_of (map M_FREEM ps) = ps" "freed_of (xs @ ys) = freed_of xs @ freed_of ys"
  by (induction ps) (auto simp: freed_of_def map_filter_simps map_filter_append)

lemma tx_exec_ok:
  assumes inv: "dqo_inv k q tx" "compl_ok tx" and ok: "op_ok q p"
  shows "\<exists>acc freed tx'. tx_exec q p tx = Some (acc, freed, tx') \<and> dqo_inv k q tx' \<and> compl_ok tx' \<and>
    queue_spec (inflight tx) acc freed (inflight tx')"
proof (cases p)
  case (Xmit env menv now m)
  have te: "te_m_len env \<le> m_pkthdr_len m" using ok Xmit by (auto simp: variants_def)
  show ?thesis
  proof (cases q)
    case True
    obtain e tx' where r: "gve_xmit_dqo_qpl env now m tx = Some (e, tx')" "dqo_inv k True tx'"
      and c: "case e of Some _ \<Rightarrow> tx_kept tx tx' | None \<Rightarrow> \<exists>i m' xs ds. length ds = (if is_tso_mbuf m then 2 else 1) \<and>
         length xs = howmany (m_pkthdr_len m) GVE_TX_BUF_SIZE_DQO \<and> (\<not> is_tso_mbuf m \<longrightarrow> m' = m) \<and> m_ptr m' = m_ptr m \<and>
         m_pkthdr_len m' = m_pkthdr_len m \<and> sent_qpl m' i xs ds (has_csum_flag m) tx tx'"
      using xmit_qpl_ok [of k tx m env now] inv(1) True ok Xmit te by auto
    show ?thesis
    proof (cases e)
      case None
      then obtain i m' xs ds where s: "sent_qpl m' i xs ds (has_csum_flag m) tx tx'" "m_ptr m' = m_ptr m" using c by auto
      have "compl_ok tx'" using s(1) compl_ok_view inv(2) unfolding sent_qpl_def by blast
      moreover have "inflight tx' = add_mset (m_ptr m) (inflight tx)"
        using s inflight_sent [of i tx q tx' m'] dqo_inv_pend_ok [OF inv(1)] unfolding sent_qpl_def by metis
      ultimately show ?thesis using r True None Xmit by (auto simp: queue_spec_eq)
    next
      case (Some er)
      then have kt: "tx_kept tx tx'" using c by simp
      then have "compl_ok tx'" using compl_ok_view inv(2) unfolding tx_kept_def by blast
      then show ?thesis using r True Some Xmit inflight_kept [OF kt] by (auto simp: queue_spec_eq)
    qed
  next
    case False
    obtain e mp tx' evs where r: "gve_xmit_dqo env menv now m tx = (e, mp, tx', evs)" by (metis prod_cases4)
    have c: "dqo_inv k False tx' \<and> (case e of
       Some _ \<Rightarrow> tx_kept tx tx' \<and> (mp = None \<and> evs = [M_FREEM (m_ptr m)] \<or> (\<exists>c \<in> variants menv m. mp = Some c \<and> evs = []))
     | None \<Rightarrow> evs = [] \<and> (\<exists>c \<in> variants menv m. \<exists>i m' segs ds. mp = Some m' \<and> m_ptr m' = m_ptr c \<and> me_load menv c = Inr segs \<and>
         length ds = (if is_tso_mbuf m then 2 else 1) \<and> sent_rda m' i segs ds (has_csum_flag m) tx tx'))"
      using xmit_rda_ok [OF _ _ _ r, of k] inv(1) False ok Xmit by simp
    show ?thesis
    proof (cases e)
      case None
      then obtain i m' segs ds where s: "sent_rda m' i segs ds (has_csum_flag m) tx tx'" "mp = Some m'" using c by auto
      have "compl_ok tx'" using s(1) compl_ok_view inv(2) unfolding sent_rda_def by blast
      moreover have "inflight tx' = add_mset (m_ptr m') (inflight tx)"
        using s inflight_sent [of i tx q tx' m'] dqo_inv_pend_ok [OF inv(1)] unfolding sent_rda_def by metis
      ultimately show ?thesis using r c False None Xmit s(2) by (auto simp: queue_spec_eq)
    next
      case (Some er)
      then have kt: "tx_kept tx tx'" using c by simp
      then have "compl_ok tx'" using compl_ok_view inv(2) unfolding tx_kept_def by blast
      then show ?thesis using r c False Some Xmit inflight_kept [OF kt] by (auto simp: queue_spec_eq)
    qed
  qed
next
  case (Device i cd)
  let ?t = "tx\<lparr>compl_ring := (compl_ring tx)[i := cd]\<rparr>"
  have "dqo_inv k q ?t" by (rule dqo_inv_cong [OF inv(1)]) (simp_all add: qbuf_view_def pend_view_def)
  moreover have "compl_ok ?t" using inv(2) by (simp add: compl_ok_def)
  ultimately show ?thesis using Device by (simp add: queue_spec_eq inflight_def)
next
  case (Cleanup budget)
  obtain more tx' evs freed where c: "gve_tx_cleanup_dqo q budget tx = Some (more, tx', map M_FREEM freed @ evs)"
    "dqo_inv k q tx'" "compl_ok tx'" "inflight tx = inflight tx' + mset freed" "set evs \<subseteq> {TASKQUEUE_ENQUEUE TX_XMIT}"
    using cleanup_ok [OF inv, of budget] by blast
  have "freed_of evs = []" using c(5) by (induction evs) (auto simp: freed_of_def map_filter_simps)
  then show ?thesis using c Cleanup by (simp add: queue_spec_eq)
qed

lemma queue_spec_trans:
  "queue_spec M a f M1 \<Longrightarrow> queue_spec M1 a' f' M2 \<Longrightarrow> queue_spec M (a @ a') (f @ f') M2"
  by (simp add: queue_spec_eq) (metis add.assoc add.commute)

lemma tx_execs_ok:
  assumes "dqo_inv k q tx" "compl_ok tx" and "\<forall>p \<in> set ps. op_ok q p"
  shows "\<exists>acc freed tx'. tx_execs q ps tx = Some (acc, freed, tx') \<and> dqo_inv k q tx' \<and> compl_ok tx' \<and>
    queue_spec (inflight tx) acc freed (inflight tx')"
  using assms
proof (induction ps arbitrary: tx)
  case Nil
  then show ?case by (simp add: queue_spec_eq)
next
  case (Cons p ps)
  obtain a f t where e: "tx_exec q p tx = Some (a, f, t)" "dqo_inv k q t" "compl_ok t" "queue_spec (inflight tx) a f (inflight t)"
    using tx_exec_ok [OF Cons.prems(1,2), of p] Cons.prems(3) by auto
  obtain a' f' tx' where es: "tx_execs q ps t = Some (a', f', tx')" "dqo_inv k q tx'" "compl_ok tx'" "queue_spec (inflight t) a' f' (inflight tx')"
    using Cons.IH [OF e(2,3)] Cons.prems(3) by auto
  show ?case using e(1) es(1-3) queue_spec_trans [OF e(4) es(4)] by auto
qed

text \<open>
  C2. A DQO transmit queue refines the multiset of packets in flight: from a freshly cleared ring, any
  sequence of transmissions, completion tasks and completions written by the device, valid or
  not, runs without failing an assertion; the chains freed by the completion task are chains that
  were accepted, each freed at most once, and the packets in flight are those accepted and not
  yet freed.
\<close>

theorem dqo_tx_queue_refines:
  assumes "dqo_alloc_ok k q num_pages raw" and "length (compl_ring raw) = 2 ^ k" and "\<forall>p \<in> set ops. op_ok q p"
  defines "tx0 \<equiv> fst (gve_clear_tx_ring_dqo q (2 ^ k) num_pages raw)"
  shows "\<exists>acc freed tx'. tx_execs q ops tx0 = Some (acc, freed, tx') \<and> dqo_inv k q tx' \<and>
    mset freed \<subseteq># mset acc \<and> inflight tx' = mset acc - mset freed"
proof -
  obtain t evs where c: "gve_clear_tx_ring_dqo q (2 ^ k) num_pages raw = (t, evs)" by fastforce
  note C = clear_ring_inv [OF assms(1) c]
  have t: "tx0 = t" using c by (simp add: tx0_def)
  have "List.map_filter pp_mbuf (pending_pkts t) = []" using C by (auto simp: List.map_filter_def filter_empty_conv)
  then have e: "inflight t = {#}" by (simp add: inflight_def)
  have k: "k < 32" using assms(1) by (simp add: dqo_alloc_ok_def)
  have "compl_mask t = of_nat (2 ^ k) - 1" "compl_head t = 0" "length (compl_ring t) = 2 ^ k"
    using c assms(2) by (auto simp: gve_clear_tx_ring_dqo_def Let_def gve_free_tx_mbufs_dqo_def gve_tx_clear_compl_ring_dqo_def
        gve_tx_clear_desc_ring_dqo_def split: prod.splits)
  then have "compl_ok t" using mask_of_count [OF k] by (auto simp: compl_ok_def)
  then show ?thesis using tx_execs_ok [of k q t ops] C assms(3) unfolding t e by (auto simp: queue_spec_def)
qed


definition ex_map_env :: map_env where
  "ex_map_env = \<lparr>me_load = (\<lambda>m. Inr [(0x2000, 20)]), me_collapse = (\<lambda>_. None), me_defrag = (\<lambda>_. None)\<rparr>"

lemma ex_dma: "dma_tag_ok ex_map_env" "variants ex_map_env ex_mbuf = {ex_mbuf}"
  by (simp_all add: dma_tag_ok_def ex_map_env_def GVE_TX_MAX_BUF_SIZE_DQO_def variants_def)


definition ex_ops :: "tx_op list" where
  "ex_ops = [Xmit ex_tso_env ex_map_env 0 ex_mbuf, Device 0 \<lparr>cd_word0 = 0x9000, cd_word1 = 0\<rparr>, Cleanup 8]"

theorem dqo_tx_queue_refines_witness:
  "\<exists>acc freed tx'. tx_execs True ex_ops (fst (gve_clear_tx_ring_dqo True (2 ^ 2) 1 ex_raw_dqo)) = Some (acc, freed, tx') \<and>
     dqo_inv 2 True tx' \<and> mset freed \<subseteq># mset acc \<and> inflight tx' = mset acc - mset freed"
proof -
  have "dqo_alloc_ok 2 True 1 ex_raw_dqo" "length (compl_ring ex_raw_dqo) = 2 ^ 2"
    by (simp_all add: dqo_alloc_ok_def ex_raw_dqo_def PAGE_SIZE_def ex_pkt_dqo_def)
  moreover have "\<forall>p \<in> set ex_ops. op_ok True p"
    using ex_dma by (auto simp: ex_ops_def ex_tso_env_def ex_mbuf_def m_pkthdr_len_def)
  ultimately show ?thesis by (rule dqo_tx_queue_refines)
qed

end
