(* ===== verification/Gve_Rx_Dqo.thy ===== *)
theory Gve_Rx_Dqo
  imports Gve_Rx
begin

text \<open>
  The DQO receive path of \<open>gve_rx_dqo.c\<close>. Buffers are posted on one ring and completions arrive on
  another, announced by a generation bit and possibly in another order. With raw addressing (RDA)
  a buffer is a cluster mbuf; with queue page lists (QPL) it is a page whose fragments are posted in
  turn and which is reused when its wire count is back to one.
\<close>

section \<open>Constants and descriptors\<close>

definition MCLBYTES :: nat where "MCLBYTES = 2048"
definition GVE_RX_BUF_THRESH_DQO :: u32 where "GVE_RX_BUF_THRESH_DQO = 32"
definition GVE_RX_DQO_MIN_PENDING_BUFS :: u32 where "GVE_RX_DQO_MIN_PENDING_BUFS = 128"
definition GVE_DQ_NUM_FRAGS_IN_PAGE :: nat where
  "GVE_DQ_NUM_FRAGS_IN_PAGE = PAGE_SIZE div GVE_DEFAULT_RX_BUFFER_SIZE"
definition GVE_RX_NUM_QPL_PAGES_DQO :: nat where "GVE_RX_NUM_QPL_PAGES_DQO = 2048"
definition GVE_RX_DESC_DQO_GEN_BIT_MASK :: u8 where "GVE_RX_DESC_DQO_GEN_BIT_MASK = 0x40"

definition GVE_L3_TYPE_IPV4 :: u8 where "GVE_L3_TYPE_IPV4 = 2"
definition GVE_L3_TYPE_IPV6 :: u8 where "GVE_L3_TYPE_IPV6 = 3"
definition GVE_L4_TYPE_TCP :: u8 where "GVE_L4_TYPE_TCP = 2"
definition GVE_L4_TYPE_UDP :: u8 where "GVE_L4_TYPE_UDP = 3"
definition GVE_L4_TYPE_ICMP :: u8 where "GVE_L4_TYPE_ICMP = 4"
definition GVE_L4_TYPE_SCTP :: u8 where "GVE_L4_TYPE_SCTP = 5"

record gve_ptype =
  l3_type :: u8
  l4_type :: u8

record gve_rx_desc_dqo =
  rd_buf_id :: u16
  rd_buf_addr :: u64

definition zero_rx_desc_dqo :: gve_rx_desc_dqo where
  "zero_rx_desc_dqo = \<lparr>rd_buf_id = 0, rd_buf_addr = 0\<rparr>"

text \<open>
  The fields of a completion that the driver reads. \<open>rc_len_gen\<close> is the 16-bit word at byte 4: 14
  bits of length, the generation bit, one bit for the buffer queue.
\<close>

record gve_rx_compl_desc_dqo =
  ipv6_ex_add :: bool
  rx_error :: bool
  packet_type :: nat
  rc_len_gen :: u16
  eop :: bool
  l3_l4_processed :: bool
  csum_ip_err :: bool
  csum_l4_err :: bool
  csum_external_ip_err :: bool
  rc_buf_id :: u16
  rc_hash :: u32

definition zero_rx_compl_desc :: gve_rx_compl_desc_dqo where
  "zero_rx_compl_desc = \<lparr>ipv6_ex_add = False, rx_error = False, packet_type = 0, rc_len_gen = 0, eop = False,
     l3_l4_processed = False, csum_ip_err = False, csum_l4_err = False, csum_external_ip_err = False,
     rc_buf_id = 0, rc_hash = 0\<rparr>"

definition packet_len :: "gve_rx_compl_desc_dqo \<Rightarrow> u16" where
  "packet_len cd = take_bit 14 (rc_len_gen cd)"

text \<open>\<open>union gve_rx_qpl_buf_id_dqo\<close>: 11 bits of buffer index below 5 bits of fragment number.\<close>

definition compose_buf_id :: "nat \<Rightarrow> nat \<Rightarrow> u16" where
  "compose_buf_id buf_id frag_num = take_bit 11 (of_nat buf_id) OR push_bit 11 (take_bit 5 (of_nat frag_num))"

definition id_buf :: "u16 \<Rightarrow> nat" where "id_buf all = unat (take_bit 11 all)"
definition id_frag :: "u16 \<Rightarrow> nat" where "id_frag all = unat (drop_bit 11 all)"

section \<open>The ring\<close>

text \<open>
  A buffer slot: with RDA the cluster mbuf (pointer and bytes) and its bus address, with QPL the
  number of fragments the device has and the next fragment to post.
\<close>

record gve_rx_buf_dqo =
  rb_mbuf :: "(nat \<times> u8 list) option"
  rb_addr :: u64
  num_nic_frags :: u8
  next_idx :: u8

text \<open>
  The DQO members of \<open>struct gve_rx_ring\<close>; the two lists hold indices into \<open>bufs\<close>. \<open>rxd_pages\<close> and
  \<open>rxd_dmas\<close> are the memory and the bus addresses of the page list, \<open>rxd_lent\<close> the fragments
  referenced by mbufs, and \<open>rxd_allocs\<close> counts the mbufs asked for so far.
\<close>

record gve_rx_ring_dqo = gve_rx_ring +
  rxd_compl_ring :: "gve_rx_compl_desc_dqo list"
  rxd_desc_ring :: "gve_rx_desc_dqo list"
  bufs :: "gve_rx_buf_dqo list"
  buf_cnt :: nat
  rxd_mask :: u32
  rxd_head :: u32
  rxd_tail :: u32
  rxd_gen_bit :: bool
  free_bufs :: "nat list"
  used_bufs :: "nat list"
  rxd_pages :: "u8 list list"
  rxd_dmas :: "u64 list"
  rxd_lent :: "(nat \<times> nat) list"
  rxd_allocs :: nat

definition page_wire_count :: "gve_rx_ring_dqo \<Rightarrow> nat \<Rightarrow> nat" where
  "page_wire_count rx p = 1 + length (filter (\<lambda>r. fst r = p) (rxd_lent rx))"

text \<open>
  The surroundings: what \<open>rx_env\<close> has, the packet type table, and by the number of the allocation
  the mbuf it gives (NULL when it fails), the bytes the cluster holds and the outcome of mapping it.
\<close>

record rxd_env = rx_env +
  ptype_lut :: "nat \<Rightarrow> gve_ptype"
  al_mbuf :: "nat \<Rightarrow> nat option"
  al_bytes :: "nat \<Rightarrow> u8 list"
  al_load :: "nat \<Rightarrow> errno + u64"

definition upd_buf :: "nat \<Rightarrow> (gve_rx_buf_dqo \<Rightarrow> gve_rx_buf_dqo) \<Rightarrow> gve_rx_ring_dqo \<Rightarrow> gve_rx_ring_dqo" where
  "upd_buf b f rx = rx\<lparr>bufs := (bufs rx)[b := f (bufs rx ! b)]\<rparr>"

definition count_rx :: "(gve_rxq_stats \<Rightarrow> gve_rxq_stats) \<Rightarrow> gve_rx_ring_dqo \<Rightarrow> gve_rx_ring_dqo" where
  "count_rx f rx = rx\<lparr>rx_stats := f (rx_stats rx)\<rparr>"

definition upd_ctx :: "(gve_rx_ctx \<Rightarrow> gve_rx_ctx) \<Rightarrow> gve_rx_ring_dqo \<Rightarrow> gve_rx_ring_dqo" where
  "upd_ctx f rx = rx\<lparr>rx_ctx := f (rx_ctx rx)\<rparr>"

section \<open>Setting up the ring\<close>

definition gve_free_rx_mbufs_dqo :: "bool \<Rightarrow> gve_rx_ring_dqo \<Rightarrow> gve_rx_ring_dqo \<times> rx_event list" where
  "gve_free_rx_mbufs_dqo is_qpl rx =
     (if is_qpl then (rx, [])
      else (rx\<lparr>bufs := map (\<lambda>b. b\<lparr>rb_mbuf := None\<rparr>) (take (buf_cnt rx) (bufs rx)) @ drop (buf_cnt rx) (bufs rx)\<rparr>,
            map (\<lambda>m. RX_M_FREEM (fst m)) (List.map_filter rb_mbuf (take (buf_cnt rx) (bufs rx)))))"

definition gve_rx_clear_desc_ring_dqo :: "nat \<Rightarrow> gve_rx_ring_dqo \<Rightarrow> gve_rx_ring_dqo" where
  "gve_rx_clear_desc_ring_dqo rx_desc_cnt rx =
     rx\<lparr>rxd_desc_ring := replicate rx_desc_cnt zero_rx_desc_dqo @ drop rx_desc_cnt (rxd_desc_ring rx)\<rparr>"

definition gve_rx_clear_compl_ring_dqo :: "nat \<Rightarrow> gve_rx_ring_dqo \<Rightarrow> gve_rx_ring_dqo" where
  "gve_rx_clear_compl_ring_dqo rx_desc_cnt rx =
     rx\<lparr>rxd_compl_ring := replicate rx_desc_cnt zero_rx_compl_desc @ drop rx_desc_cnt (rxd_compl_ring rx)\<rparr>"

text \<open>The loop of \<open>gve_clear_rx_ring_dqo\<close> over the buffers of a page list.\<close>

fun clear_qpl_loop :: "nat list \<Rightarrow> gve_rx_ring_dqo \<Rightarrow> gve_rx_ring_dqo" where
  "clear_qpl_loop [] rx = rx"
| "clear_qpl_loop (j # js) rx =
     (let rx1 = (if page_wire_count rx j = 1 then rx\<lparr>free_bufs := j # free_bufs rx\<rparr>
                 else rx\<lparr>used_bufs := used_bufs rx @ [j]\<rparr>)
      in clear_qpl_loop js (upd_buf j (\<lambda>b. b\<lparr>num_nic_frags := 0, next_idx := 0\<rparr>) rx1))"

definition gve_clear_rx_ring_dqo :: "bool \<Rightarrow> nat \<Rightarrow> gve_rx_ring_dqo \<Rightarrow> gve_rx_ring_dqo \<times> rx_event list" where
  "gve_clear_rx_ring_dqo is_qpl rx_desc_cnt rx =
     (let rx1 = rx\<lparr>fill_cnt := 0, cnt := 0, rxd_mask := of_nat rx_desc_cnt - 1, rxd_head := 0, rxd_tail := 0, rxd_gen_bit := False\<rparr>;
          rx2 = gve_rx_clear_compl_ring_dqo rx_desc_cnt (gve_rx_clear_desc_ring_dqo rx_desc_cnt rx1);
          (rx3, evs) = gve_free_rx_mbufs_dqo is_qpl rx2
      in (if is_qpl then clear_qpl_loop [0..<buf_cnt rx3] (rx3\<lparr>free_bufs := [], used_bufs := []\<rparr>)
          else rx3\<lparr>free_bufs := rev [0..<buf_cnt rx3]\<rparr>, evs))"

definition gve_rx_intr_dqo :: "bool \<Rightarrow> bool \<times> rx_event list" where
  "gve_rx_intr_dqo running = (if \<not> running then (False, []) else (True, [RX_TASKQUEUE_ENQUEUE]))"

section \<open>Posting buffers\<close>

definition gve_rx_advance_head_dqo :: "gve_rx_ring_dqo \<Rightarrow> gve_rx_ring_dqo \<times> rx_event list" where
  "gve_rx_advance_head_dqo rx =
     (let h = (rxd_head rx + 1) AND rxd_mask rx
      in (rx\<lparr>rxd_head := h, fill_cnt := fill_cnt rx + 1\<rparr>,
          if h AND (GVE_RX_BUF_THRESH_DQO - 1) = 0 then [RX_DB_DQO_WRITE_4 (db_offset (rx_com rx)) h] else []))"

definition gve_rx_post_buf_dqo :: "nat \<Rightarrow> gve_rx_ring_dqo \<Rightarrow> gve_rx_ring_dqo \<times> rx_event list" where
  "gve_rx_post_buf_dqo b rx =
     gve_rx_advance_head_dqo (rx\<lparr>rxd_desc_ring := (rxd_desc_ring rx)[unat (rxd_head rx) :=
       \<lparr>rd_buf_id = of_nat b, rd_buf_addr = rb_addr (bufs rx ! b)\<rparr>]\<rparr>)"

definition gve_rx_post_new_mbuf_dqo :: "rxd_env \<Rightarrow> gve_rx_ring_dqo \<Rightarrow> err \<times> gve_rx_ring_dqo \<times> rx_event list" where
  "gve_rx_post_new_mbuf_dqo env rx =
     (case free_bufs rx of
        [] \<Rightarrow> (Some ENOBUFS, rx, [])
      | b # fs \<Rightarrow>
          let n = rxd_allocs rx; rx1 = rx\<lparr>rxd_allocs := n + 1\<rparr>
          in case al_mbuf env n of
               None \<Rightarrow> (Some ENOMEM, count_rx (\<lambda>st. st\<lparr>rx_mbuf_mclget_null := rx_mbuf_mclget_null st + 1\<rparr>)
                          (upd_buf b (\<lambda>x. x\<lparr>rb_mbuf := None\<rparr>) rx1), [])
             | Some p \<Rightarrow>
                 (case al_load env n of
                    Inl e \<Rightarrow> (Some e, count_rx (\<lambda>st. st\<lparr>rx_mbuf_dmamap_err := rx_mbuf_dmamap_err st + 1\<rparr>)
                               (upd_buf b (\<lambda>x. x\<lparr>rb_mbuf := None\<rparr>) rx1), [RX_M_FREEM p])
                  | Inr addr \<Rightarrow>
                      (case gve_rx_post_buf_dqo b (upd_buf b (\<lambda>x. x\<lparr>rb_mbuf := Some (p, al_bytes env n), rb_addr := addr\<rparr>)
                              (rx1\<lparr>free_bufs := fs\<rparr>)) of
                         (rx2, evs) \<Rightarrow> (None, rx2, evs))))"

definition gve_rx_post_qpl_buf_dqo :: "nat \<Rightarrow> nat \<Rightarrow> gve_rx_ring_dqo \<Rightarrow> gve_rx_ring_dqo \<times> rx_event list" where
  "gve_rx_post_qpl_buf_dqo b frag_num rx =
     gve_rx_advance_head_dqo (upd_buf b (\<lambda>x. x\<lparr>num_nic_frags := num_nic_frags x + 1\<rparr>)
       (rx\<lparr>rxd_desc_ring := (rxd_desc_ring rx)[unat (rxd_head rx) :=
          \<lparr>rd_buf_id = compose_buf_id b frag_num,
           rd_buf_addr = rxd_dmas rx ! b + of_nat (frag_num * GVE_DEFAULT_RX_BUFFER_SIZE)\<rparr>]\<rparr>))"

text \<open>The loop of \<open>gve_rx_maybe_extract_from_used_bufs\<close>; \<open>hol\<close> is the head-of-line blocker.\<close>

fun extract_loop :: "(nat \<Rightarrow> nat) \<Rightarrow> bool \<Rightarrow> nat option \<Rightarrow> nat list \<Rightarrow> nat list \<Rightarrow> nat option \<times> nat list \<times> nat list" where
  "extract_loop wc just_one hol [] free = (hol, [], free)"
| "extract_loop wc just_one hol (b # used) free =
     (if wc b \<noteq> 1 then (if hol \<noteq> None then (hol, b # used, free) else extract_loop wc just_one (Some b) used free)
      else if just_one then (hol, used, b # free)
      else extract_loop wc just_one hol used (b # free))"

definition gve_rx_maybe_extract_from_used_bufs :: "bool \<Rightarrow> gve_rx_ring_dqo \<Rightarrow> gve_rx_ring_dqo" where
  "gve_rx_maybe_extract_from_used_bufs just_one rx =
     (case extract_loop (page_wire_count rx) just_one None (used_bufs rx) (free_bufs rx) of
        (hol, used, free) \<Rightarrow>
          rx\<lparr>used_bufs := (case hol of None \<Rightarrow> used | Some b \<Rightarrow> b # used), free_bufs := free\<rparr>)"

definition gve_rx_post_new_dqo_qpl_buf :: "gve_rx_ring_dqo \<Rightarrow> err \<times> gve_rx_ring_dqo \<times> rx_event list" where
  "gve_rx_post_new_dqo_qpl_buf rx =
     (let rx1 = (if free_bufs rx = [] then gve_rx_maybe_extract_from_used_bufs True rx else rx)
      in case free_bufs rx1 of
           [] \<Rightarrow> (Some ENOBUFS, rx1, [])
         | b # fs \<Rightarrow>
             let (rx2, evs) = gve_rx_post_qpl_buf_dqo b (unat (next_idx (bufs rx1 ! b))) rx1;
                 rx3 = upd_buf b (\<lambda>x. x\<lparr>next_idx := (if unat (next_idx x) = GVE_DQ_NUM_FRAGS_IN_PAGE - 1 then 0 else next_idx x + 1)\<rparr>) rx2
             in (None, if next_idx (bufs rx3 ! b) = 0 then rx3\<lparr>free_bufs := fs\<rparr> else rx3, evs))"

fun post_buffers_loop :: "nat \<Rightarrow> bool \<Rightarrow> rxd_env \<Rightarrow> gve_rx_ring_dqo \<Rightarrow> gve_rx_ring_dqo \<times> rx_event list" where
  "post_buffers_loop 0 is_qpl env rx = (rx, [])"
| "post_buffers_loop (Suc n) is_qpl env rx =
     (case (if is_qpl then gve_rx_post_new_dqo_qpl_buf rx else gve_rx_post_new_mbuf_dqo env rx) of
        (Some _, rx1, evs) \<Rightarrow> (rx1, evs)
      | (None, rx1, evs) \<Rightarrow> (case post_buffers_loop n is_qpl env rx1 of (rx2, evs2) \<Rightarrow> (rx2, evs @ evs2)))"

definition num_pending_bufs :: "gve_rx_ring_dqo \<Rightarrow> u32" where
  "num_pending_bufs rx = (rxd_head rx - rxd_tail rx) AND rxd_mask rx"

definition gve_rx_post_buffers_dqo :: "bool \<Rightarrow> rxd_env \<Rightarrow> gve_rx_ring_dqo \<Rightarrow> gve_rx_ring_dqo \<times> rx_event list" where
  "gve_rx_post_buffers_dqo is_qpl env rx = post_buffers_loop (unat (rxd_mask rx - num_pending_bufs rx)) is_qpl env rx"

definition gve_rx_prefill_buffers_dqo :: "bool \<Rightarrow> rxd_env \<Rightarrow> gve_rx_ring_dqo \<Rightarrow> gve_rx_ring_dqo \<times> rx_event list" where
  "gve_rx_prefill_buffers_dqo is_qpl env rx = gve_rx_post_buffers_dqo is_qpl env rx"

section \<open>Handing packets to the stack\<close>

text \<open>The hash type and whether the packet is TCP.\<close>

definition gve_rx_set_hashtype_dqo :: "gve_ptype \<Rightarrow> m_hashtype \<times> bool" where
  "gve_rx_set_hashtype_dqo pt =
     (if l3_type pt = GVE_L3_TYPE_IPV4 then
        (if l4_type pt = GVE_L4_TYPE_TCP then (M_HASHTYPE_RSS_TCP_IPV4, True)
         else if l4_type pt = GVE_L4_TYPE_UDP then (M_HASHTYPE_RSS_UDP_IPV4, False)
         else (M_HASHTYPE_RSS_IPV4, False))
      else if l3_type pt = GVE_L3_TYPE_IPV6 then
        (if l4_type pt = GVE_L4_TYPE_TCP then (M_HASHTYPE_RSS_TCP_IPV6, True)
         else if l4_type pt = GVE_L4_TYPE_UDP then (M_HASHTYPE_RSS_UDP_IPV6, False)
         else (M_HASHTYPE_RSS_IPV6, False))
      else (M_HASHTYPE_OPAQUE_HASH, False))"

text \<open>Whether the checksum flags are set on the mbuf.\<close>

definition gve_rx_set_csum_flags_dqo :: "gve_rx_compl_desc_dqo \<Rightarrow> gve_ptype \<Rightarrow> bool" where
  "gve_rx_set_csum_flags_dqo cd pt =
     (if \<not> l3_l4_processed cd then False
      else if l3_type pt = GVE_L3_TYPE_IPV4 \<and> (csum_ip_err cd \<or> csum_external_ip_err cd) then False
      else if l3_type pt \<noteq> GVE_L3_TYPE_IPV4 \<and> l3_type pt = GVE_L3_TYPE_IPV6 \<and> ipv6_ex_add cd then False
      else if csum_l4_err cd then False
      else l4_type pt \<in> {GVE_L4_TYPE_TCP, GVE_L4_TYPE_UDP, GVE_L4_TYPE_ICMP, GVE_L4_TYPE_SCTP})"

definition gve_rx_input_mbuf_dqo ::
  "rxd_env \<Rightarrow> gve_rx_compl_desc_dqo \<Rightarrow> gve_rx_ring_dqo \<Rightarrow> gve_rx_ring_dqo \<times> rx_event list" where
  "gve_rx_input_mbuf_dqo env cd rx =
     (let ctx = rx_ctx rx;
          pt = ptype_lut env (packet_type cd);
          (hash, tcp) = gve_rx_set_hashtype_dqo pt;
          m0 = the (mbuf_head ctx);
          m = m0\<lparr>rm_hash := hash, rm_flowid := rc_hash cd,
                 rm_csum_valid := (gve_rx_set_csum_flags_dqo cd pt \<or> rm_csum_valid m0), rm_len := total_size ctx\<rparr>;
          to_lro = lro_enabled env \<and> tcp \<and> lro_cnt env \<noteq> 0 \<and> tcp_lro_rx_ok env m
      in (count_rx (\<lambda>st. st\<lparr>rbytes := rbytes st + ucast (total_size ctx), rpackets := rpackets st + 1\<rparr>)
            (rx\<lparr>rx_ctx := empty_ctx\<rparr>),
          [if to_lro then RX_TCP_LRO m else RX_IF_INPUT m]))"

text \<open>\<open>va\<close> stands for the bytes at the address of the fragment.\<close>

definition gve_rx_copybreak_dqo ::
  "rxd_env \<Rightarrow> u8 list \<Rightarrow> gve_rx_compl_desc_dqo \<Rightarrow> u16 \<Rightarrow> gve_rx_ring_dqo \<Rightarrow> err \<times> gve_rx_ring_dqo \<times> rx_event list" where
  "gve_rx_copybreak_dqo env va cd frag_len rx =
     (let rx1 = rx\<lparr>rxd_allocs := rxd_allocs rx + 1\<rparr>
      in case al_mbuf env (rxd_allocs rx) of
           None \<Rightarrow> (Some ENOMEM, rx1, [])
         | Some p \<Rightarrow>
             (case gve_rx_input_mbuf_dqo env cd
                     (count_rx (\<lambda>st. st\<lparr>rx_copybreak_cnt := rx_copybreak_cnt st + 1\<rparr>)
                       (upd_ctx (\<lambda>c. c\<lparr>mbuf_head := Some (new_chain p (Copied (take (unat frag_len) va))), mbuf_tail := True,
                                      total_size := total_size c + ucast frag_len\<rparr>) rx1)) of
                (rx2, evs) \<Rightarrow> (None, rx2, evs)))"

section \<open>Dropping fragments\<close>

definition drop_frag_clear_ctx :: "gve_rx_ring_dqo \<Rightarrow> gve_rx_ring_dqo \<times> rx_event list" where
  "drop_frag_clear_ctx rx =
     (count_rx (\<lambda>st. st\<lparr>rx_dropped_pkt := rx_dropped_pkt st + 1\<rparr>) (rx\<lparr>rx_ctx := empty_ctx\<rparr>), free_head (rx_ctx rx))"

text \<open>\<open>post\<close> posts the dropped fragment's buffer again.\<close>

definition drop_frag_dqo ::
  "(gve_rx_ring_dqo \<Rightarrow> gve_rx_ring_dqo \<times> rx_event list) \<Rightarrow> bool \<Rightarrow> gve_rx_ring_dqo \<Rightarrow> gve_rx_ring_dqo \<times> rx_event list" where
  "drop_frag_dqo post is_last_frag rx =
     (let evs = free_head (rx_ctx rx);
          (rx1, evs1) = post (rx\<lparr>rx_ctx := empty_ctx\<lparr>drop_pkt := True\<rparr>\<rparr>);
          (rx2, evs2) = (if is_last_frag then drop_frag_clear_ctx rx1 else (rx1, []))
      in (rx2, evs @ evs1 @ evs2))"

section \<open>One completion, raw addressing\<close>

text \<open>The result carries what is added to \<open>work_done\<close>.\<close>

definition gve_rx_dqo ::
  "rxd_env \<Rightarrow> gve_rx_compl_desc_dqo \<Rightarrow> gve_rx_ring_dqo \<Rightarrow> nat \<times> gve_rx_ring_dqo \<times> rx_event list" where
  "gve_rx_dqo env cd rx =
     (let is_last_frag = eop cd;
          b = unat (rc_buf_id cd);
          drop = (\<lambda>t. case drop_frag_dqo (gve_rx_post_buf_dqo b) is_last_frag t of (t', evs) \<Rightarrow> (0, t', evs))
      in if b \<ge> buf_cnt rx then
           (case drop_frag_clear_ctx rx of (t, evs) \<Rightarrow> (0, t, RX_SCHEDULE_RESET # evs))
         else case rb_mbuf (bufs rx ! b) of
           None \<Rightarrow> (case drop_frag_clear_ctx rx of (t, evs) \<Rightarrow> (0, t, RX_SCHEDULE_RESET # evs))
         | Some (p, bytes) \<Rightarrow>
             if drop_pkt (rx_ctx rx) then drop rx
             else if rx_error cd then
               drop (count_rx (\<lambda>st. st\<lparr>rx_dropped_pkt_desc_err := rx_dropped_pkt_desc_err st + 1\<rparr>) rx)
             else
               let frag_len = packet_len cd
               in if ucast frag_len \<le> rx_copybreak env \<and> mbuf_head (rx_ctx rx) = None \<and> is_last_frag then
                    (case gve_rx_copybreak_dqo env bytes cd frag_len rx of
                       (Some _, rx1, evs) \<Rightarrow> drop rx1
                     | (None, rx1, evs) \<Rightarrow>
                         (case gve_rx_post_buf_dqo b rx1 of (rx2, evs2) \<Rightarrow> (1, rx2, evs @ evs2)))
                  else
                    let pending = num_pending_bufs rx;
                        (e, rx1, evs1) = gve_rx_post_new_mbuf_dqo env rx
                    in if e \<noteq> None \<and> pending \<le> GVE_RX_DQO_MIN_PENDING_BUFS then
                         (case drop (count_rx (\<lambda>st. st\<lparr>rx_dropped_pkt_mbuf_alloc_fail := rx_dropped_pkt_mbuf_alloc_fail st + 1\<rparr>) rx1) of
                            (w, rx2, evs2) \<Rightarrow> (w, rx2, evs1 @ evs2))
                       else
                         let rx2 = upd_ctx (\<lambda>c. (add_frag p (Cluster p (take (unat frag_len) bytes)) c)
                                     \<lparr>total_size := total_size c + ucast frag_len\<rparr>) rx1;
                             rx3 = upd_buf b (\<lambda>x. x\<lparr>rb_mbuf := None, rb_addr := 0\<rparr>) rx2;
                             rx4 = rx3\<lparr>free_bufs := b # free_bufs rx3\<rparr>
                         in if is_last_frag
                            then (case gve_rx_input_mbuf_dqo env cd rx4 of (rx5, evs2) \<Rightarrow> (1, rx5, evs1 @ evs2))
                            else (0, rx4, evs1))"

section \<open>One completion, queue page lists\<close>

definition gve_get_cpu_addr_for_qpl_buf :: "gve_rx_ring_dqo \<Rightarrow> nat \<Rightarrow> nat \<Rightarrow> nat \<Rightarrow> u8 list" where
  "gve_get_cpu_addr_for_qpl_buf rx b frag_num len = slice (rxd_pages rx ! b) (frag_num * GVE_DEFAULT_RX_BUFFER_SIZE) len"

definition gve_rx_add_clmbuf_to_ctx ::
  "rxd_env \<Rightarrow> nat \<Rightarrow> nat \<Rightarrow> u16 \<Rightarrow> gve_rx_ring_dqo \<Rightarrow> err \<times> gve_rx_ring_dqo" where
  "gve_rx_add_clmbuf_to_ctx env b frag_num frag_len rx =
     (let rx1 = rx\<lparr>rxd_allocs := rxd_allocs rx + 1\<rparr>
      in case al_mbuf env (rxd_allocs rx) of
           None \<Rightarrow> (Some ENOMEM, rx1)
         | Some p \<Rightarrow>
             (None, count_rx (\<lambda>st. st\<lparr>rx_frag_copy_cnt := rx_frag_copy_cnt st + 1\<rparr>)
                (upd_ctx (\<lambda>c. (add_frag p (Copied (gve_get_cpu_addr_for_qpl_buf rx b frag_num (unat frag_len))) c)
                   \<lparr>total_size := total_size c + ucast frag_len\<rparr>) rx1)))"

definition gve_rx_add_extmbuf_to_ctx ::
  "rxd_env \<Rightarrow> nat \<Rightarrow> nat \<Rightarrow> u16 \<Rightarrow> gve_rx_ring_dqo \<Rightarrow> err \<times> gve_rx_ring_dqo" where
  "gve_rx_add_extmbuf_to_ctx env b frag_num frag_len rx =
     (let rx1 = rx\<lparr>rxd_allocs := rxd_allocs rx + 1\<rparr>
      in case al_mbuf env (rxd_allocs rx) of
           None \<Rightarrow> (Some ENOMEM, rx1)
         | Some p \<Rightarrow>
             let rx2 = upd_ctx (\<lambda>c. (add_frag p (External b (frag_num * GVE_DEFAULT_RX_BUFFER_SIZE) (unat frag_len)) c)
                         \<lparr>total_size := total_size c + ucast frag_len\<rparr>) rx1
             in (None, count_rx (\<lambda>st. st\<lparr>rx_frag_flip_cnt := rx_frag_flip_cnt st + 1\<rparr>)
                  (rx2\<lparr>rxd_lent := (b, frag_num) # rxd_lent rx2\<rparr>)))"

definition gve_rx_dqo_qpl ::
  "rxd_env \<Rightarrow> gve_rx_compl_desc_dqo \<Rightarrow> gve_rx_ring_dqo \<Rightarrow> nat \<times> gve_rx_ring_dqo \<times> rx_event list" where
  "gve_rx_dqo_qpl env cd rx =
     (let is_last_frag = eop cd;
          b = id_buf (rc_buf_id cd);
          frag_num = id_frag (rc_buf_id cd);
          drop = (\<lambda>t. case drop_frag_dqo (gve_rx_post_qpl_buf_dqo b frag_num) is_last_frag t of (t', evs) \<Rightarrow> (0, t', evs));
          finish = (\<lambda>t evs. let t1 = (if num_nic_frags (bufs t ! b) = 0 \<and> next_idx (bufs t ! b) = 0
                                      then t\<lparr>used_bufs := used_bufs t @ [b]\<rparr> else t)
                            in if is_last_frag then (case gve_rx_input_mbuf_dqo env cd t1 of (t2, evs2) \<Rightarrow> (1, t2, evs @ evs2))
                               else (0, t1, evs))
      in if b \<ge> buf_cnt rx then
           (case drop_frag_clear_ctx rx of (t, evs) \<Rightarrow> (0, t, RX_SCHEDULE_RESET # evs))
         else if num_nic_frags (bufs rx ! b) = 0 \<or> frag_num > GVE_DQ_NUM_FRAGS_IN_PAGE - 1 then
           (case drop_frag_clear_ctx rx of (t, evs) \<Rightarrow> (0, t, RX_SCHEDULE_RESET # evs))
         else
           let rx0 = upd_buf b (\<lambda>x. x\<lparr>num_nic_frags := num_nic_frags x - 1\<rparr>) rx
           in if drop_pkt (rx_ctx rx0) then drop rx0
              else if rx_error cd then
                drop (count_rx (\<lambda>st. st\<lparr>rx_dropped_pkt_desc_err := rx_dropped_pkt_desc_err st + 1\<rparr>) rx0)
              else
                let frag_len = packet_len cd
                in if ucast frag_len \<le> rx_copybreak env \<and> mbuf_head (rx_ctx rx0) = None \<and> is_last_frag then
                     (case gve_rx_copybreak_dqo env (gve_get_cpu_addr_for_qpl_buf rx0 b frag_num (unat frag_len)) cd frag_len rx0 of
                        (Some _, rx1, evs) \<Rightarrow> drop rx1
                      | (None, rx1, evs) \<Rightarrow>
                          (case gve_rx_post_qpl_buf_dqo b frag_num rx1 of (rx2, evs2) \<Rightarrow> (1, rx2, evs @ evs2)))
                   else
                     let pending = num_pending_bufs rx0;
                         (e, rx1, evs1) = gve_rx_post_new_dqo_qpl_buf rx0
                     in if e \<noteq> None \<and> pending \<le> GVE_RX_DQO_MIN_PENDING_BUFS then
                          (case gve_rx_add_clmbuf_to_ctx env b frag_num frag_len rx1 of
                             (Some _, rx2) \<Rightarrow>
                               (case drop (count_rx (\<lambda>st. st\<lparr>rx_dropped_pkt_buf_post_fail := rx_dropped_pkt_buf_post_fail st + 1\<rparr>) rx2) of
                                  (w, rx3, evs2) \<Rightarrow> (w, rx3, evs1 @ evs2))
                           | (None, rx2) \<Rightarrow>
                               (case gve_rx_post_qpl_buf_dqo b frag_num rx2 of (rx3, evs2) \<Rightarrow> finish rx3 (evs1 @ evs2)))
                        else
                          (case gve_rx_add_extmbuf_to_ctx env b frag_num frag_len rx1 of
                             (Some _, rx2) \<Rightarrow>
                               (case drop (count_rx (\<lambda>st. st\<lparr>rx_dropped_pkt_mbuf_alloc_fail := rx_dropped_pkt_mbuf_alloc_fail st + 1\<rparr>) rx2) of
                                  (w, rx3, evs2) \<Rightarrow> (w, rx3, evs1 @ evs2))
                           | (None, rx2) \<Rightarrow> finish rx2 evs1))"

section \<open>The cleanup task\<close>

text \<open>The generation bit is bit 6 of byte 5 of a completion.\<close>

definition gve_rx_get_gen_bit :: "gve_rx_compl_desc_dqo \<Rightarrow> bool" where
  "gve_rx_get_gen_bit cd \<longleftrightarrow> (ucast (drop_bit 8 (rc_len_gen cd)) :: u8) AND GVE_RX_DESC_DQO_GEN_BIT_MASK \<noteq> 0"

definition rxd_consume :: "gve_rx_ring_dqo \<Rightarrow> gve_rx_ring_dqo" where
  "rxd_consume rx =
     (let t = (rxd_tail rx + 1) AND rxd_mask rx
      in rx\<lparr>cnt := cnt rx + 1, rxd_tail := t, rxd_gen_bit := (rxd_gen_bit rx \<noteq> (t = 0))\<rparr>)"

text \<open>The loop of \<open>gve_rx_cleanup_dqo\<close>; \<open>None\<close> when \<open>fuel\<close> rounds were not enough.\<close>

fun rxd_cleanup_loop ::
  "nat \<Rightarrow> bool \<Rightarrow> rxd_env \<Rightarrow> nat \<Rightarrow> nat \<Rightarrow> gve_rx_ring_dqo \<Rightarrow> (nat \<times> gve_rx_ring_dqo \<times> rx_event list) option" where
  "rxd_cleanup_loop fuel is_qpl env budget work_done rx =
     (let cd = rxd_compl_ring rx ! unat (rxd_tail rx)
      in if \<not> work_done < budget \<or> gve_rx_get_gen_bit cd = rxd_gen_bit rx then Some (work_done, rx, [])
         else case fuel of
           0 \<Rightarrow> None
         | Suc n \<Rightarrow>
             (case (if is_qpl then gve_rx_dqo_qpl else gve_rx_dqo) env cd (rxd_consume rx) of
                (w, rx1, evs) \<Rightarrow>
                  map_option (\<lambda>(w', rx', evs'). (w', rx', evs @ evs')) (rxd_cleanup_loop n is_qpl env budget (work_done + w) rx1)))"

declare rxd_cleanup_loop.simps [simp del]

definition gve_rx_cleanup_dqo ::
  "bool \<Rightarrow> rxd_env \<Rightarrow> nat \<Rightarrow> gve_rx_ring_dqo \<Rightarrow> (bool \<times> gve_rx_ring_dqo \<times> rx_event list) option" where
  "gve_rx_cleanup_dqo is_qpl env budget rx =
     map_option (\<lambda>(work_done, rx1, evs).
       let evs1 = (if work_done \<noteq> 0 then [RX_LRO_FLUSH_ALL] else []);
           (rx2, evs2) = gve_rx_post_buffers_dqo is_qpl env rx1;
           rx3 = (if is_qpl then gve_rx_maybe_extract_from_used_bufs False rx2 else rx2)
       in (work_done = budget, rx3, evs @ evs1 @ evs2))
       (rxd_cleanup_loop (length (rxd_compl_ring rx)) is_qpl env budget 0 rx)"

definition gve_rx_cleanup_tq_dqo ::
  "bool \<Rightarrow> bool \<Rightarrow> rxd_env \<Rightarrow> gve_rx_ring_dqo \<Rightarrow> (gve_rx_ring_dqo \<times> rx_event list) option" where
  "gve_rx_cleanup_tq_dqo running is_qpl env rx =
     (if \<not> running then Some (rx, [])
      else map_option (\<lambda>(more, rx1, evs).
        if more then (rx1, evs @ [RX_TASKQUEUE_ENQUEUE])
        else (rx1, evs @ [RX_DB_DQO_WRITE_4 (irq_db_offset (rx_com rx1)) (GVE_ITR_NO_UPDATE_DQO OR GVE_ITR_ENABLE_BIT_DQO)]))
          (gve_rx_cleanup_dqo is_qpl env 64 rx))"

end
