(* ===== verification/Gve_Rx_Dqo_Inv.thy ===== *)
theory Gve_Rx_Dqo_Inv
  imports Gve_Rx_Dqo Gve_Genring
begin

text \<open>
  The DQO receive path: the completion handler as a consumer of a ring with a generation bit, for
  both addressing modes, and the invariant of a ring with raw addressing.
\<close>


section \<open>What a handler leaves alone\<close>

definition cview :: "gve_rx_ring_dqo \<Rightarrow> gve_rx_compl_desc_dqo list \<times> u32 \<times> u32 \<times> bool \<times> u32 \<times> nat" where
  "cview rx = (rxd_compl_ring rx, rxd_mask rx, rxd_tail rx, rxd_gen_bit rx, cnt rx, buf_cnt rx)"

lemma cview_upd [simp]: "cview (upd_buf b f rx) = cview rx" "cview (count_rx g rx) = cview rx" "cview (upd_ctx h rx) = cview rx"
  "cview (rx\<lparr>rx_ctx := c\<rparr>) = cview rx" "cview (rx\<lparr>free_bufs := fs\<rparr>) = cview rx" "cview (rx\<lparr>used_bufs := us\<rparr>) = cview rx"
  "cview (rx\<lparr>rxd_allocs := n\<rparr>) = cview rx" "cview (rx\<lparr>rxd_lent := l\<rparr>) = cview rx" "cview (rx\<lparr>rxd_desc_ring := ds\<rparr>) = cview rx"
  "cview (fst (gve_rx_advance_head_dqo rx)) = cview rx"
  by (simp_all add: cview_def upd_buf_def count_rx_def upd_ctx_def gve_rx_advance_head_dqo_def Let_def)

lemma cview_post [simp]: "cview (fst (gve_rx_post_buf_dqo b rx)) = cview rx" "cview (fst (gve_rx_post_qpl_buf_dqo b f rx)) = cview rx"
  "cview (gve_rx_maybe_extract_from_used_bufs j rx) = cview rx" "cview (fst (gve_rx_input_mbuf_dqo env cd rx)) = cview rx"
  "cview (fst (drop_frag_clear_ctx rx)) = cview rx"
  by (simp_all add: gve_rx_post_buf_dqo_def gve_rx_post_qpl_buf_dqo_def gve_rx_maybe_extract_from_used_bufs_def
      gve_rx_input_mbuf_dqo_def Let_def drop_frag_clear_ctx_def split: prod.splits)

lemma cview_post_new [simp]: "cview (fst (snd (gve_rx_post_new_mbuf_dqo env rx))) = cview rx"
  "cview (fst (snd (gve_rx_post_new_dqo_qpl_buf rx))) = cview rx"
  by (simp_all add: gve_rx_post_new_mbuf_dqo_def gve_rx_post_new_dqo_qpl_buf_def Let_def split_def split: list.splits option.splits sum.splits)

lemma cview_ctx [simp]: "cview (fst (snd (gve_rx_copybreak_dqo env va cd l rx))) = cview rx"
  "cview (snd (gve_rx_add_clmbuf_to_ctx env b f l rx)) = cview rx" "cview (snd (gve_rx_add_extmbuf_to_ctx env b f l rx)) = cview rx"
  by (simp_all add: gve_rx_copybreak_dqo_def gve_rx_add_clmbuf_to_ctx_def gve_rx_add_extmbuf_to_ctx_def Let_def split_def split: option.splits)

lemma cview_drop [simp]:
  "cview (fst (drop_frag_dqo (gve_rx_post_buf_dqo b) l rx)) = cview rx"
  "cview (fst (drop_frag_dqo (gve_rx_post_qpl_buf_dqo b f) l rx)) = cview rx"
  by (simp_all add: drop_frag_dqo_def Let_def split_def)

lemma cview_rda: "cview (fst (snd (gve_rx_dqo env cd rx))) = cview rx"
  by (simp add: gve_rx_dqo_def Let_def split_def split: option.splits)

lemma cview_qpl: "cview (fst (snd (gve_rx_dqo_qpl env cd rx))) = cview rx"
  by (simp add: gve_rx_dqo_qpl_def Let_def split_def split: option.splits)

section \<open>The completion ring\<close>

definition rxd_handle :: "bool \<Rightarrow> rxd_env \<Rightarrow> gve_rx_ring_dqo \<Rightarrow> nat \<times> gve_rx_ring_dqo \<times> rx_event list" where
  "rxd_handle is_qpl env rx = (if is_qpl then gve_rx_dqo_qpl else gve_rx_dqo) env (rxd_compl_ring rx ! unat (rxd_tail rx)) (rxd_consume rx)"

definition rxd_compl_ok :: "gve_rx_ring_dqo \<Rightarrow> bool" where
  "rxd_compl_ok rx \<longleftrightarrow> (\<exists>k. ring_mask k (rxd_mask rx) \<and> length (rxd_compl_ring rx) = 2 ^ k \<and> unat (rxd_tail rx) < 2 ^ k)"

lemma cview_handle: "cview (fst (snd (rxd_handle q env rx))) = cview (rxd_consume rx)"
  by (simp add: rxd_handle_def cview_rda cview_qpl)

lemma handle_sel:
  assumes "rxd_handle q env rx = (w, rx', evs)"
  shows "rxd_compl_ring rx' = rxd_compl_ring rx" "rxd_mask rx' = rxd_mask rx" "rxd_tail rx' = (rxd_tail rx + 1) AND rxd_mask rx"
    "rxd_gen_bit rx' = (rxd_gen_bit rx \<noteq> (rxd_tail rx' = 0))" "cnt rx' = cnt rx + 1" "buf_cnt rx' = buf_cnt rx"
  using cview_handle [of q env rx] assms by (simp_all add: cview_def rxd_consume_def Let_def)

lemma handle_compl_ok: "rxd_handle q env rx = (w, rx', evs) \<Longrightarrow> rxd_compl_ok rx \<Longrightarrow> rxd_compl_ok rx'"
  by (auto simp: rxd_compl_ok_def handle_sel and_mask_bound)

definition rxd_consumes :: "gve_rx_ring_dqo \<Rightarrow> gve_rx_ring_dqo \<Rightarrow> bool" where
  "rxd_consumes rx rx' \<longleftrightarrow> rxd_compl_ok rx \<and> (\<exists>q env w evs. rxd_handle q env rx = (w, rx', evs))"

interpretation rxc: gen_ring "\<lambda>rx i. gve_rx_get_gen_bit (rxd_compl_ring rx ! i)" "\<lambda>rx. unat (rxd_tail rx)"
  "\<lambda>rx. length (rxd_compl_ring rx)" rxd_gen_bit rxd_consumes
proof -
  have "unat (rxd_tail s) < length (rxd_compl_ring s) \<and> unat (rxd_tail s') = (unat (rxd_tail s) + 1) mod length (rxd_compl_ring s) \<and>
     rxd_gen_bit s' = (rxd_gen_bit s \<noteq> (unat (rxd_tail s') = 0)) \<and> rxd_compl_ring s' = rxd_compl_ring s" if c: "rxd_consumes s s'" for s s'
  proof -
    obtain k q env w evs where k: "ring_mask k (rxd_mask s)" "length (rxd_compl_ring s) = 2 ^ k" "unat (rxd_tail s) < 2 ^ k"
      and h: "rxd_handle q env s = (w, s', evs)" using c unfolding rxd_consumes_def rxd_compl_ok_def by blast
    show ?thesis using k adv_one [OF k(1), of "rxd_tail s"] handle_sel [OF h] unfolding unat_eq_0 by simp
  qed
  then show "gen_ring (\<lambda>rx i. gve_rx_get_gen_bit (rxd_compl_ring rx ! i)) (\<lambda>rx. unat (rxd_tail rx)) (\<lambda>rx. length (rxd_compl_ring rx)) rxd_gen_bit rxd_consumes"
    by unfold_locales auto
qed

text \<open>The device has written exactly \<open>n\<close> completions beyond the tail.\<close>

definition rxd_written :: "gve_rx_ring_dqo \<Rightarrow> nat \<Rightarrow> bool" where
  "rxd_written rx n \<longleftrightarrow>
     (let size = length (rxd_compl_ring rx); tail = unat (rxd_tail rx);
          fresh = (\<lambda>j. gve_rx_get_gen_bit (rxd_compl_ring rx ! ((tail + j) mod size)) \<noteq> (rxd_gen_bit rx \<noteq> odd ((tail + j) div size)))
      in tail < size \<and> (\<forall>j < n. fresh j) \<and> \<not> fresh n)"

lemma rxd_written_eq: "rxd_written rx n = rxc.written rx n"
  by (simp add: rxd_written_def rxc.written_def rxc.gen_at_def Let_def)

lemma rxd_written_exists: "rxd_compl_ok rx \<Longrightarrow> \<exists>n \<le> length (rxd_compl_ring rx). rxd_written rx n"
  unfolding rxd_written_eq by (rule rxc.written_exists) (auto simp: rxd_compl_ok_def)

text \<open>
  The loop as the repeated handling of completions, under an invariant \<open>I\<close> of the ring and the
  number of unhandled completions.
\<close>

lemma handle_work: "rxd_handle q env rx = (w, rx', evs) \<Longrightarrow> w \<le> 1"
proof -
  assume h: "rxd_handle q env rx = (w, rx', evs)"
  have "fst (gve_rx_dqo env cd r) \<le> 1" "fst (gve_rx_dqo_qpl env cd r) \<le> 1" for cd r
    by (simp_all add: gve_rx_dqo_def gve_rx_dqo_qpl_def Let_def split_def split: option.splits)
  from this [of "rxd_compl_ring rx ! unat (rxd_tail rx)" "rxd_consume rx"] show ?thesis using h by (cases q) (simp_all add: rxd_handle_def)
qed

lemma rxd_loop:
  assumes step: "\<forall>rx n w rx' evs. I rx (Suc n) \<longrightarrow> rxd_compl_ok rx \<longrightarrow> rxd_handle q env rx = (w, rx', evs) \<longrightarrow> I rx' n \<and> (\<forall>e \<in> set evs. E e)"
    and "rxd_compl_ok rx" and "rxd_written rx n" and "n \<le> fuel" and "I rx n" and "work \<le> budget"
  shows "\<exists>w rx' evs m. rxd_cleanup_loop fuel q env budget work rx = Some (w, rx', evs) \<and> rxd_compl_ok rx' \<and>
    rxd_written rx' m \<and> m \<le> n \<and> I rx' m \<and> (\<forall>e \<in> set evs. E e) \<and> w \<le> budget \<and> (w < budget \<longrightarrow> m = 0) \<and> cnt rx' = cnt rx + of_nat (n - m)"
  using assms(2-)
proof (induction fuel arbitrary: rx n work)
  case 0
  then have "gve_rx_get_gen_bit (rxd_compl_ring rx ! unat (rxd_tail rx)) = rxd_gen_bit rx"
    using rxc.written_0 [of rx] by (simp add: rxd_written_eq)
  then show ?case using 0 by (intro exI [of _ work] exI [of _ rx] exI [of _ "[]"] exI [of _ 0]) (subst rxd_cleanup_loop.simps, simp)
next
  case (Suc fuel)
  let ?cd = "rxd_compl_ring rx ! unat (rxd_tail rx)"
  show ?case
  proof (cases "\<not> work < budget \<or> gve_rx_get_gen_bit ?cd = rxd_gen_bit rx")
    case True
    have "n = 0" if "work < budget" using True that Suc.prems(2) rxc.written_Suc [of rx] by (cases n) (auto simp: rxd_written_eq)
    then show ?thesis using True Suc.prems
      by (intro exI [of _ work] exI [of _ rx] exI [of _ "[]"] exI [of _ n]) (subst rxd_cleanup_loop.simps, auto)
  next
    case False
    then obtain n' where n: "n = Suc n'" using Suc.prems(2) rxc.written_0 [of rx] by (cases n) (auto simp: rxd_written_eq)
    obtain w rx1 evs where h: "rxd_handle q env rx = (w, rx1, evs)" by (metis prod_cases3)
    have "rxd_consumes rx rx1" using h Suc.prems(1) unfolding rxd_consumes_def by blast
    then have "rxd_written rx1 n'" using rxc.written_step Suc.prems(2) unfolding rxd_written_eq n by blast
    moreover have "n' \<le> fuel" "work + w \<le> budget" using Suc.prems(3) n False handle_work [OF h] by simp_all
    moreover note handle_compl_ok [OF h Suc.prems(1)]
    moreover have s: "I rx1 n'" "\<forall>e \<in> set evs. E e" using step Suc.prems(4) [unfolded n] Suc.prems(1) h by blast+
    ultimately obtain w' rx' evs' m where R: "rxd_cleanup_loop fuel q env budget (work + w) rx1 = Some (w', rx', evs')" "rxd_compl_ok rx'"
      "rxd_written rx' m" "m \<le> n'" "I rx' m" "\<forall>e \<in> set evs'. E e" "w' \<le> budget" "w' < budget \<longrightarrow> m = 0" "cnt rx' = cnt rx1 + of_nat (n' - m)"
      using Suc.IH [of rx1 n' "work + w"] by blast
    have "rxd_cleanup_loop (Suc fuel) q env budget work rx = Some (w', rx', evs @ evs')"
      using False R(1) h by (subst rxd_cleanup_loop.simps) (simp add: rxd_handle_def Let_def)
    moreover have "cnt rx' = cnt rx + of_nat (n - m)"
      using R(4,9) handle_sel(5) [OF h] n by (simp add: Suc_diff_le)
    moreover have "\<forall>e \<in> set (evs @ evs'). E e" "m \<le> n" using R(4,6) s(2) n by auto
    ultimately show ?thesis using R by blast
  qed
qed

lemma cview_post_loop: "cview (fst (post_buffers_loop n q env rx)) = cview rx"
proof (induction n arbitrary: rx)
  case (Suc n)
  obtain e r1 e1 where p: "(if q then gve_rx_post_new_dqo_qpl_buf rx else gve_rx_post_new_mbuf_dqo env rx) = (e, r1, e1)" by (metis prod_cases3)
  then have "cview r1 = cview rx" using cview_post_new(1) [of env rx] cview_post_new(2) [of rx] by (cases q) auto
  then show ?case using p Suc.IH [of r1] by (cases e) (auto split: prod.splits)
qed simp

lemma compl_ok_cview: "cview rx' = cview rx \<Longrightarrow> rxd_compl_ok rx' = rxd_compl_ok rx \<and> rxd_written rx' m = rxd_written rx m \<and> cnt rx' = cnt rx"
  by (simp add: cview_def rxd_compl_ok_def rxd_written_def)

text \<open>The cleanup task from its loop.\<close>

lemma rxd_cleanup:
  assumes step: "\<forall>rx n w rx' evs. I rx (Suc n) \<longrightarrow> rxd_compl_ok rx \<longrightarrow> rxd_handle q env rx = (w, rx', evs) \<longrightarrow> I rx' n \<and> (\<forall>e \<in> set evs. E e)"
    and "rxd_compl_ok rx" and "rxd_written rx n" and "I rx n"
  obtains more rx' evs1 evs2 m rx1 rx2 where "gve_rx_cleanup_dqo q env budget rx = Some (more, rx', evs1 @ evs2)" "\<forall>e \<in> set evs1. E e \<or> e = RX_LRO_FLUSH_ALL" "I rx1 m" "m \<le> n"
    "gve_rx_post_buffers_dqo q env rx1 = (rx2, evs2)" "rx' = (if q then gve_rx_maybe_extract_from_used_bufs False rx2 else rx2)"
    "rxd_compl_ok rx'" "rxd_written rx' m" "\<not> more \<longrightarrow> m = 0" "cnt rx' = cnt rx + of_nat (n - m)"
proof -
  have "n \<le> length (rxd_compl_ring rx)"
  proof -
    obtain n' where "n' \<le> length (rxd_compl_ring rx)" "rxd_written rx n'" using rxd_written_exists [OF assms(2)] by blast
    moreover have "n = n'" using assms(3) calculation(2) unfolding rxd_written_def Let_def by (metis linorder_neqE_nat)
    ultimately show ?thesis by simp
  qed
  then obtain w rx1 evs m where L: "rxd_cleanup_loop (length (rxd_compl_ring rx)) q env budget 0 rx = Some (w, rx1, evs)" "rxd_compl_ok rx1"
    "rxd_written rx1 m" "m \<le> n" "I rx1 m" "\<forall>e \<in> set evs. E e" "w \<le> budget" "w < budget \<longrightarrow> m = 0" "cnt rx1 = cnt rx + of_nat (n - m)"
    using rxd_loop [where I = I and E = E and q = q and env = env and rx = rx and n = n and work = 0 and budget = budget and
        fuel = "length (rxd_compl_ring rx)", OF step assms(2,3) _ assms(4)] by blast
  obtain r2 e2 where p: "gve_rx_post_buffers_dqo q env rx1 = (r2, e2)" by fastforce
  let ?rx' = "if q then gve_rx_maybe_extract_from_used_bufs False r2 else r2"
  have "cview r2 = cview rx1" using cview_post_loop [of "unat (rxd_mask rx1 - num_pending_bufs rx1)" q env rx1] p by (simp add: gve_rx_post_buffers_dqo_def)
  then have cv: "cview ?rx' = cview rx1" by simp
  have "gve_rx_cleanup_dqo q env budget rx = Some (w = budget, ?rx', (evs @ (if w \<noteq> 0 then [RX_LRO_FLUSH_ALL] else [])) @ e2)"
    using L(1) p by (simp add: gve_rx_cleanup_dqo_def Let_def)
  then show ?thesis
    using L compl_ok_cview [OF cv] p by (intro that [of "w = budget" ?rx' "evs @ (if w \<noteq> 0 then [RX_LRO_FLUSH_ALL] else [])" e2 rx1 m r2]) auto
qed

section \<open>Raw addressing: the invariant\<close>

text \<open>
  A buffer has an mbuf exactly when it is not on the free list; \<open>d\<close> buffers are in hand: taken from
  the device and not yet posted again or freed. The ring never holds as many descriptors as it has
  slots, and the head is as far from the tail as the counters say.
\<close>

definition rda_inv :: "nat \<Rightarrow> nat \<Rightarrow> gve_rx_ring_dqo \<Rightarrow> bool" where
  "rda_inv k d rx \<longleftrightarrow> ring_mask k (rxd_mask rx) \<and> length (rxd_desc_ring rx) = 2 ^ k \<and> length (bufs rx) = 2 ^ k \<and> buf_cnt rx = 2 ^ k \<and>
     distinct (free_bufs rx) \<and> set (free_bufs rx) = {b. b < 2 ^ k \<and> rb_mbuf (bufs rx ! b) = None} \<and>
     unat (fill_cnt rx - cnt rx) + length (free_bufs rx) + d = 2 ^ k \<and> unat (fill_cnt rx - cnt rx) < 2 ^ k \<and>
     unat (rxd_tail rx) < 2 ^ k \<and> unat (rxd_head rx) = (unat (rxd_tail rx) + unat (fill_cnt rx - cnt rx)) mod 2 ^ k"

lemma rx_sel [simp]:
  "rxd_mask (upd_buf b f rx) = rxd_mask rx" "rxd_desc_ring (upd_buf b f rx) = rxd_desc_ring rx" "bufs (upd_buf b f rx) = (bufs rx)[b := f (bufs rx ! b)]"
  "buf_cnt (upd_buf b f rx) = buf_cnt rx" "free_bufs (upd_buf b f rx) = free_bufs rx" "used_bufs (upd_buf b f rx) = used_bufs rx"
  "fill_cnt (upd_buf b f rx) = fill_cnt rx" "cnt (upd_buf b f rx) = cnt rx" "rxd_tail (upd_buf b f rx) = rxd_tail rx" "rxd_head (upd_buf b f rx) = rxd_head rx"
  "rx_ctx (upd_buf b f rx) = rx_ctx rx" "rxd_lent (upd_buf b f rx) = rxd_lent rx" "rxd_pages (upd_buf b f rx) = rxd_pages rx" "rxd_allocs (upd_buf b f rx) = rxd_allocs rx"
  "rxd_mask (count_rx g rx) = rxd_mask rx" "rxd_desc_ring (count_rx g rx) = rxd_desc_ring rx" "bufs (count_rx g rx) = bufs rx"
  "buf_cnt (count_rx g rx) = buf_cnt rx" "free_bufs (count_rx g rx) = free_bufs rx" "used_bufs (count_rx g rx) = used_bufs rx"
  "fill_cnt (count_rx g rx) = fill_cnt rx" "cnt (count_rx g rx) = cnt rx" "rxd_tail (count_rx g rx) = rxd_tail rx" "rxd_head (count_rx g rx) = rxd_head rx"
  "rx_ctx (count_rx g rx) = rx_ctx rx" "rxd_lent (count_rx g rx) = rxd_lent rx" "rxd_pages (count_rx g rx) = rxd_pages rx" "rxd_allocs (count_rx g rx) = rxd_allocs rx"
  "rxd_mask (upd_ctx h rx) = rxd_mask rx" "rxd_desc_ring (upd_ctx h rx) = rxd_desc_ring rx" "bufs (upd_ctx h rx) = bufs rx"
  "buf_cnt (upd_ctx h rx) = buf_cnt rx" "free_bufs (upd_ctx h rx) = free_bufs rx" "used_bufs (upd_ctx h rx) = used_bufs rx"
  "fill_cnt (upd_ctx h rx) = fill_cnt rx" "cnt (upd_ctx h rx) = cnt rx" "rxd_tail (upd_ctx h rx) = rxd_tail rx" "rxd_head (upd_ctx h rx) = rxd_head rx"
  "rx_ctx (upd_ctx h rx) = h (rx_ctx rx)" "rxd_lent (upd_ctx h rx) = rxd_lent rx" "rxd_pages (upd_ctx h rx) = rxd_pages rx" "rxd_allocs (upd_ctx h rx) = rxd_allocs rx"
  by (simp_all add: upd_buf_def count_rx_def upd_ctx_def)

text \<open>What the invariant depends on.\<close>

definition rda_view :: "gve_rx_ring_dqo \<Rightarrow> u32 \<times> nat \<times> (nat \<times> u8 list) option list \<times> nat \<times> nat list \<times> u32 \<times> u32 \<times> u32" where
  "rda_view rx = (rxd_mask rx, length (rxd_desc_ring rx), map rb_mbuf (bufs rx), buf_cnt rx, free_bufs rx, fill_cnt rx - cnt rx, rxd_tail rx, rxd_head rx)"

lemma rda_inv_cong: "rda_view rx' = rda_view rx \<Longrightarrow> rda_inv k d rx' = rda_inv k d rx"
proof -
  assume v: "rda_view rx' = rda_view rx"
  then have m: "map rb_mbuf (bufs rx') = map rb_mbuf (bufs rx)" by (simp add: rda_view_def)
  then have l: "length (bufs rx') = length (bufs rx)" by (rule map_eq_imp_length_eq)
  have n: "rb_mbuf (bufs rx' ! b) = rb_mbuf (bufs rx ! b)" if "b < length (bufs rx)" for b
    using arg_cong [OF m, of "\<lambda>xs. xs ! b"] that l by simp
  have "{b. b < 2 ^ k \<and> rb_mbuf (bufs rx' ! b) = None} = {b. b < 2 ^ k \<and> rb_mbuf (bufs rx ! b) = None}" if "length (bufs rx) = 2 ^ k"
    using n that by auto
  then show ?thesis using v l unfolding rda_inv_def rda_view_def by auto
qed


lemma rda_consume:
  assumes "rda_inv k 0 rx" and "b < buf_cnt rx" and "rb_mbuf (bufs rx ! b) \<noteq> None"
  shows "rda_inv k 1 (rxd_consume rx)"
proof -
  have I: "ring_mask k (rxd_mask rx)" "unat (fill_cnt rx - cnt rx) + length (free_bufs rx) + 0 = 2 ^ k" "unat (rxd_tail rx) < 2 ^ k"
    "unat (rxd_head rx) = (unat (rxd_tail rx) + unat (fill_cnt rx - cnt rx)) mod 2 ^ k" "distinct (free_bufs rx)"
    "set (free_bufs rx) = {b. b < 2 ^ k \<and> rb_mbuf (bufs rx ! b) = None}" "buf_cnt rx = 2 ^ k"
    using assms(1) unfolding rda_inv_def by blast+
  have "b \<in> {..<2 ^ k}" "b \<notin> set (free_bufs rx)" using I(7) assms(2,3) by (simp, simp add: I(6))
  then have "set (free_bufs rx) \<subset> {..<2 ^ k}" unfolding I(6) by blast
  then have "length (free_bufs rx) < 2 ^ k" using psubset_card_mono [of "{..<2 ^ k}" "set (free_bufs rx)"] distinct_card [OF I(5)] by simp
  then have pos: "0 < unat (fill_cnt rx - cnt rx)" using I(2) by simp
  have "fill_cnt rx - (cnt rx + 1) = (fill_cnt rx - cnt rx) - 1" by simp
  then have p: "unat (fill_cnt rx - (cnt rx + 1)) = unat (fill_cnt rx - cnt rx) - 1"
    using unat_minus_one [of "fill_cnt rx - cnt rx"] pos unfolding unat_gt_0 by metis
  have "(unat ((rxd_tail rx + 1) AND rxd_mask rx) + (unat (fill_cnt rx - cnt rx) - 1)) mod 2 ^ k = unat (rxd_head rx)"
    using adv_shift [OF I(1), of "rxd_tail rx" "unat (fill_cnt rx - cnt rx) - 1"] pos I(4) by simp
  then show ?thesis using assms(1) p pos and_mask_bound [OF I(1)] by (auto simp: rda_inv_def rxd_consume_def Let_def)
qed

lemma rda_advance:
  assumes "rda_inv k d rx" and "unat (fill_cnt rx - cnt rx) + 1 < 2 ^ k" and "gve_rx_advance_head_dqo rx = (rx', evs)"
  shows "rx' = rx\<lparr>rxd_head := (rxd_head rx + 1) AND rxd_mask rx, fill_cnt := fill_cnt rx + 1\<rparr>"
    "unat (fill_cnt rx' - cnt rx') = unat (fill_cnt rx - cnt rx) + 1"
    "unat (rxd_head rx') = (unat (rxd_tail rx') + unat (fill_cnt rx' - cnt rx')) mod 2 ^ k"
proof -
  have I: "ring_mask k (rxd_mask rx)" "unat (rxd_head rx) = (unat (rxd_tail rx) + unat (fill_cnt rx - cnt rx)) mod 2 ^ k"
    using assms(1) unfolding rda_inv_def by blast+
  show e: "rx' = rx\<lparr>rxd_head := (rxd_head rx + 1) AND rxd_mask rx, fill_cnt := fill_cnt rx + 1\<rparr>"
    using assms(3) by (simp add: gve_rx_advance_head_dqo_def Let_def)
  have "fill_cnt rx' - cnt rx' = (fill_cnt rx - cnt rx) + 1" by (simp add: e)
  then show c: "unat (fill_cnt rx' - cnt rx') = unat (fill_cnt rx - cnt rx) + 1"
    using unat_Suc_lt [of "fill_cnt rx - cnt rx"] assms(2) mask_lt32 [OF I(1)] by (simp only:)
  show "unat (rxd_head rx') = (unat (rxd_tail rx') + unat (fill_cnt rx' - cnt rx')) mod 2 ^ k"
    unfolding c using adv_one [OF I(1), of "rxd_head rx"] I(2) by (simp add: e mod_Suc_eq)
qed

text \<open>A buffer in hand is posted again.\<close>

lemma rda_post_buf:
  assumes "rda_inv k (Suc d) rx" and "gve_rx_post_buf_dqo b rx = (rx', evs)" and ne: "free_bufs rx \<noteq> [] \<or> 0 < d"
  shows "rda_inv k d rx'" "bufs rx' = bufs rx" "free_bufs rx' = free_bufs rx" "RX_SCHEDULE_RESET \<notin> set evs" "rx_ctx rx' = rx_ctx rx"
proof -
  let ?r = "rx\<lparr>rxd_desc_ring := (rxd_desc_ring rx)[unat (rxd_head rx) := \<lparr>rd_buf_id = of_nat b, rd_buf_addr = rb_addr (bufs rx ! b)\<rparr>]\<rparr>"
  have i: "rda_inv k (Suc d) ?r" using assms(1) rda_inv_cong [of ?r rx] by (simp add: rda_view_def)
  have a: "gve_rx_advance_head_dqo ?r = (rx', evs)" using assms(2) by (simp add: gve_rx_post_buf_dqo_def)
  have sum: "unat (fill_cnt rx - cnt rx) + length (free_bufs rx) + Suc d = 2 ^ k" "unat (fill_cnt rx - cnt rx) < 2 ^ k"
    using assms(1) unfolding rda_inv_def by blast+
  show "bufs rx' = bufs rx" "free_bufs rx' = free_bufs rx" "RX_SCHEDULE_RESET \<notin> set evs" "rx_ctx rx' = rx_ctx rx"
    using a by (auto simp: gve_rx_advance_head_dqo_def Let_def split: if_splits)
  have "unat (fill_cnt ?r - cnt ?r) + 1 < 2 ^ k" using sum ne by (cases "free_bufs rx") auto
  note A = rda_advance [OF i this a]
  then have "unat (fill_cnt rx' - cnt rx') + length (free_bufs rx') + d = 2 ^ k \<and> unat (fill_cnt rx' - cnt rx') < 2 ^ k"
    using sum ne by (cases "free_bufs rx") (auto simp: A(1))
  then show "rda_inv k d rx'" using i A(3) unfolding rda_inv_def by (simp add: A(1))
qed

text \<open>A new mbuf is posted from the free list, if the allocation succeeds.\<close>

lemma rda_post_new:
  assumes "rda_inv k d rx" and "free_bufs rx \<noteq> []" and "d = 0 \<longrightarrow> length (free_bufs rx) \<noteq> 1" and "gve_rx_post_new_mbuf_dqo env rx = (e, rx', evs)"
  shows "rda_inv k d rx'" "e \<noteq> None \<Longrightarrow> free_bufs rx' = free_bufs rx" "RX_SCHEDULE_RESET \<notin> set evs" "rx_ctx rx' = rx_ctx rx"
    "e = None \<Longrightarrow> free_bufs rx' = tl (free_bufs rx)"
    "\<forall>c. rb_mbuf (bufs rx ! c) \<noteq> None \<longrightarrow> rb_mbuf (bufs rx' ! c) = rb_mbuf (bufs rx ! c)"
proof -
  obtain b fs where fs: "free_bufs rx = b # fs" using assms(2) by (cases "free_bufs rx") auto
  have I: "ring_mask k (rxd_mask rx)" "length (bufs rx) = 2 ^ k" "distinct (b # fs)"
    "set (b # fs) = {b. b < 2 ^ k \<and> rb_mbuf (bufs rx ! b) = None}" "unat (fill_cnt rx - cnt rx) + length (b # fs) + d = 2 ^ k"
    using assms(1) unfolding rda_inv_def fs by blast+
  have b: "b < length (bufs rx)" "rb_mbuf (bufs rx ! b) = None" using I(2,4) by auto
  let ?n = "rxd_allocs rx" let ?r1 = "rx\<lparr>rxd_allocs := ?n + 1\<rparr>"
  have "(bufs rx ! b)\<lparr>rb_mbuf := None\<rparr> = bufs rx ! b" using b(2) by (cases "bufs rx ! b") simp
  then have nn: "(bufs rx)[b := (bufs rx ! b)\<lparr>rb_mbuf := None\<rparr>] = bufs rx" by simp
  consider (fail) g where "e \<noteq> None" "rx' = count_rx g (upd_buf b (\<lambda>x. x\<lparr>rb_mbuf := None\<rparr>) ?r1)" "RX_SCHEDULE_RESET \<notin> set evs"
    | (ok) p addr where "e = None" "al_mbuf env ?n = Some p"
        "gve_rx_post_buf_dqo b (upd_buf b (\<lambda>x. x\<lparr>rb_mbuf := Some (p, al_bytes env ?n), rb_addr := addr\<rparr>) (?r1\<lparr>free_bufs := fs\<rparr>)) = (rx', evs)"
    using assms(4) fs by (auto simp: gve_rx_post_new_mbuf_dqo_def Let_def split: option.splits sum.splits prod.splits)
  then have "rda_inv k d rx' \<and> (e \<noteq> None \<longrightarrow> free_bufs rx' = free_bufs rx) \<and> RX_SCHEDULE_RESET \<notin> set evs \<and> rx_ctx rx' = rx_ctx rx \<and>
    (e = None \<longrightarrow> free_bufs rx' = tl (free_bufs rx)) \<and> (\<forall>c. rb_mbuf (bufs rx ! c) \<noteq> None \<longrightarrow> rb_mbuf (bufs rx' ! c) = rb_mbuf (bufs rx ! c))"
  proof cases
    case fail
    then have "rda_view rx' = rda_view rx" "bufs rx' = bufs rx" using nn by (simp_all add: rda_view_def)
    then show ?thesis using assms(1) rda_inv_cong [of rx' rx] fail by auto
  next
    case ok
    let ?r = "upd_buf b (\<lambda>x. x\<lparr>rb_mbuf := Some (p, al_bytes env ?n), rb_addr := addr\<rparr>) (?r1\<lparr>free_bufs := fs\<rparr>)"
    have "set fs = set (b # fs) - {b}" using I(3) by auto
    also have "\<dots> = {c. c < 2 ^ k \<and> rb_mbuf (bufs ?r ! c) = None}"
      unfolding I(4) using b by (intro set_eqI) (simp add: nth_list_update)
    finally have "set fs = {c. c < 2 ^ k \<and> rb_mbuf (bufs ?r ! c) = None}" .
    then have "rda_inv k (Suc d) ?r" using assms(1) I by (simp add: rda_inv_def)
    moreover have "fs \<noteq> [] \<or> 0 < d" using assms(3) fs by (cases fs) auto
    ultimately have "rda_inv k d rx'" "bufs rx' = bufs ?r" "free_bufs rx' = fs" "RX_SCHEDULE_RESET \<notin> set evs" "rx_ctx rx' = rx_ctx rx"
      using rda_post_buf [OF _ ok(3), of k d] by simp_all
    then show ?thesis using ok(1) fs b by (auto simp: nth_list_update)
  qed
  then show "rda_inv k d rx'" "e \<noteq> None \<Longrightarrow> free_bufs rx' = free_bufs rx" "RX_SCHEDULE_RESET \<notin> set evs" "rx_ctx rx' = rx_ctx rx"
    "e = None \<Longrightarrow> free_bufs rx' = tl (free_bufs rx)"
    "\<forall>c. rb_mbuf (bufs rx ! c) \<noteq> None \<longrightarrow> rb_mbuf (bufs rx' ! c) = rb_mbuf (bufs rx ! c)" by blast+
qed


section \<open>Raw addressing: one completion\<close>

lemma no_reset_free [simp]: "RX_SCHEDULE_RESET \<notin> set (free_head c)"
  by (simp add: free_head_def split: option.splits)

lemma input_sel: "gve_rx_input_mbuf_dqo env cd rx = (rx', evs) \<Longrightarrow> rda_view rx' = rda_view rx \<and> bufs rx' = bufs rx \<and>
    RX_SCHEDULE_RESET \<notin> set evs \<and> rx_ctx rx' = empty_ctx"
  by (auto simp: gve_rx_input_mbuf_dqo_def Let_def rda_view_def split: prod.splits if_splits)

lemma copybreak_sel: "gve_rx_copybreak_dqo env va cd l rx = (e, rx', evs) \<Longrightarrow> rda_view rx' = rda_view rx \<and> bufs rx' = bufs rx \<and> RX_SCHEDULE_RESET \<notin> set evs"
  by (auto simp: gve_rx_copybreak_dqo_def Let_def rda_view_def split: option.splits prod.splits dest!: input_sel)

lemma rda_view_sel: "rda_view rx' = rda_view rx \<Longrightarrow> free_bufs rx' = free_bufs rx"
  by (simp add: rda_view_def)

lemma rda_drop:
  assumes "rda_inv k 1 t" and "free_bufs t \<noteq> []" and "drop_frag_dqo (gve_rx_post_buf_dqo b) l t = (t', evs)"
  shows "rda_inv k 0 t'" "bufs t' = bufs t" "RX_SCHEDULE_RESET \<notin> set evs"
proof -
  let ?u = "t\<lparr>rx_ctx := empty_ctx\<lparr>drop_pkt := True\<rparr>\<rparr>"
  obtain r1 e1 where p: "gve_rx_post_buf_dqo b ?u = (r1, e1)" by fastforce
  have "rda_inv k (Suc 0) ?u" using assms(1) rda_inv_cong [of ?u t] by (simp add: rda_view_def)
  note A = rda_post_buf [OF this p]
  have "rda_view t' = rda_view r1 \<and> bufs t' = bufs r1 \<and> RX_SCHEDULE_RESET \<notin> set evs"
    using assms(3) p A(4) assms(2) by (cases l) (auto simp: drop_frag_dqo_def drop_frag_clear_ctx_def Let_def rda_view_def)
  moreover have "rda_inv k 0 r1" "bufs r1 = bufs t" using A(1,2) assms(2) by simp_all
  ultimately show "rda_inv k 0 t'" "bufs t' = bufs t" "RX_SCHEDULE_RESET \<notin> set evs"
    using rda_inv_cong [of t' r1] by auto
qed

lemma rda_one:
  assumes inv: "rda_inv k 1 rx" and ne: "free_bufs rx \<noteq> []" and b: "b = unat (rc_buf_id cd)" "b < buf_cnt rx" "rb_mbuf (bufs rx ! b) = Some (p, bytes)"
    and run: "gve_rx_dqo env cd rx = (w, rx', evs)"
  shows "rda_inv k 0 rx' \<and> RX_SCHEDULE_RESET \<notin> set evs \<and>
    (\<forall>c. c \<noteq> b \<longrightarrow> rb_mbuf (bufs rx ! c) \<noteq> None \<longrightarrow> rb_mbuf (bufs rx' ! c) = rb_mbuf (bufs rx ! c))"
proof -
  let ?drop = "\<lambda>t. case drop_frag_dqo (gve_rx_post_buf_dqo b) (eop cd) t of (t', evs) \<Rightarrow> (0 :: nat, t', evs)"
  let ?Q = "\<lambda>rx' evs. rda_inv k 0 rx' \<and> RX_SCHEDULE_RESET \<notin> set evs \<and>
    (\<forall>c. c \<noteq> b \<longrightarrow> rb_mbuf (bufs rx ! c) \<noteq> None \<longrightarrow> rb_mbuf (bufs rx' ! c) = rb_mbuf (bufs rx ! c))"
  have drop: "?Q t' ev" if "?drop t = (w, t', ev)" "rda_inv k 1 t" "free_bufs t \<noteq> []"
    "\<forall>c. rb_mbuf (bufs rx ! c) \<noteq> None \<longrightarrow> rb_mbuf (bufs t ! c) = rb_mbuf (bufs rx ! c)" for t t' ev w
    using rda_drop [OF that(2,3), of b "eop cd" t' ev] that(1,4) by (auto split: prod.splits)
  have cg: "rda_inv k 1 (count_rx g rx)" for g using inv rda_inv_cong [of "count_rx g rx" rx] by (simp add: rda_view_def)
  have bb: "\<not> unat (rc_buf_id cd) \<ge> buf_cnt rx" "b < length (bufs rx)" using b inv by (auto simp: rda_inv_def)
  show ?thesis
  proof (cases "drop_pkt (rx_ctx rx) \<or> rx_error cd")
    case True
    obtain t where t: "?drop t = (w, rx', evs)" "t = rx \<or> (\<exists>g. t = count_rx g rx)"
      using run b bb True by (cases "drop_pkt (rx_ctx rx)") (simp_all add: gve_rx_dqo_def Let_def, blast+)
    show ?thesis using drop [OF t(1)] t(2) inv cg ne by auto
  next
    case False
    let ?fl = "packet_len cd"
    show ?thesis
    proof (cases "ucast ?fl \<le> rx_copybreak env \<and> mbuf_head (rx_ctx rx) = None \<and> eop cd")
      case True
      obtain e r1 e1 where c: "gve_rx_copybreak_dqo env bytes cd ?fl rx = (e, r1, e1)" by (metis prod_cases3)
      note C = copybreak_sel [OF c]
      have i1: "rda_inv k 1 r1" "free_bufs r1 \<noteq> []" using C inv ne rda_inv_cong rda_view_sel by metis+
      show ?thesis
      proof (cases e)
        case (Some x)
        then have "?drop r1 = (w, rx', evs)" using run False True c b bb by (simp add: gve_rx_dqo_def Let_def)
        then show ?thesis using drop [OF _ i1] C by simp
      next
        case None
        obtain r2 e2 where p2: "gve_rx_post_buf_dqo b r1 = (r2, e2)" by fastforce
        have "rx' = r2" "evs = e1 @ e2" using run False True c b bb None p2 by (auto simp: gve_rx_dqo_def Let_def)
        then show ?thesis using rda_post_buf [of k 0, OF _ p2] i1 C by auto
      qed
    next
      case nocopy: False
      obtain e r1 e1 where p1: "gve_rx_post_new_mbuf_dqo env rx = (e, r1, e1)" by (metis prod_cases3)
      note A = rda_post_new [OF inv ne _ p1]
      have m1: "rb_mbuf (bufs r1 ! b) \<noteq> None" using A(6) b(3) by simp
      show ?thesis
      proof (cases "e \<noteq> None \<and> num_pending_bufs rx \<le> GVE_RX_DQO_MIN_PENDING_BUFS")
        case True
        let ?t = "count_rx (\<lambda>st. st\<lparr>rx_dropped_pkt_mbuf_alloc_fail := rx_dropped_pkt_mbuf_alloc_fail st + 1\<rparr>) r1"
        obtain r2 e2 where d: "?drop ?t = (0, r2, e2)" by (simp split: prod.splits) fastforce
        have "rx' = r2" "evs = e1 @ e2" using run False nocopy p1 b bb True d by (auto simp: gve_rx_dqo_def Let_def)
        moreover have "?Q r2 e2" using drop [OF d] A(1,2,6) True ne rda_inv_cong [of ?t r1] by (simp add: rda_view_def)
        ultimately show ?thesis using A(3) by auto
      next
        case post: False
        let ?r2 = "upd_ctx (\<lambda>c. (add_frag p (Cluster p (take (unat ?fl) bytes)) c)\<lparr>total_size := total_size c + ucast ?fl\<rparr>) r1"
        let ?r3 = "upd_buf b (\<lambda>x. x\<lparr>rb_mbuf := None, rb_addr := 0\<rparr>) ?r2"
        let ?r4 = "?r3\<lparr>free_bufs := b # free_bufs ?r3\<rparr>"
        have lb: "length (bufs r1) = 2 ^ k" "b < 2 ^ k" "distinct (free_bufs r1)" "set (free_bufs r1) = {b. b < 2 ^ k \<and> rb_mbuf (bufs r1 ! b) = None}"
          using A(1) bb inv by (auto simp: rda_inv_def)
        have nb: "b \<notin> set (free_bufs r1)" using lb(4) m1 by auto
        have "set (free_bufs ?r4) = {c. c < 2 ^ k \<and> rb_mbuf (bufs ?r4 ! c) = None}"
          using lb(1,2) by (intro set_eqI) (simp add: lb(4) nth_list_update)
        then have i4: "rda_inv k 0 ?r4" using A(1) nb unfolding rda_inv_def by simp
        have o4: "\<forall>c. c \<noteq> b \<longrightarrow> rb_mbuf (bufs rx ! c) \<noteq> None \<longrightarrow> rb_mbuf (bufs ?r4 ! c) = rb_mbuf (bufs rx ! c)" using A(6) by simp
        obtain r5 e5 where inp: "gve_rx_input_mbuf_dqo env cd ?r4 = (r5, e5)" by fastforce
        have "(rx' = ?r4 \<and> evs = e1) \<or> (rx' = r5 \<and> evs = e1 @ e5)"
          using run False nocopy p1 b bb post inp by (cases "eop cd") (auto simp: gve_rx_dqo_def Let_def)
        moreover have "rda_inv k 0 r5 \<and> RX_SCHEDULE_RESET \<notin> set e5 \<and> bufs r5 = bufs ?r4"
          using input_sel [OF inp] i4 rda_inv_cong [of r5 ?r4] by blast
        ultimately show ?thesis using i4 o4 A(3) by auto
      qed
    qed
  qed
qed


section \<open>Raw addressing: the cleanup task\<close>

lemma rda_pending: "rda_inv k d rx \<Longrightarrow> unat (num_pending_bufs rx) = unat (fill_cnt rx - cnt rx)"
  unfolding num_pending_bufs_def rda_inv_def by (elim conjE) (rule mask_diff)

text \<open>Refilling: the ring is full again when every allocation succeeds.\<close>

lemma rda_post_loop:
  assumes "rda_inv k 0 rx" and "unat (fill_cnt rx - cnt rx) + n < 2 ^ k" and "post_buffers_loop n False env rx = (rx', evs)"
  shows "rda_inv k 0 rx' \<and> RX_SCHEDULE_RESET \<notin> set evs \<and> cview rx' = cview rx \<and>
    ((\<forall>j. al_mbuf env j \<noteq> None \<and> (\<exists>a. al_load env j = Inr a)) \<longrightarrow> unat (fill_cnt rx' - cnt rx') = unat (fill_cnt rx - cnt rx) + n) \<and>
    (\<forall>c. rb_mbuf (bufs rx ! c) \<noteq> None \<longrightarrow> rb_mbuf (bufs rx' ! c) = rb_mbuf (bufs rx ! c))"
  using assms
proof (induction n arbitrary: rx rx' evs)
  case (Suc n)
  obtain e r1 e1 where p: "gve_rx_post_new_mbuf_dqo env rx = (e, r1, e1)" by (metis prod_cases3)
  have sum: "unat (fill_cnt rx - cnt rx) + length (free_bufs rx) + 0 = 2 ^ k" using Suc.prems(1) unfolding rda_inv_def by blast
  then have f: "free_bufs rx \<noteq> []" "0 = (0 :: nat) \<longrightarrow> length (free_bufs rx) \<noteq> 1" using Suc.prems(2) by auto
  note A = rda_post_new [OF Suc.prems(1) f p]
  have cv: "cview r1 = cview rx" using cview_post_new(1) [of env rx] p by simp
  show ?case
  proof (cases e)
    case (Some x)
    have "e = None" if "\<forall>j. al_mbuf env j \<noteq> None \<and> (\<exists>a. al_load env j = Inr a)"
      using spec [OF that, of "rxd_allocs rx"] p f(1) by (auto simp: gve_rx_post_new_mbuf_dqo_def Let_def split: list.splits option.splits sum.splits prod.splits)
    then show ?thesis using Some p Suc.prems(3) A(1,3,6) cv by auto
  next
    case None
    obtain r2 e2 where l: "post_buffers_loop n False env r1 = (r2, e2)" by fastforce
    have "unat (fill_cnt r1 - cnt r1) + length (free_bufs r1) + 0 = 2 ^ k" using A(1) unfolding rda_inv_def by blast
    then have c: "unat (fill_cnt r1 - cnt r1) = unat (fill_cnt rx - cnt rx) + 1"
      using sum A(5) [OF None] f(1) by (cases "free_bufs rx") auto
    then have "unat (fill_cnt r1 - cnt r1) + n < 2 ^ k" using Suc.prems(2) by simp
    note R = Suc.IH [OF A(1) this l]
    have "rx' = r2" "evs = e1 @ e2" using Suc.prems(3) p None l by auto
    then show ?thesis using R A(3,6) cv c by auto
  qed
qed simp

text \<open>The completions written are for distinct posted buffers.\<close>

definition compl_id :: "gve_rx_ring_dqo \<Rightarrow> nat \<Rightarrow> nat" where
  "compl_id rx j = unat (rc_buf_id (rxd_compl_ring rx ! ((unat (rxd_tail rx) + j) mod length (rxd_compl_ring rx))))"

definition compls_valid :: "gve_rx_ring_dqo \<Rightarrow> nat \<Rightarrow> bool" where
  "compls_valid rx n \<longleftrightarrow> inj_on (compl_id rx) {..<n} \<and>
     (\<forall>j < n. compl_id rx j < buf_cnt rx \<and> rb_mbuf (bufs rx ! compl_id rx j) \<noteq> None)"

lemma rda_handle:
  assumes I: "rda_inv k 0 rx" "compls_valid rx (Suc n)" and c: "rxd_compl_ok rx" and h: "rxd_handle False env rx = (w, rx', evs)"
  shows "(rda_inv k 0 rx' \<and> compls_valid rx' n) \<and> (\<forall>e \<in> set evs. e \<noteq> RX_SCHEDULE_RESET)"
proof -
  obtain kk where kk: "ring_mask kk (rxd_mask rx)" "length (rxd_compl_ring rx) = 2 ^ kk" "unat (rxd_tail rx) < 2 ^ kk" using c by (auto simp: rxd_compl_ok_def)
  let ?b = "compl_id rx 0" let ?cd = "rxd_compl_ring rx ! unat (rxd_tail rx)"
  have b: "?b = unat (rc_buf_id ?cd)" using kk by (simp add: compl_id_def)
  have v: "?b < buf_cnt rx" "rb_mbuf (bufs rx ! ?b) \<noteq> None" using I(2) by (simp_all add: compls_valid_def)
  then obtain p bytes where p: "rb_mbuf (bufs rx ! ?b) = Some (p, bytes)" by auto
  let ?r = "rxd_consume rx"
  have s: "bufs ?r = bufs rx" "buf_cnt ?r = buf_cnt rx" "free_bufs ?r = free_bufs rx" by (simp_all add: rxd_consume_def Let_def)
  have "unat (fill_cnt rx - cnt rx) + length (free_bufs rx) + 0 = 2 ^ k" "unat (fill_cnt rx - cnt rx) < 2 ^ k" using I(1) unfolding rda_inv_def by blast+
  then have ne: "free_bufs ?r \<noteq> []" using s(3) by auto
  have R: "rda_inv k 0 rx'" "\<And>c. c \<noteq> ?b \<Longrightarrow> rb_mbuf (bufs rx ! c) \<noteq> None \<Longrightarrow> rb_mbuf (bufs rx' ! c) = rb_mbuf (bufs rx ! c)" "RX_SCHEDULE_RESET \<notin> set evs"
    using rda_one [OF rda_consume [OF I(1) v] ne b _ _, of p bytes env w rx' evs] h v(1) p s by (simp_all add: rxd_handle_def)
  have id: "compl_id rx' j = compl_id rx (Suc j)" for j
    using adv_shift [OF kk(1), of "rxd_tail rx" j] by (simp add: compl_id_def handle_sel [OF h] kk(2))
  have "compls_valid rx' n"
    unfolding compls_valid_def
  proof (intro conjI allI impI)
    have "inj_on (compl_id rx \<circ> Suc) {..<n}"
      using I(2) by (intro comp_inj_on) (auto simp: compls_valid_def intro: inj_on_subset)
    then show "inj_on (compl_id rx') {..<n}" by (rule inj_on_cong [THEN iffD1, rotated]) (simp add: id)
    fix j assume j: "j < n"
    have "compl_id rx (Suc j) \<noteq> ?b" using I(2) j unfolding compls_valid_def by (auto dest: inj_onD)
    then show "compl_id rx' j < buf_cnt rx'" "rb_mbuf (bufs rx' ! compl_id rx' j) \<noteq> None"
      using I(2) j R(2) [of "compl_id rx (Suc j)"] unfolding compls_valid_def id handle_sel(6) [OF h] by auto
  qed
  then show ?thesis using R(1,3) by blast
qed


lemma rda_refill:
  assumes I: "rda_inv k 0 rx" and p: "gve_rx_post_buffers_dqo False env rx = (rx', evs)"
  shows "rda_inv k 0 rx'" "RX_SCHEDULE_RESET \<notin> set evs"
    "\<forall>j. al_mbuf env j \<noteq> None \<and> (\<exists>a. al_load env j = Inr a) \<Longrightarrow> unat (fill_cnt rx' - cnt rx') = unat (rxd_mask rx)"
proof -
  have m: "ring_mask k (rxd_mask rx)" "unat (fill_cnt rx - cnt rx) < 2 ^ k" using I unfolding rda_inv_def by blast+
  have le: "unat (num_pending_bufs rx) \<le> unat (rxd_mask rx)" using ring_mask_lt [OF m(1)] m(2) rda_pending [OF I] by simp
  let ?n = "unat (rxd_mask rx - num_pending_bufs rx)"
  have n: "?n = unat (rxd_mask rx) - unat (num_pending_bufs rx)" using le by (simp add: unat_sub word_le_nat_alt)
  have "unat (fill_cnt rx - cnt rx) + ?n < 2 ^ k" using n le rda_pending [OF I] ring_mask_lt [OF m(1)] by simp
  note A = rda_post_loop [OF I this, of env rx' evs]
  show "rda_inv k 0 rx'" "RX_SCHEDULE_RESET \<notin> set evs" using A p by (simp_all add: gve_rx_post_buffers_dqo_def)
  show "unat (fill_cnt rx' - cnt rx') = unat (rxd_mask rx)" if "\<forall>j. al_mbuf env j \<noteq> None \<and> (\<exists>a. al_load env j = Inr a)"
    using A p that n le rda_pending [OF I] by (simp add: gve_rx_post_buffers_dqo_def)
qed

text \<open>
  C23. The DQO receive queue with raw addressing (\<open>gve_rx_cleanup_dqo\<close>): from a consistent ring, with
  completions for distinct buffers the device holds, the cleanup task ends, asks for no reset and
  leaves the ring consistent: a buffer has an mbuf exactly when the device holds it, and the ring
  never holds more descriptors than it has slots less one. It asks to run again only when
  its budget is used up and otherwise leaves no completion unhandled. When no allocation
  fails the device is given every buffer back that the ring can hold.
\<close>

theorem gve_rx_cleanup_dqo_rda_correct:
  assumes "rda_inv k 0 rx" and "rxd_compl_ok rx" and "rxd_written rx n" and "compls_valid rx n"
  shows "\<exists>more rx' evs m. gve_rx_cleanup_dqo False env budget rx = Some (more, rx', evs) \<and> rda_inv k 0 rx' \<and>
    RX_SCHEDULE_RESET \<notin> set evs \<and> rxd_written rx' m \<and> m \<le> n \<and> (\<not> more \<longrightarrow> m = 0) \<and>
    ((\<forall>j. al_mbuf env j \<noteq> None \<and> (\<exists>a. al_load env j = Inr a)) \<longrightarrow> unat (num_pending_bufs rx') = unat (rxd_mask rx'))"
proof -
  let ?I = "\<lambda>rx n. rda_inv k 0 rx \<and> compls_valid rx n"
  have st: "\<forall>rx n w rx' evs. ?I rx (Suc n) \<longrightarrow> rxd_compl_ok rx \<longrightarrow> rxd_handle False env rx = (w, rx', evs) \<longrightarrow>
    ?I rx' n \<and> (\<forall>e \<in> set evs. e \<noteq> RX_SCHEDULE_RESET)" using rda_handle by blast
  obtain more rx' evs1 evs2 m rx1 rx2 where R: "gve_rx_cleanup_dqo False env budget rx = Some (more, rx', evs1 @ evs2)"
    "\<forall>e \<in> set evs1. e \<noteq> RX_SCHEDULE_RESET \<or> e = RX_LRO_FLUSH_ALL" "?I rx1 m" "m \<le> n" "gve_rx_post_buffers_dqo False env rx1 = (rx2, evs2)"
    "rx' = (if False then gve_rx_maybe_extract_from_used_bufs False rx2 else rx2)" "rxd_compl_ok rx'" "rxd_written rx' m" "\<not> more \<longrightarrow> m = 0"
    by (rule rxd_cleanup [OF st assms(2,3) conjI [OF assms(1,4)]])
  have e: "rx' = rx2" using R(6) by simp
  note F = rda_refill [OF conjunct1 [OF R(3)] R(5)]
  have mk: "rxd_mask rx2 = rxd_mask rx1" using cview_post_loop [of "unat (rxd_mask rx1 - num_pending_bufs rx1)" False env rx1] R(5)
    by (simp add: gve_rx_post_buffers_dqo_def cview_def)
  have "RX_SCHEDULE_RESET \<notin> set (evs1 @ evs2)" using R(2) F(2) by auto
  moreover have "unat (num_pending_bufs rx') = unat (rxd_mask rx')" if "\<forall>j. al_mbuf env j \<noteq> None \<and> (\<exists>a. al_load env j = Inr a)"
    using F(3) [OF that] rda_pending [OF F(1)] mk e by simp
  ultimately show ?thesis using R(1,4,8,9) F(1) e by blast
qed


section \<open>Start-up\<close>

text \<open>What allocation sets up.\<close>

definition rda_alloced :: "nat \<Rightarrow> gve_rx_ring_dqo \<Rightarrow> bool" where
  "rda_alloced k rx \<longleftrightarrow> k < 32 \<and> length (rxd_desc_ring rx) = 2 ^ k \<and> length (rxd_compl_ring rx) = 2 ^ k \<and>
     length (bufs rx) = 2 ^ k \<and> buf_cnt rx = 2 ^ k"

lemma rda_clear:
  assumes "rda_alloced k rx" and "gve_clear_rx_ring_dqo False (2 ^ k) rx = (rx', evs)"
  shows "rda_inv k 0 rx'" "rxd_compl_ok rx'" "rxd_written rx' 0"
    "evs = map (\<lambda>m. RX_M_FREEM (fst m)) (List.map_filter rb_mbuf (bufs rx))"
proof -
  have A: "k < 32" "length (rxd_desc_ring rx) = 2 ^ k" "length (rxd_compl_ring rx) = 2 ^ k" "length (bufs rx) = 2 ^ k" "buf_cnt rx = 2 ^ k"
    using assms(1) unfolding rda_alloced_def by blast+
  have s: "rxd_mask rx' = of_nat (2 ^ k) - 1" "rxd_desc_ring rx' = replicate (2 ^ k) zero_rx_desc_dqo"
    "bufs rx' = map (\<lambda>b. b\<lparr>rb_mbuf := None\<rparr>) (bufs rx)" "buf_cnt rx' = 2 ^ k" "free_bufs rx' = rev [0..<2 ^ k]" "fill_cnt rx' = 0" "cnt rx' = 0"
    "rxd_tail rx' = 0" "rxd_head rx' = 0" "rxd_compl_ring rx' = replicate (2 ^ k) zero_rx_compl_desc" "rxd_gen_bit rx' = False"
    and e: "evs = map (\<lambda>m. RX_M_FREEM (fst m)) (List.map_filter rb_mbuf (bufs rx))"
    using assms(2) A by (auto simp: gve_clear_rx_ring_dqo_def Let_def gve_free_rx_mbufs_dqo_def gve_rx_clear_compl_ring_dqo_def gve_rx_clear_desc_ring_dqo_def)
  have m: "ring_mask k (rxd_mask rx')" using A(1) by (simp add: ring_mask_def mask_eq_decr_exp s)
  show "rda_inv k 0 rx'" using m A(4) unfolding rda_inv_def by (auto simp: s atLeast0LessThan)
  show "rxd_compl_ok rx'" using m unfolding rxd_compl_ok_def by (intro exI [of _ k]) (simp add: s)
  show "rxd_written rx' 0" by (simp add: rxd_written_def Let_def s gve_rx_get_gen_bit_def zero_rx_compl_desc_def)
  show "evs = map (\<lambda>m. RX_M_FREEM (fst m)) (List.map_filter rb_mbuf (bufs rx))" by (rule e)
qed

definition ex_rxd_raw :: gve_rx_ring_dqo where
  "ex_rxd_raw = \<lparr>rx_com = \<lparr>com_id = 0, irq_db_offset = 8, db_offset = 16, counter_idx = 0, ntfy_id = 0\<rparr>, cnt = 0, fill_cnt = 0,
     rx_ctx = empty_ctx, rx_stats = \<lparr>rbytes = 0, rpackets = 0, rx_dropped_pkt = 0, rx_copybreak_cnt = 0, rx_frag_flip_cnt = 0,
       rx_frag_copy_cnt = 0, rx_dropped_pkt_desc_err = 0, rx_dropped_pkt_buf_post_fail = 0, rx_dropped_pkt_mbuf_alloc_fail = 0,
       rx_mbuf_dmamap_err = 0, rx_mbuf_mclget_null = 0\<rparr>,
     rxd_compl_ring = replicate 4 zero_rx_compl_desc, rxd_desc_ring = replicate 4 zero_rx_desc_dqo,
     bufs = replicate 4 \<lparr>rb_mbuf = None, rb_addr = 0, num_nic_frags = 0, next_idx = 0\<rparr>, buf_cnt = 4, rxd_mask = 0, rxd_head = 0, rxd_tail = 0,
     rxd_gen_bit = False, free_bufs = [], used_bufs = [], rxd_pages = replicate 4 (replicate 8 0), rxd_dmas = [0x1000, 0x2000, 0x3000, 0x4000],
     rxd_lent = [], rxd_allocs = 0\<rparr>"

definition ex_rxd_env :: rxd_env where
  "ex_rxd_env = \<lparr>rx_copybreak = 0, lro_enabled = False, lro_cnt = 0, tcp_lro_rx_ok = (\<lambda>_. False), ptype_lut = (\<lambda>_. \<lparr>l3_type = 2, l4_type = 2\<rparr>),
     al_mbuf = Some, al_bytes = (\<lambda>_. [1, 2, 3, 4]), al_load = (\<lambda>n. Inr (of_nat n))\<rparr>"

text \<open>The ring is cleared and filled, and the device has completed buffer 3.\<close>

definition ex_rxd :: gve_rx_ring_dqo where
  "ex_rxd = (let rx = fst (gve_rx_prefill_buffers_dqo False ex_rxd_env (fst (gve_clear_rx_ring_dqo False 4 ex_rxd_raw)))
     in rx\<lparr>rxd_compl_ring := (rxd_compl_ring rx)[0 := zero_rx_compl_desc\<lparr>rc_len_gen := 0x4003, eop := True, rc_buf_id := 3\<rparr>]\<rparr>)"

lemma ex_rxd_ok: "rda_inv 2 0 ex_rxd" "rxd_compl_ok ex_rxd" "rxd_written ex_rxd 1" "compls_valid ex_rxd 1"
proof -
  obtain r0 e0 where c: "gve_clear_rx_ring_dqo False (2 ^ 2) ex_rxd_raw = (r0, e0)" by fastforce
  obtain r1 e1 where p: "gve_rx_post_buffers_dqo False ex_rxd_env r0 = (r1, e1)" by fastforce
  have "rda_alloced 2 ex_rxd_raw" by (simp add: rda_alloced_def ex_rxd_raw_def)
  note C = rda_clear [OF this c] note P = rda_refill [OF C(1) p]
  have x: "ex_rxd = r1\<lparr>rxd_compl_ring := (rxd_compl_ring r1)[0 := zero_rx_compl_desc\<lparr>rc_len_gen := 0x4003, eop := True, rc_buf_id := 3\<rparr>]\<rparr>"
    using c p by (simp add: ex_rxd_def gve_rx_prefill_buffers_dqo_def Let_def)
  have cv: "cview r1 = cview r0" using cview_post_loop [of "unat (rxd_mask r0 - num_pending_bufs r0)" False ex_rxd_env r0] p by (simp add: gve_rx_post_buffers_dqo_def)
  show "rda_inv 2 0 ex_rxd" using P(1) rda_inv_cong [of ex_rxd r1] by (simp add: x rda_view_def)
  show "rxd_compl_ok ex_rxd" using C(2) compl_ok_cview [OF cv] by (simp add: x rxd_compl_ok_def)
  show "rxd_written ex_rxd 1" by code_simp
  have "rb_mbuf (bufs ex_rxd ! 3) \<noteq> None" "compl_id ex_rxd 0 = 3" "buf_cnt ex_rxd = 4" by code_simp+
  then show "compls_valid ex_rxd 1" by (simp add: compls_valid_def inj_on_def)
qed

theorem gve_rx_cleanup_dqo_rda_correct_witness:
  "\<exists>rx' evs. gve_rx_cleanup_dqo False ex_rxd_env 64 ex_rxd = Some (False, rx', evs) \<and> rda_inv 2 0 rx' \<and>
     RX_SCHEDULE_RESET \<notin> set evs \<and> rxd_written rx' 0 \<and> unat (num_pending_bufs rx') = unat (rxd_mask rx')"
proof -
  obtain more rx' evs m where r: "gve_rx_cleanup_dqo False ex_rxd_env 64 ex_rxd = Some (more, rx', evs)" "rda_inv 2 0 rx'"
    "RX_SCHEDULE_RESET \<notin> set evs" "rxd_written rx' m" "\<not> more \<longrightarrow> m = 0"
    "(\<forall>j. al_mbuf ex_rxd_env j \<noteq> None \<and> (\<exists>a. al_load ex_rxd_env j = Inr a)) \<longrightarrow> unat (num_pending_bufs rx') = unat (rxd_mask rx')"
    using gve_rx_cleanup_dqo_rda_correct [OF ex_rxd_ok, of ex_rxd_env 64] by blast
  have "map_option fst (gve_rx_cleanup_dqo False ex_rxd_env 64 ex_rxd) = Some False" by code_simp
  then show ?thesis using r by (simp add: ex_rxd_env_def)
qed

text \<open>
  C24. The receive task of a DQO queue (\<open>gve_rx_cleanup_tq_dqo\<close>) ends whatever the completion ring
  holds, and strands no completion: either it queues itself again, or every completion written has
  been handled by the time it unmasks the interrupt.
\<close>

theorem gve_rx_cleanup_tq_dqo_no_stranding:
  assumes "rxd_compl_ok rx"
  shows "\<exists>rx' evs. gve_rx_cleanup_tq_dqo True q env rx = Some (rx', evs) \<and> rxd_compl_ok rx' \<and>
    (last evs = RX_TASKQUEUE_ENQUEUE \<or>
     (last evs = RX_DB_DQO_WRITE_4 (irq_db_offset (rx_com rx')) (GVE_ITR_NO_UPDATE_DQO OR GVE_ITR_ENABLE_BIT_DQO) \<and> rxd_written rx' 0))"
proof -
  obtain n where n: "rxd_written rx n" using rxd_written_exists [OF assms] by blast
  have st: "\<forall>rx n w rx' evs. True \<longrightarrow> rxd_compl_ok rx \<longrightarrow> rxd_handle q env rx = (w, rx', evs) \<longrightarrow> True \<and> (\<forall>e \<in> set evs. True)" by simp
  obtain more rx' evs1 evs2 m where R: "gve_rx_cleanup_dqo q env 64 rx = Some (more, rx', evs1 @ evs2)" "rxd_compl_ok rx'" "rxd_written rx' m" "\<not> more \<longrightarrow> m = 0"
    by (rule rxd_cleanup [where I = "\<lambda>_ _. True" and E = "\<lambda>_. True", OF st assms n TrueI])
  show ?thesis using R by (cases more) (auto simp: gve_rx_cleanup_tq_dqo_def)
qed

theorem gve_rx_cleanup_tq_dqo_no_stranding_witness:
  "\<exists>rx' evs. gve_rx_cleanup_tq_dqo True False ex_rxd_env ex_rxd = Some (rx', evs) \<and> rxd_compl_ok rx' \<and>
    (last evs = RX_TASKQUEUE_ENQUEUE \<or>
     (last evs = RX_DB_DQO_WRITE_4 (irq_db_offset (rx_com rx')) (GVE_ITR_NO_UPDATE_DQO OR GVE_ITR_ENABLE_BIT_DQO) \<and> rxd_written rx' 0))"
  by (rule gve_rx_cleanup_tq_dqo_no_stranding [OF ex_rxd_ok(2)])

end
