(* ===== verification/Gve_Rx_Dqo_Qpl.thy ===== *)
theory Gve_Rx_Dqo_Qpl
  imports Gve_Rx_Dqo_Inv "HOL-Library.Multiset"
begin

text \<open>
  The DQO receive path on queue page lists: which fragments the device holds, which the stack holds,
  and that the two never meet under any interleaving of the driver, the stack and the device. The
  set of fragments with the device is read off the descriptors the driver writes.
\<close>

unbundle bit_operations_syntax

section \<open>Composed buffer ids\<close>

lemma id_compose:
  assumes "b < GVE_RX_NUM_QPL_PAGES_DQO" and "f < 2 ^ 5"
  shows "id_buf (compose_buf_id b f) = b" "id_frag (compose_buf_id b f) = f"
proof -
  let ?w = "compose_buf_id b f"
  have b: "b < 2 ^ 11" using assms(1) by (simp add: GVE_RX_NUM_QPL_PAGES_DQO_def)
  have "take_bit 11 ?w = of_nat b" 
    using b by (simp add: compose_buf_id_def take_bit_or take_bit_push_bit take_bit_of_nat take_bit_nat_eq_self)
  then show "id_buf ?w = b" using b by (simp add: id_buf_def unat_of_nat take_bit_nat_eq_self)
  have "drop_bit 11 ?w = take_bit 5 (of_nat f)"
    by (rule bit_word_eqI) (auto simp: compose_buf_id_def bit_simps)
  also have "\<dots> = of_nat f" using assms(2) by (simp add: take_bit_of_nat take_bit_nat_eq_self)
  finally have "drop_bit 11 ?w = of_nat f" .
  then show "id_frag ?w = f" using assms(2) by (simp add: id_frag_def unat_of_nat take_bit_nat_eq_self)
qed


section \<open>The pages and their fragments\<close>

text \<open>
  \<open>nic\<close> is the set of fragments the device holds and \<open>h\<close> the fragment in hand while its completion is
  handled. The device is told of a fragment only when no mbuf refers to it, the counters of a buffer
  count its posted fragments, and each buffer is on the free list, on the used list or has
  fragments with the device.
\<close>

definition frags :: "(nat \<times> nat) set \<Rightarrow> nat \<Rightarrow> nat set" where
  "frags nic b = {f. (b, f) \<in> nic}"

definition qpl_inv :: "(nat \<times> nat) set \<Rightarrow> (nat \<times> nat) set \<Rightarrow> gve_rx_ring_dqo \<Rightarrow> bool" where
  "qpl_inv h nic rx \<longleftrightarrow>
     length (bufs rx) = buf_cnt rx \<and> buf_cnt rx \<le> GVE_RX_NUM_QPL_PAGES_DQO \<and>
     distinct (free_bufs rx @ used_bufs rx) \<and> set (free_bufs rx) \<union> set (used_bufs rx) \<subseteq> {..<buf_cnt rx} \<and>
     nic \<union> h \<subseteq> {..<buf_cnt rx} \<times> {..<GVE_DQ_NUM_FRAGS_IN_PAGE} \<and> nic \<inter> h = {} \<and> (nic \<union> h) \<inter> set (rxd_lent rx) = {} \<and>
     (\<forall>b < buf_cnt rx.
        unat (num_nic_frags (bufs rx ! b)) = card (frags nic b) \<and> unat (next_idx (bufs rx ! b)) < GVE_DQ_NUM_FRAGS_IN_PAGE \<and>
        (b \<in> set (free_bufs rx) \<longrightarrow> (\<forall>f \<ge> unat (next_idx (bufs rx ! b)). (b, f) \<notin> nic \<union> h \<and> (b, f) \<notin> set (rxd_lent rx))) \<and>
        (b \<notin> set (free_bufs rx) \<longrightarrow> next_idx (bufs rx ! b) = 0) \<and>
        (b \<in> set (used_bufs rx) \<longrightarrow> (\<forall>f. (b, f) \<notin> nic \<union> h)) \<and>
        (b \<notin> set (free_bufs rx) \<union> set (used_bufs rx) \<longrightarrow> (\<exists>f. (b, f) \<in> nic \<union> h)))"

lemma qpl_inv_cong:
  assumes "bufs rx' = bufs rx" "buf_cnt rx' = buf_cnt rx" "free_bufs rx' = free_bufs rx" "used_bufs rx' = used_bufs rx" "rxd_lent rx' = rxd_lent rx"
  shows "qpl_inv h nic rx' = qpl_inv h nic rx"
  using assms by (simp add: qpl_inv_def)

lemma qpl_invD:
  assumes "qpl_inv h nic rx"
  shows "length (bufs rx) = buf_cnt rx" "buf_cnt rx \<le> GVE_RX_NUM_QPL_PAGES_DQO" "distinct (free_bufs rx @ used_bufs rx)"
    "set (free_bufs rx) \<union> set (used_bufs rx) \<subseteq> {..<buf_cnt rx}" "nic \<union> h \<subseteq> {..<buf_cnt rx} \<times> {..<GVE_DQ_NUM_FRAGS_IN_PAGE}"
    "nic \<inter> h = {}" "(nic \<union> h) \<inter> set (rxd_lent rx) = {}"
    "\<And>b. b < buf_cnt rx \<Longrightarrow> unat (num_nic_frags (bufs rx ! b)) = card (frags nic b)"
    "\<And>b. b < buf_cnt rx \<Longrightarrow> unat (next_idx (bufs rx ! b)) < GVE_DQ_NUM_FRAGS_IN_PAGE"
    "\<And>b f. b \<in> set (free_bufs rx) \<Longrightarrow> f \<ge> unat (next_idx (bufs rx ! b)) \<Longrightarrow> (b, f) \<notin> nic \<union> h \<and> (b, f) \<notin> set (rxd_lent rx)"
    "\<And>b. b < buf_cnt rx \<Longrightarrow> b \<notin> set (free_bufs rx) \<Longrightarrow> next_idx (bufs rx ! b) = 0"
    "\<And>b f. b \<in> set (used_bufs rx) \<Longrightarrow> (b, f) \<notin> nic \<union> h"
    "\<And>b. b < buf_cnt rx \<Longrightarrow> b \<notin> set (free_bufs rx) \<union> set (used_bufs rx) \<Longrightarrow> \<exists>f. (b, f) \<in> nic \<union> h"
  using assms unfolding qpl_inv_def by (blast | force)+

lemma qpl_invI:
  assumes "length (bufs rx) = buf_cnt rx" "buf_cnt rx \<le> GVE_RX_NUM_QPL_PAGES_DQO" "distinct (free_bufs rx @ used_bufs rx)"
    "set (free_bufs rx) \<union> set (used_bufs rx) \<subseteq> {..<buf_cnt rx}" "nic \<union> h \<subseteq> {..<buf_cnt rx} \<times> {..<GVE_DQ_NUM_FRAGS_IN_PAGE}"
    "nic \<inter> h = {}" "(nic \<union> h) \<inter> set (rxd_lent rx) = {}"
    "\<And>b. b < buf_cnt rx \<Longrightarrow> unat (num_nic_frags (bufs rx ! b)) = card (frags nic b)"
    "\<And>b. b < buf_cnt rx \<Longrightarrow> unat (next_idx (bufs rx ! b)) < GVE_DQ_NUM_FRAGS_IN_PAGE"
    "\<And>b f. b \<in> set (free_bufs rx) \<Longrightarrow> f \<ge> unat (next_idx (bufs rx ! b)) \<Longrightarrow> (b, f) \<notin> nic \<union> h \<and> (b, f) \<notin> set (rxd_lent rx)"
    "\<And>b. b < buf_cnt rx \<Longrightarrow> b \<notin> set (free_bufs rx) \<Longrightarrow> next_idx (bufs rx ! b) = 0"
    "\<And>b f. b \<in> set (used_bufs rx) \<Longrightarrow> (b, f) \<notin> nic \<union> h"
    "\<And>b. b < buf_cnt rx \<Longrightarrow> b \<notin> set (free_bufs rx) \<union> set (used_bufs rx) \<Longrightarrow> \<exists>f. (b, f) \<in> nic \<union> h"
  shows "qpl_inv h nic rx"
  using assms unfolding qpl_inv_def by blast

lemma frags_finite: "nic \<subseteq> A \<times> {..<n :: nat} \<Longrightarrow> finite (frags nic b)"
  unfolding frags_def by (rule finite_subset [of _ "{..<n}"]) auto

lemma frags_card: "nic \<subseteq> A \<times> {..<n :: nat} \<Longrightarrow> card (frags nic b) \<le> n"
  using card_mono [of "{..<n}" "frags nic b"] by (auto simp: frags_def)

lemma frags_mem [simp]: "f \<in> frags nic b \<longleftrightarrow> (b, f) \<in> nic" by (simp add: frags_def)
lemma frags_insert [simp]: "frags (insert (b, f) nic) c = (if c = b then insert f (frags nic b) else frags nic c)" by (auto simp: frags_def)
lemma frags_remove [simp]: "frags (nic - {(b, f)}) c = (if c = b then frags nic b - {f} else frags nic c)" by (auto simp: frags_def)
lemma frags_empty [simp]: "frags {} c = {}" by (simp add: frags_def)

lemma FRAGS: "GVE_DQ_NUM_FRAGS_IN_PAGE = 2" by (simp add: GVE_DQ_NUM_FRAGS_IN_PAGE_def PAGE_SIZE_def GVE_DEFAULT_RX_BUFFER_SIZE_def)

text \<open>A completion takes the fragment from the device.\<close>

lemma qpl_take:
  assumes I: "qpl_inv {} nic rx" and m: "(b, f) \<in> nic"
  shows "qpl_inv {(b, f)} (nic - {(b, f)}) (upd_buf b (\<lambda>x. x\<lparr>num_nic_frags := num_nic_frags x - 1\<rparr>) rx)"
    "b < buf_cnt rx" "num_nic_frags (bufs rx ! b) \<noteq> 0"
proof -
  note D = qpl_invD [OF I]
  show b: "b < buf_cnt rx" using D(5) m by auto
  have fin: "finite (frags nic b)" by (rule frags_finite) (use D(5) in auto)
  then have c: "card (frags nic b) > 0" using m by (auto simp: card_gt_0_iff)
  show nz: "num_nic_frags (bufs rx ! b) \<noteq> 0" using D(8) [OF b] c by (auto simp: unat_eq_0)
  have "unat (num_nic_frags (bufs rx ! b) - 1) = card (frags (nic - {(b, f)}) b)"
    using nz D(8) [OF b] m fin by (simp add: unat_minus_one card_Diff_singleton)
  then show "qpl_inv {(b, f)} (nic - {(b, f)}) (upd_buf b (\<lambda>x. x\<lparr>num_nic_frags := num_nic_frags x - 1\<rparr>) rx)"
    using D m b by (auto simp: qpl_inv_def nth_list_update)
qed


lemma post_sel:
  assumes "gve_rx_post_qpl_buf_dqo b f rx = (rx', evs)"
  shows "bufs rx' = (bufs rx)[b := (bufs rx ! b)\<lparr>num_nic_frags := num_nic_frags (bufs rx ! b) + 1\<rparr>]" "buf_cnt rx' = buf_cnt rx"
    "free_bufs rx' = free_bufs rx" "used_bufs rx' = used_bufs rx" "rxd_lent rx' = rxd_lent rx" "rx_ctx rx' = rx_ctx rx" "rxd_pages rx' = rxd_pages rx"
  using assms by (auto simp: gve_rx_post_qpl_buf_dqo_def gve_rx_advance_head_dqo_def Let_def)

lemma unat_inc8: "unat (x :: u8) < 255 \<Longrightarrow> unat (x + 1) = unat x + 1"
  by (simp add: unat_word_ariths)

lemma qpl_card:
  assumes I: "qpl_inv h nic rx" and b: "b < buf_cnt rx" and m: "(b, f) \<notin> nic"
  shows "unat (num_nic_frags (bufs rx ! b) + 1) = card (frags (insert (b, f) nic) b)"
proof -
  note D = qpl_invD [OF I]
  have s: "nic \<subseteq> {..<buf_cnt rx} \<times> {..<GVE_DQ_NUM_FRAGS_IN_PAGE}" using D(5) by blast
  have "unat (num_nic_frags (bufs rx ! b)) < 255" using D(8) [OF b] frags_card [OF s, of b] by (simp add: FRAGS)
  then show ?thesis using D(8) [OF b] m frags_finite [OF s, of b] by (simp add: unat_inc8)
qed

text \<open>The fragment in hand goes back to the device.\<close>

lemma qpl_repost:
  assumes I: "qpl_inv {(b, f)} nic rx" and p: "gve_rx_post_qpl_buf_dqo b f rx = (rx', evs)"
  shows "qpl_inv {} (insert (b, f) nic) rx'"
proof -
  note D = qpl_invD [OF I]
  have b: "b < buf_cnt rx" "(b, f) \<notin> nic" using D(5,6) by auto
  then show ?thesis using D qpl_card [OF I b] by (auto simp: qpl_inv_def post_sel [OF p] nth_list_update)
qed

text \<open>Or it goes to the stack.\<close>

lemma qpl_lend:
  assumes I: "qpl_inv {(b, f)} nic rx"
    and u: "u = (if num_nic_frags (bufs rx ! b) = 0 \<and> next_idx (bufs rx ! b) = 0 then used_bufs rx @ [b] else used_bufs rx)"
  shows "qpl_inv {} nic (rx\<lparr>rxd_lent := (b, f) # rxd_lent rx, used_bufs := u\<rparr>)"
proof -
  note D = qpl_invD [OF I]
  have b: "b < buf_cnt rx" "(b, f) \<notin> nic" "b \<notin> set (used_bufs rx)" using D(5,6) D(12) [of b f] by auto
  have nf: "f < unat (next_idx (bufs rx ! b))" if "b \<in> set (free_bufs rx)" using D(10) [OF that, of f] by (cases "unat (next_idx (bufs rx ! b)) \<le> f") auto
  have fin: "finite (frags nic b)" by (rule frags_finite) (use D(5) in auto)
  have z: "num_nic_frags (bufs rx ! b) = 0 \<longleftrightarrow> (\<forall>g. (b, g) \<notin> nic)" using D(8) [OF b(1)] fin by (auto simp: unat_eq_0 frags_def)
  have u': "set u = set (used_bufs rx) \<union> (if b \<notin> set (free_bufs rx) \<and> (\<forall>g. (b, g) \<notin> nic) then {b} else {})"
    and du: "distinct (free_bufs rx @ u)"
    using u z nf D(11) [OF b(1)] D(3) b(3) by (auto split: if_splits)
  let ?r = "rx\<lparr>rxd_lent := (b, f) # rxd_lent rx, used_bufs := u\<rparr>"
  have sel: "bufs ?r = bufs rx" "buf_cnt ?r = buf_cnt rx" "free_bufs ?r = free_bufs rx" "used_bufs ?r = u" "rxd_lent ?r = (b, f) # rxd_lent rx" by simp_all
  show ?thesis
    apply (rule qpl_invI; (unfold sel)?)
    subgoal by (rule D(1))
    subgoal by (rule D(2))
    subgoal by (rule du)
    subgoal using D(4) b(1) by (auto simp: u' split: if_splits)
    subgoal using D(5) by auto
    subgoal by simp
    subgoal using D(7) b(2) by auto
    subgoal by (rule D(8))
    subgoal by (rule D(9))
    subgoal for c g using D(10) [of c g] nf by auto
    subgoal by (rule D(11))
    subgoal for c g using D(12) [of c g] by (auto simp: u' split: if_splits)
    subgoal for c using D(13) [of c] by (auto simp: u' split: if_splits)
    done
qed

lemma wire_one: "page_wire_count rx b = 1 \<longleftrightarrow> (\<forall>f. (b, f) \<notin> set (rxd_lent rx))"
  by (auto simp: page_wire_count_def filter_empty_conv)

text \<open>Buffers move from the used to the free list only when no mbuf refers to their page.\<close>

lemma extract_loop_spec:
  assumes "extract_loop wc one hol used free = (hol', used', free')"
  shows "mset free' + mset used' + mset_set (set_option hol') = mset free + mset used + mset_set (set_option hol)"
    "set free' \<subseteq> set free \<union> {b \<in> set used. wc b = 1}" "set free \<subseteq> set free'"
  using assms
  by (induction wc one hol used free rule: extract_loop.induct) (auto split: if_splits)


lemma qpl_move:
  assumes I: "qpl_inv h nic rx" and m: "mset fr + mset us = mset (free_bufs rx) + mset (used_bufs rx)"
    and s: "set (free_bufs rx) \<subseteq> set fr" "set fr \<subseteq> set (free_bufs rx) \<union> {b \<in> set (used_bufs rx). page_wire_count rx b = 1}"
  shows "qpl_inv h nic (rx\<lparr>used_bufs := us, free_bufs := fr\<rparr>)"
proof -
  note D = qpl_invD [OF I]
  let ?r = "rx\<lparr>used_bufs := us, free_bufs := fr\<rparr>"
  have sel: "bufs ?r = bufs rx" "buf_cnt ?r = buf_cnt rx" "free_bufs ?r = fr" "used_bufs ?r = us" "rxd_lent ?r = rxd_lent rx" by simp_all
  have m': "mset (fr @ us) = mset (free_bufs rx @ used_bufs rx)" using m by simp
  have d: "distinct (fr @ us)" using mset_eq_imp_distinct_iff [OF m'] D(3) by simp
  have e: "set fr \<union> set us = set (free_bufs rx) \<union> set (used_bufs rx)" using mset_eq_setD [OF m'] by simp
  have us: "set us \<subseteq> set (used_bufs rx)" using e d s(1) by auto
  show ?thesis
    apply (rule qpl_invI; (unfold sel)?)
    subgoal by (rule D(1))
    subgoal by (rule D(2))
    subgoal by (rule d)
    subgoal using D(4) by (simp add: e)
    subgoal by (rule D(5))
    subgoal by (rule D(6))
    subgoal by (rule D(7))
    subgoal by (rule D(8))
    subgoal by (rule D(9))
    subgoal for c g using D(10) [of c g] D(12) [of c g] s(2) wire_one [of rx c] by auto
    subgoal for c using D(11) [of c] s(1) by auto
    subgoal for c g using D(12) [of c g] us by auto
    subgoal for c using D(13) [of c] e by auto
    done
qed

lemma qpl_extract:
  assumes I: "qpl_inv h nic rx"
  shows "qpl_inv h nic (gve_rx_maybe_extract_from_used_bufs one rx)"
proof -
  obtain hol us fr where e: "extract_loop (page_wire_count rx) one None (used_bufs rx) (free_bufs rx) = (hol, us, fr)" by (metis prod_cases3)
  note S = extract_loop_spec [OF e]
  have "mset fr + mset (case hol of None \<Rightarrow> us | Some b \<Rightarrow> b # us) = mset (free_bufs rx) + mset (used_bufs rx)"
    using S(1) by (cases hol) auto
  from qpl_move [OF I this S(3,2)] show ?thesis by (simp add: gve_rx_maybe_extract_from_used_bufs_def e)
qed

text \<open>A buffer's next fragment goes to the device.\<close>

lemma qpl_post_next:
  assumes I: "qpl_inv h nic rx" and fr: "free_bufs rx = b # fs" and g: "g = unat (next_idx (bufs rx ! b))"
    and p: "gve_rx_post_qpl_buf_dqo b g rx = (rx2, evs)"
    and r3: "rx3 = upd_buf b (\<lambda>x. x\<lparr>next_idx := (if unat (next_idx x) = GVE_DQ_NUM_FRAGS_IN_PAGE - 1 then 0 else next_idx x + 1)\<rparr>) rx2"
  shows "qpl_inv h (insert (b, g) nic) (if next_idx (bufs rx3 ! b) = 0 then rx3\<lparr>free_bufs := fs\<rparr> else rx3)" (is "qpl_inv h _ ?r")
    "(b, g) \<notin> nic \<union> h" "b < buf_cnt rx" "g < GVE_DQ_NUM_FRAGS_IN_PAGE"
proof -
  note D = qpl_invD [OF I]
  show b: "b < buf_cnt rx" using D(4) fr by auto
  show n: "(b, g) \<notin> nic \<union> h" using D(10) [of b g] fr g by auto
  show gl: "g < GVE_DQ_NUM_FRAGS_IN_PAGE" using D(9) [OF b] g by simp
  have nl: "(b, g) \<notin> set (rxd_lent rx)" using D(10) [of b g] fr g by auto
  let ?nx = "if g = GVE_DQ_NUM_FRAGS_IN_PAGE - 1 then 0 else next_idx (bufs rx ! b) + 1"
  have nx: "unat ?nx = (if g = GVE_DQ_NUM_FRAGS_IN_PAGE - 1 then 0 else g + 1)" using gl g by (simp add: FRAGS unat_word_ariths)
  then have z: "?nx = 0 \<longleftrightarrow> g = GVE_DQ_NUM_FRAGS_IN_PAGE - 1" by (simp add: unat_eq_0 [symmetric])
  have len: "b < length (bufs rx)" using b D(1) by simp
  have bf: "next_idx (bufs rx3 ! c) = (if c = b then ?nx else next_idx (bufs rx ! c))"
    "num_nic_frags (bufs rx3 ! c) = (if c = b then num_nic_frags (bufs rx ! b) + 1 else num_nic_frags (bufs rx ! c))" for c
    using g len by (auto simp: r3 post_sel [OF p] nth_list_update)
  have sel: "bufs ?r = bufs rx3" "buf_cnt ?r = buf_cnt rx" "free_bufs ?r = (if g = GVE_DQ_NUM_FRAGS_IN_PAGE - 1 then fs else b # fs)"
    "used_bufs ?r = used_bufs rx" "rxd_lent ?r = rxd_lent rx" "length (bufs rx3) = length (bufs rx)"
    using z by (simp_all add: bf, simp_all add: r3 post_sel [OF p] fr)
  show "qpl_inv h (insert (b, g) nic) ?r"
    apply (rule qpl_invI; (unfold sel)?)
    subgoal by (rule D(1))
    subgoal by (rule D(2))
    subgoal using D(3) by (simp add: fr)
    subgoal using D(4) by (auto simp: fr)
    subgoal using D(5) b gl by auto
    subgoal using D(6) n by auto
    subgoal using D(7) nl by auto
    subgoal for c using D(8) [of c] qpl_card [OF I b, of g] n by (simp add: bf)
    subgoal for c using D(9) [of c] nx gl by (auto simp: bf)
    subgoal for c k using D(10) [of c k] D(3) n g nx by (auto simp: bf fr split: if_splits)
    subgoal for c using D(11) [of c] z by (auto simp: bf fr split: if_splits)
    subgoal for c k using D(12) [of c k] D(3) by (auto simp: fr)
    subgoal for c using D(13) [of c] by (auto simp: fr split: if_splits)
    done
qed


section \<open>What an operation posts\<close>

text \<open>\<open>posts k ids rx rx'\<close>: from \<open>rx\<close> to \<open>rx'\<close> exactly the fragments \<open>ids\<close> were written to the next slots of the ring.\<close>

definition ring_ok :: "nat \<Rightarrow> gve_rx_ring_dqo \<Rightarrow> bool" where
  "ring_ok k rx \<longleftrightarrow> ring_mask k (rxd_mask rx) \<and> length (rxd_desc_ring rx) = 2 ^ k \<and> unat (rxd_head rx) < 2 ^ k"

definition qpl_desc :: "gve_rx_ring_dqo \<Rightarrow> nat \<times> nat \<Rightarrow> gve_rx_desc_dqo" where
  "qpl_desc rx i = \<lparr>rd_buf_id = compose_buf_id (fst i) (snd i), rd_buf_addr = rxd_dmas rx ! fst i + of_nat (snd i * GVE_DEFAULT_RX_BUFFER_SIZE)\<rparr>"

definition posts :: "nat \<Rightarrow> (nat \<times> nat) list \<Rightarrow> gve_rx_ring_dqo \<Rightarrow> gve_rx_ring_dqo \<Rightarrow> bool" where
  "posts k ids rx rx' \<longleftrightarrow> ring_ok k rx' \<and> rxd_dmas rx' = rxd_dmas rx \<and> fill_cnt rx' = fill_cnt rx + of_nat (length ids) \<and>
     unat (rxd_head rx') = (unat (rxd_head rx) + length ids) mod 2 ^ k \<and>
     (\<forall>j < length ids. rxd_desc_ring rx' ! ((unat (rxd_head rx) + j) mod 2 ^ k) = qpl_desc rx (ids ! j)) \<and>
     (\<forall>i < 2 ^ k. (\<forall>j < length ids. i \<noteq> (unat (rxd_head rx) + j) mod 2 ^ k) \<longrightarrow> rxd_desc_ring rx' ! i = rxd_desc_ring rx ! i)"

lemma posts_Nil:
  assumes "ring_ok k rx" "rxd_mask rx' = rxd_mask rx" "rxd_desc_ring rx' = rxd_desc_ring rx" "rxd_head rx' = rxd_head rx" "fill_cnt rx' = fill_cnt rx" "rxd_dmas rx' = rxd_dmas rx"
  shows "posts k [] rx rx'"
  using assms by (simp add: posts_def ring_ok_def)

lemma posts_append:
  assumes a: "posts k xs rx rx1" and b: "posts k ys rx1 rx2" and l: "length xs + length ys \<le> 2 ^ k"
  shows "posts k (xs @ ys) rx rx2"
proof -
  let ?h = "unat (rxd_head rx)"
  have A: "rxd_dmas rx1 = rxd_dmas rx" "fill_cnt rx1 = fill_cnt rx + of_nat (length xs)" "unat (rxd_head rx1) = (?h + length xs) mod 2 ^ k"
    "\<And>j. j < length xs \<Longrightarrow> rxd_desc_ring rx1 ! ((?h + j) mod 2 ^ k) = qpl_desc rx (xs ! j)"
    "\<And>i. i < 2 ^ k \<Longrightarrow> \<forall>j < length xs. i \<noteq> (?h + j) mod 2 ^ k \<Longrightarrow> rxd_desc_ring rx1 ! i = rxd_desc_ring rx ! i"
    using a unfolding posts_def by blast+
  have s: "(unat (rxd_head rx1) + j) mod 2 ^ k = (?h + (length xs + j)) mod 2 ^ k" for j by (simp add: A(3) mod_add_left_eq add.assoc)
  have B: "ring_ok k rx2" "rxd_dmas rx2 = rxd_dmas rx1" "fill_cnt rx2 = fill_cnt rx1 + of_nat (length ys)" "unat (rxd_head rx2) = (?h + (length xs + length ys)) mod 2 ^ k"
    "\<And>j. j < length ys \<Longrightarrow> rxd_desc_ring rx2 ! ((?h + (length xs + j)) mod 2 ^ k) = qpl_desc rx1 (ys ! j)"
    "\<And>i. i < 2 ^ k \<Longrightarrow> \<forall>j < length ys. i \<noteq> (?h + (length xs + j)) mod 2 ^ k \<Longrightarrow> rxd_desc_ring rx2 ! i = rxd_desc_ring rx1 ! i"
    using b unfolding posts_def s by blast+
  have q: "qpl_desc rx1 i = qpl_desc rx i" for i by (simp add: qpl_desc_def A(1))
  have "rxd_desc_ring rx2 ! ((?h + j) mod 2 ^ k) = qpl_desc rx ((xs @ ys) ! j)" if j: "j < length (xs @ ys)" for j
  proof (cases "j < length xs")
    case True
    have "(?h + j) mod 2 ^ k \<noteq> (?h + (length xs + i)) mod 2 ^ k" if "i < length ys" for i
      using mod_add_inj [of ?h j "2 ^ k" "length xs + i"] that True l by auto
    then show ?thesis using B(6) [of "(?h + j) mod 2 ^ k"] A(4) [OF True] True by (simp add: nth_append)
  next
    case False
    then show ?thesis using B(5) [of "j - length xs"] j by (simp add: nth_append q)
  qed
  moreover have "rxd_desc_ring rx2 ! i = rxd_desc_ring rx ! i" if i: "i < 2 ^ k" "\<forall>j < length (xs @ ys). i \<noteq> (?h + j) mod 2 ^ k" for i
    using A(5) [of i] B(6) [of i] i by simp
  ultimately show ?thesis using A(1,2) B(1-4) unfolding posts_def by (simp add: add.assoc)
qed

lemma post_posts:
  assumes r: "ring_ok k rx" and p: "gve_rx_post_qpl_buf_dqo b f rx = (rx', evs)"
  shows "posts k [(b, f)] rx rx'"
proof -
  have m: "ring_mask k (rxd_mask rx)" "length (rxd_desc_ring rx) = 2 ^ k" "unat (rxd_head rx) < 2 ^ k" using r by (auto simp: ring_ok_def)
  have s: "rxd_head rx' = (rxd_head rx + 1) AND rxd_mask rx" "rxd_mask rx' = rxd_mask rx" "fill_cnt rx' = fill_cnt rx + 1" "rxd_dmas rx' = rxd_dmas rx"
    "rxd_desc_ring rx' = (rxd_desc_ring rx)[unat (rxd_head rx) := qpl_desc rx (b, f)]"
    using p by (auto simp: gve_rx_post_qpl_buf_dqo_def gve_rx_advance_head_dqo_def Let_def qpl_desc_def upd_buf_def)
  show ?thesis using m adv_one [OF m(1), of "rxd_head rx"] by (auto simp: posts_def ring_ok_def s)
qed

lemma posts_ok: "posts k ids rx rx' \<Longrightarrow> ring_ok k rx'" by (simp add: posts_def)

text \<open>The ids the device reads from the slots filled between two states.\<close>

definition posted_ids :: "gve_rx_ring_dqo \<Rightarrow> gve_rx_ring_dqo \<Rightarrow> (nat \<times> nat) list" where
  "posted_ids rx rx' = map (\<lambda>j. let i = rd_buf_id (rxd_desc_ring rx' ! ((unat (rxd_head rx) + j) mod length (rxd_desc_ring rx')))
     in (id_buf i, id_frag i)) [0..<unat (fill_cnt rx' - fill_cnt rx)]"

lemma posted_ids:
  assumes p: "posts k ids rx rx'" and l: "length ids \<le> 2 ^ k" and s: "set ids \<subseteq> {..<GVE_RX_NUM_QPL_PAGES_DQO} \<times> {..<GVE_DQ_NUM_FRAGS_IN_PAGE}"
  shows "posted_ids rx rx' = ids"
proof -
  have P: "ring_mask k (rxd_mask rx')" "length (rxd_desc_ring rx') = 2 ^ k" "fill_cnt rx' = fill_cnt rx + of_nat (length ids)"
    "\<And>j. j < length ids \<Longrightarrow> rxd_desc_ring rx' ! ((unat (rxd_head rx) + j) mod 2 ^ k) = qpl_desc rx (ids ! j)"
    using p unfolding posts_def ring_ok_def by blast+
  have n: "unat (fill_cnt rx' - fill_cnt rx) = length ids" using P(3) mask_lt32 [OF P(1)] l by (simp add: unat_of_nat take_bit_nat_eq_self)
  have "(id_buf (compose_buf_id (fst (ids ! j)) (snd (ids ! j))), id_frag (compose_buf_id (fst (ids ! j)) (snd (ids ! j)))) = ids ! j" if "j < length ids" for j
    using s nth_mem [OF that] id_compose [of "fst (ids ! j)" "snd (ids ! j)"] by (auto simp: FRAGS)
  then show ?thesis by (intro nth_equalityI) (simp_all add: posted_ids_def n P(2,4) Let_def qpl_desc_def)
qed


section \<open>One completion\<close>

text \<open>The part of the ring that fragments and descriptors live in.\<close>

definition qview :: "gve_rx_ring_dqo \<Rightarrow> (gve_rx_buf_dqo list \<times> nat \<times> nat list \<times> nat list \<times> (nat \<times> nat) list \<times> u8 list list) \<times>
    u32 \<times> gve_rx_desc_dqo list \<times> u32 \<times> u32 \<times> u64 list" where
  "qview rx = ((bufs rx, buf_cnt rx, free_bufs rx, used_bufs rx, rxd_lent rx, rxd_pages rx),
     rxd_mask rx, rxd_desc_ring rx, rxd_head rx, fill_cnt rx, rxd_dmas rx)"

lemma qview_inv: "qview rx' = qview rx \<Longrightarrow> qpl_inv h nic rx' = qpl_inv h nic rx"
  by (rule qpl_inv_cong) (simp_all add: qview_def)

lemma qview_ok: "qview rx' = qview rx \<Longrightarrow> ring_ok k rx' = ring_ok k rx"
  by (simp add: qview_def ring_ok_def)

lemma qview_posts1: "qview rx1 = qview rx \<Longrightarrow> posts k ids rx1 rx' = posts k ids rx rx'"
  by (simp add: qview_def posts_def qpl_desc_def)

lemma qview_posts2: "qview rx1 = qview rx' \<Longrightarrow> posts k ids rx rx1 = posts k ids rx rx'"
  by (simp add: qview_def posts_def ring_ok_def)

lemma qview_upd [simp]: "qview (count_rx g rx) = qview rx" "qview (upd_ctx c rx) = qview rx" "qview (rx\<lparr>rxd_allocs := n\<rparr>) = qview rx"
  "qview (rx\<lparr>rx_ctx := x\<rparr>) = qview rx" "qview (rxd_consume rx) = qview rx"
  by (simp_all add: qview_def count_rx_def upd_ctx_def rxd_consume_def Let_def)

lemma qview_input: "gve_rx_input_mbuf_dqo env cd rx = (rx', evs) \<Longrightarrow> qview rx' = qview rx \<and> RX_SCHEDULE_RESET \<notin> set evs"
  by (auto simp: gve_rx_input_mbuf_dqo_def Let_def split_def split: if_splits)

lemma qview_copybreak: "gve_rx_copybreak_dqo env va cd l rx = (e, rx', evs) \<Longrightarrow> qview rx' = qview rx \<and> RX_SCHEDULE_RESET \<notin> set evs"
  by (auto simp: gve_rx_copybreak_dqo_def Let_def dest!: qview_input split: option.splits prod.splits)

lemma qview_clmbuf: "gve_rx_add_clmbuf_to_ctx env b f l rx = (e, rx') \<Longrightarrow> qview rx' = qview rx"
  by (auto simp: gve_rx_add_clmbuf_to_ctx_def Let_def split: option.splits)

lemma post_no_reset: "gve_rx_post_qpl_buf_dqo b f rx = (rx', evs) \<Longrightarrow> RX_SCHEDULE_RESET \<notin> set evs"
  by (auto simp: gve_rx_post_qpl_buf_dqo_def gve_rx_advance_head_dqo_def Let_def split: if_splits)

text \<open>\<open>outcome\<close> gathers what every branch establishes.\<close>

definition outcome :: "nat \<Rightarrow> nat \<Rightarrow> (nat \<times> nat) set \<Rightarrow> (nat \<times> nat) set \<Rightarrow> (nat \<times> nat) set \<Rightarrow> gve_rx_ring_dqo \<Rightarrow> gve_rx_ring_dqo \<Rightarrow> rx_event list \<Rightarrow> bool" where
  "outcome k n h nic new rx rx' evs \<longleftrightarrow> (\<exists>ids. posts k ids rx rx' \<and> length ids \<le> n \<and> qpl_inv h (nic \<union> set ids) rx' \<and>
     set ids \<subseteq> {..<GVE_RX_NUM_QPL_PAGES_DQO} \<times> {..<GVE_DQ_NUM_FRAGS_IN_PAGE} \<and>
     set (rxd_lent rx') \<subseteq> set (rxd_lent rx) \<union> new \<and> rxd_pages rx' = rxd_pages rx \<and> RX_SCHEDULE_RESET \<notin> set evs)"

lemma qview_sel: "qview rx' = qview rx \<Longrightarrow> rxd_lent rx' = rxd_lent rx \<and> rxd_pages rx' = rxd_pages rx"
  by (simp add: qview_def)

lemma outcome_view1:
  assumes v: "qview rx1 = qview rx"
  shows "outcome k n h nic new rx1 rx' evs = outcome k n h nic new rx rx' evs"
  unfolding outcome_def qview_posts1 [OF v] using qview_sel [OF v] by simp

lemma outcome_view2:
  assumes v: "qview rx1 = qview rx'"
  shows "outcome k n h nic new rx rx1 evs = outcome k n h nic new rx rx' evs"
  unfolding outcome_def qview_posts2 [OF v] qview_inv [OF v] using qview_sel [OF v] by simp

lemma outcome_evs: "outcome k n h nic new rx rx' evs \<Longrightarrow> RX_SCHEDULE_RESET \<notin> set evs' \<Longrightarrow> outcome k n h nic new rx rx' evs'"
  unfolding outcome_def by blast

lemma outcome_reset: "outcome k n h nic new rx rx' evs \<Longrightarrow> RX_SCHEDULE_RESET \<notin> set evs"
  by (auto simp: outcome_def)

lemma outcome_trans:
  assumes a: "outcome k n1 h nic {} rx rx1 evs1" and b: "\<And>ids. qpl_inv h (nic \<union> set ids) rx1 \<Longrightarrow> outcome k n2 h' (nic \<union> set ids) new rx1 rx2 evs2"
    and n: "n1 + n2 \<le> n" "n \<le> 2 ^ k"
  shows "outcome k n h' nic new rx rx2 (evs1 @ evs2)"
proof -
  obtain xs where x: "posts k xs rx rx1" "length xs \<le> n1" "qpl_inv h (nic \<union> set xs) rx1" "set xs \<subseteq> {..<GVE_RX_NUM_QPL_PAGES_DQO} \<times> {..<GVE_DQ_NUM_FRAGS_IN_PAGE}"
    "set (rxd_lent rx1) \<subseteq> set (rxd_lent rx)" "rxd_pages rx1 = rxd_pages rx" "RX_SCHEDULE_RESET \<notin> set evs1" using a by (auto simp: outcome_def)
  obtain ys where y: "posts k ys rx1 rx2" "length ys \<le> n2" "qpl_inv h' (nic \<union> set xs \<union> set ys) rx2" "set ys \<subseteq> {..<GVE_RX_NUM_QPL_PAGES_DQO} \<times> {..<GVE_DQ_NUM_FRAGS_IN_PAGE}"
    "set (rxd_lent rx2) \<subseteq> set (rxd_lent rx1) \<union> new" "rxd_pages rx2 = rxd_pages rx1" "RX_SCHEDULE_RESET \<notin> set evs2" using b [OF x(3)] by (auto simp: outcome_def)
  have "posts k (xs @ ys) rx rx2" by (rule posts_append [OF x(1) y(1)]) (use x(2) y(2) n in simp)
  then show ?thesis using x y n(1) unfolding outcome_def by (intro exI [of _ "xs @ ys"]) (auto simp: Un_assoc)
qed

lemma outcome_ok: "outcome k n h nic new rx rx' evs \<Longrightarrow> ring_ok k rx'" by (auto simp: outcome_def posts_ok)

lemma outcome_repost:
  assumes I: "qpl_inv {(b, f)} nic rx" and r: "ring_ok k rx" and p: "gve_rx_post_qpl_buf_dqo b f rx = (rx', evs)"
  shows "outcome k 1 {} nic {} rx rx' evs"
proof -
  have "b < GVE_RX_NUM_QPL_PAGES_DQO" "f < GVE_DQ_NUM_FRAGS_IN_PAGE" using qpl_invD(2,5) [OF I] by auto
  then show ?thesis using post_posts [OF r p] qpl_repost [OF I p] post_no_reset [OF p] post_sel(5,7) [OF p] unfolding outcome_def by (intro exI [of _ "[(b, f)]"]) simp
qed

lemma outcome_drop:
  assumes I: "qpl_inv {(b, f)} nic rx" and r: "ring_ok k rx" and d: "drop_frag_dqo (gve_rx_post_qpl_buf_dqo b f) lst rx = (rx', evs)"
  shows "outcome k 1 {} nic {} rx rx' evs"
proof -
  let ?r = "rx\<lparr>rx_ctx := empty_ctx\<lparr>drop_pkt := True\<rparr>\<rparr>"
  obtain t e where p: "gve_rx_post_qpl_buf_dqo b f ?r = (t, e)" by fastforce
  have "qview rx' = qview t" "RX_SCHEDULE_RESET \<notin> set evs"
    using d p post_no_reset [OF p] by (auto simp: drop_frag_dqo_def drop_frag_clear_ctx_def free_head_def split: if_splits option.splits)
  moreover have "outcome k 1 {} nic {} ?r t e" by (rule outcome_repost [OF _ _ p]) (use I r in \<open>simp_all add: qview_inv [of ?r rx] qview_ok [of ?r rx]\<close>)
  ultimately show ?thesis using outcome_view1 [of ?r rx] outcome_view2 [of rx' t] by (auto intro: outcome_evs)
qed

lemma outcome_post_new:
  assumes I: "qpl_inv h nic rx" and r: "ring_ok k rx" and p: "gve_rx_post_new_dqo_qpl_buf rx = (e, rx', evs)"
  shows "outcome k (if e = None then 1 else 0) h nic {} rx rx' evs"
proof -
  let ?r = "if free_bufs rx = [] then gve_rx_maybe_extract_from_used_bufs True rx else rx"
  have I1: "qpl_inv h nic ?r" using qpl_extract [OF I, of True] I by simp
  have v: "rxd_mask ?r = rxd_mask rx" "rxd_desc_ring ?r = rxd_desc_ring rx" "rxd_head ?r = rxd_head rx" "fill_cnt ?r = fill_cnt rx" "rxd_dmas ?r = rxd_dmas rx"
    "rxd_lent ?r = rxd_lent rx" "rxd_pages ?r = rxd_pages rx"
    by (simp_all add: gve_rx_maybe_extract_from_used_bufs_def split: prod.splits)
  have r1: "ring_ok k ?r" using r by (simp add: ring_ok_def v)
  have p1: "posts k [] rx ?r" by (rule posts_Nil [OF r v(1-5)])
  show ?thesis
  proof (cases "free_bufs ?r")
    case Nil
    then have "e \<noteq> None" "rx' = ?r" "evs = []" using p by (auto simp: gve_rx_post_new_dqo_qpl_buf_def Let_def)
    then show ?thesis using p1 I1 v by (auto simp: outcome_def)
  next
    case (Cons b fs)
    define g where "g = unat (next_idx (bufs ?r ! b))"
    obtain t ev where q: "gve_rx_post_qpl_buf_dqo b g ?r = (t, ev)" by fastforce
    define t3 where "t3 = upd_buf b (\<lambda>x. x\<lparr>next_idx := (if unat (next_idx x) = GVE_DQ_NUM_FRAGS_IN_PAGE - 1 then 0 else next_idx x + 1)\<rparr>) t"
    have x: "e = None" "rx' = (if next_idx (bufs t3 ! b) = 0 then t3\<lparr>free_bufs := fs\<rparr> else t3)" "evs = ev"
      using p Cons q unfolding gve_rx_post_new_dqo_qpl_buf_def g_def t3_def by (auto simp: Let_def)
    note N = qpl_post_next [OF I1 Cons g_def q t3_def]
    have "posts k [(b, g)] ?r t" by (rule post_posts [OF r1 q])
    then have "posts k [(b, g)] ?r rx'" unfolding x(2) by (auto simp: posts_def ring_ok_def t3_def upd_buf_def)
    from posts_append [OF p1 this] have "posts k [(b, g)] rx rx'" by simp
    moreover have "rxd_lent rx' = rxd_lent rx" "rxd_pages rx' = rxd_pages rx" using post_sel(5,7) [OF q] v by (simp_all add: x(2) t3_def)
    moreover have "b < GVE_RX_NUM_QPL_PAGES_DQO" using N(3) qpl_invD(2) [OF I1] by simp
    ultimately show ?thesis using N x(1) post_no_reset [OF q] unfolding outcome_def x(3)
      by (intro exI [of _ "[(b, g)]"]) (simp add: x(2))
  qed
qed


lemma outcome_id: "qpl_inv h nic rx \<Longrightarrow> ring_ok k rx \<Longrightarrow> outcome k 0 h nic {} rx rx []"
  using posts_Nil [of k rx rx] by (auto simp: outcome_def)

lemma outcome_mono: "outcome k n h nic new rx rx' evs \<Longrightarrow> n \<le> n' \<Longrightarrow> new \<subseteq> new' \<Longrightarrow> outcome k n' h nic new' rx rx' evs"
  unfolding outcome_def by (meson Un_mono order.trans subset_refl)

lemma outcome_app: "outcome k n h nic new rx rx' evs2 \<Longrightarrow> RX_SCHEDULE_RESET \<notin> set evs1 \<Longrightarrow> outcome k n h nic new rx rx' (evs1 @ evs2)"
  by (rule outcome_evs) (auto dest: outcome_reset)

lemma outcome_lend:
  assumes I: "qpl_inv {(b, f)} nic rx" and r: "ring_ok k rx" and a: "gve_rx_add_extmbuf_to_ctx env b f l rx = (None, rx1)"
  shows "outcome k 0 {} nic {(b, f)} rx
    (if num_nic_frags (bufs rx1 ! b) = 0 \<and> next_idx (bufs rx1 ! b) = 0 then rx1\<lparr>used_bufs := used_bufs rx1 @ [b]\<rparr> else rx1) []"
    (is "outcome _ _ _ _ _ _ ?r _")
proof -
  have v: "bufs rx1 = bufs rx" "used_bufs rx1 = used_bufs rx"
    and q: "qview rx1 = qview (rx\<lparr>rxd_lent := (b, f) # rxd_lent rx\<rparr>)"
    using a by (auto simp: gve_rx_add_extmbuf_to_ctx_def Let_def qview_def count_rx_def upd_ctx_def split: option.splits)
  let ?u = "if num_nic_frags (bufs rx ! b) = 0 \<and> next_idx (bufs rx ! b) = 0 then used_bufs rx @ [b] else used_bufs rx"
  let ?t = "rx\<lparr>rxd_lent := (b, f) # rxd_lent rx, used_bufs := ?u\<rparr>"
  have "qview ?r = qview ?t" using q by (simp add: v) (simp add: qview_def)
  moreover have "posts k [] rx ?t" using posts_Nil [OF r, of ?t] by simp
  moreover have "qpl_inv {} nic ?t" by (rule qpl_lend [OF I refl])
  ultimately show ?thesis unfolding outcome_view2 [OF \<open>qview ?r = qview ?t\<close>] by (auto simp: outcome_def)
qed

lemma qview_ext_fail: "gve_rx_add_extmbuf_to_ctx env b f l rx = (Some e, rx1) \<Longrightarrow> qview rx1 = qview rx"
  by (auto simp: gve_rx_add_extmbuf_to_ctx_def Let_def split: option.splits)

lemma outcome_finish:
  assumes o: "outcome k n {} N new rx t evs"
    and e: "(if lst then (case gve_rx_input_mbuf_dqo env cd t of (t2, evs2) \<Rightarrow> (1, t2, evs @ evs2)) else (0, t, evs)) = (w :: nat, rx', evs')"
  shows "outcome k n {} N new rx rx' evs'"
proof (cases lst)
  case True
  obtain t2 e2 where i: "gve_rx_input_mbuf_dqo env cd t = (t2, e2)" by fastforce
  note q = qview_input [OF i]
  have "rx' = t2" "evs' = evs @ e2" using e i True by simp_all
  then show ?thesis using outcome_evs [OF o, of evs'] outcome_reset [OF o] q outcome_view2 [of t2 t] by simp
qed (use o e in simp)

text \<open>The end of the handler, after a buffer has been posted in place of the completed one.\<close>

definition qpl_finish :: "rxd_env \<Rightarrow> gve_rx_compl_desc_dqo \<Rightarrow> nat \<Rightarrow> gve_rx_ring_dqo \<Rightarrow> rx_event list \<Rightarrow> nat \<times> gve_rx_ring_dqo \<times> rx_event list" where
  "qpl_finish env cd b t evs =
     (let t1 = (if num_nic_frags (bufs t ! b) = 0 \<and> next_idx (bufs t ! b) = 0 then t\<lparr>used_bufs := used_bufs t @ [b]\<rparr> else t)
      in if eop cd then (case gve_rx_input_mbuf_dqo env cd t1 of (t2, evs2) \<Rightarrow> (1, t2, evs @ evs2)) else (0, t1, evs))"

lemma drop_view:
  assumes "drop_frag_dqo (gve_rx_post_qpl_buf_dqo b f) lst t0 = (t, e)" "qview t0 = qview r1" "qpl_inv {(b, f)} N r1" "ring_ok k r1"
  shows "outcome k 1 {} N {} r1 t e"
  using outcome_drop [OF _ _ assms(1), of N k] assms(3,4) outcome_view1 [OF assms(2)] by (simp add: qview_inv [OF assms(2)] qview_ok [OF assms(2)])

lemma qpl_copied:
  assumes I: "qpl_inv {(b, f)} N r1" and ok: "ring_ok k r1"
    and H: "(case gve_rx_add_clmbuf_to_ctx env b f l r1 of
       (Some _, r2) \<Rightarrow> (case drop_frag_dqo (gve_rx_post_qpl_buf_dqo b f) lst (count_rx g r2) of (t, e2) \<Rightarrow> (0, t, e1 @ e2))
     | (None, r2) \<Rightarrow> (case gve_rx_post_qpl_buf_dqo b f r2 of (r3, e2) \<Rightarrow> qpl_finish env cd b r3 (e1 @ e2))) = (w, rx', evs)"
    and e1: "RX_SCHEDULE_RESET \<notin> set e1"
  shows "outcome k 1 {} N {} r1 rx' evs"
proof -
  obtain e r2 where c: "gve_rx_add_clmbuf_to_ctx env b f l r1 = (e, r2)" by fastforce
  note q = qview_clmbuf [OF c]
  show ?thesis
  proof (cases e)
    case None
    obtain r3 e2 where p: "gve_rx_post_qpl_buf_dqo b f r2 = (r3, e2)" by fastforce
    have I2: "qpl_inv {(b, f)} N r2" "ring_ok k r2" using I ok by (simp_all add: qview_inv [OF q] qview_ok [OF q])
    note o = outcome_repost [OF I2 p]
    have "(b, f) \<notin> N" using qpl_invD(6) [OF I] by auto
    note I3 = qpl_repost [OF I2(1) p]
    have nz: "num_nic_frags (bufs r3 ! b) \<noteq> 0" using qpl_take(3) [OF I3, of b f] by simp
    have o2: "outcome k 1 {} N {} r1 r3 (e1 @ e2)" using o e1 unfolding outcome_view1 [OF q] by (rule outcome_app)
    have "qpl_finish env cd b r3 (e1 @ e2) = (w, rx', evs)" using H c None p by simp
    then show ?thesis using nz by (intro outcome_finish [OF o2, where lst = "eop cd" and env = env and cd = cd and w = w]) (simp add: qpl_finish_def)
  next
    case (Some a)
    obtain t e2 where d: "drop_frag_dqo (gve_rx_post_qpl_buf_dqo b f) lst (count_rx g r2) = (t, e2)" by fastforce
    have "rx' = t" "evs = e1 @ e2" using H c Some d by simp_all
    then show ?thesis using outcome_app [OF drop_view [OF d _ I ok] e1] q by simp
  qed
qed

lemma qpl_lent:
  assumes I: "qpl_inv {(b, f)} N r1" and ok: "ring_ok k r1"
    and H: "(case gve_rx_add_extmbuf_to_ctx env b f l r1 of
       (Some _, r2) \<Rightarrow> (case drop_frag_dqo (gve_rx_post_qpl_buf_dqo b f) lst (count_rx g r2) of (t, e2) \<Rightarrow> (0, t, e1 @ e2))
     | (None, r2) \<Rightarrow> qpl_finish env cd b r2 e1) = (w, rx', evs)"
    and e1: "RX_SCHEDULE_RESET \<notin> set e1"
  shows "outcome k 1 {} N {(b, f)} r1 rx' evs"
proof -
  obtain e r2 where c: "gve_rx_add_extmbuf_to_ctx env b f l r1 = (e, r2)" by fastforce
  show ?thesis
  proof (cases e)
    case None
    have "outcome k 1 {} N {(b, f)} r1 (if num_nic_frags (bufs r2 ! b) = 0 \<and> next_idx (bufs r2 ! b) = 0 then r2\<lparr>used_bufs := used_bufs r2 @ [b]\<rparr> else r2) e1"
      using c None e1 by (intro outcome_mono [OF outcome_evs [OF outcome_lend [OF I ok]]]) auto
    moreover have "qpl_finish env cd b r2 e1 = (w, rx', evs)" using H c None by simp
    ultimately show ?thesis using outcome_finish [where lst = "eop cd"] unfolding qpl_finish_def Let_def by blast
  next
    case (Some a)
    then have q: "qview r2 = qview r1" using c qview_ext_fail by blast
    obtain t e2 where d: "drop_frag_dqo (gve_rx_post_qpl_buf_dqo b f) lst (count_rx g r2) = (t, e2)" by fastforce
    have "rx' = t" "evs = e1 @ e2" using H c Some d by simp_all
    then show ?thesis using outcome_mono [OF outcome_app [OF drop_view [OF d _ I ok] e1]] q by simp
  qed
qed

text \<open>Handling one completion of a fragment the device holds.\<close>

lemma qpl_one:
  assumes I: "qpl_inv {} nic rx" and r: "ring_ok k rx" and k: "1 \<le> k"
    and m: "(b, f) \<in> nic" and cd: "id_buf (rc_buf_id cd) = b" "id_frag (rc_buf_id cd) = f"
    and h: "gve_rx_dqo_qpl env cd rx = (w, rx', evs)"
  shows "outcome k 2 {} (nic - {(b, f)}) {(b, f)} rx rx' evs"
proof -
  define r0 where "r0 = upd_buf b (\<lambda>x. x\<lparr>num_nic_frags := num_nic_frags x - 1\<rparr>) rx"
  note T = qpl_take [OF I m, folded r0_def]
  have f: "\<not> f > GVE_DQ_NUM_FRAGS_IN_PAGE - 1" using qpl_invD(5) [OF I] m by auto
  have ok: "ring_ok k r0" and cx: "rx_ctx r0 = rx_ctx rx" using r by (simp_all add: r0_def ring_ok_def)
  let ?n = "nic - {(b, f)}"
  have two: "(2 :: nat) \<le> 2 ^ k" using power_increasing [OF k, of "2 :: nat"] by simp
  have base: "outcome k n h' N new r0 t e \<Longrightarrow> outcome k n h' N new rx t e" for n h' N new t e
    by (simp add: outcome_def posts_def r0_def qpl_desc_def upd_buf_def)
  let ?D = "drop_frag_dqo (gve_rx_post_qpl_buf_dqo b f) (eop cd)" let ?l = "packet_len cd"
  note handler = gve_rx_dqo_qpl_def Let_def cd r0_def [symmetric]
  consider (drop) "drop_pkt (rx_ctx r0) \<or> rx_error cd"
    | (copy) "\<not> (drop_pkt (rx_ctx r0) \<or> rx_error cd)" "ucast ?l \<le> rx_copybreak env \<and> mbuf_head (rx_ctx r0) = None \<and> eop cd"
    | (new) "\<not> (drop_pkt (rx_ctx r0) \<or> rx_error cd)" "\<not> (ucast ?l \<le> rx_copybreak env \<and> mbuf_head (rx_ctx r0) = None \<and> eop cd)" by blast
  then have "outcome k 2 {} ?n {(b, f)} r0 rx' evs"
  proof cases
    case drop
    then have "?D r0 = (rx', evs) \<or> ?D (count_rx (\<lambda>st. st\<lparr>rx_dropped_pkt_desc_err := rx_dropped_pkt_desc_err st + 1\<rparr>) r0) = (rx', evs)"
      using h T(2,3) f unfolding handler by (auto split: if_splits prod.splits)
    then obtain t0 where t0: "qview t0 = qview r0" "?D t0 = (rx', evs)" using qview_upd(1) by blast
    from drop_view [OF t0(2,1) T(1) ok] show ?thesis by (auto elim: outcome_mono)
  next
    case copy
    obtain e r1 ev where c: "gve_rx_copybreak_dqo env (gve_get_cpu_addr_for_qpl_buf r0 b f (unat ?l)) cd ?l r0 = (e, r1, ev)" by (metis prod_cases3)
    note q = qview_copybreak [OF c]
    show ?thesis
    proof (cases e)
      case None
      obtain r2 e2 where p: "gve_rx_post_qpl_buf_dqo b f r1 = (r2, e2)" by fastforce
      have x: "rx' = r2" "evs = ev @ e2" using h T(2,3) f copy c None p unfolding handler by auto
      have "outcome k 1 {} ?n {} r1 r2 e2" by (rule outcome_repost [OF _ _ p]) (use T(1) ok q in \<open>simp_all add: qview_inv [of r1 r0] qview_ok [of r1 r0]\<close>)
      then have "outcome k 1 {} ?n {} r0 r2 (ev @ e2)" using outcome_view1 [of r1 r0] q by (intro outcome_app) simp_all
      then show ?thesis unfolding x by (auto elim: outcome_mono)
    next
      case (Some a)
      then have "?D r1 = (rx', evs)" using h T(2,3) f copy c unfolding handler by (auto split: prod.splits)
      from drop_view [OF this _ T(1) ok] q show ?thesis by (auto elim: outcome_mono)
    qed
  next
    case new
    then have ne: "(ucast ?l \<le> rx_copybreak env \<and> mbuf_head (rx_ctx rx) = None \<and> eop cd) = False" by (simp only: cx not_False_eq_True simp_thms)
    obtain e r1 e1 where p: "gve_rx_post_new_dqo_qpl_buf r0 = (e, r1, e1)" by (metis prod_cases3)
    note P = outcome_post_new [OF T(1) ok p]
    note ok1 = outcome_ok [OF P] note e1 = outcome_reset [OF P]
    have R: "outcome k 1 {} (?n \<union> set ids) {(b, f)} r1 rx' evs" if I1: "qpl_inv {(b, f)} (?n \<union> set ids) r1" for ids
    proof (cases "e \<noteq> None \<and> num_pending_bufs r0 \<le> GVE_RX_DQO_MIN_PENDING_BUFS")
      case True
      show ?thesis
        by (rule outcome_mono [OF qpl_copied [OF I1 ok1 _ e1, where env = env and l = ?l and lst = "eop cd" and cd = cd and w = w
              and g = "\<lambda>st. st\<lparr>rx_dropped_pkt_buf_post_fail := rx_dropped_pkt_buf_post_fail st + 1\<rparr>"]])
           (use h T(2,3) f new(1) p True in \<open>simp_all add: ne handler cx qpl_finish_def split_def cong: option.case_cong if_cong\<close>)
    next
      case False
      then have nf: "((\<exists>y. e = Some y) \<and> num_pending_bufs r0 \<le> GVE_RX_DQO_MIN_PENDING_BUFS) = False" by auto
      show ?thesis
        by (rule qpl_lent [OF I1 ok1 _ e1, where env = env and l = ?l and lst = "eop cd" and cd = cd and w = w
              and g = "\<lambda>st. st\<lparr>rx_dropped_pkt_mbuf_alloc_fail := rx_dropped_pkt_mbuf_alloc_fail st + 1\<rparr>"])
           (use h T(2,3) f new(1) p in \<open>simp_all add: ne nf handler cx qpl_finish_def split_def cong: option.case_cong if_cong\<close>)
    qed
    have "outcome k 2 {} ?n {(b, f)} r0 rx' (e1 @ evs)" by (rule outcome_trans [OF P R]) (use two in auto)
    then show ?thesis by (rule outcome_evs) (use outcome_reset [OF R] P in \<open>auto simp: outcome_def\<close>)
  qed
  then show ?thesis by (rule base)
qed


section \<open>Refilling and restarting\<close>

lemma outcome_post_loop:
  assumes "qpl_inv {} nic rx" and "ring_ok k rx" and "n \<le> 2 ^ k" and "post_buffers_loop n True env rx = (rx', evs)"
  shows "outcome k n {} nic {} rx rx' evs"
  using assms
proof (induction n arbitrary: nic rx rx' evs)
  case 0
  then show ?case using outcome_id [of "{}" nic rx k] by simp
next
  case (Suc n)
  obtain e r1 e1 where p: "gve_rx_post_new_dqo_qpl_buf rx = (e, r1, e1)" by (metis prod_cases3)
  note P = outcome_post_new [OF Suc.prems(1,2) p]
  show ?case
  proof (cases e)
    case None
    obtain r2 e2 where l: "post_buffers_loop n True env r1 = (r2, e2)" by fastforce
    have x: "rx' = r2" "evs = e1 @ e2" using Suc.prems(4) p None l by simp_all
    show ?thesis unfolding x
      by (rule outcome_trans [OF P Suc.IH [OF _ outcome_ok [OF P] _ l]]) (use Suc.prems(3) None in auto)
  next
    case (Some a)
    then show ?thesis using Suc.prems(4) p outcome_mono [OF P] by simp
  qed
qed

lemma outcome_refill:
  assumes "qpl_inv {} nic rx" and r: "ring_ok k rx" and p: "gve_rx_post_buffers_dqo True env rx = (rx', evs)"
  shows "outcome k (2 ^ k) {} nic {} rx rx' evs"
proof -
  have m: "ring_mask k (rxd_mask rx)" using r by (simp add: ring_ok_def)
  have le: "unat (num_pending_bufs rx) \<le> unat (rxd_mask rx)" using and_mask_bound [OF m, of "rxd_head rx - rxd_tail rx"] ring_mask_lt [OF m] by (simp add: num_pending_bufs_def)
  then have "unat (rxd_mask rx - num_pending_bufs rx) \<le> 2 ^ k" using ring_mask_lt [OF m] by (simp add: unat_sub word_le_nat_alt)
  then show ?thesis using outcome_mono [OF outcome_post_loop [OF assms(1,2), of "unat (rxd_mask rx - num_pending_bufs rx)"]] p by (simp add: gve_rx_post_buffers_dqo_def)
qed

lemma clear_qpl_loop:
  assumes "distinct js" "set js \<subseteq> {..<length (bufs rx)}"
  defines "r \<equiv> clear_qpl_loop js rx"
  shows "free_bufs r = rev (filter (\<lambda>j. page_wire_count rx j = 1) js) @ free_bufs rx" 
    "used_bufs r = used_bufs rx @ filter (\<lambda>j. page_wire_count rx j \<noteq> 1) js"
    "length (bufs r) = length (bufs rx)" "buf_cnt r = buf_cnt rx" "rxd_lent r = rxd_lent rx"
    "rxd_mask r = rxd_mask rx" "rxd_desc_ring r = rxd_desc_ring rx" "rxd_head r = rxd_head rx" "rxd_pages r = rxd_pages rx"
    "\<And>b. bufs r ! b = (if b \<in> set js then (bufs rx ! b)\<lparr>num_nic_frags := 0, next_idx := 0\<rparr> else bufs rx ! b)"
proof -
  have "free_bufs r = rev (filter (\<lambda>j. page_wire_count rx j = 1) js) @ free_bufs rx \<and>
    used_bufs r = used_bufs rx @ filter (\<lambda>j. page_wire_count rx j \<noteq> 1) js \<and>
    length (bufs r) = length (bufs rx) \<and> buf_cnt r = buf_cnt rx \<and> rxd_lent r = rxd_lent rx \<and>
    rxd_mask r = rxd_mask rx \<and> rxd_desc_ring r = rxd_desc_ring rx \<and> rxd_head r = rxd_head rx \<and> rxd_pages r = rxd_pages rx \<and>
    (\<forall>b. bufs r ! b = (if b \<in> set js then (bufs rx ! b)\<lparr>num_nic_frags := 0, next_idx := 0\<rparr> else bufs rx ! b))"
    using assms(1,2) unfolding r_def
    by (induction js rx rule: clear_qpl_loop.induct) (auto simp: Let_def page_wire_count_def nth_list_update cong: filter_cong)
  then show "free_bufs r = rev (filter (\<lambda>j. page_wire_count rx j = 1) js) @ free_bufs rx" 
    "used_bufs r = used_bufs rx @ filter (\<lambda>j. page_wire_count rx j \<noteq> 1) js"
    "length (bufs r) = length (bufs rx)" "buf_cnt r = buf_cnt rx" "rxd_lent r = rxd_lent rx"
    "rxd_mask r = rxd_mask rx" "rxd_desc_ring r = rxd_desc_ring rx" "rxd_head r = rxd_head rx" "rxd_pages r = rxd_pages rx"
    "\<And>b. bufs r ! b = (if b \<in> set js then (bufs rx ! b)\<lparr>num_nic_frags := 0, next_idx := 0\<rparr> else bufs rx ! b)" by blast+
qed

lemma qpl_clear:
  assumes b: "length (bufs rx) = buf_cnt rx" "buf_cnt rx \<le> GVE_RX_NUM_QPL_PAGES_DQO" and k: "k < 32" and d: "length (rxd_desc_ring rx) = 2 ^ k"
    and c: "gve_clear_rx_ring_dqo True (2 ^ k) rx = (rx', evs)"
  shows "qpl_inv {} {} rx'" "ring_ok k rx'" "rxd_lent rx' = rxd_lent rx" "rxd_pages rx' = rxd_pages rx"
proof -
  define r where "r = rx\<lparr>fill_cnt := 0, cnt := 0, rxd_mask := of_nat (2 ^ k) - 1, rxd_head := 0, rxd_tail := 0, rxd_gen_bit := False,
    rxd_desc_ring := replicate (2 ^ k) zero_rx_desc_dqo, rxd_compl_ring := replicate (2 ^ k) zero_rx_compl_desc @ drop (2 ^ k) (rxd_compl_ring rx), free_bufs := [], used_bufs := []\<rparr>"
  have x: "rx' = clear_qpl_loop [0..<buf_cnt rx] r"
    using c d by (auto simp: gve_clear_rx_ring_dqo_def gve_free_rx_mbufs_dqo_def gve_rx_clear_compl_ring_dqo_def gve_rx_clear_desc_ring_dqo_def Let_def r_def)
  have s: "bufs r = bufs rx" "buf_cnt r = buf_cnt rx" "rxd_lent r = rxd_lent rx" "free_bufs r = []" "used_bufs r = []" "rxd_mask r = of_nat (2 ^ k) - 1"
    "rxd_head r = 0" "rxd_desc_ring r = replicate (2 ^ k) zero_rx_desc_dqo" "rxd_pages r = rxd_pages rx" by (simp_all add: r_def)
  have js: "distinct [0..<buf_cnt rx]" "set [0..<buf_cnt rx] \<subseteq> {..<length (bufs r)}" using b s by auto
  note C = clear_qpl_loop [OF js, folded x, unfolded s]
  have C': "free_bufs rx' = rev (filter (\<lambda>j. page_wire_count r j = 1) [0..<buf_cnt rx])" "used_bufs rx' = filter (\<lambda>j. page_wire_count r j \<noteq> 1) [0..<buf_cnt rx]"
    "length (bufs rx') = buf_cnt rx" "buf_cnt rx' = buf_cnt rx" "rxd_lent rx' = rxd_lent rx" "rxd_pages rx' = rxd_pages rx"
    "\<And>c. c < buf_cnt rx \<Longrightarrow> num_nic_frags (bufs rx' ! c) = 0 \<and> next_idx (bufs rx' ! c) = 0"
    using C b by auto
  show "rxd_lent rx' = rxd_lent rx" "rxd_pages rx' = rxd_pages rx" by (rule C')+
  show "qpl_inv {} {} rx'"
    by (rule qpl_invI) (use b C' wire_one [of r] s(3) in \<open>auto simp: FRAGS\<close>)
  show "ring_ok k rx'" using C b k by (simp add: ring_ok_def ring_mask_def mask_eq_decr_exp)
qed


section \<open>All interleavings\<close>

text \<open>
  A state is the set of fragments the device holds with the ring. The driver handles a completion,
  refills the ring or moves buffers off the used list; the stack frees an mbuf; the device writes to
  a fragment it holds; the ring is restarted, which takes every fragment from the device.
\<close>

inductive qrx_step :: "nat \<Rightarrow> (nat \<times> nat) set \<times> gve_rx_ring_dqo \<Rightarrow> (nat \<times> nat) set \<times> gve_rx_ring_dqo \<Rightarrow> bool" for k where
  completion: "i = (id_buf (rc_buf_id cd), id_frag (rc_buf_id cd)) \<Longrightarrow> i \<in> nic \<Longrightarrow> gve_rx_dqo_qpl env cd (rxd_consume rx) = (w, rx', evs) \<Longrightarrow>
    qrx_step k (nic, rx) (nic - {i} \<union> set (posted_ids rx rx'), rx')"
| refill: "gve_rx_post_buffers_dqo True env rx = (rx', evs) \<Longrightarrow> qrx_step k (nic, rx) (nic \<union> set (posted_ids rx rx'), rx')"
| extract_used: "qrx_step k (nic, rx) (nic, gve_rx_maybe_extract_from_used_bufs one rx)"
| mextadd_free: "i \<in> set (rxd_lent rx) \<Longrightarrow> qrx_step k (nic, rx) (nic, rx\<lparr>rxd_lent := remove1 i (rxd_lent rx)\<rparr>)"
| device_write: "(b, f) \<in> nic \<Longrightarrow> length bytes \<le> GVE_DEFAULT_RX_BUFFER_SIZE \<Longrightarrow>
    qrx_step k (nic, rx) (nic, rx\<lparr>rxd_pages := (rxd_pages rx)[b := blit (rxd_pages rx ! b) (f * GVE_DEFAULT_RX_BUFFER_SIZE) bytes]\<rparr>)"
| restart: "gve_clear_rx_ring_dqo True (2 ^ k) rx = (rx', evs) \<Longrightarrow> qrx_step k (nic, rx) ({}, rx')"

definition qrx_ok :: "nat \<Rightarrow> (nat \<times> nat) set \<times> gve_rx_ring_dqo \<Rightarrow> bool" where
  "qrx_ok k s \<longleftrightarrow> qpl_inv {} (fst s) (snd s) \<and> ring_ok k (snd s) \<and> (\<forall>i \<in> set (rxd_lent (snd s)). snd i < GVE_DQ_NUM_FRAGS_IN_PAGE) \<and>
     (\<forall>p \<in> set (rxd_pages (snd s)). length p = PAGE_SIZE)"

text \<open>The bytes of a fragment.\<close>

definition frag_data :: "gve_rx_ring_dqo \<Rightarrow> nat \<times> nat \<Rightarrow> u8 list" where
  "frag_data rx i = gve_get_cpu_addr_for_qpl_buf rx (fst i) (snd i) GVE_DEFAULT_RX_BUFFER_SIZE"

lemma frag_data_pages: "rxd_pages rx' = rxd_pages rx \<Longrightarrow> frag_data rx' = frag_data rx"
  by (simp add: fun_eq_iff frag_data_def gve_get_cpu_addr_for_qpl_buf_def)

lemma outcome_posted:
  assumes "outcome k n {} nic new rx rx' evs" "n \<le> 2 ^ k" "qrx_ok k (N, rx)" "\<forall>i \<in> new. snd i < GVE_DQ_NUM_FRAGS_IN_PAGE"
  shows "qrx_ok k (nic \<union> set (posted_ids rx rx'), rx')" "frag_data rx' = frag_data rx"
proof -
  obtain ids where i: "posts k ids rx rx'" "length ids \<le> n" "qpl_inv {} (nic \<union> set ids) rx'" "set ids \<subseteq> {..<GVE_RX_NUM_QPL_PAGES_DQO} \<times> {..<GVE_DQ_NUM_FRAGS_IN_PAGE}"
    "set (rxd_lent rx') \<subseteq> set (rxd_lent rx) \<union> new" "rxd_pages rx' = rxd_pages rx"
    using assms(1) by (auto simp: outcome_def)
  then show "qrx_ok k (nic \<union> set (posted_ids rx rx'), rx')" using posted_ids [OF i(1) _ i(4)] assms(2-) posts_ok [OF i(1)] by (auto simp: qrx_ok_def)
  show "frag_data rx' = frag_data rx" by (rule frag_data_pages) (rule i)
qed

lemma posted_view: "qview rx1 = qview rx \<Longrightarrow> posted_ids rx1 rx' = posted_ids rx rx'"
  by (simp add: qview_def posted_ids_def)

lemma qpl_lent_subset:
  assumes I: "qpl_inv h nic rx" and s: "set l \<subseteq> set (rxd_lent rx)"
  shows "qpl_inv h nic (rx\<lparr>rxd_lent := l\<rparr>)"
proof -
  note D = qpl_invD [OF I]
  let ?r = "rx\<lparr>rxd_lent := l\<rparr>"
  have sel: "bufs ?r = bufs rx" "buf_cnt ?r = buf_cnt rx" "free_bufs ?r = free_bufs rx" "used_bufs ?r = used_bufs rx" "rxd_lent ?r = l" by simp_all
  have 7: "(nic \<union> h) \<inter> set l = {}" using D(7) s by blast
  have 10: "(b, f) \<notin> nic \<union> h \<and> (b, f) \<notin> set l" if "b \<in> set (free_bufs rx)" "unat (next_idx (bufs rx ! b)) \<le> f" for b f
    using D(10) [OF that] s by blast
  show ?thesis by (rule qpl_invI; (unfold sel)?) (fact D(1-6,8,9,11-13) 7 10)+
qed

lemma device_write_other:
  assumes "\<forall>p \<in> set (rxd_pages rx). length p = PAGE_SIZE" "f < GVE_DQ_NUM_FRAGS_IN_PAGE" "snd i < GVE_DQ_NUM_FRAGS_IN_PAGE" "i \<noteq> (b, f)"
    "length bytes \<le> GVE_DEFAULT_RX_BUFFER_SIZE"
  defines "pgs \<equiv> (rxd_pages rx)[b := blit (rxd_pages rx ! b) (f * GVE_DEFAULT_RX_BUFFER_SIZE) bytes]"
  shows "\<forall>p \<in> set pgs. length p = PAGE_SIZE" "frag_data (rx\<lparr>rxd_pages := pgs\<rparr>) i = frag_data rx i"
proof -
  have fl: "f * GVE_DEFAULT_RX_BUFFER_SIZE + length bytes \<le> PAGE_SIZE" "snd i * GVE_DEFAULT_RX_BUFFER_SIZE + GVE_DEFAULT_RX_BUFFER_SIZE \<le> PAGE_SIZE"
    using assms(2,3,5) by (auto simp: FRAGS PAGE_SIZE_def GVE_DEFAULT_RX_BUFFER_SIZE_def)
  have l: "length (rxd_pages rx ! b) = PAGE_SIZE" if "b < length (rxd_pages rx)" using assms(1) that by simp
  show "\<forall>p \<in> set pgs. length p = PAGE_SIZE"
    using assms(1) l fl unfolding pgs_def by (cases "b < length (rxd_pages rx)") (auto simp: list_update_beyond dest: set_update_subset_insert [THEN subsetD])
  show "frag_data (rx\<lparr>rxd_pages := pgs\<rparr>) i = frag_data rx i"
  proof (cases "fst i = b \<and> b < length (rxd_pages rx)")
    case True
    have "snd i \<noteq> f" using assms(4) True by (metis prod.collapse)
    have "slice (blit (rxd_pages rx ! b) (f * GVE_DEFAULT_RX_BUFFER_SIZE) bytes) (snd i * GVE_DEFAULT_RX_BUFFER_SIZE) GVE_DEFAULT_RX_BUFFER_SIZE =
      slice (rxd_pages rx ! b) (snd i * GVE_DEFAULT_RX_BUFFER_SIZE) GVE_DEFAULT_RX_BUFFER_SIZE"
      using \<open>snd i \<noteq> f\<close> assms(2,3,5) l fl True
      by (intro slice_blit_disjoint) (auto simp: FRAGS GVE_DEFAULT_RX_BUFFER_SIZE_def less_Suc_eq numeral_2_eq_2)
    then show ?thesis using True by (simp add: frag_data_def gve_get_cpu_addr_for_qpl_buf_def pgs_def)
  next
    case False
    then show ?thesis by (auto simp: frag_data_def gve_get_cpu_addr_for_qpl_buf_def pgs_def list_update_beyond)
  qed
qed

lemma qrx_step_ok:
  assumes "qrx_step k s s'" and "qrx_ok k s" and "1 \<le> k"
  shows "qrx_ok k s' \<and> (\<forall>i \<in> set (rxd_lent (snd s)). frag_data (snd s') i = frag_data (snd s) i)"
  using assms
proof (induction rule: qrx_step.induct)
  case (completion i cd nic env rx w rx' evs)
  have I: "qpl_inv {} nic (rxd_consume rx)" "ring_ok k (rxd_consume rx)" "qrx_ok k (nic, rxd_consume rx)"
    using completion by (simp_all add: qrx_ok_def qview_inv [of "rxd_consume rx" rx] qview_ok [of "rxd_consume rx" rx] qview_sel [of "rxd_consume rx" rx])
  have two: "(2 :: nat) \<le> 2 ^ k" using power_increasing [OF completion(5), of "2 :: nat"] by simp
  have sn: "\<forall>i \<in> {i}. snd i < GVE_DQ_NUM_FRAGS_IN_PAGE" using qpl_invD(5) [OF I(1)] completion(2) by auto
  have "outcome k 2 {} (nic - {i}) {i} (rxd_consume rx) rx' evs" using qpl_one [OF I(1,2) completion(5) _ refl refl completion(3)] completion(1,2) by simp
  from outcome_posted [OF this two I(3) sn] show ?case using frag_data_pages [of "rxd_consume rx" rx]
    by (simp add: posted_view [of "rxd_consume rx" rx] qview_sel [of "rxd_consume rx" rx])
next
  case (refill env rx rx' evs nic)
  then show ?case using outcome_posted [OF outcome_refill [OF _ _ refill(1)] order.refl, where N = nic] by (auto simp: qrx_ok_def)
next
  case (extract_used nic rx one)
  let ?r = "gve_rx_maybe_extract_from_used_bufs one rx"
  have v: "rxd_pages ?r = rxd_pages rx" "rxd_lent ?r = rxd_lent rx" "rxd_mask ?r = rxd_mask rx" "rxd_desc_ring ?r = rxd_desc_ring rx" "rxd_head ?r = rxd_head rx"
    by (simp_all add: gve_rx_maybe_extract_from_used_bufs_def split: prod.splits)
  show ?case using extract_used qpl_extract [of "{}" nic rx one] frag_data_pages [OF v(1)] by (simp add: qrx_ok_def ring_ok_def v)
next
  case (mextadd_free i rx nic)
  then show ?case using qpl_lent_subset [of "{}" nic rx "remove1 i (rxd_lent rx)"] set_remove1_subset [of i "rxd_lent rx"] frag_data_pages [of "rx\<lparr>rxd_lent := remove1 i (rxd_lent rx)\<rparr>" rx]
    by (auto simp: qrx_ok_def ring_ok_def)
next
  case (device_write b f nic bytes rx)
  let ?r = "rx\<lparr>rxd_pages := (rxd_pages rx)[b := blit (rxd_pages rx ! b) (f * GVE_DEFAULT_RX_BUFFER_SIZE) bytes]\<rparr>"
  have I: "qpl_inv {} nic rx" "\<forall>p \<in> set (rxd_pages rx). length p = PAGE_SIZE" "\<forall>i \<in> set (rxd_lent rx). snd i < GVE_DQ_NUM_FRAGS_IN_PAGE" using device_write by (simp_all add: qrx_ok_def)
  have f: "f < GVE_DQ_NUM_FRAGS_IN_PAGE" "(b, f) \<notin> set (rxd_lent rx)" using qpl_invD(5,7) [OF I(1)] device_write(1) by auto
  have "\<exists>g < GVE_DQ_NUM_FRAGS_IN_PAGE. (b, g) \<noteq> (b, f)" by (rule exI [of _ "1 - f"]) (use f(1) in \<open>simp add: FRAGS; arith\<close>)
  then obtain g where g: "g < GVE_DQ_NUM_FRAGS_IN_PAGE" "(b, g) \<noteq> (b, f)" by blast
  have "\<forall>p \<in> set (rxd_pages ?r). length p = PAGE_SIZE" using device_write_other(1) [OF I(2) f(1) _ g(2) device_write(2)] g(1) by simp
  moreover have "frag_data ?r i = frag_data rx i" if "i \<in> set (rxd_lent rx)" for i
    using device_write_other(2) [OF I(2) f(1) _ _ device_write(2), of i b] I(3) f(2) that by auto
  ultimately show ?case using device_write by (auto simp: qrx_ok_def ring_ok_def qpl_inv_def)
next
  case (restart rx rx' evs nic)
  then have I: "qpl_inv {} nic rx" "ring_ok k rx" "k < 32" "length (rxd_desc_ring rx) = 2 ^ k" by (simp_all add: qrx_ok_def ring_ok_def ring_mask_def)
  note C = qpl_clear [OF qpl_invD(1,2) [OF I(1)] I(3,4) restart(1)]
  show ?case using C restart frag_data_pages [OF C(4)] by (simp add: qrx_ok_def)
qed

lemma qrx_steps_ok: "(qrx_step k)\<^sup>*\<^sup>* s s' \<Longrightarrow> qrx_ok k s \<Longrightarrow> 1 \<le> k \<Longrightarrow> qrx_ok k s'"
  by (induction rule: rtranclp_induct) (auto dest: qrx_step_ok)


section \<open>An example ring\<close>

text \<open>A ring of four slots on four pages: cleared, filled, and after a completion of fragment 0 of page 3.\<close>

definition ex_qpl_raw :: "u8 list list \<Rightarrow> gve_rx_ring_dqo" where
  "ex_qpl_raw pgs = ex_rxd_raw\<lparr>rxd_pages := pgs\<rparr>"

definition ex_pgs :: "u8 list list" where "ex_pgs = replicate 4 (replicate PAGE_SIZE 0)"

definition ex_qpl0 :: "u8 list list \<Rightarrow> gve_rx_ring_dqo" where "ex_qpl0 pgs = fst (gve_clear_rx_ring_dqo True 4 (ex_qpl_raw pgs))"
definition ex_qpl1 :: "u8 list list \<Rightarrow> gve_rx_ring_dqo" where "ex_qpl1 pgs = fst (gve_rx_post_buffers_dqo True ex_rxd_env (ex_qpl0 pgs))"
definition ex_qpl_cd :: gve_rx_compl_desc_dqo where
  "ex_qpl_cd = zero_rx_compl_desc\<lparr>rc_len_gen := 0x4040, eop := True, rc_buf_id := compose_buf_id 3 0\<rparr>"
definition ex_qpl2 :: "u8 list list \<Rightarrow> gve_rx_ring_dqo" where
  "ex_qpl2 pgs = fst (snd (gve_rx_dqo_qpl ex_rxd_env ex_qpl_cd (rxd_consume (ex_qpl1 pgs))))"

lemma ex_qpl_raw_ok: "length (bufs (ex_qpl_raw pgs)) = buf_cnt (ex_qpl_raw pgs)" "buf_cnt (ex_qpl_raw pgs) \<le> GVE_RX_NUM_QPL_PAGES_DQO"
  "length (rxd_desc_ring (ex_qpl_raw pgs)) = 2 ^ 2" "rxd_lent (ex_qpl_raw pgs) = []" "rxd_pages (ex_qpl_raw pgs) = pgs"
  by (simp_all add: ex_qpl_raw_def ex_rxd_raw_def GVE_RX_NUM_QPL_PAGES_DQO_def)

lemma ex_pgs_ok: "\<forall>p \<in> set ex_pgs. length p = PAGE_SIZE" by (simp add: ex_pgs_def)

lemma ex_clear: "gve_clear_rx_ring_dqo True (2 ^ 2) (ex_qpl_raw pgs) = (ex_qpl0 pgs, [])"
  by (simp add: ex_qpl0_def gve_clear_rx_ring_dqo_def gve_free_rx_mbufs_dqo_def Let_def)

lemma ex_qpl1_val: "ex_qpl1 pgs = (ex_qpl_raw pgs)\<lparr>rxd_mask := 3, rxd_head := 3, fill_cnt := 3,
  rxd_desc_ring := [\<lparr>rd_buf_id = 3, rd_buf_addr = 0x4000\<rparr>, \<lparr>rd_buf_id = 0x803, rd_buf_addr = 0x4800\<rparr>, \<lparr>rd_buf_id = 2, rd_buf_addr = 0x3000\<rparr>, zero_rx_desc_dqo],
  bufs := (let z = \<lparr>rb_mbuf = None, rb_addr = 0, num_nic_frags = 0, next_idx = 0\<rparr> in [z, z, z\<lparr>num_nic_frags := 1, next_idx := 1\<rparr>, z\<lparr>num_nic_frags := 2\<rparr>]),
  free_bufs := [2, 1, 0]\<rparr>" by code_simp
lemmas ex_val = ex_qpl_raw_def ex_rxd_raw_def Let_def
lemma ex_qpl0_val: "ex_qpl0 pgs = (ex_qpl_raw pgs)\<lparr>rxd_mask := 3, free_bufs := [3, 2, 1, 0]\<rparr>" by code_simp
lemma ex_posted: "posted_ids (ex_qpl0 pgs) (ex_qpl1 pgs) = [(3, 0), (3, 1), (2, 0)]"
  by (simp add: posted_ids_def ex_qpl0_val ex_qpl1_val ex_val id_buf_def id_frag_def upt_rec)

lemma ex_lent: "rxd_lent (ex_qpl2 pgs) = [(3, 0)]" unfolding ex_qpl2_def ex_qpl1_val by code_simp

lemma ex_fill: "qrx_step 2 ({}, ex_qpl0 pgs) ({(3, 0), (3, 1), (2, 0)}, ex_qpl1 pgs)"
  using refill [of ex_rxd_env "ex_qpl0 pgs" "ex_qpl1 pgs" "snd (gve_rx_post_buffers_dqo True ex_rxd_env (ex_qpl0 pgs))" 2 "{}"] ex_posted [of pgs]
  by (simp add: ex_qpl1_def)

lemma ex_cd: "(id_buf (rc_buf_id ex_qpl_cd), id_frag (rc_buf_id ex_qpl_cd)) = (3, 0)"
  using id_compose [of 3 0] by (simp add: ex_qpl_cd_def GVE_RX_NUM_QPL_PAGES_DQO_def)

lemma ex_qpl1_ok: "qrx_ok 2 ({(3, 0), (3, 1), (2, 0)}, ex_qpl1 ex_pgs)"
proof -
  have "qrx_ok 2 ({}, ex_qpl0 ex_pgs)"
    using qpl_clear [OF ex_qpl_raw_ok(1,2) _ ex_qpl_raw_ok(3) ex_clear, of ex_pgs] ex_pgs_ok by (simp add: qrx_ok_def ex_qpl_raw_ok)
  then show ?thesis using qrx_step_ok [OF ex_fill] by simp
qed

text \<open>
  C19. The DQO receive queue with page lists: whatever the order of completions handled, refills, buffers
  recycled, mbufs freed by the stack, restarts and device writes, a fragment is never with the device
  while an mbuf of the stack refers to it, and no step changes a byte of a fragment the stack holds.
  Each buffer is on the free list, on the used list, or has fragments with the device, as many as its
  counter says: no page is lost.
\<close>

theorem gve_rx_dqo_qpl_lent_stable:
  assumes "length (bufs rx0) = buf_cnt rx0" and "buf_cnt rx0 \<le> GVE_RX_NUM_QPL_PAGES_DQO" and "1 \<le> k" and "k < 32"
    and "length (rxd_desc_ring rx0) = 2 ^ k" and "\<forall>p \<in> set (rxd_pages rx0). length p = PAGE_SIZE" and "rxd_lent rx0 = []"
    and "gve_clear_rx_ring_dqo True (2 ^ k) rx0 = (rx1, evs)" and "(qrx_step k)\<^sup>*\<^sup>* ({}, rx1) (nic, rx)"
  shows "nic \<inter> set (rxd_lent rx) = {} \<and> distinct (free_bufs rx @ used_bufs rx) \<and>
    (\<forall>b < buf_cnt rx. unat (num_nic_frags (bufs rx ! b)) = card {f. (b, f) \<in> nic} \<and>
       (b \<in> set (free_bufs rx) \<or> b \<in> set (used_bufs rx) \<or> (\<exists>f. (b, f) \<in> nic))) \<and>
    (\<forall>nic' rx'. qrx_step k (nic, rx) (nic', rx') \<longrightarrow> (\<forall>i \<in> set (rxd_lent rx). frag_data rx' i = frag_data rx i))"
proof -
  have "qrx_ok k ({}, rx1)" using qpl_clear [OF assms(1,2,4,5,8)] assms(6,7) by (simp add: qrx_ok_def)
  then have ok: "qrx_ok k (nic, rx)" by (rule qrx_steps_ok [OF assms(9) _ assms(3)])
  then have I: "qpl_inv {} nic rx" by (simp add: qrx_ok_def)
  note D = qpl_invD [OF I]
  have "\<forall>nic' rx'. qrx_step k (nic, rx) (nic', rx') \<longrightarrow> (\<forall>i \<in> set (rxd_lent rx). frag_data rx' i = frag_data rx i)"
    using qrx_step_ok [OF _ ok assms(3)] by fastforce
  then show ?thesis using D(3,7) D(8) [unfolded frags_def] D(13) by auto
qed

theorem gve_rx_dqo_qpl_lent_stable_witness:
  "\<exists>nic. (qrx_step 2)\<^sup>*\<^sup>* ({}, ex_qpl0 ex_pgs) (nic, ex_qpl2 ex_pgs) \<and> rxd_lent (ex_qpl2 ex_pgs) = [(3, 0)] \<and> (3, 0) \<notin> nic"
proof -
  obtain w evs where c: "gve_rx_dqo_qpl ex_rxd_env ex_qpl_cd (rxd_consume (ex_qpl1 ex_pgs)) = (w, ex_qpl2 ex_pgs, evs)" by (metis ex_qpl2_def prod.collapse)
  let ?n = "{(3, 0), (3, 1), (2, 0)} - {(3, 0)} \<union> set (posted_ids (ex_qpl1 ex_pgs) (ex_qpl2 ex_pgs))"
  have "qrx_step 2 ({(3, 0), (3, 1), (2, 0)}, ex_qpl1 ex_pgs) (?n, ex_qpl2 ex_pgs)" by (rule completion [OF ex_cd [symmetric] _ c]) simp
  with ex_fill have s: "(qrx_step 2)\<^sup>*\<^sup>* ({}, ex_qpl0 ex_pgs) (?n, ex_qpl2 ex_pgs)" by (blast intro: converse_rtranclp_into_rtranclp)
  from gve_rx_dqo_qpl_lent_stable [OF ex_qpl_raw_ok(1,2) _ _ ex_qpl_raw_ok(3) _ ex_qpl_raw_ok(4) ex_clear s] ex_pgs_ok
  have "?n \<inter> set (rxd_lent (ex_qpl2 ex_pgs)) = {}" by (simp add: ex_qpl_raw_ok(5))
  then show ?thesis using s ex_lent [of ex_pgs] by (intro exI [of _ ?n]) auto
qed

text \<open>The fragment that the completion \<open>j\<close> places past the tail reports, and that the completions written are for distinct posted fragments.\<close>

definition compl_frag :: "gve_rx_ring_dqo \<Rightarrow> nat \<Rightarrow> nat \<times> nat" where
  "compl_frag rx j = (let i = rc_buf_id (rxd_compl_ring rx ! ((unat (rxd_tail rx) + j) mod length (rxd_compl_ring rx))) in (id_buf i, id_frag i))"

definition frags_valid :: "(nat \<times> nat) set \<Rightarrow> gve_rx_ring_dqo \<Rightarrow> nat \<Rightarrow> bool" where
  "frags_valid nic rx n \<longleftrightarrow> inj_on (compl_frag rx) {..<n} \<and> compl_frag rx ` {..<n} \<subseteq> nic"

lemma qpl_handle:
  assumes ok: "qrx_ok k (nic, rx)" and k: "1 \<le> k" and v: "frags_valid nic rx (Suc n)" and c: "rxd_compl_ok rx" and h: "rxd_handle True env rx = (w, rx', evs)"
  shows "\<exists>nic'. qrx_step k (nic, rx) (nic', rx') \<and> frags_valid nic' rx' n" "RX_SCHEDULE_RESET \<notin> set evs"
proof -
  obtain kk where kk: "ring_mask kk (rxd_mask rx)" "length (rxd_compl_ring rx) = 2 ^ kk" "unat (rxd_tail rx) < 2 ^ kk" using c by (auto simp: rxd_compl_ok_def)
  let ?cd = "rxd_compl_ring rx ! unat (rxd_tail rx)" let ?i = "compl_frag rx 0"
  have i: "?i = (id_buf (rc_buf_id ?cd), id_frag (rc_buf_id ?cd))" using kk by (simp add: compl_frag_def Let_def)
  have m: "?i \<in> nic" using v by (auto simp: frags_valid_def)
  have h': "gve_rx_dqo_qpl env ?cd (rxd_consume rx) = (w, rx', evs)" using h by (simp add: rxd_handle_def)
  have st: "qrx_step k (nic, rx) (nic - {?i} \<union> set (posted_ids rx rx'), rx')" by (rule completion [OF i m h'])
  have id: "compl_frag rx' j = compl_frag rx (Suc j)" for j
    using adv_shift [OF kk(1), of "rxd_tail rx" j] by (simp add: compl_frag_def handle_sel [OF h] kk(2))
  have inj: "inj_on (compl_frag rx) {..<Suc n}" using v by (simp add: frags_valid_def)
  have "inj_on (compl_frag rx \<circ> Suc) {..<n}" by (intro comp_inj_on) (auto intro: inj_on_subset [OF inj])
  then have "inj_on (compl_frag rx') {..<n}" by (rule inj_on_cong [THEN iffD1, rotated]) (simp add: id)
  moreover have "compl_frag rx' j \<in> nic - {?i}" if "j < n" for j
    using v that inj_onD [OF inj, of "Suc j" 0] unfolding id frags_valid_def by auto
  ultimately have "frags_valid (nic - {?i} \<union> set (posted_ids rx rx')) rx' n" by (fastforce simp: frags_valid_def)
  with st show "\<exists>nic'. qrx_step k (nic, rx) (nic', rx') \<and> frags_valid nic' rx' n" by blast
  have I: "qpl_inv {} nic (rxd_consume rx)" "ring_ok k (rxd_consume rx)"
    using ok by (simp_all add: qrx_ok_def qview_inv [of "rxd_consume rx" rx] qview_ok [of "rxd_consume rx" rx])
  show "RX_SCHEDULE_RESET \<notin> set evs" by (rule outcome_reset [OF qpl_one [OF I k _ refl refl h']]) (use m i in simp)
qed

text \<open>
  C20. The receive handler with page lists (\<open>gve_rx_cleanup_dqo\<close>): from a consistent ring whose
  completions are for distinct fragments the device holds, the cleanup ends, asks for no reset, is
  a sequence of the steps above, and leaves the ring consistent. When it does not ask to run again
  no completion is left.
\<close>

theorem gve_rx_cleanup_dqo_qpl_correct:
  assumes "qrx_ok k (nic, rx)" and "1 \<le> k" and "rxd_compl_ok rx" and "rxd_written rx n" and "frags_valid nic rx n"
  shows "\<exists>more rx' evs m nic'. gve_rx_cleanup_dqo True env budget rx = Some (more, rx', evs) \<and> (qrx_step k)\<^sup>*\<^sup>* (nic, rx) (nic', rx') \<and>
    qrx_ok k (nic', rx') \<and> RX_SCHEDULE_RESET \<notin> set evs \<and> rxd_written rx' m \<and> m \<le> n \<and> (\<not> more \<longrightarrow> m = 0)"
proof -
  let ?I = "\<lambda>r n. \<exists>N. (qrx_step k)\<^sup>*\<^sup>* (nic, rx) (N, r) \<and> frags_valid N r n"
  note steps_ok = qrx_steps_ok [OF _ assms(1,2)]
  have I0: "?I rx n" using assms(5) by blast
  have st: "\<forall>rx n w rx' evs. ?I rx (Suc n) \<longrightarrow> rxd_compl_ok rx \<longrightarrow> rxd_handle True env rx = (w, rx', evs) \<longrightarrow>
    ?I rx' n \<and> (\<forall>e \<in> set evs. e \<noteq> RX_SCHEDULE_RESET)"
  proof (intro allI impI)
    fix r n w r' evs assume I: "?I r (Suc n)" and c: "rxd_compl_ok r" and h: "rxd_handle True env r = (w, r', evs)"
    then obtain N where N: "(qrx_step k)\<^sup>*\<^sup>* (nic, rx) (N, r)" "frags_valid N r (Suc n)" by blast
    note H = qpl_handle [OF steps_ok [OF N(1)] assms(2) N(2) c h]
    then show "?I r' n \<and> (\<forall>e \<in> set evs. e \<noteq> RX_SCHEDULE_RESET)" using N(1) by (blast intro: rtranclp.rtrancl_into_rtrancl)
  qed
  obtain more rx' evs1 evs2 m rx1 rx2 where R: "gve_rx_cleanup_dqo True env budget rx = Some (more, rx', evs1 @ evs2)"
    "\<forall>e \<in> set evs1. e \<noteq> RX_SCHEDULE_RESET \<or> e = RX_LRO_FLUSH_ALL" "?I rx1 m" "m \<le> n" "gve_rx_post_buffers_dqo True env rx1 = (rx2, evs2)"
    "rx' = (if True then gve_rx_maybe_extract_from_used_bufs False rx2 else rx2)" "rxd_compl_ok rx'" "rxd_written rx' m" "\<not> more \<longrightarrow> m = 0"
    by (rule rxd_cleanup [OF st assms(3,4) I0])
  obtain N where N: "(qrx_step k)\<^sup>*\<^sup>* (nic, rx) (N, rx1)" using R(3) by blast
  have S: "(qrx_step k)\<^sup>*\<^sup>* (nic, rx) (N \<union> set (posted_ids rx1 rx2), rx')"
    using rtranclp.rtrancl_into_rtrancl [OF rtranclp.rtrancl_into_rtrancl [OF N refill [OF R(5)]] extract_used [of _ _ _ False]] R(6) by simp
  have "outcome k (2 ^ k) {} N {} rx1 rx2 evs2" using outcome_refill [OF _ _ R(5)] steps_ok [OF N] by (simp add: qrx_ok_def)
  then have "RX_SCHEDULE_RESET \<notin> set (evs1 @ evs2)" using R(2) outcome_reset by auto
  then show ?thesis using R(1,4,8,9) S steps_ok [OF S] by blast
qed

definition ex_qpl_done :: "u8 list list \<Rightarrow> gve_rx_ring_dqo" where
  "ex_qpl_done pgs = (ex_qpl1 pgs)\<lparr>rxd_compl_ring := (rxd_compl_ring (ex_qpl1 pgs))[0 := ex_qpl_cd]\<rparr>"

theorem gve_rx_cleanup_dqo_qpl_correct_witness:
  "\<exists>more rx' evs nic'. gve_rx_cleanup_dqo True ex_rxd_env 64 (ex_qpl_done ex_pgs) = Some (more, rx', evs) \<and> qrx_ok 2 (nic', rx') \<and>
     RX_SCHEDULE_RESET \<notin> set evs"
proof -
  let ?n = "{(3, 0), (3, 1), (2, 0)}"
  have ok: "qrx_ok 2 (?n, ex_qpl_done ex_pgs)"
    using ex_qpl1_ok qpl_inv_cong [of "ex_qpl_done ex_pgs" "ex_qpl1 ex_pgs"] unfolding qrx_ok_def by (simp add: ex_qpl_done_def ring_ok_def)
  have e: "rxd_mask (ex_qpl_done pgs) = 3" "length (rxd_compl_ring (ex_qpl_done pgs)) = 4" "rxd_tail (ex_qpl_done pgs) = 0" for pgs
    by (simp_all add: ex_qpl_done_def ex_qpl1_val ex_val)
  have e4: "rxd_written (ex_qpl_done pgs) 1" for pgs
    by (simp add: rxd_written_def ex_qpl_done_def ex_qpl1_val ex_val gve_rx_get_gen_bit_def ex_qpl_cd_def zero_rx_compl_desc_def GVE_RX_DESC_DQO_GEN_BIT_MASK_def)
  have e5: "compl_frag (ex_qpl_done pgs) 0 = (3, 0)" for pgs
    using ex_cd by (simp add: compl_frag_def ex_qpl_done_def ex_qpl1_val ex_val)
  have c: "rxd_compl_ok (ex_qpl_done ex_pgs)" unfolding rxd_compl_ok_def by (rule exI [of _ 2]) (simp add: e ring_mask_def mask_numeral)
  have v: "frags_valid ?n (ex_qpl_done ex_pgs) 1" by (auto simp: frags_valid_def e5 lessThan_Suc)
  show ?thesis using gve_rx_cleanup_dqo_qpl_correct [OF ok _ c e4 v, of ex_rxd_env 64] by auto
qed

lemma post_new_sel:
  assumes "free_bufs rx \<noteq> []" and "gve_rx_post_new_dqo_qpl_buf rx = (e, rx', evs)"
  shows "e = None" "rxd_head rx' = (rxd_head rx + 1) AND rxd_mask rx" "fill_cnt rx' = fill_cnt rx + 1" "rxd_mask rx' = rxd_mask rx"
    "rxd_tail rx' = rxd_tail rx" "rxd_allocs rx' = rxd_allocs rx"
  using assms
  by (auto simp: gve_rx_post_new_dqo_qpl_buf_def gve_rx_post_qpl_buf_dqo_def gve_rx_advance_head_dqo_def Let_def split: list.splits if_splits)

lemma drop_sel:
  assumes "drop_frag_dqo (gve_rx_post_qpl_buf_dqo b f) lst rx = (rx', evs)"
  shows "rxd_head rx' = (rxd_head rx + 1) AND rxd_mask rx" "fill_cnt rx' = fill_cnt rx + 1" "rxd_mask rx' = rxd_mask rx" "rxd_tail rx' = rxd_tail rx"
  using assms
  by (auto simp: drop_frag_dqo_def drop_frag_clear_ctx_def gve_rx_post_qpl_buf_dqo_def gve_rx_advance_head_dqo_def Let_def split: if_splits)

text \<open>
  C22. A fault of \<open>gve_rx_dqo_qpl\<close>: on a full ring, when a new buffer is posted in place of the
  completed fragment but no mbuf can be had for the fragment, the drop path posts the fragment too.
  Two descriptors are posted for one completion, the head meets the tail, and the ring, which
  then holds as many descriptors as it has slots, is taken for empty by the next refill.
\<close>

theorem gve_rx_dqo_qpl_overrun:
  assumes "qpl_inv {} nic rx" and "ring_ok k rx" and "(id_buf (rc_buf_id cd), id_frag (rc_buf_id cd)) \<in> nic"
    and "num_pending_bufs rx = rxd_mask rx" and "free_bufs rx \<noteq> []" and "al_mbuf env (rxd_allocs rx) = None"
    and "\<not> drop_pkt (rx_ctx rx)" and "\<not> rx_error cd" and "rx_copybreak env < ucast (packet_len cd)"
  shows "\<exists>w rx' evs. gve_rx_dqo_qpl env cd (rxd_consume rx) = (w, rx', evs) \<and> fill_cnt rx' = fill_cnt rx + 2 \<and>
     rxd_head rx' = rxd_tail rx' \<and> num_pending_bufs rx' = 0"
proof -
  let ?b = "id_buf (rc_buf_id cd)" let ?f = "id_frag (rc_buf_id cd)" let ?c = "rxd_consume rx" let ?l = "packet_len cd"
  have I: "qpl_inv {} nic ?c" using assms(1) by (simp add: qview_inv [of ?c rx])
  define r0 where "r0 = upd_buf ?b (\<lambda>x. x\<lparr>num_nic_frags := num_nic_frags x - 1\<rparr>) ?c"
  note T = qpl_take [OF I assms(3), folded r0_def]
  have f: "\<not> ?f > GVE_DQ_NUM_FRAGS_IN_PAGE - 1" using qpl_invD(5) [OF I] assms(3) by auto
  have s: "rxd_head r0 = rxd_head rx" "rxd_mask r0 = rxd_mask rx" "rxd_tail r0 = (rxd_tail rx + 1) AND rxd_mask rx" "fill_cnt r0 = fill_cnt rx"
    "rxd_allocs r0 = rxd_allocs rx" "rx_ctx r0 = rx_ctx rx" "free_bufs r0 = free_bufs rx" "rx_ctx ?c = rx_ctx rx"
    by (simp_all add: r0_def rxd_consume_def Let_def)
  obtain e r1 e1 where p: "gve_rx_post_new_dqo_qpl_buf r0 = (e, r1, e1)" by (metis prod_cases3)
  have ne: "free_bufs r0 \<noteq> []" using assms(5) s by simp
  note P = post_new_sel [OF ne p, unfolded s]
  let ?r2 = "count_rx (\<lambda>st. st\<lparr>rx_dropped_pkt_mbuf_alloc_fail := rx_dropped_pkt_mbuf_alloc_fail st + 1\<rparr>) (r1\<lparr>rxd_allocs := rxd_allocs r1 + 1\<rparr>)"
  obtain r3 e3 where d: "drop_frag_dqo (gve_rx_post_qpl_buf_dqo ?b ?f) (eop cd) ?r2 = (r3, e3)" by fastforce
  have s2: "rxd_head ?r2 = rxd_head r1" "rxd_mask ?r2 = rxd_mask r1" "rxd_tail ?r2 = rxd_tail r1" "fill_cnt ?r2 = fill_cnt r1" by (simp_all add: count_rx_def)
  note D = drop_sel [OF d, unfolded s2]
  have x: "gve_rx_add_extmbuf_to_ctx env ?b ?f ?l r1 = (Some ENOMEM, r1\<lparr>rxd_allocs := rxd_allocs r1 + 1\<rparr>)"
    using assms(6) P(6) by (simp add: gve_rx_add_extmbuf_to_ctx_def Let_def)
  have c: "\<not> ucast ?l \<le> rx_copybreak env" using assms(9) by simp
  have g: "gve_rx_dqo_qpl env cd ?c = (0, r3, e1 @ e3)"
    using T(2,3) f assms(7,8) c p P(1) x d s unfolding gve_rx_dqo_qpl_def Let_def r0_def [symmetric] by simp
  have hd: "rxd_head r3 = rxd_tail r3"
    using full_plus_one [of k "rxd_mask rx" "rxd_head rx" "rxd_tail rx"] assms(2,4) D(1,4) P(2,4,5) by (simp add: ring_ok_def num_pending_bufs_def)
  then have "num_pending_bufs r3 = 0" by (simp add: num_pending_bufs_def)
  then show ?thesis using g hd D(2) P(3) by simp
qed

theorem gve_rx_dqo_qpl_overrun_witness:
  "\<exists>w rx' evs. gve_rx_dqo_qpl (ex_rxd_env\<lparr>al_mbuf := \<lambda>_. None\<rparr>) ex_qpl_cd (rxd_consume (ex_qpl1 ex_pgs)) = (w, rx', evs) \<and>
     rxd_head rx' = rxd_tail rx' \<and> num_pending_bufs rx' = 0"
proof -
  have I: "qpl_inv {} {(3, 0), (3, 1), (2, 0)} (ex_qpl1 ex_pgs)" "ring_ok 2 (ex_qpl1 ex_pgs)" using ex_qpl1_ok by (simp_all add: qrx_ok_def)
  have f: "num_pending_bufs (ex_qpl1 pgs) = rxd_mask (ex_qpl1 pgs)" "free_bufs (ex_qpl1 pgs) \<noteq> []" "\<not> drop_pkt (rx_ctx (ex_qpl1 pgs))"
    "\<not> rx_error ex_qpl_cd" "rx_copybreak (ex_rxd_env\<lparr>al_mbuf := \<lambda>_. None\<rparr>) < ucast (packet_len ex_qpl_cd)" for pgs
    by (simp_all add: num_pending_bufs_def ex_qpl1_val ex_val empty_ctx_def ex_qpl_cd_def zero_rx_compl_desc_def ex_rxd_env_def packet_len_def)
  from gve_rx_dqo_qpl_overrun [OF I _ f(1,2) _ f(3,4,5)] ex_cd show ?thesis by fastforce
qed

text \<open>
  C21. The id that a posted fragment carries (\<open>union gve_rx_qpl_buf_id_dqo\<close>) and that its completion
  brings back names the same buffer and fragment, for every buffer a page list can have and every
  fragment number that fits its five bits.
\<close>

theorem qpl_buf_id_roundtrip:
  assumes "b < GVE_RX_NUM_QPL_PAGES_DQO" and "f < 2 ^ 5"
  shows "id_buf (compose_buf_id b f) = b \<and> id_frag (compose_buf_id b f) = f"
  using id_compose [OF assms] by simp

theorem qpl_buf_id_roundtrip_witness: "id_buf (compose_buf_id 2047 1) = 2047 \<and> id_frag (compose_buf_id 2047 1) = 1"
  using qpl_buf_id_roundtrip [of 2047 1] by (simp add: GVE_RX_NUM_QPL_PAGES_DQO_def)

end
