(* ===== verification/Gve_Xmit.thy ===== *)
theory Gve_Xmit
  imports Gve_Tx_Dqo_Run Gve_Tx_Reclaim
begin

text \<open>
  The part of \<open>gve_tx.c\<close> between the stack and the rings: packets wait in the buf ring of their
  queue, the transmit task moves them to the device ring, and a full device ring stops the queue
  until the cleanup task finds room. One ring is either a GQI or a DQO ring.
\<close>

section \<open>Queues\<close>

datatype tx_union = TxGqi gve_tx_ring_gqi | TxDqo gve_tx_ring_dqo

record tx_queue =
  txq_ring :: tx_union
  txq_br :: "mbuf list"

definition txq_stopped :: "tx_union \<Rightarrow> bool" where
  "txq_stopped r = (case r of TxGqi tx \<Rightarrow> stopped tx | TxDqo tx \<Rightarrow> stopped tx)"

definition set_stopped :: "bool \<Rightarrow> tx_union \<Rightarrow> tx_union" where
  "set_stopped b r = (case r of TxGqi tx \<Rightarrow> TxGqi (tx\<lparr>stopped := b\<rparr>) | TxDqo tx \<Rightarrow> TxDqo (tx\<lparr>stopped := b\<rparr>))"

definition count_txq :: "(gve_txq_stats \<Rightarrow> gve_txq_stats) \<Rightarrow> tx_union \<Rightarrow> tx_union" where
  "count_txq f r = (case r of TxGqi tx \<Rightarrow> TxGqi (tx\<lparr>tx_stats := f (tx_stats tx)\<rparr>) | TxDqo tx \<Rightarrow> TxDqo (tx\<lparr>tx_stats := f (tx_stats tx)\<rparr>))"

text \<open>
  What an attempt to transmit meets: whether the interface still runs, the clock, the value the
  uninitialised header offset has, and the results of the kernel services that the DQO paths use.
\<close>

record xmit_env =
  xe_running :: bool
  xe_now :: int
  xe_l4_off0 :: nat
  xe_tso :: tso_env
  xe_map :: map_env

section \<open>The transmit task\<close>

text \<open>The error, the chain in \<open>*mbuf\<close> afterwards, the ring and what was done; \<open>None\<close> for a failed assertion.\<close>

definition gve_xmit_mbuf :: "bool \<Rightarrow> xmit_env \<Rightarrow> mbuf \<Rightarrow> tx_union \<Rightarrow> (err \<times> mbuf option \<times> tx_union \<times> event list) option" where
  "gve_xmit_mbuf is_qpl env m r =
     (case r of
        TxGqi tx \<Rightarrow> map_option (\<lambda>(e, tx', evs). (e, Some m, TxGqi tx', evs)) (gve_xmit (xe_now env) (xe_l4_off0 env) m tx)
      | TxDqo tx \<Rightarrow>
          if is_qpl then map_option (\<lambda>(e, tx'). (e, Some m, TxDqo tx', [])) (gve_xmit_dqo_qpl (xe_tso env) (xe_now env) m tx)
          else (case gve_xmit_dqo (xe_tso env) (xe_map env) (xe_now env) m tx of (e, m', tx', evs) \<Rightarrow> Some (e, m', TxDqo tx', evs)))"

definition gve_xmit_retry_enobuf_mbuf :: "bool \<Rightarrow> xmit_env \<Rightarrow> mbuf \<Rightarrow> tx_union \<Rightarrow> (err \<times> mbuf option \<times> tx_union \<times> event list) option" where
  "gve_xmit_retry_enobuf_mbuf is_qpl env m r =
     map_option (\<lambda>(e, m', r', evs). (e, m', if e = None then set_stopped False r' else r', evs))
       (gve_xmit_mbuf is_qpl env m (set_stopped True r))"

definition txq_doorbell :: "tx_union \<Rightarrow> event" where
  "txq_doorbell r = (case r of TxGqi tx \<Rightarrow> DB_WRITE_4 (db_offset (tx_com tx)) (tx_req tx)
     | TxDqo tx \<Rightarrow> DB_DQO_WRITE_4 (db_offset (tx_com tx)) (desc_tail tx))"

text \<open>
  The loop of \<open>gve_xmit_br\<close> over the buf ring; the attempts are numbered. \<open>BPF_MTAP\<close> reads the
  chain when a listener is attached (\<open>bpf\<close>), so that a chain that has been freed is a NULL dereference.
\<close>

fun gve_xmit_br :: "bool \<Rightarrow> bool \<Rightarrow> (nat \<Rightarrow> xmit_env) \<Rightarrow> nat \<Rightarrow> tx_union \<Rightarrow> mbuf list \<Rightarrow> (tx_union \<times> mbuf list \<times> event list) option" where
  "gve_xmit_br bpf is_qpl env n r [] = Some (r, [], [])"
| "gve_xmit_br bpf is_qpl env n r (m # ms) =
     (if \<not> xe_running (env n) then Some (r, m # ms, [])
      else do {
        (err1, m1, r1, evs1) \<leftarrow> gve_xmit_mbuf is_qpl (env n) m r;
        (err2, m2, r2, evs2) \<leftarrow>
          (case m1 of
             Some m' \<Rightarrow> if err1 = Some ENOBUFS then gve_xmit_retry_enobuf_mbuf is_qpl (env (n + 1)) m' r1 else Some (err1, m1, r1, [])
           | None \<Rightarrow> Some (err1, m1, r1, []));
        case (err2, m2) of
          (Some e, Some m') \<Rightarrow>
            if e = EINVAL then Some (r2, ms, evs1 @ evs2 @ [M_FREEM (m_ptr m')])
            else Some (r2, m' # ms, evs1 @ evs2)
        | (_, None) \<Rightarrow>
            if bpf then None
            else map_option (\<lambda>(r3, br, evs3). (r3, br, evs1 @ evs2 @ txq_doorbell r2 # evs3)) (gve_xmit_br bpf is_qpl env (n + 2) r2 ms)
        | (None, Some m') \<Rightarrow>
            map_option (\<lambda>(r3, br, evs3). (r3, br, evs1 @ evs2 @ BPF_MTAP (m_ptr m') # txq_doorbell r2 # evs3)) (gve_xmit_br bpf is_qpl env (n + 2) r2 ms) })"

definition gve_xmit_tq :: "bool \<Rightarrow> bool \<Rightarrow> (nat \<Rightarrow> xmit_env) \<Rightarrow> tx_queue \<Rightarrow> (tx_queue \<times> event list) option" where
  "gve_xmit_tq bpf is_qpl env q =
     map_option (\<lambda>(r, b, evs). (\<lparr>txq_ring = r, txq_br = b\<rparr>, evs)) (gve_xmit_br bpf is_qpl env 0 (txq_ring q) (txq_br q))"

section \<open>Entry points of the stack\<close>

text \<open>
  \<open>enq\<close> is the outcome of \<open>drbr_enqueue\<close>, which frees the chain when it fails; \<open>trylock\<close> is whether
  the ring lock was free.
\<close>

definition gve_xmit_ifp ::
  "bool \<Rightarrow> bool \<Rightarrow> (nat \<Rightarrow> xmit_env) \<Rightarrow> bool \<Rightarrow> nat \<Rightarrow> nat \<Rightarrow> err \<Rightarrow> bool \<Rightarrow> mbuf \<Rightarrow> tx_queue list \<Rightarrow> (err \<times> tx_queue list \<times> event list) option" where
  "gve_xmit_ifp bpf is_qpl env running curcpu num_queues enq trylock m qs =
     (if \<not> running then Some (Some ENODEV, qs, [])
      else do {
        let i = (if m_hash m \<noteq> M_HASHTYPE_NONE then unat (m_flowid m) mod num_queues else curcpu mod num_queues);
        let q = qs ! i;
        vlan \<leftarrow> is_vlan_tagged_pkt m;
        if vlan then
          Some (Some ENODEV, qs[i := q\<lparr>txq_ring := count_txq (\<lambda>st. st\<lparr>tx_dropped_pkt_vlan := tx_dropped_pkt_vlan st + 1,
                  tx_dropped_pkt := tx_dropped_pkt st + 1\<rparr>) (txq_ring q)\<rparr>], [M_FREEM (m_ptr m)])
        else
          let is_br_empty = (txq_br q = [])
          in case enq of
               Some e \<Rightarrow>
                 Some (Some e, qs[i := q\<lparr>txq_ring := count_txq (\<lambda>st. st\<lparr>tx_dropped_pkt_nospace_bufring := tx_dropped_pkt_nospace_bufring st + 1,
                    tx_dropped_pkt := tx_dropped_pkt st + 1\<rparr>) (txq_ring q)\<rparr>],
                    M_FREEM (m_ptr m) # (if txq_stopped (txq_ring q) then [] else [TASKQUEUE_ENQUEUE TX_XMIT]))
             | None \<Rightarrow>
                 let q1 = q\<lparr>txq_br := txq_br q @ [m]\<rparr>
                 in if is_br_empty \<and> trylock then
                      map_option (\<lambda>(q2, evs). (None, qs[i := q2], evs)) (gve_xmit_tq bpf is_qpl env q1)
                    else Some (None, qs[i := q1], if txq_stopped (txq_ring q1) then [] else [TASKQUEUE_ENQUEUE TX_XMIT]) })"

definition gve_qflush :: "nat \<Rightarrow> tx_queue list \<Rightarrow> tx_queue list \<times> event list" where
  "gve_qflush num_queues qs =
     (map (\<lambda>q. q\<lparr>txq_br := []\<rparr>) (take num_queues qs) @ drop num_queues qs,
      concat (map (\<lambda>q. map (\<lambda>m. M_FREEM (m_ptr m)) (txq_br q)) (take num_queues qs)))"

definition gve_tx_intr :: "bool \<Rightarrow> gve_tx_ring_gqi \<Rightarrow> bool \<times> event list" where
  "gve_tx_intr running tx =
     (if \<not> running then (False, [])
      else (True, [DB_WRITE_4 (irq_db_offset (tx_com tx)) GVE_IRQ_MASK, TASKQUEUE_ENQUEUE TX_CLEANUP]))"


section \<open>The transmit task on a GQI ring\<close>

lemma tx_inv_stopped [simp]: "tx_inv k (tx\<lparr>stopped := b\<rparr>) = tx_inv k tx" "in_flight (tx\<lparr>stopped := b\<rparr>) = in_flight tx"
  "held (tx\<lparr>stopped := b\<rparr>) n = held tx n"
  by (intro tx_inv_cong) (simp_all add: in_flight_def held_def slot_def)

lemma tx_inv_stats [simp]: "tx_inv k (tx\<lparr>tx_stats := st\<rparr>) = tx_inv k tx" "in_flight (tx\<lparr>tx_stats := st\<rparr>) = in_flight tx"
  "held (tx\<lparr>tx_stats := st\<rparr>) n = held tx n"
  by (intro tx_inv_cong) (simp_all add: in_flight_def held_def slot_def)

text \<open>One attempt: the packet joins those in flight, or only a counter changes.\<close>

lemma xmit_attempt:
  assumes I: "tx_inv k tx" and pk: "pkt_ok l4_off0 m"
  shows "\<exists>e tx' evs. gve_xmit now l4_off0 m tx = Some (e, tx', evs) \<and> tx_inv k tx' \<and>
    (e = None \<longrightarrow> held tx' (in_flight tx') = held tx (in_flight tx) @ [m_ptr m]) \<and>
    (e \<noteq> None \<longrightarrow> e = Some ENOBUFS \<and> held tx' (in_flight tx') = held tx (in_flight tx) \<and> stopped tx' = stopped tx)"
proof -
  have p: "tx_inv_part k tx 0" using I by (simp add: tx_inv_part_0)
  obtain e tx' evs where r: "gve_xmit now l4_off0 m tx = Some (e, tx', evs)"
    using xmit_can(1) [OF p pk, of now] by (metis (no_types, lifting) case_prod_conv surj_pair)
  show ?thesis
  proof (cases e)
    case None
    have "tx_inv_part k tx' 0 \<and> sent k tx m tx'" using xmit_part_inv [OF p pk] r None by simp
    then show ?thesis using r None held_sent [of k tx m tx'] by (simp add: tx_inv_part_0)
  next
    case (Some a)
    then show ?thesis using xmit_full [OF p pk, of now a tx' evs] r I by simp
  qed
qed

lemma xmit_br_gqi:
  assumes "tx_inv k tx" and "\<forall>n. xe_running (env n)" and "\<forall>n. \<forall>m \<in> set br. pkt_ok (xe_l4_off0 (env n)) m"
  shows "\<exists>tx' sent rest evs. gve_xmit_br bpf q env n (TxGqi tx) br = Some (TxGqi tx', rest, evs) \<and> br = sent @ rest \<and> tx_inv k tx' \<and>
    held tx' (in_flight tx') = held tx (in_flight tx) @ map m_ptr sent \<and> (rest \<noteq> [] \<longrightarrow> stopped tx')"
  using assms
proof (induction br arbitrary: n tx)
  case Nil
  then show ?case by simp
next
  case (Cons m ms)
  have pk: "pkt_ok (xe_l4_off0 (env i)) m" for i using Cons.prems(3) by simp
  have fin: ?case if st: "tx_inv k t" "held t (in_flight t) = held tx (in_flight tx) @ [m_ptr m]"
    and run: "\<And>t' rest evs. gve_xmit_br bpf q env (n + 2) (TxGqi t) ms = Some (TxGqi t', rest, evs) \<Longrightarrow>
       \<exists>evs. gve_xmit_br bpf q env n (TxGqi tx) (m # ms) = Some (TxGqi t', rest, evs)" for t
  proof -
    obtain t' sent rest evs where R: "gve_xmit_br bpf q env (n + 2) (TxGqi t) ms = Some (TxGqi t', rest, evs)" "ms = sent @ rest" "tx_inv k t'"
      "held t' (in_flight t') = held t (in_flight t) @ map m_ptr sent" "rest \<noteq> [] \<longrightarrow> stopped t'"
      using Cons.IH [OF st(1) Cons.prems(2), of "n + 2"] Cons.prems(3) by auto
    obtain evs' where "gve_xmit_br bpf q env n (TxGqi tx) (m # ms) = Some (TxGqi t', rest, evs')" using run [OF R(1)] by blast
    then show ?case using R st(2) by (intro exI [of _ t'] exI [of _ "m # sent"] exI [of _ rest] exI [of _ evs']) simp
  qed
  obtain e tx1 evs1 where A: "gve_xmit (xe_now (env n)) (xe_l4_off0 (env n)) m tx = Some (e, tx1, evs1)" "tx_inv k tx1"
    "e = None \<longrightarrow> held tx1 (in_flight tx1) = held tx (in_flight tx) @ [m_ptr m]"
    "e \<noteq> None \<longrightarrow> e = Some ENOBUFS \<and> held tx1 (in_flight tx1) = held tx (in_flight tx) \<and> stopped tx1 = stopped tx"
    using xmit_attempt [OF Cons.prems(1) pk [of n], of "xe_now (env n)"] by blast
  show ?case
  proof (cases e)
    case None
    show ?thesis by (rule fin [OF A(2) A(3) [rule_format, OF None]]) (use A(1) None Cons.prems(2) in \<open>auto simp: gve_xmit_mbuf_def\<close>)
  next
    case (Some a)
    then have a: "e = Some ENOBUFS" "held tx1 (in_flight tx1) = held tx (in_flight tx)" using A(4) by auto
    let ?s = "tx1\<lparr>stopped := True\<rparr>"
    obtain e2 tx2 evs2 where B: "gve_xmit (xe_now (env (n + 1))) (xe_l4_off0 (env (n + 1))) m ?s = Some (e2, tx2, evs2)" "tx_inv k tx2"
      "e2 = None \<longrightarrow> held tx2 (in_flight tx2) = held ?s (in_flight ?s) @ [m_ptr m]"
      "e2 \<noteq> None \<longrightarrow> e2 = Some ENOBUFS \<and> held tx2 (in_flight tx2) = held ?s (in_flight ?s) \<and> stopped tx2 = stopped ?s"
      using xmit_attempt [OF _ pk [of "n + 1"], of k ?s "xe_now (env (n + 1))"] A(2) by auto
    show ?thesis
    proof (cases e2)
      case None
      show ?thesis by (rule fin [of "tx2\<lparr>stopped := False\<rparr>"])
        (use A(1) a B None Cons.prems(2) in \<open>auto simp: gve_xmit_mbuf_def gve_xmit_retry_enobuf_mbuf_def set_stopped_def\<close>)
    next
      case (Some b)
      then have "e2 = Some ENOBUFS" "held tx2 (in_flight tx2) = held tx (in_flight tx)" "stopped tx2" using B(4) a by auto
      then show ?thesis using A(1) a B(1,2) Cons.prems(2)
        by (intro exI [of _ tx2] exI [of _ "[]"] exI [of _ "m # ms"] exI [of _ "evs1 @ evs2"])
           (simp add: gve_xmit_mbuf_def gve_xmit_retry_enobuf_mbuf_def set_stopped_def)
    qed
  qed
qed


definition ex_xmit_env :: xmit_env where
  "ex_xmit_env = \<lparr>xe_running = True, xe_now = 0, xe_l4_off0 = 0, xe_tso = ex_tso_env, xe_map = ex_map_env\<rparr>"


end
