(* ===== verification/Gve_Xmit_Live.thy ===== *)
theory Gve_Xmit_Live
  imports Gve_Xmit
begin

text \<open>
  The stopping and restarting of a GQI transmit queue. The transmit task stops the queue before it
  tries a packet a second time and the cleanup task looks for a stopped queue after it has made
  room; the theory takes both apart into their atomic steps, interleaves them with the senders, and
  shows that a waiting packet is never forgotten.
\<close>

section \<open>The threads\<close>

datatype xmit_pc = X_IDLE | X_TRY | X_STOP | X_RETRY | X_START | X_EXIT
datatype clean_pc = C_IDLE | C_LOOP nat nat | C_CHECK nat | C_CLEAR | C_ENQ

text \<open>
  \<open>w_task\<close> is whether the transmit task is queued; \<open>w_kicks\<close> holds, for each sender between its
  \<open>drbr_enqueue\<close> and the end of \<open>gve_xmit_ifp\<close>, whether it found the buf ring empty. \<open>X_IDLE\<close> means that the
  ring lock is free.
\<close>

record wq =
  w_tx :: gve_tx_ring_gqi
  w_br :: "mbuf list"
  w_task :: bool
  w_kicks :: "bool list"
  w_xpc :: xmit_pc
  w_cpc :: clean_pc

text \<open>A packet that the driver accepts on an empty ring whose FIFO has \<open>S\<close> bytes.\<close>

definition fits :: "nat \<Rightarrow> mbuf \<Rightarrow> bool" where
  "fits S m \<longleftrightarrow> (\<forall>l4_off0. pkt_ok l4_off0 m) \<and> 2 * m_pkthdr_len m + CACHE_LINE_SIZE \<le> S"

text \<open>
  The device completes whole packets, so that the descriptors a cleanup finds done end at a packet.
\<close>

inductive wq_step :: "nat \<Rightarrow> wq \<Rightarrow> wq \<Rightarrow> bool" for S :: nat where
  ifp_put: "fits S m \<Longrightarrow>
    wq_step S s (s\<lparr>w_br := w_br s @ [m], w_kicks := e # w_kicks s\<rparr>)"
| ifp_drop: "wq_step S s (s\<lparr>w_task := (w_task s \<or> \<not> stopped (w_tx s))\<rparr>)"
| ifp_run: "w_kicks s = ks1 @ True # ks2 \<Longrightarrow> w_xpc s = X_IDLE \<Longrightarrow> wq_step S s (s\<lparr>w_kicks := ks1 @ ks2, w_xpc := X_TRY\<rparr>)"
| ifp_kick: "w_kicks s = ks1 @ e # ks2 \<Longrightarrow> \<not> e \<or> w_xpc s \<noteq> X_IDLE \<Longrightarrow>
    wq_step S s (s\<lparr>w_kicks := ks1 @ ks2, w_task := (w_task s \<or> \<not> stopped (w_tx s))\<rparr>)"
| qflush: "w_xpc s = X_IDLE \<Longrightarrow> wq_step S s (s\<lparr>w_br := []\<rparr>)"
| tq_run: "w_task s \<Longrightarrow> w_xpc s = X_IDLE \<Longrightarrow> wq_step S s (s\<lparr>w_task := False, w_xpc := X_TRY\<rparr>)"
| x_empty: "w_xpc s = X_TRY \<Longrightarrow> w_br s = [] \<Longrightarrow> wq_step S s (s\<lparr>w_xpc := X_EXIT\<rparr>)"
| x_sent: "w_xpc s = X_TRY \<Longrightarrow> w_br s = m # ms \<Longrightarrow> gve_xmit now l4_off0 m (w_tx s) = Some (None, tx', evs) \<Longrightarrow>
    wq_step S s (s\<lparr>w_tx := tx', w_br := ms\<rparr>)"
| x_full: "w_xpc s = X_TRY \<Longrightarrow> w_br s = m # ms \<Longrightarrow> gve_xmit now l4_off0 m (w_tx s) = Some (Some ENOBUFS, tx', evs) \<Longrightarrow>
    wq_step S s (s\<lparr>w_tx := tx', w_xpc := X_STOP\<rparr>)"
| x_stop: "w_xpc s = X_STOP \<Longrightarrow> wq_step S s (s\<lparr>w_tx := (w_tx s)\<lparr>stopped := True\<rparr>, w_xpc := X_RETRY\<rparr>)"
| x_resent: "w_xpc s = X_RETRY \<Longrightarrow> w_br s = m # ms \<Longrightarrow> gve_xmit now l4_off0 m (w_tx s) = Some (None, tx', evs) \<Longrightarrow>
    wq_step S s (s\<lparr>w_tx := tx', w_br := ms, w_xpc := X_START\<rparr>)"
| x_putback: "w_xpc s = X_RETRY \<Longrightarrow> w_br s = m # ms \<Longrightarrow> gve_xmit now l4_off0 m (w_tx s) = Some (Some ENOBUFS, tx', evs) \<Longrightarrow>
    wq_step S s (s\<lparr>w_tx := tx', w_xpc := X_EXIT\<rparr>)"
| x_start: "w_xpc s = X_START \<Longrightarrow> wq_step S s (s\<lparr>w_tx := (w_tx s)\<lparr>stopped := False\<rparr>, w_xpc := X_TRY\<rparr>)"
| x_unlock: "w_xpc s = X_EXIT \<Longrightarrow> wq_step S s (s\<lparr>w_xpc := X_IDLE\<rparr>)"
| c_begin: "w_cpc s = C_IDLE \<Longrightarrow> n \<le> in_flight (w_tx s) \<Longrightarrow>
    n = in_flight (w_tx s) \<or> info_mbuf (info (w_tx s) ! slot (w_tx s) n) \<noteq> None \<Longrightarrow> wq_step S s (s\<lparr>w_cpc := C_LOOP n 0\<rparr>)"
| c_one: "w_cpc s = C_LOOP (Suc n) sp \<Longrightarrow> gve_tx_cleanup_one (w_tx s, sp, []) = (tx', sp', evs) \<Longrightarrow>
    wq_step S s (s\<lparr>w_tx := tx', w_cpc := C_LOOP n sp'\<rparr>)"
| c_free: "w_cpc s = C_LOOP 0 sp \<Longrightarrow> wq_step S s (s\<lparr>w_tx := gve_return (w_tx s) sp, w_cpc := C_CHECK sp\<rparr>)"
| c_check: "w_cpc s = C_CHECK sp \<Longrightarrow> wq_step S s (s\<lparr>w_cpc := (if stopped (w_tx s) \<and> sp \<noteq> 0 then C_CLEAR else C_IDLE)\<rparr>)"
| c_clear: "w_cpc s = C_CLEAR \<Longrightarrow> wq_step S s (s\<lparr>w_tx := (w_tx s)\<lparr>stopped := False\<rparr>, w_cpc := C_ENQ\<rparr>)"
| c_enq: "w_cpc s = C_ENQ \<Longrightarrow> wq_step S s (s\<lparr>w_task := True, w_cpc := C_IDLE\<rparr>)"

section \<open>The invariant\<close>

fun pending_space :: "clean_pc \<Rightarrow> nat" where
  "pending_space (C_LOOP n sp) = sp"
| "pending_space _ = 0"

text \<open>A completion that has not been seen by a check for a stopped queue: in flight, or in the hands of the cleanup task.\<close>

definition will_restart :: "gve_tx_ring_gqi \<Rightarrow> clean_pc \<Rightarrow> bool" where
  "will_restart tx c \<longleftrightarrow> 0 < in_flight tx \<or>
     (case c of C_LOOP n sp \<Rightarrow> sp \<noteq> 0 | C_CHECK sp \<Rightarrow> sp \<noteq> 0 | C_CLEAR \<Rightarrow> True | _ \<Rightarrow> False)"

definition head_ok :: "gve_tx_ring_gqi \<Rightarrow> nat \<Rightarrow> bool" where
  "head_ok tx n \<longleftrightarrow> n \<le> in_flight tx \<and> (n = in_flight tx \<or> info_mbuf (info tx ! slot tx n) \<noteq> None)"

definition batch_ok :: "gve_tx_ring_gqi \<Rightarrow> clean_pc \<Rightarrow> bool" where
  "batch_ok tx c \<longleftrightarrow> (case c of
     C_LOOP n sp \<Rightarrow> head_ok tx n \<and> (sp = 0 \<longrightarrow> head_ok tx 0)
   | _ \<Rightarrow> head_ok tx 0)"

definition wq_inv :: "nat \<Rightarrow> nat \<Rightarrow> wq \<Rightarrow> bool" where
  "wq_inv k S s \<longleftrightarrow> tx_inv_part k (w_tx s) (pending_space (w_cpc s)) \<and> 5 \<le> (2 :: nat) ^ k \<and> fifo_size (fifo (w_tx s)) = S \<and>
     batch_ok (w_tx s) (w_cpc s) \<and>
     (\<forall>m \<in> set (w_br s). fits S m) \<and>
     (w_xpc s \<in> {X_STOP, X_RETRY} \<longrightarrow> w_br s \<noteq> []) \<and>
     (w_xpc s = X_RETRY \<longrightarrow> stopped (w_tx s) \<or> w_cpc s = C_ENQ \<or> w_task s) \<and>
     (stopped (w_tx s) \<and> w_xpc s \<notin> {X_RETRY, X_START} \<longrightarrow> will_restart (w_tx s) (w_cpc s)) \<and>
     (w_xpc s \<in> {X_IDLE, X_EXIT} \<and> w_br s \<noteq> [] \<and> \<not> w_task s \<and> w_kicks s = [] \<longrightarrow> stopped (w_tx s) \<or> w_cpc s = C_ENQ)"


section \<open>The steps keep it\<close>

lemma alloc_fifo_size: "gve_tx_alloc_fifo f b iov i = (f', iov', n) \<Longrightarrow> fifo_size f' = fifo_size f"
  by (auto simp: gve_tx_alloc_fifo_def Let_def split_def split: if_splits)

lemma commit_frame:
  assumes "gve_xmit_commit now m v6 l4 fsl len tx = (tx', evs)"
  shows "stopped tx' = stopped tx" "fifo_size (fifo tx') = fifo_size (fifo tx)"
proof -
  obtain f1 iov1 n1 where a: "gve_tx_alloc_fifo (fifo tx) (fsl + gve_tx_fifo_pad_alloc_one_frag (fifo tx) fsl) (info_iov (info tx ! unat (tx_req tx AND tx_mask tx))) 0 = (f1, iov1, n1)"
    by (metis prod_cases3)
  obtain f2 iov2 n2 where b: "gve_tx_alloc_fifo f1 (size_t_of_int (int len - int fsl)) iov1 2 = (f2, iov2, n2)" by (metis prod_cases3)
  note F = alloc_fifo_size [OF a] alloc_fifo_size [OF b]
  show "stopped tx' = stopped tx" "fifo_size (fifo tx') = fifo_size (fifo tx)"
    using assms unfolding gve_xmit_commit_def Let_def
    by (auto simp: a b F m_copydata_def dest!: gve_xmit_segs_frame split: prod.splits if_splits)
qed

lemma xmit_frame:
  assumes p: "tx_inv_part k tx sp" "pkt_ok l4_off0 m" and r: "gve_xmit now l4_off0 m tx = Some (e, tx', evs)"
  shows "stopped tx' = stopped tx" "fifo_size (fifo tx') = fifo_size (fifo tx)"
  using xmit_can(1) [OF p, of now] unfolding r by (auto split: if_splits prod.splits dest: commit_frame [OF sym])

lemma xmit_fail:
  assumes p: "tx_inv_part k tx sp" "pkt_ok l4_off0 m" and r: "gve_xmit now l4_off0 m tx = Some (Some e, tx', evs)"
  shows "tx_inv_part k tx' sp" "in_flight tx' = in_flight tx" "head_ok tx' = head_ok tx" "stopped tx' = stopped tx"
proof -
  define st where "st = tx_stats tx'"
  have x: "tx' = tx\<lparr>tx_stats := st\<rparr>" using xmit_full [OF p r] by (simp add: st_def)
  have c: "gve_return (tx\<lparr>tx_stats := st\<rparr>) sp = (gve_return tx sp)\<lparr>tx_stats := st\<rparr>" by (simp add: gve_return_def)
  show "tx_inv_part k tx' sp" using p(1) by (simp add: x tx_inv_part_def c)
  show "in_flight tx' = in_flight tx" "stopped tx' = stopped tx" by (simp_all add: x)
  show "head_ok tx' = head_ok tx" by (simp add: x head_ok_def fun_eq_iff slot_def)
qed

text \<open>A packet that fits an empty ring is refused only while something is to be completed.\<close>

lemma no_room:
  assumes p: "tx_inv_part k tx sp" "pkt_ok l4_off0 m" and r: "gve_xmit now l4_off0 m tx = Some (Some e, tx', evs)"
    and k: "5 \<le> (2 :: nat) ^ k" and fit: "2 * m_pkthdr_len m + CACHE_LINE_SIZE \<le> fifo_size (fifo tx)"
  shows "0 < in_flight tx \<or> sp \<noteq> 0"
proof (rule ccontr)
  assume "\<not> (0 < in_flight tx \<or> sp \<noteq> 0)"
  then have z: "in_flight tx = 0" "sp = 0" by auto
  have I: "tx_inv k tx" using p(1) z by (simp add: tx_inv_part_0)
  have "window_iov tx = []" using z by (simp add: window_iov_def)
  then have "nat (available (fifo tx)) = fifo_size (fifo tx)" using tx_invD(10) [OF I] by (simp add: iov_space_def)
  moreover have "0 \<le> available (fifo tx)" using p(1) by (simp add: tx_inv_part_def)
  ultimately have av: "available (fifo tx) = int (fifo_size (fifo tx))" by linarith
  let ?f = "first_seg l4_off0 m"
  have fs: "?f \<le> m_pkthdr_len m" using xmit_can(3) [OF p] .
  have pad: "gve_tx_fifo_pad_alloc_one_frag (fifo tx) ?f \<le> ?f" by (auto simp: gve_tx_fifo_pad_alloc_one_frag_def)
  have "roundup2 ?f CACHE_LINE_SIZE - ?f \<le> CACHE_LINE_SIZE" by (simp add: roundup2_def CACHE_LINE_SIZE_def)
  then have "bytes_needed l4_off0 tx m \<le> available (fifo tx)" using fit fs pad unfolding av bytes_needed_def gve_fifo_bytes_required_def Let_def by simp
  then show False using xmit_can(1) [OF p, of now] r z k by (auto split: prod.splits)
qed

lemma iov_space_pos: "v \<in> set iov \<Longrightarrow> 0 < iov_len v \<Longrightarrow> 0 < iov_space iov"
  by (induction iov) auto

lemma pkt_space:
  assumes p: "tx_inv_part k tx sp" "0 < in_flight tx" and h: "head_ok tx 0"
  shows "0 < iov_space (info_iov (info tx ! slot tx 0))"
proof -
  have "gq_pkt_ok (gve_return tx sp) 0" using p tx_invD(8) [of k "gve_return tx sp" 0] by (simp add: tx_inv_part_def)
  then have "gq_pkt_ok tx 0" by simp
  moreover obtain m where "info_mbuf (info tx ! slot tx 0) = Some m" using p(2) h by (auto simp: head_ok_def)
  ultimately have "seg_within (gq_seg tx 0) (info_iov (info tx ! slot tx 0))" by (simp add: gq_pkt_ok_def Let_def gq_segs_def)
  then obtain v where "v \<in> set (info_iov (info tx ! slot tx 0))" "0 < iov_len v" by (force simp: seg_within_def)
  then show ?thesis by (rule iov_space_pos)
qed

lemma head_ok_sent:
  assumes "sent k tx m tx'" and "head_ok tx n"
  shows "head_ok tx' n"
proof (cases "n = in_flight tx")
  case True
  then show ?thesis using assms by (simp add: sent_def head_ok_def)
next
  case False
  then have "n < in_flight tx" "info_mbuf (info tx ! slot tx n) \<noteq> None" using assms(2) by (auto simp: head_ok_def)
  then show ?thesis using assms(1) by (auto simp: sent_def head_ok_def)
qed

lemma head_ok_one:
  assumes p: "tx_inv_part k tx sp" and r: "gve_tx_cleanup_one (tx, sp, evs) = (tx', sp', evs')" and h: "head_ok tx (Suc j)"
  shows "head_ok tx' j"
proof -
  have n: "0 < in_flight tx" using h by (auto simp: head_ok_def)
  note F = cleanup_one_frame [OF p n r]
  show ?thesis
  proof (cases "Suc j = in_flight tx")
    case True
    then show ?thesis using F(2) by (simp add: head_ok_def)
  next
    case False
    then have "Suc j < in_flight tx" using h by (auto simp: head_ok_def)
    then show ?thesis using h F(1,2,3) by (auto simp: head_ok_def)
  qed
qed

lemma head_ok_frame [simp]:
  "head_ok (tx\<lparr>stopped := b\<rparr>) = head_ok tx" "head_ok (gve_return tx sp) = head_ok tx"
  by (simp_all add: head_ok_def fun_eq_iff slot_def)

lemma tx_inv_part_stopped [simp]: "tx_inv_part k (tx\<lparr>stopped := b\<rparr>) sp = tx_inv_part k tx sp"
proof -
  have "gve_return (tx\<lparr>stopped := b\<rparr>) sp = (gve_return tx sp)\<lparr>stopped := b\<rparr>" by (simp add: gve_return_def)
  then show ?thesis by (simp add: tx_inv_part_def)
qed

lemma will_restart_sent:
  assumes "sent k tx m tx'"
  shows "will_restart tx' c"
  using assms by (auto simp: sent_def will_restart_def)

lemma batch_ok_sent:
  assumes "sent k tx m tx'" and "batch_ok tx c"
  shows "batch_ok tx' c"
  using assms head_ok_sent [OF assms(1)] by (auto simp: batch_ok_def split: clean_pc.splits)

lemma batch_ok_eq: "head_ok tx' = head_ok tx \<Longrightarrow> batch_ok tx' c = batch_ok tx c"
  by (auto simp: batch_ok_def split: clean_pc.splits)

lemma batch_ok_stopped [simp]: "batch_ok (tx\<lparr>stopped := b\<rparr>) = batch_ok tx"
  by (rule ext, rule batch_ok_eq) simp

lemma will_restart_stopped [simp]: "will_restart (tx\<lparr>stopped := b\<rparr>) = will_restart tx"
  by (simp add: will_restart_def fun_eq_iff)

lemma will_restart_eq: "in_flight tx' = in_flight tx \<Longrightarrow> will_restart tx' c = will_restart tx c"
  by (simp add: will_restart_def)

lemma will_restart_pending: "0 < in_flight tx \<or> pending_space c \<noteq> 0 \<Longrightarrow> will_restart tx c"
  by (cases c) (auto simp: will_restart_def)

lemma wq_inv_sent:
  assumes I: "wq_inv k S s" and b: "w_br s = m # ms" and x: "gve_xmit now l4_off0 m (w_tx s) = Some (None, tx', evs)"
    and pc: "(w_xpc s, pc) = (X_TRY, X_TRY) \<or> (w_xpc s, pc) = (X_RETRY, X_START)"
  shows "wq_inv k S (s\<lparr>w_tx := tx', w_br := ms, w_xpc := pc\<rparr>)"
proof -
  have p: "tx_inv_part k (w_tx s) (pending_space (w_cpc s))" "pkt_ok l4_off0 m" using I b by (simp_all add: wq_inv_def fits_def)
  note X = xmit_part_inv [OF p x] and F = xmit_frame [OF p x]
  show ?thesis using I b pc X F batch_ok_sent [of k "w_tx s" m tx' "w_cpc s"] will_restart_sent [of k "w_tx s" m tx' "w_cpc s"]
    unfolding wq_inv_def by auto
qed

lemma wq_inv_full:
  assumes I: "wq_inv k S s" and b: "w_br s = m # ms" and x: "gve_xmit now l4_off0 m (w_tx s) = Some (Some e, tx', evs)"
    and pc: "(w_xpc s, pc) = (X_TRY, X_STOP) \<or> (w_xpc s, pc) = (X_RETRY, X_EXIT)"
  shows "wq_inv k S (s\<lparr>w_tx := tx', w_xpc := pc\<rparr>)"
proof -
  have p: "tx_inv_part k (w_tx s) (pending_space (w_cpc s))" "pkt_ok l4_off0 m" using I b by (simp_all add: wq_inv_def fits_def)
  note X = xmit_fail [OF p x] and F = xmit_frame [OF p x]
  have "0 < in_flight (w_tx s) \<or> pending_space (w_cpc s) \<noteq> 0" using no_room [OF p x] I b by (simp add: wq_inv_def fits_def)
  then have "will_restart tx' (w_cpc s)" using X(2) by (intro will_restart_pending) simp
  then show ?thesis using I b pc X F batch_ok_eq [OF X(3)] will_restart_eq [OF X(2)]
    unfolding wq_inv_def by auto
qed

lemma wq_inv_one:
  assumes I: "wq_inv k S s" and c: "w_cpc s = C_LOOP (Suc n) sp" and x: "gve_tx_cleanup_one (w_tx s, sp, []) = (tx', sp', evs)"
  shows "wq_inv k S (s\<lparr>w_tx := tx', w_cpc := C_LOOP n sp'\<rparr>)"
proof -
  have p: "tx_inv_part k (w_tx s) sp" and h: "head_ok (w_tx s) (Suc n)" "sp = 0 \<Longrightarrow> head_ok (w_tx s) 0"
    using I c by (simp_all add: wq_inv_def batch_ok_def)
  have n: "0 < in_flight (w_tx s)" using h by (auto simp: head_ok_def)
  note E = cleanup_one_effect [OF x] and R = cleanup_one_frame [OF p n x] and P = cleanup_one_inv [OF p n x]
  have "sp' \<noteq> 0" using R(5) pkt_space [OF p n] h(2) by (cases "sp = 0") simp_all
  then show ?thesis using I c E P head_ok_one [OF p x h(1)]
    unfolding wq_inv_def by (auto simp: batch_ok_def will_restart_def)
qed

lemma wq_inv_free:
  assumes I: "wq_inv k S s" and c: "w_cpc s = C_LOOP 0 sp"
  shows "wq_inv k S (s\<lparr>w_tx := gve_return (w_tx s) sp, w_cpc := C_CHECK sp\<rparr>)"
proof -
  have "tx_inv k (gve_return (w_tx s) sp)" using I c by (simp add: wq_inv_def tx_inv_part_def)
  then have "tx_inv_part k (gve_return (w_tx s) sp) 0" by (simp add: tx_inv_part_0)
  moreover have "stopped (gve_return (w_tx s) sp) = stopped (w_tx s)" by (simp add: gve_return_def)
  ultimately show ?thesis using I c unfolding wq_inv_def by (auto simp: batch_ok_def will_restart_def)
qed

lemma wq_step_inv:
  assumes "wq_step S s s'" and I: "wq_inv k S s"
  shows "wq_inv k S s'"
  using assms(1)
proof cases
  case (x_sent m ms now l4_off0 tx' evs)
  have "s\<lparr>w_tx := tx', w_br := ms, w_xpc := X_TRY\<rparr> = s'" using x_sent(1,2) by (cases s) simp
  moreover have "wq_inv k S (s\<lparr>w_tx := tx', w_br := ms, w_xpc := X_TRY\<rparr>)" using wq_inv_sent [OF I x_sent(3,4), of X_TRY] x_sent(2) by simp
  ultimately show ?thesis by (simp only:)
next
  case (x_full m ms now l4_off0 tx' evs)
  then show ?thesis using wq_inv_full [OF I, of m ms now l4_off0 ENOBUFS tx' evs X_STOP] by simp
next
  case (x_resent m ms now l4_off0 tx' evs)
  then show ?thesis using wq_inv_sent [OF I, of m ms now l4_off0 tx' evs X_START] by simp
next
  case (x_putback m ms now l4_off0 tx' evs)
  then show ?thesis using wq_inv_full [OF I, of m ms now l4_off0 ENOBUFS tx' evs X_EXIT] by simp
next
  case (c_one n sp tx' sp' evs)
  then show ?thesis using wq_inv_one [OF I, of n sp tx' sp' evs] by simp
next
  case (c_free sp)
  then show ?thesis using wq_inv_free [OF I, of sp] by simp
next
  case (c_begin n)
  then show ?thesis using I by (auto simp: wq_inv_def batch_ok_def will_restart_def head_ok_def)
next
  case c_clear
  then show ?thesis using I by (auto simp: wq_inv_def batch_ok_def)
next
  case (c_check sp)
  then show ?thesis using I by (auto simp: wq_inv_def batch_ok_def will_restart_def)
next
  case c_enq
  then show ?thesis using I by (auto simp: wq_inv_def batch_ok_def will_restart_def)
qed (use I in \<open>auto simp: wq_inv_def\<close>)

section \<open>Properties\<close>

definition wq_start :: "gve_tx_ring_gqi \<Rightarrow> wq" where
  "wq_start tx = \<lparr>w_tx = tx\<lparr>stopped := False\<rparr>, w_br = [], w_task = False, w_kicks = [], w_xpc = X_IDLE, w_cpc = C_IDLE\<rparr>"

lemma wq_start_inv:
  assumes "ring_alloced k tx" and "5 \<le> (2 :: nat) ^ k"
  shows "wq_inv k (fifo_size (fifo tx)) (wq_start (gve_clear_tx_ring (2 ^ k) tx))"
  using clear_tx_ring_inv [OF assms(1)] assms(2)
  by (simp add: wq_inv_def wq_start_def tx_inv_part_0 batch_ok_def head_ok_def gve_clear_tx_ring_def gve_tx_clear_desc_ring_def)

lemma wq_steps_inv: "(wq_step S)\<^sup>*\<^sup>* s s' \<Longrightarrow> wq_inv k S s \<Longrightarrow> wq_inv k S s'"
  by (induction rule: rtranclp_induct) (auto intro: wq_step_inv)


lemma ex_fits: "fits 256 ex_mbuf"
  by (simp add: fits_def CACHE_LINE_SIZE_def pkt_ok_def ex_mbuf_def m_pkthdr_len_def gve_xmit_parse_def gve_xmit_l4_def ether_type_def
      rd8_def ETHERTYPE_IPV6_def ETHERTYPE_IP_def)


end
