(* ===== verification/Gve_Kern.thy ===== *)
theory Gve_Kern
  imports Gve_Priv "HOL-Library.Multiset" "HOL-Library.Monad_Syntax"
begin

text \<open>
  The kernel services that hand out resources, and the allocation routines of \<open>gve_utils.c\<close>. The
  state records which resources are live, as a multiset; releasing one that is not live, or using a
  NULL handle, is \<open>None\<close>. Which calls fail is decided by an oracle, so that a statement about all
  kernel states is a statement about all patterns of failures.
\<close>

section \<open>Resources\<close>

text \<open>
  \<open>DMA_MEM\<close> is the memory and map of \<open>bus_dmamem_alloc\<close>, \<open>DMA_MAP\<close> the map of \<open>bus_dmamap_create\<close>,
  \<open>KVA n\<close> a range of \<open>n\<close> bytes of kernel addresses. Each wire reference to a page is one occurrence of \<open>VM_PAGE\<close>.
\<close>

datatype rkind =
    DMA_TAG | DMA_MEM | DMA_MAP | MALLOC | KVA nat | VM_PAGE | MTX | BUF_RING | COUNTER | MBUF
  | MSIX | IRQ_RES | INTR | SYS_RES | IFACE_LOCK | IFNET | TASKQUEUE

type_synonym res = "rkind \<times> nat"

text \<open>
  \<open>k_err c n\<close> is the outcome of call number \<open>n\<close> if it asks for a resource of kind \<open>c\<close>; \<open>k_load n\<close> the outcome of
  a \<open>bus_dmamap_load\<close> and \<open>k_addr n\<close> the address its callback stores, -1 when the callback is told of an error;
  \<open>k_nvecs\<close> the number of MSI-X vectors of the device.
\<close>

record kern =
  k_live :: "res multiset"
  k_next :: nat
  k_calls :: nat
  k_err :: "rkind \<Rightarrow> nat \<Rightarrow> err"
  k_load :: "nat \<Rightarrow> err"
  k_addr :: "nat \<Rightarrow> u64"
  k_nvecs :: nat

definition kalloc :: "rkind \<Rightarrow> kern \<Rightarrow> nat \<times> kern" where
  "kalloc c k = (k_next k, k\<lparr>k_live := add_mset (c, k_next k) (k_live k), k_next := k_next k + 1\<rparr>)"

definition ktry :: "rkind \<Rightarrow> kern \<Rightarrow> err \<times> nat \<times> kern" where
  "ktry c k =
     (case k_err k c (k_calls k) of
        Some e \<Rightarrow> (Some e, 0, k\<lparr>k_calls := k_calls k + 1\<rparr>)
      | None \<Rightarrow> (case kalloc c k of (i, k') \<Rightarrow> (None, i, k'\<lparr>k_calls := k_calls k + 1\<rparr>)))"

definition kfree :: "rkind \<Rightarrow> nat \<Rightarrow> kern \<Rightarrow> kern option" where
  "kfree c i k = (if (c, i) \<in># k_live k then Some (k\<lparr>k_live := k_live k - {#(c, i)#}\<rparr>) else None)"

definition kfree_opt :: "rkind \<Rightarrow> nat option \<Rightarrow> kern \<Rightarrow> kern option" where
  "kfree_opt c p k = (case p of None \<Rightarrow> Some k | Some i \<Rightarrow> kfree c i k)"

definition bus_dmamap_load :: "kern \<Rightarrow> err \<times> u64 \<times> kern" where
  "bus_dmamap_load k =
     (k_load k (k_calls k), if k_load k (k_calls k) = None then k_addr k (k_calls k) else - 1, k\<lparr>k_calls := k_calls k + 1\<rparr>)"

text \<open>The result of \<open>vm_page_unwire_noq\<close>: whether this was the last reference.\<close>

definition vm_page_unwire_noq :: "nat \<Rightarrow> kern \<Rightarrow> (bool \<times> kern) option" where
  "vm_page_unwire_noq p k = map_option (\<lambda>k'. ((VM_PAGE, p) \<notin># k_live k', k')) (kfree VM_PAGE p k)"

section \<open>Counters and DMA memory\<close>

text \<open>A \<open>struct gve_dma_handle\<close>: tag, map, \<open>cpu_addr\<close> and bus address.\<close>

record dma_handle =
  h_tag :: "nat option"
  h_map :: nat
  h_cpu :: nat
  h_bus :: u64

fun gve_alloc_counters :: "nat \<Rightarrow> kern \<Rightarrow> nat option list \<times> kern" where
  "gve_alloc_counters 0 k = ([], k)"
| "gve_alloc_counters (Suc n) k =
     (let (i, k1) = kalloc COUNTER k; (ps, k2) = gve_alloc_counters n k1 in (Some i # ps, k2))"

text \<open>\<open>counter_u64_free(NULL)\<close> does nothing. The array keeps its pointers.\<close>

fun gve_free_counters :: "nat option list \<Rightarrow> kern \<Rightarrow> kern option" where
  "gve_free_counters [] k = Some k"
| "gve_free_counters (p # ps) k = do { k \<leftarrow> kfree_opt COUNTER p k; gve_free_counters ps k }"

text \<open>
  \<open>gve_dma_alloc_coherent\<close> and \<open>gve_dmamap_create\<close> take the same steps with the same unwinding; they differ in
  where the map comes from and in whether \<open>cpu_addr\<close> is set.
\<close>

definition dma_setup :: "rkind \<Rightarrow> (nat \<Rightarrow> dma_handle \<Rightarrow> dma_handle) \<Rightarrow> dma_handle \<Rightarrow> kern \<Rightarrow> (err \<times> dma_handle \<times> kern) option" where
  "dma_setup c set_cpu dma k =
     (let (err, t, k) = ktry DMA_TAG k
      in if err \<noteq> None then Some (err, dma\<lparr>h_tag := None\<rparr>, k)
         else let (err, m, k) = ktry c k
              in if err \<noteq> None then do { k \<leftarrow> kfree DMA_TAG t k; Some (err, dma\<lparr>h_tag := None\<rparr>, k) }
                 else let (err, a, k) = bus_dmamap_load k;
                          dma = (set_cpu m dma)\<lparr>h_tag := Some t, h_map := m, h_bus := a\<rparr>
                      in if err \<noteq> None \<or> a = - 1
                         then do { k \<leftarrow> kfree c m k; k \<leftarrow> kfree DMA_TAG t k; Some (err, dma\<lparr>h_tag := None\<rparr>, k) }
                         else Some (None, dma, k))"

definition gve_dma_alloc_coherent :: "dma_handle \<Rightarrow> kern \<Rightarrow> (err \<times> dma_handle \<times> kern) option" where
  "gve_dma_alloc_coherent = dma_setup DMA_MEM (\<lambda>m dma. dma\<lparr>h_cpu := m\<rparr>)"

definition gve_dmamap_create :: "dma_handle \<Rightarrow> kern \<Rightarrow> (err \<times> dma_handle \<times> kern) option" where
  "gve_dmamap_create = dma_setup DMA_MAP (\<lambda>m dma. dma)"

definition gve_dma_free_coherent :: "dma_handle \<Rightarrow> kern \<Rightarrow> kern option" where
  "gve_dma_free_coherent dma k =
     (case h_tag dma of None \<Rightarrow> None
      | Some t \<Rightarrow> do { k \<leftarrow> kfree DMA_MEM (h_map dma) k; kfree DMA_TAG t k })"

definition gve_dmamap_destroy :: "dma_handle \<Rightarrow> kern \<Rightarrow> kern option" where
  "gve_dmamap_destroy dma k =
     (case h_tag dma of None \<Rightarrow> None
      | Some t \<Rightarrow> do { k \<leftarrow> kfree DMA_MAP (h_map dma) k; kfree DMA_TAG t k })"

section \<open>Reasoning about acquisition\<close>

text \<open>
  \<open>acq k M k'\<close>: between \<open>k\<close> and \<open>k'\<close> exactly the resources \<open>M\<close> have been acquired and kept, under
  identifiers that are new.
\<close>

definition acq :: "kern \<Rightarrow> res multiset \<Rightarrow> kern \<Rightarrow> bool" where
  "acq k M k' \<longleftrightarrow> k_live k' = k_live k + M \<and> k_next k \<le> k_next k' \<and> (\<forall>r \<in># M. k_next k \<le> snd r \<and> snd r < k_next k') \<and>
     k_err k' = k_err k \<and> k_addr k' = k_addr k \<and> k_load k' = k_load k \<and> k_nvecs k' = k_nvecs k"

text \<open>Every identifier that is live has been handed out.\<close>

definition kern_ok :: "kern \<Rightarrow> bool" where
  "kern_ok k \<longleftrightarrow> (\<forall>r \<in># k_live k. snd r < k_next k)"

text \<open>A load that returns 0 has stored an address.\<close>

definition loads_ok :: "kern \<Rightarrow> bool" where
  "loads_ok k \<longleftrightarrow> (\<forall>n. k_addr k n \<noteq> - 1)"

definition wp :: "'a option \<Rightarrow> ('a \<Rightarrow> bool) \<Rightarrow> bool" where
  "wp m P \<longleftrightarrow> (\<exists>x. m = Some x \<and> P x)"

lemma wp_Some [simp]: "wp (Some x) P = P x"
  by (simp add: wp_def)

lemma wp_bind [simp]: "wp (m \<bind> f) P = wp m (\<lambda>x. wp (f x) P)"
  by (cases m) (simp_all add: wp_def)

lemma wp_map_option [simp]: "wp (map_option f m) P = wp m (\<lambda>x. P (f x))"
  by (cases m) (simp_all add: wp_def)

lemma wp_mono: "wp m P \<Longrightarrow> (\<And>x. P x \<Longrightarrow> Q x) \<Longrightarrow> wp m Q"
  by (auto simp: wp_def)

lemma acq_refl [simp]: "acq k {#} k"
  by (simp add: acq_def)

lemma acq_eq: "acq k M k' \<Longrightarrow> M = N \<Longrightarrow> acq k N k'"
  by simp

lemma acq_less: "acq k M k' \<Longrightarrow> (c, i) \<in># M \<Longrightarrow> i < k_next k'"
  unfolding acq_def by (metis snd_conv)

lemma acq_ok: "acq k M k' \<Longrightarrow> kern_ok k \<Longrightarrow> kern_ok k'"
  by (fastforce simp: acq_def kern_ok_def)

lemma acq_kalloc:
  assumes "acq k M k1" and "kalloc c k1 = (i, k2)"
  shows "acq k (add_mset (c, i) M) k2" "i = k_next k1"
  using assms by (auto simp: acq_def kalloc_def)

lemma acq_calls: "acq k M (k1\<lparr>k_calls := n\<rparr>) = acq k M k1"
  by (simp add: acq_def)

lemma acq_ktry:
  assumes "acq k M k1" and "ktry c k1 = (e, i, k2)"
  shows "e = None \<Longrightarrow> acq k (add_mset (c, i) M) k2 \<and> i = k_next k1" "e \<noteq> None \<Longrightarrow> acq k M k2 \<and> k_next k2 = k_next k1"
    "k_err k c (k_calls k1) = e"
proof -
  have e: "k_err k1 = k_err k" using assms(1) by (simp add: acq_def)
  show "k_err k c (k_calls k1) = e" using assms(2) e by (auto simp: ktry_def split: option.splits prod.splits)
  obtain j k3 where j: "kalloc c k1 = (j, k3)" by (metis surj_pair)
  show "e = None \<Longrightarrow> acq k (add_mset (c, i) M) k2 \<and> i = k_next k1"
    using assms(2) acq_kalloc [OF assms(1) j] j by (auto simp: ktry_def acq_calls split: option.splits)
  show "e \<noteq> None \<Longrightarrow> acq k M k2 \<and> k_next k2 = k_next k1"
    using assms j by (auto simp: ktry_def acq_calls split: option.splits)
qed

lemma wp_kfree:
  assumes "acq k M k1" and "(c, i) \<in># M" and "\<And>k2. acq k (M - {#(c, i)#}) k2 \<Longrightarrow> P k2"
  shows "wp (kfree c i k1) P"
proof -
  have "acq k (M - {#(c, i)#}) (k1\<lparr>k_live := k_live k1 - {#(c, i)#}\<rparr>)"
    using assms(1,2) by (auto simp: acq_def dest: in_diffD)
  then show ?thesis using assms by (simp add: kfree_def wp_def acq_def)
qed

lemma wp_kfree_opt:
  assumes "acq k M k1" and "set_option (map_option (Pair c) p) \<subseteq> set_mset M"
    and "\<And>k2. acq k (M - (case p of None \<Rightarrow> {#} | Some i \<Rightarrow> {#(c, i)#})) k2 \<Longrightarrow> P k2"
  shows "wp (kfree_opt c p k1) P"
  using assms wp_kfree [OF assms(1)] by (cases p) (simp_all add: kfree_opt_def)

subsection \<open>Counters\<close>

definition own_list :: "rkind \<Rightarrow> nat option list \<Rightarrow> res multiset" where
  "own_list c ps = mset (map (Pair c) (List.map_filter id ps))"

lemma own_list_simps [simp]:
  "own_list c [] = {#}" "own_list c (None # ps) = own_list c ps" "own_list c (Some i # ps) = add_mset (c, i) (own_list c ps)"
  "own_list c (ps @ qs) = own_list c ps + own_list c qs" "own_list c (replicate n None) = {#}"
  by (simp_all add: own_list_def map_filter_def)

lemma acq_counters:
  assumes "acq k M k1" and "gve_alloc_counters n k1 = (ps, k2)"
  shows "acq k (own_list COUNTER ps + M) k2" "length ps = n"
proof -
  have "acq k (own_list COUNTER ps + M) k2 \<and> length ps = n"
    using assms
  proof (induction n arbitrary: M k1 ps k2)
    case (Suc n)
    obtain i k3 where a: "kalloc COUNTER k1 = (i, k3)" by (metis surj_pair)
    obtain qs k4 where b: "gve_alloc_counters n k3 = (qs, k4)" by (metis surj_pair)
    show ?case using Suc.IH [OF acq_kalloc(1) [OF Suc.prems(1) a] b] Suc.prems(2) a b by auto
  qed simp
  then show "acq k (own_list COUNTER ps + M) k2" "length ps = n" by simp_all
qed

lemma wp_free_counters:
  assumes "acq k (own_list COUNTER ps + M) k1" and "\<And>k2. acq k M k2 \<Longrightarrow> P k2"
  shows "wp (gve_free_counters ps k1) P"
  using assms
proof (induction ps arbitrary: k1)
  case (Cons p ps)
  then show ?case by (cases p) (auto simp: kfree_opt_def intro!: wp_kfree [OF Cons.prems(1)])
qed simp

subsection \<open>DMA handles\<close>

definition own_dma :: "rkind \<Rightarrow> dma_handle \<Rightarrow> res multiset" where
  "own_dma c h = (case h_tag h of None \<Rightarrow> {#} | Some t \<Rightarrow> {#(c, h_map h), (DMA_TAG, t)#})"

lemma loads_acq: "acq k M k1 \<Longrightarrow> loads_ok k \<Longrightarrow> k_addr k1 n \<noteq> - 1"
  by (simp add: acq_def loads_ok_def)

lemma acq_load:
  assumes "acq k M k1" and "bus_dmamap_load k1 = (e, a, k2)"
  shows "acq k M k2" "loads_ok k \<Longrightarrow> e = None \<Longrightarrow> a \<noteq> - 1"
  using assms loads_acq [OF assms(1)] by (auto simp: bus_dmamap_load_def acq_calls)

lemma wp_dma_setup:
  assumes a: "acq k M k1" and l: "loads_ok k"
    and ok: "\<And>h k2 m. h_tag h \<noteq> None \<Longrightarrow> h_cpu h = h_cpu (set_cpu m h0) \<Longrightarrow> acq k (own_dma c h + M) k2 \<Longrightarrow> P (None, h, k2)"
    and fail: "\<And>e h k2 m. h_tag h = None \<Longrightarrow> h_cpu h = h_cpu (set_cpu m h0) \<or> h_cpu h = h_cpu h0 \<Longrightarrow> acq k M k2 \<Longrightarrow> P (Some e, h, k2)"
  shows "wp (dma_setup c set_cpu h0 k1) P"
proof -
  obtain e1 t k2 where 1: "ktry DMA_TAG k1 = (e1, t, k2)" by (metis prod_cases3)
  obtain e2 m k3 where 2: "ktry c k2 = (e2, m, k3)" by (metis prod_cases3)
  obtain e3 b k4 where 3: "bus_dmamap_load k3 = (e3, b, k4)" by (metis prod_cases3)
  show ?thesis
  proof (cases e1)
    case None
    note A = acq_ktry(1) [OF a 1 None, THEN conjunct1]
    show ?thesis
    proof (cases e2)
      case n2: None
      note B = acq_ktry(1) [OF A 2 n2, THEN conjunct1]
      note C = acq_load [OF B 3]
      show ?thesis
      proof (cases e3)
        case n3: None
        then show ?thesis using 1 2 3 None n2 C l ok [of "(set_cpu m h0)\<lparr>h_tag := Some t, h_map := m, h_bus := b\<rparr>" m k4]
          by (simp add: dma_setup_def own_dma_def)
      next
        case (Some x)
        then show ?thesis using 1 2 3 None n2
          by (simp add: dma_setup_def) (rule wp_kfree [OF C(1)], simp, rule wp_kfree, assumption, auto intro: fail)
      qed
    next
      case (Some x)
      then show ?thesis using 1 2 None acq_ktry(2) [OF A 2]
        by (simp add: dma_setup_def) (rule wp_kfree [of k "add_mset (DMA_TAG, t) M"], auto intro: fail)
    qed
  next
    case (Some x)
    then show ?thesis using 1 acq_ktry(2) [OF a 1] fail by (simp add: dma_setup_def)
  qed
qed

lemma wp_dma_alloc:
  assumes "acq k M k1" and "loads_ok k"
    and "\<And>h k2. h_tag h \<noteq> None \<Longrightarrow> acq k (own_dma DMA_MEM h + M) k2 \<Longrightarrow> P (None, h, k2)"
    and "\<And>e h k2. h_tag h = None \<Longrightarrow> acq k M k2 \<Longrightarrow> P (Some e, h, k2)"
  shows "wp (gve_dma_alloc_coherent h0 k1) P"
  unfolding gve_dma_alloc_coherent_def by (rule wp_dma_setup [OF assms(1,2)]) (auto intro: assms(3,4))

lemma wp_dmamap_create:
  assumes "acq k M k1" and "loads_ok k"
    and "\<And>h k2. h_tag h \<noteq> None \<Longrightarrow> h_cpu h = h_cpu h0 \<Longrightarrow> acq k (own_dma DMA_MAP h + M) k2 \<Longrightarrow> P (None, h, k2)"
    and "\<And>e h k2. h_tag h = None \<Longrightarrow> h_cpu h = h_cpu h0 \<Longrightarrow> acq k M k2 \<Longrightarrow> P (Some e, h, k2)"
  shows "wp (gve_dmamap_create h0 k1) P"
  unfolding gve_dmamap_create_def by (rule wp_dma_setup [OF assms(1,2)]) (auto intro: assms(3,4))

lemma wp_dma_free:
  assumes "acq k (own_dma DMA_MEM h + M) k1" and "h_tag h \<noteq> None" and "\<And>k2. acq k M k2 \<Longrightarrow> P k2"
  shows "wp (gve_dma_free_coherent h k1) P"
  using assms by (auto simp: gve_dma_free_coherent_def own_dma_def intro!: wp_kfree [OF assms(1)] wp_kfree)

lemma wp_dmamap_destroy:
  assumes "acq k (own_dma DMA_MAP h + M) k1" and "h_tag h \<noteq> None" and "\<And>k2. acq k M k2 \<Longrightarrow> P k2"
  shows "wp (gve_dmamap_destroy h k1) P"
  using assms by (auto simp: gve_dmamap_destroy_def own_dma_def intro!: wp_kfree [OF assms(1)] wp_kfree)

end
