(* ===== verification/Gve_Alloc.thy ===== *)
theory Gve_Alloc
  imports Gve_Kern Gve_Tx Gve_Tx_Dqo Gve_Rx_Dqo
begin

text \<open>
  The allocation of queue page lists (\<open>gve_qpl.c\<close>), of the rings (\<open>gve_tx.c\<close>, \<open>gve_tx_dqo.c\<close>, \<open>gve_rx.c\<close>,
  \<open>gve_rx_dqo.c\<close>) and of the interrupts (\<open>gve_utils.c\<close>), with their release and the unwinding of failures.
\<close>

section \<open>Queue page lists\<close>

text \<open>
  \<open>qpl_self\<close>, \<open>qpl_dmas_mem\<close> and \<open>qpl_pages_mem\<close> are the structure and its two arrays; \<open>h_cpu\<close> of a page's handle
  is its range of kernel addresses, or the range of the whole list.
\<close>

record gve_queue_page_list =
  qpl_self :: nat
  qpl_id :: u32
  qpl_num_dmas :: nat
  qpl_num_pages :: nat
  qpl_kva :: "nat option"
  ql_pages :: "nat list"
  ql_dmas :: "dma_handle list"
  qpl_pages_mem :: nat
  qpl_dmas_mem :: nat

definition null_dma :: dma_handle where
  "null_dma = \<lparr>h_tag = None, h_map = 0, h_cpu = 0, h_bus = 0\<rparr>"

fun free_qpl_dmas :: "dma_handle list \<Rightarrow> kern \<Rightarrow> kern option" where
  "free_qpl_dmas [] k = Some k"
| "free_qpl_dmas (h # hs) k = do { k \<leftarrow> gve_dmamap_destroy h k; free_qpl_dmas hs k }"

text \<open>The loop over the pages; \<open>single\<close> is whether the list has one range of addresses, which is gone by now.\<close>

fun free_qpl_pages :: "bool \<Rightarrow> (nat \<times> dma_handle) list \<Rightarrow> u64 \<times> kern \<Rightarrow> (u64 \<times> kern) option" where
  "free_qpl_pages single [] (n, k) = Some (n, k)"
| "free_qpl_pages single ((p, h) # ps) (n, k) = do {
     (last, k) \<leftarrow> vm_page_unwire_noq p k;
     k \<leftarrow> (if last \<and> \<not> single then kfree (KVA PAGE_SIZE) (h_cpu h) k else Some k);
     free_qpl_pages single ps (n - 1, k) }"

definition gve_free_qpl :: "gve_priv \<Rightarrow> gve_queue_page_list \<Rightarrow> kern \<Rightarrow> (gve_priv \<times> kern) option" where
  "gve_free_qpl priv q k = do {
     k \<leftarrow> free_qpl_dmas (take (qpl_num_dmas q) (ql_dmas q)) k;
     k \<leftarrow> kfree_opt (KVA (PAGE_SIZE * qpl_num_pages q)) (qpl_kva q) k;
     (n, k) \<leftarrow> free_qpl_pages (qpl_kva q \<noteq> None) (take (qpl_num_pages q) (zip (ql_pages q) (ql_dmas q))) (num_registered_pages priv, k);
     k \<leftarrow> kfree MALLOC (qpl_pages_mem q) k;
     k \<leftarrow> kfree MALLOC (qpl_dmas_mem q) k;
     k \<leftarrow> kfree MALLOC (qpl_self q) k;
     Some (priv\<lparr>num_registered_pages := n\<rparr>, k) }"

text \<open>The two loops of \<open>gve_alloc_qpl\<close>, for the pages and the maps from number \<open>i\<close> on.\<close>

fun qpl_pages_loop :: "nat \<Rightarrow> gve_queue_page_list \<Rightarrow> kern \<Rightarrow> err \<times> gve_queue_page_list \<times> kern" where
  "qpl_pages_loop 0 q k = (None, q, k)"
| "qpl_pages_loop (Suc n) q k =
     (let i = qpl_num_pages q;
          (p, k) = kalloc VM_PAGE k;
          q = q\<lparr>ql_pages := (ql_pages q)[i := p]\<rparr>
      in case qpl_kva q of
           None \<Rightarrow>
             (let (e, v, k) = ktry (KVA PAGE_SIZE) k
              in if e \<noteq> None then (Some ENOMEM, q, k)
                 else qpl_pages_loop n (q\<lparr>ql_dmas := (ql_dmas q)[i := (ql_dmas q ! i)\<lparr>h_cpu := v\<rparr>], qpl_num_pages := i + 1\<rparr>) k)
         | Some v \<Rightarrow>
             qpl_pages_loop n (q\<lparr>ql_dmas := (ql_dmas q)[i := (ql_dmas q ! i)\<lparr>h_cpu := v\<rparr>], qpl_num_pages := i + 1\<rparr>) k)"

fun qpl_dmas_loop :: "nat \<Rightarrow> gve_queue_page_list \<Rightarrow> u64 \<Rightarrow> kern \<Rightarrow> (err \<times> gve_queue_page_list \<times> u64 \<times> kern) option" where
  "qpl_dmas_loop 0 q n k = Some (None, q, n, k)"
| "qpl_dmas_loop (Suc j) q n k = do {
     (e, h, k) \<leftarrow> gve_dmamap_create (ql_dmas q ! qpl_num_dmas q) k;
     let q = q\<lparr>ql_dmas := (ql_dmas q)[qpl_num_dmas q := h]\<rparr>;
     if e \<noteq> None then Some (e, q, n, k)
     else qpl_dmas_loop j (q\<lparr>qpl_num_dmas := qpl_num_dmas q + 1\<rparr>) (n + 1) k }"

definition qpl_fill :: "gve_priv \<Rightarrow> nat \<Rightarrow> gve_queue_page_list \<Rightarrow> kern \<Rightarrow> (gve_queue_page_list option \<times> gve_priv \<times> kern) option" where
  "qpl_fill priv npages q k =
     (let (e, q, k) = qpl_pages_loop npages q k
      in if e \<noteq> None then do { (priv, k) \<leftarrow> gve_free_qpl priv q k; Some (None, priv, k) }
         else do {
           (e, q, n, k) \<leftarrow> qpl_dmas_loop npages q (num_registered_pages priv) k;
           let priv = priv\<lparr>num_registered_pages := n\<rparr>;
           if e \<noteq> None then do { (priv, k) \<leftarrow> gve_free_qpl priv q k; Some (None, priv, k) }
           else Some (Some q, priv, k) })"

definition gve_alloc_qpl ::
  "gve_priv \<Rightarrow> nat \<Rightarrow> nat \<Rightarrow> bool \<Rightarrow> kern \<Rightarrow> (gve_queue_page_list option \<times> gve_priv \<times> kern) option" where
  "gve_alloc_qpl priv qid npages single_kva k =
     (if of_nat npages + num_registered_pages priv > max_registered_pages priv then Some (None, priv, k)
      else
        let (s, k) = kalloc MALLOC k;
            (d, k) = kalloc MALLOC k;
            (p, k) = kalloc MALLOC k;
            q = \<lparr>qpl_self = s, qpl_id = of_nat qid, qpl_num_dmas = 0, qpl_num_pages = 0, qpl_kva = None,
                  ql_pages = replicate npages 0, ql_dmas = replicate npages null_dma, qpl_pages_mem = p, qpl_dmas_mem = d\<rparr>
        in if single_kva
           then let (e, v, k) = ktry (KVA (PAGE_SIZE * npages)) k
                in if e \<noteq> None then do { (priv, k) \<leftarrow> gve_free_qpl priv q k; Some (None, priv, k) }
                   else qpl_fill priv npages (q\<lparr>qpl_kva := Some v\<rparr>) k
           else qpl_fill priv npages q k)"

text \<open>The callback when the stack is done with a received buffer in page \<open>p\<close> at the addresses \<open>v\<close>.\<close>

definition gve_mextadd_free :: "nat \<Rightarrow> nat \<Rightarrow> kern \<Rightarrow> kern option" where
  "gve_mextadd_free p v k = do {
     (last, k) \<leftarrow> vm_page_unwire_noq p k;
     if last then kfree (KVA PAGE_SIZE) v k else Some k }"

section \<open>Transmit rings\<close>

text \<open>
  An entry of \<open>tx->dqo.pending_pkts\<close> or \<open>rx->dqo.bufs\<close>: its mbuf and, once mapped, its map. A pending packet
  has a map when its state is not \<open>GVE_PACKET_STATE_UNALLOCATED\<close>, a buffer when \<open>mapped\<close> is set.
\<close>

record map_buf =
  mb_mbuf :: "nat option"
  mb_mapped :: bool
  mb_dmamap :: nat

definition null_buf :: map_buf where
  "null_buf = \<lparr>mb_mbuf = None, mb_mapped = False, mb_dmamap = 0\<rparr>"

text \<open>
  The members of \<open>struct gve_tx_ring\<close> that hold resources. A \<open>bool\<close> says that the pointer into the DMA
  memory next to it is not NULL.
\<close>

record tx_res =
  tr_stats :: "nat option list"
  tr_mtx :: "nat option"
  tr_q_resources :: bool
  tr_q_resources_mem :: dma_handle
  tr_br :: "nat option"
  tr_desc_ring :: bool
  tr_desc_ring_mem :: dma_handle
  tr_info :: "nat option"
  tr_fifo :: gve_tx_fifo
  tr_qpl :: "gve_queue_page_list option"
  tr_compl_ring :: bool
  tr_compl_ring_mem :: dma_handle
  tr_pending_pkts :: "(nat \<times> map_buf list) option"
  tr_buf_dmatag :: "nat option"
  tr_qpl_bufs :: "nat option"
  tr_last_kicked :: int

definition NUM_TX_STATS :: nat where "NUM_TX_STATS = 17"
definition NUM_RX_STATS :: nat where "NUM_RX_STATS = 11"

definition free_dma_if :: "bool \<Rightarrow> dma_handle \<Rightarrow> kern \<Rightarrow> kern option" where
  "free_dma_if b h k = (if b then gve_dma_free_coherent h k else Some k)"

definition free_qpl_opt :: "gve_priv \<Rightarrow> gve_queue_page_list option \<Rightarrow> kern \<Rightarrow> (gve_priv \<times> kern) option" where
  "free_qpl_opt priv q k = (case q of None \<Rightarrow> Some (priv, k) | Some q \<Rightarrow> gve_free_qpl priv q k)"

definition gve_tx_free_ring_gqi :: "gve_priv \<Rightarrow> tx_res \<Rightarrow> kern \<Rightarrow> (tx_res \<times> gve_priv \<times> kern) option" where
  "gve_tx_free_ring_gqi priv tx k = do {
     k \<leftarrow> free_dma_if (tr_desc_ring tx) (tr_desc_ring_mem tx) k;
     k \<leftarrow> kfree_opt MALLOC (tr_info tx) k;
     (priv, k) \<leftarrow> free_qpl_opt priv (tr_qpl tx) k;
     Some (tx\<lparr>tr_desc_ring := False, tr_info := None, tr_qpl := None\<rparr>, priv, k) }"

text \<open>\<open>gve_free_tx_mbufs_dqo\<close> and \<open>gve_free_rx_mbufs_dqo\<close>, and the loops that destroy and create the maps.\<close>

fun free_mbufs :: "map_buf list \<Rightarrow> kern \<Rightarrow> (map_buf list \<times> kern) option" where
  "free_mbufs [] k = Some ([], k)"
| "free_mbufs (b # bs) k = do {
     k \<leftarrow> kfree_opt MBUF (mb_mbuf b) k;
     (bs, k) \<leftarrow> free_mbufs bs k;
     Some (b\<lparr>mb_mbuf := None\<rparr> # bs, k) }"

fun free_maps :: "map_buf list \<Rightarrow> kern \<Rightarrow> kern option" where
  "free_maps [] k = Some k"
| "free_maps (b # bs) k = do {
     k \<leftarrow> (if mb_mapped b then kfree DMA_MAP (mb_dmamap b) k else Some k);
     free_maps bs k }"

fun create_maps :: "map_buf list \<Rightarrow> kern \<Rightarrow> err \<times> map_buf list \<times> kern" where
  "create_maps [] k = (None, [], k)"
| "create_maps (b # bs) k =
     (let (e, m, k) = ktry DMA_MAP k
      in if e \<noteq> None then (e, b # bs, k)
         else let (e, bs, k) = create_maps bs k in (e, b\<lparr>mb_dmamap := m, mb_mapped := True\<rparr> # bs, k))"

definition gve_tx_free_ring_dqo :: "gve_priv \<Rightarrow> tx_res \<Rightarrow> kern \<Rightarrow> (tx_res \<times> gve_priv \<times> kern) option" where
  "gve_tx_free_ring_dqo priv tx k = do {
     let is_qpl = gve_is_qpl (queue_format priv);
     k \<leftarrow> free_dma_if (tr_desc_ring tx) (tr_desc_ring_mem tx) k;
     k \<leftarrow> free_dma_if (tr_compl_ring tx) (tr_compl_ring_mem tx) k;
     k \<leftarrow> (case tr_pending_pkts tx of
             None \<Rightarrow> Some k
           | Some (a, ps) \<Rightarrow> do {
               (ps, k) \<leftarrow> free_mbufs ps k;
               k \<leftarrow> (if \<not> is_qpl \<and> tr_buf_dmatag tx \<noteq> None then free_maps ps k else Some k);
               kfree MALLOC a k });
     k \<leftarrow> (if \<not> is_qpl then kfree_opt DMA_TAG (tr_buf_dmatag tx) k else Some k);
     k \<leftarrow> (if is_qpl then kfree_opt MALLOC (tr_qpl_bufs tx) k else Some k);
     (priv, k) \<leftarrow> free_qpl_opt priv (tr_qpl tx) k;
     Some (tx\<lparr>tr_desc_ring := False, tr_compl_ring := False, tr_pending_pkts := None,
              tr_qpl_bufs := (if is_qpl then None else tr_qpl_bufs tx), tr_qpl := None\<rparr>, priv, k) }"

definition gve_tx_free_ring :: "gve_priv \<Rightarrow> tx_res \<Rightarrow> kern \<Rightarrow> (tx_res \<times> gve_priv \<times> kern) option" where
  "gve_tx_free_ring priv tx k = do {
     k \<leftarrow> gve_free_counters (tr_stats tx) k;
     k \<leftarrow> kfree_opt MTX (tr_mtx tx) k;
     k \<leftarrow> free_dma_if (tr_q_resources tx) (tr_q_resources_mem tx) k;
     k \<leftarrow> kfree_opt BUF_RING (tr_br tx) k;
     let tx = tx\<lparr>tr_mtx := None, tr_q_resources := False, tr_br := None\<rparr>;
     if gve_is_gqi (queue_format priv) then gve_tx_free_ring_gqi priv tx k else gve_tx_free_ring_dqo priv tx k }"

definition gve_tx_alloc_ring_gqi :: "gve_priv \<Rightarrow> nat \<Rightarrow> tx_res \<Rightarrow> kern \<Rightarrow> (err \<times> tx_res \<times> gve_priv \<times> kern) option" where
  "gve_tx_alloc_ring_gqi priv i tx k = do {
     (e, h, k) \<leftarrow> gve_dma_alloc_coherent (tr_desc_ring_mem tx) k;
     let tx = tx\<lparr>tr_desc_ring_mem := h\<rparr>;
     if e \<noteq> None then do { (tx, priv, k) \<leftarrow> gve_tx_free_ring_gqi priv tx k; Some (e, tx, priv, k) }
     else do {
       let tx = tx\<lparr>tr_desc_ring := True\<rparr>;
       (q, priv, k) \<leftarrow> gve_alloc_qpl priv i (unat (tx_desc_cnt priv) div GVE_QPL_DIVISOR) True k;
       let tx = tx\<lparr>tr_qpl := q\<rparr>;
       case q of
         None \<Rightarrow> do { (tx, priv, k) \<leftarrow> gve_tx_free_ring_gqi priv tx k; Some (Some ENOMEM, tx, priv, k) }
       | Some q \<Rightarrow>
           (let (a, k) = kalloc MALLOC k
            in Some (None, tx\<lparr>tr_fifo := gve_tx_fifo_init (qpl_num_pages q) (tr_fifo tx), tr_info := Some a\<rparr>, priv, k)) } }"

definition gve_tx_alloc_rda_fields_dqo :: "tx_res \<Rightarrow> kern \<Rightarrow> err \<times> tx_res \<times> kern" where
  "gve_tx_alloc_rda_fields_dqo tx k =
     (let (e, t, k) = ktry DMA_TAG k
      in if e \<noteq> None then (e, tx, k)
         else let tx = tx\<lparr>tr_buf_dmatag := Some t\<rparr>
              in case tr_pending_pkts tx of
                   None \<Rightarrow> (None, tx, k)
                 | Some (a, ps) \<Rightarrow> (let (e, ps, k) = create_maps ps k in (e, tx\<lparr>tr_pending_pkts := Some (a, ps)\<rparr>, k)))"

text \<open>
  The part of \<open>gve_tx_alloc_ring_dqo\<close> after the two rings. The result of \<open>gve_tx_alloc_rda_fields_dqo\<close> is not
  looked at.
\<close>

definition tx_dqo_rest :: "gve_priv \<Rightarrow> nat \<Rightarrow> tx_res \<Rightarrow> kern \<Rightarrow> (err \<times> tx_res \<times> gve_priv \<times> kern) option" where
  "tx_dqo_rest priv i tx k = do {
     let n = unat (tx_desc_cnt priv);
     let (a, k) = kalloc MALLOC k;
     let tx = tx\<lparr>tr_compl_ring := True, tr_pending_pkts := Some (a, replicate (n - n div unat GVE_TX_MIN_RE_INTERVAL) null_buf)\<rparr>;
     if gve_is_qpl (queue_format priv) then do {
       (q, priv, k) \<leftarrow> gve_alloc_qpl priv i GVE_TX_NUM_QPL_PAGES_DQO False k;
       let tx = tx\<lparr>tr_qpl := q\<rparr>;
       if q = None then do { (tx, priv, k) \<leftarrow> gve_tx_free_ring_dqo priv tx k; Some (Some ENOMEM, tx, priv, k) }
       else (let (b, k) = kalloc MALLOC k in Some (None, tx\<lparr>tr_qpl_bufs := Some b\<rparr>, priv, k)) }
     else (case gve_tx_alloc_rda_fields_dqo tx k of (_, tx, k) \<Rightarrow> Some (None, tx, priv, k)) }"

definition gve_tx_alloc_ring_dqo :: "gve_priv \<Rightarrow> nat \<Rightarrow> tx_res \<Rightarrow> kern \<Rightarrow> (err \<times> tx_res \<times> gve_priv \<times> kern) option" where
  "gve_tx_alloc_ring_dqo priv i tx k = do {
     (e, h, k) \<leftarrow> gve_dma_alloc_coherent (tr_desc_ring_mem tx) k;
     let tx = tx\<lparr>tr_desc_ring_mem := h\<rparr>;
     if e \<noteq> None then do { (tx, priv, k) \<leftarrow> gve_tx_free_ring_dqo priv tx k; Some (e, tx, priv, k) }
     else do {
       let tx = tx\<lparr>tr_desc_ring := True\<rparr>;
       (e, h, k) \<leftarrow> gve_dma_alloc_coherent (tr_compl_ring_mem tx) k;
       let tx = tx\<lparr>tr_compl_ring_mem := h\<rparr>;
       if e \<noteq> None then do { (tx, priv, k) \<leftarrow> gve_tx_free_ring_dqo priv tx k; Some (e, tx, priv, k) }
       else tx_dqo_rest priv i tx k } }"

definition gve_tx_alloc_ring :: "gve_priv \<Rightarrow> nat \<Rightarrow> tx_res \<Rightarrow> kern \<Rightarrow> (err \<times> tx_res \<times> gve_priv \<times> kern) option" where
  "gve_tx_alloc_ring priv i tx k = do {
     (e, tx, priv, k) \<leftarrow> (if gve_is_gqi (queue_format priv) then gve_tx_alloc_ring_gqi priv i tx k else gve_tx_alloc_ring_dqo priv i tx k);
     if e \<noteq> None then do { (tx, priv, k) \<leftarrow> gve_tx_free_ring priv tx k; Some (e, tx, priv, k) }
     else do {
       let (m, k) = kalloc MTX k;
       let (b, k) = kalloc BUF_RING k;
       let (st, k) = gve_alloc_counters NUM_TX_STATS k;
       let tx = tx\<lparr>tr_mtx := Some m, tr_br := Some b, tr_stats := st\<rparr>;
       (e, h, k) \<leftarrow> gve_dma_alloc_coherent (tr_q_resources_mem tx) k;
       let tx = tx\<lparr>tr_q_resources_mem := h\<rparr>;
       if e \<noteq> None then do { (tx, priv, k) \<leftarrow> gve_tx_free_ring priv tx k; Some (e, tx, priv, k) }
       else Some (None, tx\<lparr>tr_q_resources := True, tr_last_kicked := 0\<rparr>, priv, k) } }"

text \<open>The loops over the rings \<open>start_idx .. stop_idx - 1\<close>.\<close>

fun free_rings_loop :: "(gve_priv \<Rightarrow> 'r \<Rightarrow> kern \<Rightarrow> ('r \<times> gve_priv \<times> kern) option) \<Rightarrow> nat list \<Rightarrow> 'r list \<times> gve_priv \<times> kern \<Rightarrow> ('r list \<times> gve_priv \<times> kern) option" where
  "free_rings_loop free_ring [] s = Some s"
| "free_rings_loop free_ring (i # is) (rs, priv, k) = do {
     (r, priv, k) \<leftarrow> free_ring priv (rs ! i) k;
     free_rings_loop free_ring is (rs[i := r], priv, k) }"

fun alloc_rings_loop :: "(gve_priv \<Rightarrow> nat \<Rightarrow> 'r \<Rightarrow> kern \<Rightarrow> (err \<times> 'r \<times> gve_priv \<times> kern) option) \<Rightarrow>
    (gve_priv \<Rightarrow> 'r \<Rightarrow> kern \<Rightarrow> ('r \<times> gve_priv \<times> kern) option) \<Rightarrow> nat \<Rightarrow> nat list \<Rightarrow> 'r list \<times> gve_priv \<times> kern \<Rightarrow>
    (err \<times> 'r list \<times> gve_priv \<times> kern) option" where
  "alloc_rings_loop alloc_ring free_ring start_idx [] (rs, priv, k) = Some (None, rs, priv, k)"
| "alloc_rings_loop alloc_ring free_ring start_idx (i # is) (rs, priv, k) = do {
     (e, r, priv, k) \<leftarrow> alloc_ring priv i (rs ! i) k;
     let rs = rs[i := r];
     if e \<noteq> None then do {
       (rs, priv, k) \<leftarrow> free_rings_loop free_ring [start_idx..<i] (rs, priv, k);
       Some (e, rs, priv, k) }
     else alloc_rings_loop alloc_ring free_ring start_idx is (rs, priv, k) }"

definition gve_free_tx_rings :: "nat \<Rightarrow> nat \<Rightarrow> tx_res list \<times> gve_priv \<times> kern \<Rightarrow> (tx_res list \<times> gve_priv \<times> kern) option" where
  "gve_free_tx_rings start_idx stop_idx = free_rings_loop gve_tx_free_ring [start_idx..<stop_idx]"

definition gve_alloc_tx_rings :: "nat \<Rightarrow> nat \<Rightarrow> tx_res list \<times> gve_priv \<times> kern \<Rightarrow> (err \<times> tx_res list \<times> gve_priv \<times> kern) option" where
  "gve_alloc_tx_rings start_idx stop_idx = alloc_rings_loop gve_tx_alloc_ring gve_tx_free_ring start_idx [start_idx..<stop_idx]"

section \<open>Receive rings\<close>

record rx_res =
  rr_stats :: "nat option list"
  rr_q_resources :: bool
  rr_q_resources_mem :: dma_handle
  rr_desc_ring :: bool
  rr_desc_ring_mem :: dma_handle
  rr_data_ring :: bool
  rr_data_ring_mem :: dma_handle
  rr_page_info :: "nat option"
  rr_qpl :: "gve_queue_page_list option"
  rr_compl_ring :: bool
  rr_compl_ring_mem :: dma_handle
  rr_bufs :: "(nat \<times> map_buf list) option"
  rr_buf_dmatag :: "nat option"

definition gve_rx_free_ring_gqi :: "gve_priv \<Rightarrow> rx_res \<Rightarrow> kern \<Rightarrow> (rx_res \<times> gve_priv \<times> kern) option" where
  "gve_rx_free_ring_gqi priv rx k = do {
     k \<leftarrow> kfree_opt MALLOC (rr_page_info rx) k;
     k \<leftarrow> free_dma_if (rr_data_ring rx) (rr_data_ring_mem rx) k;
     k \<leftarrow> free_dma_if (rr_desc_ring rx) (rr_desc_ring_mem rx) k;
     (priv, k) \<leftarrow> free_qpl_opt priv (rr_qpl rx) k;
     Some (rx\<lparr>rr_page_info := None, rr_data_ring := False, rr_desc_ring := False, rr_qpl := None\<rparr>, priv, k) }"

definition gve_rx_free_ring_dqo :: "gve_priv \<Rightarrow> rx_res \<Rightarrow> kern \<Rightarrow> (rx_res \<times> gve_priv \<times> kern) option" where
  "gve_rx_free_ring_dqo priv rx k = do {
     let is_qpl = gve_is_qpl (queue_format priv);
     k \<leftarrow> free_dma_if (rr_compl_ring rx) (rr_compl_ring_mem rx) k;
     k \<leftarrow> free_dma_if (rr_desc_ring rx) (rr_desc_ring_mem rx) k;
     k \<leftarrow> (case rr_bufs rx of
             None \<Rightarrow> Some k
           | Some (a, bs) \<Rightarrow> do {
               (bs, k) \<leftarrow> (if is_qpl then Some (bs, k) else free_mbufs bs k);
               k \<leftarrow> (if \<not> is_qpl \<and> rr_buf_dmatag rx \<noteq> None then free_maps bs k else Some k);
               kfree MALLOC a k });
     k \<leftarrow> (if \<not> is_qpl then kfree_opt DMA_TAG (rr_buf_dmatag rx) k else Some k);
     (priv, k) \<leftarrow> free_qpl_opt priv (rr_qpl rx) k;
     Some (rx\<lparr>rr_compl_ring := False, rr_desc_ring := False, rr_bufs := None, rr_qpl := None\<rparr>, priv, k) }"

definition gve_rx_free_ring :: "gve_priv \<Rightarrow> rx_res \<Rightarrow> kern \<Rightarrow> (rx_res \<times> gve_priv \<times> kern) option" where
  "gve_rx_free_ring priv rx k = do {
     k \<leftarrow> gve_free_counters (rr_stats rx) k;
     (rx, priv, k) \<leftarrow> (if gve_is_gqi (queue_format priv) then gve_rx_free_ring_gqi priv rx k else gve_rx_free_ring_dqo priv rx k);
     k \<leftarrow> free_dma_if (rr_q_resources rx) (rr_q_resources_mem rx) k;
     Some (rx\<lparr>rr_q_resources := False\<rparr>, priv, k) }"

text \<open>The parts of the allocations after the page list of a GQI ring and after the two rings of a DQO ring.\<close>

definition rx_gqi_rest :: "gve_priv \<Rightarrow> rx_res \<Rightarrow> kern \<Rightarrow> (err \<times> rx_res \<times> gve_priv \<times> kern) option" where
  "rx_gqi_rest priv rx k = do {
     let (a, k) = kalloc MALLOC k;
     let rx = rx\<lparr>rr_page_info := Some a\<rparr>;
     (e, h, k) \<leftarrow> gve_dma_alloc_coherent (rr_data_ring_mem rx) k;
     let rx = rx\<lparr>rr_data_ring_mem := h\<rparr>;
     if e \<noteq> None then do { (rx, priv, k) \<leftarrow> gve_rx_free_ring_gqi priv rx k; Some (e, rx, priv, k) }
     else Some (None, rx\<lparr>rr_data_ring := True\<rparr>, priv, k) }"

definition gve_rx_alloc_ring_gqi :: "gve_priv \<Rightarrow> nat \<Rightarrow> rx_res \<Rightarrow> kern \<Rightarrow> (err \<times> rx_res \<times> gve_priv \<times> kern) option" where
  "gve_rx_alloc_ring_gqi priv i rx k = do {
     (e, h, k) \<leftarrow> gve_dma_alloc_coherent (rr_desc_ring_mem rx) k;
     let rx = rx\<lparr>rr_desc_ring_mem := h\<rparr>;
     if e \<noteq> None then do { (rx, priv, k) \<leftarrow> gve_rx_free_ring_gqi priv rx k; Some (e, rx, priv, k) }
     else do {
       let rx = rx\<lparr>rr_desc_ring := True\<rparr>;
       (q, priv, k) \<leftarrow> gve_alloc_qpl priv (i + unat (max_queues (tx_cfg priv))) (unat (rx_desc_cnt priv)) False k;
       let rx = rx\<lparr>rr_qpl := q\<rparr>;
       if q = None then do { (rx, priv, k) \<leftarrow> gve_rx_free_ring_gqi priv rx k; Some (Some ENOMEM, rx, priv, k) }
       else rx_gqi_rest priv rx k } }"

definition rx_dqo_rest :: "gve_priv \<Rightarrow> nat \<Rightarrow> rx_res \<Rightarrow> kern \<Rightarrow> (err \<times> rx_res \<times> gve_priv \<times> kern) option" where
  "rx_dqo_rest priv i rx k = do {
     let is_qpl = gve_is_qpl (queue_format priv);
     let (a, k) = kalloc MALLOC k;
     let bs = replicate (if is_qpl then GVE_RX_NUM_QPL_PAGES_DQO else unat (rx_desc_cnt priv)) null_buf;
     let rx = rx\<lparr>rr_compl_ring := True, rr_bufs := Some (a, bs)\<rparr>;
     if is_qpl then do {
       (q, priv, k) \<leftarrow> gve_alloc_qpl priv (i + unat (max_queues (tx_cfg priv))) GVE_RX_NUM_QPL_PAGES_DQO False k;
       let rx = rx\<lparr>rr_qpl := q\<rparr>;
       if q = None then do { (rx, priv, k) \<leftarrow> gve_rx_free_ring_dqo priv rx k; Some (Some ENOMEM, rx, priv, k) }
       else Some (None, rx, priv, k) }
     else do {
       let (e, t, k) = ktry DMA_TAG k;
       if e \<noteq> None then do { (rx, priv, k) \<leftarrow> gve_rx_free_ring_dqo priv rx k; Some (e, rx, priv, k) }
       else do {
         let (e, bs, k) = create_maps bs k;
         let rx = rx\<lparr>rr_buf_dmatag := Some t, rr_bufs := Some (a, bs)\<rparr>;
         if e \<noteq> None then do { (rx, priv, k) \<leftarrow> gve_rx_free_ring_dqo priv rx k; Some (e, rx, priv, k) }
         else Some (None, rx, priv, k) } } }"

definition gve_rx_alloc_ring_dqo :: "gve_priv \<Rightarrow> nat \<Rightarrow> rx_res \<Rightarrow> kern \<Rightarrow> (err \<times> rx_res \<times> gve_priv \<times> kern) option" where
  "gve_rx_alloc_ring_dqo priv i rx k = do {
     (e, h, k) \<leftarrow> gve_dma_alloc_coherent (rr_desc_ring_mem rx) k;
     let rx = rx\<lparr>rr_desc_ring_mem := h\<rparr>;
     if e \<noteq> None then do { (rx, priv, k) \<leftarrow> gve_rx_free_ring_dqo priv rx k; Some (e, rx, priv, k) }
     else do {
       let rx = rx\<lparr>rr_desc_ring := True\<rparr>;
       (e, h, k) \<leftarrow> gve_dma_alloc_coherent (rr_compl_ring_mem rx) k;
       let rx = rx\<lparr>rr_compl_ring_mem := h\<rparr>;
       if e \<noteq> None then do { (rx, priv, k) \<leftarrow> gve_rx_free_ring_dqo priv rx k; Some (e, rx, priv, k) }
       else rx_dqo_rest priv i rx k } }"

definition gve_rx_alloc_ring :: "gve_priv \<Rightarrow> nat \<Rightarrow> rx_res \<Rightarrow> kern \<Rightarrow> (err \<times> rx_res \<times> gve_priv \<times> kern) option" where
  "gve_rx_alloc_ring priv i rx k = do {
     let (st, k) = gve_alloc_counters NUM_RX_STATS k;
     let rx = rx\<lparr>rr_stats := st\<rparr>;
     (e, h, k) \<leftarrow> gve_dma_alloc_coherent (rr_q_resources_mem rx) k;
     let rx = rx\<lparr>rr_q_resources_mem := h\<rparr>;
     if e \<noteq> None then do { (rx, priv, k) \<leftarrow> gve_rx_free_ring priv rx k; Some (e, rx, priv, k) }
     else do {
       let rx = rx\<lparr>rr_q_resources := True\<rparr>;
       (e, rx, priv, k) \<leftarrow> (if gve_is_gqi (queue_format priv) then gve_rx_alloc_ring_gqi priv i rx k else gve_rx_alloc_ring_dqo priv i rx k);
       if e \<noteq> None then do { (rx, priv, k) \<leftarrow> gve_rx_free_ring priv rx k; Some (e, rx, priv, k) }
       else Some (None, rx, priv, k) } }"

definition gve_free_rx_rings :: "nat \<Rightarrow> nat \<Rightarrow> rx_res list \<times> gve_priv \<times> kern \<Rightarrow> (rx_res list \<times> gve_priv \<times> kern) option" where
  "gve_free_rx_rings start_idx stop_idx = free_rings_loop gve_rx_free_ring [start_idx..<stop_idx]"

definition gve_alloc_rx_rings :: "nat \<Rightarrow> nat \<Rightarrow> rx_res list \<times> gve_priv \<times> kern \<Rightarrow> (err \<times> rx_res list \<times> gve_priv \<times> kern) option" where
  "gve_alloc_rx_rings start_idx stop_idx = alloc_rings_loop gve_rx_alloc_ring gve_rx_free_ring start_idx [start_idx..<stop_idx]"

section \<open>Interrupts\<close>

record gve_irq =
  irq_res :: "nat option"
  irq_cookie :: "nat option"

text \<open>The table (its memory and its entries), the vectors the bus has handed out, and \<open>com->ntfy_id\<close> of the rings.\<close>

record irq_state =
  irq_tbl :: "(nat \<times> gve_irq list) option"
  irq_msix :: "nat option"
  ntfy_id_tx :: "nat \<Rightarrow> nat"
  ntfy_id_rx :: "nat \<Rightarrow> nat"

definition null_irq :: gve_irq where
  "null_irq = \<lparr>irq_res = None, irq_cookie = None\<rparr>"

text \<open>\<open>bus_teardown_intr\<close> refuses a NULL cookie, which only leads to a message.\<close>

fun free_irqs_loop :: "gve_irq list \<Rightarrow> kern \<Rightarrow> kern option" where
  "free_irqs_loop [] k = Some k"
| "free_irqs_loop (irq # irqs) k = do {
     k \<leftarrow> (case irq_res irq of
             None \<Rightarrow> Some k
           | Some r \<Rightarrow> do { k \<leftarrow> kfree_opt INTR (irq_cookie irq) k; kfree IRQ_RES r k });
     free_irqs_loop irqs k }"

definition gve_free_irqs :: "gve_priv \<Rightarrow> irq_state \<Rightarrow> kern \<Rightarrow> (irq_state \<times> kern) option" where
  "gve_free_irqs priv s k =
     (case irq_tbl s of
        None \<Rightarrow> Some (s, k)
      | Some (a, irqs) \<Rightarrow> do {
          k \<leftarrow> free_irqs_loop (take (unat (max_queues (tx_cfg priv)) + unat (max_queues (rx_cfg priv)) + 1) irqs) k;
          k \<leftarrow> kfree MALLOC a k;
          k \<leftarrow> kfree_opt MSIX (irq_msix s) k;
          Some (s\<lparr>irq_tbl := None, irq_msix := None\<rparr>, k) })"

text \<open>
  The loops over the transmit queues and the receive queues and the management interrupt take the
  same steps for one entry of the table after the other.
\<close>

fun alloc_irqs_loop :: "nat \<Rightarrow> kern \<Rightarrow> err \<times> gve_irq list \<times> kern" where
  "alloc_irqs_loop 0 k = (None, [], k)"
| "alloc_irqs_loop (Suc n) k =
     (let (e, r, k) = ktry IRQ_RES k
      in if e \<noteq> None then (Some ENOMEM, replicate (Suc n) null_irq, k)
         else let (e, c, k) = ktry INTR k
              in if e \<noteq> None then (e, \<lparr>irq_res = Some r, irq_cookie = None\<rparr> # replicate n null_irq, k)
                 else let (e, irqs, k) = alloc_irqs_loop n k in (e, \<lparr>irq_res = Some r, irq_cookie = Some c\<rparr> # irqs, k))"

definition gve_alloc_irqs :: "gve_priv \<Rightarrow> irq_state \<Rightarrow> kern \<Rightarrow> (err \<times> irq_state \<times> kern) option" where
  "gve_alloc_irqs priv s k = do {
     let num_tx = unat (max_queues (tx_cfg priv));
     let num_rx = unat (max_queues (rx_cfg priv));
     let req_nvecs = num_tx + num_rx + 1;
     let (e, v, k) = ktry MSIX k;
     if e \<noteq> None then do { (s, k) \<leftarrow> gve_free_irqs priv s k; Some (Some ENXIO, s, k) }
     else do {
       let s = s\<lparr>irq_msix := Some v\<rparr>;
       if min req_nvecs (k_nvecs k) \<noteq> req_nvecs then do { (s, k) \<leftarrow> gve_free_irqs priv s k; Some (Some ENOSPC, s, k) }
       else do {
         let (a, k) = kalloc MALLOC k;
         let (e, irqs, k) = alloc_irqs_loop req_nvecs k;
         let s = s\<lparr>irq_tbl := Some (a, irqs),
                    ntfy_id_tx := (\<lambda>i. if i < num_tx \<and> irq_cookie (irqs ! i) \<noteq> None then i else ntfy_id_tx s i),
                    ntfy_id_rx := (\<lambda>j. if j < num_rx \<and> irq_cookie (irqs ! (num_tx + j)) \<noteq> None then num_tx + j else ntfy_id_rx s j)\<rparr>;
         if e \<noteq> None then do { (s, k) \<leftarrow> gve_free_irqs priv s k; Some (e, s, k) }
         else Some (None, s, k) } } }"

end
