(* ===== verification/Gve_Alloc_Qpl.thy ===== *)
theory Gve_Alloc_Qpl
  imports Gve_Alloc
begin

text \<open>
  Correctness of the allocation routines: what a failure gives back, what a success holds, and that
  the release routines give back exactly that.
\<close>

section \<open>Queue page lists\<close>

definition own_dmas :: "dma_handle list \<Rightarrow> res multiset" where
  "own_dmas hs = sum_list (map (own_dma DMA_MAP) hs)"

definition own_pages :: "bool \<Rightarrow> (nat \<times> dma_handle) list \<Rightarrow> res multiset" where
  "own_pages single ps = sum_list (map (\<lambda>(p, h). add_mset (VM_PAGE, p) (if single then {#} else {#(KVA PAGE_SIZE, h_cpu h)#})) ps)"

lemma own_dmas_simps [simp]: "own_dmas [] = {#}" "own_dmas (h # hs) = own_dma DMA_MAP h + own_dmas hs" "own_dmas (hs @ hs') = own_dmas hs + own_dmas hs'"
  by (simp_all add: own_dmas_def)

lemma own_pages_simps [simp]:
  "own_pages single [] = {#}"
  "own_pages single ((p, h) # ps) = add_mset (VM_PAGE, p) (if single then {#} else {#(KVA PAGE_SIZE, h_cpu h)#}) + own_pages single ps"
  "own_pages single (ps @ qs) = own_pages single ps + own_pages single qs"
  by (simp_all add: own_pages_def)

lemma own_pages_page: "(VM_PAGE, p) \<in># own_pages single ps \<longleftrightarrow> p \<in> fst ` set ps"
  by (induction ps) (auto split: if_splits)

lemma own_pages_cong: "map (\<lambda>(p, h). (p, h_cpu h)) ps = map (\<lambda>(p, h). (p, h_cpu h)) qs \<Longrightarrow> own_pages single ps = own_pages single qs"
proof (induction ps arbitrary: qs)
  case (Cons x ps)
  then obtain y qs' where q: "qs = y # qs'" by (cases qs) auto
  then show ?case using Cons by (cases x; cases y) simp
qed simp

lemma wp_free_qpl_dmas:
  assumes "acq k (own_dmas hs + M) k1" and "\<forall>h \<in> set hs. h_tag h \<noteq> None" and "\<And>k2. acq k M k2 \<Longrightarrow> P k2"
  shows "wp (free_qpl_dmas hs k1) P"
  using assms
proof (induction hs arbitrary: k1)
  case (Cons h hs)
  have "acq k (own_dma DMA_MAP h + (own_dmas hs + M)) k1" using Cons.prems(1) by (simp add: add.assoc)
  then show ?case using Cons by (auto intro!: wp_dmamap_destroy)
qed simp

text \<open>The pages with another reference, held by the stack, keep their addresses.\<close>

definition kept_pages :: "bool \<Rightarrow> (nat \<Rightarrow> bool) \<Rightarrow> (nat \<times> dma_handle) list \<Rightarrow> res multiset" where
  "kept_pages single ref ps = sum_list (map (\<lambda>(p, h). if ref p \<and> \<not> single then {#(KVA PAGE_SIZE, h_cpu h)#} else {#}) ps)"

lemma kept_pages_Cons: "kept_pages single ref (x # ps) = kept_pages single ref [x] + kept_pages single ref ps"
  by (simp add: kept_pages_def)

lemma wp_free_qpl_pages:
  assumes "acq k (own_pages single ps + M) k1" and "distinct (map fst ps)"
    and "\<And>k2. acq k (kept_pages single (\<lambda>p. (VM_PAGE, p) \<in># k_live k + M) ps + M) k2 \<Longrightarrow> P (n - of_nat (length ps), k2)"
  shows "wp (free_qpl_pages single ps (n, k1)) P"
  using assms
proof (induction ps arbitrary: k1 M n)
  case Nil
  then show ?case by (simp add: kept_pages_def)
next
  case (Cons x ps)
  obtain p h where x: "x = (p, h)" by fastforce
  let ?K = "if single then {#} else {#(KVA PAGE_SIZE, h_cpu h)#}"
  have a: "acq k (add_mset (VM_PAGE, p) (?K + own_pages single ps + M)) k1" using Cons.prems(1) x by (simp add: ac_simps split: if_splits)
  have d: "distinct (map fst ps)" "p \<notin> fst ` set ps" using Cons.prems(2) x by auto
  have nn: "n - of_nat (length (x # ps)) = n - 1 - of_nat (length ps)" by simp
  have rest: "wp (free_qpl_pages single ps (n - 1, k2)) P"
    if k2: "acq k (own_pages single ps + (kept_pages single (\<lambda>p. (VM_PAGE, p) \<in># k_live k + M) [x] + M)) k2" for k2
  proof (rule Cons.IH [OF k2 d(1)])
    let ?ref = "\<lambda>p. (VM_PAGE, p) \<in># k_live k + M"
    fix k3
    assume "acq k (kept_pages single (\<lambda>p. (VM_PAGE, p) \<in># k_live k + (kept_pages single ?ref [x] + M)) ps + (kept_pages single ?ref [x] + M)) k3"
    moreover have E: "(\<lambda>p. (VM_PAGE, p) \<in># k_live k + (kept_pages single ?ref [x] + M)) = ?ref"
      by (auto simp: kept_pages_def x fun_eq_iff)
    ultimately have "acq k (kept_pages single ?ref (x # ps) + M) k3" unfolding E kept_pages_Cons [of single ?ref x ps] by (simp only: ac_simps)
    then show "P (n - 1 - of_nat (length ps), k3)" using Cons.prems(3) [of k3] nn by (simp only:)
  qed
  have "wp (kfree VM_PAGE p k1) (\<lambda>k2. wp (if (VM_PAGE, p) \<notin># k_live k2 \<and> \<not> single then kfree (KVA PAGE_SIZE) (h_cpu h) k2 else Some k2)
     (\<lambda>k3. wp (free_qpl_pages single ps (n - 1, k3)) P))"
  proof (rule wp_kfree [OF a])
    fix k2
    assume "acq k (add_mset (VM_PAGE, p) (?K + own_pages single ps + M) - {#(VM_PAGE, p)#}) k2"
    then have k2: "acq k (?K + own_pages single ps + M) k2" by simp
    have last: "(VM_PAGE, p) \<in># k_live k2 \<longleftrightarrow> (VM_PAGE, p) \<in># k_live k + M" using k2 d(2) by (auto simp: acq_def own_pages_page)
    show "wp (if (VM_PAGE, p) \<notin># k_live k2 \<and> \<not> single then kfree (KVA PAGE_SIZE) (h_cpu h) k2 else Some k2) (\<lambda>k3. wp (free_qpl_pages single ps (n - 1, k3)) P)"
    proof (cases "single \<or> (VM_PAGE, p) \<in># k_live k + M")
      case True
      then have "acq k (own_pages single ps + (kept_pages single (\<lambda>p. (VM_PAGE, p) \<in># k_live k + M) [x] + M)) k2"
        using k2 by (cases single) (auto simp: kept_pages_def x ac_simps)
      then show ?thesis using True rest [of k2] last by auto
    next
      case False
      then have "?K = {#(KVA PAGE_SIZE, h_cpu h)#}" "kept_pages single (\<lambda>p. (VM_PAGE, p) \<in># k_live k + M) [x] = {#}" by (auto simp: kept_pages_def x)
      then have "wp (kfree (KVA PAGE_SIZE) (h_cpu h) k2) (\<lambda>k3. wp (free_qpl_pages single ps (n - 1, k3)) P)"
        by (intro wp_kfree [OF k2] rest) simp_all
      then show ?thesis using False last by auto
    qed
  qed simp
  then show ?case by (simp add: x vm_page_unwire_noq_def)
qed

definition own_kva :: "nat \<Rightarrow> nat option \<Rightarrow> res multiset" where
  "own_kva n kva = (case kva of None \<Rightarrow> {#} | Some v \<Rightarrow> {#(KVA (PAGE_SIZE * n), v)#})"

definition own_qpl :: "gve_queue_page_list \<Rightarrow> res multiset" where
  "own_qpl q = own_dmas (take (qpl_num_dmas q) (ql_dmas q)) +
     own_kva (qpl_num_pages q) (qpl_kva q) +
     own_pages (qpl_kva q \<noteq> None) (take (qpl_num_pages q) (zip (ql_pages q) (ql_dmas q))) +
     {#(MALLOC, qpl_pages_mem q), (MALLOC, qpl_dmas_mem q), (MALLOC, qpl_self q)#}"

definition qpl_ok :: "gve_queue_page_list \<Rightarrow> bool" where
  "qpl_ok q \<longleftrightarrow> (\<forall>h \<in> set (take (qpl_num_dmas q) (ql_dmas q)). h_tag h \<noteq> None) \<and> distinct (take (qpl_num_pages q) (ql_pages q)) \<and>
     length (ql_pages q) = length (ql_dmas q) \<and> qpl_num_pages q \<le> length (ql_pages q)"

definition qpl_kept :: "gve_queue_page_list \<Rightarrow> (nat \<Rightarrow> bool) \<Rightarrow> res multiset" where
  "qpl_kept q ref = kept_pages (qpl_kva q \<noteq> None) ref (take (qpl_num_pages q) (zip (ql_pages q) (ql_dmas q)))"

lemma wp_free_qpl:
  assumes a: "acq k (own_qpl q + M) k1" and q: "qpl_ok q"
    and P: "\<And>k2. acq k (qpl_kept q (\<lambda>p. (VM_PAGE, p) \<in># k_live k + M) + M) k2 \<Longrightarrow>
       P (priv\<lparr>num_registered_pages := num_registered_pages priv - of_nat (qpl_num_pages q)\<rparr>, k2)"
  shows "wp (gve_free_qpl priv q k1) P"
proof -
  let ?ps = "take (qpl_num_pages q) (zip (ql_pages q) (ql_dmas q))"
  let ?m = "{#(MALLOC, qpl_pages_mem q), (MALLOC, qpl_dmas_mem q), (MALLOC, qpl_self q)#}"
  let ?kva = "own_kva (qpl_num_pages q) (qpl_kva q)"
  have l: "length ?ps = qpl_num_pages q" "map fst ?ps = take (qpl_num_pages q) (ql_pages q)" using q by (simp_all add: qpl_ok_def take_zip)
  have a': "acq k (own_dmas (take (qpl_num_dmas q) (ql_dmas q)) + (?kva + (own_pages (qpl_kva q \<noteq> None) ?ps + (?m + M)))) k1"
    using a by (simp add: own_qpl_def ac_simps)
  have fin: "wp (kfree MALLOC (qpl_pages_mem q) k2) (\<lambda>k. wp (kfree MALLOC (qpl_dmas_mem q) k) (\<lambda>k. wp (kfree MALLOC (qpl_self q) k)
      (\<lambda>k. P (priv\<lparr>num_registered_pages := num_registered_pages priv - of_nat (qpl_num_pages q)\<rparr>, k))))"
    if k2: "acq k (kept_pages (qpl_kva q \<noteq> None) (\<lambda>p. (VM_PAGE, p) \<in># k_live k + (?m + M)) ?ps + (?m + M)) k2" for k2
  proof -
    have e: "(\<lambda>p. (VM_PAGE, p) \<in># k_live k + (?m + M)) = (\<lambda>p. (VM_PAGE, p) \<in># k_live k + M)" by auto
    have k2': "acq k (?m + (qpl_kept q (\<lambda>p. (VM_PAGE, p) \<in># k_live k + M) + M)) k2" using k2 by (simp add: qpl_kept_def e ac_simps)
    show ?thesis by (rule wp_kfree [OF k2'], simp, rule wp_kfree, assumption, simp, rule wp_kfree, assumption, simp, rule P, simp)
  qed
  have pages: "wp (free_qpl_pages (qpl_kva q \<noteq> None) ?ps (num_registered_pages priv, k2)) (\<lambda>x. wp (case x of (n, k) \<Rightarrow> do {
      k \<leftarrow> kfree MALLOC (qpl_pages_mem q) k; k \<leftarrow> kfree MALLOC (qpl_dmas_mem q) k; k \<leftarrow> kfree MALLOC (qpl_self q) k;
      Some (priv\<lparr>num_registered_pages := n\<rparr>, k) }) P)"
    if k2: "acq k (own_pages (qpl_kva q \<noteq> None) ?ps + (?m + M)) k2" for k2
  proof (rule wp_free_qpl_pages [OF k2])
    show "distinct (map fst ?ps)" using l(2) q by (simp add: qpl_ok_def)
  qed (use l(1) fin in simp)
  have t: "\<forall>h \<in> set (take (qpl_num_dmas q) (ql_dmas q)). h_tag h \<noteq> None" using q by (simp add: qpl_ok_def)
  show ?thesis unfolding gve_free_qpl_def wp_bind
    by (rule wp_free_qpl_dmas [OF a' t], rule wp_kfree_opt, assumption, simp add: own_kva_def split: option.split, rule pages, erule acq_eq, simp add: own_kva_def split: option.split)
qed

subsection \<open>Allocation of a page list\<close>

lemma take_Suc_update: "i < length xs \<Longrightarrow> take (Suc i) (xs[i := x]) = take i xs @ [x]"
  by (simp add: take_Suc_conv_app_nth)

definition q_pages :: "gve_queue_page_list \<Rightarrow> (nat \<times> dma_handle) list" where
  "q_pages q = take (qpl_num_pages q) (zip (ql_pages q) (ql_dmas q))"

text \<open>The list as far as it has been built: the pages obtained are distinct and have new identifiers.\<close>

definition building :: "nat \<Rightarrow> kern \<Rightarrow> gve_queue_page_list \<Rightarrow> res multiset \<Rightarrow> kern \<Rightarrow> bool" where
  "building b k q M k1 \<longleftrightarrow> (\<forall>p \<in> fst ` set (q_pages q). b \<le> p) \<and> acq k (own_pages (qpl_kva q \<noteq> None) (q_pages q) + M) k1 \<and> distinct (map fst (q_pages q)) \<and>
     length (ql_pages q) = length (ql_dmas q) \<and> qpl_num_pages q \<le> length (ql_pages q)"

definition same_frame :: "gve_queue_page_list \<Rightarrow> gve_queue_page_list \<Rightarrow> bool" where
  "same_frame q q' \<longleftrightarrow> (\<exists>ps ds n. q' = q\<lparr>ql_pages := ps, ql_dmas := ds, qpl_num_pages := n\<rparr> \<and> length ps = length (ql_pages q) \<and> length ds = length (ql_dmas q))"

lemma building_less: "building b k q M k1 \<Longrightarrow> p \<in> fst ` set (q_pages q) \<Longrightarrow> p < k_next k1"
  using acq_less [of k _ k1 VM_PAGE p] own_pages_page [of p] unfolding building_def by (metis union_iff)

lemma building_page:
  assumes b: "building b k q M k1" "b \<le> k_next k1" and i: "qpl_num_pages q < length (ql_pages q)"
    and a: "acq k (add_mset (VM_PAGE, p) (if qpl_kva q = None then {#(KVA PAGE_SIZE, h_cpu h)#} else {#}) + (own_pages (qpl_kva q \<noteq> None) (q_pages q) + M)) k2"
    and p: "p = k_next k1"
  shows "building b k (q\<lparr>ql_pages := (ql_pages q)[qpl_num_pages q := p], ql_dmas := (ql_dmas q)[qpl_num_pages q := h], qpl_num_pages := qpl_num_pages q + 1\<rparr>) M k2"
proof -
  let ?i = "qpl_num_pages q"
  let ?q = "q\<lparr>ql_pages := (ql_pages q)[?i := p], ql_dmas := (ql_dmas q)[?i := h], qpl_num_pages := ?i + 1\<rparr>"
  have l: "length (ql_pages q) = length (ql_dmas q)" using b by (simp add: building_def)
  have q: "q_pages ?q = q_pages q @ [(p, h)]" using i l by (simp add: q_pages_def zip_update take_Suc_update)
  have new: "p \<notin> fst ` set (q_pages q)" "b \<le> p" using b p building_less [OF b(1), of p] by auto
  have "distinct (map fst (q_pages ?q))" using b new unfolding q by (simp add: building_def)
  moreover have "\<forall>p \<in> fst ` set (q_pages ?q). b \<le> p" using b new unfolding q by (auto simp: building_def)
  moreover have "acq k (own_pages (qpl_kva q \<noteq> None) (q_pages ?q) + M) k2" unfolding q by (rule acq_eq [OF a]) (auto simp: ac_simps)
  ultimately show ?thesis using b i by (simp add: building_def)
qed

lemma qpl_pages_loop:
  assumes "building b k q M k1" and "b \<le> k_next k1" and "qpl_num_pages q + n = length (ql_pages q)" and "qpl_pages_loop n q k1 = (e, q', k2)"
  shows "same_frame q q' \<and> map h_tag (ql_dmas q') = map h_tag (ql_dmas q) \<and>
    (e = None \<longrightarrow> building b k q' M k2 \<and> qpl_num_pages q' = length (ql_pages q)) \<and>
    (e \<noteq> None \<longrightarrow> (\<exists>p. building b k q' (add_mset (VM_PAGE, p) M) k2 \<and> b \<le> p \<and> p \<notin> fst ` set (q_pages q') \<and> qpl_num_pages q' < length (ql_pages q) \<and> qpl_kva q = None \<and> (\<exists>j. k_err k (KVA PAGE_SIZE) j \<noteq> None)))"
  using assms
proof (induction n arbitrary: q k1)
  case 0
  then show ?case by (auto simp: same_frame_def intro!: exI [of _ "ql_pages q'"] exI [of _ "ql_dmas q'"] exI [of _ "qpl_num_pages q'"])
next
  case (Suc n)
  let ?i = "qpl_num_pages q"
  have l: "length (ql_pages q) = length (ql_dmas q)" "?i < length (ql_dmas q)" using Suc.prems(1,3) by (simp_all add: building_def)
  obtain p k3 where p: "kalloc VM_PAGE k1 = (p, k3)" by (metis surj_pair)
  have a: "acq k (own_pages (qpl_kva q \<noteq> None) (q_pages q) + M) k1" using Suc.prems(1) by (simp add: building_def)
  note A = acq_kalloc [OF a p]
  have n3: "b \<le> k_next k3" using p Suc.prems(2) by (auto simp: kalloc_def)
  define upd where "upd v = q\<lparr>ql_pages := (ql_pages q)[?i := p], ql_dmas := (ql_dmas q)[?i := (ql_dmas q ! ?i)\<lparr>h_cpu := v\<rparr>], qpl_num_pages := ?i + 1\<rparr>" for v
  have tags: "map h_tag (ql_dmas (upd v)) = map h_tag (ql_dmas q)" for v
    using l(2) by (simp add: upd_def map_update list_update_same_conv)
  have fr: "same_frame q q'" if "same_frame (upd v) q'" for v using that unfolding same_frame_def upd_def by auto
  have step: ?case if "building b k (upd v) M k4" "b \<le> k_next k4" "qpl_pages_loop n (upd v) k4 = (e, q', k2)" for v k4
  proof -
    have "qpl_num_pages (upd v) + n = length (ql_pages (upd v))" using Suc.prems(3) by (simp add: upd_def)
    from Suc.IH [OF that(1,2) this that(3)] show ?case using tags [of v] fr [of v] by (simp add: upd_def)
  qed
  show ?case
  proof (cases "qpl_kva q")
    case (Some v)
    have "building b k (upd v) M k3" unfolding upd_def by (rule building_page [OF Suc.prems(1,2)]) (use l A Some in \<open>simp_all add: ac_simps\<close>)
    then show ?thesis using Suc.prems(4) p Some n3 by (intro step [of v k3]) (simp_all add: upd_def Let_def)
  next
    case None
    obtain e1 v k4 where v: "ktry (KVA PAGE_SIZE) k3 = (e1, v, k4)" by (metis prod_cases3)
    note V = acq_ktry [OF A(1) v]
    have n4: "k_next k3 \<le> k_next k4" using v by (auto simp: ktry_def kalloc_def split: option.splits)
    show ?thesis
    proof (cases e1)
      case e1: None
      have "building b k (upd v) M k4" unfolding upd_def by (rule building_page [OF Suc.prems(1,2)]) (use l A V(1) [OF e1, THEN conjunct1] None in \<open>simp_all add: ac_simps add_mset_commute\<close>)
      then show ?thesis using Suc.prems(4) p None v e1 n3 n4 by (intro step [of v k4]) (simp_all add: upd_def Let_def)
    next
      case (Some x)
      then have q: "e = Some ENOMEM" "q' = q\<lparr>ql_pages := (ql_pages q)[?i := p]\<rparr>" "k2 = k4" using Suc.prems(4) p None v by (auto simp: Let_def)
      have z: "q_pages q' = q_pages q" unfolding q q_pages_def by (simp add: take_zip)
      have "building b k q' (add_mset (VM_PAGE, p) M) k2" using V(2) Some Suc.prems(1) z None unfolding building_def by (auto simp: q ac_simps)
      moreover have "b \<le> p \<and> p \<notin> fst ` set (q_pages q')" using Suc.prems(2) z A(2) building_less [OF Suc.prems(1), of p] by auto
      moreover have "same_frame q q'" unfolding same_frame_def q by (rule exI [of _ "(ql_pages q)[?i := p]"], rule exI [of _ "ql_dmas q"], rule exI [of _ ?i]) simp
      ultimately show ?thesis using q V(3) Some l None Suc.prems(3) by auto
    qed
  qed
qed

lemma wp_qpl_dmas_loop:
  assumes "acq k (own_dmas (take (qpl_num_dmas q) (ql_dmas q)) + M) k1" and "loads_ok k" and "qpl_num_dmas q + j = length (ql_dmas q)"
    and "\<forall>h \<in> set (take (qpl_num_dmas q) (ql_dmas q)). h_tag h \<noteq> None"
    and "\<And>e ds i k2. map h_cpu ds = map h_cpu (ql_dmas q) \<Longrightarrow> i \<le> j \<Longrightarrow> e = None \<longleftrightarrow> i = j \<Longrightarrow>
       acq k (own_dmas (take (qpl_num_dmas q + i) ds) + M) k2 \<Longrightarrow> \<forall>h \<in> set (take (qpl_num_dmas q + i) ds). h_tag h \<noteq> None \<Longrightarrow>
       P (e, q\<lparr>ql_dmas := ds, qpl_num_dmas := qpl_num_dmas q + i\<rparr>, n + of_nat i, k2)"
  shows "wp (qpl_dmas_loop j q n k1) P"
  using assms
proof (induction j arbitrary: q n k1)
  case 0
  have "P (None, q\<lparr>ql_dmas := ql_dmas q, qpl_num_dmas := qpl_num_dmas q + 0\<rparr>, n + of_nat 0, k1)" by (rule "0.prems"(5)) (use "0.prems" in simp_all)
  moreover have "q\<lparr>ql_dmas := ql_dmas q, qpl_num_dmas := qpl_num_dmas q + 0\<rparr> = q" by simp
  ultimately have "P (None, q, n + of_nat 0, k1)" by (simp only:)
  then show ?case by simp
next
  case (Suc j)
  let ?d = "qpl_num_dmas q"
  have l: "?d < length (ql_dmas q)" using Suc.prems(3) by simp
  have cpu: "map h_cpu ((ql_dmas q)[?d := h]) = map h_cpu (ql_dmas q)" if "h_cpu h = h_cpu (ql_dmas q ! ?d)" for h
    using l that by (simp add: map_update list_update_same_conv)
  have "wp (gve_dmamap_create (ql_dmas q ! ?d) k1) (\<lambda>(e, h, k). wp (let q = q\<lparr>ql_dmas := (ql_dmas q)[?d := h]\<rparr> in
      if e \<noteq> None then Some (e, q, n, k) else qpl_dmas_loop j (q\<lparr>qpl_num_dmas := qpl_num_dmas q + 1\<rparr>) (n + 1) k) P)"
  proof (rule wp_dmamap_create [OF Suc.prems(1,2)], goal_cases)
    case (1 h k2)
    let ?q = "q\<lparr>ql_dmas := (ql_dmas q)[?d := h], qpl_num_dmas := ?d + 1\<rparr>"
    have t: "take (Suc ?d) ((ql_dmas q)[?d := h]) = take ?d (ql_dmas q) @ [h]" using l by (rule take_Suc_update)
    have "acq k (own_dmas (take (qpl_num_dmas ?q) (ql_dmas ?q)) + M) k2" using 1(3) t by (simp add: ac_simps)
    moreover have "\<forall>h \<in> set (take (qpl_num_dmas ?q) (ql_dmas ?q)). h_tag h \<noteq> None" using Suc.prems(4) 1(1) t by auto
    moreover have "qpl_num_dmas ?q + j = length (ql_dmas ?q)" using Suc.prems(3) by simp
    moreover have "P (e, ?q\<lparr>ql_dmas := ds, qpl_num_dmas := qpl_num_dmas ?q + i\<rparr>, n + 1 + of_nat i, k3)"
      if "map h_cpu ds = map h_cpu (ql_dmas ?q)" "i \<le> j" "e = None \<longleftrightarrow> i = j" "acq k (own_dmas (take (qpl_num_dmas ?q + i) ds) + M) k3"
        "\<forall>h \<in> set (take (qpl_num_dmas ?q + i) ds). h_tag h \<noteq> None" for e ds i k3
      using Suc.prems(5) [of ds "Suc i" e k3] that cpu [OF 1(2)] by (simp add: add.assoc)
    ultimately have "wp (qpl_dmas_loop j ?q (n + 1) k2) P" using Suc.prems(2) by (intro Suc.IH) blast+
    then show ?case by simp
  next
    case (2 e h k2)
    have "take ?d ((ql_dmas q)[?d := h]) = take ?d (ql_dmas q)" by simp
    then show ?case using Suc.prems(5) [of "(ql_dmas q)[?d := h]" 0 "Some e" k2] cpu [OF 2(2)] 2(3) Suc.prems(4) by simp
  qed
  then show ?case by (simp add: split_def)
qed

text \<open>A failure leaks nothing, except that the page in hand when its addresses cannot be had is lost.\<close>

definition leak_ok :: "kern \<Rightarrow> bool \<Rightarrow> res multiset \<Rightarrow> bool" where
  "leak_ok k single L \<longleftrightarrow> L = {#} \<or> \<not> single \<and> (\<exists>j. k_err k (KVA PAGE_SIZE) j \<noteq> None) \<and> (\<exists>p. L = {#(VM_PAGE, p)#})"

lemma no_refs:
  assumes "acq k M k1" and "kern_ok k" and "k_next k1 \<le> p"
  shows "(VM_PAGE, p) \<notin># k_live k + M"
proof
  assume "(VM_PAGE, p) \<in># k_live k + M"
  then have "p < k_next k1" using acq_ok [OF assms(1,2)] assms(1) unfolding kern_ok_def acq_def by (metis snd_conv)
  then show False using assms(3) by simp
qed

lemma kept_none: "(\<And>p. p \<in> fst ` set ps \<Longrightarrow> \<not> ref p) \<Longrightarrow> kept_pages single ref ps = {#}"
  by (induction ps) (auto simp: kept_pages_def)

lemma wp_free_building:
  assumes b: "building (k_next k1) k q (own_dmas (take (qpl_num_dmas q) (ql_dmas q)) + (own_kva (qpl_num_pages q) (qpl_kva q) +
       ({#(MALLOC, qpl_pages_mem q), (MALLOC, qpl_dmas_mem q), (MALLOC, qpl_self q)#} + (L + M)))) k2"
    and a: "acq k M k1" and ok: "kern_ok k" and t: "\<forall>h \<in> set (take (qpl_num_dmas q) (ql_dmas q)). h_tag h \<noteq> None"
    and L: "\<And>p. p \<in> fst ` set (q_pages q) \<Longrightarrow> (VM_PAGE, p) \<notin># L"
    and P: "\<And>n k3. acq k (L + M) k3 \<Longrightarrow> P (None, priv\<lparr>num_registered_pages := n\<rparr>, k3)"
  shows "wp (gve_free_qpl priv q k2) (\<lambda>(priv, k). P (None, priv, k))"
proof (rule wp_free_qpl)
  show "acq k (own_qpl q + (L + M)) k2" using b by (simp add: building_def own_qpl_def q_pages_def ac_simps add_mset_commute)
  have "map fst (q_pages q) = take (qpl_num_pages q) (ql_pages q)" using b by (simp add: building_def q_pages_def take_zip)
  then show "qpl_ok q" using b t by (simp add: building_def qpl_ok_def)
  have "(VM_PAGE, p) \<notin># k_live k + (L + M)" if "p \<in> fst ` set (q_pages q)" for p
    using no_refs [OF a ok, of p] L [OF that] b that by (auto simp: building_def)
  then have "qpl_kept q (\<lambda>p. (VM_PAGE, p) \<in># k_live k + (L + M)) = {#}" unfolding qpl_kept_def q_pages_def [symmetric] by (intro kept_none)
  then show "case (priv\<lparr>num_registered_pages := num_registered_pages priv - of_nat (qpl_num_pages q)\<rparr>, k3) of (priv, k) \<Rightarrow> P (None, priv, k)"
    if "acq k (qpl_kept q (\<lambda>p. (VM_PAGE, p) \<in># k_live k + (L + M)) + (L + M)) k3" for k3
    using that P by simp
qed

lemma own_pages_cpu:
  assumes "map h_cpu ds = map h_cpu ds'"
  shows "own_pages single (take n (zip ps ds)) = own_pages single (take n (zip ps ds'))"
proof (rule own_pages_cong)
  have "map (\<lambda>(p, h). (p, h_cpu h)) (zip ps xs) = zip ps (map h_cpu xs)" for xs by (simp add: zip_map2)
  then show "map (\<lambda>(p, h). (p, h_cpu h)) (take n (zip ps ds)) = map (\<lambda>(p, h). (p, h_cpu h)) (take n (zip ps ds'))"
    using assms by (metis take_map)
qed

lemma building_dmas:
  assumes "building b k q M k1" and "map h_cpu ds = map h_cpu (ql_dmas q)" and "acq k (own_pages (qpl_kva q \<noteq> None) (q_pages q) + N) k2"
  shows "building b k (q\<lparr>ql_dmas := ds, qpl_num_dmas := n\<rparr>) N k2"
proof -
  have l: "length ds = length (ql_dmas q)" using assms(2) by (metis length_map)
  have "map fst (zip (ql_pages q) ds) = map fst (zip (ql_pages q) (ql_dmas q))" using l by (simp add: map_fst_zip_take)
  then have "map fst (take m (zip (ql_pages q) ds)) = map fst (take m (zip (ql_pages q) (ql_dmas q)))" for m by (metis take_map)
  then have "map fst (q_pages (q\<lparr>ql_dmas := ds, qpl_num_dmas := n\<rparr>)) = map fst (q_pages q)" by (simp add: q_pages_def)
  moreover have "own_pages (qpl_kva q \<noteq> None) (q_pages (q\<lparr>ql_dmas := ds, qpl_num_dmas := n\<rparr>)) = own_pages (qpl_kva q \<noteq> None) (q_pages q)"
    using own_pages_cpu [OF assms(2)] by (simp add: q_pages_def)
  moreover have "fst ` set (q_pages (q\<lparr>ql_dmas := ds, qpl_num_dmas := n\<rparr>)) = fst ` set (q_pages q)" using calculation(1) by (metis set_map)
  ultimately show ?thesis using assms l by (auto simp: building_def)
qed

lemma wp_qpl_fill:
  assumes b: "building (k_next k1) k q (own_kva npages (qpl_kva q) + ({#(MALLOC, qpl_pages_mem q), (MALLOC, qpl_dmas_mem q), (MALLOC, qpl_self q)#} + M)) k2"
    and q: "k_next k1 \<le> k_next k2" "qpl_num_pages q = 0" "length (ql_pages q) = npages" "qpl_num_dmas q = 0"
    and a: "acq k M k1" and l: "loads_ok k" and ok: "kern_ok k"
    and Q: "\<And>q k2. qpl_ok q \<Longrightarrow> qpl_num_pages q = npages \<Longrightarrow> (\<And>p. p \<in> set (ql_pages q) \<Longrightarrow> (VM_PAGE, p) \<notin># k_live k + M) \<Longrightarrow> length (ql_pages q) = npages \<Longrightarrow>
       acq k (own_qpl q + M) k2 \<Longrightarrow> P (Some q, priv\<lparr>num_registered_pages := num_registered_pages priv + of_nat npages\<rparr>, k2)"
    and F: "\<And>n L k2. leak_ok k (qpl_kva q \<noteq> None) L \<Longrightarrow> acq k (L + M) k2 \<Longrightarrow> P (None, priv\<lparr>num_registered_pages := n\<rparr>, k2)"
  shows "wp (qpl_fill priv npages q k2) P"
proof -
  let ?m = "{#(MALLOC, qpl_pages_mem q), (MALLOC, qpl_dmas_mem q), (MALLOC, qpl_self q)#}"
  obtain e q1 k3 where L: "qpl_pages_loop npages q k2 = (e, q1, k3)" by (metis prod_cases3)
  have n: "qpl_num_pages q + npages = length (ql_pages q)" using q by simp
  note R = qpl_pages_loop [OF b q(1) n L]
  have fr: "qpl_pages_mem q1 = qpl_pages_mem q" "qpl_dmas_mem q1 = qpl_dmas_mem q" "qpl_self q1 = qpl_self q" "qpl_kva q1 = qpl_kva q"
    "qpl_num_dmas q1 = 0" "length (ql_pages q1) = npages" "length (ql_dmas q1) = length (ql_dmas q)" using R q by (auto simp: same_frame_def)
  show ?thesis
  proof (cases e)
    case (Some x)
    then obtain p j where p: "building (k_next k1) k q1 (add_mset (VM_PAGE, p) (own_kva npages (qpl_kva q) + (?m + M))) k3" "p \<notin> fst ` set (q_pages q1)"
      "qpl_kva q = None" "k_err k (KVA PAGE_SIZE) j \<noteq> None" using R by blast
    have "wp (gve_free_qpl priv q1 k3) (\<lambda>(priv, k). P (None, priv, k))"
    proof (rule wp_free_building [OF _ a ok])
      show "building (k_next k1) k q1 (own_dmas (take (qpl_num_dmas q1) (ql_dmas q1)) + (own_kva (qpl_num_pages q1) (qpl_kva q1) +
         ({#(MALLOC, qpl_pages_mem q1), (MALLOC, qpl_dmas_mem q1), (MALLOC, qpl_self q1)#} + ({#(VM_PAGE, p)#} + M)))) k3"
        using p(1,3) fr by (simp add: own_kva_def add_mset_commute)
      show "P (None, priv\<lparr>num_registered_pages := n\<rparr>, k5)" if "acq k ({#(VM_PAGE, p)#} + M) k5" for n k5
        by (rule F [OF _ that]) (use p(3,4) in \<open>auto simp: leak_ok_def\<close>)
    qed (use fr p(2) in auto)
    then show ?thesis using L Some by (simp add: qpl_fill_def split_def)
  next
    case None
    then have b3: "building (k_next k1) k q1 (own_kva npages (qpl_kva q) + (?m + M)) k3" "qpl_num_pages q1 = npages" using R q by auto
    have len: "length (ql_dmas q1) = npages" using b3 fr(6) by (simp add: building_def)
    have a3: "acq k (own_dmas (take (qpl_num_dmas q1) (ql_dmas q1)) + (own_pages (qpl_kva q1 \<noteq> None) (q_pages q1) + (own_kva npages (qpl_kva q) + (?m + M)))) k3"
      using b3(1) fr(5) by (simp add: building_def)
    have "wp (qpl_dmas_loop npages q1 (num_registered_pages priv) k3) (\<lambda>(e, q, n, k). wp (let priv = priv\<lparr>num_registered_pages := n\<rparr> in
        if e \<noteq> None then do { (priv, k) \<leftarrow> gve_free_qpl priv q k; Some (None, priv, k) } else Some (Some q, priv, k)) P)"
    proof (rule wp_qpl_dmas_loop [OF a3 l], goal_cases)
      case 1
      show ?case using fr(5) len by simp
    next
      case 2
      show ?case using fr(5) by simp
    next
      case (3 e ds i k4)
      let ?q = "q1\<lparr>ql_dmas := ds, qpl_num_dmas := qpl_num_dmas q1 + i\<rparr>"
      let ?N = "own_dmas (take (qpl_num_dmas ?q) (ql_dmas ?q)) + (own_kva npages (qpl_kva q) + (?m + M))"
      have bq: "building (k_next k1) k ?q ?N k4" by (rule building_dmas [OF b3(1) 3(1)]) (use 3(4) in \<open>simp add: ac_simps\<close>)
      have lq: "length ds = npages" using 3(1) len by (metis length_map)
      show ?case
      proof (cases e)
        case (Some x)
        have "wp (gve_free_qpl (priv\<lparr>num_registered_pages := num_registered_pages priv + of_nat i\<rparr>) ?q k4) (\<lambda>(priv, k). P (None, priv, k))"
        proof (rule wp_free_building [OF _ a ok, where L = "{#}"])
          show "P (None, priv\<lparr>num_registered_pages := num_registered_pages priv + of_nat i\<rparr>\<lparr>num_registered_pages := n\<rparr>, k5)" if "acq k ({#} + M) k5" for n k5
            using F [OF _ that] by (simp add: leak_ok_def)
        qed (use bq fr b3(2) 3(5) in \<open>simp_all add: add_mset_commute\<close>)
        then show ?thesis using Some by (simp add: split_def Let_def)
      next
        case e: None
        then have i: "i = npages" using 3(3) by simp
        have o: "acq k (own_qpl ?q + M) k4" using bq fr b3(2) by (auto simp: building_def own_qpl_def q_pages_def ac_simps add_mset_commute)
        have f: "map fst (q_pages ?q) = ql_pages q1" using fr b3(2) lq by (simp add: q_pages_def)
        have "qpl_ok ?q" using bq 3(5) f fr(6) b3(2) by (simp add: building_def qpl_ok_def)
        moreover have "(VM_PAGE, p) \<notin># k_live k + M" if "p \<in> set (ql_pages ?q)" for p
        proof -
          have "p \<in> fst ` set (q_pages ?q)" using that f by (metis gve_queue_page_list.select_convs(6) gve_queue_page_list.surjective gve_queue_page_list.update_convs(3,7) set_map)
          then have "k_next k1 \<le> p" using bq unfolding building_def by blast
          then show ?thesis by (rule no_refs [OF a ok])
        qed
        ultimately show ?thesis using Q [of ?q k4] b3(2) fr o e i by simp
      qed
    qed
    then show ?thesis using L None by (simp add: qpl_fill_def split_def)
  qed
qed

lemma wp_alloc_qpl:
  assumes a: "acq k M k1" and l: "loads_ok k" and ok: "kern_ok k"
    and Q: "\<And>q k2. qpl_ok q \<Longrightarrow> qpl_num_pages q = npages \<Longrightarrow> (\<And>p. p \<in> set (ql_pages q) \<Longrightarrow> (VM_PAGE, p) \<notin># k_live k + M) \<Longrightarrow> length (ql_pages q) = npages \<Longrightarrow>
       acq k (own_qpl q + M) k2 \<Longrightarrow> P (Some q, priv\<lparr>num_registered_pages := num_registered_pages priv + of_nat npages\<rparr>, k2)"
    and F: "\<And>n L k2. leak_ok k single L \<Longrightarrow> acq k (L + M) k2 \<Longrightarrow> P (None, priv\<lparr>num_registered_pages := n\<rparr>, k2)"
  shows "wp (gve_alloc_qpl priv qid npages single k1) P"
proof (cases "of_nat npages + num_registered_pages priv > max_registered_pages priv")
  case True
  have "P (None, priv\<lparr>num_registered_pages := num_registered_pages priv\<rparr>, k1)" by (rule F [of "{#}"]) (simp_all add: leak_ok_def a)
  then show ?thesis using True by (simp add: gve_alloc_qpl_def)
next
  case False
  obtain s k2 where s: "kalloc MALLOC k1 = (s, k2)" by (metis surj_pair)
  obtain d k3 where d: "kalloc MALLOC k2 = (d, k3)" by (metis surj_pair)
  obtain p k4 where p: "kalloc MALLOC k3 = (p, k4)" by (metis surj_pair)
  note A = acq_kalloc(1) [OF acq_kalloc(1) [OF acq_kalloc(1) [OF a s] d] p]
  have n4: "k_next k1 \<le> k_next k4" using s d p by (auto simp: kalloc_def)
  define q0 where "q0 = \<lparr>qpl_self = s, qpl_id = of_nat qid, qpl_num_dmas = 0, qpl_num_pages = 0, qpl_kva = None,
      ql_pages = replicate npages 0, ql_dmas = replicate npages null_dma, qpl_pages_mem = p, qpl_dmas_mem = d\<rparr>"
  have bld: "building (k_next k1) k (q0\<lparr>qpl_kva := kva\<rparr>) N k5" if "acq k N k5" for kva N k5
    using that by (simp add: building_def q_pages_def q0_def)
  show ?thesis
  proof (cases single)
    case True
    obtain e v k5 where v: "ktry (KVA (PAGE_SIZE * npages)) k4 = (e, v, k5)" by (metis prod_cases3)
    note V = acq_ktry [OF A v]
    have n5: "k_next k1 \<le> k_next k5" using v n4 by (auto simp: ktry_def kalloc_def split: option.splits)
    show ?thesis
    proof (cases e)
      case None
      have "wp (qpl_fill priv npages (q0\<lparr>qpl_kva := Some v\<rparr>) k5) P"
      proof (rule wp_qpl_fill [OF _ n5 _ _ _ a l ok], goal_cases)
        case 1
        show ?case by (rule bld) (use V(1) [OF None, THEN conjunct1] in \<open>simp add: q0_def own_kva_def add_mset_commute\<close>)
      next
        case (5 q k)
        then show ?case by (rule Q)
      qed (use True F in \<open>simp_all add: q0_def\<close>)
      then show ?thesis using False True None s d p v by (simp add: gve_alloc_qpl_def q0_def Let_def)
    next
      case (Some x)
      have "wp (gve_free_qpl priv (q0\<lparr>qpl_kva := None\<rparr>) k5) (\<lambda>(priv, k). P (None, priv, k))"
      proof (rule wp_free_building [OF _ a ok, where L = "{#}"], goal_cases)
        case 1
        show ?case by (rule bld) (use V(2) Some in \<open>simp add: q0_def own_kva_def add_mset_commute\<close>)
      qed (use F [of "{#}"] in \<open>simp_all add: q0_def leak_ok_def q_pages_def\<close>)
      then show ?thesis using False True Some s d p v by (simp add: gve_alloc_qpl_def q0_def Let_def split_def)
    qed
  next
    case False
    have "wp (qpl_fill priv npages (q0\<lparr>qpl_kva := None\<rparr>) k4) P"
    proof (rule wp_qpl_fill [OF _ n4 _ _ _ a l ok], goal_cases)
      case 1
      show ?case by (rule bld) (use A in \<open>simp add: q0_def own_kva_def add_mset_commute\<close>)
    next
      case (5 q k)
      then show ?case by (rule Q)
    qed (use False F in \<open>simp_all add: q0_def\<close>)
    then show ?thesis using False \<open>\<not> of_nat npages + num_registered_pages priv > max_registered_pages priv\<close> s d p
      by (simp add: gve_alloc_qpl_def q0_def Let_def)
  qed
qed

end
