(* ===== verification/Gve_Alloc_Rings.thy ===== *)
theory Gve_Alloc_Rings
  imports Gve_Alloc_Qpl
begin

text \<open>
  Correctness of the allocation of rings. What is common to transmit and receive rings, the loops over
  a range of rings with their unwinding, is proved once for any kind of ring that keeps a contract.
\<close>

section \<open>Parts of a ring\<close>

definition own_opt :: "rkind \<Rightarrow> nat option \<Rightarrow> res multiset" where
  "own_opt c p = (case p of None \<Rightarrow> {#} | Some i \<Rightarrow> {#(c, i)#})"

definition own_dma_if :: "bool \<Rightarrow> dma_handle \<Rightarrow> res multiset" where
  "own_dma_if b h = (if b then own_dma DMA_MEM h else {#})"

definition own_qpl_opt :: "gve_queue_page_list option \<Rightarrow> res multiset" where
  "own_qpl_opt q = (case q of None \<Rightarrow> {#} | Some q \<Rightarrow> own_qpl q)"

definition qpl_opt_ok :: "gve_queue_page_list option \<Rightarrow> bool" where
  "qpl_opt_ok q \<longleftrightarrow> (\<forall>q'. q = Some q' \<longrightarrow> qpl_ok q')"

definition qpl_page_set :: "gve_queue_page_list option \<Rightarrow> nat set" where
  "qpl_page_set q = (case q of None \<Rightarrow> {} | Some q \<Rightarrow> set (take (qpl_num_pages q) (ql_pages q)))"

definition qpl_cost :: "gve_queue_page_list option \<Rightarrow> nat" where
  "qpl_cost q = (case q of None \<Rightarrow> 0 | Some q \<Rightarrow> qpl_num_pages q)"

lemma part_simps [simp]:
  "own_opt c None = {#}" "own_opt c (Some i) = {#(c, i)#}" "own_dma_if False h = {#}" "own_dma_if True h = own_dma DMA_MEM h"
  "own_qpl_opt None = {#}" "own_qpl_opt (Some q) = own_qpl q" "qpl_opt_ok None" "qpl_opt_ok (Some q) = qpl_ok q"
  "qpl_page_set None = {}" "qpl_page_set (Some q) = set (take (qpl_num_pages q) (ql_pages q))" "qpl_cost None = 0" "qpl_cost (Some q) = qpl_num_pages q"
  by (simp_all add: own_opt_def own_dma_if_def own_qpl_opt_def qpl_opt_ok_def qpl_page_set_def qpl_cost_def)

lemma no_page_parts [simp]:
  "c \<noteq> VM_PAGE \<Longrightarrow> (VM_PAGE, p) \<notin># own_dma c h" "(VM_PAGE, p) \<notin># own_dma_if b h"
  "c \<noteq> VM_PAGE \<Longrightarrow> (VM_PAGE, p) \<notin># own_opt c x" "c \<noteq> VM_PAGE \<Longrightarrow> (VM_PAGE, p) \<notin># own_list c xs"
  by (auto simp: own_dma_def own_dma_if_def own_opt_def own_list_def split: option.splits)

lemma qpl_pages_own: "qpl_opt_ok q \<Longrightarrow> (VM_PAGE, p) \<in># own_qpl_opt q \<longleftrightarrow> p \<in> qpl_page_set q"
proof (cases q)
  case (Some a)
  assume "qpl_opt_ok q"
  then have "map fst (take (qpl_num_pages a) (zip (ql_pages a) (ql_dmas a))) = take (qpl_num_pages a) (ql_pages a)" using Some by (simp add: qpl_ok_def take_zip)
  then have e: "fst ` set (take (qpl_num_pages a) (zip (ql_pages a) (ql_dmas a))) = set (take (qpl_num_pages a) (ql_pages a))" by (metis set_map)
  have "(VM_PAGE, p) \<notin># own_dmas hs" for hs by (induction hs) simp_all
  then show ?thesis using Some e by (auto simp: own_qpl_def own_kva_def own_pages_page split: option.splits)
qed simp

lemma wp_free_dma_if:
  assumes "acq k (own_dma_if b h + M) k1" and "b \<Longrightarrow> h_tag h \<noteq> None" and "\<And>k2. acq k M k2 \<Longrightarrow> P k2"
  shows "wp (free_dma_if b h k1) P"
  using assms by (cases b) (auto simp: free_dma_if_def intro: wp_dma_free)

lemma wp_kfree_own:
  assumes "acq k (own_opt c p + M) k1" and "\<And>k2. acq k M k2 \<Longrightarrow> P k2"
  shows "wp (kfree_opt c p k1) P"
  by (rule wp_kfree_opt [OF assms(1)]) (use assms(2) in \<open>auto simp: own_opt_def split: option.splits\<close>)

lemma wp_free_qpl_opt:
  assumes a: "acq k (own_qpl_opt q + M) k1" and q: "qpl_opt_ok q" and u: "\<And>p. p \<in> qpl_page_set q \<Longrightarrow> (VM_PAGE, p) \<notin># k_live k + M"
    and P: "\<And>k2. acq k M k2 \<Longrightarrow> P (priv\<lparr>num_registered_pages := num_registered_pages priv - of_nat (qpl_cost q)\<rparr>, k2)"
  shows "wp (free_qpl_opt priv q k1) P"
proof (cases q)
  case None
  have "P (priv\<lparr>num_registered_pages := num_registered_pages priv - of_nat (qpl_cost q)\<rparr>, k1)" by (rule P) (use a None in simp)
  then show ?thesis using None by (simp add: free_qpl_opt_def)
next
  case (Some x)
  have "qpl_kept x (\<lambda>p. (VM_PAGE, p) \<in># k_live k + M) = {#}"
    unfolding qpl_kept_def
  proof (rule kept_none)
    fix p assume "p \<in> fst ` set (take (qpl_num_pages x) (zip (ql_pages x) (ql_dmas x)))"
    then have "p \<in> set (take (qpl_num_pages x) (ql_pages x))" by (auto simp: take_zip dest: set_zip_leftD)
    then show "(VM_PAGE, p) \<notin># k_live k + M" using u Some by simp
  qed
  then show ?thesis using Some a q P by (auto simp: free_qpl_opt_def intro!: wp_free_qpl [of k x M])
qed

section \<open>A range of rings\<close>

text \<open>
  The contract of a kind of ring: an allocation into an empty ring either succeeds with what \<open>own\<close> says, pages
  with new identifiers included, or fails with nothing kept; a release gives it all back.
\<close>

locale ring_kind =
  fixes alloc_ring :: "gve_priv \<Rightarrow> nat \<Rightarrow> 'r \<Rightarrow> kern \<Rightarrow> (err \<times> 'r \<times> gve_priv \<times> kern) option"
    and free_ring :: "gve_priv \<Rightarrow> 'r \<Rightarrow> kern \<Rightarrow> ('r \<times> gve_priv \<times> kern) option"
    and own :: "gve_queue_format \<Rightarrow> 'r \<Rightarrow> res multiset"
    and ok :: "'r \<Rightarrow> bool"
    and null :: "'r \<Rightarrow> bool"
    and qpl :: "'r \<Rightarrow> gve_queue_page_list option"
    and env :: "kern \<Rightarrow> gve_queue_format \<Rightarrow> bool"
  assumes alloc: "acq k M k1 \<Longrightarrow> kern_ok k \<Longrightarrow> env k (queue_format priv) \<Longrightarrow> null r \<Longrightarrow>
      (\<And>r' k2. ok r' \<Longrightarrow> (\<And>p. p \<in> qpl_page_set (qpl r') \<Longrightarrow> (VM_PAGE, p) \<notin># k_live k + M) \<Longrightarrow> acq k (own (queue_format priv) r' + M) k2 \<Longrightarrow>
         P (None, r', priv\<lparr>num_registered_pages := num_registered_pages priv + of_nat (qpl_cost (qpl r'))\<rparr>, k2)) \<Longrightarrow>
      (\<And>e r' n k2. acq k M k2 \<Longrightarrow> P (Some e, r', priv\<lparr>num_registered_pages := n\<rparr>, k2)) \<Longrightarrow> wp (alloc_ring priv i r k1) P"
    and free: "acq k (own (queue_format priv) r + M) k1 \<Longrightarrow> ok r \<Longrightarrow> (\<And>p. p \<in> qpl_page_set (qpl r) \<Longrightarrow> (VM_PAGE, p) \<notin># k_live k + M) \<Longrightarrow>
      (\<And>r' k2. acq k M k2 \<Longrightarrow> Q (r', priv\<lparr>num_registered_pages := num_registered_pages priv - of_nat (qpl_cost (qpl r))\<rparr>, k2)) \<Longrightarrow> wp (free_ring priv r k1) Q"
    and own_page: "ok r \<Longrightarrow> (VM_PAGE, p) \<in># own f r \<longleftrightarrow> p \<in> qpl_page_set (qpl r)"
begin

definition own_rings :: "gve_queue_format \<Rightarrow> 'r list \<Rightarrow> nat list \<Rightarrow> res multiset" where
  "own_rings f rs js = sum_list (map (\<lambda>i. own f (rs ! i)) js)"

definition pages :: "'r list \<Rightarrow> nat \<Rightarrow> nat set" where
  "pages rs i = qpl_page_set (qpl (rs ! i))"

definition rings_ok :: "res multiset \<Rightarrow> 'r list \<Rightarrow> nat list \<Rightarrow> bool" where
  "rings_ok N rs js \<longleftrightarrow> distinct js \<and> (\<forall>i \<in> set js. i < length rs \<and> ok (rs ! i) \<and> (\<forall>p \<in> pages rs i. (VM_PAGE, p) \<notin># N) \<and>
     (\<forall>j \<in> set js. i \<noteq> j \<longrightarrow> pages rs i \<inter> pages rs j = {}))"

lemma own_rings_simps [simp]:
  "own_rings f rs [] = {#}" "own_rings f rs (i # js) = own f (rs ! i) + own_rings f rs js" "own_rings f rs (js @ js') = own_rings f rs js + own_rings f rs js'"
  by (simp_all add: own_rings_def)

lemma own_rings_update: "i \<notin> set js \<Longrightarrow> own_rings f (rs[i := r]) js = own_rings f rs js"
  by (induction js) auto

lemma own_rings_page: "\<forall>i \<in> set js. ok (rs ! i) \<Longrightarrow> (VM_PAGE, p) \<in># own_rings f rs js \<longleftrightarrow> (\<exists>i \<in> set js. p \<in> pages rs i)"
  by (induction js) (auto simp: own_page pages_def)

lemma rings_ok_tl: "rings_ok N rs (i # js) \<Longrightarrow> rings_ok N rs js"
  by (auto simp: rings_ok_def)

lemma nth_other: "i \<notin> set js \<Longrightarrow> j \<in> set js \<Longrightarrow> rs[i := r] ! j = rs ! j"
  by (metis nth_list_update_neq)

lemma rings_ok_update: "i \<notin> set js \<Longrightarrow> rings_ok N (rs[i := r]) js = rings_ok N rs js"
  by (auto simp: rings_ok_def pages_def nth_other [of i js])

lemma wp_free_loop:
  assumes "acq k (own_rings (queue_format priv) rs js + M) k1" and "rings_ok (k_live k + M) rs js"
    and "\<And>rs' k2. length rs' = length rs \<Longrightarrow> acq k M k2 \<Longrightarrow>
      P (rs', priv\<lparr>num_registered_pages := num_registered_pages priv - of_nat (sum_list (map (\<lambda>i. qpl_cost (qpl (rs ! i))) js))\<rparr>, k2)"
  shows "wp (free_rings_loop free_ring js (rs, priv, k1)) P"
  using assms
proof (induction js arbitrary: rs priv k1)
  case Nil
  have "P (rs, priv\<lparr>num_registered_pages := num_registered_pages priv - of_nat (sum_list (map (\<lambda>i. qpl_cost (qpl (rs ! i))) []))\<rparr>, k1)"
    by (rule Nil.prems(3)) (use Nil.prems(1) in simp_all)
  then show ?case by simp
next
  case (Cons i js)
  have a: "acq k (own (queue_format priv) (rs ! i) + (own_rings (queue_format priv) rs js + M)) k1" using Cons.prems(1) by (simp add: ac_simps)
  have r: "ok (rs ! i)" "i \<notin> set js" "\<forall>j \<in> set js. ok (rs ! j)" using Cons.prems(2) by (auto simp: rings_ok_def)
  have u: "(VM_PAGE, p) \<notin># k_live k + (own_rings (queue_format priv) rs js + M)" if "p \<in> qpl_page_set (qpl (rs ! i))" for p
    using Cons.prems(2) that own_rings_page [OF r(3)] r(2) by (fastforce simp: rings_ok_def pages_def)
  have "wp (free_ring priv (rs ! i) k1) (\<lambda>(r, priv, k). wp (free_rings_loop free_ring js (rs[i := r], priv, k)) P)"
  proof (rule free [OF a r(1) u], assumption, simp, rule Cons.IH, goal_cases)
    case (1 r' k2)
    then show ?case using own_rings_update [OF r(2)] by simp
  next
    case (2 r' k2)
    then show ?case using rings_ok_update [OF r(2)] rings_ok_tl [OF Cons.prems(2)] by simp
  next
    case (3 r' k2 rs' k3)
    have "sum_list (map (\<lambda>j. qpl_cost (qpl (rs[i := r'] ! j))) js) = sum_list (map (\<lambda>j. qpl_cost (qpl (rs ! j))) js)"
      using r(2) by (intro arg_cong [of _ _ sum_list] map_cong) (auto simp: nth_other)
    then show ?case using 3 Cons.prems(3) [of rs' k3] by (simp add: diff_diff_eq)
  qed
  then show ?case by (simp add: split_def)
qed

lemma wp_alloc_loop:
  assumes "acq k (own_rings (queue_format priv) rs [start..<i] + M) k1" and "rings_ok (k_live k + M) rs [start..<i]"
    and "kern_ok k" and "env k (queue_format priv)" and "\<forall>j \<in> {i..<stop}. null (rs ! j)" and "start \<le> i" "i \<le> stop" "stop \<le> length rs"
    and "\<And>rs' k2. length rs' = length rs \<Longrightarrow> \<forall>j < i. rs' ! j = rs ! j \<Longrightarrow> rings_ok (k_live k + M) rs' [start..<stop] \<Longrightarrow> acq k (own_rings (queue_format priv) rs' [start..<stop] + M) k2 \<Longrightarrow>
      P (None, rs', priv\<lparr>num_registered_pages := num_registered_pages priv + of_nat (sum_list (map (\<lambda>i. qpl_cost (qpl (rs' ! i))) [i..<stop]))\<rparr>, k2)"
    and "\<And>e rs' n k2. length rs' = length rs \<Longrightarrow> acq k M k2 \<Longrightarrow> P (Some e, rs', priv\<lparr>num_registered_pages := n\<rparr>, k2)"
  shows "wp (alloc_rings_loop alloc_ring free_ring start [i..<stop] (rs, priv, k1)) P"
  using assms
proof (induction "stop - i" arbitrary: i rs priv k1)
  case 0
  then have e: "i = stop" by simp
  have "P (None, rs, priv\<lparr>num_registered_pages := num_registered_pages priv + of_nat (sum_list (map (\<lambda>i. qpl_cost (qpl (rs ! i))) [i..<stop]))\<rparr>, k1)"
    by (rule 0(10)) (use 0 e in simp_all)
  then show ?case using e by simp
next
  case (Suc n)
  let ?f = "queue_format priv"
  have i: "i < stop" "n = stop - Suc i" using Suc.hyps(2) by auto
  have "wp (alloc_ring priv i (rs ! i) k1) (\<lambda>(e, r, priv, k). wp (let rs = rs[i := r] in
      if e \<noteq> None then do { (rs, priv, k) \<leftarrow> free_rings_loop free_ring [start..<i] (rs, priv, k); Some (e, rs, priv, k) }
      else alloc_rings_loop alloc_ring free_ring start [Suc i..<stop] (rs, priv, k)) P)"
  proof (rule alloc [OF Suc.prems(1,3,4)], goal_cases)
    case 1
    then show ?case using Suc.prems(5) i(1) by simp
  next
    case (2 r k2)
    let ?rs = "rs[i := r]" and ?p = "priv\<lparr>num_registered_pages := num_registered_pages priv + of_nat (qpl_cost (qpl r))\<rparr>"
    have l: "i < length rs" using i(1) Suc.prems(8) by simp
    have o: "own_rings ?f ?rs [start..<i] = own_rings ?f rs [start..<i]" by (rule own_rings_update) simp
    have s: "[start..<Suc i] = [start..<i] @ [i]" using Suc.prems(6) by simp
    have ro: "rings_ok (k_live k + M) ?rs [start..<Suc i]"
    proof -
      have old: "\<forall>j \<in> set [start..<i]. ok (rs ! j)" using Suc.prems(2) by (auto simp: rings_ok_def)
      have "\<forall>j \<in> set [start..<i]. \<forall>p \<in> pages rs j. p \<notin> qpl_page_set (qpl r)" using 2(2) own_rings_page [OF old, of _ ?f] by auto
      then show ?thesis unfolding s using Suc.prems(2) 2(1,2) l by (force simp: rings_ok_def pages_def)
    qed
    have "wp (alloc_rings_loop alloc_ring free_ring start [Suc i..<stop] (?rs, ?p, k2)) P"
    proof (rule Suc.hyps(1), goal_cases)
      case (10 rs' k3)
      have "[i..<stop] = i # [Suc i..<stop]" using i by (simp add: upt_conv_Cons)
      moreover have "rs' ! i = r" "\<forall>j < i. rs' ! j = rs ! j" using 10(2) l by auto
      ultimately show ?case using Suc.prems(9) [of rs' k3] 10 by (simp add: add.assoc)
    next
      case (11 e rs' n k3)
      then show ?case by (auto intro: Suc.prems(10))
    qed (use i 2 o s ro Suc.prems in \<open>auto simp: ac_simps\<close>)
    then show ?case by simp
  next
    case (3 e r n k2)
    let ?p = "priv\<lparr>num_registered_pages := n\<rparr>"
    have "wp (free_rings_loop free_ring [start..<i] (rs[i := r], ?p, k2)) (\<lambda>(rs, priv, k). P (Some e, rs, priv, k))"
    proof (rule wp_free_loop [where k = k and M = M], goal_cases)
      case 1
      show ?case using 3 own_rings_update [of i "[start..<i]"] by simp
    next
      case 2
      show ?case using Suc.prems(2) rings_ok_update [of i "[start..<i]"] by simp
    next
      case (3 rs' k3)
      then show ?case by (auto intro: Suc.prems(10))
    qed
    then show ?case by (simp add: split_def)
  qed
  then show ?case using i by (simp add: split_def upt_conv_Cons)
qed

text \<open>Allocating a range of empty rings, and releasing it again.\<close>

lemma alloc_free_loop:
  assumes "kern_ok k" and "env k (queue_format priv)" and "start \<le> stop" and "stop \<le> length rs" and "\<forall>i \<in> {start..<stop}. null (rs ! i)"
  shows "\<exists>e rs' priv' k'. alloc_rings_loop alloc_ring free_ring start [start..<stop] (rs, priv, k) = Some (e, rs', priv', k') \<and>
    (e \<noteq> None \<longrightarrow> k_live k' = k_live k) \<and>
    (e = None \<longrightarrow> k_live k' = k_live k + sum_list (map (\<lambda>i. own (queue_format priv) (rs' ! i)) [start..<stop]) \<and>
      (\<exists>rs'' priv'' k''. free_rings_loop free_ring [start..<stop] (rs', priv', k') = Some (rs'', priv'', k'') \<and>
         k_live k'' = k_live k \<and> num_registered_pages priv'' = num_registered_pages priv))"
proof -
  let ?f = "queue_format priv"
  have "wp (alloc_rings_loop alloc_ring free_ring start [start..<stop] (rs, priv, k)) (\<lambda>(e, rs', priv', k').
     (e \<noteq> None \<longrightarrow> k_live k' = k_live k) \<and>
     (e = None \<longrightarrow> k_live k' = k_live k + sum_list (map (\<lambda>i. own ?f (rs' ! i)) [start..<stop]) \<and>
      wp (free_rings_loop free_ring [start..<stop] (rs', priv', k')) (\<lambda>(rs'', priv'', k'').
         k_live k'' = k_live k \<and> num_registered_pages priv'' = num_registered_pages priv)))"
  proof (rule wp_alloc_loop [where k = k and M = "{#}"], goal_cases)
    case (9 rs' k')
    let ?p = "priv\<lparr>num_registered_pages := num_registered_pages priv + of_nat (sum_list (map (\<lambda>i. qpl_cost (qpl (rs' ! i))) [start..<stop]))\<rparr>"
    have "wp (free_rings_loop free_ring [start..<stop] (rs', ?p, k')) (\<lambda>(rs'', priv'', k''). k_live k'' = k_live k \<and> num_registered_pages priv'' = num_registered_pages priv)"
      by (rule wp_free_loop [where k = k and M = "{#}"]) (use 9 in \<open>simp_all add: acq_def\<close>)
    then show ?case using 9 by (simp add: acq_def own_rings_def)
  next
    case (10 e rs' n k')
    then show ?case by (simp add: acq_def)
  qed (use assms in \<open>simp_all add: rings_ok_def\<close>)
  then show ?thesis by (fastforce simp: wp_def)
qed

end

end
