(* ===== verification/Gve_Alloc_Tx.thy ===== *)
theory Gve_Alloc_Tx
  imports Gve_Alloc_Rings
begin

text \<open>
  The transmit and receive rings keep the contract of \<open>ring_kind\<close>.
\<close>

section \<open>Buffers with maps\<close>

definition own_mbufs :: "map_buf list \<Rightarrow> res multiset" where
  "own_mbufs bs = own_list MBUF (map mb_mbuf bs)"

definition own_maps :: "map_buf list \<Rightarrow> res multiset" where
  "own_maps bs = own_list DMA_MAP (map (\<lambda>b. if mb_mapped b then Some (mb_dmamap b) else None) bs)"

lemma own_bufs_simps [simp]:
  "own_mbufs [] = {#}" "own_mbufs (b # bs) = own_opt MBUF (mb_mbuf b) + own_mbufs bs"
  "own_maps [] = {#}" "own_maps (b # bs) = (if mb_mapped b then {#(DMA_MAP, mb_dmamap b)#} else {#}) + own_maps bs"
  "own_mbufs (replicate n null_buf) = {#}" "own_maps (replicate n null_buf) = {#}"
  by (cases "mb_mbuf b"; simp_all add: own_mbufs_def own_maps_def null_buf_def)+

lemma wp_free_mbufs:
  assumes "acq k (own_mbufs bs + M) k1" and "\<And>bs' k2. own_maps bs' = own_maps bs \<Longrightarrow> acq k M k2 \<Longrightarrow> P (bs', k2)"
  shows "wp (free_mbufs bs k1) P"
  using assms
proof (induction bs arbitrary: k1 P)
  case (Cons b bs)
  have "acq k (own_opt MBUF (mb_mbuf b) + (own_mbufs bs + M)) k1" using Cons.prems(1) by (simp add: ac_simps)
  then show ?case unfolding free_mbufs.simps wp_bind
    by (rule wp_kfree_own) (rule Cons.IH, assumption, simp add: Cons.prems(2))
qed simp

lemma wp_free_maps:
  assumes "acq k (own_maps bs + M) k1" and "\<And>k2. acq k M k2 \<Longrightarrow> P k2"
  shows "wp (free_maps bs k1) P"
  using assms
proof (induction bs arbitrary: k1)
  case (Cons b bs)
  then show ?case by (cases "mb_mapped b") (auto intro!: wp_kfree [OF Cons.prems(1)])
qed simp

lemma create_maps:
  assumes "acq k M k1" and "create_maps bs k1 = (e, bs', k2)" and "own_maps bs = {#}" "own_mbufs bs = {#}"
  shows "acq k (own_maps bs' + M) k2 \<and> own_mbufs bs' = {#} \<and> (e \<noteq> None \<longrightarrow> (\<exists>j. k_err k DMA_MAP j \<noteq> None))"
  using assms
proof (induction bs arbitrary: M k1 e bs' k2)
  case (Cons b bs)
  obtain e1 m k3 where 1: "ktry DMA_MAP k1 = (e1, m, k3)" by (metis prod_cases3)
  obtain e2 bs2 k4 where 2: "create_maps bs k3 = (e2, bs2, k4)" by (metis prod_cases3)
  have n: "\<not> mb_mapped b" "own_maps bs = {#}" "own_mbufs bs = {#}" "mb_mbuf b = None" using Cons.prems(3,4) by (auto split: if_splits option.splits simp: own_opt_def)
  note T = acq_ktry [OF Cons.prems(1) 1]
  show ?case
  proof (cases e1)
    case None
    then show ?thesis using Cons.IH [OF T(1) [OF None, THEN conjunct1] 2 n(2,3)] Cons.prems(2) 1 2 n by auto
  next
    case (Some x)
    then show ?thesis using T(2,3) Cons.prems(2) 1 n by auto
  qed
qed simp

lemma no_page_bufs [simp]: "(VM_PAGE, p) \<notin># own_mbufs bs" "(VM_PAGE, p) \<notin># own_maps bs"
  by (simp_all add: own_mbufs_def own_maps_def)

text \<open>Entries with their array; the mbufs count unless \<open>mb\<close> is false, the maps while the tag exists.\<close>

definition own_bufs :: "bool \<Rightarrow> bool \<Rightarrow> (nat \<times> map_buf list) option \<Rightarrow> res multiset" where
  "own_bufs mb tag x = (case x of None \<Rightarrow> {#} | Some (a, bs) \<Rightarrow>
     add_mset (MALLOC, a) ((if mb then own_mbufs bs else {#}) + (if tag then own_maps bs else {#})))"

lemma own_bufs_simp [simp]: "own_bufs mb tag None = {#}"
  "own_bufs mb tag (Some (a, bs)) = add_mset (MALLOC, a) ((if mb then own_mbufs bs else {#}) + (if tag then own_maps bs else {#}))"
  by (simp_all add: own_bufs_def)

lemma no_page_own_bufs [simp]: "(VM_PAGE, p) \<notin># own_bufs mb tag x"
  by (auto simp: own_bufs_def split: option.splits)

lemma wp_free_bufs:
  assumes "acq k (own_bufs mb tag x + M) k1" and P: "\<And>k2. acq k M k2 \<Longrightarrow> P k2"
  shows "wp (case x of None \<Rightarrow> Some k1 | Some (a, bs) \<Rightarrow> do {
       (bs, k) \<leftarrow> (if mb then free_mbufs bs k1 else Some (bs, k1));
       k \<leftarrow> (if tag then free_maps bs k else Some k);
       kfree MALLOC a k }) P"
proof (cases x)
  case (Some y)
  obtain a bs where y: "y = (a, bs)" by fastforce
  let ?T = "if tag then own_maps bs else {#}"
  have k1: "acq k ((if mb then own_mbufs bs else {#}) + (?T + add_mset (MALLOC, a) M)) k1" using assms(1) Some y by (simp add: ac_simps)
  have fin: "wp (if tag then free_maps bs' k2 else Some k2) (\<lambda>k. wp (kfree MALLOC a k) P)"
    if "own_maps bs' = own_maps bs" "acq k (?T + add_mset (MALLOC, a) M) k2" for bs' k2
  proof -
    have last: "wp (kfree MALLOC a k3) P" if "acq k (add_mset (MALLOC, a) M) k3" for k3 by (rule wp_kfree [OF that]) (simp_all add: P)
    then show ?thesis using that by (cases tag) (auto intro!: wp_free_maps [of k bs' "add_mset (MALLOC, a) M"])
  qed
  show ?thesis
  proof (cases mb)
    case True
    have "wp (free_mbufs bs k1) (\<lambda>(bs, k). wp (if tag then free_maps bs k else Some k) (\<lambda>k. wp (kfree MALLOC a k) P))"
      by (rule wp_free_mbufs [where k = k and M = "?T + add_mset (MALLOC, a) M"]) (use k1 True fin in simp_all)
    then show ?thesis using Some y True by (simp add: split_def)
  next
    case False
    then show ?thesis using Some y fin [OF refl] k1 by simp
  qed
qed (use assms in simp)

section \<open>Transmit rings\<close>

definition own_txc :: "tx_res \<Rightarrow> res multiset" where
  "own_txc tx = own_list COUNTER (tr_stats tx) + (own_opt MTX (tr_mtx tx) + (own_dma_if (tr_q_resources tx) (tr_q_resources_mem tx) + own_opt BUF_RING (tr_br tx)))"

definition own_txf :: "gve_queue_format \<Rightarrow> tx_res \<Rightarrow> res multiset" where
  "own_txf f tx = own_dma_if (tr_desc_ring tx) (tr_desc_ring_mem tx) +
     ((if gve_is_gqi f then own_opt MALLOC (tr_info tx)
       else own_dma_if (tr_compl_ring tx) (tr_compl_ring_mem tx) +
         (own_bufs True (\<not> gve_is_qpl f \<and> tr_buf_dmatag tx \<noteq> None) (tr_pending_pkts tx) +
          (if gve_is_qpl f then own_opt MALLOC (tr_qpl_bufs tx) else own_opt DMA_TAG (tr_buf_dmatag tx)))) + own_qpl_opt (tr_qpl tx))"

definition own_tx :: "gve_queue_format \<Rightarrow> tx_res \<Rightarrow> res multiset" where
  "own_tx f tx = own_txc tx + own_txf f tx"

definition tx_ok :: "tx_res \<Rightarrow> bool" where
  "tx_ok tx \<longleftrightarrow> (tr_desc_ring tx \<longrightarrow> h_tag (tr_desc_ring_mem tx) \<noteq> None) \<and> (tr_compl_ring tx \<longrightarrow> h_tag (tr_compl_ring_mem tx) \<noteq> None) \<and>
     (tr_q_resources tx \<longrightarrow> h_tag (tr_q_resources_mem tx) \<noteq> None) \<and> qpl_opt_ok (tr_qpl tx)"

definition txc_null :: "tx_res \<Rightarrow> bool" where
  "txc_null tx \<longleftrightarrow> (\<exists>n. tr_stats tx = replicate n None) \<and> tr_mtx tx = None \<and> \<not> tr_q_resources tx \<and> tr_br tx = None"

definition txf_null :: "tx_res \<Rightarrow> bool" where
  "txf_null tx \<longleftrightarrow> \<not> tr_desc_ring tx \<and> tr_info tx = None \<and> tr_qpl tx = None \<and> \<not> tr_compl_ring tx \<and> tr_pending_pkts tx = None \<and>
     tr_buf_dmatag tx = None \<and> tr_qpl_bufs tx = None"

lemma tx_null_own [simp]: "txf_null tx \<Longrightarrow> own_txf f tx = {#}" "txc_null tx \<Longrightarrow> own_txc tx = {#}" "txf_null tx \<Longrightarrow> txc_null tx \<Longrightarrow> tx_ok tx"
  by (auto simp: txf_null_def own_txf_def txc_null_def own_txc_def tx_ok_def)

lemma own_tx_page: "tx_ok tx \<Longrightarrow> (VM_PAGE, p) \<in># own_tx f tx \<longleftrightarrow> p \<in> qpl_page_set (tr_qpl tx)"
  using qpl_pages_own [of "tr_qpl tx" p] by (auto simp: own_tx_def own_txc_def own_txf_def tx_ok_def)

text \<open>What is there in one addressing mode only.\<close>

lemma free_if:
  "acq k (own_opt c (if b then None else p) + M) k1 \<Longrightarrow> (\<And>k2. acq k M k2 \<Longrightarrow> P k2) \<Longrightarrow> wp (if \<not> b then kfree_opt c p k1 else Some k1) P"
  "acq k (own_opt c (if b then p else None) + M) k1 \<Longrightarrow> (\<And>k2. acq k M k2 \<Longrightarrow> P k2) \<Longrightarrow> wp (if b then kfree_opt c p k1 else Some k1) P"
  by (cases b; auto intro: wp_kfree_own)+

definition tx_released :: "gve_queue_format \<Rightarrow> tx_res \<Rightarrow> tx_res" where
  "tx_released f tx = (if gve_is_gqi f then tx\<lparr>tr_desc_ring := False, tr_info := None, tr_qpl := None\<rparr>
     else tx\<lparr>tr_desc_ring := False, tr_compl_ring := False, tr_pending_pkts := None,
              tr_qpl_bufs := (if gve_is_qpl f then None else tr_qpl_bufs tx), tr_qpl := None\<rparr>)"

lemma wp_tx_free_fmt:
  assumes a: "acq k (own_txf (queue_format priv) tx + M) k1" and o: "tx_ok tx"
    and u: "\<And>p. p \<in> qpl_page_set (tr_qpl tx) \<Longrightarrow> (VM_PAGE, p) \<notin># k_live k + M"
    and P: "\<And>k2. acq k M k2 \<Longrightarrow> P (tx_released (queue_format priv) tx, priv\<lparr>num_registered_pages := num_registered_pages priv - of_nat (qpl_cost (tr_qpl tx))\<rparr>, k2)"
  shows "wp (if gve_is_gqi (queue_format priv) then gve_tx_free_ring_gqi priv tx k1 else gve_tx_free_ring_dqo priv tx k1) P"
proof -
  let ?f = "queue_format priv"
  note ok = o [unfolded tx_ok_def]
  show ?thesis
  proof (cases "gve_is_gqi ?f")
    case True
    have a': "acq k (own_dma_if (tr_desc_ring tx) (tr_desc_ring_mem tx) + (own_opt MALLOC (tr_info tx) + (own_qpl_opt (tr_qpl tx) + M))) k1"
      using a True by (simp add: own_txf_def ac_simps)
    have "wp (gve_tx_free_ring_gqi priv tx k1) P" unfolding gve_tx_free_ring_gqi_def wp_bind
      apply (rule wp_free_dma_if [OF a'], use ok in blast)
      apply (rule wp_kfree_own, assumption)
      apply (rule wp_free_qpl_opt, assumption, use ok in blast, erule u)
      using P True by (simp add: tx_released_def)
    then show ?thesis using True by simp
  next
    case False
    let ?q = "gve_is_qpl ?f"
    let ?B = "own_bufs True (\<not> ?q \<and> tr_buf_dmatag tx \<noteq> None) (tr_pending_pkts tx)"
    let ?T = "own_opt DMA_TAG (if ?q then None else tr_buf_dmatag tx)" and ?V = "own_opt MALLOC (if ?q then tr_qpl_bufs tx else None)"
    have a': "acq k (own_dma_if (tr_desc_ring tx) (tr_desc_ring_mem tx) + (own_dma_if (tr_compl_ring tx) (tr_compl_ring_mem tx) + (?B + (?T + (?V + (own_qpl_opt (tr_qpl tx) + M)))))) k1"
      using a False by (simp add: own_txf_def ac_simps split: if_splits)
    have "wp (gve_tx_free_ring_dqo priv tx k1) P" unfolding gve_tx_free_ring_dqo_def wp_bind Let_def
      apply (rule wp_free_dma_if [OF a'], use ok in blast)
      apply (rule wp_free_dma_if, assumption, use ok in blast)
      apply (rule wp_free_bufs [where mb = True, simplified if_True], assumption)
      apply (rule free_if(1), assumption)
      apply (rule free_if(2), assumption)
      apply (rule wp_free_qpl_opt, assumption, use ok in blast, erule u)
      using P False by (simp add: tx_released_def)
    then show ?thesis using False by simp
  qed
qed

lemma wp_tx_free:
  assumes a: "acq k (own_tx (queue_format priv) tx + M) k1" and o: "tx_ok tx"
    and u: "\<And>p. p \<in> qpl_page_set (tr_qpl tx) \<Longrightarrow> (VM_PAGE, p) \<notin># k_live k + M"
    and P: "\<And>tx' k2. acq k M k2 \<Longrightarrow> P (tx', priv\<lparr>num_registered_pages := num_registered_pages priv - of_nat (qpl_cost (tr_qpl tx))\<rparr>, k2)"
  shows "wp (gve_tx_free_ring priv tx k1) P"
proof -
  let ?f = "queue_format priv"
  let ?tx = "tx\<lparr>tr_mtx := None, tr_q_resources := False, tr_br := None\<rparr>"
  have a': "acq k (own_list COUNTER (tr_stats tx) + (own_opt MTX (tr_mtx tx) + (own_dma_if (tr_q_resources tx) (tr_q_resources_mem tx) +
      (own_opt BUF_RING (tr_br tx) + (own_txf ?f tx + M))))) k1" using a by (simp add: own_tx_def own_txc_def ac_simps)
  have e: "own_txf ?f ?tx = own_txf ?f tx" by (simp add: own_txf_def)
  have o': "tx_ok ?tx" "tr_q_resources tx \<Longrightarrow> h_tag (tr_q_resources_mem tx) \<noteq> None" using o by (simp_all add: tx_ok_def)
  show ?thesis unfolding gve_tx_free_ring_def wp_bind Let_def
    apply (rule wp_free_counters [OF a'])
    apply (rule wp_kfree_own, assumption)
    apply (rule wp_free_dma_if, assumption, erule o'(2))
    apply (rule wp_kfree_own, assumption)
    apply (rule wp_tx_free_fmt [where k = k and M = M], simp add: e, rule o'(1), rule u, simp)
    using P by simp
qed

text \<open>Allocation of the part that depends on the format.\<close>

definition no_kva_failure :: "kern \<Rightarrow> bool" where
  "no_kva_failure k \<longleftrightarrow> (\<forall>j. k_err k (KVA PAGE_SIZE) j = None)"

lemma leak_none: "no_kva_failure k \<Longrightarrow> leak_ok k single L \<Longrightarrow> L = {#}"
  by (auto simp: no_kva_failure_def leak_ok_def)

lemma wp_tx_alloc_gqi:
  assumes a: "acq k M k1" and ok: "kern_ok k" and l: "loads_ok k" "no_kva_failure k" and n: "txf_null tx" "txc_null tx" and g: "gve_is_gqi (queue_format priv)"
    and Q: "\<And>tx' k2. tx_ok tx' \<Longrightarrow> txc_null tx' \<Longrightarrow> (\<And>p. p \<in> qpl_page_set (tr_qpl tx') \<Longrightarrow> (VM_PAGE, p) \<notin># k_live k + M) \<Longrightarrow>
       acq k (own_txf (queue_format priv) tx' + M) k2 \<Longrightarrow> P (None, tx', priv\<lparr>num_registered_pages := num_registered_pages priv + of_nat (qpl_cost (tr_qpl tx'))\<rparr>, k2)"
    and F: "\<And>e tx' n k2. txf_null tx' \<Longrightarrow> txc_null tx' \<Longrightarrow> acq k M k2 \<Longrightarrow> P (Some e, tx', priv\<lparr>num_registered_pages := n\<rparr>, k2)"
  shows "wp (gve_tx_alloc_ring_gqi priv i tx k1) P"
proof -
  have unwind: "wp (gve_tx_free_ring_gqi priv' tx' k2) (\<lambda>x. P (Some e, x))"
    if "acq k (own_txf (queue_format priv) tx' + M) k2" "tx_ok tx'" "txf_null (tx'\<lparr>tr_desc_ring := False\<rparr>)" "txc_null tx'" "priv' = priv\<lparr>num_registered_pages := n\<rparr>" for tx' k2 e n priv'
  proof -
    have "wp (if gve_is_gqi (queue_format priv') then gve_tx_free_ring_gqi priv' tx' k2 else gve_tx_free_ring_dqo priv' tx' k2) (\<lambda>x. P (Some e, x))"
    proof (rule wp_tx_free_fmt [where k = k and M = M], goal_cases)
      case (4 k3)
      then show ?case using that g by (auto simp: tx_released_def txf_null_def txc_null_def intro!: F)
    qed (use that in \<open>simp_all add: txf_null_def\<close>)
    then show ?thesis using g that(5) by simp
  qed
  have same: "priv = priv\<lparr>num_registered_pages := num_registered_pages priv\<rparr>" by simp
  show ?thesis unfolding gve_tx_alloc_ring_gqi_def wp_bind
  proof (rule wp_dma_alloc [OF a l(1)], goal_cases)
    case (1 h k2)
    let ?tx = "tx\<lparr>tr_desc_ring_mem := h, tr_desc_ring := True\<rparr>"
    have "wp (gve_alloc_qpl priv i (unat (tx_desc_cnt priv) div GVE_QPL_DIVISOR) True k2) (\<lambda>(q, priv, k). wp (case q of
         None \<Rightarrow> do { (tx, priv, k) \<leftarrow> gve_tx_free_ring_gqi priv (?tx\<lparr>tr_qpl := q\<rparr>) k; Some (Some ENOMEM, tx, priv, k) }
       | Some q' \<Rightarrow> (let (a, k) = kalloc MALLOC k in Some (None, ?tx\<lparr>tr_qpl := q, tr_fifo := gve_tx_fifo_init (qpl_num_pages q') (tr_fifo tx), tr_info := Some a\<rparr>, priv, k))) P)"
    proof (rule wp_alloc_qpl [OF 1(2) l(1) ok], goal_cases)
      case (1 q k3)
      obtain b k4 where b: "kalloc MALLOC k3 = (b, k4)" by (metis surj_pair)
      let ?t = "?tx\<lparr>tr_qpl := Some q, tr_fifo := gve_tx_fifo_init (qpl_num_pages q) (tr_fifo tx), tr_info := Some b\<rparr>"
      have "acq k (own_txf (queue_format priv) ?t + M) k4" using acq_kalloc(1) [OF 1(5) b] g by (simp add: own_txf_def ac_simps)
      moreover have "tx_ok ?t" "txc_null ?t" using 1(1) \<open>h_tag h \<noteq> None\<close> n by (simp_all add: tx_ok_def txf_null_def txc_null_def)
      moreover have "(VM_PAGE, p) \<notin># k_live k + M" if "p \<in> qpl_page_set (tr_qpl ?t)" for p
        using 1(3) [of p] that by (auto dest: in_set_takeD)
      ultimately show ?case using Q [of ?t k4] b 1(2) by simp
    next
      case (2 nr L k3)
      then have "L = {#}" using leak_none l(2) by blast
      then have "acq k (own_dma DMA_MEM h + M) k3" using 2(2) by simp
      then show ?case using 1(1) n by (simp add: split_def) (rule unwind [where n = nr], auto simp: own_txf_def tx_ok_def txf_null_def txc_null_def)
    qed
    then show ?case by (simp add: split_def Let_def cong: option.case_cong)
  next
    case (2 e h k2)
    then show ?case using n by (simp add: split_def)
      (rule unwind [OF _ _ _ _ same], auto simp: own_txf_def tx_ok_def txf_null_def txc_null_def)
  qed
qed

lemma rda_fields:
  assumes a: "acq k (own_txf f tx + M) k1" "tx_ok tx" "txc_null tx" and r: "gve_tx_alloc_rda_fields_dqo tx k1 = (e, tx', k2)"
    and n: "tr_buf_dmatag tx = None" "tr_pending_pkts tx = Some (b, replicate m null_buf)" and f: "\<not> gve_is_qpl f" "\<not> gve_is_gqi f"
  shows "acq k (own_txf f tx' + M) k2 \<and> tx_ok tx' \<and> txc_null tx' \<and> tr_qpl tx' = tr_qpl tx"
proof -
  obtain e1 t k3 where 1: "ktry DMA_TAG k1 = (e1, t, k3)" by (metis prod_cases3)
  obtain e2 bs k4 where 2: "create_maps (replicate m null_buf) k3 = (e2, bs, k4)" by (metis prod_cases3)
  note T = acq_ktry [OF a(1) 1]
  show ?thesis
  proof (cases e1)
    case None
    have "acq k (own_maps bs + add_mset (DMA_TAG, t) (own_txf f tx + M)) k4" "own_mbufs bs = {#}"
      using create_maps [OF T(1) [OF None, THEN conjunct1] 2] by simp_all
    moreover have x: "tx' = tx\<lparr>tr_buf_dmatag := Some t, tr_pending_pkts := Some (b, bs)\<rparr>" "k2 = k4" using r 1 2 None n by (auto simp: gve_tx_alloc_rda_fields_dqo_def)
    ultimately have "own_txf f tx' + M = own_maps bs + add_mset (DMA_TAG, t) (own_txf f tx + M)" using n f by (simp add: own_txf_def add_mset_commute)
    then show ?thesis using x a(2,3) \<open>acq k (own_maps bs + _) k4\<close> by (simp add: tx_ok_def txc_null_def add.assoc)
  next
    case (Some x)
    then show ?thesis using r 1 T(2) a(2,3) by (auto simp: gve_tx_alloc_rda_fields_dqo_def)
  qed
qed

lemma wp_tx_alloc_dqo:
  assumes a: "acq k M k1" and ok: "kern_ok k" and l: "loads_ok k" "no_kva_failure k" and n: "txf_null tx" "txc_null tx" and g: "\<not> gve_is_gqi (queue_format priv)"
    and Q: "\<And>tx' k2. tx_ok tx' \<Longrightarrow> txc_null tx' \<Longrightarrow> (\<And>p. p \<in> qpl_page_set (tr_qpl tx') \<Longrightarrow> (VM_PAGE, p) \<notin># k_live k + M) \<Longrightarrow>
       acq k (own_txf (queue_format priv) tx' + M) k2 \<Longrightarrow> P (None, tx', priv\<lparr>num_registered_pages := num_registered_pages priv + of_nat (qpl_cost (tr_qpl tx'))\<rparr>, k2)"
    and F: "\<And>e tx' n k2. txf_null tx' \<Longrightarrow> txc_null tx' \<Longrightarrow> acq k M k2 \<Longrightarrow> P (Some e, tx', priv\<lparr>num_registered_pages := n\<rparr>, k2)"
  shows "wp (gve_tx_alloc_ring_dqo priv i tx k1) P"
proof -
  let ?f = "queue_format priv"
  have unwind: "wp (gve_tx_free_ring_dqo priv' tx' k2) (\<lambda>x. P (Some e, x))"
    if "acq k (own_txf ?f tx' + M) k2" "tx_ok tx'" "tr_qpl tx' = None \<and> tr_info tx' = None \<and> tr_buf_dmatag tx' = None \<and> tr_qpl_bufs tx' = None"
      "txc_null tx'" "priv' = priv\<lparr>num_registered_pages := n\<rparr>" for tx' k2 e n priv'
  proof -
    have "wp (if gve_is_gqi (queue_format priv') then gve_tx_free_ring_gqi priv' tx' k2 else gve_tx_free_ring_dqo priv' tx' k2) (\<lambda>x. P (Some e, x))"
    proof (rule wp_tx_free_fmt [where k = k and M = M], goal_cases)
      case (4 k3)
      then show ?case using that g by (auto simp: tx_released_def txf_null_def txc_null_def intro!: F)
    qed (use that in simp_all)
    then show ?thesis using g that(5) by simp
  qed
  have same: "priv = priv\<lparr>num_registered_pages := num_registered_pages priv\<rparr>" by simp
  show ?thesis unfolding gve_tx_alloc_ring_dqo_def wp_bind
  proof (rule wp_dma_alloc [OF a l(1)], goal_cases)
    case (2 e h k2)
    then show ?case using n by (simp add: split_def)
      (rule unwind [OF _ _ _ _ same], auto simp: own_txf_def tx_ok_def txf_null_def txc_null_def)
  next
    case (1 h k2)
    note h = 1(1)
    let ?t1 = "tx\<lparr>tr_desc_ring_mem := h, tr_desc_ring := True\<rparr>"
    have "wp (gve_dma_alloc_coherent (tr_compl_ring_mem ?t1) k2) (\<lambda>(e, h2, k). wp (let tx = ?t1\<lparr>tr_compl_ring_mem := h2\<rparr> in
       if e \<noteq> None then do { (tx, priv, k) \<leftarrow> gve_tx_free_ring_dqo priv tx k; Some (e, tx, priv, k) }
       else tx_dqo_rest priv i tx k) P)"
    proof (rule wp_dma_alloc [OF 1(2) l(1)], goal_cases)
      case (2 e h2 k3)
      then show ?case using n h g by (simp add: split_def Let_def)
        (rule unwind [OF _ _ _ _ same], auto simp: own_txf_def tx_ok_def txf_null_def txc_null_def)
    next
      case (1 h2 k3)
      obtain b k4 where b: "kalloc MALLOC k3 = (b, k4)" by (metis surj_pair)
      let ?n = "unat (tx_desc_cnt priv)"
      let ?bs = "replicate (?n - ?n div unat GVE_TX_MIN_RE_INTERVAL) null_buf"
      let ?t2 = "?t1\<lparr>tr_compl_ring_mem := h2, tr_compl_ring := True, tr_pending_pkts := Some (b, ?bs)\<rparr>"
      have k4: "acq k (own_txf ?f ?t2 + M) k4" "tx_ok ?t2" "txc_null ?t2"
        using acq_kalloc(1) [OF 1(2) b] n h 1(1) g by (simp_all add: own_txf_def ac_simps txf_null_def txc_null_def tx_ok_def)
      show ?case
      proof (cases "gve_is_qpl ?f")
        case True
        have "wp (gve_alloc_qpl priv i GVE_TX_NUM_QPL_PAGES_DQO False k4) (\<lambda>(q, priv, k). wp (let tx = ?t2\<lparr>tr_qpl := q\<rparr> in
            if q = None then do { (tx, priv, k) \<leftarrow> gve_tx_free_ring_dqo priv tx k; Some (Some ENOMEM, tx, priv, k) }
            else (let (b, k) = kalloc MALLOC k in Some (None, tx\<lparr>tr_qpl_bufs := Some b\<rparr>, priv, k))) P)"
        proof (rule wp_alloc_qpl [OF k4(1) l(1) ok], goal_cases)
          case (1 q k5)
          obtain c k6 where c: "kalloc MALLOC k5 = (c, k6)" by (metis surj_pair)
          let ?t = "?t2\<lparr>tr_qpl := Some q, tr_qpl_bufs := Some c\<rparr>"
          have "acq k (own_txf ?f ?t + M) k6" using acq_kalloc(1) [OF 1(5) c] g True n by (simp add: own_txf_def ac_simps txf_null_def)
          moreover have "tx_ok ?t" "txc_null ?t" using 1(1) k4(2,3) by (simp_all add: tx_ok_def txc_null_def)
          moreover have "(VM_PAGE, p) \<notin># k_live k + M" if "p \<in> qpl_page_set (tr_qpl ?t)" for p
            using 1(3) [of p] that by (auto dest: in_set_takeD)
          ultimately show ?case using Q [of ?t k6] c 1(2) by simp
        next
          case (2 nr L k5)
          then have "L = {#}" using leak_none l(2) by blast
          then have "acq k (own_txf ?f ?t2 + M) k5" using 2(2) by simp
          then have "acq k (own_txf ?f (?t2\<lparr>tr_qpl := None\<rparr>) + M) k5" using n True g by (simp add: own_txf_def txf_null_def)
          then show ?case using k4(2,3) n by (simp add: split_def Let_def) (rule unwind [where n = nr], auto simp: tx_ok_def txf_null_def txc_null_def)
        qed
        then show ?thesis using b True by (simp add: split_def Let_def tx_dqo_rest_def cong: if_cong split del: if_split)
      next
        case False
        obtain e t3 k5 where r: "gve_tx_alloc_rda_fields_dqo ?t2 k4 = (e, t3, k5)" by (metis prod_cases3)
        have "acq k (own_txf ?f t3 + M) k5 \<and> tx_ok t3 \<and> txc_null t3 \<and> tr_qpl t3 = None"
          using rda_fields [OF k4 r] False g n by (simp add: txf_null_def)
        then show ?thesis using Q [of t3 k5] b False r by (simp add: split_def Let_def tx_dqo_rest_def)
      qed
    qed
    then show ?case by (simp add: split_def Let_def)
  qed
qed

lemma wp_tx_alloc:
  assumes a: "acq k M k1" and ok: "kern_ok k" and l: "loads_ok k" "no_kva_failure k" and n: "txf_null tx" "txc_null tx"
    and Q: "\<And>tx' k2. tx_ok tx' \<Longrightarrow> (\<And>p. p \<in> qpl_page_set (tr_qpl tx') \<Longrightarrow> (VM_PAGE, p) \<notin># k_live k + M) \<Longrightarrow>
       acq k (own_tx (queue_format priv) tx' + M) k2 \<Longrightarrow> P (None, tx', priv\<lparr>num_registered_pages := num_registered_pages priv + of_nat (qpl_cost (tr_qpl tx'))\<rparr>, k2)"
    and F: "\<And>e tx' n k2. acq k M k2 \<Longrightarrow> P (Some e, tx', priv\<lparr>num_registered_pages := n\<rparr>, k2)"
  shows "wp (gve_tx_alloc_ring priv i tx k1) P"
proof -
  let ?f = "queue_format priv"
  have unwind: "wp (gve_tx_free_ring priv' tx' k2) (\<lambda>x. P (Some e, x))"
    if "acq k (own_tx ?f tx' + M) k2" "tx_ok tx'" "\<And>p. p \<in> qpl_page_set (tr_qpl tx') \<Longrightarrow> (VM_PAGE, p) \<notin># k_live k + M"
      "priv' = priv\<lparr>num_registered_pages := n\<rparr>" for tx' k2 e n priv'
    by (rule wp_tx_free [where k = k and M = M]) (use that F in simp_all)
  have rest: "wp (let (m, k) = kalloc MTX k2; (b, k) = kalloc BUF_RING k; (st, k) = gve_alloc_counters NUM_TX_STATS k;
       tx = tx'\<lparr>tr_mtx := Some m, tr_br := Some b, tr_stats := st\<rparr> in
       gve_dma_alloc_coherent (tr_q_resources_mem tx) k \<bind> (\<lambda>(e, h, k). let tx = tx\<lparr>tr_q_resources_mem := h\<rparr> in
       if e \<noteq> None then do { (tx, priv, k) \<leftarrow> gve_tx_free_ring priv' tx k; Some (e, tx, priv, k) }
       else Some (None, tx\<lparr>tr_q_resources := True, tr_last_kicked := 0\<rparr>, priv', k))) P"
    if t: "tx_ok tx'" "txc_null tx'" "\<And>p. p \<in> qpl_page_set (tr_qpl tx') \<Longrightarrow> (VM_PAGE, p) \<notin># k_live k + M" "acq k (own_txf ?f tx' + M) k2"
      and p': "priv' = priv\<lparr>num_registered_pages := num_registered_pages priv + of_nat (qpl_cost (tr_qpl tx'))\<rparr>" for tx' k2 priv'
  proof -
    obtain m k3 where m: "kalloc MTX k2 = (m, k3)" by (metis surj_pair)
    obtain b k4 where b: "kalloc BUF_RING k3 = (b, k4)" by (metis surj_pair)
    obtain st k5 where s: "gve_alloc_counters NUM_TX_STATS k4 = (st, k5)" by (metis surj_pair)
    note A = acq_counters(1) [OF acq_kalloc(1) [OF acq_kalloc(1) [OF t(4) m] b] s]
    let ?t = "tx'\<lparr>tr_mtx := Some m, tr_br := Some b, tr_stats := st\<rparr>"
    have own: "own_tx ?f (?t\<lparr>tr_q_resources_mem := h, tr_q_resources := c, tr_last_kicked := z\<rparr>) + M =
        own_dma_if c h + (own_list COUNTER st + add_mset (BUF_RING, b) (add_mset (MTX, m) (own_txf ?f tx' + M)))" for h c z
      by (simp add: own_tx_def own_txc_def own_txf_def ac_simps cong: if_cong)
    have "wp (gve_dma_alloc_coherent (tr_q_resources_mem ?t) k5) (\<lambda>(e, h, k). wp (let tx = ?t\<lparr>tr_q_resources_mem := h\<rparr> in
       if e \<noteq> None then do { (tx, priv, k) \<leftarrow> gve_tx_free_ring priv' tx k; Some (e, tx, priv, k) }
       else Some (None, tx\<lparr>tr_q_resources := True, tr_last_kicked := 0\<rparr>, priv', k)) P)"
    proof (rule wp_dma_alloc [OF A l(1)], goal_cases)
      case (1 h k6)
      let ?u = "?t\<lparr>tr_q_resources_mem := h, tr_q_resources := True, tr_last_kicked := 0\<rparr>"
      have "tx_ok ?u" using t(1) 1(1) by (simp add: tx_ok_def)
      then show ?case using Q [of ?u k6] t(3) 1(2) own [of 0 True h] p' by simp
    next
      case (2 e h k6)
      let ?u = "?t\<lparr>tr_q_resources_mem := h, tr_q_resources := False, tr_last_kicked := tr_last_kicked tx'\<rparr>"
      have u: "?t\<lparr>tr_q_resources_mem := h\<rparr> = ?u" using t(2) by (simp add: txc_null_def)
      have "acq k (own_tx ?f ?u + M) k6" unfolding own using 2(2) by simp
      moreover have "tx_ok ?u" using t(1) by (simp add: tx_ok_def)
      ultimately have "wp (gve_tx_free_ring priv' ?u k6) (\<lambda>x. P (Some e, x))" using t(3) p' by (intro unwind) simp_all
      then show ?case unfolding u [symmetric] by (simp add: split_def)
    qed
    then show ?thesis using m b s by (simp add: split_def)
  qed
  have fail: "wp (if Some e \<noteq> None then do { (tx, priv, k) \<leftarrow> gve_tx_free_ring (priv\<lparr>num_registered_pages := n\<rparr>) tx' k2; Some (Some e, tx, priv, k) } else X) P"
    if "txf_null tx'" "txc_null tx'" "acq k M k2" for e tx' n k2 X
  proof -
    have "wp (gve_tx_free_ring (priv\<lparr>num_registered_pages := n\<rparr>) tx' k2) (\<lambda>x. P (Some e, x))"
      by (rule unwind) (use that in \<open>auto simp: own_tx_def txf_null_def\<close>)
    then show ?thesis by (simp add: split_def)
  qed
  show ?thesis
  proof (cases "gve_is_gqi ?f")
    case True
    show ?thesis unfolding gve_tx_alloc_ring_def wp_bind if_P [OF True]
      by (intro wp_tx_alloc_gqi [OF a ok l n True]; unfold prod.case; (rule fail; assumption | subst if_not_P, simp, rule rest, assumption+, rule refl))
  next
    case False
    show ?thesis unfolding gve_tx_alloc_ring_def wp_bind if_not_P [OF False]
      by (intro wp_tx_alloc_dqo [OF a ok l n False]; unfold prod.case; (rule fail; assumption | subst if_not_P, simp, rule rest, assumption+, rule refl))
  qed
qed

definition tx_env :: "kern \<Rightarrow> gve_queue_format \<Rightarrow> bool" where
  "tx_env k f \<longleftrightarrow> loads_ok k \<and> no_kva_failure k"

definition tx_null :: "tx_res \<Rightarrow> bool" where
  "tx_null tx \<longleftrightarrow> txf_null tx \<and> txc_null tx"

interpretation txr: ring_kind gve_tx_alloc_ring gve_tx_free_ring own_tx tx_ok tx_null tr_qpl tx_env
proof
  show "wp (gve_tx_alloc_ring priv i r k1) P"
    if "acq k M k1" "kern_ok k" "tx_env k (queue_format priv)" "tx_null r"
      "\<And>r' k2. tx_ok r' \<Longrightarrow> (\<And>p. p \<in> qpl_page_set (tr_qpl r') \<Longrightarrow> (VM_PAGE, p) \<notin># k_live k + M) \<Longrightarrow> acq k (own_tx (queue_format priv) r' + M) k2 \<Longrightarrow>
         P (None, r', priv\<lparr>num_registered_pages := num_registered_pages priv + of_nat (qpl_cost (tr_qpl r'))\<rparr>, k2)"
      "\<And>e r' n k2. acq k M k2 \<Longrightarrow> P (Some e, r', priv\<lparr>num_registered_pages := n\<rparr>, k2)" for k M k1 priv r P i
    using wp_tx_alloc [of k M k1 r priv P i] that by (simp add: tx_env_def tx_null_def)
qed (rule wp_tx_free, assumption+, simp_all add: own_tx_page)

end
