(* ===== verification/Gve_Alloc_Rx.thy ===== *)
theory Gve_Alloc_Rx
  imports Gve_Alloc_Tx
begin

text \<open>
  The receive rings keep the contract of \<open>ring_kind\<close>, for DQO rings in raw addressing mode only if the maps
  of their buffers can be created.
\<close>

section \<open>Receive rings\<close>

definition own_rxc :: "rx_res \<Rightarrow> res multiset" where
  "own_rxc rx = own_list COUNTER (rr_stats rx) + own_dma_if (rr_q_resources rx) (rr_q_resources_mem rx)"

definition own_rxf :: "gve_queue_format \<Rightarrow> rx_res \<Rightarrow> res multiset" where
  "own_rxf f rx = own_dma_if (rr_desc_ring rx) (rr_desc_ring_mem rx) +
     ((if gve_is_gqi f then own_opt MALLOC (rr_page_info rx) + own_dma_if (rr_data_ring rx) (rr_data_ring_mem rx)
       else own_dma_if (rr_compl_ring rx) (rr_compl_ring_mem rx) +
         (own_bufs (\<not> gve_is_qpl f) (\<not> gve_is_qpl f \<and> rr_buf_dmatag rx \<noteq> None) (rr_bufs rx) +
          own_opt DMA_TAG (if gve_is_qpl f then None else rr_buf_dmatag rx))) + own_qpl_opt (rr_qpl rx))"

definition own_rx :: "gve_queue_format \<Rightarrow> rx_res \<Rightarrow> res multiset" where
  "own_rx f rx = own_rxc rx + own_rxf f rx"

definition rx_ok :: "rx_res \<Rightarrow> bool" where
  "rx_ok rx \<longleftrightarrow> (rr_desc_ring rx \<longrightarrow> h_tag (rr_desc_ring_mem rx) \<noteq> None) \<and> (rr_compl_ring rx \<longrightarrow> h_tag (rr_compl_ring_mem rx) \<noteq> None) \<and>
     (rr_data_ring rx \<longrightarrow> h_tag (rr_data_ring_mem rx) \<noteq> None) \<and>
     (rr_q_resources rx \<longrightarrow> h_tag (rr_q_resources_mem rx) \<noteq> None) \<and> qpl_opt_ok (rr_qpl rx)"

definition rxf_null :: "rx_res \<Rightarrow> bool" where
  "rxf_null rx \<longleftrightarrow> \<not> rr_desc_ring rx \<and> \<not> rr_data_ring rx \<and> rr_page_info rx = None \<and> rr_qpl rx = None \<and> \<not> rr_compl_ring rx \<and> rr_bufs rx = None \<and>
     rr_buf_dmatag rx = None"

definition rx_null :: "rx_res \<Rightarrow> bool" where
  "rx_null rx \<longleftrightarrow> rxf_null rx \<and> \<not> rr_q_resources rx"

definition rx_env :: "kern \<Rightarrow> gve_queue_format \<Rightarrow> bool" where
  "rx_env k f \<longleftrightarrow> loads_ok k \<and> no_kva_failure k \<and> (gve_is_qpl f \<or> (\<forall>j. k_err k DMA_MAP j = None))"

lemma rxf_null_own [simp]: "rxf_null rx \<Longrightarrow> own_rxf f rx = {#}"
  by (auto simp: rxf_null_def own_rxf_def)

lemma own_rx_page: "rx_ok rx \<Longrightarrow> (VM_PAGE, p) \<in># own_rx f rx \<longleftrightarrow> p \<in> qpl_page_set (rr_qpl rx)"
  using qpl_pages_own [of "rr_qpl rx" p] by (auto simp: own_rx_def own_rxc_def own_rxf_def rx_ok_def)

definition rx_released :: "gve_queue_format \<Rightarrow> rx_res \<Rightarrow> rx_res" where
  "rx_released f rx = (if gve_is_gqi f then rx\<lparr>rr_page_info := None, rr_data_ring := False, rr_desc_ring := False, rr_qpl := None\<rparr>
     else rx\<lparr>rr_compl_ring := False, rr_desc_ring := False, rr_bufs := None, rr_qpl := None\<rparr>)"

lemma wp_rx_free_fmt:
  assumes a: "acq k (own_rxf (queue_format priv) rx + M) k1" and o: "rx_ok rx"
    and u: "\<And>p. p \<in> qpl_page_set (rr_qpl rx) \<Longrightarrow> (VM_PAGE, p) \<notin># k_live k + M"
    and P: "\<And>k2. acq k M k2 \<Longrightarrow> P (rx_released (queue_format priv) rx, priv\<lparr>num_registered_pages := num_registered_pages priv - of_nat (qpl_cost (rr_qpl rx))\<rparr>, k2)"
  shows "wp (if gve_is_gqi (queue_format priv) then gve_rx_free_ring_gqi priv rx k1 else gve_rx_free_ring_dqo priv rx k1) P"
proof -
  let ?f = "queue_format priv"
  note ok = o [unfolded rx_ok_def]
  show ?thesis
  proof (cases "gve_is_gqi ?f")
    case True
    have a': "acq k (own_opt MALLOC (rr_page_info rx) + (own_dma_if (rr_data_ring rx) (rr_data_ring_mem rx) +
        (own_dma_if (rr_desc_ring rx) (rr_desc_ring_mem rx) + (own_qpl_opt (rr_qpl rx) + M)))) k1"
      using a True by (simp add: own_rxf_def ac_simps)
    have "wp (gve_rx_free_ring_gqi priv rx k1) P" unfolding gve_rx_free_ring_gqi_def wp_bind
      apply (rule wp_kfree_own [OF a'])
      apply (rule wp_free_dma_if, assumption, use ok in blast)
      apply (rule wp_free_dma_if, assumption, use ok in blast)
      apply (rule wp_free_qpl_opt, assumption, use ok in blast, erule u)
      using P True by (simp add: rx_released_def)
    then show ?thesis using True by simp
  next
    case False
    let ?q = "gve_is_qpl ?f"
    have a': "acq k (own_dma_if (rr_compl_ring rx) (rr_compl_ring_mem rx) + (own_dma_if (rr_desc_ring rx) (rr_desc_ring_mem rx) +
        (own_bufs (\<not> ?q) (\<not> ?q \<and> rr_buf_dmatag rx \<noteq> None) (rr_bufs rx) + (own_opt DMA_TAG (if ?q then None else rr_buf_dmatag rx) + (own_qpl_opt (rr_qpl rx) + M))))) k1"
      using a False by (simp add: own_rxf_def ac_simps)
    have bufs: "wp (case rr_bufs rx of None \<Rightarrow> Some k2 | Some (a, bs) \<Rightarrow> do {
               (bs, k) \<leftarrow> (if ?q then Some (bs, k2) else free_mbufs bs k2);
               k \<leftarrow> (if \<not> ?q \<and> rr_buf_dmatag rx \<noteq> None then free_maps bs k else Some k);
               kfree MALLOC a k }) R"
      if "acq k (own_bufs (\<not> ?q) (\<not> ?q \<and> rr_buf_dmatag rx \<noteq> None) (rr_bufs rx) + N) k2" "\<And>k3. acq k N k3 \<Longrightarrow> R k3" for k2 N R
      by (cases ?q) (use wp_free_bufs [OF that(1), of R] that(2) in \<open>simp_all cong: option.case_cong\<close>)
    have "wp (gve_rx_free_ring_dqo priv rx k1) P" unfolding gve_rx_free_ring_dqo_def wp_bind Let_def
      apply (rule wp_free_dma_if [OF a'], use ok in blast)
      apply (rule wp_free_dma_if, assumption, use ok in blast)
      apply (rule bufs, assumption)
      apply (rule free_if(1), assumption)
      apply (rule wp_free_qpl_opt, assumption, use ok in blast, erule u)
      using P False by (simp add: rx_released_def)
    then show ?thesis using False by simp
  qed
qed

lemma wp_rx_free:
  assumes a: "acq k (own_rx (queue_format priv) rx + M) k1" and o: "rx_ok rx"
    and u: "\<And>p. p \<in> qpl_page_set (rr_qpl rx) \<Longrightarrow> (VM_PAGE, p) \<notin># k_live k + M"
    and P: "\<And>rx' k2. acq k M k2 \<Longrightarrow> P (rx', priv\<lparr>num_registered_pages := num_registered_pages priv - of_nat (qpl_cost (rr_qpl rx))\<rparr>, k2)"
  shows "wp (gve_rx_free_ring priv rx k1) P"
proof -
  let ?f = "queue_format priv" and ?r = "own_dma_if (rr_q_resources rx) (rr_q_resources_mem rx)"
  have a': "acq k (own_list COUNTER (rr_stats rx) + (own_rxf ?f rx + (?r + M))) k1" using a by (simp add: own_rx_def own_rxc_def ac_simps)
  have r: "rr_q_resources (rx_released ?f rx) = rr_q_resources rx" "rr_q_resources_mem (rx_released ?f rx) = rr_q_resources_mem rx" by (simp_all add: rx_released_def)
  have t: "rr_q_resources rx \<Longrightarrow> h_tag (rr_q_resources_mem rx) \<noteq> None" using o by (simp add: rx_ok_def)
  have u': "(VM_PAGE, p) \<notin># k_live k + (?r + M)" if "p \<in> qpl_page_set (rr_qpl rx)" for p using u [OF that] by simp
  show ?thesis unfolding gve_rx_free_ring_def wp_bind
    apply (rule wp_free_counters [OF a'])
    apply (rule wp_rx_free_fmt [OF _ o u'], assumption, assumption)
    apply (unfold prod.case wp_bind r)
    apply (rule wp_free_dma_if, assumption, erule t)
    using P by simp
qed

lemma wp_rx_alloc_gqi:
  assumes a: "acq k M k1" and ok: "kern_ok k" and l: "loads_ok k" "no_kva_failure k" and n: "rxf_null rx" and o: "rx_ok rx" and g: "gve_is_gqi (queue_format priv)"
    and Q: "\<And>rx' k2. rx_ok rx' \<Longrightarrow> own_rxc rx' = own_rxc rx \<Longrightarrow> (\<And>p. p \<in> qpl_page_set (rr_qpl rx') \<Longrightarrow> (VM_PAGE, p) \<notin># k_live k + M) \<Longrightarrow>
       acq k (own_rxf (queue_format priv) rx' + M) k2 \<Longrightarrow> P (None, rx', priv\<lparr>num_registered_pages := num_registered_pages priv + of_nat (qpl_cost (rr_qpl rx'))\<rparr>, k2)"
    and F: "\<And>e rx' n k2. rxf_null rx' \<Longrightarrow> rx_ok rx' \<Longrightarrow> own_rxc rx' = own_rxc rx \<Longrightarrow> acq k M k2 \<Longrightarrow> P (Some e, rx', priv\<lparr>num_registered_pages := n\<rparr>, k2)"
  shows "wp (gve_rx_alloc_ring_gqi priv i rx k1) P"
proof -
  let ?f = "queue_format priv"
  have unwind: "wp (gve_rx_free_ring_gqi priv' rx' k2) (\<lambda>x. P (Some e, x))"
    if "acq k (own_rxf ?f rx' + M) k2" "rx_ok rx'" "own_rxc rx' = own_rxc rx" "\<not> rr_compl_ring rx' \<and> rr_bufs rx' = None \<and> rr_buf_dmatag rx' = None"
      "\<And>p. p \<in> qpl_page_set (rr_qpl rx') \<Longrightarrow> (VM_PAGE, p) \<notin># k_live k + M" "priv' = priv\<lparr>num_registered_pages := n\<rparr>" for rx' k2 e n priv'
  proof -
    have "wp (if gve_is_gqi (queue_format priv') then gve_rx_free_ring_gqi priv' rx' k2 else gve_rx_free_ring_dqo priv' rx' k2) (\<lambda>x. P (Some e, x))"
    proof (rule wp_rx_free_fmt [where k = k and M = M], goal_cases)
      case (4 k3)
      then show ?case using that g by (auto simp: rx_released_def rxf_null_def rx_ok_def own_rxc_def intro!: F)
    qed (use that in simp_all)
    then show ?thesis using g that(6) by simp
  qed
  have same: "priv = priv\<lparr>num_registered_pages := num_registered_pages priv\<rparr>" by simp
  show ?thesis unfolding gve_rx_alloc_ring_gqi_def wp_bind
  proof (rule wp_dma_alloc [OF a l(1)], goal_cases)
    case (2 e h k2)
    then show ?case using n o by (simp add: split_def)
      (rule unwind [OF _ _ _ _ _ same], auto simp: own_rxf_def own_rxc_def rx_ok_def rxf_null_def)
  next
    case (1 h k2)
    note h = 1(1)
    let ?t1 = "rx\<lparr>rr_desc_ring_mem := h, rr_desc_ring := True\<rparr>"
    have "wp (gve_alloc_qpl priv (i + unat (max_queues (tx_cfg priv))) (unat (rx_desc_cnt priv)) False k2) (\<lambda>(q, priv, k). wp (let rx = ?t1\<lparr>rr_qpl := q\<rparr> in
         if q = None then do { (rx, priv, k) \<leftarrow> gve_rx_free_ring_gqi priv rx k; Some (Some ENOMEM, rx, priv, k) }
         else rx_gqi_rest priv rx k) P)"
    proof (rule wp_alloc_qpl [OF 1(2) l(1) ok], goal_cases)
      case (2 nr L k3)
      then have "L = {#}" using leak_none l(2) by blast
      then have "acq k (own_dma DMA_MEM h + M) k3" using 2(2) by simp
      then show ?case using h n o by (simp add: split_def Let_def) (rule unwind [where n = nr], auto simp: own_rxf_def own_rxc_def rx_ok_def rxf_null_def)
    next
      case (1 q k3)
      obtain b k4 where b: "kalloc MALLOC k3 = (b, k4)" by (metis surj_pair)
      let ?t2 = "?t1\<lparr>rr_qpl := Some q, rr_page_info := Some b\<rparr>" and ?p = "priv\<lparr>num_registered_pages := num_registered_pages priv + of_nat (unat (rx_desc_cnt priv))\<rparr>"
      have u: "(VM_PAGE, p) \<notin># k_live k + M" if "p \<in> qpl_page_set (Some q)" for p using 1(3) [of p] that by (auto dest: in_set_takeD)
      have own: "own_rxf ?f (?t2\<lparr>rr_data_ring_mem := h2, rr_data_ring := c\<rparr>) + M = own_dma_if c h2 + add_mset (MALLOC, b) (own_qpl q + (own_dma DMA_MEM h + M))" for c h2
        using g by (simp add: own_rxf_def ac_simps)
      have "wp (gve_dma_alloc_coherent (rr_data_ring_mem ?t2) k4) (\<lambda>(e, h2, k). wp (let rx = ?t2\<lparr>rr_data_ring_mem := h2\<rparr> in
         if e \<noteq> None then do { (rx, priv, k) \<leftarrow> gve_rx_free_ring_gqi ?p rx k; Some (e, rx, priv, k) }
         else Some (None, rx\<lparr>rr_data_ring := True\<rparr>, ?p, k)) P)"
      proof (rule wp_dma_alloc [OF acq_kalloc(1) [OF 1(5) b] l(1)], goal_cases)
        case (1 h2 k5)
        let ?u = "?t2\<lparr>rr_data_ring_mem := h2, rr_data_ring := True\<rparr>"
        have "acq k (own_rxf ?f ?u + M) k5" unfolding own using 1(2) by simp
        moreover have "rx_ok ?u" "own_rxc ?u = own_rxc rx" using o h 1(1) \<open>qpl_ok q\<close> by (simp_all add: rx_ok_def own_rxc_def)
        ultimately show ?case using Q [of ?u k5] u \<open>qpl_num_pages q = unat (rx_desc_cnt priv)\<close> by simp
      next
        case (2 e h2 k5)
        let ?u = "?t2\<lparr>rr_data_ring_mem := h2, rr_data_ring := False\<rparr>"
        have e: "?t2\<lparr>rr_data_ring_mem := h2\<rparr> = ?u" using n by (simp add: rxf_null_def)
        have "acq k (own_rxf ?f ?u + M) k5" unfolding own using 2(2) by simp
        moreover have "rx_ok ?u" "own_rxc ?u = own_rxc rx" using o h \<open>qpl_ok q\<close> by (simp_all add: rx_ok_def own_rxc_def)
        ultimately have "wp (gve_rx_free_ring_gqi ?p ?u k5) (\<lambda>x. P (Some e, x))" using u n by (intro unwind) (simp_all add: rxf_null_def)
        then show ?case unfolding e [symmetric] by (simp add: split_def)
      qed
      then show ?case using b by (simp add: split_def rx_gqi_rest_def cong: if_cong split del: if_split)
    qed
    then show ?case by (simp add: split_def Let_def cong: if_cong split del: if_split)
  qed
qed

lemma wp_rx_alloc_dqo:
  assumes a: "acq k M k1" and ok: "kern_ok k" and l: "rx_env k (queue_format priv)" and n: "rxf_null rx" and o: "rx_ok rx" and g: "\<not> gve_is_gqi (queue_format priv)"
    and Q: "\<And>rx' k2. rx_ok rx' \<Longrightarrow> own_rxc rx' = own_rxc rx \<Longrightarrow> (\<And>p. p \<in> qpl_page_set (rr_qpl rx') \<Longrightarrow> (VM_PAGE, p) \<notin># k_live k + M) \<Longrightarrow>
       acq k (own_rxf (queue_format priv) rx' + M) k2 \<Longrightarrow> P (None, rx', priv\<lparr>num_registered_pages := num_registered_pages priv + of_nat (qpl_cost (rr_qpl rx'))\<rparr>, k2)"
    and F: "\<And>e rx' n k2. rxf_null rx' \<Longrightarrow> rx_ok rx' \<Longrightarrow> own_rxc rx' = own_rxc rx \<Longrightarrow> acq k M k2 \<Longrightarrow> P (Some e, rx', priv\<lparr>num_registered_pages := n\<rparr>, k2)"
  shows "wp (gve_rx_alloc_ring_dqo priv i rx k1) P"
proof -
  let ?f = "queue_format priv"
  have lo: "loads_ok k" "no_kva_failure k" using l by (simp_all add: rx_env_def)
  have unwind: "wp (gve_rx_free_ring_dqo priv' rx' k2) (\<lambda>x. P (Some e, x))"
    if "acq k (own_rxf ?f rx' + M) k2" "rx_ok rx'" "own_rxc rx' = own_rxc rx" "rr_qpl rx' = None \<and> rr_page_info rx' = None \<and> \<not> rr_data_ring rx' \<and> rr_buf_dmatag rx' = None"
      "priv' = priv\<lparr>num_registered_pages := n\<rparr>" for rx' k2 e n priv'
  proof -
    have "wp (if gve_is_gqi (queue_format priv') then gve_rx_free_ring_gqi priv' rx' k2 else gve_rx_free_ring_dqo priv' rx' k2) (\<lambda>x. P (Some e, x))"
    proof (rule wp_rx_free_fmt [where k = k and M = M], goal_cases)
      case (4 k3)
      then show ?case using that g by (auto simp: rx_released_def rxf_null_def rx_ok_def own_rxc_def intro!: F)
    qed (use that in simp_all)
    then show ?thesis using g that(5) by simp
  qed
  have same: "priv = priv\<lparr>num_registered_pages := num_registered_pages priv\<rparr>" by simp
  show ?thesis unfolding gve_rx_alloc_ring_dqo_def wp_bind
  proof (rule wp_dma_alloc [OF a lo(1)], goal_cases)
    case (2 e h k2)
    then show ?case using n o by (simp add: split_def)
      (rule unwind [OF _ _ _ _ same], auto simp: own_rxf_def own_rxc_def rx_ok_def rxf_null_def)
  next
    case (1 h k2)
    note h = 1(1)
    let ?t1 = "rx\<lparr>rr_desc_ring_mem := h, rr_desc_ring := True\<rparr>"
    have "wp (gve_dma_alloc_coherent (rr_compl_ring_mem ?t1) k2) (\<lambda>(e, h2, k). wp (let rx = ?t1\<lparr>rr_compl_ring_mem := h2\<rparr> in
       if e \<noteq> None then do { (rx, priv, k) \<leftarrow> gve_rx_free_ring_dqo priv rx k; Some (e, rx, priv, k) }
       else rx_dqo_rest priv i rx k) P)"
    proof (rule wp_dma_alloc [OF 1(2) lo(1)], goal_cases)
      case (2 e h2 k3)
      then show ?case using n h o g by (simp add: split_def Let_def)
        (rule unwind [OF _ _ _ _ same], auto simp: own_rxf_def own_rxc_def rx_ok_def rxf_null_def)
    next
      case (1 h2 k3)
      obtain b k4 where b: "kalloc MALLOC k3 = (b, k4)" by (metis surj_pair)
      let ?bs = "replicate (if gve_is_qpl ?f then GVE_RX_NUM_QPL_PAGES_DQO else unat (rx_desc_cnt priv)) null_buf"
      define t2 where "t2 = ?t1\<lparr>rr_compl_ring_mem := h2, rr_compl_ring := True, rr_bufs := Some (b, ?bs)\<rparr>"
      have t2: "rr_qpl t2 = None \<and> rr_page_info t2 = None \<and> \<not> rr_data_ring t2 \<and> rr_buf_dmatag t2 = None" "rr_bufs t2 = Some (b, ?bs)"
        "rx_ok t2" "own_rxc t2 = own_rxc rx" using n h o 1(1) by (simp_all add: t2_def rxf_null_def rx_ok_def own_rxc_def)
      have k4: "acq k (own_rxf ?f t2 + M) k4"
        using acq_kalloc(1) [OF 1(2) b] n g by (simp add: t2_def own_rxf_def ac_simps rxf_null_def)
      show ?case
      proof (cases "gve_is_qpl ?f")
        case True
        have "wp (gve_alloc_qpl priv (i + unat (max_queues (tx_cfg priv))) GVE_RX_NUM_QPL_PAGES_DQO False k4) (\<lambda>(q, priv, k). wp (let rx = t2\<lparr>rr_qpl := q\<rparr> in
            if q = None then do { (rx, priv, k) \<leftarrow> gve_rx_free_ring_dqo priv rx k; Some (Some ENOMEM, rx, priv, k) }
            else Some (None, rx, priv, k)) P)"
        proof (rule wp_alloc_qpl [OF k4 lo(1) ok], goal_cases)
          case (1 q k5)
          let ?t = "t2\<lparr>rr_qpl := Some q\<rparr>"
          have "acq k (own_rxf ?f ?t + M) k5" using 1(5) g True t2(1) by (simp add: own_rxf_def ac_simps)
          moreover have "rx_ok ?t" "own_rxc ?t = own_rxc rx" using 1(1) t2 by (simp_all add: rx_ok_def own_rxc_def)
          moreover have "(VM_PAGE, p) \<notin># k_live k + M" if "p \<in> qpl_page_set (rr_qpl ?t)" for p
            using 1(3) [of p] that by (auto dest: in_set_takeD)
          ultimately show ?case using Q [of ?t k5] 1(2) by simp
        next
          case (2 nr L k5)
          then have "L = {#}" using leak_none lo(2) by blast
          then have "acq k (own_rxf ?f (t2\<lparr>rr_qpl := None\<rparr>) + M) k5" using 2(2) t2(1) True g by (simp add: own_rxf_def)
          then show ?case using t2 by (simp add: split_def Let_def) (rule unwind [where n = nr], auto simp: rx_ok_def own_rxc_def)
        qed
        then show ?thesis using b True by (simp add: t2_def split_def Let_def rx_dqo_rest_def cong: if_cong split del: if_split)
      next
        case False
        obtain e t k5 where t: "ktry DMA_TAG k4 = (e, t, k5)" by (metis prod_cases3)
        obtain e2 bs k6 where m: "create_maps ?bs k5 = (e2, bs, k6)" by (metis prod_cases3)
        note T = acq_ktry [OF k4 t]
        show ?thesis
        proof (cases e)
          case (Some x)
          have "wp (gve_rx_free_ring_dqo priv t2 k5) (\<lambda>x. P (e, x))" unfolding Some by (rule unwind [OF _ _ _ _ same]) (use T(2) Some t2 in auto)
          then show ?thesis using b False t Some by (simp add: t2_def split_def Let_def rx_dqo_rest_def)
        next
          case None
          let ?t = "t2\<lparr>rr_buf_dmatag := Some t, rr_bufs := Some (b, bs)\<rparr>"
          have C: "acq k (own_maps bs + add_mset (DMA_TAG, t) (own_rxf ?f t2 + M)) k6" "own_mbufs bs = {#}" "e2 = None"
            using create_maps [OF T(1) [OF None, THEN conjunct1] m] l False by (auto simp: rx_env_def)
          have "own_rxf ?f ?t + M = own_maps bs + add_mset (DMA_TAG, t) (own_rxf ?f t2 + M)" using t2 False g C(2) by (simp add: own_rxf_def add_mset_commute)
          then have "acq k (own_rxf ?f ?t + M) k6" using C(1) by (simp only:)
          moreover have "rx_ok ?t" "own_rxc ?t = own_rxc rx" "rr_qpl ?t = None" using t2 by (simp_all add: rx_ok_def own_rxc_def)
          ultimately show ?thesis using Q [of ?t k6] b False t m None C(3) by (simp add: t2_def split_def Let_def rx_dqo_rest_def)
        qed
      qed
    qed
    then show ?case by (simp add: split_def Let_def cong: if_cong split del: if_split)
  qed
qed

lemma wp_rx_alloc:
  assumes a: "acq k M k1" and ok: "kern_ok k" and l: "rx_env k (queue_format priv)" and n: "rx_null rx"
    and Q: "\<And>rx' k2. rx_ok rx' \<Longrightarrow> (\<And>p. p \<in> qpl_page_set (rr_qpl rx') \<Longrightarrow> (VM_PAGE, p) \<notin># k_live k + M) \<Longrightarrow>
       acq k (own_rx (queue_format priv) rx' + M) k2 \<Longrightarrow> P (None, rx', priv\<lparr>num_registered_pages := num_registered_pages priv + of_nat (qpl_cost (rr_qpl rx'))\<rparr>, k2)"
    and F: "\<And>e rx' n k2. acq k M k2 \<Longrightarrow> P (Some e, rx', priv\<lparr>num_registered_pages := n\<rparr>, k2)"
  shows "wp (gve_rx_alloc_ring priv i rx k1) P"
proof -
  let ?f = "queue_format priv"
  obtain st k2 where s: "gve_alloc_counters NUM_RX_STATS k1 = (st, k2)" by (metis surj_pair)
  note A = acq_counters(1) [OF a s]
  have lo: "loads_ok k" "no_kva_failure k" using l by (simp_all add: rx_env_def)
  have unwind: "wp (do { (rx, priv, k) \<leftarrow> gve_rx_free_ring priv' rx' k3; Some (Some e, rx, priv, k) }) P"
    if "acq k (own_rxc rx' + M) k3" "rx_ok rx'" "rxf_null rx'" "priv' = priv\<lparr>num_registered_pages := n\<rparr>" for rx' k3 e n priv'
  proof -
    have "wp (gve_rx_free_ring priv' rx' k3) (\<lambda>x. P (Some e, x))"
      by (rule wp_rx_free [where k = k and M = M]) (use that F in \<open>auto simp: own_rx_def rxf_null_def\<close>)
    then show ?thesis by (simp add: split_def)
  qed
  have same: "priv = priv\<lparr>num_registered_pages := num_registered_pages priv\<rparr>" by simp
  let ?r = "rx\<lparr>rr_stats := st\<rparr>"
  have "wp (gve_dma_alloc_coherent (rr_q_resources_mem ?r) k2) (\<lambda>(e, h, k). wp (let rx = ?r\<lparr>rr_q_resources_mem := h\<rparr> in
     if e \<noteq> None then do { (rx, priv, k) \<leftarrow> gve_rx_free_ring priv rx k; Some (e, rx, priv, k) }
     else do {
       let rx = rx\<lparr>rr_q_resources := True\<rparr>;
       (e, rx, priv, k) \<leftarrow> (if gve_is_gqi ?f then gve_rx_alloc_ring_gqi priv i rx k else gve_rx_alloc_ring_dqo priv i rx k);
       if e \<noteq> None then do { (rx, priv, k) \<leftarrow> gve_rx_free_ring priv rx k; Some (e, rx, priv, k) }
       else Some (None, rx, priv, k) }) P)"
  proof (rule wp_dma_alloc [OF A lo(1)], goal_cases)
    case (2 e h k3)
    have "wp (do { (rx, priv, k) \<leftarrow> gve_rx_free_ring priv (?r\<lparr>rr_q_resources_mem := h\<rparr>) k3; Some (Some e, rx, priv, k) }) P"
      by (rule unwind [OF _ _ _ same]) (use 2(2) n in \<open>auto simp: own_rxc_def rx_null_def rxf_null_def rx_ok_def\<close>)
    then show ?case by simp
  next
    case (1 h k3)
    let ?u = "?r\<lparr>rr_q_resources_mem := h, rr_q_resources := True\<rparr>"
    have u: "rxf_null ?u" "rx_ok ?u" "acq k (own_rxc ?u + M) k3" using 1 n by (simp_all add: rx_null_def rxf_null_def rx_ok_def own_rxc_def ac_simps)
    have fin: "wp (if gve_is_gqi ?f then gve_rx_alloc_ring_gqi priv i ?u k3 else gve_rx_alloc_ring_dqo priv i ?u k3)
       (\<lambda>(e, rx, priv, k). wp (if e \<noteq> None then do { (rx, priv, k) \<leftarrow> gve_rx_free_ring priv rx k; Some (e, rx, priv, k) } else Some (None, rx, priv, k)) P)"
    proof -
      have ok1: "wp (if (None :: err) \<noteq> None then X else Some (None, rx', priv\<lparr>num_registered_pages := num_registered_pages priv + of_nat (qpl_cost (rr_qpl rx'))\<rparr>, k4)) P"
        if "rx_ok rx'" "own_rxc rx' = own_rxc ?u" "\<And>p. p \<in> qpl_page_set (rr_qpl rx') \<Longrightarrow> (VM_PAGE, p) \<notin># k_live k + (own_rxc ?u + M)"
          "acq k (own_rxf ?f rx' + (own_rxc ?u + M)) k4" for rx' k4 X
      proof -
        have "acq k (own_rx ?f rx' + M) k4" using that(2,4) by (simp add: own_rx_def ac_simps)
        moreover have "(VM_PAGE, p) \<notin># k_live k + M" if "p \<in> qpl_page_set (rr_qpl rx')" for p using \<open>\<And>p. p \<in> qpl_page_set (rr_qpl rx') \<Longrightarrow> _ p\<close> [OF that] by simp
        ultimately show ?thesis using Q [of rx' k4] that(1) by simp
      qed
      have fail: "wp (if Some e \<noteq> None then do { (rx, priv, k) \<leftarrow> gve_rx_free_ring (priv\<lparr>num_registered_pages := n\<rparr>) rx' k4; Some (Some e, rx, priv, k) } else X) P"
        if "rxf_null rx'" "rx_ok rx'" "own_rxc rx' = own_rxc ?u" "acq k (own_rxc ?u + M) k4" for e rx' n k4 X
        using unwind [of rx' k4 _ n e] that by simp
      show ?thesis
      proof (cases "gve_is_gqi ?f")
        case True
        show ?thesis unfolding if_P [OF True]
          by (intro wp_rx_alloc_gqi [OF u(3) ok lo u(1,2) True]; unfold prod.case; (rule fail; assumption | rule ok1; assumption))
      next
        case False
        show ?thesis unfolding if_not_P [OF False]
          by (intro wp_rx_alloc_dqo [OF u(3) ok l u(1,2) False]; unfold prod.case; (rule fail; assumption | rule ok1; assumption))
      qed
    qed
    then show ?case by (simp add: split_def Let_def cong: if_cong split del: if_split)
  qed
  then show ?thesis using s by (simp add: gve_rx_alloc_ring_def split_def cong: if_cong split del: if_split)
qed

interpretation rxr: ring_kind gve_rx_alloc_ring gve_rx_free_ring own_rx rx_ok rx_null rr_qpl rx_env
  by unfold_locales (fact wp_rx_alloc, fact wp_rx_free, fact own_rx_page)

end
