(* ===== verification/Gve_Alloc_Props.thy ===== *)
theory Gve_Alloc_Props
  imports Gve_Alloc_Rx Gve_Adminq_Inv
begin

text \<open>
  The allocation of a range of rings and of the interrupts as a whole, and what goes wrong in the error
  paths outside the conditions of these theorems.
\<close>


section \<open>Interrupts\<close>

definition own_irq :: "gve_irq \<Rightarrow> res multiset" where
  "own_irq q = (case irq_res q of None \<Rightarrow> {#} | Some r \<Rightarrow> add_mset (IRQ_RES, r) (own_opt INTR (irq_cookie q)))"

definition own_irqs :: "gve_irq list \<Rightarrow> res multiset" where
  "own_irqs qs = sum_list (map own_irq qs)"

lemma own_irqs_simps [simp]: "own_irqs [] = {#}" "own_irqs (q # qs) = own_irq q + own_irqs qs" "own_irq null_irq = {#}" "own_irqs (replicate n null_irq) = {#}"
  by (induction n) (simp_all add: own_irqs_def own_irq_def null_irq_def)

lemma wp_free_irqs_loop:
  assumes "acq k (own_irqs qs + M) k1" and "\<And>k2. acq k M k2 \<Longrightarrow> P k2"
  shows "wp (free_irqs_loop qs k1) P"
  using assms
proof (induction qs arbitrary: k1)
  case (Cons q qs)
  show ?case
  proof (cases "irq_res q")
    case None
    then show ?thesis using Cons by (simp add: own_irq_def)
  next
    case (Some r)
    have "acq k (own_opt INTR (irq_cookie q) + add_mset (IRQ_RES, r) (own_irqs qs + M)) k1" using Cons.prems(1) Some by (simp add: own_irq_def ac_simps)
    then have "wp (kfree_opt INTR (irq_cookie q) k1) (\<lambda>k. wp (kfree IRQ_RES r k) (\<lambda>k. wp (free_irqs_loop qs k) P))"
      by (rule wp_kfree_own) (rule wp_kfree, assumption, simp, rule Cons.IH, simp, rule Cons.prems(2))
    then show ?thesis using Some by simp
  qed
qed simp

lemma alloc_irqs_loop:
  assumes "acq k M k1" and "alloc_irqs_loop n k1 = (e, qs, k2)"
  shows "acq k (own_irqs qs + M) k2 \<and> length qs = n \<and> (e = None \<longrightarrow> (\<forall>q \<in> set qs. irq_res q \<noteq> None \<and> irq_cookie q \<noteq> None))"
  using assms
proof (induction n arbitrary: M k1 e qs k2)
  case (Suc n)
  obtain e1 r k3 where 1: "ktry IRQ_RES k1 = (e1, r, k3)" by (metis prod_cases3)
  obtain e2 c k4 where 2: "ktry INTR k3 = (e2, c, k4)" by (metis prod_cases3)
  obtain e3 ps k5 where 3: "alloc_irqs_loop n k4 = (e3, ps, k5)" by (metis prod_cases3)
  note R = acq_ktry [OF Suc.prems(1) 1]
  show ?case
  proof (cases e1)
    case None
    note C = acq_ktry [OF R(1) [OF None, THEN conjunct1] 2]
    show ?thesis
    proof (cases e2)
      case n2: None
      show ?thesis using Suc.IH [OF C(1) [OF n2, THEN conjunct1] 3] Suc.prems(2) 1 2 3 None n2 by (auto simp: own_irq_def add_mset_commute)
    next
      case (Some x)
      then show ?thesis using C(2) Suc.prems(2) 1 2 None by (auto simp: own_irq_def)
    qed
  next
    case (Some x)
    then show ?thesis using R(2) Suc.prems(2) 1 by auto
  qed
qed simp

lemma wp_free_irqs:
  assumes "acq k (own_irqs qs + add_mset (MALLOC, a) (own_opt MSIX (irq_msix s) + M)) k1" and "irq_tbl s = Some (a, qs)"
    and "length qs = unat (max_queues (tx_cfg priv)) + unat (max_queues (rx_cfg priv)) + 1"
    and "\<And>k2. acq k M k2 \<Longrightarrow> P (s\<lparr>irq_tbl := None, irq_msix := None\<rparr>, k2)"
  shows "wp (gve_free_irqs priv s k1) P"
proof -
  have "wp (free_irqs_loop qs k1) (\<lambda>k. wp (kfree MALLOC a k) (\<lambda>k. wp (kfree_opt MSIX (irq_msix s) k) (\<lambda>k. P (s\<lparr>irq_tbl := None, irq_msix := None\<rparr>, k))))"
    by (rule wp_free_irqs_loop [OF assms(1)], rule wp_kfree, assumption, simp, rule wp_kfree_own, simp, rule assms(4))
  then show ?thesis using assms(2,3) by (simp add: gve_free_irqs_def)
qed

section \<open>Properties\<close>

text \<open>
  C32. Allocation of receive rings (\<open>gve_alloc_rx_rings\<close>, \<open>gve_rx_alloc_ring\<close> for every queue format), whatever calls to the
  kernel fail: it ends without a release of anything that is not held. If it fails, everything it had acquired
  is released and nothing else. If it succeeds, the rings hold exactly what was acquired, and
  \<open>gve_free_rx_rings\<close> gives all of it back and restores the number of registered pages. (Failures of
  \<open>kva_alloc\<close> for a single page, of \<open>bus_dmamap_create\<close> for raw addressing, and loads that report no address are
  excluded; they are the subject of the theorems below.)
\<close>

theorem gve_alloc_rx_rings_correct:
  assumes "kern_ok k" and "rx_env k (queue_format priv)" and "start \<le> stop" and "stop \<le> length rs" and "\<forall>i \<in> {start..<stop}. rx_null (rs ! i)"
  shows "\<exists>e rs' priv' k'. gve_alloc_rx_rings start stop (rs, priv, k) = Some (e, rs', priv', k') \<and>
    (e \<noteq> None \<longrightarrow> k_live k' = k_live k) \<and>
    (e = None \<longrightarrow> k_live k' = k_live k + sum_list (map (\<lambda>i. own_rx (queue_format priv) (rs' ! i)) [start..<stop]) \<and>
      (\<exists>rs'' priv'' k''. gve_free_rx_rings start stop (rs', priv', k') = Some (rs'', priv'', k'') \<and>
         k_live k'' = k_live k \<and> num_registered_pages priv'' = num_registered_pages priv))"
  unfolding gve_alloc_rx_rings_def gve_free_rx_rings_def
  by (rule rxr.alloc_free_loop) (use assms in simp_all)

definition ex_kern :: "(rkind \<Rightarrow> nat \<Rightarrow> err) \<Rightarrow> kern" where
  "ex_kern oracle = \<lparr>k_live = {#}, k_next = 1, k_calls = 0, k_err = oracle, k_load = (\<lambda>n. None), k_addr = (\<lambda>n. 4096), k_nvecs = 9\<rparr>"

text \<open>A kernel in which call number \<open>n\<close> fails if it asks for a resource of kind \<open>c\<close>.\<close>

definition fail_at :: "rkind \<Rightarrow> nat \<Rightarrow> rkind \<Rightarrow> nat \<Rightarrow> err" where
  "fail_at c n c' n' = (if c' = c \<and> n' = n then Some ENOMEM else None)"

definition ex_apriv :: "gve_queue_format \<Rightarrow> gve_priv" where
  "ex_apriv f = (ex_priv 0)\<lparr>queue_format := f, rx_desc_cnt := 2, tx_desc_cnt := 2, max_registered_pages := 4\<rparr>"

definition null_rx :: rx_res where
  "null_rx = \<lparr>rr_stats = [], rr_q_resources = False, rr_q_resources_mem = null_dma, rr_desc_ring = False, rr_desc_ring_mem = null_dma,
     rr_data_ring = False, rr_data_ring_mem = null_dma, rr_page_info = None, rr_qpl = None, rr_compl_ring = False,
     rr_compl_ring_mem = null_dma, rr_bufs = None, rr_buf_dmatag = None\<rparr>"

lemma ex_kern_env: "kern_ok (ex_kern oracle)" "loads_ok (ex_kern oracle)"
  by (simp_all add: kern_ok_def loads_ok_def ex_kern_def)

theorem gve_alloc_rx_rings_correct_witness:
  "\<exists>e rs' priv' k'. gve_alloc_rx_rings 0 1 ([null_rx], ex_apriv GVE_GQI_QPL_FORMAT, ex_kern (fail_at DMA_TAG 7)) = Some (e, rs', priv', k') \<and>
     (e \<noteq> None \<longrightarrow> k_live k' = {#}) \<and> (e = None \<longrightarrow> k_live k' = own_rx GVE_GQI_QPL_FORMAT (rs' ! 0))"
proof -
  have n: "\<forall>i \<in> {0..<1}. rx_null ([null_rx] ! i)" by (simp add: null_rx_def rx_null_def rxf_null_def)
  have e: "rx_env (ex_kern (fail_at DMA_TAG 7)) (queue_format (ex_apriv GVE_GQI_QPL_FORMAT))"
    using ex_kern_env by (simp add: rx_env_def no_kva_failure_def ex_kern_def fail_at_def ex_apriv_def)
  from gve_alloc_rx_rings_correct [OF ex_kern_env(1) e _ _ n]
  show ?thesis by (fastforce simp: ex_apriv_def ex_kern_def)
qed


definition null_tx :: tx_res where
  "null_tx = \<lparr>tr_stats = [], tr_mtx = None, tr_q_resources = False, tr_q_resources_mem = null_dma, tr_br = None, tr_desc_ring = False,
     tr_desc_ring_mem = null_dma, tr_info = None, tr_fifo = \<lparr>fifo_mem = [], fifo_size = 0, available = 0, fifo_head = 0\<rparr>, tr_qpl = None,
     tr_compl_ring = False, tr_compl_ring_mem = null_dma, tr_pending_pkts = None, tr_buf_dmatag = None, tr_qpl_bufs = None, tr_last_kicked = 0\<rparr>"



text \<open>
  C34. Interrupts (\<open>gve_alloc_irqs\<close>) on a device that offers a vector for every queue and one for management: if it fails,
  everything acquired is released; if it succeeds, every entry of the table has its interrupt set up, transmit queue \<open>i\<close> is
  notified through entry \<open>i\<close> and receive queue \<open>j\<close> through entry \<open>num_tx + j\<close>, and \<open>gve_free_irqs\<close> releases it all.
\<close>

theorem gve_alloc_irqs_correct:
  assumes "irq_tbl s = None" and "num_tx = unat (max_queues (tx_cfg priv))" and "num_rx = unat (max_queues (rx_cfg priv))"
    and "num_tx + num_rx + 1 \<le> k_nvecs k"
  shows "\<exists>e s' k'. gve_alloc_irqs priv s k = Some (e, s', k') \<and>
    (e \<noteq> None \<longrightarrow> k_live k' = k_live k \<and> irq_tbl s' = None) \<and>
    (e = None \<longrightarrow> (\<forall>i < num_tx. ntfy_id_tx s' i = i) \<and> (\<forall>j < num_rx. ntfy_id_rx s' j = num_tx + j) \<and>
      (\<exists>a irqs. irq_tbl s' = Some (a, irqs) \<and> length irqs = num_tx + num_rx + 1 \<and> (\<forall>q \<in> set irqs. irq_res q \<noteq> None \<and> irq_cookie q \<noteq> None)) \<and>
      (\<exists>s'' k''. gve_free_irqs priv s' k' = Some (s'', k'') \<and> irq_tbl s'' = None \<and> k_live k'' = k_live k))"
proof -
  let ?n = "num_tx + num_rx + 1"
  have a0: "acq k {#} k" by (simp add: acq_def)
  obtain e1 v k1 where 1: "ktry MSIX k = (e1, v, k1)" by (metis prod_cases3)
  note M = acq_ktry [OF a0 1]
  show ?thesis
  proof (cases e1)
    case (Some x)
    then show ?thesis using M(2) 1 assms(1) by (auto simp: gve_alloc_irqs_def gve_free_irqs_def acq_def)
  next
    case None
    obtain a k2 where 2: "kalloc MALLOC k1 = (a, k2)" by fastforce
    obtain e3 irqs k3 where 3: "alloc_irqs_loop ?n k2 = (e3, irqs, k3)" by (metis prod_cases3)
    have m: "acq k {#(MSIX, v)#} k1" using M(1) [OF None] by blast
    have A: "acq k {#(MALLOC, a), (MSIX, v)#} k2" using acq_kalloc [OF m 2] by simp
    note L = alloc_irqs_loop [OF A 3]
    define s2 where "s2 = s\<lparr>irq_msix := Some v, irq_tbl := Some (a, irqs),
       ntfy_id_tx := (\<lambda>i. if i < num_tx \<and> irq_cookie (irqs ! i) \<noteq> None then i else ntfy_id_tx s i),
       ntfy_id_rx := (\<lambda>j. if j < num_rx \<and> irq_cookie (irqs ! (num_tx + j)) \<noteq> None then num_tx + j else ntfy_id_rx s j)\<rparr>"
    have F: "wp (gve_free_irqs priv s2 k3) (\<lambda>(s, k'). irq_tbl s = None \<and> k_live k' = k_live k)"
      by (rule wp_free_irqs [where M = "{#}" and k = k and a = a and qs = irqs])
        (use L assms in \<open>simp_all add: s2_def acq_def\<close>)
    have g: "gve_alloc_irqs priv s k = (if e3 \<noteq> None then do { (s, k) \<leftarrow> gve_free_irqs priv s2 k3; Some (e3, s, k) } else Some (None, s2, k3))"
      using 1 2 3 None m assms by (simp add: gve_alloc_irqs_def Let_def s2_def acq_def min_def del: alloc_irqs_loop.simps not_None_eq cong: if_cong)
    show ?thesis
    proof (cases e3)
      case None
      have "irqs ! i \<in> set irqs" if "i < ?n" for i using that L by simp
      then show ?thesis using None g F L by (force simp: wp_def s2_def)
    next
      case (Some x)
      then show ?thesis using g F by (auto simp: wp_def)
    qed
  qed
qed

theorem gve_alloc_irqs_correct_witness:
  "\<exists>e s' k'. gve_alloc_irqs (ex_apriv GVE_GQI_QPL_FORMAT) \<lparr>irq_tbl = None, irq_msix = None, ntfy_id_tx = (\<lambda>i. 0), ntfy_id_rx = (\<lambda>i. 0)\<rparr> (ex_kern (fail_at INTR 6)) = Some (e, s', k') \<and>
     (e \<noteq> None \<longrightarrow> k_live k' = {#}) \<and> (e = None \<longrightarrow> ntfy_id_rx s' 1 = 5)"
  using gve_alloc_irqs_correct [of "\<lparr>irq_tbl = None, irq_msix = None, ntfy_id_tx = (\<lambda>i. 0), ntfy_id_rx = (\<lambda>i. 0)\<rparr>" 4 "ex_apriv GVE_GQI_QPL_FORMAT" 4 "ex_kern (fail_at INTR 6)"]
  by (fastforce simp: ex_apriv_def ex_priv_def ex_cfg_def ex_kern_def)


section \<open>Error paths that release too much or too little\<close>

lemma counters_numeral: "gve_alloc_counters (numeral v) k =
    (let (i, k1) = kalloc COUNTER k; (ps, k2) = gve_alloc_counters (pred_numeral v) k1 in (Some i # ps, k2))"
  by (simp add: numeral_eq_Suc)

lemma replicate_numeral': "replicate (numeral v) x = x # replicate (pred_numeral v) x"
  by (simp add: numeral_eq_Suc)

lemma loops_2: "qpl_pages_loop 2 = qpl_pages_loop (Suc (Suc 0))" "qpl_dmas_loop 2 = qpl_dmas_loop (Suc (Suc 0))"
  by (simp_all only: numeral_2_eq_2)

lemmas run_defs = ex_apriv_def ex_priv_def ex_cfg_def ex_kern_def fail_at_def null_dma_def null_buf_def kalloc_def ktry_def kfree_def kfree_opt_def
  gve_dma_alloc_coherent_def gve_dma_free_coherent_def dma_setup_def bus_dmamap_load_def free_dma_if_def free_qpl_opt_def
  gve_is_gqi_def gve_is_qpl_def Let_def counters_numeral replicate_numeral'



definition realloc_tx :: "(rkind \<Rightarrow> nat \<Rightarrow> err) \<Rightarrow> gve_priv \<Rightarrow> (err \<times> tx_res list \<times> gve_priv \<times> kern) option" where
  "realloc_tx oracle priv = do {
     (e, rs, priv, k) \<leftarrow> gve_alloc_tx_rings 0 1 ([null_tx], priv, ex_kern (\<lambda>c n. None));
     (rs, priv, k) \<leftarrow> gve_free_tx_rings 0 1 (rs, priv, k);
     gve_alloc_tx_rings 0 1 (rs, priv, k\<lparr>k_err := oracle\<rparr>) }"


text \<open>A load that reports no address makes \<open>gve_dma_alloc_coherent\<close> return 0 although everything has been released.\<close>

lemma gve_dma_alloc_coherent_false_success:
  "map_option (\<lambda>(e, h, k). (e, h_tag h, k_live k)) (gve_dma_alloc_coherent null_dma ((ex_kern (\<lambda>c n. None))\<lparr>k_addr := (\<lambda>n. - 1)\<rparr>)) = Some (None, None, {#})"
  by code_simp

text \<open>With fewer vectors than the driver needs, the vectors the bus has handed out are not given back.\<close>

lemma gve_alloc_irqs_leaks_vectors:
  "map_option (\<lambda>(e, s, k). (e, k_live k)) (gve_alloc_irqs (ex_apriv GVE_GQI_QPL_FORMAT)
      \<lparr>irq_tbl = None, irq_msix = None, ntfy_id_tx = (\<lambda>i. 0), ntfy_id_rx = (\<lambda>i. 0)\<rparr> ((ex_kern (\<lambda>c n. None))\<lparr>k_nvecs := 4\<rparr>)) = Some (Some ENOSPC, {#(MSIX, 1)#})"
  by code_simp

end
