(* ===== verification/Gve_Softc.thy ===== *)
theory Gve_Softc
  imports Gve_Alloc Gve_Xmit Gve_Adminq
begin

text \<open>
  The state of a device as the control path sees it, \<open>struct gve_priv\<close> with its rings, its interrupts, the
  resources it holds and its network interface, and the operations on the rings as a whole: allocation
  and release, creation and destruction at the device (\<open>gve_tx.c\<close>, \<open>gve_rx.c\<close>), registration of the page lists
  (\<open>gve_qpl.c\<close>) and the interrupt doorbells (\<open>gve_utils.c\<close>).

  An operation returns \<open>None\<close> when it would follow a NULL pointer, release something that is not held,
  or wait for the device for ever.
\<close>

section \<open>State\<close>

datatype if_cap = IFCAP_RXCSUM | IFCAP_TXCSUM | IFCAP_TXCSUM_IPV6 | IFCAP_TSO4 | IFCAP_TSO6 | IFCAP_LRO | IFCAP_JUMBO_MTU

text \<open>What the control path does to its surroundings, in order.\<close>

datatype ctl_event = TxEv event | RxEv rx_event | IF_LINK_STATE_CHANGE bool | CALLOUT_RESET

datatype rx_union = RxGqi gve_rx_ring_gqi | RxDqo gve_rx_ring_dqo

text \<open>
  The members of a ring besides those that hold resources (\<open>tx_res\<close>, \<open>rx_res\<close>): the data path's state and
  the task queues, as resources of the kernel.
\<close>

record tx_ctl =
  tc_q :: tx_queue
  tc_cleanup_tq :: "nat option"
  tc_xmit_tq :: "nat option"

record rx_ctl =
  rc_ring :: rx_union
  rc_cleanup_tq :: "nat option"
  rc_lro :: bool

text \<open>
  \<open>sc_tx\<close> and \<open>sc_rx\<close> are the arrays \<open>priv->tx\<close> and \<open>priv->rx\<close> (their memory and the resources of each ring),
  \<open>sc_txq\<close> and \<open>sc_rxq\<close> the other members of their elements. \<open>sc_counters\<close> and \<open>sc_irq_db\<close> say that the pointers
  \<open>counters\<close> and \<open>irq_db_indices\<close> are not NULL. \<open>sc_service_pending\<close> says that the service task is queued, \<open>sc_timer\<close>
  that the callout of the transmit timeout service is armed.
\<close>

record 'd softc =
  sc_priv :: gve_priv
  sc_nic :: 'd
  sc_kern :: kern
  sc_tx :: "(nat \<times> tx_res list) option"
  sc_rx :: "(nat \<times> rx_res list) option"
  sc_txq :: "tx_ctl list"
  sc_rxq :: "rx_ctl list"
  sc_irqs :: irq_state
  sc_aq_mem :: dma_handle
  sc_counter_mem :: dma_handle
  sc_counters :: bool
  sc_irq_db_mem :: dma_handle
  sc_irq_db :: bool
  sc_ptype_lut :: "(nat \<times> (u8 \<times> u8) list) option"
  sc_reg_bar :: "nat option"
  sc_db_bar :: "nat option"
  sc_msix_table :: "nat option"
  sc_iface_lock :: "nat option"
  sc_ifp :: "nat option"
  sc_service_tq :: "nat option"
  sc_attached :: bool
  sc_service_pending :: bool
  sc_timer :: bool
  sc_mgmt_msix_idx :: u32
  sc_rx_copybreak :: u32
  if_up :: bool
  if_running :: bool
  if_oactive :: bool
  if_mtu :: u32
  if_capabilities :: "if_cap set"
  if_capenable :: "if_cap set"
  if_hwassist :: "csum_flag set"
  if_hwtsomax :: nat
  if_hwtsomaxsegcount :: nat
  if_hwtsomaxsegsize :: nat
  sc_log :: "ctl_event list"

text \<open>
  What lies outside the driver: the device (the admin queue's view of it, its registers, and what it has
  written into the interrupt doorbell array and a queue's resources), the value an uninitialised local \<open>err\<close> has,
  a bound on the polls of \<open>gve_release_adminq\<close>, the results of the allocations when receive buffers are posted,
  the tunable \<open>gve_disable_hw_lro\<close> and the clock.
\<close>

record 'd sys =
  sy_aq :: "'d aq_device"
  sy_reg :: "nat \<Rightarrow> 'd \<Rightarrow> u32 \<times> 'd"
  sy_irq_db :: "'d \<Rightarrow> nat \<Rightarrow> u32"
  sy_q_res :: "'d \<Rightarrow> u64 \<Rightarrow> u32 \<times> u32"
  sy_err0 :: err
  sy_fuel :: nat
  sy_rxd :: "nat \<Rightarrow> rxd_env"
  gve_disable_hw_lro :: bool
  sy_now :: int

section \<open>Small steps\<close>

definition emit :: "ctl_event list \<Rightarrow> 'd softc \<Rightarrow> 'd softc" where
  "emit evs s = s\<lparr>sc_log := sc_log s @ evs\<rparr>"

definition get_flag :: "'d softc \<Rightarrow> gve_state_flags_bit \<Rightarrow> bool" where
  "get_flag s f = gve_get_state_flag (sc_priv s) f"

definition set_flag :: "gve_state_flags_bit \<Rightarrow> 'd softc \<Rightarrow> 'd softc" where
  "set_flag f s = s\<lparr>sc_priv := gve_set_state_flag (sc_priv s) f\<rparr>"

definition clear_flag :: "gve_state_flags_bit \<Rightarrow> 'd softc \<Rightarrow> 'd softc" where
  "clear_flag f s = s\<lparr>sc_priv := gve_clear_state_flag (sc_priv s) f\<rparr>"

definition gve_reg_bar_read_4 :: "'d sys \<Rightarrow> nat \<Rightarrow> 'd softc \<Rightarrow> u32 \<times> 'd softc" where
  "gve_reg_bar_read_4 y offset s = (case sy_reg y offset (sc_nic s) of (v, d) \<Rightarrow> (v, s\<lparr>sc_nic := d\<rparr>))"

definition gve_db_bar_write_4 :: "u32 \<Rightarrow> u32 \<Rightarrow> 'd softc \<Rightarrow> 'd softc" where
  "gve_db_bar_write_4 offset val s = emit [TxEv (DB_WRITE_4 offset val)] s"

definition gve_db_bar_dqo_write_4 :: "u32 \<Rightarrow> u32 \<Rightarrow> 'd softc \<Rightarrow> 'd softc" where
  "gve_db_bar_dqo_write_4 offset val s = emit [TxEv (DB_DQO_WRITE_4 offset val)] s"

definition is_gqi :: "'d softc \<Rightarrow> bool" where "is_gqi s = gve_is_gqi (queue_format (sc_priv s))"
definition is_qpl :: "'d softc \<Rightarrow> bool" where "is_qpl s = gve_is_qpl (queue_format (sc_priv s))"
definition num_tx :: "'d softc \<Rightarrow> nat" where "num_tx s = unat (num_queues_cfg (tx_cfg (sc_priv s)))"
definition num_rx :: "'d softc \<Rightarrow> nat" where "num_rx s = unat (num_queues_cfg (rx_cfg (sc_priv s)))"

text \<open>A command of the admin queue.\<close>

definition aq :: "(gve_priv \<times> 'd \<Rightarrow> err \<times> gve_priv \<times> 'd) \<Rightarrow> 'd softc \<Rightarrow> err \<times> 'd softc" where
  "aq f s = (case f (sc_priv s, sc_nic s) of (e, priv, d) \<Rightarrow> (e, s\<lparr>sc_priv := priv, sc_nic := d\<rparr>))"

fun fold_opt :: "(nat \<Rightarrow> 's \<Rightarrow> 's option) \<Rightarrow> nat list \<Rightarrow> 's \<Rightarrow> 's option" where
  "fold_opt f [] s = Some s"
| "fold_opt f (i # is) s = do { s \<leftarrow> f i s; fold_opt f is s }"

section \<open>Ranges of rings\<close>

text \<open>
  The data path's view of a ring that has just been allocated: arrays of zeroes of the sizes of the
  ring, a page list of zeroed pages, counters at 0. Members that allocation does not touch keep their values.
\<close>

definition zero_tx_stats :: gve_txq_stats where
  "zero_tx_stats = \<lparr>tbytes = 0, tpackets = 0, tso_packet_cnt = 0, tx_dropped_pkt = 0, tx_delayed_pkt_nospace_device = 0,
     tx_dropped_pkt_nospace_bufring = 0, tx_delayed_pkt_nospace_descring = 0, tx_delayed_pkt_nospace_compring = 0,
     tx_delayed_pkt_nospace_qpl_bufs = 0, tx_delayed_pkt_tsoerr = 0, tx_dropped_pkt_vlan = 0, tx_mbuf_collapse = 0,
     tx_mbuf_defrag = 0, tx_mbuf_defrag_err = 0, tx_mbuf_dmamap_enomem_err = 0, tx_mbuf_dmamap_err = 0, tx_timeout = 0\<rparr>"

definition zero_rx_stats :: gve_rxq_stats where
  "zero_rx_stats = \<lparr>rbytes = 0, rpackets = 0, rx_dropped_pkt = 0, rx_copybreak_cnt = 0, rx_frag_flip_cnt = 0, rx_frag_copy_cnt = 0,
     rx_dropped_pkt_desc_err = 0, rx_dropped_pkt_buf_post_fail = 0, rx_dropped_pkt_mbuf_alloc_fail = 0, rx_mbuf_dmamap_err = 0, rx_mbuf_mclget_null = 0\<rparr>"

definition qpl_zero_pages :: "gve_queue_page_list option \<Rightarrow> u8 list list" where
  "qpl_zero_pages q = replicate (case q of None \<Rightarrow> 0 | Some q \<Rightarrow> qpl_num_pages q) (replicate PAGE_SIZE 0)"

definition qpl_bus_addrs :: "gve_queue_page_list option \<Rightarrow> u64 list" where
  "qpl_bus_addrs q = (case q of None \<Rightarrow> [] | Some q \<Rightarrow> map h_bus (take (qpl_num_pages q) (ql_dmas q)))"

definition tx_alloc_data :: "gve_priv \<Rightarrow> tx_res \<Rightarrow> tx_union \<Rightarrow> tx_union" where
  "tx_alloc_data priv r u =
     (let n = unat (tx_desc_cnt priv)
      in case u of
           TxGqi tx \<Rightarrow> TxGqi (tx\<lparr>desc_ring := replicate n zero_desc,
             info := replicate n \<lparr>info_mbuf = None, enqueue_time_sec = 0, info_iov = replicate GVE_TX_MAX_DESCS zero_iov\<rparr>,
             fifo := (tr_fifo r)\<lparr>fifo_mem := concat (qpl_zero_pages (tr_qpl r))\<rparr>, last_kicked := 0, tx_stats := zero_tx_stats\<rparr>)
         | TxDqo tx \<Rightarrow>
             (let m = n - n div unat GVE_TX_MIN_RE_INTERVAL
              in TxDqo (tx\<lparr>dqo_desc_ring := replicate n zero_desc_dqo, compl_ring := replicate n zero_compl_desc,
                   pending_pkts := replicate m \<lparr>pp_mbuf = None, pp_time = 0, dma_loaded = False, qpl_buf_head = 0, num_qpl_bufs = 0,
                      pp_state = (if gve_is_qpl (queue_format priv) then GVE_PACKET_STATE_UNALLOCATED else GVE_PACKET_STATE_FREE), pp_next = 0\<rparr>,
                   num_pending_pkts := of_nat m,
                   qpl_bufs := replicate (GVE_TX_BUFS_PER_PAGE_DQO * length (qpl_zero_pages (tr_qpl r))) 0,
                   qpl_pages := qpl_zero_pages (tr_qpl r), qpl_dmas := qpl_bus_addrs (tr_qpl r), last_kicked := 0, tx_stats := zero_tx_stats\<rparr>)))"

definition rx_alloc_data :: "gve_priv \<Rightarrow> rx_res \<Rightarrow> rx_union \<Rightarrow> rx_union" where
  "rx_alloc_data priv r u =
     (let n = unat (rx_desc_cnt priv)
      in case u of
           RxGqi rx \<Rightarrow> RxGqi (gve_prefill_rx_slots n (rx\<lparr>rx_desc_ring := replicate n zero_rx_desc, data_ring := replicate n 0,
             page_info := replicate n \<lparr>page_offset = 0, pad = 0\<rparr>, rx_mask := ucast (rx_pages_per_qpl priv - 1),
             pages := qpl_zero_pages (rr_qpl r), lent := [], rx_stats := zero_rx_stats\<rparr>))
         | RxDqo rx \<Rightarrow>
             (let m = (if gve_is_qpl (queue_format priv) then GVE_RX_NUM_QPL_PAGES_DQO else n)
              in RxDqo (rx\<lparr>rxd_desc_ring := replicate n zero_rx_desc_dqo, rxd_compl_ring := replicate n zero_rx_compl_desc,
                   rxd_mask := of_nat n - 1, buf_cnt := m, bufs := replicate m \<lparr>rb_mbuf = None, rb_addr = 0, num_nic_frags = 0, next_idx = 0\<rparr>,
                   rxd_pages := qpl_zero_pages (rr_qpl r), rxd_dmas := qpl_bus_addrs (rr_qpl r), rxd_lent := [], rx_stats := zero_rx_stats\<rparr>)))"

definition upd_range :: "nat \<Rightarrow> nat \<Rightarrow> (nat \<Rightarrow> 'a \<Rightarrow> 'a) \<Rightarrow> 'a list \<Rightarrow> 'a list" where
  "upd_range start stop f xs = map (\<lambda>i. if start \<le> i \<and> i < stop then f i (xs ! i) else xs ! i) [0..<length xs]"

definition free_tx_rings :: "nat \<Rightarrow> nat \<Rightarrow> 'd softc \<Rightarrow> 'd softc option" where
  "free_tx_rings start stop s =
     (if stop \<le> start then Some s
      else case sc_tx s of
             None \<Rightarrow> None
           | Some (a, rs) \<Rightarrow> do {
               (rs, priv, k) \<leftarrow> gve_free_tx_rings start stop (rs, sc_priv s, sc_kern s);
               Some (s\<lparr>sc_tx := Some (a, rs), sc_priv := priv, sc_kern := k\<rparr>) })"

definition free_rx_rings :: "nat \<Rightarrow> nat \<Rightarrow> 'd softc \<Rightarrow> 'd softc option" where
  "free_rx_rings start stop s =
     (if stop \<le> start then Some s
      else case sc_rx s of
             None \<Rightarrow> None
           | Some (a, rs) \<Rightarrow> do {
               (rs, priv, k) \<leftarrow> gve_free_rx_rings start stop (rs, sc_priv s, sc_kern s);
               Some (s\<lparr>sc_rx := Some (a, rs), sc_priv := priv, sc_kern := k\<rparr>) })"

text \<open>The arrays must be there (\<open>KASSERT\<close>). The data of rings whose allocation has failed does not matter.\<close>

definition alloc_tx_rings :: "nat \<Rightarrow> nat \<Rightarrow> 'd softc \<Rightarrow> (err \<times> 'd softc) option" where
  "alloc_tx_rings start stop s =
     (case sc_tx s of
        None \<Rightarrow> None
      | Some (a, rs) \<Rightarrow> do {
          (e, rs, priv, k) \<leftarrow> gve_alloc_tx_rings start stop (rs, sc_priv s, sc_kern s);
          Some (e, s\<lparr>sc_tx := Some (a, rs), sc_priv := priv, sc_kern := k,
            sc_txq := upd_range start stop (\<lambda>i t. t\<lparr>tc_q := \<lparr>txq_ring = tx_alloc_data priv (rs ! i) (txq_ring (tc_q t)), txq_br = []\<rparr>\<rparr>) (sc_txq s)\<rparr>) })"

definition alloc_rx_rings :: "nat \<Rightarrow> nat \<Rightarrow> 'd softc \<Rightarrow> (err \<times> 'd softc) option" where
  "alloc_rx_rings start stop s =
     (case sc_rx s of
        None \<Rightarrow> None
      | Some (a, rs) \<Rightarrow> do {
          (e, rs, priv, k) \<leftarrow> gve_alloc_rx_rings start stop (rs, sc_priv s, sc_kern s);
          Some (e, s\<lparr>sc_rx := Some (a, rs), sc_priv := priv, sc_kern := k,
            sc_rxq := upd_range start stop (\<lambda>i r. r\<lparr>rc_ring := rx_alloc_data priv (rs ! i) (rc_ring r)\<rparr>) (sc_rxq s)\<rparr>) })"

end
