(* ===== verification/Gve_Updown.thy ===== *)
theory Gve_Updown
  imports Gve_Softc
begin

text \<open>
  Bringing the interface up and down: registration of the page lists, creation and destruction of the
  queues at the device with the start and stop of their task queues, interrupt masks, and \<open>gve_up\<close>, \<open>gve_down\<close> and
  \<open>gve_schedule_reset\<close> of \<open>gve_main.c\<close>.
\<close>

section \<open>Page lists (\<open>gve_qpl.c\<close>)\<close>

definition register_page_list :: "'d sys \<Rightarrow> gve_queue_page_list option \<Rightarrow> 'd softc \<Rightarrow> (err \<times> 'd softc) option" where
  "register_page_list y q s =
     (case q of
        None \<Rightarrow> None
      | Some q \<Rightarrow> do {
          (e, h, k) \<leftarrow> gve_dma_alloc_coherent null_dma (sc_kern s);
          if e \<noteq> None then Some (Some ENOMEM, s\<lparr>sc_kern := k\<rparr>)
          else do {
            let (e, s) = aq (gve_adminq_register_page_list (sy_aq y) (Inr \<lparr>bus_addr = h_bus h\<rparr>) (qpl_id q) (qpl_bus_addrs (Some q))) s;
            k \<leftarrow> gve_dma_free_coherent h k;
            Some (e, s\<lparr>sc_kern := k\<rparr>) } })"

text \<open>The loops stop at the first error.\<close>

fun until_err :: "(nat \<Rightarrow> 's \<Rightarrow> (err \<times> 's) option) \<Rightarrow> nat list \<Rightarrow> 's \<Rightarrow> (err \<times> 's) option" where
  "until_err f [] s = Some (None, s)"
| "until_err f (i # is) s = do { (e, s) \<leftarrow> f i s; if e \<noteq> None then Some (e, s) else until_err f is s }"

definition tx_qpl :: "nat \<Rightarrow> 'd softc \<Rightarrow> gve_queue_page_list option" where
  "tx_qpl i s = (case sc_tx s of None \<Rightarrow> None | Some (a, rs) \<Rightarrow> tr_qpl (rs ! i))"

definition rx_qpl :: "nat \<Rightarrow> 'd softc \<Rightarrow> gve_queue_page_list option" where
  "rx_qpl i s = (case sc_rx s of None \<Rightarrow> None | Some (a, rs) \<Rightarrow> rr_qpl (rs ! i))"

definition gve_register_qpls :: "'d sys \<Rightarrow> 'd softc \<Rightarrow> (err \<times> 'd softc) option" where
  "gve_register_qpls y s =
     (if get_flag s GVE_STATE_FLAG_QPLREG_OK then Some (None, s)
      else do {
        (e, s) \<leftarrow> until_err (\<lambda>i s. register_page_list y (tx_qpl i s) s) [0..<num_tx s] s;
        if e \<noteq> None then Some (e, s)
        else do {
          (e, s) \<leftarrow> until_err (\<lambda>i s. register_page_list y (rx_qpl i s) s) [0..<num_rx s] s;
          if e \<noteq> None then Some (e, s)
          else Some (None, set_flag GVE_STATE_FLAG_QPLREG_OK s) } })"

text \<open>The loops go on after an error; what counts is the last result.\<close>

fun unregister_loop :: "'d sys \<Rightarrow> (nat \<Rightarrow> 'd softc \<Rightarrow> gve_queue_page_list option) \<Rightarrow> nat list \<Rightarrow> err \<times> 'd softc \<Rightarrow> (err \<times> 'd softc) option" where
  "unregister_loop y qpl [] (e, s) = Some (e, s)"
| "unregister_loop y qpl (i # is) (e, s) =
     (case qpl i s of
        None \<Rightarrow> None
      | Some q \<Rightarrow> unregister_loop y qpl is (aq (gve_adminq_unregister_page_list (sy_aq y) (qpl_id q)) s))"

definition gve_unregister_qpls :: "'d sys \<Rightarrow> 'd softc \<Rightarrow> (err \<times> 'd softc) option" where
  "gve_unregister_qpls y s =
     (if \<not> get_flag s GVE_STATE_FLAG_QPLREG_OK then Some (None, s)
      else do {
        (e, s) \<leftarrow> unregister_loop y tx_qpl [0..<num_tx s] (sy_err0 y, s);
        (e, s) \<leftarrow> unregister_loop y rx_qpl [0..<num_rx s] (e, s);
        if e \<noteq> None then Some (e, s) else Some (None, clear_flag GVE_STATE_FLAG_QPLREG_OK s) })"

section \<open>Transmit rings (\<open>gve_tx.c\<close>)\<close>

definition upd_txq :: "nat \<Rightarrow> (tx_ctl \<Rightarrow> tx_ctl) \<Rightarrow> 'd softc \<Rightarrow> 'd softc" where
  "upd_txq i f s = s\<lparr>sc_txq := (sc_txq s)[i := f (sc_txq s ! i)]\<rparr>"

definition map_com :: "(gve_ring_com \<Rightarrow> gve_ring_com) \<Rightarrow> tx_union \<Rightarrow> tx_union" where
  "map_com f u = (case u of TxGqi tx \<Rightarrow> TxGqi (tx\<lparr>tx_com := f (tx_com tx)\<rparr>) | TxDqo tx \<Rightarrow> TxDqo (tx\<lparr>tx_com := f (tx_com tx)\<rparr>))"

definition txu_com :: "tx_union \<Rightarrow> gve_ring_com" where
  "txu_com u = (case u of TxGqi tx \<Rightarrow> tx_com tx | TxDqo tx \<Rightarrow> tx_com tx)"

text \<open>Either \<open>gve_clear_tx_ring\<close> or \<open>gve_clear_tx_ring_dqo\<close>, by the kind of ring.\<close>

definition clear_tx :: "nat \<Rightarrow> 'd softc \<Rightarrow> 'd softc" where
  "clear_tx i s =
     (let n = unat (tx_desc_cnt (sc_priv s)); t = sc_txq s ! i
      in case txq_ring (tc_q t) of
           TxGqi tx \<Rightarrow> upd_txq i (\<lambda>t. t\<lparr>tc_q := (tc_q t)\<lparr>txq_ring := TxGqi (gve_clear_tx_ring n tx)\<rparr>\<rparr>) s
         | TxDqo tx \<Rightarrow>
             (let (tx, evs) = gve_clear_tx_ring_dqo (is_qpl s) n (case tx_qpl i s of None \<Rightarrow> 0 | Some q \<Rightarrow> qpl_num_pages q) tx
              in emit (map TxEv evs) (upd_txq i (\<lambda>t. t\<lparr>tc_q := (tc_q t)\<lparr>txq_ring := TxDqo tx\<rparr>\<rparr>) s)))"

text \<open>What the device is told of a ring when its queue is created.\<close>

definition tx_ring_ctl :: "'d softc \<Rightarrow> tx_res list \<Rightarrow> nat \<Rightarrow> gve_ring_ctl" where
  "tx_ring_ctl s rs i =
     (let r = rs ! i
      in \<lparr>rc_ntfy_id = of_nat (ntfy_id_tx (sc_irqs s) i), rc_q_resources = h_bus (tr_q_resources_mem r), rc_desc_ring = h_bus (tr_desc_ring_mem r),
          rc_data_ring = 0, rc_compl_ring = h_bus (tr_compl_ring_mem r), rc_qpl_id = (case tr_qpl r of None \<Rightarrow> 0 | Some q \<Rightarrow> qpl_id q)\<rparr>)"

definition new_tq :: "'d softc \<Rightarrow> nat \<times> 'd softc" where
  "new_tq s = (case kalloc TASKQUEUE (sc_kern s) of (t, k) \<Rightarrow> (t, s\<lparr>sc_kern := k\<rparr>))"

definition free_tq :: "nat option \<Rightarrow> 'd softc \<Rightarrow> 'd softc option" where
  "free_tq q s = do { k \<leftarrow> kfree_opt TASKQUEUE q (sc_kern s); Some (s\<lparr>sc_kern := k\<rparr>) }"

definition gve_start_tx_ring :: "nat \<Rightarrow> 'd softc \<Rightarrow> 'd softc" where
  "gve_start_tx_ring i s =
     (let s = upd_txq i (\<lambda>t. t\<lparr>tc_q := (tc_q t)\<lparr>txq_ring := set_stopped False (txq_ring (tc_q t))\<rparr>\<rparr>) s;
          (c, s) = new_tq s;
          s = upd_txq i (\<lambda>t. t\<lparr>tc_cleanup_tq := Some c\<rparr>) s;
          (x, s) = new_tq s
      in upd_txq i (\<lambda>t. t\<lparr>tc_xmit_tq := Some x\<rparr>) s)"

definition start_created_tx :: "'d sys \<Rightarrow> tx_res list \<Rightarrow> nat \<Rightarrow> 'd softc \<Rightarrow> 'd softc" where
  "start_created_tx y rs i s =
     (let irq = sy_irq_db y (sc_nic s) (ntfy_id_tx (sc_irqs s) i);
          (db, cnt) = sy_q_res y (sc_nic s) (h_bus (tr_q_resources_mem (rs ! i)))
      in gve_start_tx_ring i (upd_txq i (\<lambda>t. t\<lparr>tc_q := (tc_q t)\<lparr>txq_ring :=
           map_com (\<lambda>c. c\<lparr>irq_db_offset := 4 * irq, db_offset := 4 * db, counter_idx := cnt\<rparr>) (txq_ring (tc_q t))\<rparr>\<rparr>) s))"

text \<open>Clearing a ring that is not allocated follows a NULL pointer.\<close>

definition gve_create_tx_rings :: "'d sys \<Rightarrow> 'd softc \<Rightarrow> (err \<times> 'd softc) option" where
  "gve_create_tx_rings y s =
     (if get_flag s GVE_STATE_FLAG_TX_RINGS_OK then Some (None, s)
      else case sc_tx s of
             None \<Rightarrow> None
           | Some (a, rs) \<Rightarrow>
               if \<exists>i < num_tx s. \<not> tr_desc_ring (rs ! i) \<or> (is_gqi s \<and> tr_qpl (rs ! i) = None) then None
               else
                 (let s = fold clear_tx [0..<num_tx s] s;
                      (e, s) = aq (gve_adminq_create_tx_queues (sy_err0 y) (sy_aq y) (tx_ring_ctl s rs) (num_tx s)) s
                  in if e \<noteq> None then Some (e, s)
                     else Some (None, set_flag GVE_STATE_FLAG_TX_RINGS_OK (fold (start_created_tx y rs) [0..<num_tx s] s))))"

definition gve_stop_tx_ring :: "nat \<Rightarrow> 'd softc \<Rightarrow> 'd softc option" where
  "gve_stop_tx_ring i s = do {
     s \<leftarrow> free_tq (tc_cleanup_tq (sc_txq s ! i)) s;
     let s = upd_txq i (\<lambda>t. t\<lparr>tc_cleanup_tq := None\<rparr>) s;
     s \<leftarrow> free_tq (tc_xmit_tq (sc_txq s ! i)) s;
     Some (upd_txq i (\<lambda>t. t\<lparr>tc_xmit_tq := None\<rparr>) s) }"

definition gve_destroy_tx_rings :: "'d sys \<Rightarrow> 'd softc \<Rightarrow> (err \<times> 'd softc) option" where
  "gve_destroy_tx_rings y s = do {
     s \<leftarrow> fold_opt gve_stop_tx_ring [0..<num_tx s] s;
     if get_flag s GVE_STATE_FLAG_TX_RINGS_OK
     then (let (e, s) = aq (gve_adminq_destroy_tx_queues (sy_err0 y) (sy_aq y) (num_tx s)) s
           in if e \<noteq> None then Some (e, s) else Some (None, clear_flag GVE_STATE_FLAG_TX_RINGS_OK s))
     else Some (None, s) }"

section \<open>Receive rings (\<open>gve_rx.c\<close>)\<close>

definition upd_rxq :: "nat \<Rightarrow> (rx_ctl \<Rightarrow> rx_ctl) \<Rightarrow> 'd softc \<Rightarrow> 'd softc" where
  "upd_rxq i f s = s\<lparr>sc_rxq := (sc_rxq s)[i := f (sc_rxq s ! i)]\<rparr>"

definition rxu_com :: "rx_union \<Rightarrow> gve_ring_com" where
  "rxu_com u = (case u of RxGqi rx \<Rightarrow> rx_com rx | RxDqo rx \<Rightarrow> rx_com rx)"

definition map_rx_com :: "(gve_ring_com \<Rightarrow> gve_ring_com) \<Rightarrow> rx_union \<Rightarrow> rx_union" where
  "map_rx_com f u = (case u of RxGqi rx \<Rightarrow> RxGqi (rx\<lparr>rx_com := f (rx_com rx)\<rparr>) | RxDqo rx \<Rightarrow> RxDqo (rx\<lparr>rx_com := f (rx_com rx)\<rparr>))"

definition reset_rx_ctx :: "rx_union \<Rightarrow> rx_union" where
  "reset_rx_ctx u = (case u of RxGqi rx \<Rightarrow> RxGqi (rx\<lparr>rx_ctx := empty_ctx\<rparr>) | RxDqo rx \<Rightarrow> RxDqo (rx\<lparr>rx_ctx := empty_ctx\<rparr>))"

definition clear_rx :: "nat \<Rightarrow> 'd softc \<Rightarrow> 'd softc" where
  "clear_rx i s =
     (let n = unat (rx_desc_cnt (sc_priv s))
      in case rc_ring (sc_rxq s ! i) of
           RxGqi rx \<Rightarrow> upd_rxq i (\<lambda>r. r\<lparr>rc_ring := RxGqi (gve_clear_rx_ring n rx)\<rparr>) s
         | RxDqo rx \<Rightarrow>
             (let (rx, evs) = gve_clear_rx_ring_dqo (is_qpl s) n rx
              in emit (map RxEv evs) (upd_rxq i (\<lambda>r. r\<lparr>rc_ring := RxDqo rx\<rparr>) s)))"

definition rx_ring_ctl :: "'d softc \<Rightarrow> rx_res list \<Rightarrow> nat \<Rightarrow> gve_ring_ctl" where
  "rx_ring_ctl s rs i =
     (let r = rs ! i
      in \<lparr>rc_ntfy_id = of_nat (ntfy_id_rx (sc_irqs s) i), rc_q_resources = h_bus (rr_q_resources_mem r), rc_desc_ring = h_bus (rr_desc_ring_mem r),
          rc_data_ring = h_bus (rr_data_ring_mem r), rc_compl_ring = h_bus (rr_compl_ring_mem r), rc_qpl_id = (case rr_qpl r of None \<Rightarrow> 0 | Some q \<Rightarrow> qpl_id q)\<rparr>)"

definition gve_start_rx_ring :: "'d sys \<Rightarrow> nat \<Rightarrow> 'd softc \<Rightarrow> 'd softc" where
  "gve_start_rx_ring y i s =
     (let s = (if IFCAP_LRO \<in> if_capenable s then upd_rxq i (\<lambda>r. r\<lparr>rc_lro := True\<rparr>) s else s);
          (c, s) = new_tq s;
          s = upd_rxq i (\<lambda>r. r\<lparr>rc_cleanup_tq := Some c\<rparr>) s
      in case rc_ring (sc_rxq s ! i) of
           RxGqi rx \<Rightarrow> emit [RxEv (RX_DB_WRITE_4 (db_offset (rx_com rx)) (fill_cnt rx))] s
         | RxDqo rx \<Rightarrow>
             (let (rx, evs) = gve_rx_prefill_buffers_dqo (is_qpl s) (sy_rxd y i) rx
              in emit (map RxEv evs) (upd_rxq i (\<lambda>r. r\<lparr>rc_ring := RxDqo rx\<rparr>) s)))"

definition start_created_rx :: "'d sys \<Rightarrow> rx_res list \<Rightarrow> nat \<Rightarrow> 'd softc \<Rightarrow> 'd softc" where
  "start_created_rx y rs i s =
     (let irq = sy_irq_db y (sc_nic s) (ntfy_id_rx (sc_irqs s) i);
          (db, c) = sy_q_res y (sc_nic s) (h_bus (rr_q_resources_mem (rs ! i)))
      in gve_start_rx_ring y i (upd_rxq i (\<lambda>r. r\<lparr>rc_ring :=
           map_rx_com (\<lambda>m. m\<lparr>irq_db_offset := 4 * irq, db_offset := 4 * db, counter_idx := c\<rparr>) (rc_ring r)\<rparr>) s))"

definition gve_create_rx_rings :: "'d sys \<Rightarrow> 'd softc \<Rightarrow> (err \<times> 'd softc) option" where
  "gve_create_rx_rings y s =
     (if get_flag s GVE_STATE_FLAG_RX_RINGS_OK then Some (None, s)
      else case sc_rx s of
             None \<Rightarrow> None
           | Some (a, rs) \<Rightarrow>
               if \<exists>i < num_rx s. \<not> rr_desc_ring (rs ! i) \<or> (is_gqi s \<and> rr_qpl (rs ! i) = None) then None
               else
                 (let s = fold clear_rx [0..<num_rx s] s;
                      (e, s) = aq (gve_adminq_create_rx_queues (sy_err0 y) (sy_aq y) (IFCAP_LRO \<in> if_capenable s \<and> \<not> gve_disable_hw_lro y)
                                    (rx_ring_ctl s rs) (num_rx s)) s
                  in if e \<noteq> None then Some (e, s)
                     else Some (None, set_flag GVE_STATE_FLAG_RX_RINGS_OK (fold (start_created_rx y rs) [0..<num_rx s] s))))"

definition gve_stop_rx_ring :: "nat \<Rightarrow> 'd softc \<Rightarrow> 'd softc option" where
  "gve_stop_rx_ring i s = do {
     s \<leftarrow> free_tq (rc_cleanup_tq (sc_rxq s ! i)) s;
     Some (upd_rxq i (\<lambda>r. r\<lparr>rc_cleanup_tq := None, rc_lro := False, rc_ring := reset_rx_ctx (rc_ring r)\<rparr>) s) }"

definition gve_destroy_rx_rings :: "'d sys \<Rightarrow> 'd softc \<Rightarrow> (err \<times> 'd softc) option" where
  "gve_destroy_rx_rings y s = do {
     s \<leftarrow> fold_opt gve_stop_rx_ring [0..<num_rx s] s;
     if get_flag s GVE_STATE_FLAG_RX_RINGS_OK
     then (let (e, s) = aq (gve_adminq_destroy_rx_queues (sy_err0 y) (sy_aq y) (num_rx s)) s
           in if e \<noteq> None then Some (e, s) else Some (None, clear_flag GVE_STATE_FLAG_RX_RINGS_OK s))
     else Some (None, s) }"

section \<open>Interrupt doorbells (\<open>gve_utils.c\<close>)\<close>

definition GVE_ITR_INTERVAL_DQO_SHIFT :: nat where "GVE_ITR_INTERVAL_DQO_SHIFT = 5"
definition GVE_ITR_INTERVAL_DQO_MASK :: u32 where "GVE_ITR_INTERVAL_DQO_MASK = push_bit 12 1 - 1"
definition GVE_TX_IRQ_RATELIMIT_US_DQO :: u32 where "GVE_TX_IRQ_RATELIMIT_US_DQO = 50"
definition GVE_RX_IRQ_RATELIMIT_US_DQO :: u32 where "GVE_RX_IRQ_RATELIMIT_US_DQO = 20"

definition gve_setup_itr_interval_dqo :: "u32 \<Rightarrow> u32" where
  "gve_setup_itr_interval_dqo interval_us =
     GVE_ITR_ENABLE_BIT_DQO OR push_bit GVE_ITR_INTERVAL_DQO_SHIFT (drop_bit 1 interval_us AND GVE_ITR_INTERVAL_DQO_MASK)"

definition tx_irq_db :: "nat \<Rightarrow> 'd softc \<Rightarrow> u32" where
  "tx_irq_db i s = irq_db_offset (txu_com (txq_ring (tc_q (sc_txq s ! i))))"

definition rx_irq_db :: "nat \<Rightarrow> 'd softc \<Rightarrow> u32" where
  "rx_irq_db i s = irq_db_offset (rxu_com (rc_ring (sc_rxq s ! i)))"

definition gve_unmask_all_queue_irqs :: "'d softc \<Rightarrow> 'd softc" where
  "gve_unmask_all_queue_irqs s =
     (let s = fold (\<lambda>i s. if is_gqi s then gve_db_bar_write_4 (tx_irq_db i s) 0 s
                          else gve_db_bar_dqo_write_4 (tx_irq_db i s) (gve_setup_itr_interval_dqo GVE_TX_IRQ_RATELIMIT_US_DQO) s) [0..<num_tx s] s
      in fold (\<lambda>i s. if is_gqi s then gve_db_bar_write_4 (rx_irq_db i s) 0 s
                     else gve_db_bar_dqo_write_4 (rx_irq_db i s) (gve_setup_itr_interval_dqo GVE_RX_IRQ_RATELIMIT_US_DQO) s) [0..<num_rx s] s)"

definition gve_mask_all_queue_irqs :: "'d softc \<Rightarrow> 'd softc" where
  "gve_mask_all_queue_irqs s =
     (let s = fold (\<lambda>i s. gve_db_bar_write_4 (tx_irq_db i s) GVE_IRQ_MASK s) [0..<num_tx s] s
      in fold (\<lambda>i s. gve_db_bar_write_4 (rx_irq_db i s) GVE_IRQ_MASK s) [0..<num_rx s] s)"

section \<open>Up and down (\<open>gve_main.c\<close>)\<close>

definition gve_schedule_reset :: "'d softc \<Rightarrow> 'd softc" where
  "gve_schedule_reset s =
     (if get_flag s GVE_STATE_FLAG_IN_RESET then s
      else (set_flag GVE_STATE_FLAG_DO_RESET s)\<lparr>sc_service_pending := True\<rparr>)"

definition gve_start_tx_timeout_service :: "'d softc \<Rightarrow> 'd softc" where
  "gve_start_tx_timeout_service s = emit [CALLOUT_RESET] (s\<lparr>sc_priv := (sc_priv s)\<lparr>check_tx_queue_idx := 0\<rparr>, sc_timer := True\<rparr>)"

definition gve_stop_tx_timeout_service :: "'d softc \<Rightarrow> 'd softc" where
  "gve_stop_tx_timeout_service s = s\<lparr>sc_timer := False\<rparr>"

definition hwassist_of :: "if_cap set \<Rightarrow> csum_flag set" where
  "hwassist_of caps =
     (if IFCAP_TXCSUM \<in> caps then {CSUM_TCP, CSUM_UDP} else {}) \<union>
     (if IFCAP_TXCSUM_IPV6 \<in> caps then {CSUM_IP6_TCP, CSUM_IP6_UDP} else {}) \<union>
     (if IFCAP_TSO4 \<in> caps then {CSUM_IP_TSO} else {}) \<union> (if IFCAP_TSO6 \<in> caps then {CSUM_IP6_TSO} else {})"

definition link_up :: "'d softc \<Rightarrow> 'd softc" where
  "link_up s = set_flag GVE_STATE_FLAG_LINK_UP (emit [IF_LINK_STATE_CHANGE True] s)"

definition link_down :: "'d softc \<Rightarrow> 'd softc" where
  "link_down s = clear_flag GVE_STATE_FLAG_LINK_UP (emit [IF_LINK_STATE_CHANGE False] s)"

text \<open>The steps of \<open>gve_up\<close> that can fail, and those after them.\<close>

definition create_all :: "'d sys \<Rightarrow> 'd softc \<Rightarrow> (err \<times> 'd softc) option" where
  "create_all y s = do {
     (e, s) \<leftarrow> (if is_qpl s then gve_register_qpls y s else Some (None, s));
     if e \<noteq> None then Some (e, s)
     else do {
       (e, s) \<leftarrow> gve_create_rx_rings y s;
       if e \<noteq> None then Some (e, s) else gve_create_tx_rings y s } }"

definition up_finish :: "'d softc \<Rightarrow> 'd softc" where
  "up_finish s =
     (let s = s\<lparr>if_running := True, if_oactive := False\<rparr>;
          s = (if \<not> get_flag s GVE_STATE_FLAG_LINK_UP then link_up s else s);
          s = set_flag GVE_STATE_FLAG_QUEUES_UP (gve_unmask_all_queue_irqs s);
          s = s\<lparr>sc_priv := (sc_priv s)\<lparr>interface_up_cnt := interface_up_cnt (sc_priv s) + 1\<rparr>\<rparr>
      in gve_start_tx_timeout_service s)"

definition gve_up :: "'d sys \<Rightarrow> 'd softc \<Rightarrow> (err \<times> 'd softc) option" where
  "gve_up y s =
     (if \<not> sc_attached s then Some (Some ENXIO, s)
      else if get_flag s GVE_STATE_FLAG_QUEUES_UP then Some (None, s)
      else do {
        (e, s) \<leftarrow> create_all y (s\<lparr>if_hwassist := hwassist_of (if_capenable s)\<rparr>);
        if e \<noteq> None then Some (e, gve_schedule_reset s) else Some (None, up_finish s) })"

definition destroy_all :: "'d sys \<Rightarrow> 'd softc \<Rightarrow> (err \<times> 'd softc) option" where
  "destroy_all y s = do {
     (e, s) \<leftarrow> gve_destroy_rx_rings y s;
     if e \<noteq> None then Some (e, s)
     else do {
       (e, s) \<leftarrow> gve_destroy_tx_rings y s;
       if e \<noteq> None then Some (e, s)
       else if is_qpl s then gve_unregister_qpls y s else Some (None, s) } }"

definition down_finish :: "'d softc \<Rightarrow> 'd softc" where
  "down_finish s =
     (let s = (if is_gqi s then gve_mask_all_queue_irqs s else s);
          s = clear_flag GVE_STATE_FLAG_QUEUES_UP s
      in s\<lparr>sc_priv := (sc_priv s)\<lparr>interface_down_cnt := interface_down_cnt (sc_priv s) + 1\<rparr>\<rparr>)"

definition gve_down :: "'d sys \<Rightarrow> 'd softc \<Rightarrow> 'd softc option" where
  "gve_down y s =
     (if \<not> get_flag s GVE_STATE_FLAG_QUEUES_UP then Some s
      else
        let s = gve_stop_tx_timeout_service s;
            s = (if get_flag s GVE_STATE_FLAG_LINK_UP then link_down s else s);
            s = s\<lparr>if_running := False, if_oactive := True\<rparr>
        in do {
          (e, s) \<leftarrow> destroy_all y s;
          Some (if e \<noteq> None then gve_schedule_reset s else down_finish s) })"

end
