(* ===== verification/Gve_Control.thy ===== *)
theory Gve_Control
  imports Gve_Updown
begin

text \<open>
  The rest of the control path of \<open>gve_main.c\<close> and the handlers of \<open>gve_sysctl.c\<close>: device resources, reset and the
  service task, the transmit timeout service, MTU, ioctls, changes of the number and size of the rings, statistics.
\<close>

section \<open>The admin queue and its memory\<close>

definition adminq_alloc :: "'d sys \<Rightarrow> 'd softc \<Rightarrow> (err \<times> 'd softc) option" where
  "adminq_alloc y s =
     (if get_flag s GVE_STATE_FLAG_ADMINQ_OK \<or> aq_mem (sc_priv s) \<noteq> None
      then Some (aq (gve_adminq_alloc (sy_aq y) (Inl ENOMEM)) s)
      else do {
        (e, h, k) \<leftarrow> gve_dma_alloc_coherent (sc_aq_mem s) (sc_kern s);
        let s = s\<lparr>sc_aq_mem := h, sc_kern := k\<rparr>;
        Some (aq (gve_adminq_alloc (sy_aq y) (case e of Some e \<Rightarrow> Inl e | None \<Rightarrow> Inr \<lparr>bus_addr = h_bus h\<rparr>)) s) })"

definition release_adminq :: "'d sys \<Rightarrow> 'd softc \<Rightarrow> 'd softc option" where
  "release_adminq y s =
     (if \<not> get_flag s GVE_STATE_FLAG_ADMINQ_OK then Some s
      else do {
        (priv, d) \<leftarrow> gve_release_adminq (sy_fuel y) (sy_aq y) (sc_priv s, sc_nic s);
        k \<leftarrow> gve_dma_free_coherent (sc_aq_mem s) (sc_kern s);
        Some (s\<lparr>sc_priv := priv, sc_nic := d, sc_kern := k, sc_aq_mem := null_dma\<rparr>) })"

text \<open>A buffer for the device that lives as long as one command: \<open>f\<close> gets it, and it is freed afterwards.\<close>

definition with_dma :: "(gve_dma_handle \<Rightarrow> 'd softc \<Rightarrow> (err \<times> 'd softc) option) \<Rightarrow> (errno \<Rightarrow> errno) \<Rightarrow> 'd softc \<Rightarrow> (err \<times> 'd softc) option" where
  "with_dma f on_err s = do {
     (e, h, k) \<leftarrow> gve_dma_alloc_coherent null_dma (sc_kern s);
     case e of
       Some e \<Rightarrow> Some (Some (on_err e), s\<lparr>sc_kern := k\<rparr>)
     | None \<Rightarrow> do {
         (e, s) \<leftarrow> f \<lparr>bus_addr = h_bus h\<rparr> (s\<lparr>sc_kern := k\<rparr>);
         k \<leftarrow> gve_dma_free_coherent h (sc_kern s);
         Some (e, s\<lparr>sc_kern := k\<rparr>) } }"

definition get_ptype_map :: "'d sys \<Rightarrow> 'd softc \<Rightarrow> (err \<times> 'd softc) option" where
  "get_ptype_map y s = with_dma (\<lambda>h s.
     case sc_ptype_lut s of
       None \<Rightarrow> (case aq (\<lambda>p. case gve_adminq_get_ptype_map_dqo (sy_aq y) (Inr h) [] p of (e, _, p) \<Rightarrow> (e, p)) s of
                  (None, s) \<Rightarrow> None
                | (e, s) \<Rightarrow> Some (e, s))
     | Some (a, lut) \<Rightarrow>
         (case gve_adminq_get_ptype_map_dqo (sy_aq y) (Inr h) lut (sc_priv s, sc_nic s) of (e, lut, priv, d) \<Rightarrow>
            Some (e, s\<lparr>sc_priv := priv, sc_nic := d, sc_ptype_lut := Some (a, lut)\<rparr>))) (\<lambda>e. e) s"

text \<open>\<open>struct gve_driver_info\<close>: 4 bytes, three 32-bit words, four 64-bit words, two strings of 128 bytes.\<close>

definition DRIVER_INFO_SIZE :: u64 where "DRIVER_INFO_SIZE = 4 + 3 * 4 + 4 * 8 + 2 * 128"

definition gve_verify_driver_compatibility :: "'d sys \<Rightarrow> 'd softc \<Rightarrow> (err \<times> 'd softc) option" where
  "gve_verify_driver_compatibility y =
     with_dma (\<lambda>h s. case aq (gve_adminq_verify_driver_compatibility (sy_aq y) DRIVER_INFO_SIZE (bus_addr h)) s of
                       (e, s) \<Rightarrow> Some (if e = Some EOPNOTSUPP then None else e, s)) (\<lambda>e. ENOMEM)"

definition describe_device :: "'d sys \<Rightarrow> 'd softc \<Rightarrow> (err \<times> 'd softc) option" where
  "describe_device y =
     with_dma (\<lambda>h s. do { (e, priv, d) \<leftarrow> gve_adminq_describe_device (sy_aq y) (Inr h) (sc_priv s, sc_nic s);
                          Some (e, s\<lparr>sc_priv := priv, sc_nic := d\<rparr>) }) (\<lambda>e. e)"

definition MAX_TX_QUEUES :: nat where "MAX_TX_QUEUES = 8"
definition MAX_RX_QUEUES :: nat where "MAX_RX_QUEUES = 12"
definition DEVICE_STATUS :: nat where "DEVICE_STATUS = 0"
definition GVE_DEVICE_STATUS_RESET_MASK :: u32 where "GVE_DEVICE_STATUS_RESET_MASK = push_bit 1 1"
definition GVE_DEVICE_STATUS_LINK_STATUS :: u32 where "GVE_DEVICE_STATUS_LINK_STATUS = push_bit 2 1"

definition gve_set_queue_cnts :: "'d sys \<Rightarrow> 'd softc \<Rightarrow> 'd softc" where
  "gve_set_queue_cnts y s =
     (let (t, s) = gve_reg_bar_read_4 y MAX_TX_QUEUES s;
          (r, s) = gve_reg_bar_read_4 y MAX_RX_QUEUES s;
          mt = (ucast t :: u16); mr = (ucast r :: u16);
          dflt = default_num_queues (sc_priv s);
          nt = (if dflt > 0 then min dflt mt else mt);
          nr = (if dflt > 0 then min dflt mr else mr);
          nq = ucast mt + ucast mr
      in s\<lparr>sc_priv := (sc_priv s)\<lparr>tx_cfg := \<lparr>max_queues = mt, num_queues_cfg = nt\<rparr>, rx_cfg := \<lparr>max_queues = mr, num_queues_cfg = nr\<rparr>,
             num_queues := nq\<rparr>, sc_mgmt_msix_idx := nq\<rparr>)"

definition gve_alloc_adminq_and_describe_device :: "'d sys \<Rightarrow> 'd softc \<Rightarrow> (err \<times> 'd softc) option" where
  "gve_alloc_adminq_and_describe_device y s = do {
     (e, s) \<leftarrow> adminq_alloc y s;
     if e \<noteq> None then Some (e, s)
     else do {
       (e, s) \<leftarrow> gve_verify_driver_compatibility y s;
       if e \<noteq> None then do { s \<leftarrow> release_adminq y s; Some (e, s) }
       else do {
         (e, s) \<leftarrow> describe_device y s;
         if e \<noteq> None then do { s \<leftarrow> release_adminq y s; Some (e, s) }
         else (let s = gve_set_queue_cnts y s in Some (None, s\<lparr>sc_priv := (sc_priv s)\<lparr>num_registered_pages := 0\<rparr>\<rparr>)) } } }"

section \<open>Device resources\<close>

definition gve_alloc_counter_array :: "'d softc \<Rightarrow> (err \<times> 'd softc) option" where
  "gve_alloc_counter_array s = do {
     (e, h, k) \<leftarrow> gve_dma_alloc_coherent (sc_counter_mem s) (sc_kern s);
     let s = s\<lparr>sc_counter_mem := h, sc_kern := k, sc_priv := (sc_priv s)\<lparr>counter_array_mem := h_bus h\<rparr>\<rparr>;
     if e \<noteq> None then Some (e, s) else Some (None, s\<lparr>sc_counters := True\<rparr>) }"

definition gve_free_counter_array :: "'d softc \<Rightarrow> 'd softc option" where
  "gve_free_counter_array s = do {
     k \<leftarrow> (if sc_counters s then gve_dma_free_coherent (sc_counter_mem s) (sc_kern s) else Some (sc_kern s));
     Some (s\<lparr>sc_kern := k, sc_counter_mem := null_dma, sc_priv := (sc_priv s)\<lparr>counter_array_mem := 0\<rparr>\<rparr>) }"

definition gve_alloc_irq_db_array :: "'d softc \<Rightarrow> (err \<times> 'd softc) option" where
  "gve_alloc_irq_db_array s = do {
     (e, h, k) \<leftarrow> gve_dma_alloc_coherent (sc_irq_db_mem s) (sc_kern s);
     let s = s\<lparr>sc_irq_db_mem := h, sc_kern := k, sc_priv := (sc_priv s)\<lparr>irqs_db_mem := h_bus h\<rparr>\<rparr>;
     if e \<noteq> None then Some (e, s) else Some (None, s\<lparr>sc_irq_db := True\<rparr>) }"

definition gve_free_irq_db_array :: "'d softc \<Rightarrow> 'd softc option" where
  "gve_free_irq_db_array s = do {
     k \<leftarrow> (if sc_irq_db s then gve_dma_free_coherent (sc_irq_db_mem s) (sc_kern s) else Some (sc_kern s));
     Some (s\<lparr>sc_kern := k, sc_irq_db_mem := null_dma, sc_priv := (sc_priv s)\<lparr>irqs_db_mem := 0\<rparr>\<rparr>) }"

definition gve_deconfigure_and_free_device_resources :: "'d sys \<Rightarrow> 'd softc \<Rightarrow> 'd softc option" where
  "gve_deconfigure_and_free_device_resources y s =
     (let (e, s) = (if get_flag s GVE_STATE_FLAG_RESOURCES_OK
                    then (case aq (gve_adminq_deconfigure_device_resources (sy_aq y)) s of
                            (e, s) \<Rightarrow> (e, if e = None then clear_flag GVE_STATE_FLAG_RESOURCES_OK s else s))
                    else (None, s))
      in if e \<noteq> None then Some s
         else do {
           s \<leftarrow> gve_free_irq_db_array s;
           s \<leftarrow> gve_free_counter_array s;
           case sc_ptype_lut s of
             None \<Rightarrow> Some s
           | Some (a, lut) \<Rightarrow> do { k \<leftarrow> kfree MALLOC a (sc_kern s); Some (s\<lparr>sc_kern := k, sc_ptype_lut := None\<rparr>) } })"

text \<open>Configuring the device, with the error of the command and of the packet type table.\<close>

definition configure_device :: "'d sys \<Rightarrow> 'd softc \<Rightarrow> (err \<times> 'd softc) option" where
  "configure_device y s =
     (case aq (gve_adminq_configure_device_resources (sy_aq y)) s of
        (Some e, s) \<Rightarrow> Some (Some ENXIO, s)
      | (None, s) \<Rightarrow>
          if is_gqi s then Some (None, s)
          else do {
            let (a, k) = kalloc MALLOC (sc_kern s);
            (e, s) \<leftarrow> get_ptype_map y (s\<lparr>sc_kern := k, sc_ptype_lut := Some (a, replicate GVE_NUM_PTYPES (0, 0))\<rparr>);
            Some (e, s) })"

definition gve_alloc_and_configure_device_resources :: "'d sys \<Rightarrow> 'd softc \<Rightarrow> (err \<times> 'd softc) option" where
  "gve_alloc_and_configure_device_resources y s =
     (if get_flag s GVE_STATE_FLAG_RESOURCES_OK then Some (None, s)
      else do {
        (e, s) \<leftarrow> gve_alloc_counter_array s;
        if e \<noteq> None then Some (e, s)
        else do {
          (e, s) \<leftarrow> gve_alloc_irq_db_array s;
          (e, s) \<leftarrow> (if e \<noteq> None then Some (e, s) else configure_device y s);
          if e \<noteq> None then do { s \<leftarrow> gve_deconfigure_and_free_device_resources y s; Some (e, s) }
          else Some (None, set_flag GVE_STATE_FLAG_RESOURCES_OK s) } })"

section \<open>Reset\<close>

text \<open>The loops write through the two pointers. The contents are the device's.\<close>

definition gve_clear_device_resources :: "'d softc \<Rightarrow> 'd softc option" where
  "gve_clear_device_resources s =
     (if (num_event_counters (sc_priv s) \<noteq> 0 \<and> \<not> sc_counters s) \<or> (num_queues (sc_priv s) \<noteq> 0 \<and> \<not> sc_irq_db s) then None
      else Some (s\<lparr>sc_ptype_lut := map_option (\<lambda>(a, lut). (a, replicate GVE_NUM_PTYPES (0, 0))) (sc_ptype_lut s)\<rparr>))"

definition gve_restore :: "'d sys \<Rightarrow> 'd softc \<Rightarrow> 'd softc option" where
  "gve_restore y s = do {
     (e, s) \<leftarrow> adminq_alloc y s;
     if e \<noteq> None then Some s
     else do {
       let (e, s) = aq (gve_adminq_configure_device_resources (sy_aq y)) s;
       if e \<noteq> None then Some s
       else do {
         (e, s) \<leftarrow> (if is_gqi s then Some (None, s) else get_ptype_map y s);
         if e \<noteq> None then Some s
         else do { (e, s) \<leftarrow> gve_up y s; Some s } } } }"

definition gve_handle_reset :: "'d sys \<Rightarrow> 'd softc \<Rightarrow> 'd softc option" where
  "gve_handle_reset y s =
     (if \<not> get_flag s GVE_STATE_FLAG_DO_RESET then Some s
      else do {
        let s = set_flag GVE_STATE_FLAG_IN_RESET (clear_flag GVE_STATE_FLAG_DO_RESET s);
        let s = link_down (s\<lparr>if_running := False, if_oactive := True\<rparr>);
        s \<leftarrow> release_adminq y s;
        let s = clear_flag GVE_STATE_FLAG_TX_RINGS_OK (clear_flag GVE_STATE_FLAG_RX_RINGS_OK
                  (clear_flag GVE_STATE_FLAG_QPLREG_OK (clear_flag GVE_STATE_FLAG_RESOURCES_OK s)));
        s \<leftarrow> gve_down y s;
        s \<leftarrow> gve_clear_device_resources s;
        s \<leftarrow> gve_restore y s;
        let s = s\<lparr>sc_priv := (sc_priv s)\<lparr>reset_cnt := reset_cnt (sc_priv s) + 1\<rparr>\<rparr>;
        Some (clear_flag GVE_STATE_FLAG_IN_RESET s) })"

definition gve_handle_link_status :: "'d sys \<Rightarrow> 'd softc \<Rightarrow> 'd softc" where
  "gve_handle_link_status y s =
     (let (status, s) = gve_reg_bar_read_4 y DEVICE_STATUS s;
          up = (status AND GVE_DEVICE_STATUS_LINK_STATUS \<noteq> 0)
      in if up = get_flag s GVE_STATE_FLAG_LINK_UP then s
         else if up then link_up s else link_down s)"

definition gve_service_task :: "'d sys \<Rightarrow> 'd softc \<Rightarrow> 'd softc option" where
  "gve_service_task y s =
     (let s = s\<lparr>sc_service_pending := False\<rparr>;
          (status, s) = gve_reg_bar_read_4 y DEVICE_STATUS s;
          s = (if GVE_DEVICE_STATUS_RESET_MASK AND status \<noteq> 0 \<and> \<not> get_flag s GVE_STATE_FLAG_IN_RESET
               then set_flag GVE_STATE_FLAG_DO_RESET s else s)
      in do { s \<leftarrow> gve_handle_reset y s; Some (gve_handle_link_status y s) })"

definition gve_mgmnt_intr :: "'d softc \<Rightarrow> 'd softc" where
  "gve_mgmnt_intr s = s\<lparr>sc_service_pending := True\<rparr>"

section \<open>Transmit timeouts\<close>

definition txu_last_kicked :: "tx_union \<Rightarrow> int" where
  "txu_last_kicked u = (case u of TxGqi tx \<Rightarrow> last_kicked tx | TxDqo tx \<Rightarrow> last_kicked tx)"

definition gve_set_timestamp :: "int \<Rightarrow> tx_union \<Rightarrow> tx_union" where
  "gve_set_timestamp now u = (case u of TxGqi tx \<Rightarrow> TxGqi (tx\<lparr>last_kicked := now\<rparr>) | TxDqo tx \<Rightarrow> TxDqo (tx\<lparr>last_kicked := now\<rparr>))"

definition upd_ring :: "nat \<Rightarrow> (tx_union \<Rightarrow> tx_union) \<Rightarrow> 'd softc \<Rightarrow> 'd softc" where
  "upd_ring i f = upd_txq i (\<lambda>t. t\<lparr>tc_q := (tc_q t)\<lparr>txq_ring := f (txq_ring (tc_q t))\<rparr>\<rparr>)"

definition gve_handle_tx_timeout :: "'d sys \<Rightarrow> nat \<Rightarrow> 'd softc \<Rightarrow> 'd softc" where
  "gve_handle_tx_timeout y i s =
     (let s = upd_ring i (count_txq (\<lambda>st. st\<lparr>tx_timeout := tx_timeout st + 1\<rparr>)) s;
          since = gve_seconds_since (sy_now y) (txu_last_kicked (txq_ring (tc_q (sc_txq s ! i))))
      in if since > GVE_TX_TIMEOUT_KICK_COOLDOWN_SEC
         then emit [TxEv (TASKQUEUE_ENQUEUE TX_CLEANUP)] (upd_ring i (gve_set_timestamp (sy_now y)) s)
         else gve_schedule_reset s)"

definition check_tx_timeout :: "'d sys \<Rightarrow> nat \<Rightarrow> 'd softc \<Rightarrow> nat" where
  "check_tx_timeout y i s =
     (case txq_ring (tc_q (sc_txq s ! i)) of
        TxGqi tx \<Rightarrow> gve_check_tx_timeout_gqi (sy_now y) (unat (tx_desc_cnt (sc_priv s))) tx
      | TxDqo tx \<Rightarrow> gve_check_tx_timeout_dqo (sy_now y) tx)"

definition gve_tx_timeout_service_callback :: "'d sys \<Rightarrow> 'd softc \<Rightarrow> 'd softc option" where
  "gve_tx_timeout_service_callback y s =
     (let i = unat (check_tx_queue_idx (sc_priv s));
          n = check_tx_timeout y i s mod 2 ^ 16;
          s = (if n \<noteq> 0 then gve_handle_tx_timeout y i s else s)
      in if num_tx s = 0 then None
         else Some (emit [CALLOUT_RESET] (s\<lparr>sc_priv := (sc_priv s)\<lparr>check_tx_queue_idx := of_nat ((i + 1) mod num_tx s)\<rparr>\<rparr>)))"

section \<open>MTU and ioctls\<close>

definition ETHERMIN :: u32 where "ETHERMIN = 46"

definition gve_set_mtu :: "'d sys \<Rightarrow> u32 \<Rightarrow> 'd softc \<Rightarrow> err \<times> 'd softc" where
  "gve_set_mtu y new_mtu s =
     (if new_mtu > ucast (max_mtu (sc_priv s)) \<or> new_mtu < ETHERMIN then (Some EINVAL, s)
      else if \<not> is_gqi s \<and> \<not> gve_disable_hw_lro y \<and> new_mtu \<ge> 7822 \<and> new_mtu \<le> 8227 then (Some EINVAL, s)
      else case aq (gve_adminq_set_mtu (sy_aq y) new_mtu) s of
             (None, s) \<Rightarrow> (None, s\<lparr>if_mtu := new_mtu\<rparr>)
           | (e, s) \<Rightarrow> (e, s))"

definition gve_init :: "'d sys \<Rightarrow> 'd softc \<Rightarrow> 'd softc option" where
  "gve_init y s = (if \<not> get_flag s GVE_STATE_FLAG_QUEUES_UP then map_option snd (gve_up y s) else Some s)"

text \<open>The requests the driver handles itself; for the others, what the kernel's handlers return.\<close>

datatype ioctl = SIOCSIFMTU u32 | SIOCSIFFLAGS | SIOCSIFCAP "if_cap set" | SIOCSIFMEDIA err | SIOCGIFMEDIA err | OTHER_IOCTL err

definition gve_ioctl :: "'d sys \<Rightarrow> ioctl \<Rightarrow> 'd softc \<Rightarrow> (err \<times> 'd softc) option" where
  "gve_ioctl y c s =
     (case c of
        SIOCSIFMTU mtu \<Rightarrow>
          if if_mtu s = mtu then Some (None, s)
          else do { s \<leftarrow> gve_down y s; gve_up y (snd (gve_set_mtu y mtu s)) }
      | SIOCSIFFLAGS \<Rightarrow>
          if if_up s then (if \<not> if_running s then gve_up y s else Some (None, s))
          else if if_running s then do { s \<leftarrow> gve_down y s; Some (None, s) } else Some (None, s)
      | SIOCSIFCAP caps \<Rightarrow>
          if caps = if_capenable s then Some (None, s)
          else do { s \<leftarrow> gve_down y s; gve_up y (s\<lparr>if_capenable := caps\<rparr>) }
      | SIOCSIFMEDIA e \<Rightarrow> Some (e, s)
      | SIOCGIFMEDIA e \<Rightarrow> Some (e, s)
      | OTHER_IOCTL e \<Rightarrow> Some (e, s))"

text \<open>The bits of \<open>ifm_status\<close> and of \<open>ifm_active\<close>.\<close>

datatype ifm = IFM_AVALID | IFM_ACTIVE | IFM_ETHER | IFM_AUTO | IFM_NONE

definition gve_media_status :: "'d softc \<Rightarrow> ifm set \<times> ifm set" where
  "gve_media_status s =
     (if get_flag s GVE_STATE_FLAG_LINK_UP then ({IFM_AVALID, IFM_ACTIVE}, {IFM_ETHER, IFM_AUTO})
      else ({IFM_AVALID}, {IFM_ETHER, IFM_NONE}))"

definition gve_media_change :: "'d softc \<Rightarrow> err \<times> 'd softc" where
  "gve_media_change s = (None, s)"

section \<open>Number and size of the rings\<close>

definition set_tx_num :: "u16 \<Rightarrow> 'd softc \<Rightarrow> 'd softc" where
  "set_tx_num n s = s\<lparr>sc_priv := (sc_priv s)\<lparr>tx_cfg := (tx_cfg (sc_priv s))\<lparr>num_queues_cfg := n\<rparr>\<rparr>\<rparr>"

definition set_rx_num :: "u16 \<Rightarrow> 'd softc \<Rightarrow> 'd softc" where
  "set_rx_num n s = s\<lparr>sc_priv := (sc_priv s)\<lparr>rx_cfg := (rx_cfg (sc_priv s))\<lparr>num_queues_cfg := n\<rparr>\<rparr>\<rparr>"

definition set_tx_size :: "u16 \<Rightarrow> 'd softc \<Rightarrow> 'd softc" where
  "set_tx_size n s = s\<lparr>sc_priv := (sc_priv s)\<lparr>tx_desc_cnt := n\<rparr>\<rparr>"

definition set_rx_size :: "u16 \<Rightarrow> 'd softc \<Rightarrow> 'd softc" where
  "set_rx_size n s = s\<lparr>sc_priv := (sc_priv s)\<lparr>rx_desc_cnt := n\<rparr>\<rparr>"

definition up_or_reset :: "'d sys \<Rightarrow> 'd softc \<Rightarrow> (err \<times> 'd softc) option" where
  "up_or_reset y s = do { (e, s) \<leftarrow> gve_up y s; Some (e, if e \<noteq> None then gve_schedule_reset s else s) }"

definition gve_adjust_rx_queues :: "'d sys \<Rightarrow> u16 \<Rightarrow> 'd softc \<Rightarrow> (err \<times> 'd softc) option" where
  "gve_adjust_rx_queues y new_queue_cnt s = do {
     s \<leftarrow> gve_down y s;
     (e, s) \<leftarrow> (if unat new_queue_cnt < num_rx s
                then do { s \<leftarrow> free_rx_rings (unat new_queue_cnt) (num_rx s) s; Some (None, s) }
                else alloc_rx_rings (num_rx s) (unat new_queue_cnt) s);
     if e \<noteq> None then do { (_, s) \<leftarrow> gve_up y s; Some (e, s) }
     else up_or_reset y (set_rx_num new_queue_cnt s) }"

definition gve_adjust_tx_queues :: "'d sys \<Rightarrow> u16 \<Rightarrow> 'd softc \<Rightarrow> (err \<times> 'd softc) option" where
  "gve_adjust_tx_queues y new_queue_cnt s = do {
     s \<leftarrow> gve_down y s;
     (e, s) \<leftarrow> (if unat new_queue_cnt < num_tx s
                then do { s \<leftarrow> free_tx_rings (unat new_queue_cnt) (num_tx s) s; Some (None, s) }
                else alloc_tx_rings (num_tx s) (unat new_queue_cnt) s);
     if e \<noteq> None then do { (_, s) \<leftarrow> gve_up y s; Some (e, s) }
     else up_or_reset y (set_tx_num new_queue_cnt s) }"

definition realloc_rx :: "u16 \<Rightarrow> 'd softc \<Rightarrow> (err \<times> 'd softc) option" where
  "realloc_rx n s = do {
     s \<leftarrow> free_rx_rings 0 (num_rx s) s;
     let prev = rx_desc_cnt (sc_priv s);
     (e, s) \<leftarrow> alloc_rx_rings 0 (num_rx s) (set_rx_size n s);
     if e \<noteq> None then alloc_rx_rings 0 (num_rx s) (set_rx_size prev s) else Some (None, s) }"

definition realloc_tx_rings :: "u16 \<Rightarrow> 'd softc \<Rightarrow> (err \<times> 'd softc) option" where
  "realloc_tx_rings n s = do {
     s \<leftarrow> free_tx_rings 0 (num_tx s) s;
     let prev = tx_desc_cnt (sc_priv s);
     (e, s) \<leftarrow> alloc_tx_rings 0 (num_tx s) (set_tx_size n s);
     if e \<noteq> None then alloc_tx_rings 0 (num_tx s) (set_tx_size prev s) else Some (None, s) }"

definition gve_adjust_ring_sizes :: "'d sys \<Rightarrow> u16 \<Rightarrow> bool \<Rightarrow> 'd softc \<Rightarrow> (err \<times> 'd softc) option" where
  "gve_adjust_ring_sizes y new_desc_cnt is_rx s = do {
     s \<leftarrow> gve_down y s;
     (e, s) \<leftarrow> (if is_rx then realloc_rx new_desc_cnt s else realloc_tx_rings new_desc_cnt s);
     if e \<noteq> None then Some (e, s) else up_or_reset y s }"

section \<open>Sysctl handlers (\<open>gve_sysctl.c\<close>)\<close>

definition gve_check_num_queues :: "gve_priv \<Rightarrow> int \<Rightarrow> bool \<Rightarrow> err" where
  "gve_check_num_queues priv val is_rx =
     (if val < 1 then Some EINVAL
      else if val > uint (if is_rx then max_queues (rx_cfg priv) else max_queues (tx_cfg priv)) then Some EINVAL
      else None)"

text \<open>The macro of \<open>sys/param.h\<close> on a 32-bit \<open>int\<close>.\<close>

definition powerof2 :: "int \<Rightarrow> bool" where
  "powerof2 x \<longleftrightarrow> swrap32 (x - 1) AND x = 0"

definition gve_check_ring_size :: "gve_priv \<Rightarrow> int \<Rightarrow> bool \<Rightarrow> err" where
  "gve_check_ring_size priv val is_rx =
     (if \<not> powerof2 val \<or> val = 0 then Some EINVAL
      else if val < uint (if is_rx then min_rx_desc_cnt priv else min_tx_desc_cnt priv) then Some EINVAL
      else if val > uint (if is_rx then max_rx_desc_cnt priv else max_tx_desc_cnt priv) then Some EINVAL
      else None)"

text \<open>A request is the error of \<open>sysctl_handle_int\<close> and the new value, if one is written.\<close>

type_synonym sysctl_req = "err \<times> int option"

definition sysctl_set :: "(gve_priv \<Rightarrow> int \<Rightarrow> err) \<Rightarrow> (gve_priv \<Rightarrow> u16) \<Rightarrow> (u16 \<Rightarrow> 'd softc \<Rightarrow> (err \<times> 'd softc) option) \<Rightarrow>
    sysctl_req \<Rightarrow> 'd softc \<Rightarrow> (err \<times> 'd softc) option" where
  "sysctl_set check cur adjust req s =
     (case req of
        (Some e, _) \<Rightarrow> Some (Some e, s)
      | (None, None) \<Rightarrow> Some (None, s)
      | (None, Some val) \<Rightarrow>
          (case check (sc_priv s) val of
             Some e \<Rightarrow> Some (Some e, s)
           | None \<Rightarrow> if val \<noteq> uint (cur (sc_priv s)) then adjust (of_int val) s else Some (None, s)))"

definition gve_sysctl_num_tx_queues :: "'d sys \<Rightarrow> sysctl_req \<Rightarrow> 'd softc \<Rightarrow> (err \<times> 'd softc) option" where
  "gve_sysctl_num_tx_queues y =
     sysctl_set (\<lambda>p v. gve_check_num_queues p v False) (\<lambda>p. num_queues_cfg (tx_cfg p)) (gve_adjust_tx_queues y)"

definition gve_sysctl_num_rx_queues :: "'d sys \<Rightarrow> sysctl_req \<Rightarrow> 'd softc \<Rightarrow> (err \<times> 'd softc) option" where
  "gve_sysctl_num_rx_queues y =
     sysctl_set (\<lambda>p v. gve_check_num_queues p v True) (\<lambda>p. num_queues_cfg (rx_cfg p)) (gve_adjust_rx_queues y)"

definition gve_sysctl_tx_ring_size :: "'d sys \<Rightarrow> sysctl_req \<Rightarrow> 'd softc \<Rightarrow> (err \<times> 'd softc) option" where
  "gve_sysctl_tx_ring_size y =
     sysctl_set (\<lambda>p v. gve_check_ring_size p v False) tx_desc_cnt (\<lambda>n. gve_adjust_ring_sizes y n False)"

definition gve_sysctl_rx_ring_size :: "'d sys \<Rightarrow> sysctl_req \<Rightarrow> 'd softc \<Rightarrow> (err \<times> 'd softc) option" where
  "gve_sysctl_rx_ring_size y =
     sysctl_set (\<lambda>p v. gve_check_ring_size p v True) rx_desc_cnt (\<lambda>n. gve_adjust_ring_sizes y n True)"

section \<open>Statistics\<close>

definition txu_stats :: "tx_union \<Rightarrow> gve_txq_stats" where
  "txu_stats u = (case u of TxGqi tx \<Rightarrow> tx_stats tx | TxDqo tx \<Rightarrow> tx_stats tx)"

definition rxu_stats :: "rx_union \<Rightarrow> gve_rxq_stats" where
  "rxu_stats u = (case u of RxGqi rx \<Rightarrow> rx_stats rx | RxDqo rx \<Rightarrow> rx_stats rx)"

record if_stats =
  s_rpackets :: u64
  s_rbytes :: u64
  s_rx_dropped :: u64
  s_tpackets :: u64
  s_tbytes :: u64
  s_tx_dropped :: u64

definition gve_accum_stats :: "'d softc \<Rightarrow> if_stats \<Rightarrow> if_stats" where
  "gve_accum_stats s a =
     (let a = fold (\<lambda>i a. let st = rxu_stats (rc_ring (sc_rxq s ! i))
                          in a\<lparr>s_rpackets := s_rpackets a + rpackets st, s_rbytes := s_rbytes a + rbytes st, s_rx_dropped := s_rx_dropped a + rx_dropped_pkt st\<rparr>)
                [0..<num_rx s] a
      in fold (\<lambda>i a. let st = txu_stats (txq_ring (tc_q (sc_txq s ! i)))
                     in a\<lparr>s_tpackets := s_tpackets a + tpackets st, s_tbytes := s_tbytes a + tbytes st, s_tx_dropped := s_tx_dropped a + tx_dropped_pkt st\<rparr>)
           [0..<num_tx s] a)"

datatype ift_counter = IFCOUNTER_IPACKETS | IFCOUNTER_OPACKETS | IFCOUNTER_IBYTES | IFCOUNTER_OBYTES | IFCOUNTER_IQDROPS | IFCOUNTER_OQDROPS | IFCOUNTER_OTHER u64

definition gve_get_counter :: "'d softc \<Rightarrow> ift_counter \<Rightarrow> u64" where
  "gve_get_counter s c =
     (let a = gve_accum_stats s \<lparr>s_rpackets = 0, s_rbytes = 0, s_rx_dropped = 0, s_tpackets = 0, s_tbytes = 0, s_tx_dropped = 0\<rparr>
      in case c of IFCOUNTER_IPACKETS \<Rightarrow> s_rpackets a | IFCOUNTER_OPACKETS \<Rightarrow> s_tpackets a | IFCOUNTER_IBYTES \<Rightarrow> s_rbytes a
         | IFCOUNTER_OBYTES \<Rightarrow> s_tbytes a | IFCOUNTER_IQDROPS \<Rightarrow> s_rx_dropped a | IFCOUNTER_OQDROPS \<Rightarrow> s_tx_dropped a
         | IFCOUNTER_OTHER v \<Rightarrow> v)"

end
