(* ===== verification/Gve_Attach.thy ===== *)
theory Gve_Attach
  imports Gve_Control
begin

text \<open>
  Attaching and detaching the driver (\<open>gve_main.c\<close>): the rings and interrupts as a whole, the network interface, and
  the abort path that releases what has been acquired.
\<close>

section \<open>Rings and interrupts\<close>

definition free_irqs :: "'d softc \<Rightarrow> 'd softc option" where
  "free_irqs s = do { (i, k) \<leftarrow> gve_free_irqs (sc_priv s) (sc_irqs s) (sc_kern s); Some (s\<lparr>sc_irqs := i, sc_kern := k\<rparr>) }"

definition alloc_irqs :: "'d softc \<Rightarrow> (err \<times> 'd softc) option" where
  "alloc_irqs s = do { (e, i, k) \<leftarrow> gve_alloc_irqs (sc_priv s) (sc_irqs s) (sc_kern s); Some (e, s\<lparr>sc_irqs := i, sc_kern := k\<rparr>) }"

text \<open>\<open>free(NULL)\<close> does nothing.\<close>

definition gve_free_rings :: "'d softc \<Rightarrow> 'd softc option" where
  "gve_free_rings s = do {
     s \<leftarrow> free_irqs s;
     s \<leftarrow> free_tx_rings 0 (num_tx s) s;
     k \<leftarrow> kfree_opt MALLOC (map_option fst (sc_tx s)) (sc_kern s);
     let s = s\<lparr>sc_tx := None, sc_kern := k\<rparr>;
     s \<leftarrow> free_rx_rings 0 (num_rx s) s;
     k \<leftarrow> kfree_opt MALLOC (map_option fst (sc_rx s)) (sc_kern s);
     Some (s\<lparr>sc_rx := None, sc_kern := k\<rparr>) }"

text \<open>A ring in memory that has just been zeroed; the union is read according to the queue format.\<close>

definition null_tx_res :: tx_res where
  "null_tx_res = \<lparr>tr_stats = replicate NUM_TX_STATS None, tr_mtx = None, tr_q_resources = False, tr_q_resources_mem = null_dma, tr_br = None,
     tr_desc_ring = False, tr_desc_ring_mem = null_dma, tr_info = None, tr_fifo = \<lparr>fifo_mem = [], fifo_size = 0, available = 0, fifo_head = 0\<rparr>,
     tr_qpl = None, tr_compl_ring = False, tr_compl_ring_mem = null_dma, tr_pending_pkts = None, tr_buf_dmatag = None, tr_qpl_bufs = None, tr_last_kicked = 0\<rparr>"

definition null_rx_res :: rx_res where
  "null_rx_res = \<lparr>rr_stats = replicate NUM_RX_STATS None, rr_q_resources = False, rr_q_resources_mem = null_dma, rr_desc_ring = False, rr_desc_ring_mem = null_dma,
     rr_data_ring = False, rr_data_ring_mem = null_dma, rr_page_info = None, rr_qpl = None, rr_compl_ring = False,
     rr_compl_ring_mem = null_dma, rr_bufs = None, rr_buf_dmatag = None\<rparr>"

definition zero_com :: "nat \<Rightarrow> gve_ring_com" where
  "zero_com i = \<lparr>com_id = i, irq_db_offset = 0, db_offset = 0, counter_idx = 0, ntfy_id = 0\<rparr>"

definition null_txq :: "gve_queue_format \<Rightarrow> nat \<Rightarrow> tx_ctl" where
  "null_txq f i = \<lparr>tc_q = \<lparr>txq_ring =
       (if gve_is_gqi f
        then TxGqi \<lparr>tx_com = zero_com i, stopped = False, tx_req = 0, tx_done = 0, last_kicked = 0, tx_stats = zero_tx_stats,
               desc_ring = [], info = [], fifo = tr_fifo null_tx_res, tx_mask = 0\<rparr>
        else TxDqo \<lparr>tx_com = zero_com i, stopped = False, tx_req = 0, tx_done = 0, last_kicked = 0, tx_stats = zero_tx_stats,
               dqo_desc_ring = [], desc_mask = 0, desc_head = 0, desc_tail = 0, last_re_idx = 0, free_pending_pkts_csm = 0, free_qpl_bufs_csm = 0,
               qpl_bufs_consumed = 0, qpl_bufs_produced_cached = 0, compl_ring = [], compl_mask = 0, compl_head = 0, cur_gen_bit = False, hw_tx_head = 0,
               free_pending_pkts_prd = 0, free_qpl_bufs_prd = 0, qpl_bufs_produced = 0, pending_pkts = [], num_pending_pkts = 0, qpl_bufs = [],
               qpl_pages = [], qpl_dmas = []\<rparr>),
       txq_br = []\<rparr>, tc_cleanup_tq = None, tc_xmit_tq = None\<rparr>"

definition null_rxq :: "gve_queue_format \<Rightarrow> nat \<Rightarrow> rx_ctl" where
  "null_rxq f i = \<lparr>rc_ring =
       (if gve_is_gqi f
        then RxGqi \<lparr>rx_com = zero_com i, cnt = 0, fill_cnt = 0, rx_ctx = empty_ctx, rx_stats = zero_rx_stats,
               rx_desc_ring = [], data_ring = [], page_info = [], rx_mask = 0, seq_no = 0, pages = [], lent = []\<rparr>
        else RxDqo \<lparr>rx_com = zero_com i, cnt = 0, fill_cnt = 0, rx_ctx = empty_ctx, rx_stats = zero_rx_stats,
               rxd_compl_ring = [], rxd_desc_ring = [], bufs = [], buf_cnt = 0, rxd_mask = 0, rxd_head = 0, rxd_tail = 0, rxd_gen_bit = False,
               free_bufs = [], used_bufs = [], rxd_pages = [], rxd_dmas = [], rxd_lent = [], rxd_allocs = 0\<rparr>),
     rc_cleanup_tq = None, rc_lro = False\<rparr>"

definition malloc_rx :: "'d softc \<Rightarrow> 'd softc" where
  "malloc_rx s =
     (let (a, k) = kalloc MALLOC (sc_kern s); n = unat (max_queues (rx_cfg (sc_priv s)))
      in s\<lparr>sc_kern := k, sc_rx := Some (a, replicate n null_rx_res), sc_rxq := map (null_rxq (queue_format (sc_priv s))) [0..<n]\<rparr>)"

definition malloc_tx :: "'d softc \<Rightarrow> 'd softc" where
  "malloc_tx s =
     (let (a, k) = kalloc MALLOC (sc_kern s); n = unat (max_queues (tx_cfg (sc_priv s)))
      in s\<lparr>sc_kern := k, sc_tx := Some (a, replicate n null_tx_res), sc_txq := map (null_txq (queue_format (sc_priv s))) [0..<n]\<rparr>)"

definition gve_alloc_rings :: "'d softc \<Rightarrow> (err \<times> 'd softc) option" where
  "gve_alloc_rings s = do {
     (e, s) \<leftarrow> alloc_rx_rings 0 (num_rx s) (malloc_rx s);
     if e \<noteq> None then do { s \<leftarrow> gve_free_rings s; Some (e, s) }
     else do {
       (e, s) \<leftarrow> alloc_tx_rings 0 (num_tx s) (malloc_tx s);
       if e \<noteq> None then do { s \<leftarrow> gve_free_rings s; Some (e, s) }
       else do {
         (e, s) \<leftarrow> alloc_irqs s;
         if e \<noteq> None then do { s \<leftarrow> gve_free_rings s; Some (e, s) }
         else Some (None, s) } } }"

section \<open>Attach and detach\<close>

definition GVE_TSO_MAXSIZE_DQO :: nat where "GVE_TSO_MAXSIZE_DQO = 65535"

definition gve_setup_ifnet :: "'d softc \<Rightarrow> err \<times> 'd softc" where
  "gve_setup_ifnet s =
     (let (e, i, k) = ktry IFNET (sc_kern s); s = s\<lparr>sc_kern := k\<rparr>
      in if e \<noteq> None then (Some ENXIO, s\<lparr>sc_ifp := None\<rparr>)
         else
           let rda = \<not> is_gqi s \<and> \<not> is_qpl s;
               caps = {IFCAP_RXCSUM, IFCAP_TXCSUM, IFCAP_TXCSUM_IPV6, IFCAP_TSO4, IFCAP_TSO6, IFCAP_LRO} \<union>
                      (if supported_features (sc_priv s) AND of_nat GVE_SUP_JUMBO_FRAMES_MASK \<noteq> 0 then {IFCAP_JUMBO_MTU} else {})
           in (None, s\<lparr>sc_ifp := Some i, if_hwtsomaxsegcount := (if rda then GVE_TX_MAX_DATA_DESCS_DQO else if_hwtsomaxsegcount s),
                 if_hwtsomaxsegsize := (if rda then GVE_TX_MAX_BUF_SIZE_DQO else if_hwtsomaxsegsize s), if_hwtsomax := GVE_TSO_MAXSIZE_DQO,
                 if_capabilities := caps, if_capenable := caps, if_mtu := ucast (max_mtu (sc_priv s))\<rparr>))"

definition gve_free_sys_res_mem :: "'d softc \<Rightarrow> 'd softc option" where
  "gve_free_sys_res_mem s = do {
     k \<leftarrow> kfree_opt SYS_RES (sc_msix_table s) (sc_kern s);
     k \<leftarrow> kfree_opt SYS_RES (sc_db_bar s) k;
     k \<leftarrow> kfree_opt SYS_RES (sc_reg_bar s) k;
     Some (s\<lparr>sc_kern := k\<rparr>) }"

definition destroy_lock :: "'d softc \<Rightarrow> 'd softc option" where
  "destroy_lock s = do { k \<leftarrow> kfree_opt IFACE_LOCK (sc_iface_lock s) (sc_kern s); Some (s\<lparr>sc_kern := k, sc_iface_lock := None\<rparr>) }"

definition gve_destroy :: "'d sys \<Rightarrow> 'd softc \<Rightarrow> 'd softc option" where
  "gve_destroy y s = do {
     s \<leftarrow> gve_down y s;
     s \<leftarrow> gve_deconfigure_and_free_device_resources y s;
     release_adminq y s }"

text \<open>The three BARs; the pointer of the first one that fails is NULL.\<close>

definition alloc_bars :: "'d softc \<Rightarrow> err \<times> 'd softc" where
  "alloc_bars s =
     (let (e, r, k) = ktry SYS_RES (sc_kern s); s = s\<lparr>sc_kern := k, sc_reg_bar := (if e = None then Some r else None)\<rparr>
      in if e \<noteq> None then (Some ENXIO, s)
         else
           let (e, r, k) = ktry SYS_RES (sc_kern s); s = s\<lparr>sc_kern := k, sc_db_bar := (if e = None then Some r else None)\<rparr>
           in if e \<noteq> None then (Some ENXIO, s)
              else
                let (e, r, k) = ktry SYS_RES (sc_kern s); s = s\<lparr>sc_kern := k, sc_msix_table := (if e = None then Some r else None)\<rparr>
                in (if e \<noteq> None then Some ENXIO else None, s))"

definition attach_abort :: "'d sys \<Rightarrow> 'd softc \<Rightarrow> 'd softc option" where
  "attach_abort y s = do {
     s \<leftarrow> gve_free_rings s;
     s \<leftarrow> gve_deconfigure_and_free_device_resources y s;
     s \<leftarrow> release_adminq y s;
     s \<leftarrow> gve_free_sys_res_mem s;
     destroy_lock s }"

definition attach_steps :: "'d sys \<Rightarrow> 'd softc \<Rightarrow> (err \<times> 'd softc) option" where
  "attach_steps y s = do {
     let (e, s) = alloc_bars s;
     if e \<noteq> None then Some (e, s)
     else do {
       (e, s) \<leftarrow> gve_alloc_adminq_and_describe_device y s;
       if e \<noteq> None then Some (e, s)
       else do {
         (e, s) \<leftarrow> gve_alloc_and_configure_device_resources y s;
         if e \<noteq> None then Some (e, s)
         else do {
           (e, s) \<leftarrow> gve_alloc_rings s;
           if e \<noteq> None then Some (e, s) else Some (gve_setup_ifnet s) } } } }"

definition GVE_DEFAULT_RX_COPYBREAK :: u32 where "GVE_DEFAULT_RX_COPYBREAK = 256"

definition gve_attach :: "'d sys \<Rightarrow> 'd softc \<Rightarrow> (err \<times> 'd softc) option" where
  "gve_attach y s = do {
     let (l, k) = kalloc IFACE_LOCK (sc_kern s);
     (e, s) \<leftarrow> attach_steps y (s\<lparr>sc_kern := k, sc_iface_lock := Some l\<rparr>);
     if e \<noteq> None then do { s \<leftarrow> attach_abort y s; Some (e, s) }
     else (let (t, s) = new_tq (s\<lparr>sc_rx_copybreak := GVE_DEFAULT_RX_COPYBREAK\<rparr>) in Some (None, s\<lparr>sc_service_tq := Some t, sc_attached := True\<rparr>)) }"

definition gve_detach :: "'d sys \<Rightarrow> 'd softc \<Rightarrow> 'd softc option" where
  "gve_detach y s = do {
     s \<leftarrow> gve_destroy y s;
     s \<leftarrow> gve_free_rings s;
     s \<leftarrow> gve_free_sys_res_mem s;
     s \<leftarrow> destroy_lock s;
     s \<leftarrow> free_tq (sc_service_tq s) (s\<lparr>sc_service_pending := False\<rparr>);
     k \<leftarrow> kfree_opt IFNET (sc_ifp s) (sc_kern s);
     Some (s\<lparr>sc_kern := k, sc_attached := False\<rparr>) }"

definition PCI_VENDOR_ID_GOOGLE :: u16 where "PCI_VENDOR_ID_GOOGLE = 0x1ae0"
definition PCI_DEV_ID_GVNIC :: u16 where "PCI_DEV_ID_GVNIC = 0x0042"

definition gve_devs :: "(u16 \<times> u16 \<times> string) list" where
  "gve_devs = [(PCI_VENDOR_ID_GOOGLE, PCI_DEV_ID_GVNIC, ''gVNIC'')]"

text \<open>The description set on a match (\<open>BUS_PROBE_DEFAULT\<close>), or \<open>ENXIO\<close>.\<close>

fun probe_loop :: "(u16 \<times> u16 \<times> string) list \<Rightarrow> u16 \<Rightarrow> u16 \<Rightarrow> errno + string" where
  "probe_loop [] vendorid deviceid = Inl ENXIO"
| "probe_loop ((v, d, name) # devs) vendorid deviceid = (if vendorid = v \<and> deviceid = d then Inr name else probe_loop devs vendorid deviceid)"

definition gve_probe :: "u16 \<Rightarrow> u16 \<Rightarrow> errno + string" where
  "gve_probe = probe_loop gve_devs"

end
