(* ===== verification/Gve_Control_Frame.thy ===== *)
theory Gve_Control_Frame
  imports Gve_Attach
begin

text \<open>
  What the operations of the control path leave unchanged: the configuration of the device, the shape of the
  ring arrays, and the flags each of them does not own.
\<close>

section \<open>Admin commands\<close>

text \<open>The members of \<open>struct gve_priv\<close> that describe the device: everything but the admin queue, the flags, the counters of
  events and what allocation keeps in it.\<close>

definition conf :: "gve_priv \<Rightarrow> gve_priv" where
  "conf p = p\<lparr>adminq := [], adminq_prod_cnt := 0, adminq_cmd_fail := 0, adminq_timeouts := 0, adminq_describe_device_cnt := 0,
     adminq_cfg_device_resources_cnt := 0, adminq_register_page_list_cnt := 0, adminq_unregister_page_list_cnt := 0,
     adminq_create_tx_queue_cnt := 0, adminq_create_rx_queue_cnt := 0, adminq_destroy_tx_queue_cnt := 0, adminq_destroy_rx_queue_cnt := 0,
     adminq_dcfg_device_resources_cnt := 0, adminq_set_driver_parameter_cnt := 0, adminq_verify_driver_compatibility_cnt := 0,
     adminq_get_ptype_map_cnt := 0, interface_up_cnt := 0, interface_down_cnt := 0, reset_cnt := 0, state_flags := {}, check_tx_queue_idx := 0,
     num_registered_pages := 0, aq_mem := None, adminq_bus_addr := 0, adminq_mask := 0, counter_array_mem := 0, irqs_db_mem := 0\<rparr>"

definition pkeep :: "gve_priv \<Rightarrow> gve_priv \<Rightarrow> bool" where
  "pkeep p p' \<longleftrightarrow> conf p' = conf p \<and> state_flags p' = state_flags p \<and> check_tx_queue_idx p' = check_tx_queue_idx p"

lemma pkeep_refl [simp]: "pkeep p p"
  by (simp add: pkeep_def)

lemma pkeep_trans: "pkeep p q \<Longrightarrow> pkeep q r \<Longrightarrow> pkeep p r"
  by (simp add: pkeep_def)

lemma pkeep_adminq [simp]:
  "pkeep p (p\<lparr>adminq := q\<rparr>)" "pkeep p (p\<lparr>adminq := q, adminq_prod_cnt := n\<rparr>)" "pkeep p (p\<lparr>adminq_cmd_fail := n\<rparr>)" "pkeep p (p\<lparr>adminq_timeouts := n\<rparr>)"
  by (simp_all add: pkeep_def conf_def)

lemma pkeep_count: "pkeep p (adminq_count c p)"
  by (simp add: adminq_count_def pkeep_def conf_def)

lemma pkeep_put: "pkeep p (adminq_put c p)"
  unfolding adminq_put_def by (rule pkeep_trans [OF _ pkeep_count]) simp

lemma pkeep_put_trans: "pkeep p q \<Longrightarrow> pkeep p (adminq_put c q)"
  by (rule pkeep_trans [OF _ pkeep_put])

definition frames :: "(gve_priv \<times> 'd \<Rightarrow> err \<times> gve_priv \<times> 'd) \<Rightarrow> bool" where
  "frames f \<longleftrightarrow> (\<forall>p d. pkeep p (fst (snd (f (p, d)))))"

lemma read_frames: "read_event_counter dev p d = (c, p', d') \<Longrightarrow> pkeep p p'"
  by (auto simp: read_event_counter_def split: prod.splits)

lemma wait_frames: "adminq_wait_loop n dev c (p, d) = (b, p', d') \<Longrightarrow> pkeep p p'"
  by (induction n arbitrary: p d) (auto split: prod.splits if_splits dest: read_frames intro: pkeep_trans)

lemma parse_frames: "gve_adminq_parse_err p st = (e, p') \<Longrightarrow> pkeep p p'"
  unfolding gve_adminq_parse_err_def Let_def by (simp only: prod.inject, elim conjE, hypsubst) simp

lemma check_frames: "adminq_check_loop is p = (e, p') \<Longrightarrow> pkeep p p'"
  by (induction "is" arbitrary: p) (auto simp: Let_def split: prod.splits option.splits dest!: parse_frames intro: pkeep_trans)

lemma kick_frames: "gve_adminq_kick_and_wait dev (p, d) = (e, p', d') \<Longrightarrow> pkeep p p'"
  by (auto simp: gve_adminq_kick_and_wait_def gve_adminq_wait_for_cmd_def Let_def split: prod.splits if_splits
      dest!: read_frames wait_frames check_frames intro: pkeep_trans)

lemma issue_frames: "gve_adminq_issue_cmd dev c (p, d) = (e, p', d') \<Longrightarrow> pkeep p p'"
  by (auto simp: gve_adminq_issue_cmd_def Let_def split: prod.splits if_splits option.splits
      dest!: read_frames kick_frames intro: pkeep_put_trans pkeep_trans)

lemma exec_frames: "frames (gve_adminq_execute_cmd dev c)"
  unfolding frames_def
proof (intro allI)
  fix p d
  obtain t p1 d1 where r: "read_event_counter dev p d = (t, p1, d1)" by (metis prod_cases3)
  obtain e p2 d2 where i: "gve_adminq_issue_cmd dev c (p1, d1) = (e, p2, d2)" by (metis prod_cases3)
  obtain e' p3 d3 where k: "gve_adminq_kick_and_wait dev (p2, d2) = (e', p3, d3)" by (metis prod_cases3)
  have "pkeep p p1" "pkeep p p2" "pkeep p p3" using read_frames [OF r] issue_frames [OF i] kick_frames [OF k] by (blast intro: pkeep_trans)+
  then show "pkeep p (fst (snd (gve_adminq_execute_cmd dev c (p, d))))"
    using r i k by (simp add: gve_adminq_execute_cmd_def split: option.splits)
qed


lemma framesD: "frames f \<Longrightarrow> f (p, d) = (e, p', d') \<Longrightarrow> pkeep p p'"
  unfolding frames_def by (metis fst_conv snd_conv)

lemma frames_destroy_loop: "(\<And>i. frames (f i)) \<Longrightarrow> frames (\<lambda>s. destroy_loop f is (e, s))"
proof (induction "is" arbitrary: e)
  case (Cons i "is")
  show ?case unfolding frames_def
  proof (intro allI)
    fix p d
    obtain e1 p1 d1 where 1: "f i (p, d) = (e1, p1, d1)" by (metis prod_cases3)
    have "pkeep p1 (fst (snd (destroy_loop f is (e1, p1, d1))))" using Cons.IH [OF Cons.prems] unfolding frames_def by blast
    then show "pkeep p (fst (snd (destroy_loop f (i # is) (e, p, d))))" using framesD [OF Cons.prems 1] 1 by (simp add: pkeep_trans)
  qed
qed (simp add: frames_def)

lemma frames_create_loop: "(\<And>i. frames (f i)) \<Longrightarrow> (\<And>n. frames (g n)) \<Longrightarrow> frames (create_loop f g is)"
proof (induction "is")
  case (Cons i "is")
  show ?case unfolding frames_def
  proof (intro allI)
    fix p d
    obtain e1 p1 d1 where 1: "f i (p, d) = (e1, p1, d1)" by (metis prod_cases3)
    have "pkeep p1 (fst (snd (create_loop f g is (p1, d1))))" "pkeep p1 (fst (snd (g i (p1, d1))))"
      using Cons.IH [OF Cons.prems] Cons.prems(2) unfolding frames_def by blast+
    then show "pkeep p (fst (snd (create_loop f g (i # is) (p, d))))"
      using framesD [OF Cons.prems(1) 1] 1 by (auto split: option.splits intro: pkeep_trans)
  qed
qed (simp add: frames_def)

lemma frames_pair: "(\<And>p d. \<exists>c. f (p, d) = gve_adminq_execute_cmd dev c (p, d)) \<Longrightarrow> frames f"
  using exec_frames unfolding frames_def by metis

lemma frames_create_rx: "frames (gve_adminq_create_rx_queue dev lro rs i)"
  by (rule frames_pair [of _ dev]) (simp add: gve_adminq_create_rx_queue_def Let_def, blast)

lemma frames_create_tx: "frames (gve_adminq_create_tx_queue dev rs i)"
  by (rule frames_pair [of _ dev]) (simp add: gve_adminq_create_tx_queue_def Let_def, blast)

lemma frames_configure: "frames (gve_adminq_configure_device_resources dev)"
  by (rule frames_pair [of _ dev]) (simp add: gve_adminq_configure_device_resources_def, blast)

lemma frames_register: "frames (gve_adminq_register_page_list dev (Inr h) q ps)"
  unfolding gve_adminq_register_page_list_def by (simp add: exec_frames)

lemma frames_destroys:
  "frames (gve_adminq_destroy_rx_queues e dev n)" "frames (gve_adminq_destroy_tx_queues e dev n)"
proof -
  have "frames (gve_adminq_destroy_rx_queue dev i)" "frames (gve_adminq_destroy_tx_queue dev i)" for i
    by (simp_all add: gve_adminq_destroy_rx_queue_def gve_adminq_destroy_tx_queue_def exec_frames)
  then show "frames (gve_adminq_destroy_rx_queues e dev n)" "frames (gve_adminq_destroy_tx_queues e dev n)"
    unfolding gve_adminq_destroy_rx_queues_def gve_adminq_destroy_tx_queues_def by (intro frames_destroy_loop; simp)+
qed

lemma frames_commands:
  "frames (gve_adminq_create_rx_queues e dev lro rs n)" "frames (gve_adminq_create_tx_queues e dev rs n)"
  "frames (gve_adminq_unregister_page_list dev q)" "frames (gve_adminq_set_mtu dev m)"
  "frames (gve_adminq_deconfigure_device_resources dev)" "frames (gve_adminq_verify_driver_compatibility dev a b)"
  unfolding gve_adminq_create_rx_queues_def gve_adminq_create_tx_queues_def
  by (simp_all add: frames_create_loop frames_create_rx frames_create_tx frames_destroys gve_adminq_unregister_page_list_def gve_adminq_set_mtu_def
      gve_adminq_deconfigure_device_resources_def gve_adminq_verify_driver_compatibility_def exec_frames)

lemmas frames_all = frames_commands frames_destroys frames_register frames_configure

section \<open>The state of the device\<close>

definition tx_is_gqi :: "tx_ctl \<Rightarrow> bool" where
  "tx_is_gqi t = (case txq_ring (tc_q t) of TxGqi _ \<Rightarrow> True | TxDqo _ \<Rightarrow> False)"

definition rx_is_gqi :: "rx_ctl \<Rightarrow> bool" where
  "rx_is_gqi r = (case rc_ring r of RxGqi _ \<Rightarrow> True | RxDqo _ \<Rightarrow> False)"

definition shape :: "'d softc \<Rightarrow> nat option \<times> nat option \<times> bool list \<times> bool list" where
  "shape s = (map_option (length \<circ> snd) (sc_tx s), map_option (length \<circ> snd) (sc_rx s), map tx_is_gqi (sc_txq s), map rx_is_gqi (sc_rxq s))"

definition iface :: "'d softc \<Rightarrow> bool \<times> bool \<times> bool \<times> bool \<times> bool \<times> u32 \<times> if_cap set" where
  "iface s = (if_running s, if_oactive s, sc_timer s, sc_service_pending s, sc_attached s, if_mtu s, if_capenable s)"

definition same :: "'d softc \<Rightarrow> 'd softc \<Rightarrow> bool" where
  "same s s' \<longleftrightarrow> pkeep (sc_priv s) (sc_priv s') \<and> shape s' = shape s \<and> iface s' = iface s"

abbreviation flags :: "'d softc \<Rightarrow> gve_state_flags_bit set" where
  "flags s \<equiv> state_flags (sc_priv s)"

lemma flag_simps [simp]:
  "get_flag s f \<longleftrightarrow> f \<in> flags s" "flags (set_flag f s) = insert f (flags s)" "flags (clear_flag f s) = flags s - {f}"
  "conf (sc_priv (set_flag f s)) = conf (sc_priv s)" "conf (sc_priv (clear_flag f s)) = conf (sc_priv s)"
  "shape (set_flag f s) = shape s" "shape (clear_flag f s) = shape s" "iface (set_flag f s) = iface s" "iface (clear_flag f s) = iface s"
  "check_tx_queue_idx (sc_priv (set_flag f s)) = check_tx_queue_idx (sc_priv s)" "check_tx_queue_idx (sc_priv (clear_flag f s)) = check_tx_queue_idx (sc_priv s)"
  by (simp_all add: get_flag_def set_flag_def clear_flag_def gve_get_state_flag_def gve_set_state_flag_def gve_clear_state_flag_def conf_def shape_def iface_def)

lemma same_refl [simp]: "same s s"
  by (simp add: same_def)

lemma same_trans: "same s t \<Longrightarrow> same t u \<Longrightarrow> same s u"
  by (auto simp: same_def intro: pkeep_trans)

lemma same_flag: "same s t \<Longrightarrow> same (set_flag f s) (set_flag f t)" "same s t \<Longrightarrow> same (clear_flag f s) (clear_flag f t)"
  by (simp_all add: same_def pkeep_def)

lemma conf_sel:
  assumes "conf p' = conf p"
  shows "tx_cfg p' = tx_cfg p" "rx_cfg p' = rx_cfg p" "queue_format p' = queue_format p" "tx_desc_cnt p' = tx_desc_cnt p" "rx_desc_cnt p' = rx_desc_cnt p"
    "max_tx_desc_cnt p' = max_tx_desc_cnt p" "min_tx_desc_cnt p' = min_tx_desc_cnt p" "max_rx_desc_cnt p' = max_rx_desc_cnt p" "min_rx_desc_cnt p' = min_rx_desc_cnt p"
    "num_queues p' = num_queues p" "num_event_counters p' = num_event_counters p" "max_mtu p' = max_mtu p"
proof -
  have e: "F p' = F p" if "\<And>q. F (conf q) = F q" for F :: "gve_priv \<Rightarrow> 'a" using assms that by metis
  show "tx_cfg p' = tx_cfg p" "rx_cfg p' = rx_cfg p" "queue_format p' = queue_format p" "tx_desc_cnt p' = tx_desc_cnt p" "rx_desc_cnt p' = rx_desc_cnt p"
    "max_tx_desc_cnt p' = max_tx_desc_cnt p" "min_tx_desc_cnt p' = min_tx_desc_cnt p" "max_rx_desc_cnt p' = max_rx_desc_cnt p" "min_rx_desc_cnt p' = min_rx_desc_cnt p"
    "num_queues p' = num_queues p" "num_event_counters p' = num_event_counters p" "max_mtu p' = max_mtu p"
    by (rule e, simp add: conf_def)+
qed

lemma same_sel:
  assumes "same s s'"
  shows "flags s' = flags s" "conf (sc_priv s') = conf (sc_priv s)" "num_tx s' = num_tx s" "num_rx s' = num_rx s" "is_gqi s' = is_gqi s" "is_qpl s' = is_qpl s"
    "shape s' = shape s" "iface s' = iface s" "check_tx_queue_idx (sc_priv s') = check_tx_queue_idx (sc_priv s)"
  using assms conf_sel [of "sc_priv s'" "sc_priv s"] by (auto simp: same_def pkeep_def num_tx_def num_rx_def is_gqi_def is_qpl_def)

lemma same_upd [simp]:
  "same s (s\<lparr>sc_kern := k\<rparr>)" "same s (emit evs s)" "same s (s\<lparr>sc_nic := d\<rparr>)" "same s (s\<lparr>if_hwassist := h\<rparr>)" "same s (s\<lparr>sc_ptype_lut := l\<rparr>)"
  "same s (s\<lparr>sc_aq_mem := m, sc_kern := k\<rparr>)"
  by (simp_all add: same_def shape_def iface_def emit_def)

lemma same_aq: "frames f \<Longrightarrow> aq f s = (e, s') \<Longrightarrow> same s s'"
  by (auto simp: aq_def same_def shape_def iface_def dest: framesD split: prod.splits)

lemma same_fold: "(\<And>i s. same s (f i s)) \<Longrightarrow> same s (fold f is s)"
  by (induction "is" arbitrary: s) (auto intro: same_trans)

lemma same_fold_opt: "(\<And>i s s'. f i s = Some s' \<Longrightarrow> same s s') \<Longrightarrow> fold_opt f is s = Some s' \<Longrightarrow> same s s'"
proof (induction "is" arbitrary: s)
  case (Cons i "is")
  then obtain t where t: "f i s = Some t" "fold_opt f is t = Some s'" by (auto split: Option.bind_splits)
  show ?case by (rule same_trans [OF Cons.prems(1) [OF t(1)] Cons.IH [OF Cons.prems(1) t(2)]])
qed simp

lemma same_until_err: "(\<And>i s e s'. f i s = Some (e, s') \<Longrightarrow> same s s') \<Longrightarrow> until_err f is s = Some (e, s') \<Longrightarrow> same s s'"
proof (induction "is" arbitrary: s)
  case (Cons i "is")
  then obtain e1 t where t: "f i s = Some (e1, t)" "e1 \<noteq> None \<and> s' = t \<or> until_err f is t = Some (e, s')" by (auto split: Option.bind_splits if_splits)
  show ?case using t(2) Cons.prems(1) [OF t(1)] Cons.IH [OF Cons.prems(1)] by (auto intro: same_trans)
qed simp

lemma map_upd_same: "g (f (xs ! i)) = g (xs ! i) \<Longrightarrow> map g (xs[i := f (xs ! i)]) = map g xs"
  by (simp add: map_update list_update_same_conv) (metis list_update_id map_update)

lemma same_upd_txq: "tx_is_gqi (f (sc_txq s ! i)) = tx_is_gqi (sc_txq s ! i) \<Longrightarrow> same s (upd_txq i f s)"
  by (simp add: same_def shape_def iface_def upd_txq_def map_upd_same)

lemma same_upd_rxq: "rx_is_gqi (f (sc_rxq s ! i)) = rx_is_gqi (sc_rxq s ! i) \<Longrightarrow> same s (upd_rxq i f s)"
  by (simp add: same_def shape_def iface_def upd_rxq_def map_upd_same)

end
