(* ===== verification/Gve_Queues_Effect.thy ===== *)
theory Gve_Queues_Effect
  imports Gve_Control_Frame
begin

text \<open>
  The effect of the operations of the control path on flags, interface and configuration, whatever the device
  answers and whatever the kernel refuses.
\<close>

section \<open>Rings\<close>

lemma same_new_tq: "new_tq s = (t, s') \<Longrightarrow> same s s'"
  by (auto simp: new_tq_def split: prod.splits)

lemma same_free_tq: "free_tq q s = Some s' \<Longrightarrow> same s s'"
  by (auto simp: free_tq_def split: Option.bind_splits)

lemma same_clear_tx: "same s (clear_tx i s)"
  by (auto simp: clear_tx_def Let_def split: tx_union.splits prod.splits intro!: same_upd_txq same_trans [OF same_upd_txq same_upd(2)] simp: tx_is_gqi_def)

lemma same_clear_rx: "same s (clear_rx i s)"
  by (auto simp: clear_rx_def Let_def split: rx_union.splits prod.splits intro!: same_upd_rxq same_trans [OF same_upd_rxq same_upd(2)] simp: rx_is_gqi_def)

lemma gqi_upd [simp]:
  "tx_is_gqi (t\<lparr>tc_cleanup_tq := a\<rparr>) = tx_is_gqi t" "tx_is_gqi (t\<lparr>tc_xmit_tq := a\<rparr>) = tx_is_gqi t"
  "tx_is_gqi (t\<lparr>tc_q := q\<lparr>txq_ring := set_stopped b (txq_ring (tc_q t))\<rparr>\<rparr>) = tx_is_gqi t"
  "tx_is_gqi (t\<lparr>tc_q := q\<lparr>txq_ring := map_com f (txq_ring (tc_q t))\<rparr>\<rparr>) = tx_is_gqi t"
  "rx_is_gqi (r\<lparr>rc_cleanup_tq := a\<rparr>) = rx_is_gqi r" "rx_is_gqi (r\<lparr>rc_lro := b\<rparr>) = rx_is_gqi r"
  "rx_is_gqi (r\<lparr>rc_ring := map_rx_com f (rc_ring r)\<rparr>) = rx_is_gqi r"
  "rx_is_gqi (r\<lparr>rc_cleanup_tq := a, rc_lro := b, rc_ring := reset_rx_ctx (rc_ring r)\<rparr>) = rx_is_gqi r"
  by (auto simp: tx_is_gqi_def rx_is_gqi_def set_stopped_def map_com_def map_rx_com_def reset_rx_ctx_def split: tx_union.splits rx_union.splits)

lemma same_start_tx: "same s (gve_start_tx_ring i s)"
proof -
  define s1 where "s1 = upd_txq i (\<lambda>t. t\<lparr>tc_q := (tc_q t)\<lparr>txq_ring := set_stopped False (txq_ring (tc_q t))\<rparr>\<rparr>) s"
  obtain c s2 where 2: "new_tq s1 = (c, s2)" by fastforce
  obtain x s3 where 3: "new_tq (upd_txq i (\<lambda>t. t\<lparr>tc_cleanup_tq := Some c\<rparr>) s2) = (x, s3)" by fastforce
  have "same s s1" "same s2 (upd_txq i (\<lambda>t. t\<lparr>tc_cleanup_tq := Some c\<rparr>) s2)" by (simp_all add: s1_def same_upd_txq)
  moreover have "same s1 s2" by (rule same_new_tq [OF 2])
  moreover have "same (upd_txq i (\<lambda>t. t\<lparr>tc_cleanup_tq := Some c\<rparr>) s2) s3" by (rule same_new_tq [OF 3])
  moreover have "same s3 (upd_txq i (\<lambda>t. t\<lparr>tc_xmit_tq := Some x\<rparr>) s3)" by (rule same_upd_txq) simp
  ultimately have "same s (upd_txq i (\<lambda>t. t\<lparr>tc_xmit_tq := Some x\<rparr>) s3)" by (meson same_trans)
  then show ?thesis using 2 3 by (simp add: gve_start_tx_ring_def s1_def Let_def)
qed

lemma same_start_created_tx: "same s (start_created_tx y rs i s)"
  unfolding start_created_tx_def Let_def split_def by (rule same_trans [OF _ same_start_tx]) (rule same_upd_txq, simp)

lemma same_start_rx: "same s (gve_start_rx_ring y i s)"
proof -
  define s1 where "s1 = (if IFCAP_LRO \<in> if_capenable s then upd_rxq i (\<lambda>r. r\<lparr>rc_lro := True\<rparr>) s else s)"
  obtain c s2 where 2: "new_tq s1 = (c, s2)" by fastforce
  define s3 where "s3 = upd_rxq i (\<lambda>r. r\<lparr>rc_cleanup_tq := Some c\<rparr>) s2"
  have "same s s1" "same s2 s3" by (simp_all add: s1_def s3_def same_upd_rxq)
  moreover have "same s1 s2" by (rule same_new_tq [OF 2])
  ultimately have 3: "same s s3" by (meson same_trans)
  show ?thesis
  proof (cases "rc_ring (sc_rxq s3 ! i)")
    case (RxGqi rx)
    then show ?thesis using 2 3 same_trans [OF 3 same_upd(2)] by (simp add: gve_start_rx_ring_def s1_def s3_def Let_def)
  next
    case (RxDqo rx)
    obtain rx' evs where p: "gve_rx_prefill_buffers_dqo (is_qpl s3) (sy_rxd y i) rx = (rx', evs)" by fastforce
    have "same s3 (upd_rxq i (\<lambda>r. r\<lparr>rc_ring := RxDqo rx'\<rparr>) s3)" by (rule same_upd_rxq) (simp add: rx_is_gqi_def RxDqo)
    then have "same s (emit (map RxEv evs) (upd_rxq i (\<lambda>r. r\<lparr>rc_ring := RxDqo rx'\<rparr>) s3))" using 3 same_upd(2) by (meson same_trans)
    then show ?thesis using 2 RxDqo p by (simp add: gve_start_rx_ring_def s1_def s3_def Let_def)
  qed
qed

lemma same_start_created_rx: "same s (start_created_rx y rs i s)"
  unfolding start_created_rx_def Let_def split_def by (rule same_trans [OF _ same_start_rx]) (rule same_upd_rxq, simp)

lemma create_tx_effect:
  assumes "gve_create_tx_rings y s = Some (e, s')"
  shows "same (if e = None then set_flag GVE_STATE_FLAG_TX_RINGS_OK s else s) s'"
proof (cases "get_flag s GVE_STATE_FLAG_TX_RINGS_OK")
  case True
  then have "s' = s" "e = None" "flags (set_flag GVE_STATE_FLAG_TX_RINGS_OK s) = flags s" using assms by (auto simp: gve_create_tx_rings_def)
  then show ?thesis by (simp add: same_def pkeep_def)
next
  case False
  let ?c = "fold clear_tx [0..<num_tx s] s"
  have "sc_tx s \<noteq> None"
  proof
    assume "sc_tx s = None"
    then show False using assms False by (simp add: gve_create_tx_rings_def)
  qed
  then obtain a rs where r: "sc_tx s = Some (a, rs)" by fast
  obtain e1 s1 where 1: "aq (gve_adminq_create_tx_queues (sy_err0 y) (sy_aq y) (tx_ring_ctl ?c rs) (num_tx ?c)) ?c = (e1, s1)" by fastforce
  have c: "same s s1" by (rule same_trans [OF same_fold [OF same_clear_tx] same_aq [OF frames_commands(2) 1]])
  then have c': "same s (fold (start_created_tx y rs) [0..<num_tx s1] s1)" by (rule same_trans [OF _ same_fold [OF same_start_created_tx]])
  have n: "\<not> (\<exists>i < num_tx s. \<not> tr_desc_ring (rs ! i) \<or> (is_gqi s \<and> tr_qpl (rs ! i) = None))"
  proof
    assume "\<exists>i < num_tx s. \<not> tr_desc_ring (rs ! i) \<or> (is_gqi s \<and> tr_qpl (rs ! i) = None)"
    then have "gve_create_tx_rings y s = None" unfolding gve_create_tx_rings_def using False by (simp only: r if_False if_True option.case prod.case)
    then show False using assms by simp
  qed
  have "gve_create_tx_rings y s = (if e1 \<noteq> None then Some (e1, s1) else Some (None, set_flag GVE_STATE_FLAG_TX_RINGS_OK (fold (start_created_tx y rs) [0..<num_tx s1] s1)))"
    unfolding gve_create_tx_rings_def using False n by (simp only: r 1 if_False option.case prod.case Let_def)
  then show ?thesis using assms c same_flag(1) [OF c'] by (simp split: if_splits)
qed

lemma create_rx_effect:
  assumes "gve_create_rx_rings y s = Some (e, s')"
  shows "same (if e = None then set_flag GVE_STATE_FLAG_RX_RINGS_OK s else s) s'"
proof (cases "get_flag s GVE_STATE_FLAG_RX_RINGS_OK")
  case True
  then have "s' = s" "e = None" "flags (set_flag GVE_STATE_FLAG_RX_RINGS_OK s) = flags s" using assms by (auto simp: gve_create_rx_rings_def)
  then show ?thesis by (simp add: same_def pkeep_def)
next
  case False
  let ?c = "fold clear_rx [0..<num_rx s] s"
  have "sc_rx s \<noteq> None"
  proof
    assume "sc_rx s = None"
    then show False using assms False by (simp add: gve_create_rx_rings_def)
  qed
  then obtain a rs where r: "sc_rx s = Some (a, rs)" by fast
  obtain e1 s1 where 1: "aq (gve_adminq_create_rx_queues (sy_err0 y) (sy_aq y) (IFCAP_LRO \<in> if_capenable ?c \<and> \<not> gve_disable_hw_lro y) (rx_ring_ctl ?c rs) (num_rx ?c)) ?c = (e1, s1)" by fastforce
  have c: "same s s1" by (rule same_trans [OF same_fold [OF same_clear_rx] same_aq [OF frames_commands(1) 1]])
  then have c': "same s (fold (start_created_rx y rs) [0..<num_rx s1] s1)" by (rule same_trans [OF _ same_fold [OF same_start_created_rx]])
  have n: "\<not> (\<exists>i < num_rx s. \<not> rr_desc_ring (rs ! i) \<or> (is_gqi s \<and> rr_qpl (rs ! i) = None))"
  proof
    assume "\<exists>i < num_rx s. \<not> rr_desc_ring (rs ! i) \<or> (is_gqi s \<and> rr_qpl (rs ! i) = None)"
    then have "gve_create_rx_rings y s = None" unfolding gve_create_rx_rings_def using False by (simp only: r if_False if_True option.case prod.case)
    then show False using assms by simp
  qed
  have "gve_create_rx_rings y s = (if e1 \<noteq> None then Some (e1, s1) else Some (None, set_flag GVE_STATE_FLAG_RX_RINGS_OK (fold (start_created_rx y rs) [0..<num_rx s1] s1)))"
    unfolding gve_create_rx_rings_def using False n by (simp only: r 1 if_False option.case prod.case Let_def)
  then show ?thesis using assms c same_flag(1) [OF c'] by (simp split: if_splits)
qed

lemma same_stop_tx: "gve_stop_tx_ring i s = Some s' \<Longrightarrow> same s s'"
proof -
  assume "gve_stop_tx_ring i s = Some s'"
  then obtain a b where a: "free_tq (tc_cleanup_tq (sc_txq s ! i)) s = Some a"
    and b: "free_tq (tc_xmit_tq (sc_txq (upd_txq i (\<lambda>t. t\<lparr>tc_cleanup_tq := None\<rparr>) a) ! i)) (upd_txq i (\<lambda>t. t\<lparr>tc_cleanup_tq := None\<rparr>) a) = Some b"
    and s': "s' = upd_txq i (\<lambda>t. t\<lparr>tc_xmit_tq := None\<rparr>) b"
    by (auto simp: gve_stop_tx_ring_def Let_def split: Option.bind_splits)
  have "same a (upd_txq i (\<lambda>t. t\<lparr>tc_cleanup_tq := None\<rparr>) a)" "same b s'" by (simp_all add: s' same_upd_txq)
  then show ?thesis using same_free_tq [OF a] same_free_tq [OF b] by (meson same_trans)
qed

lemma same_stop_rx: "gve_stop_rx_ring i s = Some s' \<Longrightarrow> same s s'"
  unfolding gve_stop_rx_ring_def by (auto split: Option.bind_splits dest!: same_free_tq intro!: same_trans [OF _ same_upd_rxq])

lemma clear_flag_absent: "f \<notin> flags s \<Longrightarrow> same s s' \<Longrightarrow> same (clear_flag f s) s'"
  by (simp add: same_def pkeep_def)

lemma destroy_tx_effect:
  assumes "gve_destroy_tx_rings y s = Some (e, s')"
  shows "same (if e = None then clear_flag GVE_STATE_FLAG_TX_RINGS_OK s else s) s'" "GVE_STATE_FLAG_TX_RINGS_OK \<notin> flags s \<Longrightarrow> e = None"
proof -
  obtain t where t: "fold_opt gve_stop_tx_ring [0..<num_tx s] s = Some t" using assms by (auto simp: gve_destroy_tx_rings_def split: Option.bind_splits)
  have st: "same s t" by (rule same_fold_opt [OF same_stop_tx t])
  obtain e1 s1 where 1: "aq (gve_adminq_destroy_tx_queues (sy_err0 y) (sy_aq y) (num_tx t)) t = (e1, s1)" by fastforce
  have s1: "same s s1" by (rule same_trans [OF st same_aq [OF frames_destroys(2) 1]])
  show "same (if e = None then clear_flag GVE_STATE_FLAG_TX_RINGS_OK s else s) s'" "GVE_STATE_FLAG_TX_RINGS_OK \<notin> flags s \<Longrightarrow> e = None"
    using assms t 1 s1 same_flag(2) [OF s1] st same_sel(1) [OF st] by (auto simp: gve_destroy_tx_rings_def split: if_splits intro: clear_flag_absent)
qed

lemma destroy_rx_effect:
  assumes "gve_destroy_rx_rings y s = Some (e, s')"
  shows "same (if e = None then clear_flag GVE_STATE_FLAG_RX_RINGS_OK s else s) s'" "GVE_STATE_FLAG_RX_RINGS_OK \<notin> flags s \<Longrightarrow> e = None"
proof -
  obtain t where t: "fold_opt gve_stop_rx_ring [0..<num_rx s] s = Some t" using assms by (auto simp: gve_destroy_rx_rings_def split: Option.bind_splits)
  have st: "same s t" by (rule same_fold_opt [OF same_stop_rx t])
  obtain e1 s1 where 1: "aq (gve_adminq_destroy_rx_queues (sy_err0 y) (sy_aq y) (num_rx t)) t = (e1, s1)" by fastforce
  have s1: "same s s1" by (rule same_trans [OF st same_aq [OF frames_destroys(1) 1]])
  show "same (if e = None then clear_flag GVE_STATE_FLAG_RX_RINGS_OK s else s) s'" "GVE_STATE_FLAG_RX_RINGS_OK \<notin> flags s \<Longrightarrow> e = None"
    using assms t 1 s1 same_flag(2) [OF s1] st same_sel(1) [OF st] by (auto simp: gve_destroy_rx_rings_def split: if_splits intro: clear_flag_absent)
qed

end
