(* ===== verification/Gve_Updown_Effect.thy ===== *)
theory Gve_Updown_Effect
  imports Gve_Queues_Effect
begin

text \<open>
  The effect of registering the page lists, of \<open>gve_up\<close> and of \<open>gve_down\<close> on flags, interface and configuration,
  for every outcome of the admin commands and of the allocations.
\<close>

section \<open>Page lists\<close>

lemma same_register_page_list: "register_page_list y q s = Some (e, s') \<Longrightarrow> same s s'"
proof (cases q)
  case (Some p)
  assume a: "register_page_list y q s = Some (e, s')"
  then obtain e1 h k where 1: "gve_dma_alloc_coherent null_dma (sc_kern s) = Some (e1, h, k)" using Some by (auto simp: register_page_list_def split: Option.bind_splits)
  obtain e2 s2 where 2: "aq (gve_adminq_register_page_list (sy_aq y) (Inr \<lparr>bus_addr = h_bus h\<rparr>) (qpl_id p) (qpl_bus_addrs (Some p))) s = (e2, s2)" by fastforce
  have "same s s2" by (rule same_aq [OF frames_register 2])
  moreover have "s' = s\<lparr>sc_kern := k\<rparr> \<or> (\<exists>k'. s' = s2\<lparr>sc_kern := k'\<rparr>)" using a Some 1 2 by (auto simp: register_page_list_def split: if_splits Option.bind_splits)
  ultimately show ?thesis by (auto intro: same_trans)
qed (simp add: register_page_list_def)

lemma register_effect:
  assumes "gve_register_qpls y s = Some (e, s')"
  shows "same (if e = None then set_flag GVE_STATE_FLAG_QPLREG_OK s else s) s'"
proof (cases "get_flag s GVE_STATE_FLAG_QPLREG_OK")
  case True
  then have "s' = s" "e = None" "flags (set_flag GVE_STATE_FLAG_QPLREG_OK s) = flags s" using assms by (auto simp: gve_register_qpls_def)
  then show ?thesis by (simp add: same_def pkeep_def)
next
  case False
  obtain e1 s1 where 1: "until_err (\<lambda>i s. register_page_list y (tx_qpl i s) s) [0..<num_tx s] s = Some (e1, s1)"
    using assms False by (auto simp: gve_register_qpls_def split: Option.bind_splits)
  have s1: "same s s1" by (rule same_until_err [OF _ 1]) (rule same_register_page_list)
  show ?thesis
  proof (cases e1)
    case (Some x)
    then show ?thesis using assms False 1 s1 by (auto simp: gve_register_qpls_def)
  next
    case None
    obtain e2 s2 where 2: "until_err (\<lambda>i s. register_page_list y (rx_qpl i s) s) [0..<num_rx s1] s1 = Some (e2, s2)"
      using assms False 1 None by (auto simp: gve_register_qpls_def split: Option.bind_splits)
    have "same s1 s2" by (rule same_until_err [OF _ 2]) (rule same_register_page_list)
    then have "same s s2" by (rule same_trans [OF s1])
    then show ?thesis using assms False 1 2 None same_flag(1) by (auto simp: gve_register_qpls_def split: if_splits)
  qed
qed

lemma same_unregister_loop: "unregister_loop y qpl is (e, s) = Some (e', s') \<Longrightarrow> same s s'"
proof (induction "is" arbitrary: e s)
  case (Cons i "is")
  then obtain q where q: "qpl i s = Some q" by (auto split: option.splits)
  obtain e1 s1 where 1: "aq (gve_adminq_unregister_page_list (sy_aq y) (qpl_id q)) s = (e1, s1)" by fastforce
  show ?case using Cons.IH [of e1 s1] Cons.prems q 1 same_aq [OF frames_commands(3) 1] by (auto intro: same_trans)
qed simp

lemma unregister_effect:
  assumes "gve_unregister_qpls y s = Some (e, s')"
  shows "same (if e = None then clear_flag GVE_STATE_FLAG_QPLREG_OK s else s) s'" "GVE_STATE_FLAG_QPLREG_OK \<notin> flags s \<Longrightarrow> e = None"
proof -
  show "GVE_STATE_FLAG_QPLREG_OK \<notin> flags s \<Longrightarrow> e = None" using assms by (simp add: gve_unregister_qpls_def)
  show "same (if e = None then clear_flag GVE_STATE_FLAG_QPLREG_OK s else s) s'"
  proof (cases "GVE_STATE_FLAG_QPLREG_OK \<in> flags s")
    case True
    obtain e1 s1 where 1: "unregister_loop y tx_qpl [0..<num_tx s] (sy_err0 y, s) = Some (e1, s1)"
      using assms True by (auto simp: gve_unregister_qpls_def split: Option.bind_splits)
    obtain e2 s2 where 2: "unregister_loop y rx_qpl [0..<num_rx s1] (e1, s1) = Some (e2, s2)"
      using assms True 1 by (auto simp: gve_unregister_qpls_def split: Option.bind_splits)
    have "same s s2" by (rule same_trans [OF same_unregister_loop [OF 1] same_unregister_loop [OF 2]])
    then show ?thesis using assms True 1 2 same_flag(2) by (auto simp: gve_unregister_qpls_def split: if_splits)
  next
    case False
    then show ?thesis using assms clear_flag_absent [OF False same_refl] by (auto simp: gve_unregister_qpls_def)
  qed
qed

section \<open>Up and down\<close>

abbreviation "RX_OK \<equiv> GVE_STATE_FLAG_RX_RINGS_OK"
abbreviation "TX_OK \<equiv> GVE_STATE_FLAG_TX_RINGS_OK"
abbreviation "QPL_OK \<equiv> GVE_STATE_FLAG_QPLREG_OK"
abbreviation "UP \<equiv> GVE_STATE_FLAG_QUEUES_UP"
abbreviation "LINK \<equiv> GVE_STATE_FLAG_LINK_UP"
abbreviation "DO_RESET \<equiv> GVE_STATE_FLAG_DO_RESET"
abbreviation "IN_RESET \<equiv> GVE_STATE_FLAG_IN_RESET"
abbreviation "idx s \<equiv> check_tx_queue_idx (sc_priv s)"

text \<open>Everything but the flags.\<close>

definition keep :: "'d softc \<Rightarrow> 'd softc \<Rightarrow> bool" where
  "keep s s' \<longleftrightarrow> conf (sc_priv s') = conf (sc_priv s) \<and> idx s' = idx s \<and> shape s' = shape s \<and> iface s' = iface s"

lemma same_keep: "same s s' \<longleftrightarrow> keep s s' \<and> flags s' = flags s"
  by (auto simp: same_def keep_def pkeep_def)

lemma keep_refl [simp]: "keep s s"
  by (simp add: keep_def)

lemma keep_trans: "keep s t \<Longrightarrow> keep t u \<Longrightarrow> keep s u"
  by (simp add: keep_def)

lemma keep_flag [simp]: "keep (set_flag f s) t \<longleftrightarrow> keep s t" "keep (clear_flag f s) t \<longleftrightarrow> keep s t" "keep s (set_flag f t) \<longleftrightarrow> keep s t" "keep s (clear_flag f t) \<longleftrightarrow> keep s t"
  by (simp_all add: keep_def)

lemma keep_sel:
  assumes "keep s s'"
  shows "num_tx s' = num_tx s" "num_rx s' = num_rx s" "is_gqi s' = is_gqi s" "is_qpl s' = is_qpl s" "conf (sc_priv s') = conf (sc_priv s)" "shape s' = shape s" "iface s' = iface s" "idx s' = idx s"
  using assms conf_sel [of "sc_priv s'" "sc_priv s"] by (auto simp: keep_def num_tx_def num_rx_def is_gqi_def is_qpl_def)

lemma create_all_effect:
  assumes "create_all y s = Some (e, s')"
  shows "keep s s'" "e = None \<Longrightarrow> flags s' = flags s \<union> {RX_OK, TX_OK} \<union> (if is_qpl s then {QPL_OK} else {})"
    "flags s \<subseteq> flags s'" "flags s' \<subseteq> flags s \<union> {RX_OK, TX_OK, QPL_OK}"
proof -
  obtain e1 s1 where 1: "(if is_qpl s then gve_register_qpls y s else Some (None, s)) = Some (e1, s1)" using assms by (auto simp: create_all_def split: Option.bind_splits)
  have s1: "keep s s1 \<and> (e1 = None \<longrightarrow> flags s1 = flags s \<union> (if is_qpl s then {QPL_OK} else {})) \<and> (e1 \<noteq> None \<longrightarrow> flags s1 = flags s)"
    using 1 register_effect [of y s e1 s1] by (auto simp: same_keep split: if_splits)
  have "keep s s' \<and> (e = None \<longrightarrow> flags s' = flags s \<union> {RX_OK, TX_OK} \<union> (if is_qpl s then {QPL_OK} else {})) \<and>
    flags s \<subseteq> flags s' \<and> flags s' \<subseteq> flags s \<union> {RX_OK, TX_OK, QPL_OK}"
  proof (cases e1)
    case (Some x)
    then have "e = e1" "s' = s1" using assms 1 by (simp_all add: create_all_def)
    then show ?thesis using s1 Some by auto
  next
    case None
    obtain e2 s2 where 2: "gve_create_rx_rings y s1 = Some (e2, s2)" using assms 1 None by (auto simp: create_all_def split: Option.bind_splits)
    have s2: "keep s s2" "e2 = None \<Longrightarrow> flags s2 = insert RX_OK (flags s1)" "e2 \<noteq> None \<Longrightarrow> flags s2 = flags s1"
      using create_rx_effect [OF 2] s1 by (auto simp: same_keep intro: keep_trans split: if_splits)
    show ?thesis
    proof (cases e2)
      case (Some x)
      then have "e = e2" "s' = s2" using assms 1 2 None by (simp_all add: create_all_def)
      then show ?thesis using s1 s2 None Some by auto
    next
      case n2: None
      have 3: "gve_create_tx_rings y s2 = Some (e, s')" using assms 1 2 None n2 by (simp add: create_all_def)
      have "keep s s'" "e = None \<Longrightarrow> flags s' = insert TX_OK (flags s2)" "e \<noteq> None \<Longrightarrow> flags s' = flags s2"
        using create_tx_effect [OF 3] s2(1) by (auto simp: same_keep intro: keep_trans split: if_splits)
      then show ?thesis using s1 s2 None n2 by (cases e) auto
    qed
  qed
  then show "keep s s'" "e = None \<Longrightarrow> flags s' = flags s \<union> {RX_OK, TX_OK} \<union> (if is_qpl s then {QPL_OK} else {})"
    "flags s \<subseteq> flags s'" "flags s' \<subseteq> flags s \<union> {RX_OK, TX_OK, QPL_OK}" by simp_all
qed

lemma destroy_all_effect:
  assumes "destroy_all y s = Some (e, s')"
  shows "keep s s'" "e = None \<Longrightarrow> flags s' = flags s - {RX_OK, TX_OK} - (if is_qpl s then {QPL_OK} else {})"
    "flags s' \<subseteq> flags s" "flags s - {RX_OK, TX_OK, QPL_OK} \<subseteq> flags s'" "flags s \<inter> {RX_OK, TX_OK, QPL_OK} = {} \<Longrightarrow> e = None"
proof -
  obtain e1 s1 where 1: "gve_destroy_rx_rings y s = Some (e1, s1)" using assms by (auto simp: destroy_all_def split: Option.bind_splits)
  have s1: "keep s s1" "e1 = None \<Longrightarrow> flags s1 = flags s - {RX_OK}" "e1 \<noteq> None \<Longrightarrow> flags s1 = flags s" "RX_OK \<notin> flags s \<Longrightarrow> e1 = None"
    using destroy_rx_effect [OF 1] by (auto simp: same_keep split: if_splits)
  have "keep s s' \<and> (e = None \<longrightarrow> flags s' = flags s - {RX_OK, TX_OK} - (if is_qpl s then {QPL_OK} else {})) \<and>
    flags s' \<subseteq> flags s \<and> flags s - {RX_OK, TX_OK, QPL_OK} \<subseteq> flags s' \<and> (flags s \<inter> {RX_OK, TX_OK, QPL_OK} = {} \<longrightarrow> e = None)"
  proof (cases e1)
    case (Some x)
    then have "e = e1" "s' = s1" using assms 1 by (simp_all add: destroy_all_def)
    then show ?thesis using s1 Some by auto
  next
    case None
    obtain e2 s2 where 2: "gve_destroy_tx_rings y s1 = Some (e2, s2)" using assms 1 None by (auto simp: destroy_all_def split: Option.bind_splits)
    have s2: "keep s s2" "e2 = None \<Longrightarrow> flags s2 = flags s1 - {TX_OK}" "e2 \<noteq> None \<Longrightarrow> flags s2 = flags s1" "TX_OK \<notin> flags s1 \<Longrightarrow> e2 = None"
      using destroy_tx_effect [OF 2] s1(1) by (auto simp: same_keep intro: keep_trans split: if_splits)
    show ?thesis
    proof (cases e2)
      case (Some x)
      then have "e = e2" "s' = s2" using assms 1 2 None by (simp_all add: destroy_all_def)
      then show ?thesis using s1 s2 None Some by auto
    next
      case n2: None
      show ?thesis
      proof (cases "is_qpl s2")
        case True
        have 3: "gve_unregister_qpls y s2 = Some (e, s')" using assms 1 2 None n2 True by (simp add: destroy_all_def)
        have "keep s s'" "e = None \<Longrightarrow> flags s' = flags s2 - {QPL_OK}" "e \<noteq> None \<Longrightarrow> flags s' = flags s2" "QPL_OK \<notin> flags s2 \<Longrightarrow> e = None"
          using unregister_effect [OF 3] s2(1) by (auto simp: same_keep intro: keep_trans split: if_splits)
        then show ?thesis using s1 s2 None n2 True keep_sel(4) [OF s2(1)] by (cases e) auto
      next
        case False
        then have "e = None" "s' = s2" using assms 1 2 None n2 by (simp_all add: destroy_all_def)
        then show ?thesis using s1 s2 None n2 False keep_sel(4) [OF s2(1)] by auto
      qed
    qed
  qed
  then show "keep s s'" "e = None \<Longrightarrow> flags s' = flags s - {RX_OK, TX_OK} - (if is_qpl s then {QPL_OK} else {})"
    "flags s' \<subseteq> flags s" "flags s - {RX_OK, TX_OK, QPL_OK} \<subseteq> flags s'" "flags s \<inter> {RX_OK, TX_OK, QPL_OK} = {} \<Longrightarrow> e = None" by simp_all
qed


lemma iface_eq: "iface s' = iface s \<longleftrightarrow> if_running s' = if_running s \<and> if_oactive s' = if_oactive s \<and> sc_timer s' = sc_timer s \<and>
    sc_service_pending s' = sc_service_pending s \<and> sc_attached s' = sc_attached s \<and> if_mtu s' = if_mtu s \<and> if_capenable s' = if_capenable s"
  by (simp add: iface_def)

lemma same_unmask: "same s (gve_unmask_all_queue_irqs s)"
  unfolding gve_unmask_all_queue_irqs_def Let_def gve_db_bar_write_4_def gve_db_bar_dqo_write_4_def
  by (rule same_trans [OF same_fold same_fold]) (simp_all split: if_splits)

lemma same_mask: "same s (gve_mask_all_queue_irqs s)"
  unfolding gve_mask_all_queue_irqs_def Let_def gve_db_bar_write_4_def by (rule same_trans [OF same_fold same_fold]) simp_all

text \<open>What neither changes.\<close>

definition fixed :: "'d softc \<Rightarrow> 'd softc \<Rightarrow> bool" where
  "fixed s s' \<longleftrightarrow> conf (sc_priv s') = conf (sc_priv s) \<and> shape s' = shape s \<and> sc_attached s' = sc_attached s \<and> if_mtu s' = if_mtu s \<and> if_capenable s' = if_capenable s"

lemma fixed_refl [simp]: "fixed s s"
  by (simp add: fixed_def)

lemma fixed_trans: "fixed s t \<Longrightarrow> fixed t u \<Longrightarrow> fixed s u"
  by (simp add: fixed_def)

lemma keep_fixed: "keep s s' \<Longrightarrow> fixed s s'"
  by (simp add: keep_def fixed_def iface_eq)

lemma fixed_sel:
  assumes "fixed s s'"
  shows "num_tx s' = num_tx s" "num_rx s' = num_rx s" "is_gqi s' = is_gqi s" "is_qpl s' = is_qpl s" "shape s' = shape s" "sc_attached s' = sc_attached s"
  using assms conf_sel [of "sc_priv s'" "sc_priv s"] by (auto simp: fixed_def num_tx_def num_rx_def is_gqi_def is_qpl_def)

lemma link_simps [simp]:
  "flags (link_up s) = insert LINK (flags s)" "flags (link_down s) = flags s - {LINK}" "iface (link_up s) = iface s" "iface (link_down s) = iface s"
  "fixed s (link_up s)" "fixed s (link_down s)" "idx (link_up s) = idx s" "idx (link_down s) = idx s"
  by (simp_all add: link_up_def link_down_def fixed_def) (simp_all add: emit_def shape_def iface_def set_flag_def clear_flag_def)

lemma schedule_reset_simps [simp]:
  "flags (gve_schedule_reset s) = (if IN_RESET \<in> flags s then flags s else insert DO_RESET (flags s))"
  "sc_service_pending (gve_schedule_reset s) = (if IN_RESET \<in> flags s then sc_service_pending s else True)"
  "fixed s (gve_schedule_reset s)" "idx (gve_schedule_reset s) = idx s" "if_running (gve_schedule_reset s) = if_running s" "sc_timer (gve_schedule_reset s) = sc_timer s"
  by (auto simp: gve_schedule_reset_def fixed_def) (simp_all add: set_flag_def gve_set_state_flag_def conf_def shape_def iface_def)

lemma up_finish_effect:
  "fixed s (up_finish s)" "flags (up_finish s) = flags s \<union> {LINK, UP}" "if_running (up_finish s)" "sc_timer (up_finish s)" "idx (up_finish s) = 0"
  "sc_service_pending (up_finish s) = sc_service_pending s"
proof -
  define s1 where "s1 = s\<lparr>if_running := True, if_oactive := False\<rparr>"
  define s2 where "s2 = (if \<not> get_flag s1 LINK then link_up s1 else s1)"
  define s3 where "s3 = gve_unmask_all_queue_irqs s2"
  have e: "up_finish s = gve_start_tx_timeout_service ((set_flag UP s3)\<lparr>sc_priv := (sc_priv (set_flag UP s3))\<lparr>interface_up_cnt := interface_up_cnt (sc_priv (set_flag UP s3)) + 1\<rparr>\<rparr>)"
    by (simp add: up_finish_def Let_def s1_def s2_def s3_def)
  have s1: "fixed s s1" "flags s1 = flags s" "if_running s1" "sc_service_pending s1 = sc_service_pending s" by (simp_all add: s1_def fixed_def shape_def)
  have s2: "fixed s1 s2" "flags s2 = insert LINK (flags s1)" "iface s2 = iface s1" by (auto simp: s2_def)
  have s3: "same s2 s3" unfolding s3_def by (rule same_unmask)
  have f: "fixed s s3" using s1(1) s2(1) keep_fixed s3 same_keep by (blast intro: fixed_trans)
  have "flags s3 = flags s \<union> {LINK}" "if_running s3" "sc_service_pending s3 = sc_service_pending s" using s1 s2 s3 by (auto simp: same_keep keep_def iface_eq)
  then show "flags (up_finish s) = flags s \<union> {LINK, UP}" "if_running (up_finish s)" "sc_service_pending (up_finish s) = sc_service_pending s"
    "sc_timer (up_finish s)" "idx (up_finish s) = 0"
    by (auto simp: e gve_start_tx_timeout_service_def emit_def set_flag_def gve_set_state_flag_def)
  show "fixed s (up_finish s)" using f by (simp add: e fixed_def gve_start_tx_timeout_service_def emit_def set_flag_def gve_set_state_flag_def conf_def shape_def)
qed

lemma up_effect:
  assumes "gve_up y s = Some (e, s')"
  shows "fixed s s'"
    "e = None \<Longrightarrow> UP \<in> flags s \<and> s' = s \<or> UP \<notin> flags s \<and> flags s' = flags s \<union> {RX_OK, TX_OK, LINK, UP} \<union> (if is_qpl s then {QPL_OK} else {}) \<and>
       if_running s' \<and> sc_timer s' \<and> idx s' = 0 \<and> sc_service_pending s' = sc_service_pending s"
    "e \<noteq> None \<Longrightarrow> \<not> sc_attached s \<and> s' = s \<or> UP \<notin> flags s \<and> if_running s' = if_running s \<and> sc_timer s' = sc_timer s \<and> idx s' = idx s \<and>
       flags s \<subseteq> flags s' \<and> flags s' \<subseteq> flags s \<union> {RX_OK, TX_OK, QPL_OK} \<union> (if IN_RESET \<in> flags s then {} else {DO_RESET}) \<and>
       (if IN_RESET \<in> flags s then sc_service_pending s' = sc_service_pending s else DO_RESET \<in> flags s' \<and> sc_service_pending s')"
proof -
  let ?h = "s\<lparr>if_hwassist := hwassist_of (if_capenable s)\<rparr>"
  have "fixed s s' \<and> (e = None \<longrightarrow> UP \<in> flags s \<and> s' = s \<or> UP \<notin> flags s \<and> flags s' = flags s \<union> {RX_OK, TX_OK, LINK, UP} \<union> (if is_qpl s then {QPL_OK} else {}) \<and>
       if_running s' \<and> sc_timer s' \<and> idx s' = 0 \<and> sc_service_pending s' = sc_service_pending s) \<and>
    (e \<noteq> None \<longrightarrow> \<not> sc_attached s \<and> s' = s \<or> UP \<notin> flags s \<and> if_running s' = if_running s \<and> sc_timer s' = sc_timer s \<and> idx s' = idx s \<and>
       flags s \<subseteq> flags s' \<and> flags s' \<subseteq> flags s \<union> {RX_OK, TX_OK, QPL_OK} \<union> (if IN_RESET \<in> flags s then {} else {DO_RESET}) \<and>
       (if IN_RESET \<in> flags s then sc_service_pending s' = sc_service_pending s else DO_RESET \<in> flags s' \<and> sc_service_pending s'))"
  proof (cases "sc_attached s \<and> UP \<notin> flags s")
    case False
    then show ?thesis using assms by (auto simp: gve_up_def split: if_splits)
  next
    case True
    then obtain e1 s1 where 1: "create_all y ?h = Some (e1, s1)" using assms by (auto simp: gve_up_def split: Option.bind_splits)
    have h: "keep s ?h" "is_qpl ?h = is_qpl s" using same_upd(4) [of s "hwassist_of (if_capenable s)"] by (simp_all add: same_keep is_qpl_def)
    note C = create_all_effect [OF 1]
    have k: "keep s s1" by (rule keep_trans [OF h(1) C(1)])
    show ?thesis
    proof (cases e1)
      case None
      then have "s' = up_finish s1" "e = None" using assms True 1 by (simp_all add: gve_up_def)
      moreover have "fixed s (up_finish s1)" by (rule fixed_trans [OF keep_fixed [OF k] up_finish_effect(1)])
      ultimately show ?thesis using up_finish_effect(2-) [of s1] C(2) None True h(2) k by (auto simp: keep_def iface_eq)
    next
      case (Some x)
      then have "s' = gve_schedule_reset s1" "e = Some x" using assms True 1 by (simp_all add: gve_up_def)
      moreover have "fixed s (gve_schedule_reset s1)" by (rule fixed_trans [OF keep_fixed [OF k]]) simp
      moreover have "flags s \<subseteq> flags s1" "flags s1 \<subseteq> flags s \<union> {RX_OK, TX_OK, QPL_OK}" using C(3,4) by simp_all
      ultimately show ?thesis using True k by (auto simp: keep_def iface_eq)
    qed
  qed
  then show "fixed s s'"
    "e = None \<Longrightarrow> UP \<in> flags s \<and> s' = s \<or> UP \<notin> flags s \<and> flags s' = flags s \<union> {RX_OK, TX_OK, LINK, UP} \<union> (if is_qpl s then {QPL_OK} else {}) \<and>
       if_running s' \<and> sc_timer s' \<and> idx s' = 0 \<and> sc_service_pending s' = sc_service_pending s"
    "e \<noteq> None \<Longrightarrow> \<not> sc_attached s \<and> s' = s \<or> UP \<notin> flags s \<and> if_running s' = if_running s \<and> sc_timer s' = sc_timer s \<and> idx s' = idx s \<and>
       flags s \<subseteq> flags s' \<and> flags s' \<subseteq> flags s \<union> {RX_OK, TX_OK, QPL_OK} \<union> (if IN_RESET \<in> flags s then {} else {DO_RESET}) \<and>
       (if IN_RESET \<in> flags s then sc_service_pending s' = sc_service_pending s else DO_RESET \<in> flags s' \<and> sc_service_pending s')" by simp_all
qed

lemma down_finish_effect:
  "fixed s (down_finish s)" "flags (down_finish s) = flags s - {UP}" "if_running (down_finish s) = if_running s" "sc_timer (down_finish s) = sc_timer s"
  "idx (down_finish s) = idx s" "sc_service_pending (down_finish s) = sc_service_pending s"
proof -
  define s1 where "s1 = (if is_gqi s then gve_mask_all_queue_irqs s else s)"
  have s1: "same s s1" by (simp add: s1_def same_mask)
  have e: "down_finish s = (clear_flag UP s1)\<lparr>sc_priv := (sc_priv (clear_flag UP s1))\<lparr>interface_down_cnt := interface_down_cnt (sc_priv (clear_flag UP s1)) + 1\<rparr>\<rparr>"
    by (simp add: down_finish_def Let_def s1_def)
  show "flags (down_finish s) = flags s - {UP}" "if_running (down_finish s) = if_running s" "sc_timer (down_finish s) = sc_timer s"
    "idx (down_finish s) = idx s" "sc_service_pending (down_finish s) = sc_service_pending s"
    using s1 by (auto simp: e same_keep keep_def iface_eq clear_flag_def gve_clear_state_flag_def)
  show "fixed s (down_finish s)" using s1 by (simp add: e same_keep keep_def iface_eq fixed_def clear_flag_def gve_clear_state_flag_def conf_def shape_def)
qed

lemma down_effect:
  assumes "gve_down y s = Some s'"
  shows "fixed s s'" "idx s' = idx s" "UP \<notin> flags s \<Longrightarrow> s' = s"
    "UP \<in> flags s \<Longrightarrow> \<not> if_running s' \<and> \<not> sc_timer s' \<and>
       (UP \<notin> flags s' \<and> flags s' = flags s - {LINK, UP, RX_OK, TX_OK} - (if is_qpl s then {QPL_OK} else {}) \<and> sc_service_pending s' = sc_service_pending s \<or>
        flags s \<inter> {RX_OK, TX_OK, QPL_OK} \<noteq> {} \<and> flags s - {LINK, RX_OK, TX_OK, QPL_OK} \<subseteq> flags s' \<and> flags s' \<subseteq> flags s \<union> (if IN_RESET \<in> flags s then {} else {DO_RESET}) \<and>
        (if IN_RESET \<in> flags s then sc_service_pending s' = sc_service_pending s else DO_RESET \<in> flags s' \<and> sc_service_pending s'))"
proof -
  have "fixed s s' \<and> idx s' = idx s \<and> (UP \<notin> flags s \<longrightarrow> s' = s) \<and> (UP \<in> flags s \<longrightarrow> \<not> if_running s' \<and> \<not> sc_timer s' \<and>
       (UP \<notin> flags s' \<and> flags s' = flags s - {LINK, UP, RX_OK, TX_OK} - (if is_qpl s then {QPL_OK} else {}) \<and> sc_service_pending s' = sc_service_pending s \<or>
        flags s \<inter> {RX_OK, TX_OK, QPL_OK} \<noteq> {} \<and> flags s - {LINK, RX_OK, TX_OK, QPL_OK} \<subseteq> flags s' \<and> flags s' \<subseteq> flags s \<union> (if IN_RESET \<in> flags s then {} else {DO_RESET}) \<and>
        (if IN_RESET \<in> flags s then sc_service_pending s' = sc_service_pending s else DO_RESET \<in> flags s' \<and> sc_service_pending s')))"
  proof (cases "UP \<in> flags s")
    case False
    then show ?thesis using assms by (simp add: gve_down_def)
  next
    case True
    define s1 where "s1 = gve_stop_tx_timeout_service s"
    define s2 where "s2 = (if get_flag s1 LINK then link_down s1 else s1)"
    define s3 where "s3 = s2\<lparr>if_running := False, if_oactive := True\<rparr>"
    have s1: "fixed s s1" "flags s1 = flags s" "\<not> sc_timer s1" "idx s1 = idx s" "sc_service_pending s1 = sc_service_pending s"
      by (simp_all add: s1_def gve_stop_tx_timeout_service_def fixed_def shape_def)
    have s2: "fixed s1 s2" "flags s2 = flags s1 - {LINK}" "iface s2 = iface s1" "idx s2 = idx s1" by (auto simp: s2_def)
    have s3: "fixed s2 s3" "flags s3 = flags s2" "\<not> if_running s3" "sc_timer s3 = sc_timer s2" "idx s3 = idx s2" "sc_service_pending s3 = sc_service_pending s2"
      by (simp_all add: s3_def fixed_def shape_def)
    have g: "gve_down y s = do {(e, s) \<leftarrow> destroy_all y s3; Some (if e \<noteq> None then gve_schedule_reset s else down_finish s)}"
      unfolding gve_down_def Let_def s1_def s2_def s3_def using True by (simp only: flag_simps(1) not_True_eq_False if_False)
    obtain e s4 where 4: "destroy_all y s3 = Some (e, s4)" using assms unfolding g by (auto split: Option.bind_splits)
    note D = destroy_all_effect [OF 4]
    have f3: "fixed s s3" using s1(1) s2(1) s3(1) by (blast intro: fixed_trans)
    have f4: "fixed s s4" by (rule fixed_trans [OF f3 keep_fixed [OF D(1)]])
    have q: "is_qpl s3 = is_qpl s" using f3 by (rule fixed_sel)
    have s': "s' = (if e \<noteq> None then gve_schedule_reset s4 else down_finish s4)" using assms 4 by (simp add: g)
    have fl: "flags s3 = flags s - {LINK}" "\<not> if_running s4" "\<not> sc_timer s4" "idx s4 = idx s" "sc_service_pending s4 = sc_service_pending s"
      using s1 s2 s3 D(1) by (auto simp: keep_def iface_eq)
    show ?thesis
    proof (cases e)
      case None
      have "fixed s (down_finish s4)" by (rule fixed_trans [OF f4 down_finish_effect(1)])
      then show ?thesis using None s' D(2) fl q True by (auto simp: down_finish_effect(2-))
    next
      case (Some x)
      have "fixed s (gve_schedule_reset s4)" by (rule fixed_trans [OF f4]) simp
      moreover have n: "flags s \<inter> {RX_OK, TX_OK, QPL_OK} \<noteq> {}" using D(5) Some fl(1) by blast
      moreover have i: "IN_RESET \<in> flags s4 \<longleftrightarrow> IN_RESET \<in> flags s" using D(3,4) fl(1) by blast
      moreover have "flags s - {LINK, RX_OK, TX_OK, QPL_OK} \<subseteq> flags s4" "flags s4 \<subseteq> flags s" using D(3,4) fl(1) by blast+
      moreover have "s' = gve_schedule_reset s4" using Some s' by simp
      ultimately show ?thesis using fl(2-) True by (cases "IN_RESET \<in> flags s") (simp_all, blast+)
    qed
  qed
  then show "fixed s s'" "idx s' = idx s" "UP \<notin> flags s \<Longrightarrow> s' = s"
    "UP \<in> flags s \<Longrightarrow> \<not> if_running s' \<and> \<not> sc_timer s' \<and>
       (UP \<notin> flags s' \<and> flags s' = flags s - {LINK, UP, RX_OK, TX_OK} - (if is_qpl s then {QPL_OK} else {}) \<and> sc_service_pending s' = sc_service_pending s \<or>
        flags s \<inter> {RX_OK, TX_OK, QPL_OK} \<noteq> {} \<and> flags s - {LINK, RX_OK, TX_OK, QPL_OK} \<subseteq> flags s' \<and> flags s' \<subseteq> flags s \<union> (if IN_RESET \<in> flags s then {} else {DO_RESET}) \<and>
        (if IN_RESET \<in> flags s then sc_service_pending s' = sc_service_pending s else DO_RESET \<in> flags s' \<and> sc_service_pending s'))" by simp_all
qed

end
