(* ===== verification/Gve_Rings_Frame.thy ===== *)
theory Gve_Rings_Frame
  imports Gve_Updown_Effect
begin

text \<open>
  Allocating and releasing rings, and what it leaves unchanged: the configuration, the flags, the number of rings in
  the arrays and their kind.
\<close>

section \<open>Rings\<close>

definition view :: "gve_priv \<Rightarrow> gve_priv \<times> gve_state_flags_bit set \<times> u16" where
  "view p = (conf p, state_flags p, check_tx_queue_idx p)"

lemma view_iff: "view q = view p \<longleftrightarrow> pkeep p q"
  by (auto simp: view_def pkeep_def)

lemma view_upd [simp]: "view (p\<lparr>num_registered_pages := n\<rparr>) = view p"
  by (simp add: view_def conf_def)

lemma view_free_qpl: "gve_free_qpl p q k = Some (p', k') \<Longrightarrow> view p' = view p"
  by (auto simp: gve_free_qpl_def bind_eq_Some_conv)

lemma view_free_qpl_opt: "free_qpl_opt p q k = Some (p', k') \<Longrightarrow> view p' = view p"
  by (auto simp: free_qpl_opt_def view_free_qpl split: option.splits)

lemma view_qpl_fill: "qpl_fill p n q k = Some (q', p', k') \<Longrightarrow> view p' = view p"
  by (auto simp: qpl_fill_def Let_def bind_eq_Some_conv split: prod.splits if_splits dest!: view_free_qpl)

lemma view_alloc_qpl: "gve_alloc_qpl p i n b k = Some (q', p', k') \<Longrightarrow> view p' = view p"
  by (auto simp: gve_alloc_qpl_def Let_def bind_eq_Some_conv split: prod.splits if_splits dest!: view_free_qpl view_qpl_fill)

lemma view_tx_free:
  "gve_tx_free_ring_gqi p r k = Some (r', p', k') \<Longrightarrow> view p' = view p"
  "gve_tx_free_ring_dqo p r k = Some (r', p', k') \<Longrightarrow> view p' = view p"
  by (auto simp: gve_tx_free_ring_gqi_def gve_tx_free_ring_dqo_def Let_def bind_eq_Some_conv dest!: view_free_qpl_opt)

lemma view_tx_free_ring: "gve_tx_free_ring p r k = Some (r', p', k') \<Longrightarrow> view p' = view p"
  by (auto simp: gve_tx_free_ring_def Let_def bind_eq_Some_conv split: if_splits dest!: view_tx_free)

lemma view_tx_alloc_gqi: "gve_tx_alloc_ring_gqi p i r k = Some (e, r', p', k') \<Longrightarrow> view p' = view p"
  by (auto simp: gve_tx_alloc_ring_gqi_def kalloc_def Let_def bind_eq_Some_conv split: if_splits option.splits prod.splits dest!: view_tx_free view_alloc_qpl)

lemma view_tx_dqo_rest: "tx_dqo_rest p i r k = Some (e, r', p', k') \<Longrightarrow> view p' = view p"
  by (auto simp: tx_dqo_rest_def Let_def bind_eq_Some_conv split: if_splits prod.splits dest!: view_tx_free view_alloc_qpl)

lemma view_tx_alloc_dqo: "gve_tx_alloc_ring_dqo p i r k = Some (e, r', p', k') \<Longrightarrow> view p' = view p"
  by (auto simp: gve_tx_alloc_ring_dqo_def Let_def bind_eq_Some_conv split: if_splits dest!: view_tx_free view_tx_dqo_rest)

lemma view_tx_alloc_ring: "gve_tx_alloc_ring p i r k = Some (e, r', p', k') \<Longrightarrow> view p' = view p"
  by (auto simp: gve_tx_alloc_ring_def Let_def bind_eq_Some_conv split: if_splits prod.splits
      dest!: view_tx_free_ring view_tx_alloc_gqi view_tx_alloc_dqo)

lemma view_rx_free:
  "gve_rx_free_ring_gqi p r k = Some (r', p', k') \<Longrightarrow> view p' = view p"
  "gve_rx_free_ring_dqo p r k = Some (r', p', k') \<Longrightarrow> view p' = view p"
  by (auto simp: gve_rx_free_ring_gqi_def gve_rx_free_ring_dqo_def Let_def bind_eq_Some_conv dest!: view_free_qpl_opt)

lemma view_rx_free_ring: "gve_rx_free_ring p r k = Some (r', p', k') \<Longrightarrow> view p' = view p"
  by (auto simp: gve_rx_free_ring_def Let_def bind_eq_Some_conv split: if_splits dest!: view_rx_free)

lemma view_rx_gqi_rest: "rx_gqi_rest p r k = Some (e, r', p', k') \<Longrightarrow> view p' = view p"
  by (auto simp: rx_gqi_rest_def Let_def bind_eq_Some_conv split: if_splits prod.splits dest!: view_rx_free)

lemma view_rx_alloc_gqi: "gve_rx_alloc_ring_gqi p i r k = Some (e, r', p', k') \<Longrightarrow> view p' = view p"
  by (auto simp: gve_rx_alloc_ring_gqi_def Let_def bind_eq_Some_conv split: if_splits dest!: view_rx_free view_alloc_qpl view_rx_gqi_rest)

lemma view_rx_dqo_rest: "rx_dqo_rest p i r k = Some (e, r', p', k') \<Longrightarrow> view p' = view p"
  by (auto simp: rx_dqo_rest_def Let_def bind_eq_Some_conv split: if_splits prod.splits dest!: view_rx_free view_alloc_qpl)

lemma view_rx_alloc_dqo: "gve_rx_alloc_ring_dqo p i r k = Some (e, r', p', k') \<Longrightarrow> view p' = view p"
  by (auto simp: gve_rx_alloc_ring_dqo_def Let_def bind_eq_Some_conv split: if_splits dest!: view_rx_free view_rx_dqo_rest)

lemma view_rx_alloc_ring: "gve_rx_alloc_ring p i r k = Some (e, r', p', k') \<Longrightarrow> view p' = view p"
  by (auto simp: gve_rx_alloc_ring_def Let_def bind_eq_Some_conv split: if_splits prod.splits
      dest!: view_rx_free_ring view_rx_alloc_gqi view_rx_alloc_dqo)

text \<open>The loops, for either kind of ring.\<close>

locale ring_frame =
  fixes alloc_ring :: "gve_priv \<Rightarrow> nat \<Rightarrow> 'r \<Rightarrow> kern \<Rightarrow> (err \<times> 'r \<times> gve_priv \<times> kern) option"
    and free_ring :: "gve_priv \<Rightarrow> 'r \<Rightarrow> kern \<Rightarrow> ('r \<times> gve_priv \<times> kern) option"
  assumes alloc_view: "alloc_ring p i r k = Some (e, r', p', k') \<Longrightarrow> view p' = view p"
    and free_view: "free_ring p r k = Some (r', p', k') \<Longrightarrow> view p' = view p"
begin

lemma free_loop: "free_rings_loop free_ring is (rs, p, k) = Some (rs', p', k') \<Longrightarrow> view p' = view p \<and> length rs' = length rs"
proof (induction "is" arbitrary: rs p k)
  case (Cons i "is")
  then obtain r p1 k1 where f: "free_ring p (rs ! i) k = Some (r, p1, k1)" "free_rings_loop free_ring is (rs[i := r], p1, k1) = Some (rs', p', k')"
    by (auto simp: bind_eq_Some_conv)
  show ?case using free_view [OF f(1)] Cons.IH [OF f(2)] by simp
qed simp

lemma alloc_loop: "alloc_rings_loop alloc_ring free_ring start is (rs, p, k) = Some (e, rs', p', k') \<Longrightarrow> view p' = view p \<and> length rs' = length rs"
proof (induction "is" arbitrary: rs p k)
  case (Cons i "is")
  then obtain e1 r p1 k1 where f: "alloc_ring p i (rs ! i) k = Some (e1, r, p1, k1)"
      and c: "free_rings_loop free_ring [start..<i] (rs[i := r], p1, k1) = Some (rs', p', k') \<or>
        alloc_rings_loop alloc_ring free_ring start is (rs[i := r], p1, k1) = Some (e, rs', p', k')"
    by (auto simp: bind_eq_Some_conv Let_def split: if_splits)
  from c show ?case
  proof
    assume "free_rings_loop free_ring [start..<i] (rs[i := r], p1, k1) = Some (rs', p', k')"
    from free_loop [OF this] alloc_view [OF f] show ?thesis by simp
  next
    assume "alloc_rings_loop alloc_ring free_ring start is (rs[i := r], p1, k1) = Some (e, rs', p', k')"
    from Cons.IH [OF this] alloc_view [OF f] show ?thesis by simp
  qed
qed simp

end

interpretation txf: ring_frame gve_tx_alloc_ring gve_tx_free_ring
  by unfold_locales (fact view_tx_alloc_ring view_tx_free_ring)+

interpretation rxf: ring_frame gve_rx_alloc_ring gve_rx_free_ring
  by unfold_locales (fact view_rx_alloc_ring view_rx_free_ring)+

text \<open>The operations on a range of rings.\<close>

lemma length_upd_range [simp]: "length (upd_range a b f xs) = length xs"
  by (simp add: upd_range_def)

lemma map_upd_range: "(\<And>i x. g (f i x) = g x) \<Longrightarrow> map g (upd_range a b f xs) = map g xs"
  by (rule nth_equalityI) (simp_all add: upd_range_def)

lemma alloc_data_kind [simp]:
  "tx_is_gqi (t\<lparr>tc_q := \<lparr>txq_ring = tx_alloc_data p r (txq_ring (tc_q t)), txq_br = b\<rparr>\<rparr>) = tx_is_gqi t"
  "rx_is_gqi (u\<lparr>rc_ring := rx_alloc_data p r' (rc_ring u)\<rparr>) = rx_is_gqi u"
  by (simp_all add: tx_is_gqi_def rx_is_gqi_def tx_alloc_data_def rx_alloc_data_def Let_def split: tx_union.splits rx_union.splits)

lemma free_tx_same: "free_tx_rings a b s = Some s' \<Longrightarrow> same s s'"
  by (auto simp: free_tx_rings_def gve_free_tx_rings_def bind_eq_Some_conv same_def shape_def iface_def view_iff
      split: if_splits option.splits dest!: txf.free_loop)

lemma free_rx_same: "free_rx_rings a b s = Some s' \<Longrightarrow> same s s'"
  by (auto simp: free_rx_rings_def gve_free_rx_rings_def bind_eq_Some_conv same_def shape_def iface_def view_iff
      split: if_splits option.splits dest!: rxf.free_loop)

lemma alloc_tx_same: "alloc_tx_rings a b s = Some (e, s') \<Longrightarrow> same s s'"
  by (auto simp: alloc_tx_rings_def gve_alloc_tx_rings_def bind_eq_Some_conv same_def shape_def iface_def view_iff map_upd_range
      split: option.splits dest!: txf.alloc_loop)

lemma alloc_rx_same: "alloc_rx_rings a b s = Some (e, s') \<Longrightarrow> same s s'"
  by (auto simp: alloc_rx_rings_def gve_alloc_rx_rings_def bind_eq_Some_conv same_def shape_def iface_def view_iff map_upd_range
      split: option.splits dest!: rxf.alloc_loop)

end
