(* ===== verification/Gve_Control_Inv.thy ===== *)
theory Gve_Control_Inv
  imports Gve_Rings_Frame
begin

text \<open>
  The invariants of the control path: how the flags, the network interface and the timer of the transmit timeout
  service agree, and the well-formedness of the state, over every operation that a user, the device or the kernel
  can start.
\<close>

section \<open>Invariants\<close>

definition ctl_ok :: "'d softc \<Rightarrow> bool" where
  "ctl_ok s \<longleftrightarrow>
     (UP \<in> flags s \<longrightarrow> DO_RESET \<in> flags s \<or>
        RX_OK \<in> flags s \<and> TX_OK \<in> flags s \<and> (is_qpl s \<longrightarrow> QPL_OK \<in> flags s) \<and> if_running s \<and> sc_timer s) \<and>
     (if_running s \<longrightarrow> UP \<in> flags s) \<and> (sc_timer s \<longrightarrow> UP \<in> flags s) \<and>
     IN_RESET \<notin> flags s \<and> (DO_RESET \<in> flags s \<longrightarrow> sc_service_pending s)"

text \<open>A ring size that \<open>gve_check_ring_size\<close> is meant to accept.\<close>

definition ring_size_ok :: "u16 \<Rightarrow> u16 \<Rightarrow> u16 \<Rightarrow> bool" where
  "ring_size_ok lo hi n \<longleftrightarrow> lo \<le> n \<and> n \<le> hi \<and> (\<exists>j < 16. n = push_bit j 1)"

definition queues_ok :: "gve_queue_config \<Rightarrow> bool" where
  "queues_ok c \<longleftrightarrow> 1 \<le> num_queues_cfg c \<and> num_queues_cfg c \<le> max_queues c"

definition conf_typed :: "gve_priv \<Rightarrow> bool" where
  "conf_typed p \<longleftrightarrow> queues_ok (tx_cfg p) \<and> queues_ok (rx_cfg p) \<and>
     ring_size_ok (min_tx_desc_cnt p) (max_tx_desc_cnt p) (tx_desc_cnt p) \<and> ring_size_ok (min_rx_desc_cnt p) (max_rx_desc_cnt p) (rx_desc_cnt p)"

definition sc_typed :: "'d softc \<Rightarrow> bool" where
  "sc_typed s \<longleftrightarrow> conf_typed (sc_priv s) \<and>
     (let t = unat (max_queues (tx_cfg (sc_priv s))); r = unat (max_queues (rx_cfg (sc_priv s)))
      in shape s = (Some t, Some r, replicate t (is_gqi s), replicate r (is_gqi s))) \<and>
     (sc_timer s \<longrightarrow> unat (idx s) < num_tx s)"

section \<open>Steps\<close>

text \<open>
  Whatever the device does, the kernel answers and the user asks for. The data path works on the rings and
  schedules a reset when it finds them corrupt; the kernel changes \<open>IFF_UP\<close>; the device changes by itself.
\<close>

inductive ctl_step :: "'d softc \<Rightarrow> 'd softc \<Rightarrow> bool" where
  ioctl: "gve_ioctl y c s = Some (e, s') \<Longrightarrow> ctl_step s s'"
| init: "gve_init y s = Some s' \<Longrightarrow> ctl_step s s'"
| num_tx_queues: "gve_sysctl_num_tx_queues y req s = Some (e, s') \<Longrightarrow> ctl_step s s'"
| num_rx_queues: "gve_sysctl_num_rx_queues y req s = Some (e, s') \<Longrightarrow> ctl_step s s'"
| tx_ring_size: "gve_sysctl_tx_ring_size y req s = Some (e, s') \<Longrightarrow> ctl_step s s'"
| rx_ring_size: "gve_sysctl_rx_ring_size y req s = Some (e, s') \<Longrightarrow> ctl_step s s'"
| service: "sc_service_pending s \<Longrightarrow> gve_service_task y s = Some s' \<Longrightarrow> ctl_step s s'"
| timeout: "sc_timer s \<Longrightarrow> gve_tx_timeout_service_callback y s = Some s' \<Longrightarrow> ctl_step s s'"
| mgmnt: "ctl_step s (gve_mgmnt_intr s)"
| schedule: "ctl_step s (gve_schedule_reset s)"
| iff_up: "ctl_step s (s\<lparr>if_up := b\<rparr>)"
| device: "ctl_step s (s\<lparr>sc_nic := d\<rparr>)"
| data: "map tx_is_gqi ts = map tx_is_gqi (sc_txq s) \<Longrightarrow> map rx_is_gqi rs = map rx_is_gqi (sc_rxq s) \<Longrightarrow> ctl_step s (s\<lparr>sc_txq := ts, sc_rxq := rs\<rparr>)"

inductive_cases ctl_stepE: "ctl_step s s'"

section \<open>Lemmas\<close>

lemma ctl_ok_keep: "same s s' \<Longrightarrow> ctl_ok s' = ctl_ok s"
  using same_sel [of s s'] by (simp add: ctl_ok_def iface_eq)

lemma typed_fixed: "fixed s s' \<Longrightarrow> (sc_timer s' \<Longrightarrow> unat (idx s') < num_tx s) \<Longrightarrow> sc_typed s \<Longrightarrow> sc_typed s'"
proof -
  assume f: "fixed s s'" and t: "sc_timer s' \<Longrightarrow> unat (idx s') < num_tx s" "sc_typed s"
  then have c: "conf (sc_priv s') = conf (sc_priv s)" by (simp add: fixed_def)
  show ?thesis using t unfolding sc_typed_def conf_typed_def conf_sel [OF c] fixed_sel [OF f] by simp
qed

lemma typed_same: "same s s' \<Longrightarrow> sc_typed s \<Longrightarrow> sc_typed s'"
  by (rule typed_fixed) (auto simp: same_keep keep_fixed, auto simp: keep_def iface_eq sc_typed_def)

lemma typed_num: "sc_typed s \<Longrightarrow> 0 < num_tx s"
  by (auto simp: sc_typed_def conf_typed_def queues_ok_def num_tx_def word_le_nat_alt)

definition good :: "'d softc \<Rightarrow> bool" where
  "good s \<longleftrightarrow> ctl_ok s \<and> sc_typed s"

lemma good_same: "same s s' \<Longrightarrow> good s \<Longrightarrow> good s'"
  by (simp add: good_def ctl_ok_keep typed_same)

lemma good_down:
  assumes "good s" "gve_down y s = Some s'"
  shows "good s'" "\<not> sc_timer s'" "fixed s s'"
proof -
  note D = down_effect [OF assms(2)]
  have t: "\<not> sc_timer s'" using D(3,4) assms(1) by (cases "UP \<in> flags s") (auto simp: good_def ctl_ok_def)
  have "sc_typed s'" using D(1) t assms(1) by (intro typed_fixed [of s s']) (simp_all add: good_def)
  moreover have "ctl_ok s'"
  proof (cases "UP \<in> flags s")
    case True
    have "is_qpl s' = is_qpl s" using D(1) by (rule fixed_sel)
    moreover have "IN_RESET \<notin> flags s" "DO_RESET \<in> flags s \<longrightarrow> sc_service_pending s" using assms(1) by (auto simp: good_def ctl_ok_def)
    ultimately show ?thesis using D(4) [OF True] unfolding ctl_ok_def by auto
  qed (use D(3) assms(1) in \<open>simp add: good_def\<close>)
  ultimately show "good s'" "\<not> sc_timer s'" "fixed s s'" using t D(1) by (simp_all add: good_def)
qed

lemma good_up:
  assumes "good s" "gve_up y s = Some (e, s')"
  shows "good s'" "fixed s s'"
proof -
  note U = up_effect [OF assms(2)]
  have q: "is_qpl s' = is_qpl s" using U(1) by (rule fixed_sel)
  have n: "IN_RESET \<notin> flags s" "DO_RESET \<in> flags s \<longrightarrow> sc_service_pending s" "ctl_ok s" "sc_typed s" using assms(1) by (auto simp: good_def ctl_ok_def)
  have "ctl_ok s'"
  proof (cases e)
    case None
    from U(2) [OF None] show ?thesis
    proof
      assume "UP \<in> flags s \<and> s' = s"
      then show ?thesis using n by simp
    next
      assume a: "UP \<notin> flags s \<and> flags s' = flags s \<union> {RX_OK, TX_OK, LINK, UP} \<union> (if is_qpl s then {QPL_OK} else {}) \<and>
        if_running s' \<and> sc_timer s' \<and> idx s' = 0 \<and> sc_service_pending s' = sc_service_pending s"
      then show ?thesis using n q by (simp add: ctl_ok_def)
    qed
  next
    case (Some x)
    then have "e \<noteq> None" by simp
    note u = U(3) [OF this]
    show ?thesis
    proof (cases "UP \<in> flags s")
      case True
      then show ?thesis using u n by simp
    next
      case False
      then have "\<not> if_running s" "\<not> sc_timer s" using n(3) by (auto simp: ctl_ok_def)
      moreover have "s' = s \<or> UP \<notin> flags s' \<and> IN_RESET \<notin> flags s' \<and> if_running s' = if_running s \<and> sc_timer s' = sc_timer s \<and> sc_service_pending s'"
        using u False n(1) by (cases "s' = s") auto
      ultimately show ?thesis using n(3) by (auto simp: ctl_ok_def)
    qed
  qed
  moreover have "sc_timer s' \<Longrightarrow> unat (idx s') < num_tx s" using U(2,3) n(4) typed_num [OF n(4)] by (cases e) (auto simp: sc_typed_def)
  ultimately show "good s'" "fixed s s'" using U(1) n(4) typed_fixed [of s s'] by (simp_all add: good_def)
qed

lemma good_schedule: "good s \<Longrightarrow> good (gve_schedule_reset s)"
  using typed_fixed [of s "gve_schedule_reset s"] fixed_sel(4) [OF schedule_reset_simps(3) [of s]]
  by (auto simp: good_def ctl_ok_def sc_typed_def)

lemma good_up_or_reset: "good s \<Longrightarrow> up_or_reset y s = Some (e, s') \<Longrightarrow> good s'"
  by (auto simp: up_or_reset_def bind_eq_Some_conv good_schedule dest: good_up(1))

end
