(* ===== verification/Gve_Control_Ops.thy ===== *)
theory Gve_Control_Ops
  imports Gve_Control_Inv
begin

text \<open>
  The operations users start keep the invariant of the control path: ioctls, initialisation, and the sysctls that
  change the number and the size of the rings. The check of a ring size is compared with its meaning.
\<close>

section \<open>MTU, capabilities, ioctls\<close>

lemma good_upd [simp]:
  "good (s\<lparr>if_mtu := m\<rparr>) = good s" "good (s\<lparr>if_capenable := c\<rparr>) = good s" "good (s\<lparr>if_up := b\<rparr>) = good s" "good (s\<lparr>sc_nic := d\<rparr>) = good s"
  by (simp_all add: good_def ctl_ok_def sc_typed_def is_qpl_def is_gqi_def num_tx_def shape_def Let_def)

lemma good_set_mtu: "good s \<Longrightarrow> good (snd (gve_set_mtu y m s))"
proof -
  assume g: "good s"
  obtain e s1 where 1: "aq (gve_adminq_set_mtu (sy_aq y) m) s = (e, s1)" by fastforce
  have "good s1" by (rule good_same [OF same_aq [OF frames_commands(4) 1] g])
  then show ?thesis using g by (auto simp: gve_set_mtu_def 1 split: option.splits)
qed

lemma good_up_caps: "good s \<Longrightarrow> gve_up y (s\<lparr>if_capenable := c\<rparr>) = Some (e, s') \<Longrightarrow> good s'"
  using good_up(1) [of "s\<lparr>if_capenable := c\<rparr>"] by simp

lemma good_ioctl: "good s \<Longrightarrow> gve_ioctl y c s = Some (e, s') \<Longrightarrow> good s'"
proof (cases c)
  case (SIOCSIFMTU m)
  assume g: "good s" "gve_ioctl y c s = Some (e, s')"
  show ?thesis
  proof (cases "if_mtu s = m")
    case False
    then obtain s1 where "gve_down y s = Some s1" "gve_up y (snd (gve_set_mtu y m s1)) = Some (e, s')"
      using g SIOCSIFMTU by (auto simp only: gve_ioctl_def ioctl.case if_False bind_eq_Some_conv)
    then show ?thesis using good_up(1) [OF good_set_mtu [OF good_down(1) [OF g(1)]]] by blast
  qed (use g SIOCSIFMTU in \<open>simp add: gve_ioctl_def\<close>)
next
  case (SIOCSIFCAP m)
  assume g: "good s" "gve_ioctl y c s = Some (e, s')"
  show ?thesis
  proof (cases "m = if_capenable s")
    case False
    then obtain s1 where "gve_down y s = Some s1" "gve_up y (s1\<lparr>if_capenable := m\<rparr>) = Some (e, s')"
      using g SIOCSIFCAP by (auto simp only: gve_ioctl_def ioctl.case if_False bind_eq_Some_conv)
    then show ?thesis using good_down(1) [OF g(1)] good_up_caps by blast
  qed (use g SIOCSIFCAP in \<open>simp add: gve_ioctl_def\<close>)
next
  case SIOCSIFFLAGS
  assume "good s" "gve_ioctl y c s = Some (e, s')"
  then show ?thesis using SIOCSIFFLAGS by (auto simp: gve_ioctl_def bind_eq_Some_conv split: if_splits dest: good_down(1) good_up(1))
qed (simp_all add: gve_ioctl_def)

lemma good_init: "good s \<Longrightarrow> gve_init y s = Some s' \<Longrightarrow> good s'"
  by (auto simp: gve_init_def split: if_splits dest: good_up(1))

section \<open>Number and size of the rings\<close>

lemma good_set:
  assumes "good s" "\<not> sc_timer s"
  shows "1 \<le> n \<Longrightarrow> n \<le> max_queues (tx_cfg (sc_priv s)) \<Longrightarrow> good (set_tx_num n s)"
    "1 \<le> n \<Longrightarrow> n \<le> max_queues (rx_cfg (sc_priv s)) \<Longrightarrow> good (set_rx_num n s)"
    "ring_size_ok (min_tx_desc_cnt (sc_priv s)) (max_tx_desc_cnt (sc_priv s)) n \<Longrightarrow> good (set_tx_size n s)"
    "ring_size_ok (min_rx_desc_cnt (sc_priv s)) (max_rx_desc_cnt (sc_priv s)) n \<Longrightarrow> good (set_rx_size n s)"
  using assms by (simp_all add: good_def ctl_ok_def sc_typed_def conf_typed_def queues_ok_def set_tx_num_def set_rx_num_def set_tx_size_def set_rx_size_def
      is_qpl_def is_gqi_def shape_def)

lemma fixed_max:
  assumes "fixed s s'"
  shows "max_queues (tx_cfg (sc_priv s')) = max_queues (tx_cfg (sc_priv s))" "max_queues (rx_cfg (sc_priv s')) = max_queues (rx_cfg (sc_priv s))"
    "min_tx_desc_cnt (sc_priv s') = min_tx_desc_cnt (sc_priv s)" "max_tx_desc_cnt (sc_priv s') = max_tx_desc_cnt (sc_priv s)"
    "min_rx_desc_cnt (sc_priv s') = min_rx_desc_cnt (sc_priv s)" "max_rx_desc_cnt (sc_priv s') = max_rx_desc_cnt (sc_priv s)"
    "tx_desc_cnt (sc_priv s') = tx_desc_cnt (sc_priv s)" "rx_desc_cnt (sc_priv s') = rx_desc_cnt (sc_priv s)"
  using conf_sel [of "sc_priv s'" "sc_priv s"] assms by (simp_all add: fixed_def)

lemma same_fixed: "same s s' \<Longrightarrow> fixed s s'"
  by (simp add: same_keep keep_fixed)

lemma same_timer: "same s s' \<Longrightarrow> sc_timer s' = sc_timer s"
  by (simp add: same_keep keep_def iface_eq)

lemma good_adjust_rx:
  assumes g: "good s" and n: "1 \<le> n" "n \<le> max_queues (rx_cfg (sc_priv s))" and a: "gve_adjust_rx_queues y n s = Some (e, s')"
  shows "good s'"
proof -
  obtain s1 where 1: "gve_down y s = Some s1" using a by (auto simp: gve_adjust_rx_queues_def bind_eq_Some_conv)
  note D = good_down [OF g 1]
  obtain s2 where 2: "same s1 s2" and u: "(\<exists>e'. gve_up y s2 = Some (e', s')) \<or> up_or_reset y (set_rx_num n s2) = Some (e, s')"
    using a 1 by (auto simp: gve_adjust_rx_queues_def bind_eq_Some_conv split: if_splits dest: free_rx_same alloc_rx_same)
  have g2: "good s2" "\<not> sc_timer s2" "fixed s s2"
    using good_same [OF 2 D(1)] same_timer [OF 2] D(2) fixed_trans [OF D(3) same_fixed [OF 2]] by simp_all
  have "good (set_rx_num n s2)" using n fixed_max(2) [OF g2(3)] by (intro good_set(2) [OF g2(1,2)]) simp_all
  with u g2(1) show ?thesis by (auto dest: good_up(1) good_up_or_reset)
qed

lemma good_adjust_tx:
  assumes g: "good s" and n: "1 \<le> n" "n \<le> max_queues (tx_cfg (sc_priv s))" and a: "gve_adjust_tx_queues y n s = Some (e, s')"
  shows "good s'"
proof -
  obtain s1 where 1: "gve_down y s = Some s1" using a by (auto simp: gve_adjust_tx_queues_def bind_eq_Some_conv)
  note D = good_down [OF g 1]
  obtain s2 where 2: "same s1 s2" and u: "(\<exists>e'. gve_up y s2 = Some (e', s')) \<or> up_or_reset y (set_tx_num n s2) = Some (e, s')"
    using a 1 by (auto simp: gve_adjust_tx_queues_def bind_eq_Some_conv split: if_splits dest: free_tx_same alloc_tx_same)
  have g2: "good s2" "\<not> sc_timer s2" "fixed s s2"
    using good_same [OF 2 D(1)] same_timer [OF 2] D(2) fixed_trans [OF D(3) same_fixed [OF 2]] by simp_all
  have "good (set_tx_num n s2)" using n fixed_max(1) [OF g2(3)] by (intro good_set(1) [OF g2(1,2)]) simp_all
  with u g2(1) show ?thesis by (auto dest: good_up(1) good_up_or_reset)
qed

lemma good_realloc_rx:
  assumes g: "good s" "\<not> sc_timer s" and n: "ring_size_ok (min_rx_desc_cnt (sc_priv s)) (max_rx_desc_cnt (sc_priv s)) n"
    and a: "realloc_rx n s = Some (e, s')"
  shows "good s'" "\<not> sc_timer s'"
proof -
  obtain s1 where 1: "free_rx_rings 0 (num_rx s) s = Some s1" using a by (auto simp: realloc_rx_def bind_eq_Some_conv)
  note S = free_rx_same [OF 1]
  have g1: "good s1" "\<not> sc_timer s1" using good_same [OF S g(1)] same_timer [OF S] g(2) by simp_all
  have p: "ring_size_ok (min_rx_desc_cnt (sc_priv s1)) (max_rx_desc_cnt (sc_priv s1)) (rx_desc_cnt (sc_priv s1))"
    using g1(1) by (simp add: good_def sc_typed_def conf_typed_def)
  have s2: "good (set_rx_size n s1)" "\<not> sc_timer (set_rx_size n s1)" using n fixed_max(5,6) [OF same_fixed [OF S]] good_set(4) [OF g1] g1(2) by (simp_all add: set_rx_size_def)
  obtain e3 s3 where 3: "alloc_rx_rings 0 (num_rx s1) (set_rx_size n s1) = Some (e3, s3)"
    using a 1 by (auto simp: realloc_rx_def bind_eq_Some_conv num_rx_def set_rx_size_def)
  note T = alloc_rx_same [OF 3]
  have g3: "good s3" "\<not> sc_timer s3" using good_same [OF T s2(1)] same_timer [OF T] s2(2) by simp_all
  have m: "min_rx_desc_cnt (sc_priv s3) = min_rx_desc_cnt (sc_priv s1)" "max_rx_desc_cnt (sc_priv s3) = max_rx_desc_cnt (sc_priv s1)"
    using fixed_max(5,6) [OF same_fixed [OF T]] by (simp_all add: set_rx_size_def)
  have s4: "good (set_rx_size (rx_desc_cnt (sc_priv s1)) s3)" "\<not> sc_timer (set_rx_size (rx_desc_cnt (sc_priv s1)) s3)"
    using p m good_set(4) [OF g3] g3(2) by (simp_all add: set_rx_size_def)
  have "same (set_rx_size (rx_desc_cnt (sc_priv s1)) s3) s' \<or> s' = s3"
    using a 1 3 by (auto simp: realloc_rx_def bind_eq_Some_conv Let_def num_rx_def set_rx_size_def split: if_splits dest: alloc_rx_same)
  then show "good s'" "\<not> sc_timer s'" using s4 g3 by (auto dest: good_same same_timer)
qed

lemma good_realloc_tx:
  assumes g: "good s" "\<not> sc_timer s" and n: "ring_size_ok (min_tx_desc_cnt (sc_priv s)) (max_tx_desc_cnt (sc_priv s)) n"
    and a: "realloc_tx_rings n s = Some (e, s')"
  shows "good s'" "\<not> sc_timer s'"
proof -
  obtain s1 where 1: "free_tx_rings 0 (num_tx s) s = Some s1" using a by (auto simp: realloc_tx_rings_def bind_eq_Some_conv)
  note S = free_tx_same [OF 1]
  have g1: "good s1" "\<not> sc_timer s1" using good_same [OF S g(1)] same_timer [OF S] g(2) by simp_all
  have p: "ring_size_ok (min_tx_desc_cnt (sc_priv s1)) (max_tx_desc_cnt (sc_priv s1)) (tx_desc_cnt (sc_priv s1))"
    using g1(1) by (simp add: good_def sc_typed_def conf_typed_def)
  have s2: "good (set_tx_size n s1)" "\<not> sc_timer (set_tx_size n s1)" using n fixed_max(3,4) [OF same_fixed [OF S]] good_set(3) [OF g1] g1(2) by (simp_all add: set_tx_size_def)
  obtain e3 s3 where 3: "alloc_tx_rings 0 (num_tx s1) (set_tx_size n s1) = Some (e3, s3)"
    using a 1 by (auto simp: realloc_tx_rings_def bind_eq_Some_conv num_tx_def set_tx_size_def)
  note T = alloc_tx_same [OF 3]
  have g3: "good s3" "\<not> sc_timer s3" using good_same [OF T s2(1)] same_timer [OF T] s2(2) by simp_all
  have m: "min_tx_desc_cnt (sc_priv s3) = min_tx_desc_cnt (sc_priv s1)" "max_tx_desc_cnt (sc_priv s3) = max_tx_desc_cnt (sc_priv s1)"
    using fixed_max(3,4) [OF same_fixed [OF T]] by (simp_all add: set_tx_size_def)
  have s4: "good (set_tx_size (tx_desc_cnt (sc_priv s1)) s3)" "\<not> sc_timer (set_tx_size (tx_desc_cnt (sc_priv s1)) s3)"
    using p m good_set(3) [OF g3] g3(2) by (simp_all add: set_tx_size_def)
  have "same (set_tx_size (tx_desc_cnt (sc_priv s1)) s3) s' \<or> s' = s3"
    using a 1 3 by (auto simp: realloc_tx_rings_def bind_eq_Some_conv Let_def num_tx_def set_tx_size_def split: if_splits dest: alloc_tx_same)
  then show "good s'" "\<not> sc_timer s'" using s4 g3 by (auto dest: good_same same_timer)
qed

lemma good_adjust_sizes:
  assumes g: "good s" and n: "ring_size_ok (if is_rx then min_rx_desc_cnt (sc_priv s) else min_tx_desc_cnt (sc_priv s))
      (if is_rx then max_rx_desc_cnt (sc_priv s) else max_tx_desc_cnt (sc_priv s)) n"
    and a: "gve_adjust_ring_sizes y n is_rx s = Some (e, s')"
  shows "good s'"
proof -
  obtain s1 where 1: "gve_down y s = Some s1" using a by (auto simp: gve_adjust_ring_sizes_def bind_eq_Some_conv)
  note D = good_down [OF g 1]
  obtain e2 s2 where 2: "(if is_rx then realloc_rx n s1 else realloc_tx_rings n s1) = Some (e2, s2)" and u: "s' = s2 \<or> up_or_reset y s2 = Some (e, s')"
    using a 1 by (auto simp: gve_adjust_ring_sizes_def bind_eq_Some_conv split: if_splits)
  have "good s2" using 2 n fixed_max [OF D(3)] good_realloc_rx(1) [OF D(1,2)] good_realloc_tx(1) [OF D(1,2)] by (cases is_rx) simp_all
  then show ?thesis using u good_up_or_reset by blast
qed

section \<open>Sysctls\<close>

lemma good_sysctl:
  assumes "good s" "sysctl_set check cur adjust req s = Some (e, s')"
    "\<And>v e s'. check (sc_priv s) v = None \<Longrightarrow> adjust (of_int v) s = Some (e, s') \<Longrightarrow> good s'"
  shows "good s'"
  using assms by (auto simp: sysctl_set_def split: prod.splits option.splits if_splits)

lemma check_num: "gve_check_num_queues p v b = None \<Longrightarrow> 1 \<le> (of_int v :: u16) \<and> of_int v \<le> max_queues (if b then rx_cfg p else tx_cfg p)"
proof -
  let ?m = "max_queues (if b then rx_cfg p else tx_cfg p)"
  assume "gve_check_num_queues p v b = None"
  then have v: "1 \<le> v" "v \<le> uint ?m" by (auto simp: gve_check_num_queues_def split: if_splits)
  have "uint ?m < 2 ^ 16" using uint_lt2p [of ?m] by simp
  then have "uint (of_int v :: u16) = v" using v by (simp add: uint_word_of_int_eq take_bit_int_eq_self)
  then show ?thesis using v by (simp add: word_le_def)
qed

lemma and_pred_pow2: "0 < (v :: int) \<Longrightarrow> (v - 1) AND v = 0 \<longleftrightarrow> (\<exists>n. v = 2 ^ n)"
proof (induction "nat v" arbitrary: v rule: less_induct)
  case less
  have r: "(v - 1) AND v = of_bool (odd (v - 1) \<and> odd v) + 2 * (((v - 1) div 2) AND (v div 2))" by (rule and_rec)
  show ?case
  proof (cases "even v")
    case True
    then obtain k where k: "v = 2 * k" by blast
    have d: "(2 * k - 1) div 2 = k - 1" by linarith
    have "(v - 1) AND v = 2 * ((k - 1) AND k)" unfolding r by (simp add: k d)
    moreover have "(k - 1) AND k = 0 \<longleftrightarrow> (\<exists>n. k = 2 ^ n)" using less.prems by (intro less.hyps) (simp_all add: k)
    moreover have "(\<exists>n. k = 2 ^ n) \<longleftrightarrow> (\<exists>n. v = 2 ^ n)"
    proof
      assume "\<exists>n. v = 2 ^ n"
      then obtain n where n: "v = 2 ^ n" by blast
      with True obtain m where "n = Suc m" by (cases n) simp_all
      then show "\<exists>n. k = 2 ^ n" using n k by (intro exI [of _ m]) simp
    qed (use k in \<open>auto intro: exI [of _ "Suc _"]\<close>)
    ultimately show ?thesis by simp
  next
    case False
    then obtain k where k: "v = 2 * k + 1" by (elim oddE)
    have "(v - 1) AND v = 2 * k" unfolding r by (simp add: k)
    moreover have "(\<exists>n. v = 2 ^ n) \<longleftrightarrow> k = 0"
    proof
      assume "\<exists>n. v = 2 ^ n"
      then obtain n where n: "v = 2 ^ n" by blast
      with False have "n = 0" by (cases n) simp_all
      then show "k = 0" using n k by simp
    qed (use k in \<open>auto intro: exI [of _ 0]\<close>)
    ultimately show ?thesis by simp
  qed
qed

lemma powerof2_iff: "0 < v \<Longrightarrow> v < 2 ^ 31 \<Longrightarrow> powerof2 v \<longleftrightarrow> (\<exists>n. v = 2 ^ n)"
proof -
  assume "0 < v" "v < 2 ^ 31"
  moreover from this have "swrap32 (v - 1) = v - 1" by (simp add: swrap32_def)
  ultimately show ?thesis by (simp add: powerof2_def and_pred_pow2)
qed

lemma check_size_iff:
  "gve_check_ring_size p v b = None \<longleftrightarrow>
     uint (if b then min_rx_desc_cnt p else min_tx_desc_cnt p) \<le> v \<and> v \<le> uint (if b then max_rx_desc_cnt p else max_tx_desc_cnt p) \<and> (\<exists>n. v = 2 ^ n)"
proof -
  let ?lo = "if b then min_rx_desc_cnt p else min_tx_desc_cnt p" and ?hi = "if b then max_rx_desc_cnt p else max_tx_desc_cnt p"
  have u: "uint ?hi < 2 ^ 16" "0 \<le> uint ?lo" using uint_lt2p [of ?hi] by simp_all
  show ?thesis
  proof (cases "uint ?lo \<le> v \<and> v \<le> uint ?hi \<and> v \<noteq> 0")
    case True
    then have "v < 2 ^ 16" "0 \<le> v" "v \<noteq> 0" using u by linarith+
    then have "0 < v" "v < 2 ^ 31" by auto
    then show ?thesis using True by (simp add: gve_check_ring_size_def powerof2_iff)
  qed (auto simp: gve_check_ring_size_def)
qed

lemma check_size:
  assumes "gve_check_ring_size p v b = None"
  shows "ring_size_ok (if b then min_rx_desc_cnt p else min_tx_desc_cnt p) (if b then max_rx_desc_cnt p else max_tx_desc_cnt p) (of_int v)"
proof -
  let ?lo = "if b then min_rx_desc_cnt p else min_tx_desc_cnt p" and ?hi = "if b then max_rx_desc_cnt p else max_tx_desc_cnt p"
  obtain n where v: "uint ?lo \<le> v" "v \<le> uint ?hi" "v = 2 ^ n" using assms unfolding check_size_iff by blast
  have u: "uint ?hi < 2 ^ 16" using uint_lt2p [of ?hi] by simp
  then have "(2 :: int) ^ n < 2 ^ 16" using v by linarith
  then have n: "n < 16" by (rule power_less_imp_less_exp [rotated]) simp
  have "0 \<le> v" using v(3) by simp
  moreover have "v < 2 ^ 16" using v(2) u by linarith
  ultimately have "uint (of_int v :: u16) = v" by (simp only: uint_word_of_int_eq) (simp add: take_bit_int_eq_self)
  moreover have "(of_int v :: u16) = push_bit n 1" using v(3) by (simp add: push_bit_eq_mult)
  ultimately show ?thesis using v n unfolding ring_size_ok_def word_le_def by auto
qed

lemma good_sysctls:
  assumes "good s"
  shows "gve_sysctl_num_tx_queues y req s = Some (e, s') \<Longrightarrow> good s'" "gve_sysctl_num_rx_queues y req s = Some (e, s') \<Longrightarrow> good s'"
    "gve_sysctl_tx_ring_size y req s = Some (e, s') \<Longrightarrow> good s'" "gve_sysctl_rx_ring_size y req s = Some (e, s') \<Longrightarrow> good s'"
  unfolding gve_sysctl_num_tx_queues_def gve_sysctl_num_rx_queues_def gve_sysctl_tx_ring_size_def gve_sysctl_rx_ring_size_def
  subgoal by (erule good_sysctl [OF assms], drule check_num, erule good_adjust_tx [OF assms, rotated -1]) simp_all
  subgoal by (erule good_sysctl [OF assms], drule check_num, erule good_adjust_rx [OF assms, rotated -1]) simp_all
  subgoal by (erule good_sysctl [OF assms], drule check_size, erule good_adjust_sizes [OF assms, rotated -1]) simp
  subgoal by (erule good_sysctl [OF assms], drule check_size, erule good_adjust_sizes [OF assms, rotated -1]) simp
  done

end
