(* ===== verification/Gve_Control_Reset.thy ===== *)
theory Gve_Control_Reset
  imports Gve_Control_Ops
begin

text \<open>
  The operations the kernel starts keep the invariant of the control path: the transmit timeout service, the
  service task with its resets and link changes, and the management interrupt. With this every step of
  \<open>ctl_step\<close> does.
\<close>

section \<open>Transmit timeouts\<close>

lemma same_upd_ring: "tx_is_gqi (t\<lparr>tc_q := (tc_q t)\<lparr>txq_ring := f (txq_ring (tc_q t))\<rparr>\<rparr>) = tx_is_gqi t \<Longrightarrow> t = sc_txq s ! i \<Longrightarrow> same s (upd_ring i f s)"
  unfolding upd_ring_def by (rule same_upd_txq) simp

lemma kind_upd [simp]:
  "tx_is_gqi (t\<lparr>tc_q := (tc_q t)\<lparr>txq_ring := count_txq g (txq_ring (tc_q t))\<rparr>\<rparr>) = tx_is_gqi t"
  "tx_is_gqi (t\<lparr>tc_q := (tc_q t)\<lparr>txq_ring := gve_set_timestamp n (txq_ring (tc_q t))\<rparr>\<rparr>) = tx_is_gqi t"
  by (simp_all add: tx_is_gqi_def count_txq_def gve_set_timestamp_def split: tx_union.splits)

lemma handle_timeout_cases:
  "same s (gve_handle_tx_timeout y i s) \<or> (\<exists>t. same s t \<and> gve_handle_tx_timeout y i s = gve_schedule_reset t)"
proof -
  define s1 where "s1 = upd_ring i (count_txq (\<lambda>st. st\<lparr>tx_timeout := tx_timeout st + 1\<rparr>)) s"
  have 1: "same s s1" unfolding s1_def by (rule same_upd_ring) simp_all
  have 2: "same s1 (upd_ring i (gve_set_timestamp (sy_now y)) s1)" by (rule same_upd_ring) simp_all
  have "same s (emit [TxEv (TASKQUEUE_ENQUEUE TX_CLEANUP)] (upd_ring i (gve_set_timestamp (sy_now y)) s1))"
    by (rule same_trans [OF 1 same_trans [OF 2 same_upd(2)]])
  then show ?thesis using 1 unfolding gve_handle_tx_timeout_def Let_def s1_def by (cases "gve_seconds_since (sy_now y)
    (txu_last_kicked (txq_ring (tc_q (sc_txq (upd_ring i (count_txq (\<lambda>st. st\<lparr>tx_timeout := tx_timeout st + 1\<rparr>)) s) ! i)))) > GVE_TX_TIMEOUT_KICK_COOLDOWN_SEC") auto
qed

lemma good_handle_timeout: "good s \<Longrightarrow> good (gve_handle_tx_timeout y i s)"
  using handle_timeout_cases [of s y i] good_schedule by (auto dest: good_same)

lemma good_next: "good s \<Longrightarrow> good (emit [CALLOUT_RESET] (s\<lparr>sc_priv := (sc_priv s)\<lparr>check_tx_queue_idx := of_nat (i mod num_tx s)\<rparr>\<rparr>))"
proof (rule good_same [OF same_upd(2)])
  assume g: "good s"
  have n: "0 < num_tx s" using g typed_num [of s] by (simp add: good_def)
  have "i mod num_tx s < num_tx s" using n by simp
  moreover have "num_tx s < 2 ^ 16" unfolding num_tx_def using unsigned_less [of "num_queues_cfg (tx_cfg (sc_priv s))", where 'a = nat] by simp
  ultimately have "unat (of_nat (i mod num_tx s) :: u16) = i mod num_tx s" by (simp add: unat_of_nat)
  then show "good (s\<lparr>sc_priv := (sc_priv s)\<lparr>check_tx_queue_idx := of_nat (i mod num_tx s)\<rparr>\<rparr>)"
    using g n by (simp add: good_def ctl_ok_def sc_typed_def conf_typed_def is_qpl_def is_gqi_def num_tx_def shape_def Let_def)
qed

lemma good_timeout: "good s \<Longrightarrow> gve_tx_timeout_service_callback y s = Some s' \<Longrightarrow> good s'"
  unfolding gve_tx_timeout_service_callback_def Let_def by (auto split: if_splits intro: good_next good_handle_timeout)

section \<open>Reset\<close>

lemma release_effect:
  assumes "release_adminq y s = Some s'"
  shows "fixed s s'" "iface s' = iface s" "idx s' = idx s" "flags s' = flags s - {GVE_STATE_FLAG_ADMINQ_OK}"
  using assms by (auto simp: release_adminq_def gve_release_adminq_def bind_eq_Some_conv fixed_def conf_def shape_def iface_def
      gve_clear_state_flag_def gve_get_state_flag_def split: if_splits)


lemma adminq_alloc_frame:
  assumes "gve_adminq_alloc dev h (p, d) = (e, p', d')"
  shows "conf p' = conf p \<and> check_tx_queue_idx p' = check_tx_queue_idx p \<and>
    (state_flags p' = state_flags p \<or> state_flags p' = insert GVE_STATE_FLAG_ADMINQ_OK (state_flags p))"
  using assms by (auto simp: gve_adminq_alloc_def Let_def gve_set_state_flag_def conf_def split: if_splits option.splits sum.splits)

lemma adminq_alloc_effect:
  assumes "adminq_alloc y s = Some (e, s')"
  shows "fixed s s'" "iface s' = iface s" "idx s' = idx s" "flags s' = flags s \<or> flags s' = insert GVE_STATE_FLAG_ADMINQ_OK (flags s)"
proof -
  obtain h :: "errno + gve_dma_handle" and k m where 1: "aq (gve_adminq_alloc (sy_aq y) h) (s\<lparr>sc_aq_mem := m, sc_kern := k\<rparr>) = (e, s')"
  proof (cases "get_flag s GVE_STATE_FLAG_ADMINQ_OK \<or> aq_mem (sc_priv s) \<noteq> None")
    case True
    then show ?thesis using assms that [of "Inl ENOMEM" "sc_kern s" "sc_aq_mem s"] by (simp add: adminq_alloc_def)
  next
    case False
    then obtain e1 h1 k1 where "gve_dma_alloc_coherent (sc_aq_mem s) (sc_kern s) = Some (e1, h1, k1)" using assms by (auto simp: adminq_alloc_def bind_eq_Some_conv)
    then show ?thesis using assms False that [of "case e1 of Some e \<Rightarrow> Inl e | None \<Rightarrow> Inr \<lparr>bus_addr = h_bus h1\<rparr>" k1 h1] by (simp add: adminq_alloc_def Let_def)
  qed
  obtain p d where 2: "gve_adminq_alloc (sy_aq y) h (sc_priv s, sc_nic s) = (e, p, d)" "s' = s\<lparr>sc_aq_mem := m, sc_kern := k, sc_priv := p, sc_nic := d\<rparr>"
    using 1 by (auto simp: aq_def split: prod.splits)
  show "fixed s s'" "iface s' = iface s" "idx s' = idx s" "flags s' = flags s \<or> flags s' = insert GVE_STATE_FLAG_ADMINQ_OK (flags s)"
    using adminq_alloc_frame [OF 2(1)] by (simp_all add: 2(2) fixed_def shape_def iface_def)
qed

lemma ptype_map_frame: "gve_adminq_get_ptype_map_dqo dev (Inr h) lut (p, d) = (e, lut', p', d') \<Longrightarrow> pkeep p p'"
  by (auto simp: gve_adminq_get_ptype_map_dqo_def Let_def split: prod.splits option.splits if_splits dest: framesD [OF exec_frames])

lemma same_with_dma:
  assumes "with_dma f g s = Some (e, s')" "\<And>h s e s'. f h s = Some (e, s') \<Longrightarrow> same s s'"
  shows "same s s'"
proof -
  obtain e1 h k where 1: "gve_dma_alloc_coherent null_dma (sc_kern s) = Some (e1, h, k)" using assms(1) by (auto simp: with_dma_def bind_eq_Some_conv)
  show ?thesis
  proof (cases e1)
    case None
    then obtain s2 k2 where "f \<lparr>bus_addr = h_bus h\<rparr> (s\<lparr>sc_kern := k\<rparr>) = Some (e, s2)" and e: "s' = s2\<lparr>sc_kern := k2\<rparr>"
      using assms(1) 1 by (auto simp: with_dma_def bind_eq_Some_conv)
    then have "same (s\<lparr>sc_kern := k\<rparr>) s2" using assms(2) by blast
    then show ?thesis unfolding e by (rule same_trans [OF same_upd(1) same_trans [OF _ same_upd(1)]])
  qed (use assms(1) 1 in \<open>auto simp: with_dma_def\<close>)
qed

lemma same_ptype_map: "get_ptype_map y s = Some (e, s') \<Longrightarrow> same s s'"
  unfolding get_ptype_map_def
proof (erule same_with_dma)
  fix h e and s s' :: "'a softc"
  assume a: "(case sc_ptype_lut s of
       None \<Rightarrow> (case aq (\<lambda>p. case gve_adminq_get_ptype_map_dqo (sy_aq y) (Inr h) [] p of (e, _, p) \<Rightarrow> (e, p)) s of
                  (None, s) \<Rightarrow> None
                | (e, s) \<Rightarrow> Some (e, s))
     | Some (a, lut) \<Rightarrow>
         (case gve_adminq_get_ptype_map_dqo (sy_aq y) (Inr h) lut (sc_priv s, sc_nic s) of (e, lut, priv, d) \<Rightarrow>
            Some (e, s\<lparr>sc_priv := priv, sc_nic := d, sc_ptype_lut := Some (a, lut)\<rparr>))) = Some (e, s')"
  then show "same s s'" by (auto simp: aq_def same_def shape_def iface_def split: option.splits prod.splits dest: ptype_map_frame)
qed

text \<open>The state in which a reset leaves the device, apart from \<open>IN_RESET\<close>.\<close>

definition settled :: "'d softc \<Rightarrow> bool" where
  "settled s \<longleftrightarrow> IN_RESET \<in> flags s \<and> DO_RESET \<notin> flags s \<and>
     (if UP \<in> flags s then RX_OK \<in> flags s \<and> TX_OK \<in> flags s \<and> (is_qpl s \<longrightarrow> QPL_OK \<in> flags s) \<and> if_running s \<and> sc_timer s \<and> idx s = 0
      else \<not> if_running s \<and> \<not> sc_timer s)"

lemma settled_same: "same s s' \<Longrightarrow> settled s \<Longrightarrow> settled s'"
  using same_sel [of s s'] by (simp add: settled_def iface_eq)

lemma settled_up:
  assumes "settled s" "gve_up y s = Some (e, s')"
  shows "settled s'"
proof (cases "UP \<in> flags s \<or> \<not> sc_attached s")
  case True
  then have "s' = s" using assms(2) by (auto simp: gve_up_def split: if_splits)
  then show ?thesis using assms(1) by simp
next
  case False
  note U = up_effect [OF assms(2)]
  have q: "is_qpl s' = is_qpl s" using U(1) by (rule fixed_sel)
  show ?thesis
  proof (cases e)
    case None
    then show ?thesis using U(2) [OF None] False assms(1) q by (auto simp: settled_def)
  next
    case (Some x)
    then have "e \<noteq> None" by simp
    from U(3) [OF this] have u: "if_running s' = if_running s" "sc_timer s' = sc_timer s" "flags s \<subseteq> flags s'" "flags s' \<subseteq> flags s \<union> {RX_OK, TX_OK, QPL_OK}"
      using False assms(1) by (auto simp: settled_def)
    moreover have "UP \<notin> flags s'" using u(4) False by auto
    moreover have "IN_RESET \<in> flags s'" "DO_RESET \<notin> flags s'" using u(3,4) assms(1) by (auto simp: settled_def)
    ultimately show ?thesis using assms(1) False by (simp add: settled_def)
  qed
qed

lemma restore_effect:
  assumes "gve_restore y s = Some s'" "settled s"
  shows "fixed s s' \<and> settled s'"
proof -
  obtain e1 s1 where 1: "adminq_alloc y s = Some (e1, s1)" using assms(1) by (auto simp: gve_restore_def bind_eq_Some_conv)
  note A = adminq_alloc_effect [OF 1]
  have q: "is_qpl s1 = is_qpl s" using A(1) by (rule fixed_sel)
  have f: "f \<noteq> GVE_STATE_FLAG_ADMINQ_OK \<Longrightarrow> f \<in> flags s1 \<longleftrightarrow> f \<in> flags s" for f using A(4) by blast
  have s1: "settled s1" using assms(2) A(2,3) q unfolding settled_def iface_eq by (simp add: f)
  obtain e2 s2 where 2: "aq (gve_adminq_configure_device_resources (sy_aq y)) s1 = (e2, s2)" by fastforce
  have t2: "same s1 s2" by (rule same_aq [OF frames_configure 2])
  show ?thesis
  proof (cases "e1 = None \<and> e2 = None")
    case False
    then have "s' = s1 \<or> s' = s2" using assms(1) 1 2 by (auto simp: gve_restore_def split: if_splits)
    then show ?thesis using A(1) s1 t2 by (auto intro: fixed_trans same_fixed settled_same)
  next
    case True
    obtain e3 s3 where 3: "(if is_gqi s2 then Some (None, s2) else get_ptype_map y s2) = Some (e3, s3)"
      using assms(1) 1 2 True by (auto simp: gve_restore_def bind_eq_Some_conv)
    have t3: "same s1 s3" using 3 t2 same_ptype_map [of y s2 e3 s3] by (auto intro: same_trans split: if_splits)
    have "settled s3" "fixed s s3" using s1 t3 A(1) by (auto intro: fixed_trans same_fixed settled_same)
    moreover have "s' = s3 \<or> (\<exists>e. gve_up y s3 = Some (e, s'))"
      using assms(1) 1 2 3 True by (auto simp: gve_restore_def bind_eq_Some_conv split: if_splits)
    ultimately show ?thesis using settled_up up_effect(1) by (blast intro: fixed_trans)
  qed
qed

lemma clear_resources_same: "gve_clear_device_resources s = Some s' \<Longrightarrow> same s s'"
  by (auto simp: gve_clear_device_resources_def split: if_splits)

lemma handle_reset_effect:
  assumes g: "sc_typed s" "sc_timer s \<Longrightarrow> UP \<in> flags s" and h: "gve_handle_reset y s = Some s'" and True: "DO_RESET \<in> flags s"
  shows "good s' \<and> DO_RESET \<notin> flags s'"
proof -
  define s1 where "s1 = link_down ((set_flag IN_RESET (clear_flag DO_RESET s))\<lparr>if_running := False, if_oactive := True\<rparr>)"
  have s1: "fixed s s1" "flags s1 = insert IN_RESET (flags s - {DO_RESET}) - {LINK}" "\<not> if_running s1" "sc_timer s1 = sc_timer s" "idx s1 = idx s"
  proof -
    define t where "t = (set_flag IN_RESET (clear_flag DO_RESET s))\<lparr>if_running := False, if_oactive := True\<rparr>"
    have "fixed s t" "flags t = insert IN_RESET (flags s - {DO_RESET})" "\<not> if_running t" "sc_timer t = sc_timer s" "idx t = idx s"
      by (simp_all add: t_def fixed_def set_flag_def clear_flag_def gve_set_state_flag_def gve_clear_state_flag_def conf_def shape_def)
    moreover have "s1 = link_down t" by (simp add: s1_def t_def)
    moreover have "iface (link_down t) = iface t" by simp
    ultimately show "fixed s s1" "flags s1 = insert IN_RESET (flags s - {DO_RESET}) - {LINK}" "\<not> if_running s1" "sc_timer s1 = sc_timer s" "idx s1 = idx s"
      using fixed_trans [of s t "link_down t"] unfolding iface_eq by simp_all
  qed
  define c where "c = (\<lambda>t :: 'a softc. clear_flag TX_OK (clear_flag RX_OK (clear_flag QPL_OK (clear_flag GVE_STATE_FLAG_RESOURCES_OK t))))"
  obtain s2 s3 s4 s5 where 2: "release_adminq y s1 = Some s2" and 3: "gve_down y (c s2) = Some s3" and 4: "gve_clear_device_resources s3 = Some s4"
      and 5: "gve_restore y s4 = Some s5"
      and s': "s' = clear_flag IN_RESET (s5\<lparr>sc_priv := (sc_priv s5)\<lparr>reset_cnt := reset_cnt (sc_priv s5) + 1\<rparr>\<rparr>)"
    using h True unfolding gve_handle_reset_def c_def s1_def Let_def bind_eq_Some_conv by (auto simp only: flag_simps(1) if_False if_True not_True_eq_False bind_eq_Some_conv)
  note R = release_effect [OF 2]
  have f2: "fixed s (c s2)" using fixed_trans [OF s1(1) R(1)] by (simp add: c_def fixed_def clear_flag_def gve_clear_state_flag_def conf_def shape_def)
  have c2: "flags (c s2) \<inter> {RX_OK, TX_OK, QPL_OK, DO_RESET} = {}" "IN_RESET \<in> flags (c s2)" "\<not> if_running (c s2)" "sc_timer (c s2) = sc_timer s"
      "UP \<in> flags (c s2) \<longleftrightarrow> UP \<in> flags s"
    using R s1 by (auto simp: c_def iface_eq clear_flag_def gve_clear_state_flag_def)
  note D = down_effect [OF 3]
  have "settled s3"
  proof (cases "UP \<in> flags (c s2)")
    case True
    have "flags (c s2) \<inter> {RX_OK, TX_OK, QPL_OK} = {}" using c2(1) by blast
    with D(4) [OF True] have "\<not> if_running s3" "\<not> sc_timer s3" "UP \<notin> flags s3"
        "flags s3 = flags (c s2) - {LINK, UP, RX_OK, TX_OK} - (if is_qpl (c s2) then {QPL_OK} else {})" by simp_all
    then show ?thesis using c2(1,2) by (auto simp: settled_def)
  next
    case False
    then show ?thesis using D(3) [OF False] c2 g(2) by (auto simp: settled_def)
  qed
  then have "settled s4" by (rule settled_same [OF clear_resources_same [OF 4]])
  note E = restore_effect [OF 5 this]
  have f5: "fixed s s5" using fixed_trans [OF f2 fixed_trans [OF D(1) fixed_trans [OF same_fixed [OF clear_resources_same [OF 4]]]]] E by blast
  have f': "fixed s s'" using f5 by (simp add: s' fixed_def clear_flag_def gve_clear_state_flag_def conf_def shape_def)
  have z: "flags s' = flags s5 - {IN_RESET}" "if_running s' = if_running s5" "sc_timer s' = sc_timer s5" "idx s' = idx s5"
    by (simp_all add: s' clear_flag_def gve_clear_state_flag_def)
  have q: "is_qpl s' = is_qpl s5" using fixed_sel(4) [OF f'] fixed_sel(4) [OF f5] by simp
  have st: "settled s5" using E by simp
  have "ctl_ok s'" using st q z unfolding ctl_ok_def settled_def by (auto split: if_splits)
  moreover have "sc_typed s'"
    using typed_fixed [OF f'] z st g typed_num [of s] unfolding settled_def good_def by (auto split: if_splits)
  moreover have "DO_RESET \<notin> flags s'" using st z by (simp add: settled_def)
  ultimately show ?thesis by (simp add: good_def)
qed

lemma good_link: "good s \<Longrightarrow> good (link_up s)" "good s \<Longrightarrow> good (link_down s)"
proof -
  assume g: "good s"
  have i: "iface (link_up s) = iface s" "iface (link_down s) = iface s" by simp_all
  have q: "is_qpl (link_up s) = is_qpl s" "is_qpl (link_down s) = is_qpl s" by (rule fixed_sel(4), simp)+
  have "ctl_ok (link_up s)" "ctl_ok (link_down s)" using g i q unfolding good_def ctl_ok_def iface_eq by simp_all
  moreover have "sc_typed (link_up s)" "sc_typed (link_down s)"
  proof -
    have t: "sc_typed s" "sc_timer s \<Longrightarrow> unat (idx s) < num_tx s" using g by (simp_all add: good_def sc_typed_def)
    have e: "sc_timer (link_up s) = sc_timer s" "sc_timer (link_down s) = sc_timer s" using i unfolding iface_eq by simp_all
    show "sc_typed (link_up s)" by (rule typed_fixed [of s]) (simp_all add: t e)
    show "sc_typed (link_down s)" by (rule typed_fixed [of s]) (simp_all add: t e)
  qed
  ultimately show "good (link_up s)" "good (link_down s)" by (simp_all add: good_def)
qed

lemma good_link_status: "good s \<Longrightarrow> good (gve_handle_link_status y s)"
  by (auto simp: gve_handle_link_status_def gve_reg_bar_read_4_def Let_def good_link split: prod.splits)

lemma pending_upd:
  "sc_typed (s\<lparr>sc_service_pending := b, sc_nic := d\<rparr>) = sc_typed s"
  "DO_RESET \<notin> flags s \<Longrightarrow> ctl_ok (s\<lparr>sc_service_pending := b, sc_nic := d\<rparr>) = ctl_ok s"
  by (simp_all add: ctl_ok_def sc_typed_def shape_def is_gqi_def is_qpl_def num_tx_def Let_def)

lemma typed_set_flag: "sc_typed (set_flag f s) = sc_typed s"
  by (simp add: set_flag_def gve_set_state_flag_def sc_typed_def conf_typed_def shape_def is_gqi_def num_tx_def Let_def)

lemma good_service:
  assumes g: "good s" and h: "gve_service_task y s = Some s'"
  shows "good s'" "DO_RESET \<notin> flags s'"
proof -
  obtain v d where r: "gve_reg_bar_read_4 y DEVICE_STATUS (s\<lparr>sc_service_pending := False\<rparr>) = (v, s\<lparr>sc_service_pending := False, sc_nic := d\<rparr>)"
    by (cases "sy_reg y DEVICE_STATUS (sc_nic s)") (simp add: gve_reg_bar_read_4_def)
  define s1 where "s1 = s\<lparr>sc_service_pending := False, sc_nic := d\<rparr>"
  define s2 where "s2 = (if GVE_DEVICE_STATUS_RESET_MASK AND v \<noteq> 0 \<and> \<not> get_flag s1 IN_RESET then set_flag DO_RESET s1 else s1)"
  obtain s3 where 3: "gve_handle_reset y s2 = Some s3" and s': "s' = gve_handle_link_status y s3"
    using h r unfolding gve_service_task_def Let_def s2_def s1_def by (auto simp only: prod.case bind_eq_Some_conv option.inject)
  have i: "sc_typed s1" "sc_timer s1 \<Longrightarrow> UP \<in> flags s1" "DO_RESET \<notin> flags s1 \<Longrightarrow> ctl_ok s1"
    using g pending_upd [where s = s and b = False and d = d] by (simp_all add: good_def s1_def) (simp_all add: ctl_ok_def)
  have "good s3 \<and> DO_RESET \<notin> flags s3"
  proof (cases "DO_RESET \<in> flags s2")
    case True
    have "iface s2 = iface s1" "UP \<in> flags s2 \<longleftrightarrow> UP \<in> flags s1" "sc_typed s2 = sc_typed s1" by (simp_all add: s2_def typed_set_flag)
    then have "sc_typed s2" "sc_timer s2 \<Longrightarrow> UP \<in> flags s2" using i(1,2) unfolding iface_eq by simp_all
    then show ?thesis by (rule handle_reset_effect [OF _ _ 3 True])
  next
    case False
    then have "s2 = s1" by (auto simp: s2_def split: if_splits)
    then show ?thesis using False 3 i by (simp add: gve_handle_reset_def good_def)
  qed
  then show "good s'" "DO_RESET \<notin> flags s'"
    by (simp_all add: s' good_link_status) (auto simp: gve_handle_link_status_def gve_reg_bar_read_4_def Let_def split: prod.splits)
qed

lemma good_pending: "good s \<Longrightarrow> good (gve_mgmnt_intr s)"
  by (simp add: good_def ctl_ok_def gve_mgmnt_intr_def sc_typed_def shape_def is_gqi_def is_qpl_def num_tx_def Let_def)

lemma good_step: "ctl_step s s' \<Longrightarrow> good s \<Longrightarrow> good s'"
proof (induction rule: ctl_step.induct)
  case (ioctl y c s e s') then show ?case by (blast intro: good_ioctl)
next
  case (init y s s') then show ?case by (blast intro: good_init)
next
  case (num_tx_queues y req s e s') then show ?case by (blast intro: good_sysctls)
next
  case (num_rx_queues y req s e s') then show ?case by (blast intro: good_sysctls)
next
  case (tx_ring_size y req s e s') then show ?case by (blast intro: good_sysctls)
next
  case (rx_ring_size y req s e s') then show ?case by (blast intro: good_sysctls)
next
  case (service s y s') then show ?case by (blast intro: good_service)
next
  case (timeout s y s') then show ?case by (blast intro: good_timeout)
next
  case (data ts s rs)
  then have "same s (s\<lparr>sc_txq := ts, sc_rxq := rs\<rparr>)" by (simp add: same_def shape_def iface_def)
  then show ?case using data.prems by (rule good_same)
qed (simp_all add: good_pending good_schedule)

lemma good_reach: "ctl_step\<^sup>*\<^sup>* s s' \<Longrightarrow> good s \<Longrightarrow> good s'"
  by (induction rule: rtranclp_induct) (auto intro: good_step)

end
