(* ===== verification/Gve_Control_Props.thy ===== *)
theory Gve_Control_Props
  imports Gve_Control_Reset Gve_Alloc_Props
begin

text \<open>
  The properties of the control path.
\<close>

section \<open>A state for the witnesses\<close>

definition ex_cpriv :: gve_priv where
  "ex_cpriv = (ex_priv 0)\<lparr>queue_format := GVE_DQO_RDA_FORMAT, tx_cfg := \<lparr>max_queues = 2, num_queues_cfg = 2\<rparr>, rx_cfg := \<lparr>max_queues = 2, num_queues_cfg = 1\<rparr>,
     num_queues := 4, tx_desc_cnt := 2, rx_desc_cnt := 2, max_tx_desc_cnt := 4, max_rx_desc_cnt := 4, max_mtu := 1460,
     state_flags := {GVE_STATE_FLAG_ADMINQ_OK, GVE_STATE_FLAG_RESOURCES_OK, RX_OK, TX_OK, UP, LINK}\<rparr>"

text \<open>The interface is up, with two transmit queues and one of two receive queues in use.\<close>

definition ex_up :: "sim softc" where
  "ex_up = \<lparr>sc_priv = ex_cpriv, sc_nic = sim0 0, sc_kern = ex_kern (\<lambda>c n. None), sc_tx = Some (1, [null_tx_res, null_tx_res]), sc_rx = Some (2, [null_rx_res, null_rx_res]),
     sc_txq = [null_txq GVE_DQO_RDA_FORMAT 0, null_txq GVE_DQO_RDA_FORMAT 1], sc_rxq = [null_rxq GVE_DQO_RDA_FORMAT 0, null_rxq GVE_DQO_RDA_FORMAT 1],
     sc_irqs = \<lparr>irq_tbl = None, irq_msix = None, ntfy_id_tx = (\<lambda>i. 0), ntfy_id_rx = (\<lambda>i. 0)\<rparr>, sc_aq_mem = null_dma, sc_counter_mem = null_dma, sc_counters = True, sc_irq_db_mem = null_dma,
     sc_irq_db = True, sc_ptype_lut = None, sc_reg_bar = None, sc_db_bar = None, sc_msix_table = None, sc_iface_lock = None, sc_ifp = None, sc_service_tq = None,
     sc_attached = True, sc_service_pending = False, sc_timer = True, sc_mgmt_msix_idx = 4, sc_rx_copybreak = 256, if_up = True, if_running = True, if_oactive = False,
     if_mtu = 1460, if_capabilities = {}, if_capenable = {}, if_hwassist = {}, if_hwtsomax = 0, if_hwtsomaxsegcount = 0, if_hwtsomaxsegsize = 0, sc_log = []\<rparr>"

definition ex_sys :: "sim sys" where
  "ex_sys = \<lparr>sy_aq = sim_dev [], sy_reg = (\<lambda>off d. (GVE_DEVICE_STATUS_LINK_STATUS, d)), sy_irq_db = (\<lambda>d i. of_nat i), sy_q_res = (\<lambda>d a. (7, 3)), sy_err0 = None, sy_fuel = 1,
     sy_rxd = (\<lambda>i. \<lparr>rx_copybreak = 256, lro_enabled = False, lro_cnt = 0, tcp_lro_rx_ok = (\<lambda>m. False), ptype_lut = (\<lambda>i. \<lparr>l3_type = 0, l4_type = 0\<rparr>),
       al_mbuf = Some, al_bytes = (\<lambda>i. []), al_load = (\<lambda>i. Inr (of_nat i))\<rparr>),
     gve_disable_hw_lro = False, sy_now = 0\<rparr>"

lemma rep2: "replicate 2 x = [x, x]"
  by (simp add: numeral_2_eq_2)

lemma ex_up_good: "ctl_ok ex_up" "sc_typed ex_up"
proof -
  show "ctl_ok ex_up" by (simp add: ctl_ok_def ex_up_def ex_cpriv_def is_qpl_def gve_is_qpl_def)
  have "ring_size_ok 0 4 2" unfolding ring_size_ok_def by (intro conjI exI [of _ 1]) simp_all
  then have "conf_typed ex_cpriv" by (simp add: conf_typed_def queues_ok_def ex_cpriv_def ex_priv_def)
  then show "sc_typed ex_up"
    by (simp add: sc_typed_def ex_up_def Let_def is_gqi_def num_tx_def shape_def gve_is_gqi_def ex_cpriv_def ex_priv_def
        null_txq_def null_rxq_def tx_is_gqi_def rx_is_gqi_def rep2)
qed

definition ex_next :: "sim softc" where
  "ex_next = emit [CALLOUT_RESET] (ex_up\<lparr>sc_priv := ex_cpriv\<lparr>check_tx_queue_idx := 1\<rparr>\<rparr>)"

lemma ex_next: "gve_tx_timeout_service_callback ex_sys ex_up = Some ex_next" "sc_timer ex_next" "IN_RESET \<notin> flags ex_next"
proof -
  have t: "check_tx_timeout ex_sys 0 ex_up = 0"
    by (simp add: check_tx_timeout_def ex_up_def null_txq_def gve_check_tx_timeout_dqo_def gve_is_gqi_def)
  have "num_tx ex_up = 2" "unat (idx ex_up) = 0" "sc_priv ex_up = ex_cpriv" by (simp_all add: num_tx_def ex_up_def ex_cpriv_def ex_priv_def)
  then show "gve_tx_timeout_service_callback ex_sys ex_up = Some ex_next"
    by (simp add: gve_tx_timeout_service_callback_def Let_def t ex_next_def)
  show "sc_timer ex_next" "IN_RESET \<notin> flags ex_next" by (simp_all add: ex_next_def emit_def ex_up_def ex_cpriv_def)
qed

lemma release_keeps_flags: "release_adminq y s = Some s' \<Longrightarrow> f \<in> flags s' \<Longrightarrow> f \<in> flags s"
  using release_effect(4) by blast

lemma restore_flags:
  assumes "gve_restore y s = Some s'"
  shows "flags s' \<subseteq> flags s \<union> {GVE_STATE_FLAG_ADMINQ_OK, RX_OK, TX_OK, QPL_OK, UP, LINK, DO_RESET}"
proof -
  obtain e1 s1 where 1: "adminq_alloc y s = Some (e1, s1)" using assms by (auto simp: gve_restore_def bind_eq_Some_conv)
  obtain e2 s2 where 2: "aq (gve_adminq_configure_device_resources (sy_aq y)) s1 = (e2, s2)" by fastforce
  have f2: "flags s2 = flags s1" using same_sel(1) [OF same_aq [OF frames_configure 2]] .
  have f1: "flags s1 \<subseteq> flags s \<union> {GVE_STATE_FLAG_ADMINQ_OK}" using adminq_alloc_effect(4) [OF 1] by blast
  show ?thesis
  proof (cases "e1 = None \<and> e2 = None")
    case False
    then have "s' = s1 \<or> s' = s2" using assms 1 2 by (auto simp: gve_restore_def split: if_splits)
    then show ?thesis using f1 f2 by blast
  next
    case True
    obtain e3 s3 where 3: "(if is_gqi s2 then Some (None, s2) else get_ptype_map y s2) = Some (e3, s3)"
      using assms 1 2 True by (auto simp: gve_restore_def bind_eq_Some_conv)
    have f3: "flags s3 = flags s2" using 3 same_sel(1) [OF same_ptype_map [of y s2 e3 s3]] by (auto split: if_splits)
    have "s' = s3 \<or> (\<exists>e. gve_up y s3 = Some (e, s'))" using assms 1 2 3 True by (auto simp: gve_restore_def bind_eq_Some_conv split: if_splits)
    then show ?thesis
    proof
      assume "\<exists>e. gve_up y s3 = Some (e, s')"
      then obtain e where u: "gve_up y s3 = Some (e, s')" by blast
      have "flags s' \<subseteq> flags s3 \<union> {RX_OK, TX_OK, QPL_OK, UP, LINK, DO_RESET}" using up_effect(2,3) [OF u] by (cases e) (auto split: if_splits)
      then show ?thesis using f1 f2 f3 by blast
    qed (use f1 f2 f3 in blast)
  qed
qed

lemma reset_no_resources:
  assumes "gve_handle_reset y (set_flag DO_RESET s) = Some s'"
  shows "GVE_STATE_FLAG_RESOURCES_OK \<notin> flags s'" "IN_RESET \<notin> flags s'"
proof -
  let ?c = "\<lambda>t :: 'a softc. clear_flag TX_OK (clear_flag RX_OK (clear_flag QPL_OK (clear_flag GVE_STATE_FLAG_RESOURCES_OK t)))"
  obtain s2 s3 s4 s5 where 3: "gve_down y (?c s2) = Some s3" and 4: "gve_clear_device_resources s3 = Some s4" and 5: "gve_restore y s4 = Some s5"
      and s': "s' = clear_flag IN_RESET (s5\<lparr>sc_priv := (sc_priv s5)\<lparr>reset_cnt := reset_cnt (sc_priv s5) + 1\<rparr>\<rparr>)"
    using assms unfolding gve_handle_reset_def Let_def bind_eq_Some_conv by (auto simp only: flag_simps(1,2) if_False if_True not_True_eq_False bind_eq_Some_conv insert_iff simp_thms)
  have "flags s3 \<subseteq> flags (?c s2) \<union> {DO_RESET}" using down_effect(3,4) [OF 3] by (cases "UP \<in> flags (?c s2)") (auto split: if_splits)
  then have "GVE_STATE_FLAG_RESOURCES_OK \<notin> flags s3" by auto
  then have "GVE_STATE_FLAG_RESOURCES_OK \<notin> flags s4" using same_sel(1) [OF clear_resources_same [OF 4]] by simp
  then have "GVE_STATE_FLAG_RESOURCES_OK \<notin> flags s5" using restore_flags [OF 5] by auto
  then show "GVE_STATE_FLAG_RESOURCES_OK \<notin> flags s'" "IN_RESET \<notin> flags s'" by (simp_all add: s' clear_flag_def gve_clear_state_flag_def)
qed

section \<open>Properties\<close>

text \<open>
  C7. Whatever users, the device and the kernel do - requests that change MTU, flags, capabilities, the number and the
  size of the rings, the service task, timeouts, resets, failures of any allocation and any admin command - the flags, the
  interface and the timer stay consistent: queues that are up exist at the device, with their page lists registered, and
  the interface runs with the transmit timeout service armed, or a reset is pending; nothing runs while the queues are
  down; no reset is lost (a requested reset has its service task queued) and none is left half done.
\<close>

theorem ctl_flags_invariant:
  assumes "ctl_step\<^sup>*\<^sup>* s s'" and "ctl_ok s" and "sc_typed s"
  shows "ctl_ok s'"
  using good_reach [OF assms(1)] assms(2,3) by (simp add: good_def)

lemma ex_run: "ctl_step\<^sup>*\<^sup>* ex_up (gve_schedule_reset ex_next)"
  using ctl_step.timeout [OF _ ex_next(1)] ctl_step.schedule [of ex_next] by (simp add: ex_up_def) 

theorem ctl_flags_invariant_witness: "ctl_ok (gve_schedule_reset ex_next) \<and> DO_RESET \<in> flags (gve_schedule_reset ex_next)"
  using ctl_flags_invariant [OF ex_run ex_up_good] ex_next(3) by simp

text \<open>
  C9. The same operations keep the state well formed: the arrays have room for the maximum number of queues, every ring is of
  the kind of the queue format, between 1 and the maximum number of queues are in use, the ring sizes are powers of
  two within the device's bounds, and the transmit timeout service looks at a queue in use.
\<close>

theorem ctl_state_typed:
  assumes "ctl_step\<^sup>*\<^sup>* s s'" and "sc_typed s" and "ctl_ok s"
  shows "sc_typed s'"
  using good_reach [OF assms(1)] assms(2,3) by (simp add: good_def)

theorem ctl_state_typed_witness: "sc_typed (gve_schedule_reset ex_next) \<and> unat (idx (gve_schedule_reset ex_next)) < num_tx (gve_schedule_reset ex_next)"
proof -
  have "sc_typed (gve_schedule_reset ex_next)" by (rule ctl_state_typed [OF ex_run ex_up_good(2,1)])
  then show ?thesis using ex_next(2) by (simp add: sc_typed_def)
qed

text \<open>
  C25. \<open>gve_check_ring_size\<close>, with its trick on \<open>val & (val - 1)\<close> in 32-bit arithmetic, accepts exactly the powers of two
  within the device's bounds, for every value a user can write.
\<close>

theorem gve_check_ring_size_iff:
  "gve_check_ring_size priv val is_rx = None \<longleftrightarrow>
     (\<exists>n. val = 2 ^ n) \<and> uint (if is_rx then min_rx_desc_cnt priv else min_tx_desc_cnt priv) \<le> val \<and>
     val \<le> uint (if is_rx then max_rx_desc_cnt priv else max_tx_desc_cnt priv)"
  unfolding check_size_iff by auto

lemma set_mtu_effect:
  assumes "gve_set_mtu y m s = (e, s')"
  shows "conf (sc_priv s') = conf (sc_priv s) \<and> shape s' = shape s \<and> if_capenable s' = if_capenable s \<and>
    (if_mtu s' = if_mtu s \<or> if_mtu s' = m \<and> ETHERMIN \<le> m \<and> m \<le> ucast (max_mtu (sc_priv s)) \<and> (is_gqi s \<or> gve_disable_hw_lro y \<or> m < 7822 \<or> 8227 < m))"
proof -
  obtain e1 t where 1: "aq (gve_adminq_set_mtu (sy_aq y) m) s = (e1, t)" by fastforce
  have t: "same s t" by (rule same_aq [OF frames_commands(4) 1])
  have k: "conf (sc_priv t) = conf (sc_priv s)" "shape t = shape s" "if_capenable t = if_capenable s" "if_mtu t = if_mtu s"
    using same_sel(2,7,8) [OF t] unfolding iface_eq by simp_all
  have u: "shape (t\<lparr>if_mtu := m\<rparr>) = shape t" by (simp add: shape_def)
  show ?thesis
  proof (cases "s' = s \<or> s' = t")
    case False
    then have "s' = t\<lparr>if_mtu := m\<rparr>" "ETHERMIN \<le> m \<and> m \<le> ucast (max_mtu (sc_priv s)) \<and> (is_gqi s \<or> gve_disable_hw_lro y \<or> m < 7822 \<or> 8227 < m)"
      using assms by (auto simp: gve_set_mtu_def 1 not_less not_le split: if_splits option.splits)
    then show ?thesis using k u by simp
  qed (use k in auto)
qed

text \<open>
  C26. A request to change the MTU: the interface gets the new MTU only if it lies between the minimum of Ethernet and the
  device's maximum and, with hardware LRO in DQO mode, outside the range that makes the device slow; otherwise the
  interface keeps the MTU it had. Ring sizes, queue counts, ring kinds and capabilities stay as they were.
\<close>

theorem gve_ioctl_mtu_guarded:
  "case gve_ioctl y (SIOCSIFMTU m) s of None \<Rightarrow> True
   | Some (e, s') \<Rightarrow> conf (sc_priv s') = conf (sc_priv s) \<and> shape s' = shape s \<and> if_capenable s' = if_capenable s \<and>
       (if_mtu s' = if_mtu s \<or>
        if_mtu s' = m \<and> ETHERMIN \<le> m \<and> m \<le> ucast (max_mtu (sc_priv s)) \<and> (is_gqi s \<or> gve_disable_hw_lro y \<or> m < 7822 \<or> 8227 < m))"
proof (cases "gve_ioctl y (SIOCSIFMTU m) s")
  case (Some r)
  obtain e s' where r: "r = (e, s')" by fastforce
  show ?thesis
  proof (cases "if_mtu s = m")
    case True
    then show ?thesis using Some r by (simp add: gve_ioctl_def)
  next
    case False
    then obtain s1 where 1: "gve_down y s = Some s1" and 3: "gve_up y (snd (gve_set_mtu y m s1)) = Some (e, s')"
      using Some r by (auto simp only: gve_ioctl_def ioctl.case if_False bind_eq_Some_conv)
    obtain e2 s2 where 2: "gve_set_mtu y m s1 = (e2, s2)" by fastforce
    have f1: "fixed s s1" by (rule down_effect(1) [OF 1])
    have f3: "fixed s2 s'" using up_effect(1) [OF 3] 2 by simp
    have k: "max_mtu (sc_priv s1) = max_mtu (sc_priv s)" "is_gqi s1 = is_gqi s" using conf_sel(12) [of "sc_priv s1" "sc_priv s"] f1 fixed_sel(3) [OF f1] by (simp_all add: fixed_def)
    note c = set_mtu_effect [OF 2]
    have "conf (sc_priv s') = conf (sc_priv s)" "shape s' = shape s" "if_capenable s' = if_capenable s" "if_mtu s' = if_mtu s2" "if_mtu s1 = if_mtu s"
      using f1 f3 conjunct1 [OF c] conjunct1 [OF conjunct2 [OF c]] conjunct1 [OF conjunct2 [OF conjunct2 [OF c]]] by (simp_all add: fixed_def)
    then show ?thesis using conjunct2 [OF conjunct2 [OF conjunct2 [OF c]]] k Some r by simp
  qed
qed simp

text \<open>
  An MTU that \<open>gve_set_mtu\<close> refuses is not an error for the user: the handler drops its result, restarts the queues for
  nothing and returns what \<open>gve_up\<close> returns.
\<close>

lemma gve_ioctl_mtu_error_lost:
  assumes "m < ETHERMIN \<or> ucast (max_mtu (sc_priv s)) < m" and "if_mtu s \<noteq> m"
  shows "gve_ioctl y (SIOCSIFMTU m) s = do { s \<leftarrow> gve_down y s; gve_up y s }"
proof (cases "gve_down y s")
  case (Some s1)
  have "conf (sc_priv s1) = conf (sc_priv s)" using down_effect(1) [OF Some] by (simp add: fixed_def)
  then have "max_mtu (sc_priv s1) = max_mtu (sc_priv s)" by (rule conf_sel)
  then show ?thesis using assms Some by (auto simp: gve_ioctl_def gve_set_mtu_def)
qed (use assms(2) in \<open>simp add: gve_ioctl_def\<close>)

lemma gve_ioctl_mtu_error_lost_instance:
  "gve_ioctl ex_sys (SIOCSIFMTU 9000) (ex_up\<lparr>sc_priv := (sc_priv ex_up)\<lparr>state_flags := {}\<rparr>, sc_attached := False\<rparr>) =
     Some (Some ENXIO, ex_up\<lparr>sc_priv := (sc_priv ex_up)\<lparr>state_flags := {}\<rparr>, sc_attached := False\<rparr>)"
proof -
  let ?s = "ex_up\<lparr>sc_priv := (sc_priv ex_up)\<lparr>state_flags := {}\<rparr>, sc_attached := False\<rparr>"
  have "ucast (max_mtu (sc_priv ?s)) < (9000 :: u32)" "if_mtu ?s \<noteq> 9000" by (simp_all add: ex_up_def ex_cpriv_def)
  then have "gve_ioctl ex_sys (SIOCSIFMTU 9000) ?s = do { s \<leftarrow> gve_down ex_sys ?s; gve_up ex_sys s }" by (intro gve_ioctl_mtu_error_lost) simp_all
  also have "\<dots> = Some (Some ENXIO, ?s)" by (simp add: gve_down_def gve_up_def)
  finally show ?thesis .
qed

text \<open>
  C38. A reset never sets \<open>GVE_STATE_FLAG_RESOURCES_OK\<close> again, although \<open>gve_restore\<close> has configured the device's resources: from
  then on \<open>gve_deconfigure_and_free_device_resources\<close> frees the memory the device uses without telling the device.
\<close>

theorem gve_reset_loses_resources_flag:
  "case gve_handle_reset y (set_flag DO_RESET s) of None \<Rightarrow> True
   | Some s' \<Rightarrow> GVE_STATE_FLAG_RESOURCES_OK \<notin> flags s' \<and> IN_RESET \<notin> flags s' \<and>
       gve_deconfigure_and_free_device_resources y s' =
         do { s \<leftarrow> gve_free_irq_db_array s'; s \<leftarrow> gve_free_counter_array s;
              case sc_ptype_lut s of None \<Rightarrow> Some s | Some (a, lut) \<Rightarrow> do { k \<leftarrow> kfree MALLOC a (sc_kern s); Some (s\<lparr>sc_kern := k, sc_ptype_lut := None\<rparr>) } }"
proof (cases "gve_handle_reset y (set_flag DO_RESET s)")
  case (Some s')
  then show ?thesis using reset_no_resources [OF Some] by (simp add: gve_deconfigure_and_free_device_resources_def)
qed simp

text \<open>
  C39. When the receive rings of a device cannot be allocated, the unwinding in \<open>gve_alloc_rings\<close> follows the NULL pointer
  \<open>priv->tx\<close>.
\<close>

theorem gve_alloc_rings_rx_failure:
  assumes "alloc_rx_rings 0 (num_rx s) (malloc_rx s) = Some (Some e, s1)" and "sc_tx s = None" and "0 < num_tx s"
  shows "gve_alloc_rings s = None"
proof -
  have "num_tx (malloc_rx s) = num_tx s" "sc_tx (malloc_rx s) = None" "num_rx (malloc_rx s) = num_rx s"
    using assms(2) by (simp_all add: malloc_rx_def num_tx_def num_rx_def Let_def split: prod.splits)
  moreover from this have "sc_tx s1 = None" using assms(1) by (auto simp: alloc_rx_rings_def bind_eq_Some_conv split: option.splits)
  moreover have "num_tx s1 = num_tx (malloc_rx s)" using same_sel(3) [OF alloc_rx_same [OF assms(1)]] .
  ultimately have "gve_free_rings s1 = None" using assms(3)
    by (cases "free_irqs s1") (auto simp: gve_free_rings_def free_irqs_def free_tx_rings_def num_tx_def bind_eq_Some_conv split: prod.splits)
  then show ?thesis using assms(1) by (simp add: gve_alloc_rings_def num_rx_def malloc_rx_def Let_def split: prod.splits)
qed

lemma ex_rx_failure:
  "\<exists>rs' p' k'. gve_alloc_rx_rings 0 1 (replicate 2 null_rx_res, ex_cpriv, snd (kalloc MALLOC (ex_kern (\<lambda>c n. Some ENOMEM)))) = Some (Some ENOMEM, rs', p', k')"
  by (simp add: gve_alloc_rx_rings_def run_defs ex_cpriv_def gve_rx_alloc_ring_def gve_rx_free_ring_def gve_rx_free_ring_dqo_def null_rx_res_def NUM_RX_STATS_def)

theorem gve_alloc_rings_rx_failure_witness: "gve_alloc_rings (ex_up\<lparr>sc_tx := None, sc_kern := ex_kern (\<lambda>c n. Some ENOMEM)\<rparr>) = None"
proof -
  let ?s = "ex_up\<lparr>sc_tx := None, sc_kern := ex_kern (\<lambda>c n. Some ENOMEM)\<rparr>"
  have n: "num_rx ?s = 1" "0 < num_tx ?s" "unat (max_queues (rx_cfg (sc_priv ?s))) = 2" "sc_priv ?s = ex_cpriv"
    by (simp_all add: num_rx_def num_tx_def ex_up_def ex_cpriv_def ex_priv_def)
  have m: "sc_rx (malloc_rx ?s) = Some (fst (kalloc MALLOC (sc_kern ?s)), replicate 2 null_rx_res)" "sc_priv (malloc_rx ?s) = ex_cpriv"
      "sc_kern (malloc_rx ?s) = snd (kalloc MALLOC (ex_kern (\<lambda>c n. Some ENOMEM)))"
    using n(3,4) by (simp_all add: malloc_rx_def Let_def split: prod.splits)
  obtain rs' p' k' where "gve_alloc_rx_rings 0 1 (replicate 2 null_rx_res, ex_cpriv, snd (kalloc MALLOC (ex_kern (\<lambda>c n. Some ENOMEM)))) = Some (Some ENOMEM, rs', p', k')"
    using ex_rx_failure by blast
  then obtain s1 where "alloc_rx_rings 0 (num_rx ?s) (malloc_rx ?s) = Some (Some ENOMEM, s1)" by (simp add: alloc_rx_rings_def m n(1) del: One_nat_def)
  then show ?thesis by (rule gve_alloc_rings_rx_failure) (simp_all add: n(2))
qed

end
