(* ===== verification/Gve_Sysctl.thy ===== *)
theory Gve_Sysctl
  imports Gve_Control_Props
begin

text \<open>
  The tree of variables \<open>gve_sysctl.c\<close> registers for a device, with what reading a leaf follows: a counter through the
  pointer in the ring, a 32-bit word in place, a handler.
\<close>

section \<open>The tree\<close>

text \<open>\<open>RX_COUNTER i k\<close> is the address of member number \<open>k\<close> of the statistics of receive ring \<open>i\<close>.\<close>

datatype 'd oid_val =
    RX_COUNTER nat nat
  | TX_COUNTER nat nat
  | U32 "'d softc \<Rightarrow> u32"
  | PROC "'d sys \<Rightarrow> sysctl_req \<Rightarrow> 'd softc \<Rightarrow> (err \<times> 'd softc) option"

datatype 'd oid = LEAF string "'d oid_val" | NODE string "'d oid list"

text \<open>\<open>%d\<close> of \<open>snprintf\<close>; the names fit the 16 bytes of \<open>namebuf\<close>.\<close>

fun show_nat :: "nat \<Rightarrow> string" where
  "show_nat n = (if n < 10 then [char_of (48 + n)] else show_nat (n div 10) @ [char_of (48 + n mod 10)])"

declare show_nat.simps [simp del]

definition rx_counters :: "(string \<times> nat) list" where
  "rx_counters =
     [(''rx_bytes'', 0), (''rx_packets'', 1), (''rx_copybreak_cnt'', 3), (''rx_frag_flip_cnt'', 4), (''rx_frag_copy_cnt'', 5),
      (''rx_dropped_pkt'', 2), (''rx_dropped_pkt_desc_err'', 6), (''rx_dropped_pkt_buf_post_fail'', 7),
      (''rx_dropped_pkt_mbuf_alloc_fail'', 8), (''rx_mbuf_dmamap_err'', 9), (''rx_mbuf_mclget_null'', 10)]"

definition rxu_cnt :: "rx_union \<Rightarrow> u32" where
  "rxu_cnt u = (case u of RxGqi rx \<Rightarrow> cnt rx | RxDqo rx \<Rightarrow> cnt rx)"

definition rxu_fill_cnt :: "rx_union \<Rightarrow> u32" where
  "rxu_fill_cnt u = (case u of RxGqi rx \<Rightarrow> fill_cnt rx | RxDqo rx \<Rightarrow> fill_cnt rx)"

definition gve_setup_rxq_sysctl :: "'d softc \<Rightarrow> nat \<Rightarrow> 'd oid" where
  "gve_setup_rxq_sysctl s i =
     NODE (''rxq'' @ show_nat (com_id (rxu_com (rc_ring (sc_rxq s ! i)))))
       (map (\<lambda>(n, k). LEAF n (RX_COUNTER i k)) rx_counters @
        [LEAF ''rx_completed_desc'' (U32 (\<lambda>s. rxu_cnt (rc_ring (sc_rxq s ! i)))),
         LEAF ''num_desc_posted'' (U32 (\<lambda>s. rxu_fill_cnt (rc_ring (sc_rxq s ! i))))])"

definition tx_counters :: "(string \<times> nat) list" where
  "tx_counters =
     [(''tx_packets'', 1), (''tx_tso_packets'', 2), (''tx_bytes'', 0), (''tx_delayed_pkt_nospace_device'', 4),
      (''tx_dropped_pkt_nospace_bufring'', 5), (''tx_dropped_pkt_vlan'', 10), (''tx_delayed_pkt_nospace_descring'', 6),
      (''tx_delayed_pkt_nospace_compring'', 7), (''tx_delayed_pkt_nospace_qpl_bufs'', 8), (''tx_delayed_pkt_tsoerr'', 9),
      (''tx_mbuf_collapse'', 11), (''tx_mbuf_defrag'', 12), (''tx_mbuf_defrag_err'', 13), (''tx_mbuf_dmamap_enomem_err'', 14),
      (''tx_mbuf_dmamap_err'', 15), (''tx_timeout'', 16)]"

definition txu_req :: "tx_union \<Rightarrow> u32" where
  "txu_req u = (case u of TxGqi tx \<Rightarrow> tx_req tx | TxDqo tx \<Rightarrow> tx_req tx)"

definition txu_done :: "tx_union \<Rightarrow> u32" where
  "txu_done u = (case u of TxGqi tx \<Rightarrow> tx_done tx | TxDqo tx \<Rightarrow> tx_done tx)"

definition gve_setup_txq_sysctl :: "'d softc \<Rightarrow> nat \<Rightarrow> 'd oid" where
  "gve_setup_txq_sysctl s i =
     NODE (''txq'' @ show_nat (com_id (txu_com (txq_ring (tc_q (sc_txq s ! i))))))
       ([LEAF ''tx_posted_desc'' (U32 (\<lambda>s. txu_req (txq_ring (tc_q (sc_txq s ! i))))),
         LEAF ''tx_completed_desc'' (U32 (\<lambda>s. txu_done (txq_ring (tc_q (sc_txq s ! i)))))] @
        map (\<lambda>(n, k). LEAF n (TX_COUNTER i k)) tx_counters)"

definition gve_setup_queue_stat_sysctl :: "'d softc \<Rightarrow> 'd oid list" where
  "gve_setup_queue_stat_sysctl s = map (gve_setup_rxq_sysctl s) [0..<num_rx s] @ map (gve_setup_txq_sysctl s) [0..<num_tx s]"

definition gve_setup_adminq_stat_sysctl :: "'d oid list" where
  "gve_setup_adminq_stat_sysctl =
     [NODE ''adminq_stats'' (map (\<lambda>(n, f). LEAF n (U32 (\<lambda>s. f (sc_priv s))))
        [(''adminq_prod_cnt'', adminq_prod_cnt), (''adminq_cmd_fail'', adminq_cmd_fail), (''adminq_timeouts'', adminq_timeouts),
         (''adminq_describe_device_cnt'', adminq_describe_device_cnt), (''adminq_cfg_device_resources_cnt'', adminq_cfg_device_resources_cnt),
         (''adminq_register_page_list_cnt'', adminq_register_page_list_cnt), (''adminq_unregister_page_list_cnt'', adminq_unregister_page_list_cnt),
         (''adminq_create_tx_queue_cnt'', adminq_create_tx_queue_cnt), (''adminq_create_rx_queue_cnt'', adminq_create_rx_queue_cnt),
         (''adminq_destroy_tx_queue_cnt'', adminq_destroy_tx_queue_cnt), (''adminq_destroy_rx_queue_cnt'', adminq_destroy_rx_queue_cnt),
         (''adminq_get_ptype_map_cnt'', adminq_get_ptype_map_cnt), (''adminq_dcfg_device_resources_cnt'', adminq_dcfg_device_resources_cnt),
         (''adminq_set_driver_parameter_cnt'', adminq_set_driver_parameter_cnt),
         (''adminq_verify_driver_compatibility_cnt'', adminq_verify_driver_compatibility_cnt)])]"

definition gve_setup_main_stat_sysctl :: "'d oid list" where
  "gve_setup_main_stat_sysctl =
     [NODE ''main_stats'' (map (\<lambda>(n, f). LEAF n (U32 (\<lambda>s. f (sc_priv s))))
        [(''interface_up_cnt'', interface_up_cnt), (''interface_down_cnt'', interface_down_cnt), (''reset_cnt'', reset_cnt)])]"

definition gve_setup_sysctl_writables :: "'d softc \<Rightarrow> 'd oid list" where
  "gve_setup_sysctl_writables s =
     [LEAF ''num_tx_queues'' (PROC gve_sysctl_num_tx_queues), LEAF ''num_rx_queues'' (PROC gve_sysctl_num_rx_queues)] @
     (if modify_ringsize_enabled (sc_priv s)
      then [LEAF ''tx_ring_size'' (PROC gve_sysctl_tx_ring_size), LEAF ''rx_ring_size'' (PROC gve_sysctl_rx_ring_size)] else [])"

definition gve_setup_sysctl :: "'d softc \<Rightarrow> 'd oid list" where
  "gve_setup_sysctl s =
     gve_setup_queue_stat_sysctl s @ gve_setup_adminq_stat_sysctl @ gve_setup_main_stat_sysctl @ gve_setup_sysctl_writables s"

section \<open>Reading\<close>

text \<open>The leaf a path of names leads to; the kernel refuses a name that is taken, so the first one counts.\<close>

fun find_oid :: "string list \<Rightarrow> 'd oid list \<Rightarrow> 'd oid_val option" where
  "find_oid p [] = None"
| "find_oid p (LEAF n v # os) = (if p = [n] then Some v else find_oid p os)"
| "find_oid p (NODE n cs # os) = (case p of m # q \<Rightarrow> if m = n \<and> q \<noteq> [] then find_oid q cs else find_oid p os | [] \<Rightarrow> None)"

definition rx_stat :: "nat \<Rightarrow> gve_rxq_stats \<Rightarrow> u64" where
  "rx_stat k st = [rbytes st, rpackets st, rx_dropped_pkt st, rx_copybreak_cnt st, rx_frag_flip_cnt st, rx_frag_copy_cnt st,
     rx_dropped_pkt_desc_err st, rx_dropped_pkt_buf_post_fail st, rx_dropped_pkt_mbuf_alloc_fail st, rx_mbuf_dmamap_err st, rx_mbuf_mclget_null st] ! k"

text \<open>Reading a counter follows the pointer in the ring: \<open>None\<close> when it is not the address of a counter that is allocated.\<close>

definition read_rx_counter :: "nat \<Rightarrow> nat \<Rightarrow> 'd softc \<Rightarrow> u64 option" where
  "read_rx_counter i k s =
     (case sc_rx s of
        None \<Rightarrow> None
      | Some (a, rs) \<Rightarrow>
          (case rr_stats (rs ! i) ! k of
             None \<Rightarrow> None
           | Some c \<Rightarrow> if (COUNTER, c) \<in># k_live (sc_kern s) then Some (rx_stat k (rxu_stats (rc_ring (sc_rxq s ! i)))) else None))"

section \<open>Names\<close>

lemma show_nat_inj: "show_nat m = show_nat n \<Longrightarrow> m = n"
proof (induction m arbitrary: n rule: show_nat.induct)
  case (1 m)
  have d: "char_of (48 + a) = (char_of (48 + b) :: char) \<longleftrightarrow> a = b" if "a < 10" "b < 10" for a b :: nat
  proof
    assume "char_of (48 + a) = (char_of (48 + b) :: char)"
    from arg_cong [OF this, of "of_char :: char \<Rightarrow> nat"] show "a = b" using that by simp
  qed simp
  have ne: "show_nat k \<noteq> []" for k by (subst show_nat.simps) simp
  show ?case
  proof (cases "m < 10")
    case True
    show ?thesis
    proof (cases "n < 10")
      case False
      with True 1(2) ne [of "n div 10"] show ?thesis by (auto simp: show_nat.simps [of m] show_nat.simps [of n])
    qed (use True 1(2) d in \<open>simp add: show_nat.simps [of m] show_nat.simps [of n]\<close>)
  next
    case False
    show ?thesis
    proof (cases "n < 10")
      case True
      with False 1(2) ne [of "m div 10"] show ?thesis by (auto simp: show_nat.simps [of m] show_nat.simps [of n])
    next
      case n: False
      then have "show_nat (m div 10) = show_nat (n div 10)" "m mod 10 = n mod 10"
        using False 1(2) d [of "m mod 10" "n mod 10"] by (simp_all add: show_nat.simps [of m] show_nat.simps [of n])
      then show ?thesis using 1(1) [OF False] by (metis div_mult_mod_eq)
    qed
  qed
qed

lemma find_skip: "\<forall>x \<in> set os. \<exists>m cs. x = NODE m cs \<and> m \<noteq> n \<Longrightarrow> find_oid (n # q) (os @ os') = find_oid (n # q) os'"
  by (induction os) (auto split: list.splits)

lemma find_map_node:
  assumes "i < k" "\<And>j. j < i \<Longrightarrow> f j \<noteq> f i"
  shows "find_oid [f i, m] (map (\<lambda>j. NODE (f j) (g j)) [0..<k] @ os) = find_oid [m] (g i)"
proof -
  have "[0..<k] = [0..<i] @ i # [Suc i..<k]" using assms(1) upt_add_eq_append [of 0 i "k - i"] upt_conv_Cons [of i k] by simp
  then show ?thesis using assms(2) by (simp add: find_skip)
qed

lemma find_leaf: "(n, k) \<in> set xs \<Longrightarrow> distinct (map fst xs) \<Longrightarrow> find_oid [n] (map (\<lambda>(n, k). LEAF n (c k)) xs @ os) = Some (c k)"
  by (induction xs) (auto simp: image_iff)

lemma find_skip_leaf: "n \<notin> set (map fst xs) \<Longrightarrow> find_oid [n] (map (\<lambda>(n, k). LEAF n (c k)) xs @ os) = find_oid [n] os"
  by (induction xs) auto

lemma counters_distinct: "distinct (map fst rx_counters)" "distinct (map fst tx_counters)"
  by (simp_all add: rx_counters_def tx_counters_def)

definition rxq_oids :: "nat \<Rightarrow> 'd oid list" where
  "rxq_oids i = map (\<lambda>(n, k). LEAF n (RX_COUNTER i k)) rx_counters @
     [LEAF ''rx_completed_desc'' (U32 (\<lambda>s. rxu_cnt (rc_ring (sc_rxq s ! i)))), LEAF ''num_desc_posted'' (U32 (\<lambda>s. rxu_fill_cnt (rc_ring (sc_rxq s ! i))))]"

definition txq_oids :: "nat \<Rightarrow> 'd oid list" where
  "txq_oids i = [LEAF ''tx_posted_desc'' (U32 (\<lambda>s. txu_req (txq_ring (tc_q (sc_txq s ! i))))),
     LEAF ''tx_completed_desc'' (U32 (\<lambda>s. txu_done (txq_ring (tc_q (sc_txq s ! i)))))] @ map (\<lambda>(n, k). LEAF n (TX_COUNTER i k)) tx_counters"

definition ids_ok :: "'d softc \<Rightarrow> bool" where
  "ids_ok s \<longleftrightarrow> (\<forall>i < num_rx s. com_id (rxu_com (rc_ring (sc_rxq s ! i))) = i) \<and> (\<forall>i < num_tx s. com_id (txu_com (txq_ring (tc_q (sc_txq s ! i)))) = i)"

section \<open>Properties\<close>


lemma ex_ids: "ids_ok ex_up" "num_rx ex_up = 1" "num_tx ex_up = 2"
proof -
  show n: "num_rx ex_up = 1" "num_tx ex_up = 2" by (simp_all add: num_rx_def num_tx_def ex_up_def ex_cpriv_def)
  show "ids_ok ex_up" unfolding ids_ok_def n
    by (simp add: ex_up_def null_rxq_def null_txq_def gve_is_gqi_def rxu_com_def txu_com_def zero_com_def numeral_2_eq_2 less_Suc_eq)
qed


text \<open>Two receive queues, and the second one taken out of use.\<close>

definition ex_two :: "sim softc" where
  "ex_two = ex_up\<lparr>sc_priv := ex_cpriv\<lparr>rx_cfg := \<lparr>max_queues = 2, num_queues_cfg = 2\<rparr>\<rparr>\<rparr>"

definition ex_drop :: "(bool \<times> u64 option \<times> u64 option) option" where
  "ex_drop = do {
     (e, s) \<leftarrow> alloc_rx_rings 0 2 ex_two;
     t \<leftarrow> free_rx_rings 1 2 s;
     Some (e = None, read_rx_counter 1 0 s, read_rx_counter 1 0 t) }"

lemma upt_2: "[0..<2] = [0, 1]" "[Suc 0..<2] = [1]"
  by (simp_all add: upt_rec)


end
