(* ===== verification/Gve_Serving_Device.thy ===== *)
theory Gve_Serving_Device
  imports Gve_Sysctl
begin

text \<open>
  A device that accepts every command, and the admin queue operations with it: single commands and the loops
  of commands that create and destroy queues succeed and leave the admin queue ready for the next one.
\<close>

section \<open>A device that accepts every command\<close>

text \<open>Idle, and rung for one more command, it executes the command within the polls the driver makes.\<close>

definition serves :: "'d aq_device \<Rightarrow> bool" where
  "serves dev \<longleftrightarrow> (\<forall>c d q. aq_idle dev c d \<longrightarrow> length q = ADMINQ_SLOTS \<longrightarrow>
     (\<exists>r < GVE_MAX_ADMINQ_EVENT_COUNTER_CHECK. \<exists>d'. aq_busy dev c (unat (c AND mask 6)) GVE_ADMINQ_COMMAND_PASSED q (dev_doorbell dev (c + 1) d) r d'))"

definition rdy :: "'d aq_device \<Rightarrow> gve_priv \<Rightarrow> 'd \<Rightarrow> bool" where
  "rdy dev p d \<longleftrightarrow> aq_wf p \<and> aq_idle dev (adminq_prod_cnt p) d"

lemma execute_cmd_wrap:
  assumes "aq_idle dev (adminq_prod_cnt priv) d" and "adminq_prod_cnt priv + 1 = 0"
    and "aq_busy dev (adminq_prod_cnt priv) (unat (adminq_prod_cnt priv AND adminq_mask priv)) st
      (adminq (adminq_put cmd priv)) (dev_doorbell dev (adminq_prod_cnt priv + 1) d) r d'"
    and "r < GVE_MAX_ADMINQ_EVENT_COUNTER_CHECK"
  shows "gve_adminq_execute_cmd dev cmd (priv, d) = (None, set_status (unat (adminq_prod_cnt priv AND adminq_mask priv)) st (adminq_put cmd priv), d')"
proof -
  have w: "adminq_wait_loop GVE_MAX_ADMINQ_EVENT_COUNTER_CHECK dev 0 (adminq_put cmd priv, dev_doorbell dev 0 d)
      = (True, set_status (unat (adminq_prod_cnt priv AND adminq_mask priv)) st (adminq_put cmd priv), d')"
    using wait_completes(1) [OF assms(3,4)] assms(2) by simp
  show ?thesis
    using idle_read [OF assms(1)] issue_idle [OF assms(1)] w assms(2)
    by (simp add: gve_adminq_execute_cmd_def gve_adminq_kick_and_wait_def gve_adminq_kick_cmd_def gve_adminq_wait_for_cmd_def)
qed

lemma busy_idle: "aq_busy dev c i st q d r d' \<Longrightarrow> aq_idle dev (c + 1) d'"
  by (induction rule: aq_busy.induct) auto

lemma exec_serves:
  assumes "serves dev" "rdy dev p d"
  shows "\<exists>p' d'. gve_adminq_execute_cmd dev cmd (p, d) = (None, p', d') \<and> rdy dev p' d'"
proof -
  let ?i = "unat (adminq_prod_cnt p AND adminq_mask p)"
  have i: "aq_idle dev (adminq_prod_cnt p) d" and w: "aq_wf p" using assms(2) by (simp_all add: rdy_def)
  have m: "adminq_mask p = mask 6" using w unfolding aq_wf_def adminq_mask_63 by simp
  have l: "length (adminq (adminq_put cmd p)) = ADMINQ_SLOTS" using w by (simp add: aq_wf_def)
  obtain r d' where r: "r < GVE_MAX_ADMINQ_EVENT_COUNTER_CHECK"
      and b: "aq_busy dev (adminq_prod_cnt p) ?i GVE_ADMINQ_COMMAND_PASSED (adminq (adminq_put cmd p)) (dev_doorbell dev (adminq_prod_cnt p + 1) d) r d'"
    using assms(1) i l unfolding serves_def m by blast
  have id: "aq_idle dev (adminq_prod_cnt p + 1) d'" by (rule busy_idle [OF b])
  show ?thesis
  proof (cases "adminq_prod_cnt p + 1 = 0")
    case True
    show ?thesis using execute_cmd_wrap [OF i True b r] w id by (simp add: rdy_def aq_wf_def)
  next
    case False
    let ?s = "set_status ?i GVE_ADMINQ_COMMAND_PASSED (adminq_put cmd p)"
    have "gve_adminq_execute_cmd dev cmd (p, d) = (None, snd (gve_adminq_parse_err ?s GVE_ADMINQ_COMMAND_PASSED), d')"
      using execute_cmd_effect(1) [OF i w False b r] parse_err_None [of ?s] by simp
    then show ?thesis using w id by (simp add: rdy_def aq_wf_def)
  qed
qed

text \<open>A command, and a loop of commands.\<close>

definition ok_cmd :: "'d aq_device \<Rightarrow> (gve_priv \<times> 'd \<Rightarrow> err \<times> gve_priv \<times> 'd) \<Rightarrow> bool" where
  "ok_cmd dev f \<longleftrightarrow> (\<forall>p d. rdy dev p d \<longrightarrow> (\<exists>p' d'. f (p, d) = (None, p', d') \<and> rdy dev p' d'))"

lemma ok_cmdD: "ok_cmd dev f \<Longrightarrow> rdy dev p d \<Longrightarrow> \<exists>p' d'. f (p, d) = (None, p', d') \<and> rdy dev p' d'"
  by (simp add: ok_cmd_def)

lemma ok_exec: "serves dev \<Longrightarrow> ok_cmd dev (gve_adminq_execute_cmd dev c)"
  by (simp add: ok_cmd_def exec_serves)

lemma ok_pair: "serves dev \<Longrightarrow> (\<And>p d. \<exists>c. f (p, d) = gve_adminq_execute_cmd dev c (p, d)) \<Longrightarrow> ok_cmd dev f"
  unfolding ok_cmd_def by (metis exec_serves)

lemma ok_create_loop: "(\<And>i. ok_cmd dev (f i)) \<Longrightarrow> ok_cmd dev (create_loop f g is)"
proof (induction "is")
  case (Cons i "is")
  show ?case unfolding ok_cmd_def
  proof (intro allI impI)
    fix p d assume "rdy dev p d"
    from ok_cmdD [OF Cons.prems this, of i] obtain p1 d1 where 1: "f i (p, d) = (None, p1, d1)" "rdy dev p1 d1" by blast
    from ok_cmdD [OF Cons.IH [OF Cons.prems] 1(2)] show "\<exists>p' d'. create_loop f g (i # is) (p, d) = (None, p', d') \<and> rdy dev p' d'"
      using 1(1) by simp
  qed
qed (simp add: ok_cmd_def)

lemma ok_destroy_loop: "(\<And>i. ok_cmd dev (f i)) \<Longrightarrow> is \<noteq> [] \<Longrightarrow> ok_cmd dev (\<lambda>s. destroy_loop f is (e, s))"
proof (induction "is" arbitrary: e)
  case (Cons i "is")
  show ?case unfolding ok_cmd_def
  proof (intro allI impI)
    fix p d assume "rdy dev p d"
    from ok_cmdD [OF Cons.prems(1) this, of i] obtain p1 d1 where 1: "f i (p, d) = (None, p1, d1)" "rdy dev p1 d1" by blast
    show "\<exists>p' d'. destroy_loop f (i # is) (e, p, d) = (None, p', d') \<and> rdy dev p' d'"
    proof (cases "is")
      case (Cons j js)
      then have "ok_cmd dev (\<lambda>s. destroy_loop f is (None, s))" using Cons.IH [OF Cons.prems(1)] by simp
      from ok_cmdD [OF this 1(2)] show ?thesis using 1(1) by simp
    qed (use 1 in simp)
  qed
qed simp

lemma ok_commands:
  assumes "serves dev"
  shows "ok_cmd dev (gve_adminq_create_rx_queues e dev lro rs n)" "ok_cmd dev (gve_adminq_create_tx_queues e dev rs n)"
    "0 < n \<Longrightarrow> ok_cmd dev (gve_adminq_destroy_rx_queues e dev n)" "0 < n \<Longrightarrow> ok_cmd dev (gve_adminq_destroy_tx_queues e dev n)"
    "ok_cmd dev (gve_adminq_register_page_list dev (Inr h) q ps)" "ok_cmd dev (gve_adminq_unregister_page_list dev q)"
proof -
  have c: "ok_cmd dev (gve_adminq_create_rx_queue dev lro rs i)" "ok_cmd dev (gve_adminq_create_tx_queue dev rs i)" for i
    by (rule ok_pair [OF assms], simp add: gve_adminq_create_rx_queue_def gve_adminq_create_tx_queue_def Let_def, blast)+
  have d: "ok_cmd dev (gve_adminq_destroy_rx_queue dev i)" "ok_cmd dev (gve_adminq_destroy_tx_queue dev i)" for i
    by (simp_all add: gve_adminq_destroy_rx_queue_def gve_adminq_destroy_tx_queue_def ok_exec assms)
  show "ok_cmd dev (gve_adminq_create_rx_queues e dev lro rs n)" "ok_cmd dev (gve_adminq_create_tx_queues e dev rs n)"
    "0 < n \<Longrightarrow> ok_cmd dev (gve_adminq_destroy_rx_queues e dev n)" "0 < n \<Longrightarrow> ok_cmd dev (gve_adminq_destroy_tx_queues e dev n)"
    "ok_cmd dev (gve_adminq_register_page_list dev (Inr h) q ps)" "ok_cmd dev (gve_adminq_unregister_page_list dev q)"
    unfolding gve_adminq_create_rx_queues_def gve_adminq_create_tx_queues_def gve_adminq_destroy_rx_queues_def gve_adminq_destroy_tx_queues_def
      gve_adminq_register_page_list_def gve_adminq_unregister_page_list_def
    by (simp_all add: ok_create_loop ok_destroy_loop c d ok_exec assms)
qed

end
