(* ===== verification/Gve_Updown_Live.thy ===== *)
theory Gve_Updown_Live
  imports Gve_Serving_Device
begin

text \<open>
  The queues of a device, brought up and down with a device that accepts every command: which task queues are
  started and stopped, and that no step fails.
\<close>

section \<open>Ownership of the task queues\<close>

definition tq_tx :: "tx_ctl \<Rightarrow> res multiset" where
  "tq_tx t = own_opt TASKQUEUE (tc_cleanup_tq t) + own_opt TASKQUEUE (tc_xmit_tq t)"

definition tq_rx :: "rx_ctl \<Rightarrow> res multiset" where
  "tq_rx r = own_opt TASKQUEUE (rc_cleanup_tq r)"

definition aqs :: "gve_priv \<Rightarrow> gve_adminq_command list \<times> u32 \<times> u32" where
  "aqs p = (adminq p, adminq_mask p, adminq_prod_cnt p)"

text \<open>What the round trip looks at; most steps leave all of it alone.\<close>

definition core :: "'d softc \<Rightarrow> (gve_adminq_command list \<times> u32 \<times> u32) \<times> 'd \<times> kern \<times> (nat \<times> tx_res list) option \<times> (nat \<times> rx_res list) option \<times> res multiset list \<times> res multiset list" where
  "core s = (aqs (sc_priv s), sc_nic s, sc_kern s, sc_tx s, sc_rx s, map tq_tx (sc_txq s), map tq_rx (sc_rxq s))"

definition txs :: "'d softc \<Rightarrow> nat \<Rightarrow> res multiset" where
  "txs s n = sum_list (take n (map tq_tx (sc_txq s)))"

definition rxs :: "'d softc \<Rightarrow> nat \<Rightarrow> res multiset" where
  "rxs s n = sum_list (take n (map tq_rx (sc_rxq s)))"

definition st :: "'d sys \<Rightarrow> kern \<Rightarrow> res multiset \<Rightarrow> 'd softc \<Rightarrow> bool" where
  "st y k M s \<longleftrightarrow> rdy (sy_aq y) (sc_priv s) (sc_nic s) \<and> acq k M (sc_kern s)"

lemma rdy_aqs: "aqs p = aqs q \<Longrightarrow> rdy dev p d = rdy dev q d"
  by (simp add: rdy_def aq_wf_def aqs_def)

lemma st_core: "core s' = core s \<Longrightarrow> st y k M s' = st y k M s"
proof -
  assume c: "core s' = core s"
  then have "aqs (sc_priv s') = aqs (sc_priv s)" by (simp add: core_def)
  from rdy_aqs [OF this, of "sy_aq y" "sc_nic s"] c show ?thesis by (simp add: st_def core_def)
qed

lemma core_sel:
  assumes "core s' = core s"
  shows "sc_tx s' = sc_tx s" "sc_rx s' = sc_rx s" "txs s' n = txs s n" "rxs s' n = rxs s n" "length (sc_txq s') = length (sc_txq s)" "length (sc_rxq s') = length (sc_rxq s)"
  using assms by (auto simp: core_def txs_def rxs_def dest: map_eq_imp_length_eq)

lemma core_upd [simp]:
  "core (emit evs s) = core s" "core (set_flag f s) = core s" "core (clear_flag f s) = core s" "core (s\<lparr>if_hwassist := h\<rparr>) = core s"
  "core (s\<lparr>if_running := a, if_oactive := b\<rparr>) = core s" "core (link_up s) = core s" "core (link_down s) = core s"
  "core (gve_stop_tx_timeout_service s) = core s" "core (gve_start_tx_timeout_service s) = core s"
  by (simp_all add: core_def emit_def set_flag_def clear_flag_def gve_set_state_flag_def gve_clear_state_flag_def link_up_def link_down_def aqs_def
      gve_stop_tx_timeout_service_def gve_start_tx_timeout_service_def)

lemma core_fold: "(\<And>i s. core (f i s) = core s) \<Longrightarrow> core (fold f is s) = core s"
  by (induction "is" arbitrary: s) simp_all

lemma core_upd_txq: "tq_tx (f (sc_txq s ! i)) = tq_tx (sc_txq s ! i) \<Longrightarrow> core (upd_txq i f s) = core s"
  by (simp add: core_def upd_txq_def map_upd_same)

lemma core_upd_rxq: "tq_rx (f (sc_rxq s ! i)) = tq_rx (sc_rxq s ! i) \<Longrightarrow> core (upd_rxq i f s) = core s"
  by (simp add: core_def upd_rxq_def map_upd_same)

lemma tq_upd [simp]: "tq_tx (t\<lparr>tc_q := q\<rparr>) = tq_tx t" "tq_rx (r\<lparr>rc_ring := u\<rparr>) = tq_rx r" "tq_rx (r\<lparr>rc_lro := b\<rparr>) = tq_rx r"
  by (simp_all add: tq_tx_def tq_rx_def)

lemma core_clear: "core (clear_tx i s) = core s" "core (clear_rx i s) = core s"
  by (auto simp: clear_tx_def clear_rx_def Let_def core_upd_txq core_upd_rxq split: tx_union.splits rx_union.splits prod.splits)

lemma core_irqs: "core (gve_unmask_all_queue_irqs s) = core s" "core (gve_mask_all_queue_irqs s) = core s"
  by (simp_all add: gve_unmask_all_queue_irqs_def gve_mask_all_queue_irqs_def Let_def core_fold gve_db_bar_write_4_def gve_db_bar_dqo_write_4_def)

lemma core_finish: "core (up_finish s) = core s" "core (down_finish s) = core s"
proof -
  have p: "core (s\<lparr>sc_priv := (sc_priv s)\<lparr>interface_up_cnt := n\<rparr>\<rparr>) = core s" "core (s\<lparr>sc_priv := (sc_priv s)\<lparr>interface_down_cnt := n\<rparr>\<rparr>) = core s" for n and s :: "'a softc"
    by (simp_all add: core_def aqs_def)
  show "core (up_finish s) = core s" by (simp add: up_finish_def Let_def p core_irqs)
  show "core (down_finish s) = core s" by (simp add: down_finish_def Let_def p core_irqs)
qed

section \<open>Steps\<close>

lemma aq_ok:
  assumes "ok_cmd (sy_aq y) f" "st y k M s"
  shows "\<exists>s'. aq f s = (None, s') \<and> st y k M s' \<and> sc_tx s' = sc_tx s \<and> sc_rx s' = sc_rx s \<and> sc_txq s' = sc_txq s \<and> sc_rxq s' = sc_rxq s"
proof -
  obtain p d where "f (sc_priv s, sc_nic s) = (None, p, d)" "rdy (sy_aq y) p d" using ok_cmdD [OF assms(1)] assms(2) by (fastforce simp: st_def)
  then show ?thesis using assms(2) by (simp add: aq_def st_def)
qed

lemma txs_Suc: "n < length (sc_txq s) \<Longrightarrow> txs s (Suc n) = txs s n + tq_tx (sc_txq s ! n)"
  by (simp add: txs_def take_Suc_conv_app_nth)

lemma rxs_Suc: "n < length (sc_rxq s) \<Longrightarrow> rxs s (Suc n) = rxs s n + tq_rx (sc_rxq s ! n)"
  by (simp add: rxs_def take_Suc_conv_app_nth)

lemma start_tx:
  fixes rs :: "tx_res list"
  assumes "st y k M s" "i < length (sc_txq s)"
  defines "s' \<equiv> start_created_tx y rs i s"
  shows "st y k (M + tq_tx (sc_txq s' ! i)) s'" "sc_tx s' = sc_tx s" "sc_rx s' = sc_rx s" "sc_rxq s' = sc_rxq s" "length (sc_txq s') = length (sc_txq s)" "txs s' i = txs s i"
proof -
  obtain c k1 where 1: "kalloc TASKQUEUE (sc_kern s) = (c, k1)" by fastforce
  obtain x k2 where 2: "kalloc TASKQUEUE k1 = (x, k2)" by fastforce
  have a: "acq k (add_mset (TASKQUEUE, x) (add_mset (TASKQUEUE, c) M)) k2" using acq_kalloc(1) [OF acq_kalloc(1) [OF _ 1] 2] assms(1) by (simp add: st_def)
  have e: "sc_kern s' = k2" "sc_priv s' = sc_priv s" "sc_nic s' = sc_nic s" "tq_tx (sc_txq s' ! i) = {#(TASKQUEUE, x), (TASKQUEUE, c)#}"
      "sc_tx s' = sc_tx s" "sc_rx s' = sc_rx s" "sc_rxq s' = sc_rxq s" "length (sc_txq s') = length (sc_txq s)"
    using assms(2) 1 2 by (simp_all add: s'_def start_created_tx_def gve_start_tx_ring_def Let_def split_def new_tq_def upd_txq_def tq_tx_def own_opt_def)
  then show "st y k (M + tq_tx (sc_txq s' ! i)) s'" "sc_tx s' = sc_tx s" "sc_rx s' = sc_rx s" "sc_rxq s' = sc_rxq s" "length (sc_txq s') = length (sc_txq s)"
    using a assms(1) by (simp_all add: st_def add_mset_commute)
  show "txs s' i = txs s i" by (simp add: s'_def start_created_tx_def gve_start_tx_ring_def Let_def split_def new_tq_def upd_txq_def txs_def take_map split: prod.splits)
qed

lemma start_txs:
  fixes rs :: "tx_res list"
  assumes "st y k M s" "n \<le> length (sc_txq s)"
  defines "s' \<equiv> fold (start_created_tx y rs) [0..<n] s"
  shows "st y k (M + txs s' n) s' \<and> sc_tx s' = sc_tx s \<and> sc_rx s' = sc_rx s \<and> sc_rxq s' = sc_rxq s \<and> length (sc_txq s') = length (sc_txq s)"
  using assms(2) unfolding s'_def
proof (induction n)
  case 0
  then show ?case using assms(1) by (simp add: txs_def)
next
  case (Suc n)
  define t where "t = fold (start_created_tx y rs) [0..<n] s"
  have IH: "st y k (M + txs t n) t" "sc_tx t = sc_tx s" "sc_rx t = sc_rx s" "sc_rxq t = sc_rxq s" "length (sc_txq t) = length (sc_txq s)"
    using Suc by (simp_all add: t_def)
  have n: "n < length (sc_txq t)" using Suc.prems IH(5) by simp
  note S = start_tx [OF IH(1) n, of rs]
  have "fold (start_created_tx y rs) [0..<Suc n] s = start_created_tx y rs n t" by (simp add: t_def)
  then show ?case using S IH n txs_Suc [of n "start_created_tx y rs n t"] by (simp add: ac_simps)
qed

lemma start_rx:
  fixes rs :: "rx_res list"
  assumes "st y k M s" "i < length (sc_rxq s)"
  defines "s' \<equiv> start_created_rx y rs i s"
  shows "st y k (M + tq_rx (sc_rxq s' ! i)) s'" "sc_tx s' = sc_tx s" "sc_rx s' = sc_rx s" "sc_txq s' = sc_txq s" "length (sc_rxq s') = length (sc_rxq s)" "rxs s' i = rxs s i"
proof -
  define s1 where "s1 = upd_rxq i (\<lambda>r. r\<lparr>rc_ring := map_rx_com (\<lambda>m. m\<lparr>irq_db_offset := 4 * sy_irq_db y (sc_nic s) (ntfy_id_rx (sc_irqs s) i),
    db_offset := 4 * fst (sy_q_res y (sc_nic s) (h_bus (rr_q_resources_mem (rs ! i)))), counter_idx := snd (sy_q_res y (sc_nic s) (h_bus (rr_q_resources_mem (rs ! i))))\<rparr>) (rc_ring r)\<rparr>) s"
  define s2 where "s2 = (if IFCAP_LRO \<in> if_capenable s1 then upd_rxq i (\<lambda>r. r\<lparr>rc_lro := True\<rparr>) s1 else s1)"
  obtain c k1 where 1: "kalloc TASKQUEUE (sc_kern s2) = (c, k1)" by fastforce
  define s3 where "s3 = upd_rxq i (\<lambda>r. r\<lparr>rc_cleanup_tq := Some c\<rparr>) (s2\<lparr>sc_kern := k1\<rparr>)"
  have c2: "core s2 = core s" "sc_txq s2 = sc_txq s" by (simp_all add: s2_def s1_def core_upd_rxq) (simp_all add: upd_rxq_def)
  have "acq k (add_mset (TASKQUEUE, c) M) k1" using acq_kalloc(1) [OF _ 1] assms(1) st_core [OF c2(1), of y k M] by (simp add: st_def)
  moreover have l: "length (sc_rxq s3) = length (sc_rxq s)" "i < length (sc_rxq s2)" using core_sel(6) [OF c2(1)] assms(2) by (simp_all add: s3_def upd_rxq_def)
  ultimately have s3: "st y k (M + tq_rx (sc_rxq s3 ! i)) s3" "sc_tx s3 = sc_tx s" "sc_rx s3 = sc_rx s" "sc_txq s3 = sc_txq s" "rxs s3 i = rxs s i"
    using st_core [OF c2(1), of y k M] assms(1) core_sel [OF c2(1)] c2(2) by (simp_all add: s3_def st_def upd_rxq_def tq_rx_def own_opt_def rxs_def take_map)
  have g: "s' = (case rc_ring (sc_rxq s3 ! i) of
           RxGqi rx \<Rightarrow> emit [RxEv (RX_DB_WRITE_4 (db_offset (rx_com rx)) (fill_cnt rx))] s3
         | RxDqo rx \<Rightarrow> (let (rx, evs) = gve_rx_prefill_buffers_dqo (is_qpl s3) (sy_rxd y i) rx
              in emit (map RxEv evs) (upd_rxq i (\<lambda>r. r\<lparr>rc_ring := RxDqo rx\<rparr>) s3)))"
  proof -
    have n: "new_tq s2 = (c, s2\<lparr>sc_kern := k1\<rparr>)" using 1 by (simp add: new_tq_def)
    have "s' = gve_start_rx_ring y i s1" by (simp add: s'_def start_created_rx_def Let_def split_def s1_def)
    also have "\<dots> = (case new_tq s2 of (c, s) \<Rightarrow> let s = upd_rxq i (\<lambda>r. r\<lparr>rc_cleanup_tq := Some c\<rparr>) s
      in case rc_ring (sc_rxq s ! i) of
           RxGqi rx \<Rightarrow> emit [RxEv (RX_DB_WRITE_4 (db_offset (rx_com rx)) (fill_cnt rx))] s
         | RxDqo rx \<Rightarrow> (let (rx, evs) = gve_rx_prefill_buffers_dqo (is_qpl s) (sy_rxd y i) rx
              in emit (map RxEv evs) (upd_rxq i (\<lambda>r. r\<lparr>rc_ring := RxDqo rx\<rparr>) s)))"
      unfolding gve_start_rx_ring_def Let_def s2_def by (rule refl)
    finally show ?thesis unfolding n prod.case Let_def s3_def .
  qed
  have c': "core s' = core s3" "sc_txq s' = sc_txq s3" unfolding g
    by (auto simp: core_upd_rxq Let_def split: rx_union.splits prod.splits) (simp_all add: emit_def upd_rxq_def)
  have m: "tq_rx (sc_rxq s' ! i) = tq_rx (sc_rxq s3 ! i)"
    using core_sel(6) [OF c'(1)] c'(1) l(1) assms(2) by (simp add: core_def) (metis nth_map)
  show "st y k (M + tq_rx (sc_rxq s' ! i)) s'" "sc_tx s' = sc_tx s" "sc_rx s' = sc_rx s" "sc_txq s' = sc_txq s" "length (sc_rxq s') = length (sc_rxq s)" "rxs s' i = rxs s i"
    using s3 l(1) core_sel [OF c'(1)] st_core [OF c'(1)] m c'(2) by simp_all
qed

lemma start_rxs:
  fixes rs :: "rx_res list"
  assumes "st y k M s" "n \<le> length (sc_rxq s)"
  defines "s' \<equiv> fold (start_created_rx y rs) [0..<n] s"
  shows "st y k (M + rxs s' n) s' \<and> sc_tx s' = sc_tx s \<and> sc_rx s' = sc_rx s \<and> sc_txq s' = sc_txq s \<and> length (sc_rxq s') = length (sc_rxq s)"
  using assms(2) unfolding s'_def
proof (induction n)
  case 0
  then show ?case using assms(1) by (simp add: rxs_def)
next
  case (Suc n)
  define t where "t = fold (start_created_rx y rs) [0..<n] s"
  have IH: "st y k (M + rxs t n) t" "sc_tx t = sc_tx s" "sc_rx t = sc_rx s" "sc_txq t = sc_txq s" "length (sc_rxq t) = length (sc_rxq s)"
    using Suc by (simp_all add: t_def)
  have n: "n < length (sc_rxq t)" using Suc.prems IH(5) by simp
  note S = start_rx [OF IH(1) n, of rs]
  have "fold (start_created_rx y rs) [0..<Suc n] s = start_created_rx y rs n t" by (simp add: t_def)
  then show ?case using S IH n rxs_Suc [of n "start_created_rx y rs n t"] by (simp add: ac_simps)
qed

section \<open>Stopping\<close>

lemma free_tq_ok:
  assumes "st y k (own_opt TASKQUEUE q + M) s"
  shows "\<exists>k'. free_tq q s = Some (s\<lparr>sc_kern := k'\<rparr>) \<and> st y k M (s\<lparr>sc_kern := k'\<rparr>)"
proof -
  have "acq k (own_opt TASKQUEUE q + M) (sc_kern s)" using assms by (simp add: st_def)
  then have "wp (kfree_opt TASKQUEUE q (sc_kern s)) (acq k M)" by (rule wp_kfree_own)
  then show ?thesis using assms by (auto simp: wp_def free_tq_def st_def)
qed

text \<open>The task queues of the rings from number \<open>i\<close> on.\<close>

lemma txs_drop:
  assumes "i < n" "n \<le> length (sc_txq s)"
  shows "sum_list (map tq_tx (drop i (take n (sc_txq s)))) = tq_tx (sc_txq s ! i) + sum_list (map tq_tx (drop (Suc i) (take n (sc_txq s))))"
  using assms by (simp add: Cons_nth_drop_Suc [symmetric])

lemma stop_txs:
  assumes "st y k (M + sum_list (map tq_tx (drop i (take n (sc_txq s))))) s" "n \<le> length (sc_txq s)"
  shows "\<exists>s'. fold_opt gve_stop_tx_ring [i..<n] s = Some s' \<and> st y k M s' \<and> sc_tx s' = sc_tx s \<and> sc_rx s' = sc_rx s \<and> sc_rxq s' = sc_rxq s"
  using assms
proof (induction "n - i" arbitrary: i s)
  case (Suc m)
  then have i: "i < n" by simp
  let ?t = "sc_txq s ! i" and ?R = "M + sum_list (map tq_tx (drop (Suc i) (take n (sc_txq s))))"
  have "st y k (own_opt TASKQUEUE (tc_cleanup_tq ?t) + (own_opt TASKQUEUE (tc_xmit_tq ?t) + ?R)) s"
    using Suc.prems txs_drop [OF i Suc.prems(2)] by (simp add: tq_tx_def ac_simps)
  from free_tq_ok [OF this] obtain k1 where 1: "free_tq (tc_cleanup_tq ?t) s = Some (s\<lparr>sc_kern := k1\<rparr>)"
    "st y k (own_opt TASKQUEUE (tc_xmit_tq ?t) + ?R) (s\<lparr>sc_kern := k1\<rparr>)" by blast
  let ?s2 = "upd_txq i (\<lambda>t. t\<lparr>tc_cleanup_tq := None\<rparr>) (s\<lparr>sc_kern := k1\<rparr>)"
  have x: "tc_xmit_tq (sc_txq ?s2 ! i) = tc_xmit_tq ?t" using i Suc.prems(2) by (simp add: upd_txq_def)
  have "st y k (own_opt TASKQUEUE (tc_xmit_tq ?t) + ?R) ?s2" using 1(2) by (simp add: st_def upd_txq_def)
  from free_tq_ok [OF this] obtain k2 where 2: "free_tq (tc_xmit_tq ?t) ?s2 = Some (?s2\<lparr>sc_kern := k2\<rparr>)" "st y k ?R (?s2\<lparr>sc_kern := k2\<rparr>)" by blast
  define s1 where "s1 = upd_txq i (\<lambda>t. t\<lparr>tc_xmit_tq := None\<rparr>) (?s2\<lparr>sc_kern := k2\<rparr>)"
  have g: "gve_stop_tx_ring i s = Some s1" using 1(1) 2(1) x by (simp add: gve_stop_tx_ring_def Let_def s1_def)
  have e: "st y k ?R s1" "sc_tx s1 = sc_tx s" "sc_rx s1 = sc_rx s" "sc_rxq s1 = sc_rxq s" "\<exists>x. sc_txq s1 = (sc_txq s)[i := x]"
    using 2(2) by (auto simp: s1_def st_def upd_txq_def)
  have "drop (Suc i) (take n (sc_txq s1)) = drop (Suc i) (take n (sc_txq s))" using e(5) by (auto simp: take_update_swap)
  then have "st y k (M + sum_list (map tq_tx (drop (Suc i) (take n (sc_txq s1))))) s1" using e(1) by simp
  moreover have "m = n - Suc i" "n \<le> length (sc_txq s1)" using Suc.hyps(2) Suc.prems(2) e(5) by auto
  ultimately obtain s' where
    "fold_opt gve_stop_tx_ring [Suc i..<n] s1 = Some s'" "st y k M s'" "sc_tx s' = sc_tx s" "sc_rx s' = sc_rx s" "sc_rxq s' = sc_rxq s" using Suc.hyps(1) [of "Suc i" s1] e(2-4) by auto
  then show ?case using g i by (simp add: upt_conv_Cons)
qed auto

lemma rxs_drop:
  assumes "i < n" "n \<le> length (sc_rxq s)"
  shows "sum_list (map tq_rx (drop i (take n (sc_rxq s)))) = tq_rx (sc_rxq s ! i) + sum_list (map tq_rx (drop (Suc i) (take n (sc_rxq s))))"
  using assms by (simp add: Cons_nth_drop_Suc [symmetric])

lemma stop_rxs:
  assumes "st y k (M + sum_list (map tq_rx (drop i (take n (sc_rxq s))))) s" "n \<le> length (sc_rxq s)"
  shows "\<exists>s'. fold_opt gve_stop_rx_ring [i..<n] s = Some s' \<and> st y k M s' \<and> sc_tx s' = sc_tx s \<and> sc_rx s' = sc_rx s \<and> sc_txq s' = sc_txq s"
  using assms
proof (induction "n - i" arbitrary: i s)
  case (Suc m)
  then have i: "i < n" by simp
  let ?r = "sc_rxq s ! i" and ?R = "M + sum_list (map tq_rx (drop (Suc i) (take n (sc_rxq s))))"
  have "st y k (own_opt TASKQUEUE (rc_cleanup_tq ?r) + ?R) s" using Suc.prems rxs_drop [OF i Suc.prems(2)] by (simp add: tq_rx_def ac_simps)
  from free_tq_ok [OF this] obtain k1 where 1: "free_tq (rc_cleanup_tq ?r) s = Some (s\<lparr>sc_kern := k1\<rparr>)" "st y k ?R (s\<lparr>sc_kern := k1\<rparr>)" by blast
  define s1 where "s1 = upd_rxq i (\<lambda>r. r\<lparr>rc_cleanup_tq := None, rc_lro := False, rc_ring := reset_rx_ctx (rc_ring r)\<rparr>) (s\<lparr>sc_kern := k1\<rparr>)"
  have g: "gve_stop_rx_ring i s = Some s1" using 1(1) by (simp add: gve_stop_rx_ring_def s1_def)
  have e: "st y k ?R s1" "sc_tx s1 = sc_tx s" "sc_rx s1 = sc_rx s" "sc_txq s1 = sc_txq s" "\<exists>x. sc_rxq s1 = (sc_rxq s)[i := x]"
    using 1(2) by (auto simp: s1_def st_def upd_rxq_def)
  have "drop (Suc i) (take n (sc_rxq s1)) = drop (Suc i) (take n (sc_rxq s))" using e(5) by (auto simp: take_update_swap)
  then have "st y k (M + sum_list (map tq_rx (drop (Suc i) (take n (sc_rxq s1))))) s1" using e(1) by simp
  moreover have "m = n - Suc i" "n \<le> length (sc_rxq s1)" using Suc.hyps(2) Suc.prems(2) e(5) by auto
  ultimately obtain s' where
    "fold_opt gve_stop_rx_ring [Suc i..<n] s1 = Some s'" "st y k M s'" "sc_tx s' = sc_tx s" "sc_rx s' = sc_rx s" "sc_txq s' = sc_txq s" using Suc.hyps(1) [of "Suc i" s1] e(2-4) by auto
  then show ?case using g i by (simp add: upt_conv_Cons)
qed auto

section \<open>Queues\<close>

text \<open>Every queue in use has its ring, and its page list where the format has page lists.\<close>

definition rings_ready :: "'d softc \<Rightarrow> bool" where
  "rings_ready s \<longleftrightarrow>
     (case sc_tx s of None \<Rightarrow> False | Some (a, rs) \<Rightarrow> \<forall>i < num_tx s. tr_desc_ring (rs ! i) \<and> (is_qpl s \<longrightarrow> tr_qpl (rs ! i) \<noteq> None)) \<and>
     (case sc_rx s of None \<Rightarrow> False | Some (a, rs) \<Rightarrow> \<forall>i < num_rx s. rr_desc_ring (rs ! i) \<and> (is_qpl s \<longrightarrow> rr_qpl (rs ! i) \<noteq> None)) \<and>
     num_tx s \<le> length (sc_txq s) \<and> num_rx s \<le> length (sc_rxq s) \<and> 0 < num_tx s \<and> 0 < num_rx s"

lemma gqi_qpl: "is_gqi s \<Longrightarrow> is_qpl s"
  by (simp add: is_gqi_def is_qpl_def gve_is_gqi_qpl)

lemma create_rx_ok:
  assumes "serves (sy_aq y)" "st y k M s" "rings_ready s" "RX_OK \<notin> flags s"
  shows "\<exists>s'. gve_create_rx_rings y s = Some (None, s') \<and> st y k (M + rxs s' (num_rx s)) s' \<and> sc_tx s' = sc_tx s \<and> sc_rx s' = sc_rx s \<and>
    map tq_tx (sc_txq s') = map tq_tx (sc_txq s) \<and> length (sc_rxq s') = length (sc_rxq s)"
proof -
  obtain a rs where r: "sc_rx s = Some (a, rs)" "\<forall>i < num_rx s. rr_desc_ring (rs ! i) \<and> (is_qpl s \<longrightarrow> rr_qpl (rs ! i) \<noteq> None)" "num_rx s \<le> length (sc_rxq s)"
    using assms(3) by (auto simp: rings_ready_def split: option.splits)
  define s1 where "s1 = fold clear_rx [0..<num_rx s] s"
  have c1: "core s1 = core s" unfolding s1_def by (rule core_fold) (rule core_clear)
  have n1: "num_rx s1 = num_rx s" unfolding s1_def by (rule same_sel(4) [OF same_fold]) (rule same_clear_rx)
  let ?f = "gve_adminq_create_rx_queues (sy_err0 y) (sy_aq y) (IFCAP_LRO \<in> if_capenable s1 \<and> \<not> gve_disable_hw_lro y) (rx_ring_ctl s1 rs) (num_rx s1)"
  obtain s2 where 2: "aq ?f s1 = (None, s2)" "st y k M s2" "sc_tx s2 = sc_tx s1" "sc_rx s2 = sc_rx s1" "sc_txq s2 = sc_txq s1" "sc_rxq s2 = sc_rxq s1"
    using aq_ok [OF ok_commands(1) [OF assms(1)]] st_core [OF c1] assms(2) by blast
  have n2: "num_rx s2 = num_rx s" using same_sel(4) [OF same_aq [OF frames_commands(1) 2(1)]] n1 by simp
  have l: "num_rx s \<le> length (sc_rxq s2)" using r(3) 2(6) core_sel(6) [OF c1] by simp
  define s3 where "s3 = fold (start_created_rx y rs) [0..<num_rx s] s2"
  note S = start_rxs [OF 2(2) l, of rs, folded s3_def]
  have nb: "\<not> (\<exists>i < num_rx s. \<not> rr_desc_ring (rs ! i) \<or> (is_gqi s \<and> rr_qpl (rs ! i) = None))" using r(2) gqi_qpl by blast
  have g: "gve_create_rx_rings y s = Some (None, set_flag RX_OK s3)"
    using assms(4) r(1) nb 2(1) n1 n2 unfolding gve_create_rx_rings_def Let_def s1_def [symmetric] s3_def by (simp add: n2)
  have cf: "core (set_flag RX_OK s3) = core s3" by simp
  show ?thesis using g S st_core [OF cf] core_sel [OF cf] core_sel [OF c1] 2 c1 cf
    by (intro exI [of _ "set_flag RX_OK s3"]) (simp add: core_def)
qed

end
