(* ===== verification/Gve_Roundtrip.thy ===== *)
theory Gve_Roundtrip
  imports Gve_Updown_Live
begin

text \<open>
  \<open>gve_up\<close> and \<open>gve_down\<close> with a device that accepts every command and a kernel that grants every request: both
  return without an error, and together they leave nothing behind.
\<close>

section \<open>Queues\<close>

lemma create_tx_ok:
  assumes "serves (sy_aq y)" "st y k M s" "rings_ready s" "TX_OK \<notin> flags s"
  shows "\<exists>s'. gve_create_tx_rings y s = Some (None, s') \<and> st y k (M + txs s' (num_tx s)) s' \<and> sc_tx s' = sc_tx s \<and> sc_rx s' = sc_rx s \<and>
    map tq_rx (sc_rxq s') = map tq_rx (sc_rxq s) \<and> length (sc_txq s') = length (sc_txq s)"
proof -
  obtain a rs where r: "sc_tx s = Some (a, rs)" "\<forall>i < num_tx s. tr_desc_ring (rs ! i) \<and> (is_qpl s \<longrightarrow> tr_qpl (rs ! i) \<noteq> None)" "num_tx s \<le> length (sc_txq s)"
    using assms(3) by (auto simp: rings_ready_def split: option.splits)
  define s1 where "s1 = fold clear_tx [0..<num_tx s] s"
  have c1: "core s1 = core s" unfolding s1_def by (rule core_fold) (rule core_clear)
  have n1: "num_tx s1 = num_tx s" unfolding s1_def by (rule same_sel(3) [OF same_fold]) (rule same_clear_tx)
  let ?f = "gve_adminq_create_tx_queues (sy_err0 y) (sy_aq y) (tx_ring_ctl s1 rs) (num_tx s1)"
  obtain s2 where 2: "aq ?f s1 = (None, s2)" "st y k M s2" "sc_tx s2 = sc_tx s1" "sc_rx s2 = sc_rx s1" "sc_txq s2 = sc_txq s1" "sc_rxq s2 = sc_rxq s1"
    using aq_ok [OF ok_commands(2) [OF assms(1)]] st_core [OF c1] assms(2) by blast
  have n2: "num_tx s2 = num_tx s" using same_sel(3) [OF same_aq [OF frames_commands(2) 2(1)]] n1 by simp
  have l: "num_tx s \<le> length (sc_txq s2)" using r(3) 2(5) core_sel(5) [OF c1] by simp
  define s3 where "s3 = fold (start_created_tx y rs) [0..<num_tx s] s2"
  note S = start_txs [OF 2(2) l, of rs, folded s3_def]
  have nb: "\<not> (\<exists>i < num_tx s. \<not> tr_desc_ring (rs ! i) \<or> (is_gqi s \<and> tr_qpl (rs ! i) = None))" using r(2) gqi_qpl by blast
  have g: "gve_create_tx_rings y s = Some (None, set_flag TX_OK s3)"
    using assms(4) r(1) nb 2(1) n1 n2 unfolding gve_create_tx_rings_def Let_def s1_def [symmetric] s3_def by (simp add: n2)
  have cf: "core (set_flag TX_OK s3) = core s3" by simp
  show ?thesis using g S st_core [OF cf] core_sel [OF cf] core_sel [OF c1] 2 c1 cf
    by (intro exI [of _ "set_flag TX_OK s3"]) (simp add: core_def)
qed

lemma destroy_rx_ok:
  assumes "serves (sy_aq y)" "st y k (M + rxs s (num_rx s)) s" "rings_ready s" "RX_OK \<in> flags s"
  shows "\<exists>s'. gve_destroy_rx_rings y s = Some (None, s') \<and> st y k M s' \<and> sc_tx s' = sc_tx s \<and> sc_rx s' = sc_rx s \<and> sc_txq s' = sc_txq s"
proof -
  have n: "num_rx s \<le> length (sc_rxq s)" "0 < num_rx s" using assms(3) by (auto simp: rings_ready_def)
  obtain t where t: "fold_opt gve_stop_rx_ring [0..<num_rx s] s = Some t" "st y k M t" "sc_tx t = sc_tx s" "sc_rx t = sc_rx s" "sc_txq t = sc_txq s"
    using stop_rxs [of y k M 0 "num_rx s" s] assms(2) n(1) by (auto simp: rxs_def take_map)
  have e: "num_rx t = num_rx s" "flags t = flags s" using same_sel [OF same_fold_opt [OF same_stop_rx t(1)]] by simp_all
  obtain s' where 1: "aq (gve_adminq_destroy_rx_queues (sy_err0 y) (sy_aq y) (num_rx t)) t = (None, s')" "st y k M s'" "sc_tx s' = sc_tx t" "sc_rx s' = sc_rx t" "sc_txq s' = sc_txq t"
    using aq_ok [OF ok_commands(3) [OF assms(1)] t(2), of "num_rx t"] n(2) e(1) by auto
  have c: "core (clear_flag RX_OK s') = core s'" by simp
  show ?thesis using t(1,3-) 1 e assms(4) st_core [OF c] core_sel [OF c]
    by (intro exI [of _ "clear_flag RX_OK s'"]) (simp add: gve_destroy_rx_rings_def, simp add: clear_flag_def)
qed

lemma destroy_tx_ok:
  assumes "serves (sy_aq y)" "st y k (M + txs s (num_tx s)) s" "rings_ready s" "TX_OK \<in> flags s"
  shows "\<exists>s'. gve_destroy_tx_rings y s = Some (None, s') \<and> st y k M s' \<and> sc_tx s' = sc_tx s \<and> sc_rx s' = sc_rx s"
proof -
  have n: "num_tx s \<le> length (sc_txq s)" "0 < num_tx s" using assms(3) by (auto simp: rings_ready_def)
  obtain t where t: "fold_opt gve_stop_tx_ring [0..<num_tx s] s = Some t" "st y k M t" "sc_tx t = sc_tx s" "sc_rx t = sc_rx s"
    using stop_txs [of y k M 0 "num_tx s" s] assms(2) n(1) by (auto simp: txs_def take_map)
  have e: "num_tx t = num_tx s" "flags t = flags s" using same_sel [OF same_fold_opt [OF same_stop_tx t(1)]] by simp_all
  obtain s' where 1: "aq (gve_adminq_destroy_tx_queues (sy_err0 y) (sy_aq y) (num_tx t)) t = (None, s')" "st y k M s'" "sc_tx s' = sc_tx t" "sc_rx s' = sc_rx t"
    using aq_ok [OF ok_commands(4) [OF assms(1)] t(2), of "num_tx t"] n(2) e(1) by auto
  have c: "core (clear_flag TX_OK s') = core s'" by simp
  show ?thesis using t(1,3-) 1 e assms(4) st_core [OF c] core_sel [OF c]
    by (intro exI [of _ "clear_flag TX_OK s'"]) (simp add: gve_destroy_tx_rings_def)
qed

section \<open>Page lists\<close>

text \<open>A kernel that grants every request.\<close>

definition grants :: "kern \<Rightarrow> bool" where
  "grants k \<longleftrightarrow> (\<forall>c n. k_err k c n = None) \<and> (\<forall>n. k_load k n = None \<and> k_addr k n \<noteq> - 1)"

lemma dma_alloc_ok:
  assumes "acq k M k1" "grants k"
  shows "\<exists>h k2. gve_dma_alloc_coherent h0 k1 = Some (None, h, k2) \<and> h_tag h \<noteq> None \<and> acq k (own_dma DMA_MEM h + M) k2"
proof -
  have l: "loads_ok k" using assms(2) by (simp add: grants_def loads_ok_def)
  have "wp (gve_dma_alloc_coherent h0 k1) (\<lambda>(e, h, k2). e \<noteq> None \<or> h_tag h \<noteq> None \<and> acq k (own_dma DMA_MEM h + M) k2)"
    by (rule wp_dma_alloc [OF assms(1) l]) auto
  moreover have "gve_dma_alloc_coherent h0 k1 = Some (e, h, k2) \<Longrightarrow> e = None" for e h k2
    using assms by (auto simp: gve_dma_alloc_coherent_def dma_setup_def ktry_def kalloc_def bus_dmamap_load_def grants_def acq_def split: if_splits)
  ultimately show ?thesis by (auto simp: wp_def)
qed

definition rest :: "'d softc \<Rightarrow> (nat \<times> tx_res list) option \<times> (nat \<times> rx_res list) option \<times> tx_ctl list \<times> rx_ctl list" where
  "rest s = (sc_tx s, sc_rx s, sc_txq s, sc_rxq s)"

lemma register_ok:
  assumes "serves (sy_aq y)" "grants k" "st y k M s" "q \<noteq> None"
  shows "\<exists>s'. register_page_list y q s = Some (None, s') \<and> st y k M s' \<and> rest s' = rest s"
proof -
  obtain p where p: "q = Some p" using assms(4) by blast
  obtain h k2 where 1: "gve_dma_alloc_coherent null_dma (sc_kern s) = Some (None, h, k2)" "h_tag h \<noteq> None" "acq k (own_dma DMA_MEM h + M) k2"
    using dma_alloc_ok [OF _ assms(2), of M "sc_kern s" null_dma] assms(3) by (auto simp: st_def)
  obtain s1 where 2: "aq (gve_adminq_register_page_list (sy_aq y) (Inr \<lparr>bus_addr = h_bus h\<rparr>) (qpl_id p) (qpl_bus_addrs (Some p))) s = (None, s1)" "st y k M s1" "rest s1 = rest s"
    using aq_ok [OF ok_commands(5) [OF assms(1)] assms(3)] unfolding rest_def by metis
  obtain k3 where 3: "gve_dma_free_coherent h k2 = Some k3" "acq k M k3" using wp_dma_free [OF 1(3,2), of "acq k M"] by (auto simp: wp_def)
  show ?thesis using 1(1) 2 3 by (intro exI [of _ "s1\<lparr>sc_kern := k3\<rparr>"]) (simp add: register_page_list_def p st_def rest_def)
qed

lemma until_ok:
  assumes "\<And>i s. i \<in> set is \<Longrightarrow> st y k M s \<Longrightarrow> rest s = R \<Longrightarrow> \<exists>s'. f i s = Some (None, s') \<and> st y k M s' \<and> rest s' = R" "st y k M s" "rest s = R"
  shows "\<exists>s'. until_err f is s = Some (None, s') \<and> st y k M s' \<and> rest s' = R"
  using assms
proof (induction "is" arbitrary: s)
  case (Cons i "is")
  then obtain s1 where "f i s = Some (None, s1)" "st y k M s1" "rest s1 = R" by (metis list.set_intros(1))
  then show ?case using Cons.IH [of s1] Cons.prems(1) by simp
qed simp

lemma unregister_ok:
  assumes "serves (sy_aq y)" "\<And>i s. i \<in> set is \<Longrightarrow> rest s = R \<Longrightarrow> qpl i s \<noteq> None" "st y k M s" "rest s = R" "is \<noteq> []"
  shows "\<exists>s'. unregister_loop y qpl is (e, s) = Some (None, s') \<and> st y k M s' \<and> rest s' = R"
  using assms(2-)
proof (induction "is" arbitrary: s e)
  case (Cons i "is")
  obtain q where q: "qpl i s = Some q" using Cons.prems(1) [of i s] Cons.prems(3) by auto
  obtain s1 where 1: "aq (gve_adminq_unregister_page_list (sy_aq y) (qpl_id q)) s = (None, s1)" "st y k M s1" "rest s1 = R"
    using aq_ok [OF ok_commands(6) [OF assms(1)] Cons.prems(2)] Cons.prems(3) unfolding rest_def by metis
  show ?case
  proof (cases "is")
    case Nil
    then show ?thesis using q 1 by simp
  next
    case (Cons j js)
    then show ?thesis using Cons.IH [of s1 None] Cons.prems(1) q 1 by simp
  qed
qed simp


lemma ready_qpl:
  assumes "rings_ready s" "is_qpl s" "rest t = rest s"
  shows "i < num_tx s \<Longrightarrow> tx_qpl i t \<noteq> None" "i < num_rx s \<Longrightarrow> rx_qpl i t \<noteq> None"
  using assms by (auto simp: rings_ready_def tx_qpl_def rx_qpl_def rest_def split: option.splits)

lemma rest_flag [simp]: "rest (set_flag f s) = rest s" "rest (clear_flag f s) = rest s"
  by (simp_all add: rest_def set_flag_def clear_flag_def)

lemma st_flag [simp]: "st y k M (set_flag f s) = st y k M s" "st y k M (clear_flag f s) = st y k M s"
  by (rule st_core, simp)+

lemma register_qpls_ok:
  assumes "serves (sy_aq y)" "grants k" "st y k M s" "rings_ready s" "is_qpl s" "QPL_OK \<notin> flags s"
  shows "\<exists>s'. gve_register_qpls y s = Some (None, s') \<and> st y k M s' \<and> rest s' = rest s"
proof -
  let ?t = "\<lambda>i s. register_page_list y (tx_qpl i s) s" and ?r = "\<lambda>i s. register_page_list y (rx_qpl i s) s"
  have r: "\<exists>u. register_page_list y q t = Some (None, u) \<and> st y k M u \<and> rest u = rest s" if "st y k M t" "rest t = rest s" "q \<noteq> None" for q t
    using register_ok [OF assms(1,2) that(1,3)] that(2) by simp
  have "\<exists>s1. until_err ?t [0..<num_tx s] s = Some (None, s1) \<and> st y k M s1 \<and> rest s1 = rest s"
    by (rule until_ok [OF _ assms(3) refl]) (rule r, simp_all add: ready_qpl(1) [OF assms(4,5), simplified])
  then obtain s1 where 1: "until_err ?t [0..<num_tx s] s = Some (None, s1)" "st y k M s1" "rest s1 = rest s" by blast
  have n: "num_rx s1 = num_rx s" by (rule same_sel(4) [OF same_until_err [OF _ 1(1)]]) (rule same_register_page_list)
  have "\<exists>s2. until_err ?r [0..<num_rx s1] s1 = Some (None, s2) \<and> st y k M s2 \<and> rest s2 = rest s"
    by (rule until_ok [OF _ 1(2,3)]) (rule r, simp_all add: ready_qpl(2) [OF assms(4,5), simplified] n)
  then obtain s2 where 2: "until_err ?r [0..<num_rx s1] s1 = Some (None, s2)" "st y k M s2" "rest s2 = rest s" by blast
  show ?thesis using 1(1) 2 assms(6) by (intro exI [of _ "set_flag QPL_OK s2"]) (simp add: gve_register_qpls_def)
qed

lemma unregister_qpls_ok:
  assumes "serves (sy_aq y)" "st y k M s" "rings_ready s" "is_qpl s" "QPL_OK \<in> flags s"
  shows "\<exists>s'. gve_unregister_qpls y s = Some (None, s') \<and> st y k M s' \<and> rest s' = rest s"
proof -
  have n: "0 < num_tx s" "0 < num_rx s" using assms(3) by (auto simp: rings_ready_def)
  have "\<exists>s1. unregister_loop y tx_qpl [0..<num_tx s] (sy_err0 y, s) = Some (None, s1) \<and> st y k M s1 \<and> rest s1 = rest s"
    by (rule unregister_ok [OF assms(1) _ assms(2) refl]) (simp_all add: ready_qpl(1) [OF assms(3,4), simplified] n)
  then obtain s1 where 1: "unregister_loop y tx_qpl [0..<num_tx s] (sy_err0 y, s) = Some (None, s1)" "st y k M s1" "rest s1 = rest s" by blast
  have n1: "num_rx s1 = num_rx s" using same_sel(4) [OF same_unregister_loop [OF 1(1)]] .
  have "\<exists>s2. unregister_loop y rx_qpl [0..<num_rx s1] (None, s1) = Some (None, s2) \<and> st y k M s2 \<and> rest s2 = rest s"
    by (rule unregister_ok [OF assms(1) _ 1(2,3)]) (simp_all add: ready_qpl(2) [OF assms(3,4), simplified] n n1)
  then obtain s2 where 2: "unregister_loop y rx_qpl [0..<num_rx s1] (None, s1) = Some (None, s2)" "st y k M s2" "rest s2 = rest s" by blast
  show ?thesis using 1(1) 2 assms(5) by (intro exI [of _ "clear_flag QPL_OK s2"]) (simp add: gve_unregister_qpls_def)
qed

section \<open>Up and down\<close>

lemma ready_fixed:
  assumes "rings_ready s" "fixed s s'" "sc_tx s' = sc_tx s" "sc_rx s' = sc_rx s"
  shows "rings_ready s'"
proof -
  have "map tx_is_gqi (sc_txq s') = map tx_is_gqi (sc_txq s)" "map rx_is_gqi (sc_rxq s') = map rx_is_gqi (sc_rxq s)"
    using assms(2) by (simp_all add: fixed_def shape_def)
  then have l: "length (sc_txq s') = length (sc_txq s)" "length (sc_rxq s') = length (sc_rxq s)" by (auto dest: map_eq_imp_length_eq)
  show ?thesis using assms(1) unfolding rings_ready_def assms(3,4) l fixed_sel [OF assms(2)] .
qed

lemmas ready_keep = ready_fixed [OF _ keep_fixed]

lemma create_all_ok:
  assumes "serves (sy_aq y)" "grants k" "st y k {#} s" "rings_ready s" "flags s \<inter> {RX_OK, TX_OK, QPL_OK} = {}"
  shows "\<exists>s'. create_all y s = Some (None, s') \<and> st y k (rxs s' (num_rx s) + txs s' (num_tx s)) s' \<and> sc_tx s' = sc_tx s \<and> sc_rx s' = sc_rx s"
proof -
  obtain s1 where 1: "(if is_qpl s then gve_register_qpls y s else Some (None, s)) = Some (None, s1)" "st y k {#} s1" "rest s1 = rest s"
    using register_qpls_ok [OF assms(1-4)] assms(3,5) by (cases "is_qpl s") auto
  have k1: "keep s s1" "flags s1 \<subseteq> flags s \<union> {QPL_OK}" using 1(1) register_effect [of y s None s1] by (auto simp: same_keep split: if_splits)
  have e1: "sc_tx s1 = sc_tx s" "sc_rx s1 = sc_rx s" using 1(3) by (simp_all add: rest_def)
  have r1: "rings_ready s1" by (rule ready_keep [OF assms(4) k1(1) e1])
  obtain s2 where 2: "gve_create_rx_rings y s1 = Some (None, s2)" "st y k (rxs s2 (num_rx s1)) s2" "sc_tx s2 = sc_tx s1" "sc_rx s2 = sc_rx s1"
    using create_rx_ok [OF assms(1) 1(2) r1] k1(2) assms(5) by auto
  have k2: "keep s1 s2" "flags s2 = insert RX_OK (flags s1)" using create_rx_effect [OF 2(1)] by (auto simp: same_keep)
  have r2: "rings_ready s2" by (rule ready_keep [OF r1 k2(1) 2(3,4)])
  obtain s3 where 3: "gve_create_tx_rings y s2 = Some (None, s3)" "st y k (rxs s2 (num_rx s1) + txs s3 (num_tx s2)) s3" "sc_tx s3 = sc_tx s2" "sc_rx s3 = sc_rx s2"
    "map tq_rx (sc_rxq s3) = map tq_rx (sc_rxq s2)"
    using create_tx_ok [OF assms(1) 2(2) r2] k1(2) k2(2) assms(5) by auto
  have "rxs s3 n = rxs s2 n" for n using 3(5) by (simp add: rxs_def)
  moreover have "num_rx s1 = num_rx s" "num_tx s2 = num_tx s" using keep_sel(1,2) [OF k1(1)] keep_sel(1) [OF k2(1)] by simp_all
  moreover have "create_all y s = Some (None, s3)" using 1(1) 2(1) 3(1) by (simp add: create_all_def)
  ultimately show ?thesis using 3 2 e1 by simp
qed

lemma destroy_all_ok:
  assumes "serves (sy_aq y)" "st y k (rxs s (num_rx s) + txs s (num_tx s)) s" "rings_ready s" "{RX_OK, TX_OK} \<subseteq> flags s" "is_qpl s \<Longrightarrow> QPL_OK \<in> flags s"
  shows "\<exists>s'. destroy_all y s = Some (None, s') \<and> st y k {#} s' \<and> sc_tx s' = sc_tx s \<and> sc_rx s' = sc_rx s"
proof -
  have "st y k (txs s (num_tx s) + rxs s (num_rx s)) s" using assms(2) by (simp add: ac_simps)
  then obtain s1 where 1: "gve_destroy_rx_rings y s = Some (None, s1)" "st y k (txs s (num_tx s)) s1" "sc_tx s1 = sc_tx s" "sc_rx s1 = sc_rx s" "sc_txq s1 = sc_txq s"
    using destroy_rx_ok [OF assms(1) _ assms(3)] assms(4) by blast
  have k1: "keep s s1" "flags s1 = flags s - {RX_OK}" using destroy_rx_effect(1) [OF 1(1)] by (auto simp: same_keep)
  have r1: "rings_ready s1" by (rule ready_keep [OF assms(3) k1(1) 1(3,4)])
  have "st y k ({#} + txs s1 (num_tx s1)) s1" using 1(2,5) keep_sel(1) [OF k1(1)] by (simp add: txs_def)
  then obtain s2 where 2: "gve_destroy_tx_rings y s1 = Some (None, s2)" "st y k {#} s2" "sc_tx s2 = sc_tx s1" "sc_rx s2 = sc_rx s1"
    using destroy_tx_ok [OF assms(1) _ r1] k1(2) assms(4) by blast
  have k2: "keep s1 s2" "flags s2 = flags s1 - {TX_OK}" using destroy_tx_effect(1) [OF 2(1)] by (auto simp: same_keep)
  have r2: "rings_ready s2" by (rule ready_keep [OF r1 k2(1) 2(3,4)])
  have q: "is_qpl s2 = is_qpl s" using keep_sel(4) [OF k1(1)] keep_sel(4) [OF k2(1)] by simp
  obtain s3 where 3: "(if is_qpl s2 then gve_unregister_qpls y s2 else Some (None, s2)) = Some (None, s3)" "st y k {#} s3" "rest s3 = rest s2"
    using unregister_qpls_ok [OF assms(1) 2(2) r2] 2(2) k1(2) k2(2) q assms(5) by (cases "is_qpl s2") auto
  have "destroy_all y s = Some (None, s3)" using 1(1) 2(1) 3(1) by (simp add: destroy_all_def)
  then show ?thesis using 3 1 2 by (simp add: rest_def)
qed


lemma core_st: "core s' = core s \<Longrightarrow> st y k M s \<Longrightarrow> st y k M s'"
  using st_core by blast

lemma up_ok:
  assumes "serves (sy_aq y)" "grants k" "st y k {#} s" "rings_ready s" "sc_attached s" "flags s \<inter> {UP, RX_OK, TX_OK, QPL_OK} = {}"
  shows "\<exists>s'. gve_up y s = Some (None, s') \<and> st y k (rxs s' (num_rx s') + txs s' (num_tx s')) s' \<and> sc_tx s' = sc_tx s \<and> sc_rx s' = sc_rx s"
proof -
  define h where "h = s\<lparr>if_hwassist := hwassist_of (if_capenable s)\<rparr>"
  have c: "core h = core s" "flags h = flags s" "fixed s h" by (simp_all add: h_def fixed_def shape_def)
  have e: "sc_tx h = sc_tx s" "sc_rx h = sc_rx s" by (simp_all add: h_def)
  obtain t where t: "create_all y h = Some (None, t)" "st y k (rxs t (num_rx h) + txs t (num_tx h)) t" "sc_tx t = sc_tx h" "sc_rx t = sc_rx h"
    using create_all_ok [OF assms(1,2) core_st [OF c(1) assms(3)] ready_fixed [OF assms(4) c(3) e]] c(2) assms(6) by auto
  have g: "gve_up y s = Some (None, up_finish t)" using t(1) assms(5,6) by (simp add: gve_up_def h_def)
  have f: "core (up_finish t) = core t" by (rule core_finish)
  have n: "num_rx (up_finish t) = num_rx h" "num_tx (up_finish t) = num_tx h"
    using fixed_sel [OF up_finish_effect(1) [of t]] keep_sel(1,2) [OF create_all_effect(1) [OF t(1)]] by simp_all
  show ?thesis using g core_st [OF f t(2)] core_sel [OF f] n t(3,4) e by simp
qed

lemma down_ok:
  assumes "serves (sy_aq y)" "st y k (rxs s (num_rx s) + txs s (num_tx s)) s" "rings_ready s" "{UP, RX_OK, TX_OK} \<subseteq> flags s" "is_qpl s \<Longrightarrow> QPL_OK \<in> flags s"
  shows "\<exists>s'. gve_down y s = Some s' \<and> UP \<notin> flags s' \<and> st y k {#} s' \<and> sc_tx s' = sc_tx s \<and> sc_rx s' = sc_rx s"
proof -
  define s1 where "s1 = gve_stop_tx_timeout_service s"
  define s2 where "s2 = (if get_flag s1 LINK then link_down s1 else s1)"
  define s3 where "s3 = s2\<lparr>if_running := False, if_oactive := True\<rparr>"
  have c: "core s3 = core s" by (simp add: s3_def s2_def s1_def)
  have "fixed s s1" "flags s1 = flags s" by (simp_all add: s1_def gve_stop_tx_timeout_service_def fixed_def shape_def)
  moreover have "fixed s1 s2" "flags s2 = flags s1 - {LINK}" by (auto simp: s2_def)
  moreover have "fixed s2 s3" "flags s3 = flags s2" by (simp_all add: s3_def fixed_def shape_def)
  ultimately have f: "fixed s s3" "flags s3 = flags s - {LINK}" by (auto intro: fixed_trans)
  have "st y k (rxs s3 (num_rx s3) + txs s3 (num_tx s3)) s3" using core_st [OF c assms(2)] core_sel [OF c] fixed_sel [OF f(1)] by simp
  moreover have "rings_ready s3" by (rule ready_fixed [OF assms(3) f(1) core_sel(1,2) [OF c]])
  moreover have "is_qpl s3 \<Longrightarrow> QPL_OK \<in> flags s3" "{RX_OK, TX_OK} \<subseteq> flags s3" using assms(4,5) f(2) fixed_sel [OF f(1)] by auto
  ultimately obtain t where t: "destroy_all y s3 = Some (None, t)" "st y k {#} t" "sc_tx t = sc_tx s3" "sc_rx t = sc_rx s3"
    using destroy_all_ok [OF assms(1)] by blast
  have g: "gve_down y s = do {(e, s) \<leftarrow> destroy_all y s3; Some (if e \<noteq> None then gve_schedule_reset s else down_finish s)}"
    unfolding gve_down_def Let_def s1_def s2_def s3_def using assms(4) by (simp only: flag_simps(1) not_True_eq_False if_False insert_subset)
  have d: "core (down_finish t) = core t" by (rule core_finish)
  show ?thesis using g t core_st [OF d t(2)] core_sel [OF d] core_sel [OF c] down_finish_effect(2) [of t] by simp
qed



subsection \<open>An example\<close>

definition ok_dev :: "sim aq_device" where
  "ok_dev = (sim_dev [])\<lparr>dev_event_counter := (\<lambda>d q.
     if sim_count d = sim_rung d then (sim_count d, q, d)
     else let i = unat (sim_count d AND mask 6)
          in (sim_count d + 1, q[i := (q ! i)\<lparr>cmd_status := GVE_ADMINQ_COMMAND_PASSED\<rparr>], d\<lparr>sim_count := sim_count d + 1\<rparr>))\<rparr>"

lemma ok_dev_idle: "aq_idle ok_dev c d \<longleftrightarrow> sim_count d = c \<and> sim_rung d = c"
proof -
  have "d\<lparr>sim_count := sim_count d + 1\<rparr> \<noteq> d"
  proof
    assume "d\<lparr>sim_count := sim_count d + 1\<rparr> = d"
    then have "sim_count (d\<lparr>sim_count := sim_count d + 1\<rparr>) = sim_count d" by (rule arg_cong)
    then show False by simp
  qed
  then show ?thesis by (auto simp: aq_idle_def ok_dev_def Let_def split: if_splits)
qed

lemma ok_dev_serves: "serves ok_dev"
  unfolding serves_def
proof (intro allI impI)
  fix c d and q :: "gve_adminq_command list"
  assume "aq_idle ok_dev c d"
  then have d: "sim_count d = c" "sim_rung d = c" by (simp_all add: ok_dev_idle)
  let ?d = "dev_doorbell ok_dev (c + 1) d"
  have r: "?d = d\<lparr>sim_rung := c + 1\<rparr>" by (simp add: ok_dev_def sim_dev_def)
  have "aq_busy ok_dev c (unat (c AND mask 6)) GVE_ADMINQ_COMMAND_PASSED q ?d 0 (?d\<lparr>sim_count := c + 1\<rparr>)"
    unfolding r by (rule aq_completes) (simp add: ok_dev_idle, simp add: ok_dev_def Let_def d)
  then show "\<exists>r < GVE_MAX_ADMINQ_EVENT_COUNTER_CHECK. \<exists>d'. aq_busy ok_dev c (unat (c AND mask 6)) GVE_ADMINQ_COMMAND_PASSED q ?d r d'"
    by (intro exI [of _ 0]) (auto simp: GVE_MAX_ADMINQ_EVENT_COUNTER_CHECK_def)
qed

definition ex_ok :: "sim sys" where
  "ex_ok = ex_sys\<lparr>sy_aq := ok_dev\<rparr>"

text \<open>Attached, not up, with two transmit rings and one receive ring.\<close>

definition ex_off :: "sim softc" where
  "ex_off = ex_up\<lparr>sc_priv := ex_cpriv\<lparr>state_flags := {GVE_STATE_FLAG_ADMINQ_OK, GVE_STATE_FLAG_RESOURCES_OK}\<rparr>,
     sc_tx := Some (1, replicate 2 (null_tx_res\<lparr>tr_desc_ring := True\<rparr>)), sc_rx := Some (2, replicate 2 (null_rx_res\<lparr>rr_desc_ring := True\<rparr>)),
     sc_timer := False, if_running := False\<rparr>"


end
